(* ===== verification/Ext_Prelude.thy ===== *)
theory Ext_Prelude
  imports Main "HOL-Library.Word" "HOL-Library.Sublist"
begin

text \<open>
  Shared vocabulary of the development: the addresses that stand for C++ pointers, C's
  integer division, the 64-bit wrap-around of \<open>int64_t\<close> arithmetic, the doubly linked
  chains and rings the collector's cell list is made of, and the lemma collections the
  components use.
\<close>

section \<open>Addresses and machine integers\<close>

text \<open>
  A C++ pointer is a natural number; pointer arithmetic inside one array of cells is
  addition of cell indices.
\<close>

type_synonym addr = nat

text \<open>An IEEE double is its bit pattern; \<open>Doubles\<close> computes with it.\<close>

type_synonym double = "64 word"

text \<open>C++ truncates integer division towards zero, and \<open>%\<close> takes the dividend's sign.\<close>

definition cdiv :: "int \<Rightarrow> int \<Rightarrow> int" where
  "cdiv a b = sgn a * sgn b * (\<bar>a\<bar> div \<bar>b\<bar>)"

definition crem :: "int \<Rightarrow> int \<Rightarrow> int" where
  "crem a b = a - b * cdiv a b"

text \<open>Two's complement value of the low 64 bits.\<close>

definition wrap64 :: "int \<Rightarrow> int" where
  "wrap64 x = (x + 2 ^ 63) mod 2 ^ 64 - 2 ^ 63"

definition in_i64 :: "int \<Rightarrow> bool" where
  "in_i64 x \<longleftrightarrow> - (2 ^ 63) \<le> x \<and> x < 2 ^ 63"

lemma wrap64_id [simp]: "in_i64 x \<Longrightarrow> wrap64 x = x"
  by (simp add: wrap64_def in_i64_def)

lemma wrap64_range: "in_i64 (wrap64 x)"
  using pos_mod_bound [of "2 ^ 64 :: int" "x + 2 ^ 63"] pos_mod_sign [of "2 ^ 64 :: int" "x + 2 ^ 63"]
  by (simp add: wrap64_def in_i64_def)

lemma crem_abs: "crem a b = sgn a * (\<bar>a\<bar> mod \<bar>b\<bar>)"
proof -
  have "crem a b = a - b * (sgn b * (sgn a * (\<bar>a\<bar> div \<bar>b\<bar>)))"
    by (simp add: crem_def cdiv_def ac_simps)
  also have "\<dots> = sgn a * \<bar>a\<bar> - sgn a * (\<bar>b\<bar> * (\<bar>a\<bar> div \<bar>b\<bar>))"
    by (simp only: mult.assoc [symmetric] mult_sgn_abs) (simp add: abs_sgn ac_simps)
  also have "\<dots> = sgn a * (\<bar>a\<bar> mod \<bar>b\<bar>)"
    by (simp add: right_diff_distrib flip: minus_mult_div_eq_mod)
  finally show ?thesis .
qed

lemma crem_bound: "b \<noteq> 0 \<Longrightarrow> \<bar>crem a b\<bar> < \<bar>b\<bar>"
  by (auto simp: crem_abs abs_mult abs_sgn_eq)

lemma crem_zero [simp]: "crem a 0 = a" "crem 0 b = 0"
  by (simp_all add: crem_def cdiv_def)

lemma crem_mult: "crem (k * a) (k * b) = k * crem a b"
proof -
  have "\<bar>k * a\<bar> mod \<bar>k * b\<bar> = \<bar>k\<bar> * (\<bar>a\<bar> mod \<bar>b\<bar>)"
    by (simp only: abs_mult mult_mod_right)
  then have "crem (k * a) (k * b) = (sgn k * \<bar>k\<bar>) * (sgn a * (\<bar>a\<bar> mod \<bar>b\<bar>))"
    by (simp add: crem_abs sgn_mult)
  then show ?thesis by (simp add: crem_abs mult_sgn_abs)
qed

lemma cdiv_mult_cancel: "b \<noteq> 0 \<Longrightarrow> cdiv (b * c) b = c"
proof -
  assume b: "b \<noteq> 0"
  have "cdiv (b * c) b = (sgn b * sgn b) * (sgn c * \<bar>c\<bar>)"
    using b by (simp add: cdiv_def abs_mult sgn_mult)
  also have "sgn b * sgn b = 1" using b by (simp add: sgn_if)
  finally show ?thesis by (simp add: mult_sgn_abs)
qed

lemma cdiv_one [simp]: "cdiv a 1 = a"
  using cdiv_mult_cancel [of 1 a] by simp

lemma crem_eq_0_iff: "crem a b = 0 \<longleftrightarrow> b dvd a"
proof -
  have "crem a b = 0 \<longleftrightarrow> a = 0 \<or> \<bar>a\<bar> mod \<bar>b\<bar> = 0" by (simp add: crem_abs sgn_0_0)
  also have "\<dots> \<longleftrightarrow> b dvd a" by (auto simp flip: dvd_eq_mod_eq_0)
  finally show ?thesis .
qed

section \<open>Doubly linked chains and rings\<close>

text \<open>
  \<open>chain cw ccw xs\<close>: neighbours of the list \<open>xs\<close> are linked both ways. \<open>ring cw ccw xs\<close>:
  \<open>xs\<close> lists a circular doubly linked list once, clockwise.
\<close>

fun chain :: "(addr \<Rightarrow> addr) \<Rightarrow> (addr \<Rightarrow> addr) \<Rightarrow> addr list \<Rightarrow> bool" where
  "chain cw ccw (x # y # zs) = (cw x = y \<and> ccw y = x \<and> chain cw ccw (y # zs))"
| "chain cw ccw _ = True"

definition ring :: "(addr \<Rightarrow> addr) \<Rightarrow> (addr \<Rightarrow> addr) \<Rightarrow> addr list \<Rightarrow> bool" where
  "ring cw ccw xs \<longleftrightarrow> xs \<noteq> [] \<and> distinct xs \<and> chain cw ccw (xs @ [hd xs])"

lemma chain_append:
  "chain cw ccw (xs @ x # ys) \<longleftrightarrow> chain cw ccw (xs @ [x]) \<and> chain cw ccw (x # ys)"
proof (induction xs)
  case (Cons a xs) then show ?case by (cases xs) auto
qed simp

lemma chain_Cons:
  "chain cw ccw (x # ys) \<longleftrightarrow> ys = [] \<or> cw x = hd ys \<and> ccw (hd ys) = x \<and> chain cw ccw ys"
  by (cases ys) auto

lemma chain_cong:
  "\<lbrakk>\<And>x. x \<in> set (butlast xs) \<Longrightarrow> cw x = cw' x; \<And>x. x \<in> set (tl xs) \<Longrightarrow> ccw x = ccw' x\<rbrakk>
   \<Longrightarrow> chain cw ccw xs = chain cw' ccw' xs"
proof (induction xs)
  case (Cons a xs)
  show ?case
  proof (cases xs)
    case (Cons b ys)
    have "chain cw ccw xs = chain cw' ccw' xs"
      using Cons.prems Cons by (intro Cons.IH) (auto dest: list.set_sel(2))
    then show ?thesis using Cons.prems Cons by simp
  qed simp
qed simp

lemma ring_rotate: "ring cw ccw (xs @ ys) \<Longrightarrow> ring cw ccw (ys @ xs)"
proof (cases xs; cases ys)
  fix a as b bs
  assume r: "ring cw ccw (xs @ ys)" and [simp]: "xs = a # as" "ys = b # bs"
  from r have "chain cw ccw ((a # as) @ b # (bs @ [a]))" by (simp add: ring_def)
  then have c1: "chain cw ccw ((a # as) @ [b])" and c2: "chain cw ccw ((b # bs) @ [a])"
    using chain_append [of cw ccw "a # as" b "bs @ [a]"] by simp_all
  have "chain cw ccw ((b # bs) @ a # (as @ [b]))"
    using chain_append [of cw ccw "b # bs" a "as @ [b]"] c1 c2 by simp
  with r show ?thesis by (auto simp: ring_def)
qed (auto simp: ring_def)

lemma ring_cw: "ring cw ccw (x # y # zs) \<Longrightarrow> cw x = y \<and> ccw y = x"
  by (simp add: ring_def)

lemma ring_step: "ring cw ccw (xs @ x # y # ys) \<Longrightarrow> cw x = y \<and> ccw y = x"
  by (drule ring_rotate [of _ _ xs]) (simp add: ring_def)

lemma ring_wrap: "ring cw ccw (x # ys) \<Longrightarrow> cw (last (x # ys)) = x \<and> ccw x = last (x # ys)"
proof (cases ys rule: rev_cases)
  case (snoc zs z)
  assume "ring cw ccw (x # ys)"
  then have "ring cw ccw ((x # zs) @ [z])" by (simp add: snoc)
  then have "ring cw ccw (z # x # zs)" by (drule_tac ring_rotate) simp
  then show ?thesis by (simp add: snoc ring_def)
qed (simp add: ring_def)

text \<open>Taking a cell out of a ring, and putting one in behind another.\<close>

lemma ring_unlink:
  assumes r: "ring cw ccw (p # ys)" and ys: "ys \<noteq> []"
  shows "ring (cw(last ys := hd ys)) (ccw(hd ys := last ys)) ys"
proof -
  obtain y zs where [simp]: "ys = y # zs" using ys by (cases ys) auto
  from r have d: "distinct (p # ys)" and c: "chain cw ccw ((y # zs) @ [p])"
    by (auto simp: ring_def)
  have "chain (cw(last ys := hd ys)) (ccw(hd ys := last ys)) (ys @ [hd ys])"
  proof (cases zs rule: rev_cases)
    case (snoc us u)
    from c have "chain cw ccw (y # us @ [u])"
      using chain_append [of cw ccw "y # us" u "[p]"] by (simp add: snoc)
    then have "chain (cw(u := y)) (ccw(y := u)) (y # us @ [u])"
      using d by (subst chain_cong [where cw' = cw and ccw' = ccw])
        (auto simp: snoc butlast_append)
    then have "chain (cw(u := y)) (ccw(y := u)) ((y # us) @ u # [y])"
      using chain_append [of "cw(u := y)" "ccw(y := u)" "y # us" u "[y]"] by simp
    then show ?thesis by (simp add: snoc)
  qed simp
  with d show ?thesis by (simp add: ring_def)
qed

lemma ring_insert:
  assumes r: "ring cw ccw (t # ys)" and p: "p \<notin> set (t # ys)"
  shows "ring (cw(p := cw t, t := p)) (ccw(p := t, cw t := p)) (t # p # ys)"
proof (cases ys)
  case Nil
  with r p show ?thesis by (auto simp: ring_def)
next
  case (Cons y zs)
  from r have d: "distinct (t # ys)" and c: "chain cw ccw (y # zs @ [t])" and ty: "cw t = y"
    by (auto simp: ring_def Cons)
  have "chain (cw(p := y, t := p)) (ccw(p := t, y := p)) (y # zs @ [t])"
    using c d p by (subst chain_cong [where cw' = cw and ccw' = ccw]) (auto simp: Cons butlast_append)
  with d p show ?thesis by (auto simp: ring_def Cons ty)
qed

section \<open>Bytes, text and errors\<close>

text \<open>C++ \<open>char\<close> buffers and strings are lists of bytes; \<open>ascii\<close> gives the bytes of a literal.\<close>

type_synonym byte = "8 word"

definition chr :: "char \<Rightarrow> byte" where
  "chr c = of_char c"

definition ascii :: "string \<Rightarrow> byte list" where
  "ascii s = map chr s"

lemma unat_chr: "unat (chr c) = of_char c"
proof -
  have "of_char c < (256 :: nat)" by (rule nat_of_char_less_256)
  moreover have "chr c = of_nat (of_char c)" by (simp only: chr_def of_nat_of_char)
  ultimately show ?thesis by (simp add: unsigned_of_nat take_bit_eq_mod)
qed

lemma chr_eq [simp]: "chr c = chr d \<longleftrightarrow> c = d"
proof
  assume "chr c = chr d"
  then have "unat (chr c) = unat (chr d)" by (rule arg_cong)
  then have "(of_char c :: nat) = of_char d" by (simp only: unat_chr)
  then show "c = d" by (simp only: of_char_eq_iff)
qed simp

text \<open>Sequencing of computations that may fail.\<close>

definition ebind :: "'e + 'a \<Rightarrow> ('a \<Rightarrow> 'e + 'b) \<Rightarrow> 'e + 'b" where
  "ebind m f = (case m of Inl e \<Rightarrow> Inl e | Inr x \<Rightarrow> f x)"

lemma ebind_simps [simp]: "ebind (Inl e) f = Inl e" "ebind (Inr x) f = f x"
  by (simp_all add: ebind_def)

lemma ebind_Inr: "ebind m f = Inr y \<longleftrightarrow> (\<exists>x. m = Inr x \<and> f x = Inr y)"
  by (cases m) auto

text \<open>Decimal text of integers, as streams and \<open>printf\<close> write it.\<close>

fun dec_nat :: "nat \<Rightarrow> byte list" where
  "dec_nat n = (if n < 10 then [of_nat (48 + n)] else dec_nat (n div 10) @ [of_nat (48 + n mod 10)])"

declare dec_nat.simps [simp del]

definition dec_int :: "int \<Rightarrow> byte list" where
  "dec_int i = (if i < 0 then 45 # dec_nat (nat (- i)) else dec_nat (nat i))"

section \<open>Tables\<close>

text \<open>
  The interface of the program's keyed tables: an insertion shadows what was there under the same
  key and leaves every other key alone.
\<close>

locale keyed_table =
  fixes key :: "'n \<Rightarrow> 'k" and insert_at :: "'n \<Rightarrow> 'v \<Rightarrow> 't \<Rightarrow> 't" and lookup :: "'t \<Rightarrow> 'k \<Rightarrow> 'v option"
  assumes lookup_insert: "lookup (insert_at n v t) k = (if k = key n then Some v else lookup t k)"
begin

lemma lookup_same: "lookup (insert_at n v t) (key n) = Some v"
  by (simp add: lookup_insert)

lemma lookup_other: "k \<noteq> key n \<Longrightarrow> lookup (insert_at n v t) k = lookup t k"
  by (simp add: lookup_insert)

lemma lookup_all:
  "lookup (foldr (\<lambda>(n, v) t. insert_at n v t) nvs t) k =
     (case map_of (map (\<lambda>(n, v). (key n, v)) nvs) k of None \<Rightarrow> lookup t k | Some v \<Rightarrow> Some v)"
  by (induction nvs) (auto simp: lookup_insert)

lemma lookup_swap: "key n \<noteq> key n' \<Longrightarrow>
  lookup (insert_at n v (insert_at n' v' t)) k = lookup (insert_at n' v' (insert_at n v t)) k"
  by (simp add: lookup_insert)

end

end
