(* ===== verification/Treadmill.thy ===== *)
theory Treadmill
  imports Ext_Prelude
begin

text \<open>
  The concurrent treadmill collector of \<open>src/Scheme.cpp\<close>: the cell segment and its circular
  doubly linked list, the four pointers that divide it (\<open>treadmill_free\<close>, \<open>treadmill_bottom\<close>,
  \<open>treadmill_top\<close>, \<open>treadmill_scan\<close>), and the operations \<open>alloc_cellseg\<close>, \<open>unlink\<close>,
  \<open>insert_treadmill\<close>, \<open>get_cell\<close>, \<open>_cons\<close>, \<open>treadmill_mark_roots\<close>, \<open>treadmill_flip\<close> and the
  scanner's loop. The fields of \<open>struct cell\<close> are one function each (\<open>t_cw\<close>, \<open>t_ccw\<close>,
  \<open>t_colour\<close>, \<open>t_obj\<close>). The \<open>TREADMILL_CHECKS\<close> blocks are compiled out and not modelled.
\<close>

section \<open>State\<close>

text \<open>One frame of a dump stack (\<open>struct dump_stack_frame\<close>), as far as the collector reads it.\<close>

record dframe =
  df_args :: addr
  df_envir :: addr
  df_code :: addr

text \<open>
  What the collector reads of a cell: the type bits it tests, the two pointers of a pair, the
  elements of a vector and, for a dump block, its frames.
\<close>

record gobj =
  o_vector :: bool
  o_cont :: bool
  o_atom :: bool
  o_car :: addr
  o_cdr :: addr
  o_elems :: "addr list"
  o_frames :: "dframe list"

record treadmill =
  t_cw :: "addr \<Rightarrow> addr"
  t_ccw :: "addr \<Rightarrow> addr"
  t_colour :: "addr \<Rightarrow> bool"
  t_obj :: "addr \<Rightarrow> gobj"
  t_dark :: bool
  t_bottom :: addr
  t_top :: addr
  t_free :: addr
  t_scan :: addr
  t_inserts :: nat
  t_total :: nat
  t_request :: int
  t_error :: bool

text \<open>The roots, as \<open>treadmill_mark_roots\<close> visits them.\<close>

record gc_roots =
  r_oblist :: addr
  r_global_env :: addr
  r_args :: addr
  r_envir :: addr
  r_code :: addr
  r_frames :: "dframe list"
  r_tmp_dump :: addr
  r_value :: addr
  r_inport :: addr
  r_save_inport :: addr
  r_outport :: addr
  r_loadport :: addr
  r_T :: addr
  r_F :: addr
  r_NIL :: addr
  r_EOF_OBJ :: addr
  r_sink :: addr
  r_imp_env :: "addr list"

section \<open>Linking cells\<close>

definition unlink :: "treadmill \<Rightarrow> addr \<Rightarrow> treadmill" where
  "unlink sc p =
     (let cw = t_cw sc p; ccw = t_ccw sc p
      in sc\<lparr>t_ccw := (t_ccw sc)(cw := ccw), t_cw := (t_cw sc)(ccw := cw)\<rparr>)"

text \<open>
  The end of \<open>insert_treadmill\<close>: \<open>p\<close> leaves its place, turns dark and is linked clockwise
  of \<open>at\<close>.
\<close>

definition relink :: "treadmill \<Rightarrow> addr \<Rightarrow> addr \<Rightarrow> treadmill" where
  "relink sc p at =
     (let s1 = unlink sc p;
          s2 = s1\<lparr>t_colour := (t_colour s1)(p := t_dark s1)\<rparr>;
          s3 = s2\<lparr>t_ccw := (t_ccw s2)(p := at)\<rparr>;
          s4 = s3\<lparr>t_cw := (t_cw s3)(p := t_cw s3 at)\<rparr>;
          s5 = s4\<lparr>t_ccw := (t_ccw s4)(t_cw s4 p := p)\<rparr>
      in s5\<lparr>t_cw := (t_cw s5)(at := p)\<rparr>)"

text \<open>
  \<open>insert_treadmill\<close>: a cell that is already dark stays where it is; any other is moved to the
  grey end of the list. The pointers that rest on the cell are moved off it first
  (\<open>step_off\<close>). A cell that \<open>treadmill_free\<close> rests on is the out-of-memory error. The second
  colour test, under the mutex, repeats the first and is the same test here.
\<close>

definition step_off :: "treadmill \<Rightarrow> addr \<Rightarrow> treadmill" where
  "step_off sc p =
     (if p = t_top sc then sc\<lparr>t_top := t_ccw sc (t_top sc)\<rparr>
      else if p = t_bottom sc then
        (let s = (if t_bottom sc = t_free sc then sc\<lparr>t_free := t_cw sc (t_bottom sc)\<rparr> else sc)
         in s\<lparr>t_bottom := t_cw s (t_bottom s)\<rparr>)
      else sc)"

definition insert_treadmill :: "treadmill \<Rightarrow> addr \<Rightarrow> treadmill" where
  "insert_treadmill sc p =
     (if t_colour sc p = t_dark sc then sc
      else if p \<noteq> t_top sc \<and> p \<noteq> t_bottom sc \<and> p = t_free sc then sc\<lparr>t_error := True\<rparr>
      else
        let s1 = step_off sc p;
            at = t_top s1;
            s2 = (if t_scan s1 = at then s1\<lparr>t_scan := p\<rparr> else s1);
            s3 = s2\<lparr>t_inserts := Suc (t_inserts s2)\<rparr>
        in relink s3 p at)"

section \<open>Allocation\<close>

definition blank_obj :: "addr \<Rightarrow> gobj" where
  "blank_obj nil = \<lparr>o_vector = False, o_cont = False, o_atom = False,
     o_car = nil, o_cdr = nil, o_elems = [], o_frames = []\<rparr>"

text \<open>
  The loop of \<open>alloc_cellseg\<close> over the new segment links the cells in address order and gives
  them the light colour; then \<open>treadmill_free\<close> is the first cell, \<open>treadmill_top\<close> and
  \<open>treadmill_scan\<close> the last, and \<open>treadmill_bottom\<close> is half the segment clockwise of
  \<open>treadmill_free\<close>. The segment has \<open>n\<close> cells from \<open>newp\<close> on (\<open>CELL_SEGSIZE\<close> in the source).
\<close>

definition CELL_SEGSIZE :: nat where
  "CELL_SEGSIZE = 1500000"

definition init_cell :: "addr \<Rightarrow> addr \<Rightarrow> treadmill \<Rightarrow> addr \<Rightarrow> treadmill" where
  "init_cell newp lst sc p =
     sc\<lparr>t_colour := (t_colour sc)(p := (\<not> t_dark sc)),
        t_obj := (t_obj sc)(p := blank_obj 0),
        t_cw := (t_cw sc)(p := if p = lst then newp else Suc p),
        t_ccw := (t_ccw sc)(p := if p = newp then lst else p - 1)\<rparr>"

primrec walk_cw :: "treadmill \<Rightarrow> nat \<Rightarrow> addr \<Rightarrow> addr" where
  "walk_cw sc 0 p = p"
| "walk_cw sc (Suc k) p = walk_cw sc k (t_cw sc p)"

definition alloc_cellseg :: "treadmill \<Rightarrow> addr \<Rightarrow> nat \<Rightarrow> treadmill" where
  "alloc_cellseg sc newp n =
     (let s1 = foldl (init_cell newp (newp + n - 1)) sc [newp ..< newp + n];
          s2 = s1\<lparr>t_total := n, t_free := newp\<rparr>;
          s3 = s2\<lparr>t_top := t_ccw s2 (t_free s2)\<rparr>;
          s4 = s3\<lparr>t_scan := t_top s3\<rparr>
      in s4\<lparr>t_bottom := walk_cw s4 (n div 2) (t_free s4)\<rparr>)"

text \<open>
  \<open>get_cell\<close> after the flip test: the cell under \<open>treadmill_free\<close> is cleared, blackened and
  handed out.
\<close>

definition take_free :: "treadmill \<Rightarrow> addr \<Rightarrow> treadmill \<times> addr" where
  "take_free sc nil =
     (let x = t_free sc
      in (sc\<lparr>t_obj := (t_obj sc)(x := blank_obj nil),
             t_free := t_cw sc (t_free sc),
             t_colour := (t_colour sc)(x := t_dark sc)\<rparr>, x))"

section \<open>Marking the roots\<close>

definition frame_roots :: "dframe \<Rightarrow> addr list" where
  "frame_roots f = [df_args f, df_envir f, df_code f]"

definition root_list :: "gc_roots \<Rightarrow> addr \<Rightarrow> addr \<Rightarrow> addr list" where
  "root_list r a b =
     [r_oblist r, r_global_env r, r_args r, r_envir r, r_code r]
     @ concat (map frame_roots (r_frames r))
     @ [r_tmp_dump r, r_value r, r_inport r, r_save_inport r, r_outport r, r_loadport r,
        r_T r, r_F r, r_NIL r, r_EOF_OBJ r, r_sink r, a, b]
     @ r_imp_env r"

definition treadmill_mark_roots :: "gc_roots \<Rightarrow> addr \<Rightarrow> addr \<Rightarrow> treadmill \<Rightarrow> treadmill" where
  "treadmill_mark_roots r a b sc = foldl insert_treadmill sc (root_list r a b)"

section \<open>The flip\<close>

text \<open>
  The loop that links \<open>alloc_size\<close> new cells from \<open>base\<close> on between the free cells and
  \<open>treadmill_bottom\<close>, written as the source has it: \<open>treadmill_bottom->_ccw\<close> is set at the
  last cell and read at the first.
\<close>

definition grow_cell :: "addr \<Rightarrow> addr \<Rightarrow> treadmill \<Rightarrow> addr \<Rightarrow> treadmill" where
  "grow_cell frst lst sc p =
     (let s0 = sc\<lparr>t_colour := (t_colour sc)(p := (\<not> t_dark sc)),
                  t_obj := (t_obj sc)(p := blank_obj 0)\<rparr>;
          s1 = (if p = lst then s0\<lparr>t_ccw := (t_ccw s0)(t_bottom s0 := p)\<rparr> else s0);
          s2 = (if p = frst then s1\<lparr>t_cw := (t_cw s1)(t_ccw s1 (t_bottom s1) := p)\<rparr> else s1);
          s3 = s2\<lparr>t_cw := (t_cw s2)(p := if p = lst then t_bottom s2 else Suc p)\<rparr>
      in s3\<lparr>t_ccw := (t_ccw s3)(p := if p = frst then t_ccw s3 (t_bottom s3) else p - 1)\<rparr>)"

definition grow :: "treadmill \<Rightarrow> addr \<Rightarrow> nat \<Rightarrow> treadmill" where
  "grow sc base alloc_size =
     (let s1 = sc\<lparr>t_total := t_total sc + alloc_size\<rparr>
      in foldl (grow_cell base (base + alloc_size - 1)) s1 [base ..< base + alloc_size])"

text \<open>
  Turning the treadmill: the light and dark colours swap their meaning, the black cells become
  the ecru cells of the next cycle and the old ecru cells the free ones.
\<close>

definition turn :: "treadmill \<Rightarrow> treadmill" where
  "turn sc =
     (let s1 = sc\<lparr>t_dark := \<not> t_dark sc\<rparr>;
          s2 = s1\<lparr>t_bottom := t_cw s1 (t_top s1)\<rparr>;
          s3 = s2\<lparr>t_top := t_ccw s2 (t_free s2)\<rparr>
      in s3\<lparr>t_scan := t_top s3\<rparr>)"

text \<open>
  \<open>treadmill_flip\<close> between its two waits for the scanner (which \<open>Handshake\<close> models): turn, add
  memory when more than half of it minus 20000 cells were inserted (the comparison is unsigned,
  so that a treadmill of fewer than 40000 cells never grows), and mark the roots. \<open>newmem\<close> is
  the address \<open>sc->malloc\<close> returns.
\<close>

definition needs_memory :: "treadmill \<Rightarrow> bool" where
  "needs_memory sc \<longleftrightarrow> int (t_inserts sc) > (int (t_total sc) div 2 - 20000) mod 2 ^ 64"

definition alloc_size :: "treadmill \<Rightarrow> nat" where
  "alloc_size sc = (if t_request sc \<ge> 0 then nat (t_request sc) else 100000)"

definition flip_memory :: "addr \<Rightarrow> treadmill \<Rightarrow> treadmill" where
  "flip_memory newmem sc =
     (let s1 = turn sc;
          s2 = (if needs_memory s1 then grow s1 newmem (alloc_size s1) else s1)
      in s2\<lparr>t_request := -1\<rparr>)"

definition treadmill_flip :: "addr \<Rightarrow> gc_roots \<Rightarrow> addr \<Rightarrow> addr \<Rightarrow> treadmill \<Rightarrow> treadmill" where
  "treadmill_flip newmem r a b sc =
     (treadmill_mark_roots r a b (flip_memory newmem sc))\<lparr>t_inserts := 0\<rparr>"

definition get_cell :: "addr \<Rightarrow> gc_roots \<Rightarrow> addr \<Rightarrow> addr \<Rightarrow> treadmill \<Rightarrow> treadmill \<times> addr" where
  "get_cell newmem r a b sc =
     (let s1 = (if t_free sc = t_bottom sc then treadmill_flip newmem r a b sc else sc)
      in take_free s1 (r_NIL r))"

text \<open>\<open>_cons\<close>: a new pair, its two fields inserted before they are stored (the write barrier).\<close>

definition gc_cons :: "addr \<Rightarrow> gc_roots \<Rightarrow> addr \<Rightarrow> addr \<Rightarrow> treadmill \<Rightarrow> treadmill \<times> addr" where
  "gc_cons newmem r a b sc =
     (let (s1, x) = get_cell newmem r a b sc;
          s2 = (if t_colour s1 a \<noteq> t_dark s1 then insert_treadmill s1 a else s1);
          s3 = (if t_colour s2 b \<noteq> t_dark s2 then insert_treadmill s2 b else s2);
          s4 = s3\<lparr>t_obj := (t_obj s3)(x := (t_obj s3 x)\<lparr>o_car := a, o_cdr := b\<rparr>)\<rparr>
      in (s4, x))"

section \<open>The scanner\<close>

text \<open>The cells a grey cell points to, in the order the scanner visits them.\<close>

definition frame_scan :: "dframe \<Rightarrow> addr list" where
  "frame_scan f = [df_envir f, df_args f, df_code f]"

definition children :: "(addr \<Rightarrow> gobj) \<Rightarrow> addr \<Rightarrow> addr list" where
  "children obj p =
     (if o_vector (obj p) then o_elems (obj p) else [])
     @ (if o_cont (obj p) then concat (map frame_scan (o_frames (obj (o_cdr (obj p))))) else [])
     @ (if \<not> o_atom (obj p) then [o_car (obj p), o_cdr (obj p)] else [])"

definition shade :: "treadmill \<Rightarrow> addr \<Rightarrow> treadmill" where
  "shade sc p = (if t_colour sc p \<noteq> t_dark sc then insert_treadmill sc p else sc)"

definition scan_step :: "treadmill \<Rightarrow> treadmill" where
  "scan_step sc =
     (let s1 = foldl shade sc (children (t_obj sc) (t_scan sc))
      in s1\<lparr>t_scan := t_ccw s1 (t_scan s1)\<rparr>)"

text \<open>
  The inner loop of \<open>treadmill_scanner\<close>, with fuel; \<open>None\<close> is fuel spent. How much is enough is
  \<open>scan_loop_terminates\<close> below.
\<close>

primrec scan_loop :: "nat \<Rightarrow> treadmill \<Rightarrow> treadmill option" where
  "scan_loop 0 sc = (if t_scan sc \<noteq> t_top sc then None else Some sc)"
| "scan_loop (Suc k) sc = (if t_scan sc \<noteq> t_top sc then scan_loop k (scan_step sc) else Some sc)"

end
