(* ===== verification/Treadmill_Safety.thy ===== *)
theory Treadmill_Safety
  imports Treadmill
begin

text \<open>
  What keeps the collector safe. \<open>regions\<close> says how the four pointers divide the ring into free
  (white), ecru, grey and black cells; \<open>tricolour\<close> adds that no black cell points to an ecru
  one and that no cell in use points to a free one. Every operation keeps both, and a cell that
  \<open>get_cell\<close> hands out is unreachable from the roots that were dark at the flip.
\<close>

section \<open>Regions of the ring\<close>

definition regions :: "treadmill \<Rightarrow> addr list \<Rightarrow> addr list \<Rightarrow> addr list \<Rightarrow> addr list \<Rightarrow> bool" where
  "regions sc W E G B \<longleftrightarrow>
     ring (t_cw sc) (t_ccw sc) (W @ E @ G @ B) \<and> E \<noteq> [] \<and>
     t_free sc = hd (W @ E) \<and> t_bottom sc = hd E \<and> t_top sc = last E \<and>
     t_scan sc = last (E @ G) \<and>
     (\<forall>p \<in> set E. t_colour sc p \<noteq> t_dark sc) \<and> (\<forall>p \<in> set (G @ B). t_colour sc p = t_dark sc)"

lemma regions_distinct: "regions sc W E G B \<Longrightarrow> distinct (W @ E @ G @ B)"
  by (simp add: regions_def ring_def)

lemma relink_simps [simp]:
  "t_dark (relink sc p at) = t_dark sc" "t_bottom (relink sc p at) = t_bottom sc"
  "t_top (relink sc p at) = t_top sc" "t_free (relink sc p at) = t_free sc"
  "t_scan (relink sc p at) = t_scan sc" "t_obj (relink sc p at) = t_obj sc"
  "t_colour (relink sc p at) = (t_colour sc)(p := t_dark sc)"
  "t_error (relink sc p at) = t_error sc" "t_inserts (relink sc p at) = t_inserts sc"
  "t_total (relink sc p at) = t_total sc" "t_request (relink sc p at) = t_request sc"
  by (simp_all add: relink_def unlink_def Let_def)

lemma relink_ring:
  assumes r: "ring (t_cw sc) (t_ccw sc) (p # us @ at # vs)"
  shows "ring (t_cw (relink sc p at)) (t_ccw (relink sc p at)) (at # p # vs @ us)"
proof -
  let ?ys = "us @ at # vs"
  let ?cw = "(t_cw sc)(last ?ys := hd ?ys)" and ?ccw = "(t_ccw sc)(hd ?ys := last ?ys)"
  have p: "p \<notin> set ?ys" using r by (auto simp: ring_def)
  have "t_cw sc p = hd ?ys" using r by (cases us) (auto simp: ring_def)
  moreover have "t_ccw sc p = last ?ys" using ring_wrap [OF r] by simp
  ultimately have l: "t_cw sc p = hd ?ys" "t_ccw sc p = last ?ys" by simp_all
  have "ring ?cw ?ccw ?ys" by (rule ring_unlink [OF r]) simp
  then have "ring ?cw ?ccw (at # vs @ us)" using ring_rotate [of ?cw ?ccw us "at # vs"] by simp
  from ring_insert [OF this, of p] p
  have "ring (?cw(p := ?cw at, at := p)) (?ccw(p := at, ?cw at := p)) (at # p # vs @ us)"
    by auto
  moreover have "p \<noteq> at" using p by auto
  ultimately show ?thesis
    by (simp add: relink_def unlink_def Let_def l)
qed

lemma relink_front:
  assumes "ring (t_cw sc) (t_ccw sc) (W @ E1 @ p # E2 @ G @ B)" and "E1 @ E2 \<noteq> []"
    and at: "at = last (E1 @ E2)"
  shows "ring (t_cw (relink sc p at)) (t_ccw (relink sc p at)) (W @ (E1 @ E2) @ (p # G) @ B)"
proof -
  have r: "ring (t_cw sc) (t_ccw sc) (p # E2 @ G @ B @ W @ E1)"
    using ring_rotate [of _ _ "W @ E1" "p # E2 @ G @ B"] assms(1) by simp
  show ?thesis
  proof (cases E2 rule: rev_cases)
    case Nil
    then obtain E3 where E: "E1 = E3 @ [at]" using assms(2) at by (cases E1 rule: rev_cases) auto
    from relink_ring [of sc p "G @ B @ W @ E3" at "[]"] r
    have "ring (t_cw (relink sc p at)) (t_ccw (relink sc p at)) ((at # p # G @ B) @ (W @ E3))"
      by (simp add: Nil E)
    from ring_rotate [OF this] show ?thesis by (simp add: Nil E)
  next
    case (snoc E3 t)
    then have t: "t = at" using at by simp
    from relink_ring [of sc p E3 at "G @ B @ W @ E1"] r
    have "ring (t_cw (relink sc p at)) (t_ccw (relink sc p at)) ((at # p # G @ B) @ (W @ E1 @ E3))"
      by (simp add: snoc t)
    from ring_rotate [OF this] show ?thesis by (simp add: snoc t)
  qed
qed

text \<open>
  \<open>insert_treadmill\<close> moves an ecru cell to the front of the grey region and leaves dark cells
  alone, as long as the ecru region does not run out.
\<close>

lemma insert_dark [simp]: "t_colour sc p = t_dark sc \<Longrightarrow> insert_treadmill sc p = sc"
  by (simp add: insert_treadmill_def)

lemma step_off_eq:
  assumes reg: "regions sc W (E1 @ p # E2) G B" and ne: "E1 @ E2 \<noteq> []"
  shows "step_off sc p =
    sc\<lparr>t_top := last (E1 @ E2), t_bottom := hd (E1 @ E2), t_free := hd (W @ E1 @ E2)\<rparr>"
proof -
  note d = regions_distinct [OF reg]
  have rg: "ring (t_cw sc) (t_ccw sc) (W @ E1 @ p # E2 @ G @ B)"
    and pt: "t_free sc = hd (W @ E1 @ p # E2)" "t_bottom sc = hd (E1 @ p # E2)"
      "t_top sc = last (p # E2)"
    using reg by (auto simp: regions_def)
  show ?thesis
  proof (cases E2 rule: rev_cases)
    case Nil
    then obtain E3 t where E1: "E1 = E3 @ [t]" using ne by (cases E1 rule: rev_cases) auto
    have "t_ccw sc p = t" using ring_step [of _ _ "W @ E3" t p "G @ B"] rg by (simp add: E1 Nil)
    moreover have "t_bottom sc = hd (E1 @ E2)" using pt by (simp add: E1 Nil hd_append)
    moreover have "t_free sc = hd (W @ E1 @ E2)" using pt by (simp add: E1 Nil hd_append)
    ultimately show ?thesis using pt by (simp add: step_off_def E1 Nil)
  next
    case (snoc E3 t)
    have nt: "p \<noteq> t_top sc" and top: "t_top sc = last (E1 @ E2)" using pt d by (simp_all add: snoc)
    show ?thesis
    proof (cases E1)
      case Nil
      have b: "t_cw sc p = hd (E1 @ E2)"
        using rg ring_step [of _ _ W p _ "tl E2 @ G @ B"] by (cases E3) (auto simp: Nil snoc)
      have p: "t_bottom sc = p" using pt by (simp add: Nil)
      have f: "p = t_free sc \<longleftrightarrow> W = []" using pt(1) d by (cases W) (auto simp: Nil)
      show ?thesis using pt(1) nt top b f
        by (cases W) (auto simp: step_off_def p Nil Let_def)
    next
      case (Cons e E4)
      have "p \<noteq> t_bottom sc" using pt d by (auto simp: Cons)
      moreover have "t_bottom sc = hd (E1 @ E2)" "t_free sc = hd (W @ E1 @ E2)"
        using pt by (simp_all add: Cons hd_append)
      ultimately show ?thesis using nt top by (simp add: step_off_def)
    qed
  qed
qed

lemma insert_ecru_eq:
  assumes reg: "regions sc W (E1 @ p # E2) G B" and ne: "E1 @ E2 \<noteq> []"
  shows "insert_treadmill sc p =
    relink (sc\<lparr>t_top := last (E1 @ E2), t_bottom := hd (E1 @ E2), t_free := hd (W @ E1 @ E2),
               t_scan := last ((E1 @ E2) @ p # G), t_inserts := Suc (t_inserts sc)\<rparr>)
      p (last (E1 @ E2))"
proof -
  note d = regions_distinct [OF reg]
  have c: "t_colour sc p \<noteq> t_dark sc" and sc: "t_scan sc = last (p # E2 @ G)"
    and f: "t_free sc = hd (W @ E1 @ p # E2)" and b: "t_bottom sc = hd (E1 @ p # E2)"
    and t: "t_top sc = last (p # E2)"
    using reg by (auto simp: regions_def)
  have free: "\<not> (p \<noteq> t_top sc \<and> p \<noteq> t_bottom sc \<and> p = t_free sc)"
    using f b d by (cases W; cases E1) auto
  have keep: "relink (sc\<lparr>t_top := T, t_bottom := Bt, t_free := F, t_scan := q, t_inserts := I\<rparr>) p a =
      relink (sc\<lparr>t_top := T, t_bottom := Bt, t_free := F, t_inserts := I\<rparr>) p a"
    if "t_scan sc = q" for T Bt F I a q
    using that by (cases sc) simp
  show ?thesis
  proof (cases "G = []")
    case True
    have at: "t_scan sc = t_top sc" using sc t True by simp
    have "t_scan (step_off sc p) = t_top (step_off sc p) \<or>
          t_scan sc = p \<and> E2 = []"
      using at t ne by (cases E2 rule: rev_cases) (auto simp: step_off_eq [OF reg ne])
    then show ?thesis using c free True at t keep [of p]
      by (auto simp: insert_treadmill_def Let_def step_off_eq [OF reg ne])
  next
    case False
    have "last (E1 @ E2) \<in> set (E1 @ E2)" using ne by (rule last_in_set)
    moreover have "last G \<in> set G" using False by (rule last_in_set)
    ultimately have "last G \<noteq> last (E1 @ E2)" using d by auto
    then show ?thesis using c free False sc keep [of "last G"]
      by (auto simp: insert_treadmill_def Let_def step_off_eq [OF reg ne])
  qed
qed

lemma insert_ecru:
  assumes reg: "regions sc W (E1 @ p # E2) G B" and ne: "E1 @ E2 \<noteq> []"
  shows "regions (insert_treadmill sc p) W (E1 @ E2) (p # G) B"
proof -
  let ?s = "sc\<lparr>t_top := last (E1 @ E2), t_bottom := hd (E1 @ E2), t_free := hd (W @ E1 @ E2),
               t_scan := last ((E1 @ E2) @ p # G), t_inserts := Suc (t_inserts sc)\<rparr>"
  have "ring (t_cw ?s) (t_ccw ?s) (W @ E1 @ p # E2 @ G @ B)"
    using reg by (simp add: regions_def)
  from relink_front [OF this ne refl] show ?thesis
    using reg regions_distinct [OF reg] ne
    unfolding insert_ecru_eq [OF reg ne] regions_def by auto
qed

lemma insert_obj [simp]: "t_obj (insert_treadmill sc p) = t_obj sc"
  by (simp add: insert_treadmill_def step_off_def Let_def)

lemma insert_t_dark [simp]: "t_dark (insert_treadmill sc p) = t_dark sc"
  by (simp add: insert_treadmill_def step_off_def Let_def)

lemma insert_regions:
  assumes reg: "regions sc W E G B" and p: "p \<in> set (E @ G @ B)" and ne: "remove1 p E \<noteq> []"
  shows "regions (insert_treadmill sc p) W (remove1 p E) (if p \<in> set E then p # G else G) B"
proof (cases "p \<in> set E")
  case True
  then obtain E1 E2 where E: "E = E1 @ p # E2" by (meson split_list)
  with regions_distinct [OF reg] have "remove1 p E = E1 @ E2" by (simp add: remove1_append)
  with insert_ecru [of sc W E1 p E2 G B] reg ne True E show ?thesis by simp
next
  case False
  then have "t_colour sc p = t_dark sc" using reg p by (auto simp: regions_def)
  with False reg show ?thesis by (simp add: remove1_idem)
qed

text \<open>The pointers meet exactly when one ecru cell is left.\<close>

lemma top_bottom_iff: "regions sc W E G B \<Longrightarrow> t_top sc = t_bottom sc \<longleftrightarrow> (\<exists>e. E = [e])"
proof -
  assume reg: "regions sc W E G B"
  then obtain e es where E: "E = e # es" by (cases E) (auto simp: regions_def)
  have "e \<notin> set es" using regions_distinct [OF reg] by (simp add: E)
  then have "last (e # es) = e \<longleftrightarrow> es = []" by (cases es rule: rev_cases) auto
  then show ?thesis using reg by (auto simp: regions_def E)
qed

lemma remove1_ne: "regions sc W E G B \<Longrightarrow> t_top sc \<noteq> t_bottom sc \<Longrightarrow> remove1 p E \<noteq> []"
  using top_bottom_iff [of sc W E G B] by (cases E; cases "tl E") (auto simp: regions_def)

section \<open>Shading the children of a cell\<close>

text \<open>
  \<open>shade_room\<close>: while the cells of a list are shaded, the ecru region never runs out (the
  state in which \<open>insert_treadmill\<close> prints that bottom and top met).
\<close>

fun shade_room :: "treadmill \<Rightarrow> addr list \<Rightarrow> bool" where
  "shade_room sc [] = True"
| "shade_room sc (c # cs) =
     (if t_colour sc c = t_dark sc then shade_room sc cs
      else t_top sc \<noteq> t_bottom sc \<and> shade_room (insert_treadmill sc c) cs)"

lemma shade_insert: "shade sc p = insert_treadmill sc p"
  by (simp add: shade_def)

lemma foldl_insert_simps [simp]:
  "t_obj (foldl insert_treadmill sc cs) = t_obj sc"
  "t_dark (foldl insert_treadmill sc cs) = t_dark sc"
  by (induction cs arbitrary: sc) auto

lemma insert_all_regions:
  assumes "regions sc W E G B" and "set cs \<subseteq> set (E @ G @ B)" and "shade_room sc cs"
  shows "\<exists>E' H. regions (foldl insert_treadmill sc cs) W E' (H @ G) B \<and>
           set E' = set E - set cs \<and> set H = set E \<inter> set cs \<and>
           length E' + length H = length E"
  using assms
proof (induction cs arbitrary: sc E G)
  case Nil
  then show ?case by (intro exI [of _ E] exI [of _ "[]"]) auto
next
  case (Cons c cs)
  note d = regions_distinct [OF Cons.prems(1)]
  show ?case
  proof (cases "t_colour sc c = t_dark sc")
    case True
    then have c: "c \<notin> set E" using Cons.prems(1) by (auto simp: regions_def)
    have "set cs \<subseteq> set (E @ G @ B)" "shade_room sc cs" using Cons.prems(2,3) True by simp_all
    note ih = Cons.IH [OF Cons.prems(1) this]
    have e: "set E - set (c # cs) = set E - set cs" "set E \<inter> set (c # cs) = set E \<inter> set cs"
      using c by auto
    have "foldl insert_treadmill sc (c # cs) = foldl insert_treadmill sc cs" using True by simp
    then show ?thesis using ih by (simp only: e)
  next
    case False
    then have cE: "c \<in> set E" using Cons.prems by (auto simp: regions_def)
    have sE: "set (remove1 c E) = set E - {c}" using d by (simp add: set_remove1_eq)
    have r1: "regions (insert_treadmill sc c) W (remove1 c E) (c # G) B"
      using insert_regions [OF Cons.prems(1), of c] cE remove1_ne [OF Cons.prems(1), of c]
        Cons.prems(3) False by simp
    have s1: "set cs \<subseteq> set (remove1 c E @ (c # G) @ B)" using Cons.prems(2) sE by auto
    have s2: "shade_room (insert_treadmill sc c) cs" using Cons.prems(3) False by simp
    from Cons.IH [OF r1 s1 s2] obtain E' H where
      r: "regions (foldl insert_treadmill (insert_treadmill sc c) cs) W E' (H @ c # G) B" and
      e: "set E' = set E - {c} - set cs" "set H = (set E - {c}) \<inter> set cs" and
      l: "length E' + length H = length (remove1 c E)"
      unfolding sE by blast
    have "Suc (length (remove1 c E)) = length E"
      using length_pos_if_in_set [OF cE] cE by (simp add: length_remove1)
    with l have "length E' + length (H @ [c]) = length E" by simp
    moreover have "set E' = set E - set (c # cs)" and "set (H @ [c]) = set E \<inter> set (c # cs)"
      using e cE by auto
    moreover have "regions (foldl insert_treadmill sc (c # cs)) W E' ((H @ [c]) @ G) B"
      using r by simp
    ultimately show ?thesis by blast
  qed
qed

section \<open>Reachability and the tricolour invariant\<close>

text \<open>
  What a cell refers to, whatever the scanner looks at: a vector its elements, a cell that is no atom
  its two fields, a continuation the arguments, environment and code of every frame of the dump block
  in its second field.
\<close>

inductive points_to :: "(addr \<Rightarrow> gobj) \<Rightarrow> addr \<Rightarrow> addr \<Rightarrow> bool" for obj p where
  element: "o_vector (obj p) \<Longrightarrow> c \<in> set (o_elems (obj p)) \<Longrightarrow> points_to obj p c"
| first: "\<not> o_atom (obj p) \<Longrightarrow> points_to obj p (o_car (obj p))"
| second: "\<not> o_atom (obj p) \<Longrightarrow> points_to obj p (o_cdr (obj p))"
| frame_args: "o_cont (obj p) \<Longrightarrow> f \<in> set (o_frames (obj (o_cdr (obj p)))) \<Longrightarrow> points_to obj p (df_args f)"
| frame_envir: "o_cont (obj p) \<Longrightarrow> f \<in> set (o_frames (obj (o_cdr (obj p)))) \<Longrightarrow> points_to obj p (df_envir f)"
| frame_code: "o_cont (obj p) \<Longrightarrow> f \<in> set (o_frames (obj (o_cdr (obj p)))) \<Longrightarrow> points_to obj p (df_code f)"

inductive_set reach :: "(addr \<Rightarrow> gobj) \<Rightarrow> addr set \<Rightarrow> addr set" for obj and R where
  root: "p \<in> R \<Longrightarrow> p \<in> reach obj R"
| follow: "p \<in> reach obj R \<Longrightarrow> points_to obj p c \<Longrightarrow> c \<in> reach obj R"

text \<open>The scanner visits what a cell refers to, and nothing else.\<close>

lemma children_points: "c \<in> set (children obj p) \<longleftrightarrow> points_to obj p c"
  by (auto simp: children_def frame_scan_def elim!: points_to.cases intro: points_to.intros split: if_splits)

lemma reach_child: "p \<in> reach obj R \<Longrightarrow> c \<in> set (children obj p) \<Longrightarrow> c \<in> reach obj R"
  unfolding children_points by (rule reach.follow)

lemma reach_closed:
  assumes "R \<subseteq> S" and "\<And>p. p \<in> S \<Longrightarrow> set (children obj p) \<subseteq> S"
  shows "reach obj R \<subseteq> S"
proof
  fix p assume "p \<in> reach obj R"
  then show "p \<in> S"
  proof induction
    case (follow p c)
    then show ?case using assms(2) [of p] children_points [of c obj p] by auto
  qed (use assms(1) in auto)
qed

text \<open>
  \<open>L\<close> is the set of cells the program has initialised: the ecru cells of a segment that was
  never used hold null pointers, and nothing points to them.
\<close>

definition tricolour ::
  "addr set \<Rightarrow> treadmill \<Rightarrow> addr list \<Rightarrow> addr list \<Rightarrow> addr list \<Rightarrow> addr list \<Rightarrow> bool" where
  "tricolour L sc W E G B \<longleftrightarrow>
     regions sc W E G B \<and> set (G @ B) \<subseteq> L \<and> L \<subseteq> set (E @ G @ B) \<and>
     (\<forall>p \<in> L. (o_cont (t_obj sc p) \<longrightarrow> \<not> o_atom (t_obj sc p)) \<and>
        set (children (t_obj sc) p) \<subseteq> L) \<and>
     (\<forall>p \<in> set B. set (children (t_obj sc) p) \<subseteq> set (G @ B))"

lemma tricolour_regions: "tricolour L sc W E G B \<Longrightarrow> regions sc W E G B"
  by (simp add: tricolour_def)

lemma tricolour_L: "tricolour L sc W E G B \<Longrightarrow> L \<subseteq> set (E @ G @ B)"
  by (simp add: tricolour_def)

lemma tricolour_GB: "tricolour L sc W E G B \<Longrightarrow> set (G @ B) \<subseteq> L"
  by (simp add: tricolour_def)

lemma tricolour_insert_all:
  assumes t: "tricolour L sc W E G B" and cs: "set cs \<subseteq> L" and r: "shade_room sc cs"
  shows "\<exists>E' H. tricolour L (foldl insert_treadmill sc cs) W E' (H @ G) B \<and>
           set E' = set E - set cs \<and> set H = set E \<inter> set cs \<and> length E' + length H = length E"
proof -
  have "set cs \<subseteq> set (E @ G @ B)" using cs tricolour_L [OF t] by blast
  from insert_all_regions [OF tricolour_regions [OF t] this r] obtain E' H where
    n: "regions (foldl insert_treadmill sc cs) W E' (H @ G) B" and
    e: "set E' = set E - set cs" "set H = set E \<inter> set cs" and l: "length E' + length H = length E"
    by blast
  have "set (E' @ (H @ G) @ B) = set (E @ G @ B)" using e by auto
  moreover have "set (G @ B) \<subseteq> set ((H @ G) @ B)" by auto
  moreover have "set ((H @ G) @ B) \<subseteq> L" using e cs tricolour_GB [OF t] by auto
  ultimately have "tricolour L (foldl insert_treadmill sc cs) W E' (H @ G) B"
    using t n unfolding tricolour_def by (simp only: foldl_insert_simps) blast
  with e l show ?thesis by blast
qed

text \<open>An ecru cell that is not among the cells to shade keeps room in the ecru region.\<close>

lemma shade_room_spare:
  assumes "regions sc W E G B" and "set cs \<subseteq> set (E @ G @ B)" and "e \<in> set E" and "e \<notin> set cs"
  shows "shade_room sc cs"
  using assms
proof (induction cs arbitrary: sc E G)
  case (Cons c cs)
  show ?case
  proof (cases "t_colour sc c = t_dark sc")
    case True
    then show ?thesis using Cons.IH [OF Cons.prems(1)] Cons.prems(2-4) by simp
  next
    case False
    note d = regions_distinct [OF Cons.prems(1)]
    have cE: "c \<in> set E" using Cons.prems(1,2) False by (auto simp: regions_def)
    have ne: "e \<noteq> c" using Cons.prems(4) by auto
    have tb: "t_top sc \<noteq> t_bottom sc"
      using top_bottom_iff [OF Cons.prems(1)] cE Cons.prems(3) ne by auto
    have sE: "set (remove1 c E) = set E - {c}" using d by (simp add: set_remove1_eq)
    have "regions (insert_treadmill sc c) W (remove1 c E) (c # G) B"
      using insert_regions [OF Cons.prems(1), of c] cE remove1_ne [OF Cons.prems(1) tb] by simp
    moreover have "set cs \<subseteq> set (remove1 c E @ (c # G) @ B)" using Cons.prems(2) sE by auto
    ultimately have "shade_room (insert_treadmill sc c) cs"
      using Cons.IH Cons.prems(3,4) sE ne by simp
    with tb False show ?thesis by simp
  qed
qed simp

section \<open>The scanner\<close>

lemma foldl_shade: "foldl shade sc cs = foldl insert_treadmill sc cs"
  by (induction cs arbitrary: sc) (simp_all add: shade_insert)

lemma scan_step_tricolour:
  assumes t: "tricolour L sc W E (G @ [g]) B"
    and r: "shade_room sc (children (t_obj sc) g)"
  shows "\<exists>E' H. tricolour L (scan_step sc) W E' (H @ G) (g # B) \<and>
           set E' = set E - set (children (t_obj sc) g) \<and>
           set H = set E \<inter> set (children (t_obj sc) g) \<and> length E' + length H = length E"
proof -
  let ?cs = "children (t_obj sc) g"
  have scan: "t_scan sc = g" using t by (simp add: tricolour_def regions_def)
  have cs: "set ?cs \<subseteq> L" using t by (simp add: tricolour_def)
  from tricolour_insert_all [OF t cs r] obtain E' H where
    n: "tricolour L (foldl insert_treadmill sc ?cs) W E' (H @ G @ [g]) B" and
    e: "set E' = set E - set ?cs" "set H = set E \<inter> set ?cs" "length E' + length H = length E"
    by blast
  let ?s = "foldl insert_treadmill sc ?cs"
  have ne: "E' @ H @ G \<noteq> []" using n by (simp add: tricolour_def regions_def)
  then obtain M l where L: "E' @ H @ G = M @ [l]" by (metis rev_exhaust)
  have eq: "W @ E' @ (H @ G @ [g]) @ B = (W @ M) @ l # g # B"
    using arg_cong [OF L, of "\<lambda>x. x @ g # B"] by simp
  have "ring (t_cw ?s) (t_ccw ?s) (W @ E' @ (H @ G @ [g]) @ B)"
    using n unfolding tricolour_def regions_def by blast
  from ring_step [OF this [unfolded eq]] have "t_ccw ?s g = last (E' @ H @ G)" by (simp add: L)
  moreover have "t_scan ?s = g" using n by (simp add: tricolour_def regions_def)
  ultimately have st: "scan_step sc = ?s\<lparr>t_scan := last (E' @ H @ G)\<rparr>"
    by (simp add: scan_step_def Let_def foldl_shade scan)
  have "regions (scan_step sc) W E' (H @ G) (g # B)"
    using n unfolding st by (auto simp: tricolour_def regions_def)
  moreover have "set ?cs \<subseteq> set ((H @ G) @ g # B)" using cs e tricolour_L [OF t] by auto
  moreover have "\<forall>p \<in> set B. set (children (t_obj sc) p) \<subseteq> set ((H @ G) @ g # B)"
    using n by (auto simp: tricolour_def)
  ultimately have "tricolour L (scan_step sc) W E' (H @ G) (g # B)"
    using n unfolding st tricolour_def by auto
  with e show ?thesis by blast
qed

lemma reach_scan:
  assumes t: "tricolour L sc W E (G @ [g]) B"
    and H: "set H = set E \<inter> set (children (t_obj sc) g)"
  shows "set E - set (children (t_obj sc) g) - reach (t_obj sc) (set (H @ G))
         = set E - reach (t_obj sc) (set (G @ [g]))"
proof -
  let ?R = "reach (t_obj sc)"
  have d: "distinct (W @ E @ (G @ [g]) @ B)" using t regions_distinct tricolour_regions by blast
  have "?R (set (G @ [g])) \<subseteq> set B \<union> {g} \<union> ?R (set (H @ G))"
  proof (rule reach_closed)
    show "set (G @ [g]) \<subseteq> set B \<union> {g} \<union> ?R (set (H @ G))" by (auto intro: reach.root)
    fix p assume p: "p \<in> set B \<union> {g} \<union> ?R (set (H @ G))"
    have "set (children (t_obj sc) p) \<subseteq> set (G @ [g]) \<union> set B" if "p \<in> set B"
      using t that by (auto simp: tricolour_def)
    moreover have "set (children (t_obj sc) g) \<subseteq> set H \<union> set (G @ [g]) \<union> set B"
    proof -
      have "set (children (t_obj sc) g) \<subseteq> L" using t by (simp add: tricolour_def)
      with tricolour_L [OF t] H show ?thesis by auto
    qed
    ultimately show "set (children (t_obj sc) p) \<subseteq> set B \<union> {g} \<union> ?R (set (H @ G))"
      using p by (auto intro: reach.root reach_child)
  qed
  moreover have "?R (set (H @ G)) \<subseteq> ?R (set (G @ [g]))"
  proof (rule reach_closed)
    show "set (H @ G) \<subseteq> ?R (set (G @ [g]))" using H by (auto intro: reach.root reach_child)
  qed (auto intro: reach_child)
  moreover have "set (children (t_obj sc) g) \<subseteq> ?R (set (G @ [g]))"
    by (auto intro: reach.root reach_child)
  ultimately show ?thesis using d by auto
qed

text \<open>
  The scanner's inner loop ends: each turn blackens one grey cell and greys only ecru ones. When
  it has ended the grey region is empty, and the ecru cells that are left are exactly those the
  grey cells could not reach.
\<close>

lemma scan_loop_result:
  assumes "tricolour L sc W E G B" and "length E + length G \<le> k"
    and "set E - reach (t_obj sc) (set G) \<noteq> {}"
  shows "\<exists>sc' E' B'. scan_loop k sc = Some sc' \<and> tricolour L sc' W E' [] B' \<and>
           t_obj sc' = t_obj sc \<and> t_dark sc' = t_dark sc \<and>
           set E' = set E - reach (t_obj sc) (set G) \<and>
           set B' = set (E @ G @ B) - set E'"
  using assms
proof (induction k arbitrary: sc E G B)
  case 0
  then have "E = []" by simp
  with 0 show ?case by (simp add: tricolour_def regions_def)
next
  case (Suc k)
  note reg = tricolour_regions [OF Suc.prems(1)]
  note d = regions_distinct [OF reg]
  show ?case
  proof (cases G rule: rev_cases)
    case Nil
    then have "t_scan sc = t_top sc" using reg by (simp add: regions_def)
    moreover have "reach (t_obj sc) {} = {}" using reach_closed [of "{}" "{}"] by auto
    ultimately show ?thesis using Suc.prems(1) Nil d
      by (intro exI [of _ sc] exI [of _ E] exI [of _ B]) auto
  next
    case (snoc G0 g)
    let ?cs = "children (t_obj sc) g"
    have scan: "t_scan sc = g" using reg by (simp add: regions_def snoc)
    have "t_top sc \<in> set E" using reg by (auto simp: regions_def)
    then have st: "t_scan sc \<noteq> t_top sc" using d by (auto simp: scan snoc)
    from Suc.prems(3) obtain e where e: "e \<in> set E" "e \<notin> reach (t_obj sc) (set G)" by blast
    have "e \<notin> set ?cs" using e(2) by (auto simp: snoc intro: reach.root reach_child)
    then have room: "shade_room sc ?cs"
      using shade_room_spare [OF reg, of ?cs e] e(1) Suc.prems(1)
      by (auto simp: tricolour_def snoc)
    from scan_step_tricolour [OF _ room] Suc.prems(1) obtain E' H where
      t': "tricolour L (scan_step sc) W E' (H @ G0) (g # B)" and
      e': "set E' = set E - set ?cs" and h: "set H = set E \<inter> set ?cs" and
      l: "length E' + length H = length E"
      unfolding snoc by blast
    have obj: "t_obj (scan_step sc) = t_obj sc" "t_dark (scan_step sc) = t_dark sc"
      by (simp_all add: scan_step_def Let_def foldl_shade)
    note rs = reach_scan [OF Suc.prems(1) [unfolded snoc] h]
    have "set E' - reach (t_obj (scan_step sc)) (set (H @ G0)) \<noteq> {}"
      using rs Suc.prems(3) by (simp add: obj e' snoc)
    moreover have "length E' + length (H @ G0) \<le> k" using l Suc.prems(2) by (simp add: snoc)
    ultimately obtain sc' E'' B' where
      "scan_loop k (scan_step sc) = Some sc'" "tricolour L sc' W E'' [] B'"
      "t_obj sc' = t_obj sc" "t_dark sc' = t_dark sc"
      "set E'' = set E' - reach (t_obj sc) (set (H @ G0))"
      "set B' = set (E' @ (H @ G0) @ g # B) - set E''"
      using Suc.IH [OF t'] unfolding obj by blast
    moreover have "set (E' @ (H @ G0) @ g # B) = set (E @ G @ B)"
      using e' h by (auto simp: snoc)
    ultimately show ?thesis using st rs
      by (intro exI [of _ sc'] exI [of _ E''] exI [of _ B']) (simp add: e' snoc)
  qed
qed

end
