(* ===== verification/Treadmill_Run.thy ===== *)
theory Treadmill_Run
  imports Treadmill_Safety
begin

text \<open>
  The mutator's side of the collector (allocation, the write barriers, the flip) and the
  interleaving of mutator and scanner steps as a transition system, with the theorem that no
  interleaving hands out a reachable cell while the roots are dark at each flip, and the run in
  which a root that is not dark is lost.
\<close>

section \<open>Allocation\<close>

lemma children_upd:
  assumes "p \<noteq> x" and "o_cont (obj p) \<Longrightarrow> o_cdr (obj p) \<noteq> x"
  shows "children (obj(x := ob)) p = children obj p"
  using assms by (simp add: children_def)

lemma children_blank [simp]: "obj x = blank_obj nil \<Longrightarrow> children obj x = [nil, nil]"
  by (simp add: children_def blank_obj_def)

lemma cdr_child:
  "o_cont (obj p) \<Longrightarrow> \<not> o_atom (obj p) \<Longrightarrow> o_cdr (obj p) \<in> set (children obj p)"
  by (simp add: children_def)

lemma take_free_tricolour:
  assumes t: "tricolour L sc (w # W) E G B" and nil: "nil \<in> set (G @ B)"
  shows "tricolour (insert w L) (fst (take_free sc nil)) W E G (B @ [w])" and "snd (take_free sc nil) = w"
proof -
  note reg = tricolour_regions [OF t]
  note d = regions_distinct [OF reg]
  have free: "t_free sc = w" using reg by (simp add: regions_def)
  obtain x xs where x: "W @ E @ G @ B = x # xs" using reg by (cases W; cases E) (auto simp: regions_def)
  have r: "ring (t_cw sc) (t_ccw sc) (w # W @ E @ G @ B)" using reg by (simp add: regions_def)
  then have "t_cw sc w = hd (W @ E @ G @ B)" unfolding x by (simp add: ring_cw)
  then have cw: "t_cw sc w = hd (W @ E)" using reg by (auto simp: regions_def hd_append)
  have r': "ring (t_cw sc) (t_ccw sc) (W @ E @ G @ B @ [w])"
    using ring_rotate [of _ _ "[w]" "W @ E @ G @ B"] r by simp
  let ?s = "fst (take_free sc nil)"
  have o: "t_obj ?s = (t_obj sc)(w := blank_obj nil)" by (simp add: take_free_def Let_def free)
  have ch: "children (t_obj ?s) p = children (t_obj sc) p" if "p \<in> L" for p
  proof -
    have "p \<noteq> w" using that d tricolour_L [OF t] by auto
    moreover have "o_cdr (t_obj sc p) \<noteq> w" if "o_cont (t_obj sc p)"
    proof -
      have "o_cdr (t_obj sc p) \<in> L"
        using cdr_child [of "t_obj sc" p] that \<open>p \<in> L\<close> t by (auto simp: tricolour_def)
      then show ?thesis using d tricolour_L [OF t] by auto
    qed
    ultimately show ?thesis unfolding o by (rule children_upd)
  qed
  have chw: "children (t_obj ?s) w = [nil, nil]" by (simp add: o)
  have "regions ?s W E G (B @ [w])"
    using reg r' d cw by (auto simp: regions_def take_free_def Let_def free)
  moreover have "\<forall>p \<in> insert w L. (o_cont (t_obj ?s p) \<longrightarrow> \<not> o_atom (t_obj ?s p)) \<and>
      set (children (t_obj ?s) p) \<subseteq> insert w L"
  proof
    fix p assume p: "p \<in> insert w L"
    show "(o_cont (t_obj ?s p) \<longrightarrow> \<not> o_atom (t_obj ?s p)) \<and>
      set (children (t_obj ?s) p) \<subseteq> insert w L"
    proof (cases "p = w")
      case True
      then show ?thesis using nil chw tricolour_GB [OF t] by (auto simp: o blank_obj_def)
    next
      case False
      then have "p \<in> L" using p by auto
      with ch [OF this] False t show ?thesis by (auto simp: o tricolour_def)
    qed
  qed
  moreover have "\<forall>p \<in> set (B @ [w]). set (children (t_obj ?s) p) \<subseteq> set (G @ B @ [w])"
  proof
    fix p assume "p \<in> set (B @ [w])"
    then consider "p = w" | "p \<in> set B" "p \<in> L" using tricolour_GB [OF t] by auto
    then show "set (children (t_obj ?s) p) \<subseteq> set (G @ B @ [w])"
      using chw nil ch t by cases (auto simp: tricolour_def)
  qed
  ultimately show "tricolour (insert w L) ?s W E G (B @ [w])"
    using tricolour_GB [OF t] tricolour_L [OF t] by (auto simp: tricolour_def)
  show "snd (take_free sc nil) = w" by (simp add: take_free_def Let_def free)
qed

section \<open>Stores under the write barrier\<close>

text \<open>
  The barrier of \<open>set-car!\<close>, \<open>set-cdr!\<close>, \<open>set_slot_in_env\<close> and \<open>set_vector_elem\<close>: the value is
  inserted into the treadmill before it is stored.
\<close>

definition gc_set_car :: "treadmill \<Rightarrow> addr \<Rightarrow> addr \<Rightarrow> treadmill" where
  "gc_set_car sc p v =
     (let s1 = insert_treadmill sc v
      in s1\<lparr>t_obj := (t_obj s1)(p := (t_obj s1 p)\<lparr>o_car := v\<rparr>)\<rparr>)"

definition gc_set_cdr :: "treadmill \<Rightarrow> addr \<Rightarrow> addr \<Rightarrow> treadmill" where
  "gc_set_cdr sc p v =
     (let s1 = insert_treadmill sc v
      in s1\<lparr>t_obj := (t_obj s1)(p := (t_obj s1 p)\<lparr>o_cdr := v\<rparr>)\<rparr>)"

definition gc_set_vector_elem :: "treadmill \<Rightarrow> addr \<Rightarrow> nat \<Rightarrow> addr \<Rightarrow> treadmill" where
  "gc_set_vector_elem sc vec i v =
     (let s1 = insert_treadmill sc v
      in s1\<lparr>t_obj := (t_obj s1)(vec := (t_obj s1 vec)\<lparr>o_elems := (o_elems (t_obj s1 vec))[i := v]\<rparr>)\<rparr>)"

text \<open>
  Overwriting the contents of a cell in use with ones that only add dark pointers keeps the
  invariant.
\<close>

lemma store_tricolour:
  assumes t: "tricolour L sc W E G B" and x: "x \<in> L" and v: "v \<in> set (G @ B)"
    and fr: "o_frames ob = o_frames (t_obj sc x)"
    and ca: "o_cont ob \<Longrightarrow> \<not> o_atom ob"
    and ch: "set (children ((t_obj sc)(x := ob)) x) \<subseteq> insert v (set (children (t_obj sc) x))"
  shows "tricolour L (sc\<lparr>t_obj := (t_obj sc)(x := ob)\<rparr>) W E G B"
proof -
  let ?o = "(t_obj sc)(x := ob)"
  have other: "children ?o p = children (t_obj sc) p" if "p \<noteq> x" for p
    using that fr by (cases "o_cdr (t_obj sc p) = x") (simp_all add: children_def)
  have c: "set (children ?o p) \<subseteq> insert v (set (children (t_obj sc) p))" for p
    using ch other by (cases "p = x") auto
  have "regions (sc\<lparr>t_obj := ?o\<rparr>) W E G B" using t by (simp add: tricolour_def regions_def)
  moreover have "\<forall>p \<in> L. (o_cont (?o p) \<longrightarrow> \<not> o_atom (?o p)) \<and> set (children ?o p) \<subseteq> L"
  proof
    fix p assume "p \<in> L"
    then have "set (children (t_obj sc) p) \<subseteq> L"
      and "o_cont (t_obj sc p) \<longrightarrow> \<not> o_atom (t_obj sc p)" using t by (auto simp: tricolour_def)
    moreover have "v \<in> L" using v tricolour_GB [OF t] by auto
    ultimately show "(o_cont (?o p) \<longrightarrow> \<not> o_atom (?o p)) \<and> set (children ?o p) \<subseteq> L"
      using c [of p] ca by auto
  qed
  moreover have "\<forall>p \<in> set B. set (children ?o p) \<subseteq> set (G @ B)"
  proof
    fix p assume "p \<in> set B"
    then have "set (children (t_obj sc) p) \<subseteq> set (G @ B)" using t by (simp add: tricolour_def)
    with c [of p] v show "set (children ?o p) \<subseteq> set (G @ B)" by auto
  qed
  ultimately show ?thesis using t by (simp add: tricolour_def)
qed

text \<open>
  The end of \<open>mk_continuation\<close>: the new cell \<open>x\<close> becomes a continuation whose second field is the
  cell \<open>y\<close> of the copied dump stack (\<open>dump_stack_copy\<close>, an atom for the collector). There is no write
  barrier: the fields are stored as they are.
\<close>

definition gc_mk_continuation :: "treadmill \<Rightarrow> addr \<Rightarrow> addr \<Rightarrow> dframe list \<Rightarrow> treadmill" where
  "gc_mk_continuation sc x y frames =
     (let ob = (t_obj sc)(y := (t_obj sc y)\<lparr>o_atom := True, o_frames := frames\<rparr>)
      in sc\<lparr>t_obj := ob(x := (ob x)\<lparr>o_cont := True, o_cdr := y\<rparr>)\<rparr>)"

lemma children_car: "\<not> o_atom (obj p) \<Longrightarrow> o_car (obj p) \<in> set (children obj p)"
  unfolding children_def by simp

lemma children_elems: "o_vector (obj p) \<Longrightarrow> set (o_elems (obj p)) \<subseteq> set (children obj p)"
  unfolding children_def by simp

text \<open>That keeps the invariant when the copied frames refer to dark cells only.\<close>

lemma continuation_tricolour:
  assumes t: "tricolour L sc W E G B" and x: "x \<in> L" "\<not> o_atom (t_obj sc x)" and y: "y \<in> set (G @ B)" "x \<noteq> y"
    "\<not> o_cont (t_obj sc y)"
    and fr: "\<forall>f \<in> set frames. set (frame_scan f) \<subseteq> set (G @ B)"
  shows "tricolour L (gc_mk_continuation sc x y frames) W E G B"
proof -
  let ?s = "gc_mk_continuation sc x y frames"
  have o: "t_obj ?s = (t_obj sc)(y := (t_obj sc y)\<lparr>o_atom := True, o_frames := frames\<rparr>,
      x := (t_obj sc x)\<lparr>o_cont := True, o_cdr := y\<rparr>)"
    using y(2) by (simp add: gc_mk_continuation_def Let_def)
  have obx: "o_vector (t_obj ?s x) = o_vector (t_obj sc x)" "o_elems (t_obj ?s x) = o_elems (t_obj sc x)"
      "o_cdr (t_obj ?s x) = y" "o_car (t_obj ?s x) = o_car (t_obj sc x)" "o_cont (t_obj ?s x)"
      "o_atom (t_obj ?s x) = o_atom (t_obj sc x)"
    using y(2) by (simp_all add: o)
  have oby: "o_vector (t_obj ?s y) = o_vector (t_obj sc y)" "o_elems (t_obj ?s y) = o_elems (t_obj sc y)"
      "o_cont (t_obj ?s y) = o_cont (t_obj sc y)" "o_atom (t_obj ?s y)" "o_frames (t_obj ?s y) = frames"
    using y(2) by (simp_all add: o)
  have obz: "o_frames (t_obj ?s p) = o_frames (t_obj sc p)" if "p \<noteq> y" for p
    using that by (simp add: o)
  have obw: "t_obj ?s p = t_obj sc p" if "p \<noteq> x" "p \<noteq> y" for p
    using that by (simp add: o)
  have fs: "set (concat (map frame_scan frames)) \<subseteq> set (G @ B)" using fr by auto
  have c: "set (children (t_obj ?s) p) \<subseteq> set (children (t_obj sc) p) \<union> set (G @ B)" for p
  proof -
    consider "p = x" | "p = y" | "p \<noteq> x" "p \<noteq> y" by blast
    then show ?thesis
    proof cases
      case 1
      have "children (t_obj ?s) x = (if o_vector (t_obj sc x) then o_elems (t_obj sc x) else [])
          @ concat (map frame_scan frames) @ [o_car (t_obj sc x), y]"
        using x(2) by (simp add: children_def obx oby del: children_blank)
      then have "set (children (t_obj ?s) x)
          \<subseteq> set (if o_vector (t_obj sc x) then o_elems (t_obj sc x) else []) \<union> {o_car (t_obj sc x)} \<union> set (G @ B)"
        using fs y(1) by (simp only: set_append list.set) blast
      moreover have "set (if o_vector (t_obj sc x) then o_elems (t_obj sc x) else []) \<union> {o_car (t_obj sc x)}
          \<subseteq> set (children (t_obj sc) x)"
        using children_car [of "t_obj sc", OF x(2)] children_elems [of "t_obj sc" x] by (cases "o_vector (t_obj sc x)") simp_all
      ultimately show ?thesis unfolding 1 by blast
    next
      case 2
      have "children (t_obj ?s) y = (if o_vector (t_obj sc y) then o_elems (t_obj sc y) else [])"
        using y(3) by (simp add: children_def oby)
      then show ?thesis unfolding 2 using children_elems [of "t_obj sc" y]
        by (cases "o_vector (t_obj sc y)") (simp_all add: le_supI1)
    next
      case 3
      have "children (t_obj ?s) p = (if o_vector (t_obj sc p) then o_elems (t_obj sc p) else [])
          @ (if o_cont (t_obj sc p) then concat (map frame_scan (o_frames (t_obj ?s (o_cdr (t_obj sc p))))) else [])
          @ (if \<not> o_atom (t_obj sc p) then [o_car (t_obj sc p), o_cdr (t_obj sc p)] else [])"
        by (simp add: children_def obw [OF 3])
      moreover have "set (concat (map frame_scan (o_frames (t_obj ?s q))))
          \<subseteq> set (concat (map frame_scan (o_frames (t_obj sc q)))) \<union> set (G @ B)" for q
      proof (cases "q = y")
        case True
        show ?thesis unfolding True oby(5) by (rule le_supI2 [OF fs])
      next
        case False
        show ?thesis unfolding obz [OF False] by (rule Un_upper1)
      qed
      ultimately show ?thesis by (simp only: children_def set_append split: if_split) blast
    qed
  qed
  have "set (children (t_obj ?s) p) \<subseteq> L" if "p \<in> L" for p
  proof -
    have "set (children (t_obj sc) p) \<subseteq> L" using t that by (simp add: tricolour_def)
    with c [of p] tricolour_GB [OF t] show ?thesis by blast
  qed
  moreover have "set (children (t_obj ?s) p) \<subseteq> set (G @ B)" if "p \<in> set B" for p
  proof -
    have "set (children (t_obj sc) p) \<subseteq> set (G @ B)" using t that by (simp add: tricolour_def)
    with c [of p] show ?thesis by blast
  qed
  moreover have "o_cont (t_obj ?s p) \<longrightarrow> \<not> o_atom (t_obj ?s p)" if "p \<in> L" for p
  proof -
    have "o_cont (t_obj sc p) \<longrightarrow> \<not> o_atom (t_obj sc p)" using t that by (simp add: tricolour_def)
    then show ?thesis using x(2) y(3) obx(6) oby(3) obw [of p] by (cases "p = x"; cases "p = y") simp_all
  qed
  moreover have "regions ?s W E G B"
    using t by (simp add: tricolour_def regions_def gc_mk_continuation_def Let_def)
  ultimately show ?thesis using t by (simp add: tricolour_def)
qed

text \<open>\<open>mk_vector\<close> and \<open>fill_vector\<close>: every element is \<open>v\<close>, which is inserted first.\<close>

definition gc_fill_vector :: "treadmill \<Rightarrow> addr \<Rightarrow> nat \<Rightarrow> addr \<Rightarrow> treadmill" where
  "gc_fill_vector sc vec len v =
     (let s1 = insert_treadmill sc v
      in s1\<lparr>t_obj := (t_obj s1)(vec := (t_obj s1 vec)\<lparr>o_elems := replicate len v\<rparr>)\<rparr>)"

definition gc_mk_vector :: "treadmill \<Rightarrow> addr \<Rightarrow> nat \<Rightarrow> addr \<Rightarrow> treadmill" where
  "gc_mk_vector sc x len nil =
     gc_fill_vector
       (sc\<lparr>t_obj := (t_obj sc)(x := (t_obj sc x)\<lparr>o_vector := True, o_atom := True, o_elems := []\<rparr>),
           t_request := t_request sc + int len\<rparr>) x len nil"

section \<open>The flip\<close>

lemma turn_tricolour:
  assumes t: "tricolour L sc [] E [] B" and ne: "B \<noteq> []"
  shows "tricolour (set B) (turn sc) E B [] []"
proof -
  note reg = tricolour_regions [OF t]
  obtain e es where E: "E = e # es" using reg by (cases E) (auto simp: regions_def)
  have r: "ring (t_cw sc) (t_ccw sc) (E @ B)" using reg by (simp add: regions_def)
  obtain b bs where B: "B = b # bs" using ne by (cases B) auto
  have "E @ B = butlast E @ last E # b # bs" by (simp add: B E del: last.simps butlast.simps)
  with r have cw: "t_cw sc (last E) = b" using ring_step by metis
  have "t_ccw sc e = last (E @ B)" using ring_wrap [of _ _ e "es @ B"] r by (simp add: E)
  then have ccw: "t_ccw sc e = last B" using ne by simp
  have "t_top sc = last E" "t_free sc = e" using reg by (simp_all add: regions_def E)
  then have "regions (turn sc) E B [] []"
    using reg r ne cw ccw by (auto simp: regions_def turn_def Let_def E B)
  moreover have "t_obj (turn sc) = t_obj sc" by (simp add: turn_def Let_def)
  moreover have "set B \<subseteq> L" using tricolour_GB [OF t] by simp
  ultimately show ?thesis using t by (auto simp: tricolour_def)
qed

lemma turn_obj [simp]: "t_obj (turn sc) = t_obj sc"
  by (simp add: turn_def Let_def)

text \<open>New memory joins the free region when it has at least two cells.\<close>

lemma grow_cell_simps [simp]:
  "t_bottom (grow_cell f l sc p) = t_bottom sc" "t_free (grow_cell f l sc p) = t_free sc"
  "t_top (grow_cell f l sc p) = t_top sc" "t_scan (grow_cell f l sc p) = t_scan sc"
  "t_dark (grow_cell f l sc p) = t_dark sc"
  "t_obj (grow_cell f l sc p) = (t_obj sc)(p := blank_obj 0)"
  "t_colour (grow_cell f l sc p) = (t_colour sc)(p := (\<not> t_dark sc))"
  by (simp_all add: grow_cell_def Let_def)



lemma grow_prefix:
  assumes "0 < k" and "k < n" and "t_bottom sc \<notin> {base ..< base + n}"
    and w: "t_ccw sc (t_bottom sc) = w" and "w \<notin> {base ..< base + n}"
  shows "let s = foldl (grow_cell base (base + n - 1)) sc [base ..< base + k] in
    t_bottom s = t_bottom sc \<and>
    t_cw s = (\<lambda>p. if base \<le> p \<and> p < base + k then Suc p
                  else if p = w then base else t_cw sc p) \<and>
    t_ccw s = (\<lambda>p. if p = base then w
                   else if base < p \<and> p < base + k then p - 1 else t_ccw sc p)"
  using assms
proof (induction k)
  case (Suc k)
  show ?case
  proof (cases "k = 0")
    case True
    then have l: "base \<noteq> base + n - 1" using Suc.prems by simp
    have [simp]: "[base ..< base + Suc 0] = [base]" by simp
    show ?thesis using Suc.prems l
      by (auto simp: True grow_cell_def Let_def w fun_eq_iff less_Suc_eq)
  next
    case False
    define s where "s = foldl (grow_cell base (base + n - 1)) sc [base ..< base + k]"
    have ih: "t_bottom s = t_bottom sc"
      "t_cw s = (\<lambda>p. if base \<le> p \<and> p < base + k then Suc p
                  else if p = w then base else t_cw sc p)"
      "t_ccw s = (\<lambda>p. if p = base then w
                   else if base < p \<and> p < base + k then p - 1 else t_ccw sc p)"
      using Suc.IH Suc.prems False unfolding s_def Let_def by simp_all
    have l: "base + k \<noteq> base + n - 1" "base + k \<noteq> base" using Suc.prems False by simp_all
    have "foldl (grow_cell base (base + n - 1)) sc [base ..< base + Suc k]
        = grow_cell base (base + n - 1) s (base + k)" by (simp add: s_def)
    moreover have "t_cw (grow_cell base (base + n - 1) s (base + k)) = (t_cw s)(base + k := Suc (base + k))"
      and "t_ccw (grow_cell base (base + n - 1) s (base + k)) = (t_ccw s)(base + k := base + k - 1)"
      using l by (simp_all add: grow_cell_def Let_def)
    moreover have "(t_cw s)(base + k := Suc (base + k)) =
        (\<lambda>p. if base \<le> p \<and> p < base + Suc k then Suc p else if p = w then base else t_cw sc p)"
    proof
      fix p show "((t_cw s)(base + k := Suc (base + k))) p =
        (if base \<le> p \<and> p < base + Suc k then Suc p else if p = w then base else t_cw sc p)"
        by (cases "p = base + k") (simp_all add: ih less_Suc_eq)
    qed
    moreover have "(t_ccw s)(base + k := base + k - 1) =
        (\<lambda>p. if p = base then w else if base < p \<and> p < base + Suc k then p - 1 else t_ccw sc p)"
    proof
      fix p show "((t_ccw s)(base + k := base + k - 1)) p =
        (if p = base then w else if base < p \<and> p < base + Suc k then p - 1 else t_ccw sc p)"
        using l by (cases "p = base + k") (simp_all add: ih less_Suc_eq)
    qed
    ultimately show ?thesis by (simp only: Let_def grow_cell_simps ih(1))
  qed
qed simp

lemma grow_links:
  assumes n: "2 \<le> n" and b: "t_bottom sc \<notin> {base ..< base + n}"
    and w: "t_ccw sc (t_bottom sc) = w" and wn: "w \<notin> {base ..< base + n}" and bw: "t_bottom sc \<noteq> w"
  defines "s \<equiv> foldl (grow_cell base (base + n - 1)) sc [base ..< base + n]"
  shows "t_cw s = (\<lambda>p. if p = base + n - 1 then t_bottom sc else if base \<le> p \<and> p < base + n then Suc p
                      else if p = w then base else t_cw sc p)"
    and "t_ccw s = (\<lambda>p. if p = t_bottom sc then base + n - 1 else if p = base then w
                       else if base < p \<and> p < base + n then p - 1 else t_ccw sc p)"
proof -
  obtain m where m: "n = Suc m" "0 < m" using n by (cases n) auto
  define s' where "s' = foldl (grow_cell base (base + n - 1)) sc [base ..< base + m]"
  have "s = grow_cell base (base + n - 1) s' (base + n - 1)" by (simp add: s_def s'_def m)
  moreover have "t_bottom s' = t_bottom sc"
    "t_cw s' = (\<lambda>p. if base \<le> p \<and> p < base + m then Suc p
                  else if p = w then base else t_cw sc p)"
    "t_ccw s' = (\<lambda>p. if p = base then w
                   else if base < p \<and> p < base + m then p - 1 else t_ccw sc p)"
    using grow_prefix [of m n sc base w] assms m unfolding s'_def Let_def by simp_all
  ultimately show "t_cw s = (\<lambda>p. if p = base + n - 1 then t_bottom sc else if base \<le> p \<and> p < base + n then Suc p
                      else if p = w then base else t_cw sc p)"
    and "t_ccw s = (\<lambda>p. if p = t_bottom sc then base + n - 1 else if p = base then w
                       else if base < p \<and> p < base + n then p - 1 else t_ccw sc p)"
    using b wn bw m by (auto simp: grow_cell_def Let_def fun_eq_iff)
qed

lemma grow_other [simp]:
  "t_bottom (foldl (grow_cell f l) sc ps) = t_bottom sc"
  "t_free (foldl (grow_cell f l) sc ps) = t_free sc"
  "t_top (foldl (grow_cell f l) sc ps) = t_top sc"
  "t_scan (foldl (grow_cell f l) sc ps) = t_scan sc"
  "t_dark (foldl (grow_cell f l) sc ps) = t_dark sc"
  "p \<notin> set ps \<Longrightarrow> t_obj (foldl (grow_cell f l) sc ps) p = t_obj sc p"
  "p \<notin> set ps \<Longrightarrow> t_colour (foldl (grow_cell f l) sc ps) p = t_colour sc p"
  by (induction ps arbitrary: sc) auto

lemma chain_upt:
  "(\<And>i. i < k \<Longrightarrow> cw (base + i) = Suc (base + i) \<and> ccw (Suc (base + i)) = base + i)
   \<Longrightarrow> chain cw ccw [base ..< Suc (base + k)]"
proof (induction k)
  case (Suc k)
  have "chain cw ccw ([base ..< base + k] @ [base + k])" using Suc by simp
  moreover have "chain cw ccw [base + k, Suc (base + k)]" using Suc.prems [of k] by simp
  ultimately show ?case
    using chain_append [of cw ccw "[base ..< base + k]" "base + k" "[Suc (base + k)]"] by simp
qed simp

lemma grow_regions:
  assumes reg: "regions sc W E [] []" and W: "W \<noteq> []" and n: "2 \<le> n"
    and fresh: "{base ..< base + n} \<inter> set (W @ E) = {}"
  shows "regions (grow sc base n) (W @ [base ..< base + n]) E [] []"
proof -
  let ?s0 = "sc\<lparr>t_total := t_total sc + n\<rparr>" and ?N = "[base ..< base + n]"
  let ?l = "base + n - 1"
  note d = regions_distinct [OF reg]
  obtain e C where E: "E = e # C" using reg by (cases E) (auto simp: regions_def)
  obtain V w where V: "W = V @ [w]" using W by (metis rev_exhaust)
  have r: "ring (t_cw sc) (t_ccw sc) (E @ W)" using reg ring_rotate by (auto simp: regions_def)
  have bot: "t_bottom sc = e" using reg by (simp add: regions_def E)
  have w: "t_ccw sc e = w" using ring_wrap [of _ _ e "C @ W"] r by (simp add: E V)
  have mem: "p \<notin> set W" "p \<notin> set E" if "base \<le> p" "p < base + n" for p
    using fresh that by auto
  have gl: "t_cw (grow sc base n) = (\<lambda>p. if p = ?l then e else if base \<le> p \<and> p < base + n then Suc p
                      else if p = w then base else t_cw sc p)"
    "t_ccw (grow sc base n) = (\<lambda>p. if p = e then ?l else if p = base then w
                       else if base < p \<and> p < base + n then p - 1 else t_ccw sc p)"
    using grow_links [of n ?s0 base w] n fresh d w bot by (auto simp: grow_def Let_def E V)
  let ?cw = "t_cw (grow sc base n)" and ?ccw = "t_ccw (grow sc base n)"
  have up: "?N = [base ..< Suc (base + (n - 1))]" using n by simp
  have sp: "?N = base # [Suc base ..< base + n]" using n by (simp add: upt_conv_Cons)
  have "chain (t_cw sc) (t_ccw sc) ((E @ V) @ [w])"
    using r chain_append [of "t_cw sc" "t_ccw sc" "E @ V" w "[e]"] by (simp add: ring_def E V)
  moreover have "chain ?cw ?ccw ((E @ V) @ [w]) = chain (t_cw sc) (t_ccw sc) ((E @ V) @ [w])"
  proof (rule chain_cong)
    fix x assume "x \<in> set (butlast ((E @ V) @ [w]))"
    then have "x \<in> set (E @ V)" by (simp only: butlast_snoc)
    then have "x \<noteq> w" "x \<notin> {base ..< base + n}" using d fresh by (auto simp: V)
    then show "?cw x = t_cw sc x" using n by (auto simp: gl)
  next
    fix x assume "x \<in> set (tl ((E @ V) @ [w]))"
    then have "x \<noteq> e" "x \<notin> {base ..< base + n}" using d fresh by (auto simp: V E)
    then show "?ccw x = t_ccw sc x" using n by (auto simp: gl)
  qed
  ultimately have c1: "chain ?cw ?ccw ((E @ V) @ [w])" by simp
  have c2: "chain ?cw ?ccw (w # ?N)"
  proof -
    have ne: "p \<noteq> e" if "base \<le> p" "p < base + n" for p using mem [OF that] by (auto simp: E)
    have "chain ?cw ?ccw ?N" unfolding up
    proof (rule chain_upt)
      fix i assume i: "i < n - 1"
      then have "Suc i < n" by simp
      with i show "?cw (base + i) = Suc (base + i) \<and> ?ccw (Suc (base + i)) = base + i"
        using n ne [of "Suc (base + i)"] ne [of "base + i"] by (auto simp: gl)
    qed
    moreover have "?cw w = base" "?ccw base = w"
      using n mem by (auto simp: gl V E dest: mem)
    ultimately show ?thesis by (simp add: sp chain_Cons)
  qed
  have c3: "chain ?cw ?ccw [?l, e]" by (simp add: gl)
  have Nl: "?N = [base ..< ?l] @ [?l]" using n by (cases n) simp_all
  have "chain ?cw ?ccw ((w # [base ..< ?l]) @ [?l] @ [e])"
    using chain_append [of ?cw ?ccw "w # [base ..< ?l]" ?l "[e]"] c2 c3 Nl by simp
  then have "chain ?cw ?ccw (w # ?N @ [e])" using Nl by simp
  with c1 have "chain ?cw ?ccw ((E @ V) @ w # (?N @ [e]))"
    using chain_append [of ?cw ?ccw "E @ V" w "?N @ [e]"] by simp
  then have "ring ?cw ?ccw (E @ (W @ ?N))"
    using d fresh by (auto simp: ring_def E V)
  then have "ring ?cw ?ccw ((W @ ?N) @ E)" by (rule ring_rotate)
  moreover have "t_colour (grow sc base n) p = t_colour sc p" if "p \<in> set E" for p
  proof -
    have "p \<notin> set [base ..< base + n]" using that fresh by auto
    then show ?thesis by (simp add: grow_def Let_def)
  qed
  ultimately show ?thesis using reg W
    by (auto simp: regions_def grow_def Let_def hd_append)
qed

lemma grow_tricolour:
  assumes t: "tricolour L sc W E [] []" and W: "W \<noteq> []" and n: "2 \<le> n"
    and fresh: "{base ..< base + n} \<inter> set (W @ E) = {}"
  shows "tricolour L (grow sc base n) (W @ [base ..< base + n]) E [] []"
proof -
  have o: "t_obj (grow sc base n) p = t_obj sc p" if "p \<in> set E" for p
  proof -
    have "p \<notin> set [base ..< base + n]" using that fresh by auto
    then show ?thesis by (simp add: grow_def Let_def)
  qed
  have ch: "children (t_obj (grow sc base n)) p = children (t_obj sc) p" if p: "p \<in> L" for p
  proof -
    have "o_cdr (t_obj sc p) \<in> set E" if "o_cont (t_obj sc p)"
      using cdr_child [of "t_obj sc" p] that p t tricolour_L [OF t] by (auto simp: tricolour_def)
    moreover have "p \<in> set E" using p tricolour_L [OF t] by auto
    ultimately show ?thesis using o by (auto simp: children_def)
  qed
  show ?thesis
    using grow_regions [OF tricolour_regions [OF t] W n fresh] o ch t tricolour_L [OF t]
    by (auto simp: tricolour_def)
qed

text \<open>
  The whole flip, from a finished scan with an empty free region. The black cells become the
  ecru ones; the roots, which must have been black, are grey afterwards.
\<close>

lemma flip_memory_tricolour:
  assumes t: "tricolour L sc [] E [] B" and ne: "B \<noteq> []"
    and mem: "needs_memory (turn sc) \<Longrightarrow> 2 \<le> alloc_size (turn sc) \<and>
      {newmem ..< newmem + alloc_size (turn sc)} \<inter> set (E @ B) = {}"
  shows "\<exists>N. tricolour (set B) (flip_memory newmem sc) (E @ N) B [] [] \<and>
    N = (if needs_memory (turn sc) then [newmem ..< newmem + alloc_size (turn sc)] else [])"
proof -
  have E: "E \<noteq> []" using t by (simp add: tricolour_def regions_def)
  note t1 = turn_tricolour [OF t ne]
  have r: "tricolour (set B) (s\<lparr>t_request := -1\<rparr>) W B [] []" if "tricolour (set B) s W B [] []" for s W
    using that by (simp add: tricolour_def regions_def)
  show ?thesis
    using r t1 r [OF grow_tricolour [OF t1 E]] mem by (auto simp: flip_memory_def Let_def)
qed

lemma flip_tricolour:
  assumes t: "tricolour L sc [] E [] B" and ne: "B \<noteq> []"
    and roots: "set (root_list r a b) \<subseteq> set B"
    and room: "shade_room (flip_memory newmem sc) (root_list r a b)"
    and mem: "needs_memory (turn sc) \<Longrightarrow> 2 \<le> alloc_size (turn sc) \<and>
      {newmem ..< newmem + alloc_size (turn sc)} \<inter> set (E @ B) = {}"
  shows "\<exists>N E' G. tricolour (set B) (treadmill_flip newmem r a b sc) (E @ N) E' G [] \<and>
           N = (if needs_memory (turn sc) then [newmem ..< newmem + alloc_size (turn sc)] else []) \<and>
           set (E' @ G) = set B \<and> set G = set (root_list r a b)"
proof -
  let ?s = "flip_memory newmem sc"
  from flip_memory_tricolour [OF t ne mem] obtain N where
    t2: "tricolour (set B) ?s (E @ N) B [] []" and
    N: "N = (if needs_memory (turn sc) then [newmem ..< newmem + alloc_size (turn sc)] else [])"
    by blast
  from tricolour_insert_all [OF t2 roots room] obtain E' G where
    n: "tricolour (set B) (foldl insert_treadmill ?s (root_list r a b)) (E @ N) E' (G @ []) []" and
    e': "set E' = set B - set (root_list r a b)" "set G = set B \<inter> set (root_list r a b)"
    by blast
  have "tricolour (set B) (treadmill_flip newmem r a b sc) (E @ N) E' G []"
    using n by (simp add: tricolour_def regions_def treadmill_flip_def treadmill_mark_roots_def)
  moreover have "set (E' @ G) = set B" "set G = set (root_list r a b)" using e' roots by auto
  ultimately show ?thesis using N by blast
qed

end
