(* ===== verification/Treadmill_System.thy ===== *)
theory Treadmill_System
  imports Treadmill_Run
begin

text \<open>
  The collector and the interpreter as one transition system. A state is the treadmill, the set
  \<open>R\<close> of cells the interpreter holds (registers, dump stack, local variables) and the set \<open>M\<close> of
  all cells. The steps are the operations of \<open>Treadmill\<close> and \<open>Treadmill_Run\<close>, one critical
  section each, in any order; the scanner's step may come between any two of them.
\<close>

section \<open>The initial treadmill\<close>

text \<open>\<open>scheme_init_custom_alloc\<close> up to \<open>sc->NIL\<close>: one segment, and its first cell becomes NIL.\<close>

definition blank_treadmill :: treadmill where
  "blank_treadmill = \<lparr>t_cw = (\<lambda>_. 0), t_ccw = (\<lambda>_. 0), t_colour = (\<lambda>_. False),
     t_obj = (\<lambda>_. blank_obj 0), t_dark = True, t_bottom = 0, t_top = 0, t_free = 0, t_scan = 0,
     t_inserts = 0, t_total = 0, t_request = -1, t_error = False\<rparr>"

definition nil_cell :: "treadmill \<Rightarrow> treadmill \<times> addr" where
  "nil_cell sc =
     (let (s1, x) = take_free sc 0
      in (s1\<lparr>t_obj := (t_obj s1)(x := (t_obj s1 x)\<lparr>o_atom := True, o_car := x, o_cdr := x\<rparr>)\<rparr>, x))"

definition init_treadmill :: "addr \<Rightarrow> nat \<Rightarrow> treadmill" where
  "init_treadmill newp n = fst (nil_cell (alloc_cellseg blank_treadmill newp n))"

lemma init_cells:
  "t_cw (foldl (init_cell f l) sc ps) = (\<lambda>p. if p \<in> set ps then (if p = l then f else Suc p) else t_cw sc p)"
  "t_ccw (foldl (init_cell f l) sc ps) = (\<lambda>p. if p \<in> set ps then (if p = f then l else p - 1) else t_ccw sc p)"
  "t_colour (foldl (init_cell f l) sc ps) = (\<lambda>p. if p \<in> set ps then \<not> t_dark sc else t_colour sc p)"
  "t_dark (foldl (init_cell f l) sc ps) = t_dark sc"
  "t_free (foldl (init_cell f l) sc ps) = t_free sc"
  by (induction ps arbitrary: sc) (auto simp: init_cell_def fun_eq_iff)

lemma walk_upt:
  "k < n \<Longrightarrow> (\<And>p. newp \<le> p \<Longrightarrow> p < newp + n - 1 \<Longrightarrow> t_cw sc p = Suc p) \<Longrightarrow>
   newp \<le> q \<Longrightarrow> q + k < newp + n \<Longrightarrow> walk_cw sc k q = q + k"
  by (induction k arbitrary: q) auto

lemma ring_segment:
  assumes "2 \<le> n" and "\<And>p. p \<in> {newp ..< newp + n} \<Longrightarrow>
     cw p = (if p = newp + n - 1 then newp else Suc p) \<and>
     ccw p = (if p = newp then newp + n - 1 else p - 1)"
  shows "ring cw ccw [newp ..< newp + n]"
proof -
  have "chain cw ccw [newp ..< Suc (newp + (n - 1))]"
    by (rule chain_upt) (use assms in auto)
  then have c: "chain cw ccw [newp ..< newp + n]" using assms(1) by simp
  moreover have sp: "[newp ..< newp + n] = [newp ..< newp + n - 1] @ [newp + n - 1]"
    using assms(1) by (cases n) simp_all
  moreover have "chain cw ccw [newp + n - 1, newp]" using assms by simp
  ultimately have "chain cw ccw ([newp ..< newp + n - 1] @ (newp + n - 1) # [newp])"
    using chain_append [of cw ccw "[newp ..< newp + n - 1]" "newp + n - 1" "[newp]"] by simp
  then have "chain cw ccw ([newp ..< newp + n] @ [newp])" by (simp add: sp)
  moreover have "[newp ..< newp + n] \<noteq> []" using assms(1) by simp
  moreover have "hd [newp ..< newp + n] = newp" using assms(1) by simp
  ultimately show ?thesis unfolding ring_def by simp
qed

lemma alloc_cellseg_regions:
  assumes n: "2 \<le> n"
  shows "regions (alloc_cellseg sc newp n) [newp ..< newp + n div 2]
           [newp + n div 2 ..< newp + n] [] []"
proof -
  define s where "s = foldl (init_cell newp (newp + n - 1)) sc [newp ..< newp + n]"
  have cw: "t_cw s p = (if p = newp + n - 1 then newp else Suc p)"
    "t_ccw s p = (if p = newp then newp + n - 1 else p - 1)" "t_colour s p = (\<not> t_dark s)"
    if "p \<in> {newp ..< newp + n}" for p
    using that by (simp_all add: s_def init_cells)
  have "alloc_cellseg sc newp n =
      (let s4 = s\<lparr>t_total := n, t_free := newp, t_top := newp + n - 1, t_scan := newp + n - 1\<rparr>
       in s4\<lparr>t_bottom := walk_cw s4 (n div 2) newp\<rparr>)"
    using cw(2) [of newp] n unfolding alloc_cellseg_def s_def Let_def by simp
  moreover have "walk_cw (s\<lparr>t_total := n, t_free := newp, t_top := newp + n - 1,
      t_scan := newp + n - 1\<rparr>) (n div 2) newp = newp + n div 2"
    using n cw(1) by (intro walk_upt [where n = n and newp = newp]) auto
  moreover have "t_ccw s newp = newp + n - 1" using cw(2) [of newp] n by simp
  ultimately have e: "alloc_cellseg sc newp n = s\<lparr>t_total := n, t_free := newp,
      t_top := newp + n - 1, t_scan := newp + n - 1, t_bottom := newp + n div 2\<rparr>"
    by (simp add: Let_def)
  have a: "[newp ..< newp + n div 2] @ [newp + n div 2 ..< newp + n] = [newp ..< newp + n]"
    using upt_add_eq_append [of newp "newp + n div 2" "n - n div 2"] by simp
  have l: "last [newp + n div 2 ..< newp + n] = newp + n - 1"
    using n by (cases n) auto
  have "ring (t_cw s) (t_ccw s) [newp ..< newp + n]"
    using cw n by (intro ring_segment) auto
  moreover have "hd [newp + n div 2 ..< newp + n] = newp + n div 2" using n by simp
  moreover have "[newp + n div 2 ..< newp + n] \<noteq> []" using n by auto
  ultimately show ?thesis unfolding regions_def e using n cw(3) a l by auto
qed

lemma init_tricolour:
  assumes n: "2 \<le> n"
  shows "tricolour {newp} (init_treadmill newp n) [Suc newp ..< newp + n div 2]
           [newp + n div 2 ..< newp + n] [] [newp]"
proof -
  define s where "s = alloc_cellseg blank_treadmill newp n"
  let ?W = "[Suc newp ..< newp + n div 2]" and ?E = "[newp + n div 2 ..< newp + n]"
  have "newp < newp + n div 2" using n by auto
  then have "[newp ..< newp + n div 2] = newp # ?W" by (rule upt_conv_Cons)
  then have r: "regions s (newp # ?W) ?E [] []"
    using alloc_cellseg_regions [OF n, of blank_treadmill newp] by (simp only: s_def)
  note d = regions_distinct [OF r]
  have f: "t_free s = newp" using r by (simp add: regions_def)
  have E: "?E \<noteq> []" using n by auto
  then obtain x xs where x: "?W @ ?E = x # xs" by (cases "?W @ ?E") auto
  have np: "newp \<notin> set ?E" using n by auto
  have rg: "ring (t_cw s) (t_ccw s) (newp # ?W @ ?E)" using r by (simp add: regions_def)
  then have cw: "t_cw s newp = hd (?W @ ?E)" unfolding x by (simp add: ring_cw)
  have rg': "ring (t_cw s) (t_ccw s) (?W @ ?E @ [newp])"
    using ring_rotate [of _ _ "[newp]" "?W @ ?E"] rg by simp
  have i: "init_treadmill newp n = s\<lparr>t_obj := (t_obj s)(newp := (blank_obj 0)\<lparr>o_atom := True,
      o_car := newp, o_cdr := newp\<rparr>), t_free := t_cw s newp,
      t_colour := (t_colour s)(newp := t_dark s)\<rparr>"
    by (simp add: init_treadmill_def nil_cell_def take_free_def Let_def f blank_obj_def flip: s_def)
  have "regions (init_treadmill newp n) ?W ?E [] [newp]"
    unfolding regions_def i using r rg' E cw np d by (simp add: regions_def)
  moreover have "children (t_obj (init_treadmill newp n)) newp = []"
    by (simp add: i children_def blank_obj_def)
  moreover have "\<not> o_cont (t_obj (init_treadmill newp n) newp)" by (simp add: i blank_obj_def)
  ultimately show ?thesis by (simp add: tricolour_def)
qed

section \<open>Steps\<close>

type_synonym gc_state = "treadmill \<times> addr set \<times> addr set"

text \<open>
  What can happen next, and when the code does it. The state is the collector's, the set \<open>R\<close> of the
  cells the interpreter holds (registers, stack and C locals) and the set \<open>M\<close> of all cells. The
  conditions of \<open>gc_move\<close> are the code's own: a cell is taken while \<open>treadmill_free\<close> is not
  \<open>treadmill_bottom\<close>, the scanner works until it reaches \<open>treadmill_top\<close>, the flip comes when
  neither is left and adds memory that was not in use.
\<close>

datatype gc_event = E_Alloc | E_Load addr addr | E_Drop "addr set" | E_Barrier addr
  | E_Set_Car addr addr | E_Set_Cdr addr addr | E_Set_Elem addr nat addr | E_Mk_Vector addr nat addr
  | E_Mk_Continuation addr addr "dframe list" | E_Scan | E_Flip gc_roots addr addr addr

inductive gc_move :: "addr \<Rightarrow> gc_event \<Rightarrow> gc_state \<Rightarrow> gc_state \<Rightarrow> bool" for nil :: addr where
  m_alloc: "t_free sc \<noteq> t_bottom sc \<Longrightarrow>
    gc_move nil E_Alloc (sc, R, M) (fst (take_free sc nil), insert (snd (take_free sc nil)) R, M)"
| m_load: "p \<in> R \<Longrightarrow> points_to (t_obj sc) p c \<Longrightarrow> gc_move nil (E_Load p c) (sc, R, M) (sc, insert c R, M)"
| m_drop: "R' \<subseteq> R \<Longrightarrow> gc_move nil (E_Drop R') (sc, R, M) (sc, R', M)"
| m_barrier: "p \<in> R \<Longrightarrow> gc_move nil (E_Barrier p) (sc, R, M) (insert_treadmill sc p, R, M)"
| m_set_car: "p \<in> R \<Longrightarrow> v \<in> R \<Longrightarrow> gc_move nil (E_Set_Car p v) (sc, R, M) (gc_set_car sc p v, R, M)"
| m_set_cdr: "p \<in> R \<Longrightarrow> v \<in> R \<Longrightarrow> \<not> o_cont (t_obj sc p) \<Longrightarrow>
    gc_move nil (E_Set_Cdr p v) (sc, R, M) (gc_set_cdr sc p v, R, M)"
| m_set_elem: "p \<in> R \<Longrightarrow> v \<in> R \<Longrightarrow>
    gc_move nil (E_Set_Elem p i v) (sc, R, M) (gc_set_vector_elem sc p i v, R, M)"
| m_mk_vec: "p \<in> R \<Longrightarrow> \<not> o_cont (t_obj sc p) \<Longrightarrow> nil \<in> R \<Longrightarrow>
    gc_move nil (E_Mk_Vector p len nil) (sc, R, M) (gc_mk_vector sc p len nil, R, M)"
| m_mk_cont: "x \<in> R \<Longrightarrow> \<not> o_atom (t_obj sc x) \<Longrightarrow> y \<in> R \<Longrightarrow> x \<noteq> y \<Longrightarrow> \<not> o_cont (t_obj sc y) \<Longrightarrow>
    \<forall>f \<in> set frames. set (frame_roots f) \<subseteq> R \<Longrightarrow>
    gc_move nil (E_Mk_Continuation x y frames) (sc, R, M) (gc_mk_continuation sc x y frames, R, M)"
| m_scan: "t_scan sc \<noteq> t_top sc \<Longrightarrow> gc_move nil E_Scan (sc, R, M) (scan_step sc, R, M)"
| m_flip: "t_free sc = t_bottom sc \<Longrightarrow> t_scan sc = t_top sc \<Longrightarrow> r_NIL r = nil \<Longrightarrow>
    K = (if needs_memory (turn sc) then {newmem ..< newmem + alloc_size (turn sc)} else {}) \<Longrightarrow> K \<inter> M = {} \<Longrightarrow>
    gc_move nil (E_Flip r a b newmem) (sc, R, M) (treadmill_flip newmem r a b sc, R, M \<union> K)"

text \<open>
  What the code relies on without checking it. A cell is shaded only while the ecru region has room
  for it (\<open>shade_room\<close>); the frames and the cell of a new continuation are dark, since
  \<open>mk_continuation\<close> has no write barrier; at a flip the roots are exactly what the interpreter
  holds, every one of them is dark, and a new segment has at least two cells.
\<close>

fun gc_care :: "gc_event \<Rightarrow> gc_state \<Rightarrow> bool" where
  "gc_care (E_Barrier p) (sc, R, M) \<longleftrightarrow> shade_room sc [p]"
| "gc_care (E_Set_Car p v) (sc, R, M) \<longleftrightarrow> shade_room sc [v]"
| "gc_care (E_Set_Cdr p v) (sc, R, M) \<longleftrightarrow> shade_room sc [v]"
| "gc_care (E_Set_Elem p i v) (sc, R, M) \<longleftrightarrow> shade_room sc [v]"
| "gc_care (E_Mk_Vector p len nil) (sc, R, M) \<longleftrightarrow> shade_room sc [nil]"
| "gc_care (E_Mk_Continuation x y frames) (sc, R, M) \<longleftrightarrow>
     (\<forall>c \<in> insert y (\<Union> (set ` frame_roots ` set frames)). t_colour sc c = t_dark sc)"
| "gc_care E_Scan (sc, R, M) \<longleftrightarrow> shade_room sc (children (t_obj sc) (t_scan sc))"
| "gc_care (E_Flip r a b newmem) (sc, R, M) \<longleftrightarrow>
     set (root_list r a b) = R \<and> (\<forall>p \<in> R. t_colour sc p = t_dark sc) \<and>
     shade_room (flip_memory newmem sc) (root_list r a b) \<and>
     (needs_memory (turn sc) \<longrightarrow> 2 \<le> alloc_size (turn sc))"
| "gc_care _ _ \<longleftrightarrow> True"

text \<open>Both together, as one relation for the proofs.\<close>

inductive gc_step :: "addr \<Rightarrow> gc_state \<Rightarrow> gc_state \<Rightarrow> bool" for nil :: addr where
  alloc: "t_free sc \<noteq> t_bottom sc \<Longrightarrow>
    gc_step nil (sc, R, M) (fst (take_free sc nil), insert (snd (take_free sc nil)) R, M)"
| load: "p \<in> R \<Longrightarrow> points_to (t_obj sc) p c \<Longrightarrow> gc_step nil (sc, R, M) (sc, insert c R, M)"
| drop: "R' \<subseteq> R \<Longrightarrow> gc_step nil (sc, R, M) (sc, R', M)"
| barrier: "p \<in> R \<Longrightarrow> shade_room sc [p] \<Longrightarrow> gc_step nil (sc, R, M) (insert_treadmill sc p, R, M)"
| set_car: "p \<in> R \<Longrightarrow> v \<in> R \<Longrightarrow> shade_room sc [v] \<Longrightarrow>
    gc_step nil (sc, R, M) (gc_set_car sc p v, R, M)"
| set_cdr: "p \<in> R \<Longrightarrow> v \<in> R \<Longrightarrow> \<not> o_cont (t_obj sc p) \<Longrightarrow> shade_room sc [v] \<Longrightarrow>
    gc_step nil (sc, R, M) (gc_set_cdr sc p v, R, M)"
| set_elem: "p \<in> R \<Longrightarrow> v \<in> R \<Longrightarrow> shade_room sc [v] \<Longrightarrow>
    gc_step nil (sc, R, M) (gc_set_vector_elem sc p i v, R, M)"
| mk_vec: "p \<in> R \<Longrightarrow> \<not> o_cont (t_obj sc p) \<Longrightarrow> nil \<in> R \<Longrightarrow>
    shade_room sc [nil] \<Longrightarrow> gc_step nil (sc, R, M) (gc_mk_vector sc p len nil, R, M)"
| mk_cont: "x \<in> R \<Longrightarrow> \<not> o_atom (t_obj sc x) \<Longrightarrow> y \<in> R \<Longrightarrow> x \<noteq> y \<Longrightarrow> \<not> o_cont (t_obj sc y) \<Longrightarrow>
    t_colour sc y = t_dark sc \<Longrightarrow>
    \<forall>f \<in> set frames. \<forall>c \<in> set (frame_roots f). c \<in> R \<and> t_colour sc c = t_dark sc \<Longrightarrow>
    gc_step nil (sc, R, M) (gc_mk_continuation sc x y frames, R, M)"
| scan: "t_scan sc \<noteq> t_top sc \<Longrightarrow> shade_room sc (children (t_obj sc) (t_scan sc)) \<Longrightarrow>
    gc_step nil (sc, R, M) (scan_step sc, R, M)"
| flip: "t_free sc = t_bottom sc \<Longrightarrow> t_scan sc = t_top sc \<Longrightarrow> set (root_list r a b) = R \<Longrightarrow>
    r_NIL r = nil \<Longrightarrow> \<forall>p \<in> R. t_colour sc p = t_dark sc \<Longrightarrow>
    shade_room (flip_memory newmem sc) (root_list r a b) \<Longrightarrow>
    K = (if needs_memory (turn sc) then {newmem ..< newmem + alloc_size (turn sc)} else {}) \<Longrightarrow>
    (needs_memory (turn sc) \<longrightarrow> 2 \<le> alloc_size (turn sc)) \<Longrightarrow> K \<inter> M = {} \<Longrightarrow>
    gc_step nil (sc, R, M) (treadmill_flip newmem r a b sc, R, M \<union> K)"

inductive_cases gc_stepE: "gc_step nil (sc, R, M) st'"

lemma gc_step_move: "gc_step nil st st' \<longleftrightarrow> (\<exists>ev. gc_move nil ev st st' \<and> gc_care ev st)"
proof
  assume "gc_step nil st st'"
  then show "\<exists>ev. gc_move nil ev st st' \<and> gc_care ev st"
  proof cases
    case (alloc sc R M)
    then show ?thesis by (intro exI [of _ E_Alloc]) (auto intro: m_alloc)
  next
    case (load p R sc c M)
    then show ?thesis by (intro exI [of _ "E_Load p c"]) (auto intro: m_load)
  next
    case (drop R' R sc M)
    then show ?thesis by (intro exI [of _ "E_Drop R'"]) (auto intro: m_drop)
  next
    case (barrier p R sc M)
    then show ?thesis using m_barrier [of p R nil sc M] by (intro exI [of _ "E_Barrier p"]) simp
  next
    case (set_car p R v sc M)
    then show ?thesis by (intro exI [of _ "E_Set_Car p v"]) (auto intro: m_set_car)
  next
    case (set_cdr p R v sc M)
    then show ?thesis by (intro exI [of _ "E_Set_Cdr p v"]) (auto intro: m_set_cdr)
  next
    case (set_elem p R v sc M i)
    then show ?thesis by (intro exI [of _ "E_Set_Elem p i v"]) (auto intro: m_set_elem)
  next
    case (mk_vec p R sc M len)
    then show ?thesis by (intro exI [of _ "E_Mk_Vector p len nil"]) (auto intro: m_mk_vec)
  next
    case (mk_cont x R sc y frames M)
    then show ?thesis by (intro exI [of _ "E_Mk_Continuation x y frames"]) (auto intro!: m_mk_cont)
  next
    case (scan sc R M)
    then show ?thesis by (intro exI [of _ E_Scan]) (auto intro: m_scan)
  next
    case (flip sc r a b R newmem K M)
    then show ?thesis
      by (intro exI [of _ "E_Flip r a b newmem"] conjI) (simp_all add: gc_move.simps)
  qed
next
  assume "\<exists>ev. gc_move nil ev st st' \<and> gc_care ev st"
  then obtain ev where "gc_move nil ev st st'" and c: "gc_care ev st" by blast
  then show "gc_step nil st st'"
  proof cases
    case (m_mk_cont x sc y R frames M)
    then show ?thesis using c by (simp only: gc_care.simps) (rule gc_step.mk_cont; force)
  next
    case (m_flip sc r K newmem M a b R)
    then show ?thesis using c by (simp only: gc_care.simps) (rule gc_step.flip; blast)
  qed (use c in \<open>auto intro: gc_step.intros\<close>)
qed

definition gc_inv :: "addr \<Rightarrow> gc_state \<Rightarrow> bool" where
  "gc_inv nil st \<longleftrightarrow> (case st of (sc, R, M) \<Rightarrow>
     \<exists>L W E G B. tricolour L sc W E G B \<and> R \<subseteq> L \<and> nil \<in> set (G @ B) \<and> M = set (W @ E @ G @ B))"

lemma gc_invI: "tricolour L sc W E G B \<Longrightarrow> R \<subseteq> L \<Longrightarrow> nil \<in> set (G @ B) \<Longrightarrow>
  M = set (W @ E @ G @ B) \<Longrightarrow> gc_inv nil (sc, R, M)"
  unfolding gc_inv_def by blast

lemma gc_invE:
  assumes "gc_inv nil (sc, R, M)"
  obtains L W E G B where "tricolour L sc W E G B" "R \<subseteq> L" "nil \<in> set (G @ B)"
    "M = set (W @ E @ G @ B)"
  using assms unfolding gc_inv_def by blast

text \<open>The regions under the pointers.\<close>

lemma regions_W: "regions sc W E G B \<Longrightarrow> t_free sc = t_bottom sc \<longleftrightarrow> W = []"
  using regions_distinct [of sc W E G B]
  by (cases W; cases E) (auto simp: regions_def)

lemma regions_G: "regions sc W E G B \<Longrightarrow> t_scan sc = t_top sc \<longleftrightarrow> G = []"
proof -
  assume r: "regions sc W E G B"
  have "E \<noteq> []" using r by (simp add: regions_def)
  then have "last E \<in> set E" by simp
  moreover have "G \<noteq> [] \<Longrightarrow> last G \<in> set G" by simp
  moreover have "set E \<inter> set G = {}" using regions_distinct [OF r] by auto
  ultimately have "G \<noteq> [] \<Longrightarrow> last G \<noteq> last E" by fastforce
  then show ?thesis using r by (cases "G = []") (simp_all add: regions_def)
qed

lemma tricolour_dark: "tricolour L sc W E G B \<Longrightarrow> p \<in> L \<Longrightarrow>
    t_colour sc p = t_dark sc \<longleftrightarrow> p \<in> set (G @ B)"
  by (auto simp: tricolour_def regions_def)

lemma shade_one:
  assumes t: "tricolour L sc W E G B" and p: "p \<in> L" and room: "shade_room sc [p]"
  shows "\<exists>E' G'. tricolour L (insert_treadmill sc p) W E' G' B \<and> p \<in> set (G' @ B) \<and>
    set G \<subseteq> set G' \<and> set (E' @ G') = set (E @ G)"
proof -
  from tricolour_insert_all [OF t _ room] p obtain E' H where
    n: "tricolour L (insert_treadmill sc p) W E' (H @ G) B" and
    e: "set E' = set E - {p}" "set H = set E \<inter> {p}" by auto
  have "p \<in> set E \<or> p \<in> set (G @ B)" using p tricolour_L [OF t] by auto
  then have "p \<in> set ((H @ G) @ B)" "set (E' @ H @ G) = set (E @ G)" using e by auto
  with n show ?thesis by (intro exI [of _ E'] exI [of _ "H @ G"]) auto
qed

text \<open>A store behind the barrier, for any new contents of the cell.\<close>

lemma gc_inv_store:
  assumes i: "gc_inv nil (sc, R, M)" and pv: "p \<in> R" "v \<in> R" and room: "shade_room sc [v]"
    and fr: "o_frames ob = o_frames (t_obj sc p)"
    and ca: "o_cont ob \<Longrightarrow> o_cont (t_obj sc p)" "o_cont ob \<Longrightarrow> o_atom ob = o_atom (t_obj sc p)"
    and ch: "set (children ((t_obj sc)(p := ob)) p) \<subseteq> insert v (set (children (t_obj sc) p))"
  shows "gc_inv nil ((insert_treadmill sc v)\<lparr>t_obj := (t_obj sc)(p := ob)\<rparr>, R, M)"
proof -
  from i obtain L W E G B where t: "tricolour L sc W E G B" and R: "R \<subseteq> L"
    and nil: "nil \<in> set (G @ B)" and M: "M = set (W @ E @ G @ B)" by (rule gc_invE)
  have "v \<in> L" using pv R by auto
  from shade_one [OF t this room] obtain E' G' where
    t': "tricolour L (insert_treadmill sc v) W E' G' B" and v: "v \<in> set (G' @ B)" and
    g: "set G \<subseteq> set G'" "set (E' @ G') = set (E @ G)" by blast
  have "tricolour L ((insert_treadmill sc v)\<lparr>t_obj := (t_obj (insert_treadmill sc v))(p := ob)\<rparr>) W E' G' B"
  proof (rule store_tricolour [OF t' _ v])
    show "p \<in> L" using pv R by auto
    show "\<not> o_atom ob" if "o_cont ob" using ca that t \<open>p \<in> L\<close> by (auto simp: tricolour_def)
  qed (use fr ch in simp_all)
  then show ?thesis using R nil g M by (intro gc_invI [of L _ W E' G' B]) auto
qed

lemma gc_inv_alloc:
  assumes i: "gc_inv nil (sc, R, M)" and f: "t_free sc \<noteq> t_bottom sc"
  shows "gc_inv nil (fst (take_free sc nil), insert (snd (take_free sc nil)) R, M)"
    and "snd (take_free sc nil) \<notin> reach (t_obj sc) R" and "snd (take_free sc nil) \<in> M"
proof -
  from i obtain L W' E G B where t': "tricolour L sc W' E G B" and R: "R \<subseteq> L"
    and nil: "nil \<in> set (G @ B)" and M: "M = set (W' @ E @ G @ B)" by (rule gc_invE)
  obtain w W where W: "W' = w # W"
    using f regions_W [OF tricolour_regions [OF t']] by (cases W') auto
  note t = t' [unfolded W]
  note tf = take_free_tricolour [OF t nil]
  show "gc_inv nil (fst (take_free sc nil), insert (snd (take_free sc nil)) R, M)"
    unfolding tf(2) using R nil M by (intro gc_invI [OF tf(1)]) (auto simp: W)
  have "reach (t_obj sc) R \<subseteq> L" using R t by (intro reach_closed) (auto simp: tricolour_def)
  moreover have "w \<notin> L" using tricolour_L [OF t] regions_distinct [OF tricolour_regions [OF t]] by auto
  ultimately show "snd (take_free sc nil) \<notin> reach (t_obj sc) R" "snd (take_free sc nil) \<in> M"
    unfolding tf(2) by (auto simp: M W)
qed

lemma gc_inv_scan:
  assumes i: "gc_inv nil (sc, R, M)" and s: "t_scan sc \<noteq> t_top sc"
    and room: "shade_room sc (children (t_obj sc) (t_scan sc))"
  shows "gc_inv nil (scan_step sc, R, M)"
proof -
  from i obtain L W E G' B where t': "tricolour L sc W E G' B" and R: "R \<subseteq> L"
    and nil: "nil \<in> set (G' @ B)" and M: "M = set (W @ E @ G' @ B)" by (rule gc_invE)
  obtain G g where G: "G' = G @ [g]"
    using s regions_G [OF tricolour_regions [OF t']] by (cases G' rule: rev_cases) auto
  note t = t' [unfolded G]
  have "t_scan sc = g" using t by (simp add: tricolour_def regions_def)
  with scan_step_tricolour [OF t] room obtain E' H where
    n: "tricolour L (scan_step sc) W E' (H @ G) (g # B)" and
    e: "set E' = set E - set (children (t_obj sc) g)" "set H = set E \<inter> set (children (t_obj sc) g)"
    by auto
  show ?thesis using R nil M e by (intro gc_invI [OF n]) (auto simp: G)
qed

lemma gc_inv_flip:
  assumes i: "gc_inv nil (sc, R, M)" and f: "t_free sc = t_bottom sc" "t_scan sc = t_top sc"
    and R': "set (root_list r a b) = R" and nil': "r_NIL r = nil"
    and dark: "\<forall>p \<in> R. t_colour sc p = t_dark sc"
    and room: "shade_room (flip_memory newmem sc) (root_list r a b)"
    and K: "K = (if needs_memory (turn sc) then {newmem ..< newmem + alloc_size (turn sc)} else {})"
      "needs_memory (turn sc) \<longrightarrow> 2 \<le> alloc_size (turn sc)" "K \<inter> M = {}"
  shows "gc_inv nil (treadmill_flip newmem r a b sc, R, M \<union> K)"
proof -
  from i obtain L W E G B where t: "tricolour L sc W E G B" and R: "R \<subseteq> L"
    and nil: "nil \<in> set (G @ B)" and M: "M = set (W @ E @ G @ B)" by (rule gc_invE)
  note reg = tricolour_regions [OF t]
  have W: "W = []" and G: "G = []" using f regions_W [OF reg] regions_G [OF reg] by simp_all
  note t0 = t [unfolded W G]
  have ne: "B \<noteq> []" using nil by (auto simp: G)
  have RB: "p \<in> set B" if "p \<in> R" for p
    using tricolour_dark [OF t0, of p] that R dark by (auto simp: G)
  then have roots: "set (root_list r a b) \<subseteq> set B" using R' by auto
  have mem: "2 \<le> alloc_size (turn sc) \<and> {newmem ..< newmem + alloc_size (turn sc)} \<inter> set (E @ B) = {}"
    if "needs_memory (turn sc)"
  proof -
    have "set (E @ B) = M" by (simp add: M W G)
    then show ?thesis using that K by simp
  qed
  from flip_tricolour [OF t0 ne roots room mem] obtain N E' G' where
    n: "tricolour (set B) (treadmill_flip newmem r a b sc) (E @ N) E' G' []" and
    N: "N = (if needs_memory (turn sc) then [newmem ..< newmem + alloc_size (turn sc)] else [])" and
    e: "set (E' @ G') = set B" "set G' = set (root_list r a b)" by blast
  have "nil \<in> set G'" unfolding e(2) by (simp add: root_list_def nil')
  moreover have "M \<union> K = set ((E @ N) @ E' @ G' @ [])"
  proof -
    have "set N = K" unfolding N K(1) by (simp only: set_upt list.set(1) split: if_split) simp
    then show ?thesis using e(1) by (auto simp: M W G)
  qed
  ultimately show ?thesis using RB by (intro gc_invI [OF n]) auto
qed

section \<open>No reachable cell is handed out\<close>

lemma gc_inv_load:
  assumes i: "gc_inv nil (sc, R, M)" and p: "p \<in> R" "points_to (t_obj sc) p c"
  shows "gc_inv nil (sc, insert c R, M)"
proof -
  from i obtain L W E G B where t: "tricolour L sc W E G B" and R: "R \<subseteq> L"
    and nil: "nil \<in> set (G @ B)" and M: "M = set (W @ E @ G @ B)" by (rule gc_invE)
  have "c \<in> set (children (t_obj sc) p)" using p(2) by (simp add: children_points)
  then have "c \<in> L" using t p(1) R by (auto simp: tricolour_def)
  then show ?thesis using R nil M by (intro gc_invI [OF t]) auto
qed

lemma insert_request:
  "insert_treadmill (sc\<lparr>t_obj := ob, t_request := q\<rparr>) v = (insert_treadmill sc v)\<lparr>t_obj := ob, t_request := q\<rparr>"
proof -
  have s: "step_off (sc\<lparr>t_obj := ob, t_request := q\<rparr>) v = (step_off sc v)\<lparr>t_obj := ob, t_request := q\<rparr>"
    by (simp add: step_off_def Let_def)
  have r: "relink (s\<lparr>t_obj := ob, t_request := q\<rparr>) v at = (relink s v at)\<lparr>t_obj := ob, t_request := q\<rparr>"
    for s :: treadmill and at by (simp add: relink_def unlink_def Let_def)
  define s1 where "s1 = step_off sc v"
  have u: "s\<lparr>t_obj := ob, t_request := q, t_scan := x, t_inserts := i\<rparr> =
      s\<lparr>t_scan := x, t_inserts := i, t_obj := ob, t_request := q\<rparr>"
    "s\<lparr>t_obj := ob, t_request := q, t_inserts := i\<rparr> = s\<lparr>t_inserts := i, t_obj := ob, t_request := q\<rparr>"
    for s :: treadmill and x i by simp_all
  show ?thesis
  proof (cases "t_colour sc v = t_dark sc \<or> v \<noteq> t_top sc \<and> v \<noteq> t_bottom sc \<and> v = t_free sc")
    case True
    then show ?thesis by (auto simp: insert_treadmill_def)
  next
    case False
    then show ?thesis
      by (auto simp: insert_treadmill_def Let_def s u r simp flip: s1_def)
  qed
qed

lemma gc_inv_request: "gc_inv nil (sc\<lparr>t_request := q\<rparr>, R, M) = gc_inv nil (sc, R, M)"
  by (simp add: gc_inv_def tricolour_def regions_def)

lemma gc_mk_vector_eq:
  "gc_mk_vector sc x len nil = (insert_treadmill sc nil)\<lparr>t_obj := (t_obj sc)(x := (t_obj sc x)
     \<lparr>o_vector := True, o_atom := True, o_elems := replicate len nil\<rparr>), t_request := t_request sc + int len\<rparr>"
  by (simp add: gc_mk_vector_def gc_fill_vector_def Let_def insert_request)

lemma gc_set_obj:
  "gc_set_car sc p v = (insert_treadmill sc v)\<lparr>t_obj := (t_obj sc)(p := (t_obj sc p)\<lparr>o_car := v\<rparr>)\<rparr>"
  "gc_set_cdr sc p v = (insert_treadmill sc v)\<lparr>t_obj := (t_obj sc)(p := (t_obj sc p)\<lparr>o_cdr := v\<rparr>)\<rparr>"
  "gc_set_vector_elem sc p i v =
     (insert_treadmill sc v)\<lparr>t_obj := (t_obj sc)(p := (t_obj sc p)\<lparr>o_elems := (o_elems (t_obj sc p))[i := v]\<rparr>)\<rparr>"
  by (simp_all add: gc_set_car_def gc_set_cdr_def gc_set_vector_elem_def Let_def)

lemma gc_inv_step: "gc_step nil st st' \<Longrightarrow> gc_inv nil st \<Longrightarrow> gc_inv nil st'"
proof (induction rule: gc_step.induct)
  case (set_car p R v sc M)
  show ?case unfolding gc_set_obj
    by (rule gc_inv_store [OF set_car.prems set_car.hyps]) (auto simp: children_def)
next
  case (set_cdr p R v sc M)
  show ?case unfolding gc_set_obj
    by (rule gc_inv_store [OF set_cdr.prems set_cdr.hyps(1,2,4)])
      (use set_cdr.hyps(3) in \<open>auto simp: children_def\<close>)
next
  case (set_elem p R v sc M i)
  show ?case unfolding gc_set_obj
    by (rule gc_inv_store [OF set_elem.prems set_elem.hyps])
      (auto simp: children_def dest!: subsetD [OF set_update_subset_insert])
next
  case (mk_vec p R sc M len)
  let ?ob = "(t_obj sc p)\<lparr>o_vector := True, o_atom := True, o_elems := replicate len nil\<rparr>"
  have "gc_inv nil ((insert_treadmill sc nil)\<lparr>t_obj := (t_obj sc)(p := ?ob)\<rparr>, R, M)"
    by (rule gc_inv_store [OF mk_vec.prems mk_vec.hyps(1,3,4)])
      (use mk_vec.hyps(2) in \<open>auto simp: children_def\<close>)
  then show ?case unfolding gc_mk_vector_eq by (simp add: gc_inv_request)
next
  case (mk_cont x R sc y frames M)
  from mk_cont.prems obtain L W E G B where t: "tricolour L sc W E G B" and R: "R \<subseteq> L"
    and nil: "nil \<in> set (G @ B)" and M: "M = set (W @ E @ G @ B)" by (rule gc_invE)
  have d: "p \<in> set (G @ B)" if "p \<in> R" "t_colour sc p = t_dark sc" for p
    using tricolour_dark [OF t, of p] that R by auto
  then have "\<forall>f \<in> set frames. set (frame_scan f) \<subseteq> set (G @ B)"
    using mk_cont.hyps(7) by (auto simp: frame_scan_def frame_roots_def)
  then have "tricolour L (gc_mk_continuation sc x y frames) W E G B"
    using mk_cont.hyps d R by (intro continuation_tricolour [OF t]) auto
  then show ?case using R nil M by (rule gc_invI)
next
  case (drop R' R sc M)
  from drop.prems obtain L W E G B where t: "tricolour L sc W E G B" and R: "R \<subseteq> L"
    and nil: "nil \<in> set (G @ B)" and M: "M = set (W @ E @ G @ B)" by (rule gc_invE)
  then show ?case using drop.hyps by (intro gc_invI [OF t]) auto
next
  case (barrier p R sc M)
  from barrier.prems obtain L W E G B where t: "tricolour L sc W E G B" and R: "R \<subseteq> L"
    and nil: "nil \<in> set (G @ B)" and M: "M = set (W @ E @ G @ B)" by (rule gc_invE)
  with shade_one [OF t _ barrier.hyps(2)] barrier.hyps(1) obtain E' G' where
    "tricolour L (insert_treadmill sc p) W E' G' B" "set G \<subseteq> set G'" "set (E' @ G') = set (E @ G)"
    by blast
  then show ?case using R nil M by (intro gc_invI [of L _ W E' G' B]) auto
next
  case (flip sc R r a b newmem K M)
  show ?case by (rule gc_inv_flip [OF flip.prems flip.hyps(1-9)])
qed (auto intro: gc_inv_alloc gc_inv_load gc_inv_scan)

definition gc_start :: "addr \<Rightarrow> nat \<Rightarrow> gc_state" where
  "gc_start newp n = (init_treadmill newp n, {newp}, {newp ..< newp + n})"

inductive gc_reachable :: "addr \<Rightarrow> nat \<Rightarrow> gc_state \<Rightarrow> bool" for newp n where
  start: "gc_reachable newp n (gc_start newp n)"
| move: "gc_reachable newp n st \<Longrightarrow> gc_move newp ev st st' \<Longrightarrow> gc_care ev st \<Longrightarrow> gc_reachable newp n st'"

lemma gc_reachable_more: "gc_reachable newp n st \<Longrightarrow> gc_step newp st st' \<Longrightarrow> gc_reachable newp n st'"
  by (auto simp: gc_step_move intro: gc_reachable.move)

lemma gc_inv_start: "2 \<le> n \<Longrightarrow> gc_inv newp (gc_start newp n)"
  unfolding gc_start_def by (rule gc_invI [OF init_tricolour]) auto

lemma gc_inv_reachable: "gc_reachable newp n st \<Longrightarrow> 2 \<le> n \<Longrightarrow> gc_inv newp st"
proof (induction rule: gc_reachable.induct)
  case (move st ev st')
  then have "gc_step newp st st'" unfolding gc_step_move by blast
  with move show ?case by (auto intro: gc_inv_step)
qed (rule gc_inv_start)

text \<open>
  In every reachable state the cells form one ring, divided by the four pointers.
\<close>

lemma gc_regions:
  assumes "2 \<le> n" and "gc_reachable newp n (sc, R, M)"
  shows "\<exists>W E G B. regions sc W E G B \<and> set (W @ E @ G @ B) = M \<and> distinct (W @ E @ G @ B) \<and>
    reach (t_obj sc) R \<subseteq> M - set W"
proof -
  from gc_inv_reachable [OF assms(2,1)] obtain L W E G B where
    t: "tricolour L sc W E G B" and R: "R \<subseteq> L" and M: "M = set (W @ E @ G @ B)"
    by (rule gc_invE)
  note d = regions_distinct [OF tricolour_regions [OF t]]
  have "reach (t_obj sc) R \<subseteq> L" using R t by (intro reach_closed) (auto simp: tricolour_def)
  with tricolour_L [OF t] d have "reach (t_obj sc) R \<subseteq> M - set W" by (auto simp: M)
  with tricolour_regions [OF t] d M show ?thesis by blast
qed

section \<open>A collection frees exactly the garbage\<close>

lemma reach_agree:
  assumes "\<And>p. p \<in> S \<Longrightarrow> obj' p = obj p" and "R \<subseteq> S"
    and "\<And>p. p \<in> S \<Longrightarrow> set (children obj p) \<subseteq> S" and "\<And>p. p \<in> S \<Longrightarrow> o_cont (obj p) \<longrightarrow> \<not> o_atom (obj p)"
  shows "reach obj' R = reach obj R"
proof -
  have ch: "children obj' p = children obj p" if p: "p \<in> S" for p
  proof -
    have "obj' (o_cdr (obj p)) = obj (o_cdr (obj p))" if "o_cont (obj p)"
      using cdr_child [of obj p] that assms(1,3,4) p by blast
    then show ?thesis using assms(1) [OF p] by (auto simp: children_def)
  qed
  have sub: "reach obj R \<subseteq> S" by (rule reach_closed) (use assms in auto)
  have "reach obj' R \<subseteq> reach obj R \<inter> S"
    by (rule reach_closed) (use assms ch in \<open>auto intro: reach.root reach_child\<close>)
  moreover have "reach obj R \<subseteq> reach obj' R \<inter> S"
    by (rule reach_closed) (use assms ch in \<open>auto intro: reach.root reach_child\<close>)
  ultimately show ?thesis by blast
qed

lemma flip_obj:
  assumes "needs_memory (turn sc) \<Longrightarrow> p \<notin> {newmem ..< newmem + alloc_size (turn sc)}"
  shows "t_obj (treadmill_flip newmem r a b sc) p = t_obj sc p"
proof -
  have g: "t_obj (grow s base k) p = t_obj s p" if "p \<notin> {base ..< base + k}" for s base k
  proof -
    have "p \<notin> set [base ..< base + k]" using that by simp
    then show ?thesis by (simp add: grow_def Let_def)
  qed
  have "t_obj (treadmill_flip newmem r a b sc) p = t_obj (flip_memory newmem sc) p"
    by (simp add: treadmill_flip_def treadmill_mark_roots_def)
  also have "t_obj (flip_memory newmem sc) p = t_obj sc p"
    using assms by (auto simp: flip_memory_def Let_def g)
  finally show ?thesis .
qed

lemma gc_cycle:
  assumes i: "gc_inv nil (sc, R, M)"
    and f: "t_free sc = t_bottom sc" "t_scan sc = t_top sc"
    and R': "set (root_list r a b) = R" and nil': "r_NIL r = nil"
    and dark: "\<forall>p \<in> R. t_colour sc p = t_dark sc"
    and K: "K = (if needs_memory (turn sc) then {newmem ..< newmem + alloc_size (turn sc)} else {})"
      "needs_memory (turn sc) \<longrightarrow> 2 \<le> alloc_size (turn sc)" "K \<inter> M = {}"
    and spare: "e \<in> M" "t_colour sc e = t_dark sc" "e \<notin> reach (t_obj sc) R"
  shows "\<exists>sc'. scan_loop (card M) (treadmill_flip newmem r a b sc) = Some sc' \<and>
    t_scan sc' = t_top sc' \<and> gc_inv nil (sc', R, M \<union> K) \<and>
    {p \<in> M. t_colour sc p = t_dark sc \<and> t_colour sc' p = t_dark sc'} = reach (t_obj sc) R"
proof -
  from i obtain L W E G B where t: "tricolour L sc W E G B" and R: "R \<subseteq> L"
    and nil: "nil \<in> set (G @ B)" and M: "M = set (W @ E @ G @ B)" by (rule gc_invE)
  note reg = tricolour_regions [OF t]
  have W: "W = []" and G: "G = []" using f regions_W [OF reg] regions_G [OF reg] by simp_all
  note t0 = t [unfolded W G]
  have ne: "B \<noteq> []" using nil by (auto simp: G)
  have dB: "t_colour sc p = t_dark sc \<longleftrightarrow> p \<in> set B" if "p \<in> M" for p
    using tricolour_regions [OF t0] that by (auto simp: M W G regions_def)
  have LM: "L \<subseteq> M" using tricolour_L [OF t0] by (auto simp: M W G)
  then have roots: "set (root_list r a b) \<subseteq> set B" using R R' dark dB by auto
  have mem: "2 \<le> alloc_size (turn sc) \<and> {newmem ..< newmem + alloc_size (turn sc)} \<inter> set (E @ B) = {}"
    if "needs_memory (turn sc)"
  proof -
    have "set (E @ B) = M" by (simp add: M W G)
    then show ?thesis using that K by simp
  qed
  have eB: "e \<in> set B" "e \<notin> set (root_list r a b)"
    using spare dB R' by (auto intro: reach.root)
  from flip_memory_tricolour [OF t0 ne mem] obtain N0 where
    "tricolour (set B) (flip_memory newmem sc) (E @ N0) B [] []" by blast
  from shade_room_spare [OF tricolour_regions [OF this], of "root_list r a b" e] eB roots
  have room: "shade_room (flip_memory newmem sc) (root_list r a b)" by simp
  let ?f = "treadmill_flip newmem r a b sc"
  from flip_tricolour [OF t0 ne roots room mem] obtain N E' G' where
    n: "tricolour (set B) ?f (E @ N) E' G' []" and
    N: "N = (if needs_memory (turn sc) then [newmem ..< newmem + alloc_size (turn sc)] else [])" and
    e: "set (E' @ G') = set B" "set G' = set (root_list r a b)" by blast
  have ob: "t_obj ?f p = t_obj sc p" if "p \<in> set B" for p
  proof (rule flip_obj)
    assume nm: "needs_memory (turn sc)"
    have "p \<in> M" using that by (simp add: M)
    then show "p \<notin> {newmem ..< newmem + alloc_size (turn sc)}"
      using K(3) K(1) nm by auto
  qed
  have rch: "reach (t_obj ?f) R = reach (t_obj sc) R"
  proof (rule reach_agree [where S = "set B"])
    fix p assume "p \<in> set B"
    then show "set (children (t_obj sc) p) \<subseteq> set B" "o_cont (t_obj sc p) \<longrightarrow> \<not> o_atom (t_obj sc p)"
      using t0 by (auto simp: tricolour_def)
  qed (use ob roots R' in auto)
  note d = regions_distinct [OF tricolour_regions [OF n]]
  have dEG: "distinct (E' @ G')" using d by simp
  have BM: "set B \<subseteq> M" "finite M" by (auto simp: M)
  have "length E' + length G' = card (set (E' @ G'))"
    using distinct_card [OF dEG] by simp
  also have "\<dots> \<le> card M" unfolding e(1) by (rule card_mono [OF BM(2,1)])
  finally have len: "length E' + length G' \<le> card M" .
  have rB: "reach (t_obj sc) R \<subseteq> set B"
    using roots R' t0 by (intro reach_closed) (auto simp: tricolour_def)
  have eE: "e \<in> set E'" using e eB by auto
  have sp: "set E' - reach (t_obj ?f) (set G') \<noteq> {}"
    using eE spare(3) rch e(2) R' by auto
  from scan_loop_result [OF n len sp] obtain sc' E2 B2 where
    s: "scan_loop (card M) ?f = Some sc'" and t2: "tricolour (set B) sc' (E @ N) E2 [] B2" and
    E2: "set E2 = set E' - reach (t_obj ?f) (set G')" and
    B2: "set B2 = set (E' @ G' @ []) - set E2" by blast
  note reg2 = tricolour_regions [OF t2]
  have B2r: "set B2 = reach (t_obj sc) R"
    using B2 E2 e rB rch R' by (auto intro: reach.root)
  have "{p \<in> M. t_colour sc p = t_dark sc \<and> t_colour sc' p = t_dark sc'} = set B2"
  proof -
    have "t_colour sc' p = t_dark sc' \<longleftrightarrow> p \<in> set B2" if "p \<in> set B" for p
      using tricolour_dark [OF t2 that] by simp
    moreover have "set B2 \<subseteq> set B" using B2 e(1) by auto
    ultimately show ?thesis using dB BM by auto
  qed
  moreover have "t_scan sc' = t_top sc'" using regions_G [OF reg2] by simp
  moreover have "gc_inv nil (sc', R, M \<union> K)"
  proof (rule gc_invI [OF t2])
    show "R \<subseteq> set B" using roots R' by simp
    show "nil \<in> set ([] @ B2)"
      using B2r R' nil' by (auto simp: root_list_def intro: reach.root)
    have "set N = K" unfolding N K(1) by (simp only: set_upt list.set(1) split: if_split) simp
    moreover have "set E2 \<union> set B2 = set B" using B2 E2 e(1) by auto
    ultimately show "M \<union> K = set ((E @ N) @ E2 @ [] @ B2)" by (auto simp: M W G)
  qed
  ultimately show ?thesis using s B2r by blast
qed

end
