(* ===== verification/Treadmill_Claims.thy ===== *)
theory Treadmill_Claims
  imports Treadmill_System
begin

text \<open>
  What the collector guarantees, over all interleavings of interpreter and scanner, and the run
  that shows why the roots must be dark before a flip.
\<close>

section \<open>A concrete run\<close>

definition roots_of :: "addr \<Rightarrow> addr \<Rightarrow> addr \<Rightarrow> gc_roots" where
  "roots_of nil x y = \<lparr>r_oblist = nil, r_global_env = nil, r_args = x, r_envir = y, r_code = nil,
     r_frames = [], r_tmp_dump = nil, r_value = nil, r_inport = nil, r_save_inport = nil,
     r_outport = nil, r_loadport = nil, r_T = nil, r_F = nil, r_NIL = nil, r_EOF_OBJ = nil,
     r_sink = nil, r_imp_env = []\<rparr>"

primrec take_n :: "nat \<Rightarrow> addr \<Rightarrow> treadmill \<Rightarrow> treadmill" where
  "take_n 0 nil sc = sc"
| "take_n (Suc k) nil sc = take_n k nil (fst (take_free sc nil))"

text \<open>Pair 2 holds cell 3; five cells are taken and the first collection begins.\<close>

definition run1 :: treadmill where
  "run1 = take_n 3 1 (gc_set_car (take_n 2 1 (init_treadmill 1 12)) 2 3)"

text \<open>Then 3 is loaded, unhooked from 2 before the scanner reaches 2, and the scan ends.\<close>

definition run2 :: treadmill where
  "run2 = treadmill_flip 0 (roots_of 1 2 1) 1 1 run1"

definition run3 :: treadmill where
  "run3 = take_n 6 1 (scan_step (scan_step (gc_set_car run2 2 1)))"

primrec can_take :: "nat \<Rightarrow> addr \<Rightarrow> treadmill \<Rightarrow> bool" where
  "can_take 0 nil sc = True"
| "can_take (Suc k) nil sc =
     (t_free sc \<noteq> t_bottom sc \<and> can_take k nil (fst (take_free sc nil)))"

lemma take_n_reachable:
  "gc_reachable newp n (sc, R, M) \<Longrightarrow> can_take k newp sc \<Longrightarrow>
   gc_reachable newp n (take_n k newp sc, R, M)"
proof (induction k arbitrary: sc)
  case (Suc k)
  then have "gc_reachable newp n (fst (take_free sc newp), insert (snd (take_free sc newp)) R, M)"
    by (auto intro: gc_reachable_more gc_step.alloc)
  then have "gc_reachable newp n (fst (take_free sc newp), R, M)"
    by (rule gc_reachable_more [OF _ gc_step.drop]) auto
  with Suc show ?case by simp
qed simp

lemma run0_reachable: "gc_reachable 1 12 (take_n 2 1 (init_treadmill 1 12), {1, 2, 3}, {1 ..< 13})"
proof -
  let ?i = "init_treadmill 1 12"
  have a: "t_free ?i \<noteq> t_bottom ?i" "snd (take_free ?i 1) = 2" by code_simp+
  let ?j = "fst (take_free ?i 1)"
  have b: "t_free ?j \<noteq> t_bottom ?j" "snd (take_free ?j 1) = 3" by code_simp+
  have "gc_reachable 1 12 (?i, {1}, {1 ..< 13})"
    using gc_reachable.start [of 1 12] by (simp add: gc_start_def)
  from gc_reachable_more [OF this gc_step.alloc [OF a(1)]]
  have "gc_reachable 1 12 (?j, {2, 1}, {1 ..< 13})" by (simp only: a(2))
  from gc_reachable_more [OF this gc_step.alloc [OF b(1)]]
  have "gc_reachable 1 12 (fst (take_free ?j 1), {3, 2, 1}, {1 ..< 13})" by (simp only: b(2))
  moreover have "{3, 2, 1} = {1, 2, 3 :: nat}" by auto
  ultimately show ?thesis by (simp add: numeral_2_eq_2)
qed

lemma run1_reachable: "gc_reachable 1 12 (run1, {1, 2}, {1 ..< 13})"
proof -
  let ?s = "take_n 2 1 (init_treadmill 1 12)"
  have r: "shade_room ?s [3]" "can_take 3 1 (gc_set_car ?s 2 3)" by code_simp+
  have "gc_reachable 1 12 (gc_set_car ?s 2 3, {1, 2, 3}, {1 ..< 13})"
    by (rule gc_reachable_more [OF run0_reachable gc_step.set_car]) (use r in auto)
  then have "gc_reachable 1 12 (run1, {1, 2, 3}, {1 ..< 13})"
    unfolding run1_def using r(2) by (rule take_n_reachable)
  then show ?thesis by (rule gc_reachable_more [OF _ gc_step.drop]) auto
qed

lemma run2_reachable: "gc_reachable 1 12 (run2, {1, 2}, {1 ..< 13})"
proof -
  have r: "t_free run1 = t_bottom run1" "t_scan run1 = t_top run1"
    "set (root_list (roots_of 1 2 1) 1 1) = {1, 2}" "r_NIL (roots_of 1 2 1) = 1"
    "t_colour run1 1 = t_dark run1" "t_colour run1 2 = t_dark run1"
    "shade_room (flip_memory 0 run1) (root_list (roots_of 1 2 1) 1 1)"
    "\<not> needs_memory (turn run1)"
    by (code_simp | simp add: root_list_def roots_of_def insert_commute)+
  have "gc_step 1 (run1, {1, 2}, {1 ..< 13}) (treadmill_flip 0 (roots_of 1 2 1) 1 1 run1, {1, 2}, {1 ..< 13} \<union> {})"
    using r by (intro gc_step.flip) auto
  then have "gc_step 1 (run1, {1, 2}, {1 ..< 13}) (run2, {1, 2}, {1 ..< 13})"
    by (simp add: run2_def)
  then show ?thesis by (rule gc_reachable_more [OF run1_reachable])
qed

lemma run3_reachable: "gc_reachable 1 12 (run3, {1, 2, 3}, {1 ..< 13})"
proof -
  let ?a = "gc_set_car run2 2 1" let ?b = "scan_step ?a" let ?c = "scan_step ?b"
  have "3 \<in> set (children (t_obj run2) 2)" by code_simp
  then have l: "points_to (t_obj run2) 2 3" by (simp add: children_points)
  have r: "shade_room run2 [1]"
    "t_scan ?a \<noteq> t_top ?a" "shade_room ?a (children (t_obj ?a) (t_scan ?a))"
    "t_scan ?b \<noteq> t_top ?b" "shade_room ?b (children (t_obj ?b) (t_scan ?b))"
    "can_take 6 1 ?c"
    by code_simp+
  let ?R = "{1, 2, 3 :: nat}"
  have "gc_reachable 1 12 (run2, insert 3 {1, 2}, {1 ..< 13})"
    by (rule gc_reachable_more [OF run2_reachable gc_step.load]) (use l in auto)
  then have "gc_reachable 1 12 (run2, ?R, {1 ..< 13})" by (simp add: insert_commute)
  then have "gc_reachable 1 12 (?a, ?R, {1 ..< 13})"
    by (rule gc_reachable_more [OF _ gc_step.set_car]) (use r in auto)
  then have "gc_reachable 1 12 (?b, ?R, {1 ..< 13})"
    by (rule gc_reachable_more [OF _ gc_step.scan]) (use r in auto)
  then have "gc_reachable 1 12 (?c, ?R, {1 ..< 13})"
    by (rule gc_reachable_more [OF _ gc_step.scan]) (use r in auto)
  then show ?thesis unfolding run3_def using r(6) by (rule take_n_reachable)
qed

section \<open>Guarantees\<close>

text \<open>C2: Start from an initial treadmill of at least two cells and run allocation, loads,
  barriered stores, new vectors and continuations, scanner steps and flips (with growth) in any order
  in which \<open>gc_care\<close> holds at every step, that is: a cell is shaded only while the ecru region has
  room for it, what a new continuation refers to is dark, and at a flip the roots are exactly what the
  interpreter holds, all of them are dark, there is room to mark them and a new segment has at least
  two cells. (The code does not check these; without dark roots the statement is false, C40.) Then in
  every state reached, the cell that \<open>get_cell\<close> takes from a non-empty free list is not reachable,
  through pairs, vectors and the stack frames of continuations, from anything the interpreter holds.\<close>

theorem gc_alloc_safe:
  assumes "2 \<le> n" and "gc_reachable newp n (sc, R, M)" and "t_free sc \<noteq> t_bottom sc"
  shows "snd (take_free sc newp) \<in> M - reach (t_obj sc) R"
  using gc_inv_alloc(2,3) [OF gc_inv_reachable [OF assms(2,1)] assms(3)] by blast

lemma gc_alloc_safe_witness:
  "snd (take_free (gc_set_car (take_n 2 1 (init_treadmill 1 12)) 2 3) 1) \<in>
     {1 ..< 13} - reach (t_obj (gc_set_car (take_n 2 1 (init_treadmill 1 12)) 2 3)) {1, 2, 3}"
proof (rule gc_alloc_safe [of 12 1])
  show "gc_reachable 1 12 (gc_set_car (take_n 2 1 (init_treadmill 1 12)) 2 3, {1, 2, 3}, {1 ..< 13})"
  proof (rule gc_reachable_more [OF run0_reachable gc_step.set_car])
    show "shade_room (take_n 2 1 (init_treadmill 1 12)) [3]" by code_simp
  qed auto
  show "t_free (gc_set_car (take_n 2 1 (init_treadmill 1 12)) 2 3) \<noteq>
        t_bottom (gc_set_car (take_n 2 1 (init_treadmill 1 12)) 2 3)" by code_simp
qed simp

text \<open>C3: A collection is complete and exact. In a state reached as in C2 in which free list
  and scanner are at their ends, let the roots be exactly what the interpreter holds, all dark, let at
  least one cell of the old generation be unreachable, and let a flip that needs memory get a segment
  of at least two cells that are not in use. Then after the flip the scanner's loop, running alone,
  ends within as many steps as there are cells, and the dark cells of the old generation it has
  shaded are exactly those reachable from the roots through pairs, vectors and the stack frames of
  continuations; the others stay light, and the next flip frees them.\<close>

theorem gc_collects_garbage:
  assumes "2 \<le> n" and "gc_reachable newp n (sc, R, M)"
    and "t_free sc = t_bottom sc" and "t_scan sc = t_top sc"
    and "set (root_list r a b) = R" and "r_NIL r = newp" and "\<forall>p \<in> R. t_colour sc p = t_dark sc"
    and "K = (if needs_memory (turn sc) then {newmem ..< newmem + alloc_size (turn sc)} else {})"
    and "needs_memory (turn sc) \<longrightarrow> 2 \<le> alloc_size (turn sc)" and "K \<inter> M = {}"
    and "e \<in> M" and "t_colour sc e = t_dark sc" and "e \<notin> reach (t_obj sc) R"
  shows "\<exists>sc'. scan_loop (card M) (treadmill_flip newmem r a b sc) = Some sc' \<and>
    t_scan sc' = t_top sc' \<and>
    {p \<in> M. t_colour sc p = t_dark sc \<and> t_colour sc' p = t_dark sc'} = reach (t_obj sc) R"
  using gc_cycle [OF gc_inv_reachable [OF assms(2,1)] assms(3-13)] by blast

lemma reach_run1: "reach (t_obj run1) {1, 2} \<subseteq> {1, 2, 3}"
proof (rule reach_closed)
  have c: "children (t_obj run1) 1 = []" "children (t_obj run1) 2 = [3, 1]"
    "children (t_obj run1) 3 = [1, 1]" by code_simp+
  show "set (children (t_obj run1) p) \<subseteq> {1, 2, 3}" if "p \<in> {1, 2, 3}" for p
    using that c by auto
qed simp

lemma gc_collects_garbage_witness:
  "\<exists>sc'. scan_loop (card {1 ..< 13 :: nat}) (treadmill_flip 0 (roots_of 1 2 1) 1 1 run1) = Some sc' \<and>
    t_scan sc' = t_top sc' \<and>
    {p \<in> {1 ..< 13}. t_colour run1 p = t_dark run1 \<and> t_colour sc' p = t_dark sc'}
      = reach (t_obj run1) {1, 2}"
proof (rule gc_collects_garbage [of 12 1 run1 "{1, 2}" "{1 ..< 13}" "roots_of 1 2 1" 1 1 "{}" 0 4])
  show "gc_reachable 1 12 (run1, {1, 2}, {1 ..< 13})" by (rule run1_reachable)
  have "t_colour run1 1 = t_dark run1" "t_colour run1 2 = t_dark run1" by code_simp+
  then show "\<forall>p \<in> {1, 2}. t_colour run1 p = t_dark run1" by simp
  show "4 \<notin> reach (t_obj run1) {1, 2}" using reach_run1 by auto
  have m: "\<not> needs_memory (turn run1)" by code_simp
  then show "{} = (if needs_memory (turn run1) then {0 ..< 0 + alloc_size (turn run1)} else {})"
    "needs_memory (turn run1) \<longrightarrow> 2 \<le> alloc_size (turn run1)" by simp_all
  show "set (root_list (roots_of 1 2 1) 1 1) = {1, 2}" by (simp add: root_list_def roots_of_def insert_commute)
  show "t_free run1 = t_bottom run1" "t_scan run1 = t_top run1" "r_NIL (roots_of 1 2 1) = 1"
    "t_colour run1 4 = t_dark run1" by code_simp+
qed simp_all

text \<open>C4: In every state reached from an initial treadmill of at least two cells by steps that
  respect \<open>gc_care\<close> (as in C2: room for every cell that is shaded, dark contents for a new
  continuation, and at a flip roots that are exactly what the interpreter holds and are dark, and new
  segments of two cells or more) the cells form a single doubly linked ring that the four pointers
  divide into free, ecru, grey and black cells, in this order clockwise, and no cell of the free region
  is reachable from what the interpreter holds. Growth by one cell is excluded because the code then
  breaks the ring (\<open>grow_single_cell_broken\<close>).\<close>

theorem gc_ring_regions:
  assumes "2 \<le> n" and "gc_reachable newp n (sc, R, M)"
  shows "\<exists>W E G B. regions sc W E G B \<and> set (W @ E @ G @ B) = M \<and> distinct (W @ E @ G @ B) \<and>
    reach (t_obj sc) R \<subseteq> M - set W"
  by (rule gc_regions [OF assms])

lemma gc_ring_regions_witness:
  "\<exists>W E G B. regions run3 W E G B \<and> set (W @ E @ G @ B) = {1 ..< 13} \<and> distinct (W @ E @ G @ B) \<and>
    reach (t_obj run3) {1, 2, 3} \<subseteq> {1 ..< 13} - set W"
  by (rule gc_ring_regions [OF _ run3_reachable]) simp

text \<open>C40: The condition on the roots is needed. In a reachable state the interpreter
  holds cell 3, loaded from a pair the scanner had not yet visited and then unhooked from it, so
  that 3 was never shaded. The next flip takes its light colour for the new dark one, ignores it as
  a root, and the very next \<open>get_cell\<close> hands out the live cell.\<close>

theorem gc_root_lost:
  "gc_reachable 1 12 (run3, {1, 2, 3}, {1 ..< 13}) \<and> t_free run3 = t_bottom run3 \<and>
   t_scan run3 = t_top run3 \<and> set (root_list (roots_of 1 2 3) 1 1) = {1, 2, 3} \<and>
   snd (get_cell 0 (roots_of 1 2 3) 1 1 run3) = 3"
proof -
  have "t_free run3 = t_bottom run3" "t_scan run3 = t_top run3"
    "snd (get_cell 0 (roots_of 1 2 3) 1 1 run3) = 3" by code_simp+
  moreover have "set (root_list (roots_of 1 2 3) 1 1) = {1, 2, 3}"
    by (auto simp: root_list_def roots_of_def)
  ultimately show ?thesis using run3_reachable by simp
qed

section \<open>\<open>_cons\<close>\<close>

lemma insert_t_obj: "insert_treadmill (sc\<lparr>t_obj := ob\<rparr>) v = (insert_treadmill sc v)\<lparr>t_obj := ob\<rparr>"
proof -
  have q: "t_request (insert_treadmill sc v) = t_request sc"
    by (simp add: insert_treadmill_def step_off_def Let_def)
  have e: "s\<lparr>t_obj := ob, t_request := t_request s\<rparr> = s\<lparr>t_obj := ob\<rparr>" for s :: treadmill
    by (cases s) simp
  show ?thesis using insert_request [where q = "t_request sc" and ob = ob and sc = sc and v = v] e [of sc] e [of "insert_treadmill sc v"] q
    by simp
qed

lemma gc_cons_stores:
  assumes "t_free sc \<noteq> t_bottom sc"
  shows "gc_cons newmem r a b sc =
    (gc_set_cdr (gc_set_car (fst (take_free sc (r_NIL r))) (snd (take_free sc (r_NIL r))) a)
       (snd (take_free sc (r_NIL r))) b, snd (take_free sc (r_NIL r)))"
  using assms
  by (simp add: gc_cons_def get_cell_def gc_set_car_def gc_set_cdr_def Let_def insert_t_obj split_beta)

text \<open>C26: In a state reached by steps that respect \<open>gc_care\<close> (as in C2), when the free list is
  not empty, the interpreter holds both arguments, and the ecru region has room to shade the first
  and then the second, \<open>_cons\<close> takes a cell that was not reachable from what the interpreter holds,
  stores its two arguments in it, leaves every other object alone, and leads to a state reached by such
  steps again: its write barrier is what the collector needs. When the free list is empty the cell
  comes from a flip, which C2 and C3 are about.\<close>

theorem gc_cons_correct:
  assumes "2 \<le> n" and "gc_reachable newp n (sc, R, M)" and "{a, b} \<subseteq> R" and "r_NIL r = newp"
    and "t_free sc \<noteq> t_bottom sc" and "shade_room (fst (take_free sc newp)) [a]"
    and "shade_room (insert_treadmill (fst (take_free sc newp)) a) [b]"
  shows "gc_cons newmem r a b sc = (s, x) \<Longrightarrow>
    gc_reachable newp n (s, insert x R, M) \<and> x \<notin> reach (t_obj sc) R \<and>
    o_car (t_obj s x) = a \<and> o_cdr (t_obj s x) = b \<and> (\<forall>p. p \<noteq> x \<longrightarrow> t_obj s p = t_obj sc p)"
proof -
  assume c: "gc_cons newmem r a b sc = (s, x)"
  let ?t = "fst (take_free sc newp)"
  have x: "x = snd (take_free sc newp)" and s: "s = gc_set_cdr (gc_set_car ?t x a) x b"
    using c gc_cons_stores [OF assms(5)] assms(4) by auto
  have "gc_reachable newp n (?t, insert x R, M)"
    unfolding x by (rule gc_reachable_more [OF assms(2) gc_step.alloc [OF assms(5)]])
  then have "gc_reachable newp n (gc_set_car ?t x a, insert x R, M)"
    by (rule gc_reachable_more [OF _ gc_step.set_car]) (use assms in auto)
  moreover have "shade_room (gc_set_car ?t x a) [b]"
    using assms(7) by (simp add: gc_set_car_def Let_def)
  moreover have "\<not> o_cont (t_obj (gc_set_car ?t x a) x)"
    by (simp add: gc_set_car_def Let_def x take_free_def blank_obj_def)
  ultimately have "gc_reachable newp n (s, insert x R, M)"
    unfolding s using assms(3) by (intro gc_reachable_more [OF _ gc_step.set_cdr]) auto
  moreover have "x \<notin> reach (t_obj sc) R"
    unfolding x by (rule gc_inv_alloc(2) [OF gc_inv_reachable [OF assms(2,1)] assms(5)])
  moreover have "o_car (t_obj s x) = a" "o_cdr (t_obj s x) = b" "\<forall>p. p \<noteq> x \<longrightarrow> t_obj s p = t_obj sc p"
    unfolding s by (auto simp: gc_set_car_def gc_set_cdr_def Let_def x take_free_def)
  ultimately show ?thesis by blast
qed

lemma gc_cons_correct_witness:
  "\<exists>s x. gc_cons 0 (roots_of 1 2 3) 2 3 (take_n 2 1 (init_treadmill 1 12)) = (s, x) \<and>
    gc_reachable 1 12 (s, insert x {1, 2, 3}, {1 ..< 13}) \<and>
    o_car (t_obj s x) = 2 \<and> o_cdr (t_obj s x) = 3"
proof -
  let ?s = "take_n 2 1 (init_treadmill 1 12)"
  obtain s x where c: "gc_cons 0 (roots_of 1 2 3) 2 3 ?s = (s, x)" by (cases "gc_cons 0 (roots_of 1 2 3) 2 3 ?s")
  have "t_free ?s \<noteq> t_bottom ?s" "shade_room (fst (take_free ?s 1)) [2]"
    "shade_room (insert_treadmill (fst (take_free ?s 1)) 2) [3]" "r_NIL (roots_of 1 2 3) = 1"
    by code_simp+
  with gc_cons_correct [of 12 1 ?s "{1, 2, 3}" "{1 ..< 13}" 2 3 "roots_of 1 2 3" 0 s x] run0_reachable c
  show ?thesis by auto
qed

section \<open>Adding memory\<close>

text \<open>When a flip adds a segment of a single cell, the loop that links it reads the
  \<open>_ccw\<close> pointer of \<open>treadmill_bottom\<close> after it has replaced it, so that the new cell becomes its
  own counter-clockwise neighbour and the last free cell still leads to \<open>treadmill_bottom\<close>: the
  new cell is never handed out and the list is no longer a ring.\<close>

theorem grow_single_cell_broken:
  "t_ccw (grow sc p 1) = (t_ccw sc)(t_bottom sc := p, p := p) \<and>
   t_cw (grow sc p 1) = (t_cw sc)(p := t_bottom sc)"
  by (auto simp: grow_def grow_cell_def Let_def fun_eq_iff)

end
