(* ===== verification/Doubles.thy ===== *)
theory Doubles
  imports Ext_Prelude
begin

text \<open>
  C++'s \<open>double\<close> as the code uses it: IEEE 754 binary64 on 64-bit patterns, rounding to nearest,
  ties to even. A finite double is an integer mantissa times a power of two; every operation
  computes exactly on integers and rounds once. All NaNs are the same NaN here.
\<close>

section \<open>Patterns\<close>

definition fp_neg :: "double \<Rightarrow> bool" where
  "fp_neg w = bit w 63"

definition fp_mag :: "double \<Rightarrow> int" where
  "fp_mag w = uint w mod 2 ^ 63"

definition fp_expo :: "double \<Rightarrow> int" where
  "fp_expo w = fp_mag w div 2 ^ 52"

definition fp_inf_mag :: int where
  "fp_inf_mag = 2047 * 2 ^ 52"

definition fp_is_nan :: "double \<Rightarrow> bool" where
  "fp_is_nan w \<longleftrightarrow> fp_mag w > fp_inf_mag"

definition fp_is_inf :: "double \<Rightarrow> bool" where
  "fp_is_inf w \<longleftrightarrow> fp_mag w = fp_inf_mag"

definition fp_nan :: double where
  "fp_nan = 0x7FF8000000000000"

text \<open>The value of a finite double is \<open>fp_int w * 2 powi fp_exp w\<close>.\<close>

definition fp_mant :: "double \<Rightarrow> int" where
  "fp_mant w = (if fp_expo w = 0 then fp_mag w mod 2 ^ 52 else 2 ^ 52 + fp_mag w mod 2 ^ 52)"

definition fp_exp :: "double \<Rightarrow> int" where
  "fp_exp w = (if fp_expo w = 0 then -1074 else fp_expo w - 1075)"

definition fp_int :: "double \<Rightarrow> int" where
  "fp_int w = (if fp_neg w then - fp_mant w else fp_mant w)"

definition fp_signed :: "bool \<Rightarrow> int \<Rightarrow> double" where
  "fp_signed s m = word_of_int (if s then 2 ^ 63 + m else m)"

section \<open>Rounding\<close>

function ilog2 :: "int \<Rightarrow> nat" where
  "ilog2 n = (if n < 2 then 0 else Suc (ilog2 (n div 2)))"
  by auto

termination
  by (relation "measure nat") auto

declare ilog2.simps [simp del]

definition half_even :: "int \<Rightarrow> int \<Rightarrow> int" where
  "half_even n d =
     (let q = n div d; r = n mod d
      in if 2 * r > d \<or> (2 * r = d \<and> odd q) then q + 1 else q)"

text \<open>
  The magnitude of \<open>n / d * 2 powi k\<close>, for positive \<open>n\<close> and \<open>d\<close>: \<open>e\<close> is the binary exponent of
  the quotient, at least -1022; the quotient is scaled so that its last place is \<open>2 powi (e - 52)\<close>
  and rounded to an integer; exponent and mantissa are added, so that a mantissa rounded up to a
  power of two carries into the exponent, and whatever is past the largest finite double is
  infinity.
\<close>

definition scaled :: "int \<Rightarrow> int \<Rightarrow> int \<Rightarrow> int \<times> int" where
  "scaled n d s = (if 0 \<le> s then (n * 2 ^ nat s, d) else (n, d * 2 ^ nat (- s)))"

definition quot_exp :: "int \<Rightarrow> int \<Rightarrow> int" where
  "quot_exp n d =
     (let j = int (ilog2 n) - int (ilog2 d); (a, b) = scaled n d (- j)
      in if a < b then j - 1 else j)"

definition fp_round_mag :: "int \<Rightarrow> int \<Rightarrow> int \<Rightarrow> int" where
  "fp_round_mag n d k =
     (let e = max (-1022) (quot_exp n d + k);
          (a, b) = scaled n d (52 - e + k)
      in if e > 1023 then fp_inf_mag
         else min fp_inf_mag ((e + 1022) * 2 ^ 52 + half_even a b))"

definition fp_round :: "bool \<Rightarrow> int \<Rightarrow> int \<Rightarrow> int \<Rightarrow> double" where
  "fp_round s n d k = fp_signed s (if n = 0 then 0 else fp_round_mag n d k)"

section \<open>Operations\<close>

text \<open>
  The conversions. \<open>int64_t\<close> of a double outside its range is undefined in C++; the value here is
  the one the x86-64 instruction gives.
\<close>

definition fp_of_int :: "int \<Rightarrow> double" where
  "fp_of_int i = fp_round (i < 0) \<bar>i\<bar> 1 0"

definition fp_trunc :: "double \<Rightarrow> int" where
  "fp_trunc w =
     (let m = (if 0 \<le> fp_exp w then fp_mant w * 2 ^ nat (fp_exp w) else fp_mant w div 2 ^ nat (- fp_exp w))
      in if fp_neg w then - m else m)"

definition fp_to_int :: "double \<Rightarrow> int" where
  "fp_to_int w =
     (if fp_mag w \<ge> fp_inf_mag \<or> \<not> in_i64 (fp_trunc w) then - (2 ^ 63) else fp_trunc w)"

definition fp_opp :: "double \<Rightarrow> double" where
  "fp_opp w = fp_signed (\<not> fp_neg w) (fp_mag w)"

text \<open>The mantissa of a finite double over the power of two \<open>k\<close>, which is at most its own.\<close>

definition fp_at :: "double \<Rightarrow> int \<Rightarrow> int" where
  "fp_at w k = fp_int w * 2 ^ nat (fp_exp w - k)"

definition fp_add :: "double \<Rightarrow> double \<Rightarrow> double" where
  "fp_add a b =
     (if fp_is_nan a \<or> fp_is_nan b then fp_nan
      else if fp_is_inf a then (if fp_is_inf b \<and> fp_neg a \<noteq> fp_neg b then fp_nan else a)
      else if fp_is_inf b then b
      else
        let k = min (fp_exp a) (fp_exp b); m = fp_at a k + fp_at b k
        in fp_round (if m = 0 then fp_neg a \<and> fp_neg b else m < 0) \<bar>m\<bar> 1 k)"

definition fp_sub :: "double \<Rightarrow> double \<Rightarrow> double" where
  "fp_sub a b = (if fp_is_nan b then fp_nan else fp_add a (fp_opp b))"

definition fp_mul :: "double \<Rightarrow> double \<Rightarrow> double" where
  "fp_mul a b =
     (let s = (fp_neg a \<noteq> fp_neg b)
      in if fp_is_nan a \<or> fp_is_nan b then fp_nan
         else if fp_is_inf a \<or> fp_is_inf b then
           (if fp_mag a = 0 \<or> fp_mag b = 0 then fp_nan else fp_signed s fp_inf_mag)
         else fp_round s (fp_mant a * fp_mant b) 1 (fp_exp a + fp_exp b))"

definition fp_div :: "double \<Rightarrow> double \<Rightarrow> double" where
  "fp_div a b =
     (let s = (fp_neg a \<noteq> fp_neg b)
      in if fp_is_nan a \<or> fp_is_nan b then fp_nan
         else if fp_is_inf a then (if fp_is_inf b then fp_nan else fp_signed s fp_inf_mag)
         else if fp_is_inf b then fp_signed s 0
         else if fp_mag b = 0 then (if fp_mag a = 0 then fp_nan else fp_signed s fp_inf_mag)
         else fp_round s (fp_mant a) (fp_mant b) (fp_exp a - fp_exp b))"

text \<open>\<open>fmod\<close> is exact: the remainder of the mantissas over a common power of two.\<close>

definition fp_fmod :: "double \<Rightarrow> double \<Rightarrow> double" where
  "fp_fmod a b =
     (if fp_is_nan a \<or> fp_is_nan b \<or> fp_is_inf a \<or> fp_mag b = 0 then fp_nan
      else if fp_is_inf b then a
      else
        let k = min (fp_exp a) (fp_exp b)
        in fp_round (fp_neg a) (\<bar>fp_at a k\<bar> mod \<bar>fp_at b k\<bar>) 1 k)"

definition fp_lt :: "double \<Rightarrow> double \<Rightarrow> bool" where
  "fp_lt a b \<longleftrightarrow>
     (if fp_is_nan a \<or> fp_is_nan b then False
      else if fp_is_inf a then fp_neg a \<and> \<not> (fp_is_inf b \<and> fp_neg b)
      else if fp_is_inf b then \<not> fp_neg b
      else let k = min (fp_exp a) (fp_exp b) in fp_at a k < fp_at b k)"

definition fp_eq :: "double \<Rightarrow> double \<Rightarrow> bool" where
  "fp_eq a b \<longleftrightarrow>
     (if fp_is_nan a \<or> fp_is_nan b then False
      else if fp_is_inf a \<or> fp_is_inf b then a = b
      else let k = min (fp_exp a) (fp_exp b) in fp_at a k = fp_at b k)"

text \<open>\<open>floor\<close> and \<open>ceil\<close>; a result of zero keeps the sign.\<close>

definition fp_integral :: "double \<Rightarrow> bool" where
  "fp_integral w \<longleftrightarrow> fp_mag w \<ge> fp_inf_mag \<or> 0 \<le> fp_exp w \<or> fp_mant w mod 2 ^ nat (- fp_exp w) = 0"

definition fp_floor :: "double \<Rightarrow> double" where
  "fp_floor w =
     (if fp_is_nan w then fp_nan else if fp_integral w then w
      else fp_round (fp_neg w) (\<bar>fp_trunc w\<bar> + (if fp_neg w then 1 else 0)) 1 0)"

definition fp_ceil :: "double \<Rightarrow> double" where
  "fp_ceil w =
     (if fp_is_nan w then fp_nan else if fp_integral w then w
      else fp_round (fp_neg w) (\<bar>fp_trunc w\<bar> + (if fp_neg w then 0 else 1)) 1 0)"

text \<open>\<open>float\<close> is binary32; the conversion rounds to 24 bits.\<close>

definition fp_to_float :: "double \<Rightarrow> 32 word" where
  "fp_to_float w =
     (let s = (if fp_neg w then 2 ^ 31 else 0); n = fp_mant w; k = fp_exp w;
          e = max (-126) (int (ilog2 n) + k); (a, b) = scaled n 1 (23 - e + k)
      in word_of_int
        (if fp_is_nan w then 0x7FC00000
         else if fp_is_inf w \<or> e > 127 then s + 255 * 2 ^ 23
         else if n = 0 then s
         else s + min (255 * 2 ^ 23) ((e + 126) * 2 ^ 23 + half_even a b)))"

section \<open>Integers as doubles\<close>

lemma ilog2_bounds:
  assumes "0 < n"
  shows "2 ^ ilog2 n \<le> n" and "n < 2 * 2 ^ ilog2 n"
proof -
  have "0 < n \<longrightarrow> 2 ^ ilog2 n \<le> n \<and> n < 2 * 2 ^ ilog2 n"
  proof (induction n rule: ilog2.induct)
    case (1 n)
    show ?case
    proof (cases "n < 2")
      case True
      then show ?thesis by (auto simp: ilog2.simps [of n])
    next
      case False
      then have "0 < n div 2" by presburger
      with 1 False have "2 ^ ilog2 (n div 2) \<le> n div 2" "n div 2 < 2 * 2 ^ ilog2 (n div 2)" by auto
      then show ?thesis using False by (subst (1 2) ilog2.simps) (simp; presburger)
    qed
  qed
  with assms show "2 ^ ilog2 n \<le> n" "n < 2 * 2 ^ ilog2 n" by auto
qed

lemma ilog2_unique:
  assumes "2 ^ e \<le> n" and "n < 2 * 2 ^ e"
  shows "ilog2 n = e"
proof -
  have n: "0 < n" using assms(1) by (rule less_le_trans [rotated]) simp
  have "2 ^ e < (2 :: int) ^ Suc (ilog2 n)" "2 ^ ilog2 n < (2 :: int) ^ Suc e"
    using ilog2_bounds [OF n] assms by simp_all
  then have "e < Suc (ilog2 n)" "ilog2 n < Suc e"
    by (simp_all only: power_strict_increasing_iff [of "2 :: int"] one_less_numeral_iff semiring_norm)
  then show ?thesis by simp
qed

lemma ilog2_one [simp]: "ilog2 1 = 0"
  by (simp add: ilog2.simps)

lemma ilog2_scale: "0 < n \<Longrightarrow> ilog2 (n * 2 ^ j) = ilog2 n + j"
  using ilog2_bounds [of n]
  by (intro ilog2_unique) (simp_all add: power_add mult.commute)

lemma quot_exp_one: "0 < n \<Longrightarrow> quot_exp n 1 = int (ilog2 n)"
  using ilog2_bounds(1) [of n] by (auto simp: quot_exp_def Let_def scaled_def)

lemma half_even_exact: "0 < d \<Longrightarrow> half_even (q * d) d = q"
  by (simp add: half_even_def Let_def)

lemma half_even_scale: "0 < c \<Longrightarrow> half_even (n * c) (d * c) = half_even n d"
  by (simp add: half_even_def Let_def mult.assoc [symmetric])

lemma fp_round_mag_scale:
  assumes "0 < n"
  shows "fp_round_mag (n * 2 ^ j) 1 k = fp_round_mag n 1 (k + int j)"
proof -
  define e where "e = max (-1022) (int (ilog2 n) + (k + int j))"
  have q: "quot_exp (n * 2 ^ j) 1 + k = int (ilog2 n) + (k + int j)"
    using assms by (simp add: quot_exp_one ilog2_scale)
  have s: "case scaled (n * 2 ^ j) 1 (52 - e + k) of (a, b) \<Rightarrow> half_even a b =
           half_even (fst (scaled n 1 (52 - e + (k + int j)))) (snd (scaled n 1 (52 - e + (k + int j))))"
  proof (cases "0 \<le> 52 - e + k")
    case True
    then have "nat (52 - e + (k + int j)) = nat (52 - e + k) + j" by simp
    with True show ?thesis by (simp add: scaled_def power_add ac_simps)
  next
    case False
    show ?thesis
    proof (cases "0 \<le> 52 - e + (k + int j)")
      case True
      then have "j = nat (52 - e + (k + int j)) + nat (- (52 - e + k))" using False by simp
      then have "(2 :: int) ^ j = 2 ^ nat (52 - e + (k + int j)) * 2 ^ nat (- (52 - e + k))"
        by (metis power_add)
      with True False show ?thesis
        using half_even_scale [of "2 ^ nat (- (52 - e + k))" "n * 2 ^ nat (52 - e + (k + int j))" 1]
        by (simp add: scaled_def mult.assoc)
    next
      case False2: False
      then have "nat (- (52 - e + k)) = nat (- (52 - e + (k + int j))) + j" by simp
      with False False2 show ?thesis
        using half_even_scale [of "2 ^ j" n "2 ^ nat (- (52 - e + (k + int j)))"]
        by (simp add: scaled_def power_add)
    qed
  qed
  show ?thesis
    unfolding fp_round_mag_def Let_def q quot_exp_one [OF assms]
    using s by (simp add: e_def split: prod.splits)
qed

lemma fp_round_scale: "0 \<le> n \<Longrightarrow> fp_round s (n * 2 ^ j) 1 k = fp_round s n 1 (k + int j)"
  by (simp add: fp_round_def fp_round_mag_scale)

text \<open>A pattern put together from sign, exponent and mantissa is read back.\<close>

lemma fp_signed_mag:
  assumes "0 \<le> m" and "m < 2 ^ 63"
  shows "fp_mag (fp_signed s m) = m" and "fp_neg (fp_signed s m) = s"
proof -
  have u: "uint (fp_signed s m) = (if s then 2 ^ 63 + m else m)"
    using assms by (auto simp: fp_signed_def uint_word_of_int_eq take_bit_eq_mod)
  show "fp_mag (fp_signed s m) = m" using assms by (simp add: fp_mag_def u)
  have "(2 ^ 63 + m) div 2 ^ 63 = 1" "m div 2 ^ 63 = 0" using assms by (simp_all add: div_add_self1 div_pos_pos_trivial)
  then have "bit (uint (fp_signed s m)) 63 = s" by (simp only: u bit_iff_odd split: if_split) auto
  then show "fp_neg (fp_signed s m) = s" by (simp add: fp_neg_def bit_uint_iff)
qed

lemma fp_pack_parts:
  fixes e m :: int
  assumes e: "-1022 \<le> e" "e \<le> 1023" and m: "2 ^ 52 \<le> m" "m < 2 ^ 53"
    and w: "w = fp_signed s ((e + 1022) * 2 ^ 52 + m)"
  shows "fp_neg w = s" "fp_mant w = m" "fp_exp w = e - 52" "fp_mag w < fp_inf_mag"
proof -
  define x where "x = (e + 1022) * 2 ^ 52 + m"
  have x: "x = (m - 2 ^ 52) + (e + 1023) * 2 ^ 52" by (simp add: x_def algebra_simps)
  have r: "0 \<le> m - 2 ^ 52" "m - 2 ^ 52 < 2 ^ 52" using m by simp_all
  have x0: "0 \<le> x" using r e by (simp add: x)
  have x1: "x < fp_inf_mag" using r e by (simp add: x fp_inf_mag_def)
  then have x2: "x < 2 ^ 63" by (simp add: fp_inf_mag_def)
  note p = fp_signed_mag [OF x0 x2, of s]
  show "fp_neg w = s" "fp_mag w < fp_inf_mag" using p x1 by (simp_all add: w x_def)
  have d: "x div 2 ^ 52 = e + 1023" "x mod 2 ^ 52 = m - 2 ^ 52"
    unfolding x using r by (simp_all only: div_mult_self1 mod_mult_self1 div_pos_pos_trivial mod_pos_pos_trivial)
  have "fp_expo w = e + 1023" using p d by (simp add: fp_expo_def w x_def)
  moreover have "fp_mag w mod 2 ^ 52 = m - 2 ^ 52" using p d by (simp add: w x_def)
  ultimately show "fp_mant w = m" "fp_exp w = e - 52" using e by (auto simp: fp_mant_def fp_exp_def)
qed

lemma fp_round_exact:
  assumes n: "0 < n" "n < 2 ^ 53" and e: "-1022 \<le> int (ilog2 n) + k" "int (ilog2 n) + k \<le> 1023"
    and w: "w = fp_round s n 1 k"
  shows "fp_neg w = s" "fp_mant w = n * 2 ^ (52 - ilog2 n)" "fp_exp w = int (ilog2 n) + k - 52"
    and "fp_mag w < fp_inf_mag"
proof -
  define l where "l = ilog2 n"
  have "2 ^ l < (2 :: int) ^ 53" using ilog2_bounds(1) [OF n(1)] n(2) unfolding l_def by (rule le_less_trans)
  then have "l < 53" by (simp only: power_strict_increasing_iff one_less_numeral_iff semiring_norm)
  then have l: "l \<le> 52" by simp
  define m where "m = n * 2 ^ (52 - l)"
  have pw: "(2 :: int) ^ l * 2 ^ (52 - l) = 2 ^ 52" using l by (simp flip: power_add)
  have m: "2 ^ 52 \<le> m" "m < 2 ^ 53"
    using ilog2_bounds [OF n(1)] mult_right_mono [of "2 ^ l" n "2 ^ (52 - l)"]
      mult_strict_right_mono [of n "2 * 2 ^ l" "2 ^ (52 - l)"]
    by (simp_all add: m_def l_def [symmetric] mult.assoc pw)
  have pm: "fp_round_mag n 1 k = min fp_inf_mag ((int l + k + 1022) * 2 ^ 52 + m)"
    using n e l by (simp add: fp_round_mag_def Let_def quot_exp_one l_def [symmetric] scaled_def max_def
        half_even_exact [of 1, simplified] m_def nat_diff_distrib)
  have "(int l + k + 1022) * 2 ^ 52 + m < fp_inf_mag"
    using m e by (simp add: l_def [symmetric] fp_inf_mag_def)
  then have w': "w = fp_signed s ((int l + k + 1022) * 2 ^ 52 + m)"
    using n by (simp add: w fp_round_def pm)
  note parts = fp_pack_parts [OF e [folded l_def] m w']
  show "fp_neg w = s" "fp_mant w = n * 2 ^ (52 - ilog2 n)" "fp_exp w = int (ilog2 n) + k - 52"
      "fp_mag w < fp_inf_mag"
    using parts by (simp_all add: m_def l_def)
qed

text \<open>\<open>denotes w i\<close>: the finite double \<open>w\<close> is the integer \<open>i\<close>, of a magnitude the mantissa holds.\<close>

definition denotes :: "double \<Rightarrow> int \<Rightarrow> bool" where
  "denotes w i \<longleftrightarrow> fp_mag w < fp_inf_mag \<and> (fp_neg w \<longleftrightarrow> i < 0) \<and> fp_exp w \<le> 0 \<and>
     fp_mant w = \<bar>i\<bar> * 2 ^ nat (- fp_exp w)"

lemma fp_zero_parts: "fp_mag 0 = 0" "\<not> fp_neg 0" "fp_exp 0 = -1074" "fp_mant 0 = 0"
  by (simp_all add: fp_mag_def fp_neg_def fp_exp_def fp_mant_def fp_expo_def)

lemma denotes_of_int:
  assumes "\<bar>i\<bar> < 2 ^ 53"
  shows "denotes (fp_of_int i) i"
proof (cases "i = 0")
  case True
  then have "fp_of_int i = 0" by (simp add: fp_of_int_def fp_round_def fp_signed_def)
  with True show ?thesis by (simp add: denotes_def fp_zero_parts fp_inf_mag_def)
next
  case False
  define l where "l = ilog2 \<bar>i\<bar>"
  have "2 ^ l < (2 :: int) ^ 53"
    using le_less_trans [OF ilog2_bounds(1) [of "\<bar>i\<bar>"] assms] False by (simp only: l_def zero_less_abs_iff not_False_eq_True)
  then have "l < 53" by (simp only: power_strict_increasing_iff one_less_numeral_iff semiring_norm)
  then have l: "l \<le> 52" by simp
  note parts = fp_round_exact [of "\<bar>i\<bar>" 0, OF _ assms _ _ fp_of_int_def [of i]]
  have "nat (52 - int l) = 52 - l" using l by simp
  with parts False l show ?thesis by (simp add: denotes_def l_def)
qed

lemma denotes_finite: "denotes w i \<Longrightarrow> \<not> fp_is_nan w" "denotes w i \<Longrightarrow> \<not> fp_is_inf w"
  by (auto simp: denotes_def fp_is_nan_def fp_is_inf_def)

lemma denotes_int: "denotes w i \<Longrightarrow> fp_int w = i * 2 ^ nat (- fp_exp w)"
  by (auto simp: denotes_def fp_int_def)

lemma denotes_at:
  assumes "denotes w i" and "k \<le> fp_exp w"
  shows "fp_at w k = i * 2 ^ nat (- k)"
proof -
  have "fp_exp w \<le> 0" using assms by (simp add: denotes_def)
  then have "nat (- k) = nat (- fp_exp w) + nat (fp_exp w - k)" using assms(2) by simp
  then show ?thesis by (simp add: fp_at_def denotes_int [OF assms(1)] power_add)
qed

lemma fp_add_denotes:
  assumes a: "denotes a i" and b: "denotes b j"
  shows "fp_add a b = fp_of_int (i + j)"
proof -
  define k where "k = min (fp_exp a) (fp_exp b)"
  have k: "k \<le> fp_exp a" "k \<le> fp_exp b" by (simp_all add: k_def)
  have k0: "int (nat (- k)) = - k" using a k by (auto simp: denotes_def)
  have m: "fp_at a k + fp_at b k = (i + j) * 2 ^ nat (- k)"
    by (simp add: denotes_at [OF a k(1)] denotes_at [OF b k(2)] distrib_right)
  have s: "(if (i + j) * 2 ^ nat (- k) = 0 then fp_neg a \<and> fp_neg b else (i + j) * 2 ^ nat (- k) < 0) = (i + j < 0)"
    using a b by (auto simp: denotes_def mult_less_0_iff)
  have "fp_add a b = fp_round (i + j < 0) \<bar>(i + j) * 2 ^ nat (- k)\<bar> 1 k"
    using denotes_finite [OF a] denotes_finite [OF b]
    by (simp only: fp_add_def Let_def k_def [symmetric] m s if_False simp_thms)
  also have "\<dots> = fp_round (i + j < 0) (\<bar>i + j\<bar> * 2 ^ nat (- k)) 1 k" by (simp add: abs_mult)
  also have "\<dots> = fp_of_int (i + j)" using k0 by (simp add: fp_round_scale fp_of_int_def)
  finally show ?thesis .
qed

lemma fp_mul_denotes:
  assumes a: "denotes a i" and b: "denotes b j" and "i * j \<noteq> 0"
  shows "fp_mul a b = fp_of_int (i * j)"
proof -
  have e: "fp_exp a \<le> 0" "fp_exp b \<le> 0" using a b by (simp_all add: denotes_def)
  have s: "(fp_neg a \<noteq> fp_neg b) = (i * j < 0)"
    using a b assms(3) by (auto simp: denotes_def mult_less_0_iff)
  have m: "fp_mant a * fp_mant b = \<bar>i * j\<bar> * 2 ^ (nat (- fp_exp a) + nat (- fp_exp b))"
    using a b by (simp add: denotes_def abs_mult power_add)
  have "fp_mul a b = fp_round (fp_neg a \<noteq> fp_neg b) (fp_mant a * fp_mant b) 1 (fp_exp a + fp_exp b)"
    using denotes_finite [OF a] denotes_finite [OF b] by (simp add: fp_mul_def)
  also have "\<dots> = fp_round (i * j < 0) (\<bar>i * j\<bar> * 2 ^ (nat (- fp_exp a) + nat (- fp_exp b))) 1 (fp_exp a + fp_exp b)"
    by (simp only: s m)
  also have "\<dots> = fp_of_int (i * j)" using e by (simp add: fp_round_scale fp_of_int_def)
  finally show ?thesis .
qed

lemma fp_lt_denotes:
  assumes a: "denotes a i" and b: "denotes b j"
  shows "fp_lt a b \<longleftrightarrow> i < j"
proof -
  define k where "k = min (fp_exp a) (fp_exp b)"
  have k: "k \<le> fp_exp a" "k \<le> fp_exp b" by (simp_all add: k_def)
  show ?thesis
    using denotes_finite [OF a] denotes_finite [OF b]
    by (simp add: fp_lt_def Let_def k_def [symmetric] denotes_at [OF a k(1)] denotes_at [OF b k(2)])
qed

lemma fp_eq_denotes:
  assumes a: "denotes a i" and b: "denotes b j"
  shows "fp_eq a b \<longleftrightarrow> i = j"
proof -
  define k where "k = min (fp_exp a) (fp_exp b)"
  have k: "k \<le> fp_exp a" "k \<le> fp_exp b" by (simp_all add: k_def)
  show ?thesis
    using denotes_finite [OF a] denotes_finite [OF b]
    by (simp add: fp_eq_def Let_def k_def [symmetric] denotes_at [OF a k(1)] denotes_at [OF b k(2)])
qed

lemma fp_to_int_denotes:
  assumes a: "denotes a i" and "in_i64 i"
  shows "fp_to_int a = i"
proof -
  have "fp_trunc a = i"
    using a by (cases "fp_exp a = 0") (auto simp: denotes_def fp_trunc_def Let_def)
  then show ?thesis using a assms(2) by (simp add: fp_to_int_def denotes_def)
qed

end
