(* ===== verification/Numbers.thy ===== *)
theory Numbers
  imports Doubles
begin

text \<open>
  The interpreter's numbers (src/src/Scheme.cpp): the struct \<open>num\<close> with its three types, the
  generic arithmetic and comparison, the normalisation of rationals, and the arithmetic operators
  of \<open>opexe_2\<close> and \<open>opexe_3\<close> on their argument lists. \<open>int64_t\<close> arithmetic wraps around here, as
  compiled code does; a division C++ leaves undefined (by zero, or of the least integer by -1,
  where x86-64 raises a trap) is the error \<open>Undefined\<close>.
\<close>

unbundle bit_operations_syntax

section \<open>Representation\<close>

datatype num = Integer int | Real double | Rational int int

datatype fault = Undefined | Scheme_Error string

primrec num_type :: "num \<Rightarrow> nat" where
  "num_type (Integer _) = 0"
| "num_type (Real _) = 1"
| "num_type (Rational _ _) = 3"

definition MY_ARR :: "nat list" where
  "MY_ARR = [0, 1, 1, 3, 1, 0, 3]"

definition common_type :: "num \<Rightarrow> num \<Rightarrow> nat" where
  "common_type a b = MY_ARR ! (num_type a + num_type b)"

definition idiv :: "int \<Rightarrow> int \<Rightarrow> fault + int" where
  "idiv a b = (if b = 0 \<or> (a = - (2 ^ 63) \<and> b = -1) then Inl Undefined else Inr (cdiv a b))"

definition irem :: "int \<Rightarrow> int \<Rightarrow> fault + int" where
  "irem a b = (if b = 0 \<or> (a = - (2 ^ 63) \<and> b = -1) then Inl Undefined else Inr (crem a b))"

text \<open>\<open>std::llabs\<close>.\<close>

definition llabs :: "int \<Rightarrow> int" where
  "llabs a = wrap64 \<bar>a\<bar>"

primrec num_ivalue :: "num \<Rightarrow> fault + int" where
  "num_ivalue (Integer i) = Inr i"
| "num_ivalue (Real r) = Inr (fp_to_int r)"
| "num_ivalue (Rational n d) = idiv n d"

primrec num_rvalue :: "num \<Rightarrow> double" where
  "num_rvalue (Integer i) = fp_of_int i"
| "num_rvalue (Real r) = r"
| "num_rvalue (Rational n d) = fp_div (fp_of_int n) (fp_of_int d)"

text \<open>\<open>ivalue\<close> and \<open>rvalue\<close> of a cell read the same fields.\<close>

definition int_of :: "num \<Rightarrow> fault + int" where
  "int_of = num_ivalue"

definition real_of :: "num \<Rightarrow> double" where
  "real_of = num_rvalue"

section \<open>Arithmetic\<close>

fun num_add :: "num \<Rightarrow> num \<Rightarrow> num" where
  "num_add (Integer i) (Integer j) = Integer (wrap64 (i + j))"
| "num_add (Integer i) (Rational n d) = Rational (wrap64 (i * d + n)) d"
| "num_add (Rational n d) (Integer j) = Rational (wrap64 (j * d + n)) d"
| "num_add (Rational n d) (Rational n' d') = Rational (wrap64 (n * d' + n' * d)) (wrap64 (d * d'))"
| "num_add a b = Real (fp_add (num_rvalue a) (num_rvalue b))"

fun num_mul :: "num \<Rightarrow> num \<Rightarrow> num" where
  "num_mul (Integer i) (Integer j) = Integer (wrap64 (i * j))"
| "num_mul (Integer i) (Rational n d) = Rational (wrap64 (i * n)) d"
| "num_mul (Rational n d) (Integer j) = Rational (wrap64 (j * n)) d"
| "num_mul (Rational n d) (Rational n' d') = Rational (wrap64 (n * n')) (wrap64 (d * d'))"
| "num_mul a b = Real (fp_mul (num_rvalue a) (num_rvalue b))"

fun num_sub :: "num \<Rightarrow> num \<Rightarrow> num" where
  "num_sub (Integer i) (Integer j) = Integer (wrap64 (i - j))"
| "num_sub (Integer i) (Rational n d) = Rational (wrap64 (i * d - n)) d"
| "num_sub (Rational n d) (Integer j) = Rational (wrap64 (n - j * d)) d"
| "num_sub (Rational n d) (Rational n' d') = Rational (wrap64 (n * d' - n' * d)) (wrap64 (d * d'))"
| "num_sub a b = Real (fp_sub (num_rvalue a) (num_rvalue b))"

fun num_div :: "num \<Rightarrow> num \<Rightarrow> fault + num" where
  "num_div (Integer i) (Integer j) =
     ebind (irem i j) (\<lambda>r. if r = 0 then ebind (idiv i j) (\<lambda>q. Inr (Integer q)) else Inr (Rational i j))"
| "num_div (Integer i) (Rational n d) = Inr (Rational (wrap64 (i * d)) n)"
| "num_div (Rational n d) (Integer j) = Inr (Rational n (wrap64 (j * d)))"
| "num_div (Rational n d) (Rational n' d') = Inr (Rational (wrap64 (n * d')) (wrap64 (d * n')))"
| "num_div a b = Inr (Real (fp_div (num_rvalue a) (num_rvalue b)))"

fun num_intdiv :: "num \<Rightarrow> num \<Rightarrow> fault + num" where
  "num_intdiv (Integer i) (Integer j) = ebind (idiv i j) (\<lambda>q. Inr (Integer q))"
| "num_intdiv a b = Inr (Integer (fp_to_int (fp_div (num_rvalue a) (num_rvalue b))))"

definition num_rem :: "num \<Rightarrow> num \<Rightarrow> fault + num" where
  "num_rem a b =
     ebind (num_ivalue a) (\<lambda>e1. ebind (num_ivalue b) (\<lambda>e2. ebind (irem e1 e2) (\<lambda>res.
       Inr (Integer
         (if res > 0 then (if e1 < 0 then wrap64 (res - llabs e2) else res)
          else if res < 0 then (if e1 > 0 then wrap64 (res + llabs e2) else res)
          else res)))))"

text \<open>For two integers, two reals (or mixed), and the rest, where \<open>num_div\<close> gives a rational.\<close>

definition num_mod :: "num \<Rightarrow> num \<Rightarrow> fault + num" where
  "num_mod a b =
     (if common_type a b = 0 then
        ebind (num_ivalue a) (\<lambda>e1. ebind (num_ivalue b) (\<lambda>e2. ebind (irem e1 e2) (\<lambda>res.
          Inr (Integer
            (if wrap64 (res * e2) < 0 then
               (if res > 0 then wrap64 (res - llabs e2) else wrap64 (res + llabs e2))
             else res)))))
      else if common_type a b = 1 then Inr (Real (fp_fmod (num_rvalue a) (num_rvalue b)))
      else ebind (num_div a b) (\<lambda>q.
             case q of Rational n d \<Rightarrow> ebind (irem n d) (\<lambda>r. Inr (num_mul b (Rational r d)))
             | _ \<Rightarrow> Inl Undefined))"

definition num_bitnot :: "num \<Rightarrow> fault + num" where
  "num_bitnot a = ebind (num_ivalue a) (\<lambda>i. Inr (Integer (NOT i)))"

definition bbop :: "(int \<Rightarrow> int \<Rightarrow> int) \<Rightarrow> num \<Rightarrow> num \<Rightarrow> fault + num" where
  "bbop f a b = ebind (num_ivalue a) (\<lambda>i. ebind (num_ivalue b) (\<lambda>j. Inr (Integer (f i j))))"

text \<open>A shift count is taken modulo 64, as the x86-64 instructions do.\<close>

definition num_bitand :: "num \<Rightarrow> num \<Rightarrow> fault + num" where
  "num_bitand = bbop (\<lambda>i j. i AND j)"

definition num_bitor :: "num \<Rightarrow> num \<Rightarrow> fault + num" where
  "num_bitor = bbop (\<lambda>i j. i OR j)"

definition num_biteor :: "num \<Rightarrow> num \<Rightarrow> fault + num" where
  "num_biteor = bbop (\<lambda>i j. i XOR j)"

definition num_bitlsl :: "num \<Rightarrow> num \<Rightarrow> fault + num" where
  "num_bitlsl = bbop (\<lambda>i j. wrap64 (i * 2 ^ nat (j mod 64)))"

definition num_bitlsr :: "num \<Rightarrow> num \<Rightarrow> fault + num" where
  "num_bitlsr = bbop (\<lambda>i j. i div 2 ^ nat (j mod 64))"

section \<open>Comparison\<close>

fun num_eq :: "num \<Rightarrow> num \<Rightarrow> bool" where
  "num_eq (Integer i) (Integer j) = (i = j)"
| "num_eq (Rational n d) (Integer j) = (wrap64 (d * j) = n)"
| "num_eq (Integer i) (Rational n d) = (wrap64 (d * i) = n)"
| "num_eq (Rational n d) (Rational n' d') = (n = n' \<and> d = d')"
| "num_eq a b = fp_eq (num_rvalue a) (num_rvalue b)"

fun num_gt :: "num \<Rightarrow> num \<Rightarrow> bool" where
  "num_gt (Integer i) (Integer j) = (i > j)"
| "num_gt a b = fp_lt (num_rvalue b) (num_rvalue a)"

fun num_lt :: "num \<Rightarrow> num \<Rightarrow> bool" where
  "num_lt (Integer i) (Integer j) = (i < j)"
| "num_lt a b = fp_lt (num_rvalue a) (num_rvalue b)"

definition num_le :: "num \<Rightarrow> num \<Rightarrow> bool" where
  "num_le a b = (\<not> num_gt a b)"

definition num_ge :: "num \<Rightarrow> num \<Rightarrow> bool" where
  "num_ge a b = (\<not> num_lt a b)"

definition round_per_R5RS :: "double \<Rightarrow> double" where
  "round_per_R5RS x =
     (let fl = fp_floor x; ce = fp_ceil x; dfl = fp_sub x fl; dce = fp_sub ce x
      in if fp_lt dce dfl then ce
         else if fp_lt dfl dce then fl
         else if fp_eq (fp_fmod fl (fp_of_int 2)) 0 then fl else ce)"

text \<open>\<open>DBL_MIN\<close> is the least normal double.\<close>

definition is_zero_double :: "double \<Rightarrow> bool" where
  "is_zero_double x \<longleftrightarrow> fp_lt x 0x0010000000000000 \<and> fp_lt 0x8010000000000000 x"

fun binary_decode_from :: "byte list \<Rightarrow> int \<Rightarrow> int" where
  "binary_decode_from [] x = x"
| "binary_decode_from (c # s) x =
     (if c = 49 \<or> c = 48 then binary_decode_from s (wrap64 (wrap64 (x * 2) + (uint c - 48))) else x)"

definition binary_decode :: "byte list \<Rightarrow> int" where
  "binary_decode s = binary_decode_from s 0"

section \<open>Making number cells\<close>

function gcd_c :: "int \<Rightarrow> int \<Rightarrow> fault + int" where
  "gcd_c a b =
     (if b = 0 then Inr a
      else if a = - (2 ^ 63) \<and> b = -1 then Inl Undefined
      else gcd_c b (crem a b))"
  by auto

termination
  by (relation "measure (\<lambda>(a, b). nat \<bar>b\<bar>)") (auto simp: crem_bound)

declare gcd_c.simps [simp del]

definition mk_rational :: "int \<Rightarrow> int \<Rightarrow> fault + num" where
  "mk_rational n d =
     (if d = 0 then Inl (Scheme_Error ''Cannot make rational with 0 denominator'')
      else if n = 0 then Inr (Integer 0)
      else ebind (gcd_c n d) (\<lambda>g. ebind (idiv n g) (\<lambda>n'. ebind (idiv d g) (\<lambda>d'. Inr (Rational n' d')))))"

primrec mk_number :: "num \<Rightarrow> fault + num" where
  "mk_number (Integer i) = Inr (Integer i)"
| "mk_number (Real r) = Inr (Real r)"
| "mk_number (Rational n d) = mk_rational n d"

section \<open>The operators\<close>

text \<open>
  The arguments are the numbers of \<open>sc->args\<close>; \<open>Eval_Cycle\<close> has checked that they are numbers
  (\<open>TST_NUMBER\<close>) or integers (\<open>TST_INTEGER\<close>: the bitwise operators, quotient, remainder) and how
  many there are.
\<close>

definition num_zero :: num where "num_zero = Integer 0"
definition num_one :: num where "num_one = Integer 1"

definition op_add :: "num list \<Rightarrow> fault + num" where
  "op_add args = mk_number (foldl num_add num_zero args)"

definition op_mul :: "num list \<Rightarrow> fault + num" where
  "op_mul args = mk_number (foldl num_mul num_one args)"

text \<open>With one argument the operators \<open>-\<close>, \<open>/\<close> and \<open>quotient\<close> start from the neutral element.\<close>

fun op_start :: "num \<Rightarrow> num list \<Rightarrow> num \<times> num list" where
  "op_start neutral [] = (neutral, [])"
| "op_start neutral [x] = (neutral, [x])"
| "op_start neutral (x # y # xs) = (x, y # xs)"

definition op_sub :: "num list \<Rightarrow> fault + num" where
  "op_sub args = (case op_start num_zero args of (v, xs) \<Rightarrow> mk_number (foldl num_sub v xs))"

fun div_loop :: "num \<Rightarrow> num list \<Rightarrow> fault + num" where
  "div_loop v [] = mk_number v"
| "div_loop v (x # xs) =
     (if \<not> is_zero_double (real_of x) then ebind (num_div v x) (\<lambda>w. div_loop w xs)
      else Inl (Scheme_Error ''/: division by zero''))"

definition op_div :: "num list \<Rightarrow> fault + num" where
  "op_div args = (case op_start num_one args of (v, xs) \<Rightarrow> div_loop v xs)"

fun intdiv_loop :: "num \<Rightarrow> num list \<Rightarrow> fault + num" where
  "intdiv_loop v [] = mk_number v"
| "intdiv_loop v (x # xs) =
     ebind (int_of x) (\<lambda>i.
       if i \<noteq> 0 then ebind (num_intdiv v x) (\<lambda>w. intdiv_loop w xs)
       else Inl (Scheme_Error ''quotient: division by zero''))"

definition op_intdiv :: "num list \<Rightarrow> fault + num" where
  "op_intdiv args = (case op_start num_one args of (v, xs) \<Rightarrow> intdiv_loop v xs)"

definition op_rem :: "num \<Rightarrow> num \<Rightarrow> fault + num" where
  "op_rem x y =
     ebind (int_of y) (\<lambda>i.
       if i \<noteq> 0 then ebind (num_rem x y) mk_number
       else Inl (Scheme_Error ''remainder: division by zero''))"

definition op_mod :: "num \<Rightarrow> num \<Rightarrow> fault + num" where
  "op_mod x y =
     (if \<not> is_zero_double (real_of y) then ebind (num_mod x y) mk_number
      else Inl (Scheme_Error ''modulo: division by zero''))"

fun bit_loop :: "(num \<Rightarrow> num \<Rightarrow> fault + num) \<Rightarrow> num \<Rightarrow> num list \<Rightarrow> fault + num" where
  "bit_loop f v [] = mk_number v"
| "bit_loop f v (x # xs) = ebind (f v x) (\<lambda>w. bit_loop f w xs)"

definition op_bitnot :: "num \<Rightarrow> fault + num" where
  "op_bitnot x = ebind (num_bitnot x) mk_number"

text \<open>\<open>bitwise-and\<close> and the shifts start from the first argument, \<open>or\<close> and \<open>eor\<close> from zero.\<close>

definition op_bit_first :: "(num \<Rightarrow> num \<Rightarrow> fault + num) \<Rightarrow> num list \<Rightarrow> fault + num" where
  "op_bit_first f args = (case args of [] \<Rightarrow> mk_number num_zero | x # xs \<Rightarrow> bit_loop f x xs)"

definition op_bit_zero :: "(num \<Rightarrow> num \<Rightarrow> fault + num) \<Rightarrow> num list \<Rightarrow> fault + num" where
  "op_bit_zero f args = bit_loop f num_zero args"

text \<open>The comparison operators of \<open>opexe_3\<close>: every neighbouring pair must be in the relation.\<close>

fun op_compare :: "(num \<Rightarrow> num \<Rightarrow> bool) \<Rightarrow> num \<Rightarrow> num list \<Rightarrow> bool" where
  "op_compare f v [] = True"
| "op_compare f v (x # xs) = (if \<not> f v x then False else op_compare f x xs)"

text \<open>
  \<open>inexact->exact\<close>: \<open>rvalue_unchecked\<close> reads the first word of the number as a double, whatever
  the number is; \<open>modf\<close> of an infinity or an integral double has the fraction zero.
\<close>

primrec rvalue_unchecked :: "num \<Rightarrow> double" where
  "rvalue_unchecked (Integer i) = word_of_int i"
| "rvalue_unchecked (Real r) = r"
| "rvalue_unchecked (Rational n d) = word_of_int n"

definition op_inex2ex :: "num \<Rightarrow> fault + num" where
  "op_inex2ex x =
     (case x of Integer i \<Rightarrow> Inr x
      | _ \<Rightarrow>
        if \<not> fp_is_nan (rvalue_unchecked x) \<and> fp_integral (rvalue_unchecked x) then
          ebind (int_of x) (\<lambda>i. Inr (Integer i))
        else Inl (Scheme_Error ''inexact->exact: not integral:''))"

definition op_floor :: "num \<Rightarrow> num" where
  "op_floor x = Real (fp_floor (real_of x))"

definition op_ceiling :: "num \<Rightarrow> num" where
  "op_ceiling x = Real (fp_ceil (real_of x))"

definition op_truncate :: "num \<Rightarrow> num" where
  "op_truncate x =
     (let r = real_of x in if fp_lt 0 r then Real (fp_floor r) else Real (fp_ceil r))"

definition op_round :: "num \<Rightarrow> num" where
  "op_round x = Real (round_per_R5RS (real_of x))"

end
