(* ===== verification/Numbers_Claims.thy ===== *)
theory Numbers_Claims
  imports Numbers Complex_Main
begin

text \<open>What the arithmetic of \<open>Numbers\<close> computes.\<close>

section \<open>Division and the greatest common divisor\<close>

lemma idiv_ok: "b \<noteq> 0 \<Longrightarrow> \<bar>a\<bar> < 2 ^ 63 \<Longrightarrow> idiv a b = Inr (cdiv a b)"
  by (auto simp: idiv_def)

lemma irem_ok: "b \<noteq> 0 \<Longrightarrow> \<bar>a\<bar> < 2 ^ 63 \<Longrightarrow> irem a b = Inr (crem a b)"
  by (auto simp: irem_def)

lemma cdiv_dvd: "b dvd a \<Longrightarrow> b \<noteq> 0 \<Longrightarrow> b * cdiv a b = a"
  by (auto simp: cdiv_mult_cancel)

lemma abs_le_scale: "k \<noteq> 0 \<Longrightarrow> \<bar>x\<bar> \<le> \<bar>k * x\<bar>" for k x :: int
proof -
  assume "k \<noteq> 0"
  then have "1 * \<bar>x\<bar> \<le> \<bar>k\<bar> * \<bar>x\<bar>" by (intro mult_right_mono) auto
  then show ?thesis by (simp add: abs_mult)
qed

lemma gcd_crem: "gcd b (crem a b) = gcd a b" for a b :: int
  using gcd_add_mult [of b "- cdiv a b" a] by (simp add: crem_def gcd.commute algebra_simps)

lemma crem_range: "\<bar>a\<bar> < 2 ^ 63 \<Longrightarrow> \<bar>b\<bar> < 2 ^ 63 \<Longrightarrow> \<bar>crem a b\<bar> < 2 ^ 63"
  using crem_bound [of b a] by (cases "b = 0") auto

lemma gcd_c_gcd:
  assumes "\<bar>a\<bar> < 2 ^ 63" "\<bar>b\<bar> < 2 ^ 63"
  shows "\<exists>g. gcd_c a b = Inr g \<and> \<bar>g\<bar> = gcd a b"
  using assms
proof (induction a b rule: gcd_c.induct)
  case (1 a b)
  show ?case
  proof (cases "b = 0")
    case True
    then show ?thesis by (simp add: gcd_c.simps [of a])
  next
    case False
    then have "\<not> (a = - (2 ^ 63) \<and> b = -1)" using "1.prems" by auto
    with False "1.IH" "1.prems" crem_range [OF "1.prems"] show ?thesis
      by (simp add: gcd_c.simps [of a] gcd_crem)
  qed
qed

lemma gcd_c_scale:
  assumes "\<bar>k * a\<bar> < 2 ^ 63" "\<bar>k * b\<bar> < 2 ^ 63" "k \<noteq> 0"
  shows "\<exists>g. gcd_c a b = Inr g \<and> gcd_c (k * a) (k * b) = Inr (k * g)"
  using assms
proof (induction a b rule: gcd_c.induct)
  case (1 a b)
  show ?case
  proof (cases "b = 0")
    case True
    then show ?thesis by (simp add: gcd_c.simps [of a] gcd_c.simps [of "k * a"])
  next
    case False
    have na: "\<not> (a = - (2 ^ 63) \<and> b = -1)" using "1.prems" abs_le_scale [of k a] by auto
    have nk: "\<not> (k * a = - (2 ^ 63) \<and> k * b = -1)" using "1.prems" by auto
    have "\<bar>k * crem a b\<bar> < 2 ^ 63" using crem_range [OF "1.prems"(1,2)] by (simp add: crem_mult)
    with False na "1.IH" "1.prems" obtain g where
      "gcd_c b (crem a b) = Inr g" "gcd_c (k * b) (k * crem a b) = Inr (k * g)" by blast
    with False na nk \<open>k \<noteq> 0\<close> show ?thesis
      by (simp add: gcd_c.simps [of a] gcd_c.simps [of "k * a"] crem_mult)
  qed
qed

section \<open>Rationals\<close>


lemma mk_rational_ok:
  assumes n: "\<bar>n\<bar> < 2 ^ 63" and d: "\<bar>d\<bar> < 2 ^ 63" "d \<noteq> 0" and n0: "n \<noteq> 0"
  obtains g p q where "mk_rational n d = Inr (Rational p q)" "n = g * p" "d = g * q" "\<bar>g\<bar> = gcd n d" "coprime p q"
    "gcd_c n d = Inr g"
proof -
  obtain g where g: "gcd_c n d = Inr g" "\<bar>g\<bar> = gcd n d" using gcd_c_gcd [OF n d(1)] by blast
  have g0: "g \<noteq> 0" using g(2) n0 by auto
  have dv: "g dvd n" "g dvd d" using g(2) by (metis abs_dvd_iff gcd_dvd1, metis abs_dvd_iff gcd_dvd2)
  have "\<bar>g\<bar> * gcd (cdiv n g) (cdiv d g) = \<bar>g\<bar>"
    using cdiv_dvd [OF dv(1) g0] cdiv_dvd [OF dv(2) g0] g(2) by (metis abs_mult gcd_mult_distrib_int)
  then have "coprime (cdiv n g) (cdiv d g)" using g0 by (simp add: coprime_iff_gcd_eq_1)
  then show thesis
    using that [of "cdiv n g" "cdiv d g" g] g g0 n0 d n cdiv_dvd [OF dv(1) g0] cdiv_dvd [OF dv(2) g0]
    by (simp add: mk_rational_def ebind_def idiv_ok)
qed

lemma mk_rational_scale:
  assumes n: "\<bar>k * n\<bar> < 2 ^ 63" and d: "\<bar>k * d\<bar> < 2 ^ 63" and "k \<noteq> 0"
  shows "mk_rational (k * n) (k * d) = mk_rational n d"
proof (cases "d = 0 \<or> n = 0")
  case True
  with \<open>k \<noteq> 0\<close> show ?thesis by (auto simp: mk_rational_def)
next
  case False
  obtain g where g: "gcd_c n d = Inr g" "gcd_c (k * n) (k * d) = Inr (k * g)"
    using gcd_c_scale [OF n d \<open>k \<noteq> 0\<close>] by blast
  have nd: "\<bar>n\<bar> < 2 ^ 63" "\<bar>d\<bar> < 2 ^ 63" using n d abs_le_scale [OF assms(3), of n] abs_le_scale [OF assms(3), of d] by linarith+
  obtain p q where pq: "mk_rational n d = Inr (Rational p q)" "n = g * p" "d = g * q"
    using mk_rational_ok [OF nd] False g(1) by (metis sum.inject(2))
  have g0: "g \<noteq> 0" using False pq by auto
  have "mk_rational (k * n) (k * d) = Inr (Rational (cdiv (k * n) (k * g)) (cdiv (k * d) (k * g)))"
    using False g n d g0 \<open>k \<noteq> 0\<close> by (simp add: mk_rational_def ebind_def idiv_ok)
  also have "cdiv (k * n) (k * g) = p" using pq g0 \<open>k \<noteq> 0\<close> cdiv_mult_cancel [of "k * g" p] by (simp add: mult.assoc)
  also have "cdiv (k * d) (k * g) = q" using pq g0 \<open>k \<noteq> 0\<close> cdiv_mult_cancel [of "k * g" q] by (simp add: mult.assoc)
  finally show ?thesis using pq(1) by simp
qed

lemma same_fraction:
  fixes n d n' d' p q :: int
  assumes "n * d' = n' * d" and "n = g * p" "d = g * q" "coprime p q" "g \<noteq> 0" "q \<noteq> 0"
  obtains k where "n' = k * p" "d' = k * q"
proof -
  have e: "p * d' = n' * q" using assms by simp
  then have "q dvd p * d'" by simp
  then have "q dvd d'" using assms(4) by (simp add: coprime_commute coprime_dvd_mult_right_iff)
  then obtain k where "d' = q * k" by blast
  with e assms(6) have "n' = p * k" by simp
  with \<open>d' = q * k\<close> show thesis using that [of k] by (simp add: mult.commute)
qed

text \<open>C37: Rationals have one representation: \<open>mk_rational\<close> gives the same cell contents for two
  fractions exactly when the fractions are equal, whatever their signs, so that \<open>num_eq\<close> may
  compare numerators and denominators. The representation's denominator can be negative.\<close>

theorem rational_canonical:
  assumes "\<bar>n\<bar> < 2 ^ 63" "\<bar>d\<bar> < 2 ^ 63" "d \<noteq> 0" "\<bar>n'\<bar> < 2 ^ 63" "\<bar>d'\<bar> < 2 ^ 63" "d' \<noteq> 0"
  shows "mk_rational n d = mk_rational n' d' \<longleftrightarrow> n * d' = n' * d"
proof (cases "n = 0 \<or> n' = 0")
  case True
  have "n \<noteq> 0 \<Longrightarrow> mk_rational n d \<noteq> Inr (Integer 0)" "n' \<noteq> 0 \<Longrightarrow> mk_rational n' d' \<noteq> Inr (Integer 0)"
    using assms mk_rational_ok [of n d] mk_rational_ok [of n' d'] by (metis num.distinct(3) sum.inject(2))+
  moreover have "mk_rational 0 d = Inr (Integer 0)" "mk_rational 0 d' = Inr (Integer 0)"
    using assms by (simp_all add: mk_rational_def)
  ultimately show ?thesis using True assms by (metis mult_eq_0_iff)
next
  case False
  obtain g p q where gpq: "mk_rational n d = Inr (Rational p q)" "n = g * p" "d = g * q" "coprime p q"
    using mk_rational_ok assms False by metis
  obtain h u v where huv: "mk_rational n' d' = Inr (Rational u v)" "n' = h * u" "d' = h * v"
    using mk_rational_ok assms False by metis
  have nz: "g \<noteq> 0" "q \<noteq> 0" using assms(3) gpq by auto
  show ?thesis
  proof
    assume "mk_rational n d = mk_rational n' d'"
    with gpq huv show "n * d' = n' * d" by (simp add: ac_simps)
  next
    assume "n * d' = n' * d"
    then obtain k where k: "n' = k * p" "d' = k * q"
      using same_fraction [OF _ gpq(2,3,4) nz] by blast
    have "k \<noteq> 0" using k assms(6) by auto
    have "mk_rational n' d' = mk_rational p q"
      unfolding k using assms k by (intro mk_rational_scale \<open>k \<noteq> 0\<close>) auto
    moreover have "mk_rational n d = mk_rational p q"
      unfolding gpq(2,3) using assms gpq nz by (intro mk_rational_scale) auto
    ultimately show "mk_rational n d = mk_rational n' d'" by simp
  qed
qed

lemma rational_canonical_witness: "mk_rational 4 (-8) = mk_rational (-3) 6"
  using rational_canonical [of 4 "-8" "-3" 6] by simp

section \<open>Exact arithmetic\<close>

text \<open>Exact numbers whose parts fit in 31 bits, and in 63.\<close>

definition in31 :: "int \<Rightarrow> bool" where
  "in31 i \<longleftrightarrow> \<bar>i\<bar> < 2 ^ 31"

definition in63 :: "int \<Rightarrow> bool" where
  "in63 i \<longleftrightarrow> \<bar>i\<bar> < 2 ^ 63"


lemma wrap64_small [simp]: "in63 x \<Longrightarrow> wrap64 x = x"
  by (rule wrap64_id) (auto simp: in63_def in_i64_def)



lemma prod_bound: "in31 a \<Longrightarrow> in31 b \<Longrightarrow> \<bar>a * b\<bar> < 2 ^ 62"
  using mult_strict_mono' [of "\<bar>a\<bar>" "2 ^ 31" "\<bar>b\<bar>" "2 ^ 31"] by (simp add: abs_mult in31_def)

lemma sum_bounds [intro, simp]:
  assumes ab: "in31 a" "in31 b"
  shows "in63 (a * b)" "in63 (a + b)" "in63 (a - b)" "in63 a"
    and "in31 c \<Longrightarrow> in63 (a * b + c)" "in31 c \<Longrightarrow> in63 (c + a * b)" "in31 c \<Longrightarrow> in63 (a * b - c)" "in31 c \<Longrightarrow> in63 (c - a * b)"
    and "in31 c \<Longrightarrow> in31 d \<Longrightarrow> in63 (a * b + c * d)" "in31 c \<Longrightarrow> in31 d \<Longrightarrow> in63 (a * b - c * d)"
  using prod_bound [OF ab] prod_bound [of c d] ab by (simp_all add: in31_def in63_def)

lemma in31_63 [intro, simp]: "in31 a \<Longrightarrow> in63 a"
  by (simp add: in31_def in63_def)






subsection \<open>The test for a zero divisor\<close>

lemma not_zero_double:
  assumes "2 * 2 ^ 52 \<le> fp_mag w"
  shows "\<not> is_zero_double w"
proof (cases "fp_is_nan w \<or> fp_is_inf w")
  case True
  have "\<not> fp_is_nan 0x0010000000000000" "\<not> fp_is_inf 0x0010000000000000"
       "\<not> fp_is_nan 0x8010000000000000" "\<not> fp_is_inf 0x8010000000000000" by code_simp+
  with True show ?thesis by (auto simp: is_zero_double_def fp_lt_def)
next
  case False
  have c: "\<not> fp_is_nan 0x0010000000000000" "\<not> fp_is_inf 0x0010000000000000"
       "\<not> fp_is_nan 0x8010000000000000" "\<not> fp_is_inf 0x8010000000000000"
       "fp_exp 0x0010000000000000 = -1074" "fp_int 0x0010000000000000 = 2 ^ 52"
       "fp_exp 0x8010000000000000 = -1074" "fp_int 0x8010000000000000 = - (2 ^ 52)" by code_simp+
  have ex: "2 \<le> fp_expo w" using assms by (simp add: fp_expo_def)
  then have m: "2 ^ 52 \<le> fp_mant w" and e: "-1073 \<le> fp_exp w"
    by (simp_all add: fp_mant_def fp_exp_def)
  have "nat (fp_exp w + 1074) = Suc (nat (fp_exp w + 1073))" using e by simp
  then have p: "(2 :: int) ^ nat (fp_exp w + 1074) = 2 * 2 ^ nat (fp_exp w + 1073)" by simp
  have "(2 :: int) ^ 52 * 2 \<le> fp_mant w * (2 * 2 ^ nat (fp_exp w + 1073))"
    using m by (intro mult_mono) simp_all
  then have big: "(2 :: int) ^ 52 < fp_mant w * 2 ^ nat (fp_exp w + 1074)" unfolding p by simp
  have k: "min (fp_exp w) (-1074) = -1074" "min (-1074) (fp_exp w) = -1074" using e by simp_all
  show ?thesis
    using False c big
    by (auto simp: is_zero_double_def fp_lt_def Let_def k fp_at_def fp_int_def split: if_splits)
qed

lemma half_even_nonneg: "0 \<le> a \<Longrightarrow> 0 < b \<Longrightarrow> 0 \<le> half_even a b"
  by (auto simp: half_even_def Let_def pos_imp_zdiv_nonneg_iff intro: add_nonneg_nonneg)

lemma round_not_zero:
  assumes n: "0 < n" and d: "0 < d" and e: "-1000 \<le> quot_exp n d + k"
  shows "\<not> is_zero_double (fp_round s n d k)"
proof (rule not_zero_double)
  define x where "x = max (-1022) (quot_exp n d + k)"
  define a where "a = fst (scaled n d (52 - x + k))"
  define b where "b = snd (scaled n d (52 - x + k))"
  have ab: "0 \<le> half_even a b" using n d by (intro half_even_nonneg) (auto simp: a_def b_def scaled_def)
  have m: "fp_round_mag n d k = (if x > 1023 then fp_inf_mag else min fp_inf_mag ((x + 1022) * 2 ^ 52 + half_even a b))"
    by (simp add: fp_round_mag_def Let_def x_def [symmetric] a_def b_def split: prod.split)
  have "-1000 \<le> x" using e by (simp add: x_def)
  then have l: "2 * 2 ^ 52 \<le> fp_round_mag n d k" using ab by (auto simp: m fp_inf_mag_def)
  have "fp_round_mag n d k \<le> fp_inf_mag" by (simp add: m)
  then have "fp_round_mag n d k < 2 ^ 63" by (simp add: fp_inf_mag_def)
  with l n show "2 * 2 ^ 52 \<le> fp_mag (fp_round s n d k)"
    by (simp add: fp_round_def fp_signed_mag)
qed

lemma int_not_zero: "i \<noteq> 0 \<Longrightarrow> \<not> is_zero_double (fp_of_int i)"
  unfolding fp_of_int_def by (rule round_not_zero) (simp_all add: quot_exp_one)





section \<open>Integers\<close>

lemma wrap64_mod: "wrap64 x mod 2 ^ 64 = x mod 2 ^ 64"
  by (simp add: wrap64_def mod_simps)

lemma wrap64_cong: "x mod 2 ^ 64 = y mod 2 ^ 64 \<Longrightarrow> wrap64 x = wrap64 y"
  unfolding wrap64_def by (metis mod_add_left_eq)

lemma wrap64_step [simp]:
  "wrap64 (wrap64 x + y) = wrap64 (x + y)" "wrap64 (wrap64 x * y) = wrap64 (x * y)"
  "wrap64 (wrap64 x - y) = wrap64 (x - y)"
  by (rule wrap64_cong, metis wrap64_mod mod_add_left_eq mod_mult_left_eq mod_diff_left_eq)+

lemma add_fold: "foldl num_add (Integer (wrap64 s)) (map Integer xs) = Integer (wrap64 (s + sum_list xs))"
  by (induction xs arbitrary: s) (simp_all add: add.assoc)

lemma mul_fold: "foldl num_mul (Integer (wrap64 s)) (map Integer xs) = Integer (wrap64 (s * prod_list xs))"
  by (induction xs arbitrary: s) (simp_all add: mult.assoc)

lemma sub_fold: "foldl num_sub (Integer (wrap64 s)) (map Integer xs) = Integer (wrap64 (s - sum_list xs))"
  by (induction xs arbitrary: s) (simp_all add: diff_diff_eq)

text \<open>On any number of integers \<open>+\<close>, \<open>*\<close> and \<open>-\<close> give the sum, the product and the
  difference modulo \<open>2 ^ 64\<close>, also when intermediate results overflow; \<open>-\<close> of one argument negates.\<close>

theorem integer_folds:
  "op_add (map Integer xs) = Inr (Integer (wrap64 (sum_list xs))) \<and>
   op_mul (map Integer xs) = Inr (Integer (wrap64 (prod_list xs))) \<and>
   op_sub [Integer x] = Inr (Integer (wrap64 (- x))) \<and>
   op_sub (Integer (wrap64 x) # Integer y # map Integer xs) = Inr (Integer (wrap64 (x - (y + sum_list xs))))"
  using add_fold [of 0 xs] mul_fold [of 1 xs] sub_fold [of "x - y" xs]
  by (simp add: op_add_def op_mul_def op_sub_def num_zero_def num_one_def diff_diff_eq in63_def)

lemma mod_crem:
  fixes a b :: int
  assumes "b \<noteq> 0"
  shows "a mod b = (if crem a b * b < 0 then crem a b + b else crem a b)"
proof -
  define r where "r = (if crem a b * b < 0 then crem a b + b else crem a b)"
  have "r mod b = a mod b" by (simp add: r_def crem_def mod_diff_eq [symmetric] mult.commute)
  moreover have "r mod b = r"
  proof (cases "0 < b")
    case True
    then have "0 \<le> r" "r < b" using crem_bound [OF assms, of a] by (auto simp: r_def mult_less_0_iff split: if_splits)
    then show ?thesis by simp
  next
    case False
    with assms have "r \<le> 0" "b < r" using crem_bound [OF assms, of a] by (auto simp: r_def mult_less_0_iff split: if_splits)
    then show ?thesis by simp
  qed
  ultimately show ?thesis by (simp add: r_def)
qed

text \<open>On integers, \<open>quotient\<close> truncates towards zero, \<open>remainder\<close> is what it leaves, with the
  sign of the dividend, and \<open>modulo\<close> is the floored remainder, with the sign of the divisor; the
  divisor's magnitude is at most \<open>2 ^ 31\<close> for \<open>modulo\<close>.\<close>

theorem integer_division:
  assumes a: "\<bar>a\<bar> < 2 ^ 63" and b: "\<bar>b\<bar> < 2 ^ 63" "b \<noteq> 0"
  shows "op_intdiv [Integer a, Integer b] = Inr (Integer (cdiv a b)) \<and>
         op_rem (Integer a) (Integer b) = Inr (Integer (a - b * cdiv a b)) \<and>
         (\<bar>b\<bar> \<le> 2 ^ 31 \<longrightarrow> op_mod (Integer a) (Integer b) = Inr (Integer (a mod b)))"
proof (intro conjI impI)
  show "op_intdiv [Integer a, Integer b] = Inr (Integer (cdiv a b))"
    using a b by (simp add: op_intdiv_def int_of_def ebind_def idiv_ok)
  obtain m where m: "crem a b = sgn a * m" "0 \<le> m"
    using b(2) by (metis crem_abs pos_mod_sign zero_less_abs_iff)
  have s: "crem a b > 0 \<Longrightarrow> \<not> a < 0" "crem a b < 0 \<Longrightarrow> \<not> a > 0"
    using m by (auto simp: sgn_if split: if_splits)
  show "op_rem (Integer a) (Integer b) = Inr (Integer (a - b * cdiv a b))"
    using a b s by (auto simp: op_rem_def num_rem_def int_of_def ebind_def irem_ok crem_def)
  assume m: "\<bar>b\<bar> \<le> 2 ^ 31"
  define r where "r = crem a b"
  have rb: "\<bar>r\<bar> < \<bar>b\<bar>" using crem_bound b by (simp add: r_def)
  have "\<bar>r * b\<bar> \<le> 2 ^ 31 * 2 ^ 31"
    unfolding abs_mult using rb m by (intro mult_mono) auto
  then have w: "wrap64 (r * b) = r * b" by (simp add: in63_def)
  have l: "llabs b = \<bar>b\<bar>" using m by (simp add: llabs_def in63_def)
  have w2: "wrap64 (r - \<bar>b\<bar>) = r - \<bar>b\<bar>" "wrap64 (r + \<bar>b\<bar>) = r + \<bar>b\<bar>" using rb m by (simp_all add: in63_def)
  have "num_mod (Integer a) (Integer b) =
        Inr (Integer (if r * b < 0 then (if r > 0 then r - \<bar>b\<bar> else r + \<bar>b\<bar>) else r))"
    using a b by (simp add: num_mod_def common_type_def MY_ARR_def ebind_def irem_ok r_def [symmetric] w l w2)
  also have "(if r * b < 0 then (if r > 0 then r - \<bar>b\<bar> else r + \<bar>b\<bar>) else r) = a mod b"
    using mod_crem [OF b(2), of a] by (auto simp: r_def mult_less_0_iff)
  finally show "op_mod (Integer a) (Integer b) = Inr (Integer (a mod b))"
    using b int_not_zero by (simp add: op_mod_def real_of_def ebind_def)
qed

lemma integer_division_witness: "op_mod (Integer (-7)) (Integer 3) = Inr (Integer ((-7) mod 3))"
  using integer_division [of "-7" 3] by simp

text \<open>A zero divisor is the Scheme error of the operator, never a hardware division: for every
  dividend, and whatever was computed before.\<close>

theorem zero_divisor_is_error:
  "op_rem x (Integer 0) = Inl (Scheme_Error ''remainder: division by zero'') \<and>
   op_mod x (Integer 0) = Inl (Scheme_Error ''modulo: division by zero'') \<and>
   op_intdiv [x, Integer 0] = Inl (Scheme_Error ''quotient: division by zero'') \<and>
   op_div [x, Integer 0] = Inl (Scheme_Error ''/: division by zero'') \<and>
   op_div [x, Real (fp_opp 0)] = Inl (Scheme_Error ''/: division by zero'') \<and>
   mk_number (Rational n 0) = Inl (Scheme_Error ''Cannot make rational with 0 denominator'')"
proof -
  have "is_zero_double (fp_of_int 0)" "is_zero_double (fp_opp 0)" by code_simp+
  then show ?thesis
    by (simp add: op_rem_def op_mod_def op_intdiv_def op_div_def int_of_def real_of_def ebind_def mk_rational_def)
qed

text \<open>Where integer arithmetic goes wrong. The sign test of \<open>modulo\<close> multiplies remainder and
  divisor in 64 bits: for operands just above \<open>2 ^ 31.5\<close> the product overflows and the result
  is -1. And dividing the least integer by -1 is undefined in C++ (on x86-64 the process dies), which
  none of the operators tests for.\<close>

theorem integer_division_gaps:
  "op_mod (Integer 3037000500) (Integer 3037000501) = Inr (Integer (-1)) \<and>
   op_intdiv [Integer (- (2 ^ 63)), Integer (-1)] = Inl Undefined \<and>
   op_div [Integer (- (2 ^ 63)), Integer (-1)] = Inl Undefined \<and>
   op_rem (Integer (- (2 ^ 63))) (Integer (-1)) = Inl Undefined"
  by (intro conjI; code_simp)

section \<open>Reals\<close>

text \<open>Integers stored as reals behave like integers while their magnitude is below \<open>2 ^ 53\<close>: sums
  with integers are the exact sums (rounded once if they leave that range), comparisons agree, and
  \<open>inexact->exact\<close> returns the integer.\<close>

theorem integral_reals:
  assumes i: "\<bar>i\<bar> < 2 ^ 53" and j: "\<bar>j\<bar> < 2 ^ 53"
  shows "op_add [Integer i, Real (fp_of_int j)] = Inr (Real (fp_of_int (i + j))) \<and>
         num_eq (Integer i) (Real (fp_of_int j)) = (i = j) \<and>
         num_lt (Integer i) (Real (fp_of_int j)) = (i < j) \<and>
         num_ge (Real (fp_of_int j)) (Integer i) = (j \<ge> i) \<and>
         op_inex2ex (Real (fp_of_int i)) = Inr (Integer i)"
proof -
  have di: "denotes (fp_of_int i) i" and dj: "denotes (fp_of_int j) j" using i j by (simp_all add: denotes_of_int)
  have wi: "in_i64 i" "in63 i" using i by (auto simp: in_i64_def in63_def)
  have integral: "fp_integral (fp_of_int i)" using di by (simp add: denotes_def fp_integral_def)
  show ?thesis
    using fp_add_denotes [OF di dj] fp_eq_denotes [OF di dj] fp_lt_denotes [OF di dj] fp_lt_denotes [OF dj di]
      fp_to_int_denotes [OF di wi(1)] denotes_finite [OF di] integral wi
    by (auto simp: op_add_def num_zero_def num_ge_def op_inex2ex_def int_of_def ebind_def)
qed

lemma integral_reals_witness: "num_lt (Integer 2) (Real (fp_of_int 3))"
  using integral_reals [of 2 3] by simp

text \<open>Comparison decides order exactly for integers only. Rationals are compared as rounded
  doubles: 9007199254740993/2 is greater than 4503599627370496, but is neither less, greater nor equal, and
  \<open><=\<close> holds both ways. \<open><=\<close> and \<open>>=\<close> are the negations of \<open>>\<close> and \<open><\<close>, so that they hold for NaN.\<close>

theorem comparison_gaps:
  "\<not> num_lt (Rational 9007199254740993 2) (Integer 4503599627370496) \<and>
   \<not> num_gt (Rational 9007199254740993 2) (Integer 4503599627370496) \<and>
   \<not> num_eq (Rational 9007199254740993 2) (Integer 4503599627370496) \<and>
   num_le (Rational 9007199254740993 2) (Integer 4503599627370496) \<and>
   num_le (Real fp_nan) (Integer 0) \<and> num_ge (Real fp_nan) (Integer 0) \<and> \<not> num_eq (Real fp_nan) (Integer 0)"
  by (intro conjI; code_simp)

text \<open>The comparison operators hold of a list of integers exactly if it is ordered.\<close>

theorem compare_chain:
  "op_compare num_lt (Integer x) (map Integer xs) = sorted_wrt (<) (x # xs) \<and>
   op_compare num_le (Integer x) (map Integer xs) = sorted_wrt (\<le>) (x # xs) \<and>
   op_compare num_gt (Integer x) (map Integer xs) = sorted_wrt (>) (x # xs) \<and>
   op_compare num_ge (Integer x) (map Integer xs) = sorted_wrt (\<ge>) (x # xs)"
proof -
  have "op_compare f (Integer x) (map Integer xs) = sorted_wrt r (x # xs)"
    if "\<And>i j. f (Integer i) (Integer j) = r i j" "transp r" for f and r :: "int \<Rightarrow> int \<Rightarrow> bool"
  proof (induction xs arbitrary: x)
    case (Cons y ys)
    then show ?case using that by (auto dest: transpD)
  qed simp
  then show ?thesis by (simp add: num_le_def num_ge_def not_less transp_def)
qed

end
