(* ===== verification/Handshake.thy ===== *)
theory Handshake
  imports Ext_Prelude
begin

text \<open>
  How \<open>treadmill_flip\<close> (called by the interpreter's thread) and \<open>treadmill_scanner\<close> (its own
  thread) hand the treadmill to each other: the flags \<open>treadmill_flip_active\<close> and
  \<open>treadmill_scanner_finished\<close>, the collector's mutex and the monitor \<open>Treadmill_Guard\<close>. One step
  is one shared access of either thread. What the threads do to the cells in between is
  \<open>Treadmill\<close>'s matter; here only the number of grey cells is left of it.
\<close>

section \<open>Threads\<close>

text \<open>
  The scanner's positions, in the order of \<open>treadmill_scanner\<close>: taking the mutex, clearing the
  finished flag, the test of the outer loop, the inner loop, its pause every 16384 cells, the pause
  after the inner loop, the guard's lock, the mutex's release, setting the finished flag, about to
  wait, waiting, woken up, and the release of the guard.
\<close>

datatype spc = S_Init | S_Start | S_Outer | S_Inner | S_Pause | S_Yield | S_Guard | S_Unlock | S_Finish
  | S_PreWait | S_Wait | S_Woken | S_Unguard

text \<open>
  The interpreter's: running, inserting a cell under the mutex, and in the order of
  \<open>treadmill_flip\<close>: flip asked for (spinning until the scanner has finished), turning the treadmill,
  marking the roots under the mutex, clearing the flag, signalling.
\<close>

datatype mpc = M_Run | M_Insert | M_Spin | M_Turn | M_Mark | M_Clear | M_Signal

datatype owner = Nobody | Scanner | Interpreter

record handshake =
  h_spc :: spc
  h_mpc :: mpc
  h_active :: bool
  h_finished :: bool
  h_mutex :: owner
  h_guard :: bool
  h_grey :: nat

text \<open>
  \<open>h_mutex\<close> is the thread that holds the collector's mutex, which either takes only when nobody does;
  the guard's own mutex is the scanner's alone, since \<open>signal\<close> does not take it. \<open>spurious\<close> allows a
  condition wait to return without a signal, as POSIX permits.
\<close>

inductive hs_step :: "bool \<Rightarrow> handshake \<Rightarrow> handshake \<Rightarrow> bool" for spurious :: bool where
  s_lock: "h_spc h = S_Init \<Longrightarrow> h_mutex h = Nobody \<Longrightarrow>
    hs_step spurious h (h\<lparr>h_mutex := Scanner, h_spc := S_Start\<rparr>)"
| s_start: "h_spc h = S_Start \<Longrightarrow> hs_step spurious h (h\<lparr>h_finished := False, h_spc := S_Outer\<rparr>)"
| s_enter: "h_spc h = S_Outer \<Longrightarrow> \<not> h_active h \<or> h_grey h \<noteq> 0 \<Longrightarrow>
    hs_step spurious h (h\<lparr>h_spc := S_Inner\<rparr>)"
| s_scan: "h_spc h = S_Inner \<Longrightarrow> h_grey h = Suc g \<Longrightarrow> hs_step spurious h (h\<lparr>h_grey := g + k\<rparr>)"
| s_pause: "h_spc h = S_Inner \<Longrightarrow> h_grey h = Suc g \<Longrightarrow>
    hs_step spurious h (h\<lparr>h_grey := g + k, h_mutex := Nobody, h_spc := S_Pause\<rparr>)"
| s_resume: "h_spc h = S_Pause \<Longrightarrow> h_mutex h = Nobody \<Longrightarrow>
    hs_step spurious h (h\<lparr>h_mutex := Scanner, h_spc := S_Inner\<rparr>)"
| s_yield: "h_spc h = S_Inner \<Longrightarrow> h_grey h = 0 \<Longrightarrow>
    hs_step spurious h (h\<lparr>h_mutex := Nobody, h_spc := S_Yield\<rparr>)"
| s_again: "h_spc h = S_Yield \<Longrightarrow> h_mutex h = Nobody \<Longrightarrow>
    hs_step spurious h (h\<lparr>h_mutex := Scanner, h_spc := S_Outer\<rparr>)"
| s_leave: "h_spc h = S_Outer \<Longrightarrow> h_active h \<Longrightarrow> h_grey h = 0 \<Longrightarrow>
    hs_step spurious h (h\<lparr>h_spc := S_Guard\<rparr>)"
| s_guard: "h_spc h = S_Guard \<Longrightarrow> hs_step spurious h (h\<lparr>h_guard := True, h_spc := S_Unlock\<rparr>)"
| s_unlock: "h_spc h = S_Unlock \<Longrightarrow> hs_step spurious h (h\<lparr>h_mutex := Nobody, h_spc := S_Finish\<rparr>)"
| s_finish: "h_spc h = S_Finish \<Longrightarrow> hs_step spurious h (h\<lparr>h_finished := True, h_spc := S_PreWait\<rparr>)"
| s_wait: "h_spc h = S_PreWait \<Longrightarrow> hs_step spurious h (h\<lparr>h_guard := False, h_spc := S_Wait\<rparr>)"
| s_spurious: "spurious \<Longrightarrow> h_spc h = S_Wait \<Longrightarrow>
    hs_step spurious h (h\<lparr>h_guard := True, h_spc := S_Woken\<rparr>)"
| s_relock: "h_spc h = S_Woken \<Longrightarrow> h_mutex h = Nobody \<Longrightarrow>
    hs_step spurious h (h\<lparr>h_mutex := Scanner, h_spc := S_Unguard\<rparr>)"
| s_unguard: "h_spc h = S_Unguard \<Longrightarrow> hs_step spurious h (h\<lparr>h_guard := False, h_spc := S_Start\<rparr>)"
| m_insert: "h_mpc h = M_Run \<Longrightarrow> h_mutex h = Nobody \<Longrightarrow>
    hs_step spurious h (h\<lparr>h_mutex := Interpreter, h_mpc := M_Insert\<rparr>)"
| m_inserted: "h_mpc h = M_Insert \<Longrightarrow> k \<le> 1 \<Longrightarrow>
    hs_step spurious h (h\<lparr>h_grey := h_grey h + k, h_mutex := Nobody, h_mpc := M_Run\<rparr>)"
| m_flip: "h_mpc h = M_Run \<Longrightarrow> hs_step spurious h (h\<lparr>h_active := True, h_mpc := M_Spin\<rparr>)"
| m_finished: "h_mpc h = M_Spin \<Longrightarrow> h_finished h \<Longrightarrow> hs_step spurious h (h\<lparr>h_mpc := M_Turn\<rparr>)"
| m_turn: "h_mpc h = M_Turn \<Longrightarrow> h_mutex h = Nobody \<Longrightarrow>
    hs_step spurious h (h\<lparr>h_mutex := Interpreter, h_mpc := M_Mark\<rparr>)"
| m_root: "h_mpc h = M_Mark \<Longrightarrow> k \<le> 1 \<Longrightarrow> hs_step spurious h (h\<lparr>h_grey := h_grey h + k\<rparr>)"
| m_marked: "h_mpc h = M_Mark \<Longrightarrow> hs_step spurious h (h\<lparr>h_mutex := Nobody, h_mpc := M_Clear\<rparr>)"
| m_clear: "h_mpc h = M_Clear \<Longrightarrow> hs_step spurious h (h\<lparr>h_active := False, h_mpc := M_Signal\<rparr>)"
| m_signal: "h_mpc h = M_Signal \<Longrightarrow> h_finished h \<Longrightarrow>
    hs_step spurious h (if h_spc h = S_Wait then h\<lparr>h_guard := True, h_spc := S_Woken\<rparr> else h)"
| m_done: "h_mpc h = M_Signal \<Longrightarrow> \<not> h_finished h \<Longrightarrow> hs_step spurious h (h\<lparr>h_mpc := M_Run\<rparr>)"

text \<open>
  \<open>scheme_init_custom_alloc\<close> clears both flags and inserts the roots, so that some number of grey
  cells is there when it starts the scanner.
\<close>

definition hs_init :: "nat \<Rightarrow> handshake" where
  "hs_init grey = \<lparr>h_spc = S_Init, h_mpc = M_Run, h_active = False, h_finished = False,
     h_mutex = Nobody, h_guard = False, h_grey = grey\<rparr>"

inductive hs_reachable :: "bool \<Rightarrow> handshake \<Rightarrow> bool" for spurious :: bool where
  init: "hs_reachable spurious (hs_init grey)"
| step: "hs_reachable spurious h \<Longrightarrow> hs_step spurious h h' \<Longrightarrow> hs_reachable spurious h'"

section \<open>The invariants\<close>

fun sleeping :: "spc \<Rightarrow> bool" where
  "sleeping S_PreWait = True" | "sleeping S_Wait = True" | "sleeping _ = False"

fun rising :: "spc \<Rightarrow> bool" where
  "rising S_Woken = True" | "rising S_Unguard = True" | "rising _ = False"

fun scanning :: "spc \<Rightarrow> bool" where
  "scanning S_Init = True" | "scanning S_Outer = True" | "scanning S_Inner = True"
| "scanning S_Pause = True" | "scanning S_Yield = True" | "scanning _ = False"

fun closing :: "spc \<Rightarrow> bool" where
  "closing S_Guard = True" | "closing S_Unlock = True" | "closing S_Finish = True" | "closing _ = False"

fun scanner_holds :: "spc \<Rightarrow> bool" where
  "scanner_holds S_Start = True" | "scanner_holds S_Outer = True" | "scanner_holds S_Inner = True"
| "scanner_holds S_Guard = True" | "scanner_holds S_Unlock = True" | "scanner_holds S_Unguard = True"
| "scanner_holds _ = False"

fun working :: "mpc \<Rightarrow> bool" where
  "working M_Turn = True" | "working M_Mark = True" | "working M_Clear = True" | "working _ = False"

fun holds :: "mpc \<Rightarrow> bool" where
  "holds M_Insert = True" | "holds M_Mark = True" | "holds _ = False"

fun away :: "mpc \<Rightarrow> bool" where
  "away M_Run = True" | "away M_Insert = True" | "away _ = False"

text \<open>What holds whether or not waits wake up spuriously.\<close>

definition hs_locks :: "handshake \<Rightarrow> bool" where
  "hs_locks h \<longleftrightarrow>
     (h_mutex h = Scanner \<longleftrightarrow> scanner_holds (h_spc h)) \<and> (h_mutex h = Interpreter \<longleftrightarrow> holds (h_mpc h)) \<and>
     (h_active h \<longleftrightarrow> working (h_mpc h) \<or> h_mpc h = M_Spin) \<and>
     (scanning (h_spc h) \<or> closing (h_spc h) \<longrightarrow> \<not> h_finished h) \<and>
     (sleeping (h_spc h) \<or> rising (h_spc h) \<longrightarrow> h_finished h)"

lemma hs_locks_step: "hs_step spurious h h' \<Longrightarrow> hs_locks h \<Longrightarrow> hs_locks h'"
  by (induction rule: hs_step.induct) (auto simp: hs_locks_def)

lemma hs_locks_reachable: "hs_reachable spurious h \<Longrightarrow> hs_locks h"
proof (induction rule: hs_reachable.induct)
  case (init grey)
  show ?case by (simp add: hs_locks_def hs_init_def)
qed (rule hs_locks_step)

text \<open>What holds while they do not.\<close>

definition hs_inv :: "handshake \<Rightarrow> bool" where
  "hs_inv h \<longleftrightarrow> hs_locks h \<and>
     (closing (h_spc h) \<longrightarrow> h_mpc h = M_Spin \<and> h_grey h = 0) \<and>
     (scanning (h_spc h) \<longrightarrow> \<not> working (h_mpc h)) \<and>
     (h_spc h = S_Init \<longrightarrow> h_mpc h = M_Run \<or> h_mpc h = M_Insert \<or> h_mpc h = M_Spin) \<and>
     (sleeping (h_spc h) \<longrightarrow> \<not> away (h_mpc h)) \<and>
     (rising (h_spc h) \<longrightarrow> h_mpc h = M_Signal) \<and>
     (h_spc h = S_Start \<longrightarrow> (if h_finished h then h_mpc h = M_Signal else h_mpc h = M_Run \<or> h_mpc h = M_Spin)) \<and>
     (sleeping (h_spc h) \<and> (h_mpc h = M_Spin \<or> h_mpc h = M_Turn) \<longrightarrow> h_grey h = 0)"

lemma spc_cases: "sleeping s \<or> rising s \<or> scanning s \<or> closing s \<or> s = S_Start"
  by (cases s) simp_all

lemma hs_inv_step: "hs_step False h h' \<Longrightarrow> hs_inv h \<Longrightarrow> hs_inv h'"
proof (induction rule: hs_step.induct)
  case (m_finished h)
  then show ?case using spc_cases [of "h_spc h"] by (auto simp: hs_inv_def hs_locks_def)
next
  case (m_insert h)
  then show ?case using spc_cases [of "h_spc h"] by (auto simp: hs_inv_def hs_locks_def)
next
  case (m_done h)
  then show ?case using spc_cases [of "h_spc h"] by (auto simp: hs_inv_def hs_locks_def)
qed (auto simp: hs_inv_def hs_locks_def split: if_splits)

lemma hs_inv_reachable: "hs_reachable False h \<Longrightarrow> hs_inv h"
proof (induction rule: hs_reachable.induct)
  case (init grey)
  show ?case by (simp add: hs_inv_def hs_locks_def hs_init_def)
qed (rule hs_inv_step)

section \<open>Guarantees\<close>

text \<open>C5: As long as the scanner's condition wait never returns without a signal, which POSIX would
  permit: while the interpreter turns the treadmill and marks the roots, the scanner sleeps (it waits
  on the guard or is about to) and does not hold the mutex, and when the turning begins there is no
  grey cell left: the two threads never work on the list at the same time during a flip, however
  many grey cells there were at the start.\<close>

theorem flip_exclusive:
  assumes "hs_reachable False h" and "working (h_mpc h)"
  shows "sleeping (h_spc h) \<and> h_active h \<and> h_finished h \<and> h_mutex h \<noteq> Scanner \<and> (h_mpc h = M_Turn \<longrightarrow> h_grey h = 0)"
proof -
  have i: "hs_inv h" by (rule hs_inv_reachable [OF assms(1)])
  then have "sleeping (h_spc h)"
    using spc_cases [of "h_spc h"] assms(2) by (cases "h_mpc h") (auto simp: hs_inv_def split: if_splits)
  moreover from this have "\<not> scanner_holds (h_spc h)" by (cases "h_spc h") simp_all
  ultimately show ?thesis using i assms(2) by (simp add: hs_inv_def hs_locks_def)
qed

text \<open>Runs to a flip and through it, for the witnesses.\<close>

definition hs_turning :: handshake where
  "hs_turning = \<lparr>h_spc = S_PreWait, h_mpc = M_Turn, h_active = True, h_finished = True,
     h_mutex = Nobody, h_guard = True, h_grey = 0\<rparr>"

lemma hs_turning_reachable: "hs_reachable sp hs_turning"
proof -
  have "hs_reachable sp ((hs_init 0)\<lparr>h_mutex := Scanner, h_spc := S_Start\<rparr>)"
    using hs_step.s_lock [of "hs_init 0" sp] hs_reachable.init [of sp 0]
    by (auto simp: hs_init_def intro: hs_reachable.step)
  then have "hs_reachable sp ((hs_init 0)\<lparr>h_mutex := Scanner, h_spc := S_Outer\<rparr>)"
    using hs_step.s_start [of "(hs_init 0)\<lparr>h_mutex := Scanner, h_spc := S_Start\<rparr>" sp]
    by (auto simp: hs_init_def intro: hs_reachable.step)
  then have "hs_reachable sp ((hs_init 0)\<lparr>h_mutex := Scanner, h_spc := S_Outer, h_active := True, h_mpc := M_Spin\<rparr>)"
    using hs_step.m_flip [of "(hs_init 0)\<lparr>h_mutex := Scanner, h_spc := S_Outer\<rparr>" sp]
    by (auto simp: hs_init_def intro: hs_reachable.step)
  then have "hs_reachable sp ((hs_init 0)\<lparr>h_mutex := Scanner, h_spc := S_Guard, h_active := True, h_mpc := M_Spin\<rparr>)"
    using hs_step.s_leave [of "(hs_init 0)\<lparr>h_mutex := Scanner, h_spc := S_Outer, h_active := True, h_mpc := M_Spin\<rparr>" sp]
    by (auto simp: hs_init_def intro: hs_reachable.step)
  then have "hs_reachable sp ((hs_init 0)\<lparr>h_mutex := Scanner, h_spc := S_Unlock, h_active := True, h_mpc := M_Spin,
      h_guard := True\<rparr>)"
    using hs_step.s_guard [of "(hs_init 0)\<lparr>h_mutex := Scanner, h_spc := S_Guard, h_active := True, h_mpc := M_Spin\<rparr>" sp]
    by (auto simp: hs_init_def intro: hs_reachable.step)
  then have "hs_reachable sp ((hs_init 0)\<lparr>h_spc := S_Finish, h_active := True, h_mpc := M_Spin, h_guard := True\<rparr>)"
    using hs_step.s_unlock [of "(hs_init 0)\<lparr>h_mutex := Scanner, h_spc := S_Unlock, h_active := True, h_mpc := M_Spin,
      h_guard := True\<rparr>" sp]
    by (auto simp: hs_init_def intro: hs_reachable.step)
  then have "hs_reachable sp ((hs_init 0)\<lparr>h_spc := S_PreWait, h_active := True, h_mpc := M_Spin, h_guard := True,
      h_finished := True\<rparr>)"
    using hs_step.s_finish [of "(hs_init 0)\<lparr>h_spc := S_Finish, h_active := True, h_mpc := M_Spin, h_guard := True\<rparr>" sp]
    by (auto simp: hs_init_def intro: hs_reachable.step)
  then show ?thesis
    using hs_step.m_finished [of "(hs_init 0)\<lparr>h_spc := S_PreWait, h_active := True, h_mpc := M_Spin, h_guard := True,
      h_finished := True\<rparr>" sp]
    by (auto simp: hs_init_def hs_turning_def intro: hs_reachable.step)
qed

lemma flip_exclusive_witness: "sleeping (h_spc hs_turning) \<and> h_grey hs_turning = 0"
  using flip_exclusive [OF hs_turning_reachable [of False]] by (simp add: hs_turning_def)

text \<open>
  Progress: the number of steps to the end of the flip when the right thread moves: until the scanner
  has finished, until it releases the mutex, until it has left its wait.
\<close>

definition scan_rank :: "handshake \<Rightarrow> nat" where
  "scan_rank h = (case h_spc h of
     S_Init \<Rightarrow> 10 + h_grey h | S_Start \<Rightarrow> 9 + h_grey h | S_Pause \<Rightarrow> 7 + h_grey h | S_Inner \<Rightarrow> 6 + h_grey h
   | S_Yield \<Rightarrow> if h_grey h = 0 then 5 else 8 + h_grey h
   | S_Outer \<Rightarrow> if h_grey h = 0 then 4 else 7 + h_grey h
   | S_Guard \<Rightarrow> 3 | S_Unlock \<Rightarrow> 2 | S_Finish \<Rightarrow> 1 | _ \<Rightarrow> 0)"

definition hold_rank :: "handshake \<Rightarrow> nat" where
  "hold_rank h = (case h_spc h of S_Unguard \<Rightarrow> 5 | S_Start \<Rightarrow> 4 | S_Outer \<Rightarrow> 3 | S_Guard \<Rightarrow> 2
   | S_Unlock \<Rightarrow> 1 | S_Inner \<Rightarrow> 1 | _ \<Rightarrow> 0)"

definition wake_rank :: "handshake \<Rightarrow> nat" where
  "wake_rank h = (case h_spc h of S_PreWait \<Rightarrow> 6 | S_Wait \<Rightarrow> 5 | S_Woken \<Rightarrow> 4 | S_Unguard \<Rightarrow> 3
   | S_Start \<Rightarrow> 2 | _ \<Rightarrow> 0)"

definition flip_rank :: "handshake \<Rightarrow> nat" where
  "flip_rank h = (case h_mpc h of
     M_Run \<Rightarrow> 0 | M_Insert \<Rightarrow> 1 | M_Signal \<Rightarrow> if h_finished h then wake_rank h else 1
   | M_Clear \<Rightarrow> 10 | M_Mark \<Rightarrow> 11 | M_Turn \<Rightarrow> 12 + hold_rank h
   | M_Spin \<Rightarrow> if h_finished h then 18 else 19 + scan_rank h)"

lemmas ranks = flip_rank_def scan_rank_def hold_rank_def wake_rank_def

lemma progressI:
  "hs_step False h h' \<Longrightarrow> flip_rank h' < flip_rank h \<Longrightarrow>
   \<exists>h'. hs_step False h h' \<and> flip_rank h' < flip_rank h"
  by blast

lemma free_mutex: "hs_locks h \<Longrightarrow> \<not> holds (h_mpc h) \<Longrightarrow> \<not> scanner_holds (h_spc h) \<Longrightarrow> h_mutex h = Nobody"
  by (cases "h_mutex h") (auto simp: hs_locks_def)

lemma spin_progress:
  assumes i: "hs_locks h" and m: "h_mpc h = M_Spin" and f: "\<not> h_finished h"
  shows "\<exists>h'. hs_step False h h' \<and> flip_rank h' < flip_rank h"
proof (cases "h_spc h")
  case S_Init
  show ?thesis
    by (rule progressI, rule hs_step.s_lock) (use free_mutex [OF i] S_Init m f in \<open>auto simp: ranks\<close>)
next
  case S_Start
  show ?thesis by (rule progressI, rule hs_step.s_start) (use S_Start m f in \<open>auto simp: ranks\<close>)
next
  case S_Outer
  show ?thesis
  proof (cases "h_grey h = 0")
    case True
    show ?thesis
      by (rule progressI, rule hs_step.s_leave) (use True S_Outer i m f in \<open>auto simp: ranks hs_locks_def\<close>)
  next
    case False
    show ?thesis by (rule progressI, rule hs_step.s_enter) (use False S_Outer m f in \<open>auto simp: ranks\<close>)
  qed
next
  case S_Inner
  show ?thesis
  proof (cases "h_grey h")
    case 0
    show ?thesis by (rule progressI, rule hs_step.s_yield) (use 0 S_Inner m f in \<open>auto simp: ranks\<close>)
  next
    case (Suc g)
    show ?thesis
      by (rule progressI, rule hs_step.s_scan [OF S_Inner Suc, where k = 0])
        (use Suc S_Inner m f in \<open>auto simp: ranks\<close>)
  qed
next
  case S_Pause
  show ?thesis
    by (rule progressI, rule hs_step.s_resume) (use free_mutex [OF i] S_Pause m f in \<open>auto simp: ranks\<close>)
next
  case S_Yield
  show ?thesis
    by (rule progressI, rule hs_step.s_again) (use free_mutex [OF i] S_Yield m f in \<open>auto simp: ranks\<close>)
next
  case S_Guard
  show ?thesis by (rule progressI, rule hs_step.s_guard) (use S_Guard m f in \<open>auto simp: ranks\<close>)
next
  case S_Unlock
  show ?thesis by (rule progressI, rule hs_step.s_unlock) (use S_Unlock m f in \<open>auto simp: ranks\<close>)
next
  case S_Finish
  show ?thesis by (rule progressI, rule hs_step.s_finish) (use S_Finish m f in \<open>auto simp: ranks\<close>)
qed (use assms in \<open>auto simp: hs_locks_def\<close>)

lemma turn_progress:
  assumes i: "hs_locks h" and m: "h_mpc h = M_Turn"
  shows "\<exists>h'. hs_step False h h' \<and> flip_rank h' < flip_rank h"
proof (cases "h_mutex h = Nobody")
  case True
  show ?thesis by (rule progressI, rule hs_step.m_turn) (use True m in \<open>auto simp: ranks\<close>)
next
  case False
  then have "scanner_holds (h_spc h)" using free_mutex [OF i] m by auto
  then consider "h_spc h = S_Start" | "h_spc h = S_Outer" | "h_spc h = S_Inner" | "h_spc h = S_Guard"
    | "h_spc h = S_Unlock" | "h_spc h = S_Unguard" by (cases "h_spc h") simp_all
  then show ?thesis
  proof cases
    case 1
    show ?thesis by (rule progressI, rule hs_step.s_start) (use 1 m in \<open>auto simp: ranks\<close>)
  next
    case 2
    show ?thesis
    proof (cases "h_grey h = 0")
      case True
      show ?thesis by (rule progressI, rule hs_step.s_leave) (use True 2 i m in \<open>auto simp: ranks hs_locks_def\<close>)
    next
      case False
      show ?thesis by (rule progressI, rule hs_step.s_enter) (use False 2 m in \<open>auto simp: ranks\<close>)
    qed
  next
    case 3
    show ?thesis
    proof (cases "h_grey h")
      case 0
      show ?thesis by (rule progressI, rule hs_step.s_yield) (use 0 3 m in \<open>auto simp: ranks\<close>)
    next
      case (Suc g)
      show ?thesis
        by (rule progressI, rule hs_step.s_pause [OF 3 Suc, where k = 0]) (use 3 m in \<open>auto simp: ranks\<close>)
    qed
  next
    case 4
    show ?thesis by (rule progressI, rule hs_step.s_guard) (use 4 m in \<open>auto simp: ranks\<close>)
  next
    case 5
    show ?thesis by (rule progressI, rule hs_step.s_unlock) (use 5 m in \<open>auto simp: ranks\<close>)
  next
    case 6
    show ?thesis by (rule progressI, rule hs_step.s_unguard) (use 6 m in \<open>auto simp: ranks\<close>)
  qed
qed

lemma signal_progress:
  assumes i: "hs_locks h" and m: "h_mpc h = M_Signal" and f: "h_finished h"
  shows "\<exists>h'. hs_step False h h' \<and> flip_rank h' < flip_rank h"
proof (cases "h_spc h")
  case S_Start
  show ?thesis by (rule progressI, rule hs_step.s_start) (use S_Start m f in \<open>auto simp: ranks\<close>)
next
  case S_PreWait
  show ?thesis by (rule progressI, rule hs_step.s_wait) (use S_PreWait m f in \<open>auto simp: ranks\<close>)
next
  case S_Wait
  show ?thesis by (rule progressI, rule hs_step.m_signal) (use S_Wait m f in \<open>auto simp: ranks\<close>)
next
  case S_Woken
  show ?thesis
    by (rule progressI, rule hs_step.s_relock) (use free_mutex [OF i] S_Woken m f in \<open>auto simp: ranks\<close>)
next
  case S_Unguard
  show ?thesis by (rule progressI, rule hs_step.s_unguard) (use S_Unguard m f in \<open>auto simp: ranks\<close>)
qed (use assms in \<open>auto simp: hs_locks_def\<close>)

lemma flip_progress:
  assumes i: "hs_locks h" and m: "h_mpc h \<noteq> M_Run"
  shows "\<exists>h'. hs_step False h h' \<and> flip_rank h' < flip_rank h"
proof (cases "h_mpc h")
  case M_Insert
  show ?thesis
    by (rule progressI, rule hs_step.m_inserted [OF M_Insert, where k = 0]) (use M_Insert in \<open>auto simp: ranks\<close>)
next
  case M_Spin
  show ?thesis
  proof (cases "h_finished h")
    case True
    note c = this
    have "hold_rank h' < 6" for h' :: handshake by (simp add: hold_rank_def split: spc.split)
    then show ?thesis
      by (intro progressI [OF hs_step.m_finished [OF M_Spin c]]) (simp add: flip_rank_def M_Spin c)
  qed (rule spin_progress [OF i M_Spin])
next
  case M_Turn
  show ?thesis by (rule turn_progress [OF i M_Turn])
next
  case M_Mark
  note c = this
  show ?thesis by (rule progressI, rule hs_step.m_marked) (use c in \<open>auto simp: ranks\<close>)
next
  case M_Clear
  have "wake_rank h' < 10" for h' :: handshake by (simp add: wake_rank_def split: spc.split)
  then show ?thesis
    by (intro progressI [OF hs_step.m_clear [OF M_Clear]]) (simp add: flip_rank_def M_Clear)
next
  case M_Signal
  show ?thesis
  proof (cases "h_finished h")
    case False
    note c = this
    show ?thesis by (rule progressI, rule hs_step.m_done) (use c M_Signal in \<open>auto simp: ranks\<close>)
  qed (rule signal_progress [OF i M_Signal])
qed (use m in simp)

lemma flip_ends: "hs_locks h \<Longrightarrow> \<exists>h'. (hs_step False)\<^sup>*\<^sup>* h h' \<and> h_mpc h' = M_Run"
proof (induction "flip_rank h" arbitrary: h rule: less_induct)
  case less
  show ?case
  proof (cases "h_mpc h = M_Run")
    case False
    from flip_progress [OF less.prems False] obtain h1 where
      s: "hs_step False h h1" "flip_rank h1 < flip_rank h" by blast
    from less.hyps [OF s(2) hs_locks_step [OF s(1) less.prems]] s(1) show ?thesis
      by (blast intro: converse_rtranclp_into_rtranclp)
  qed blast
qed

text \<open>C6: The two threads never deadlock over the mutex, the flags and the condition: from every
  state they can reach, with spurious wake-ups or without, there is a run without further spurious
  wake-ups in which the interpreter is back at work, even if signals were sent before the scanner
  waited.\<close>

theorem flip_completes:
  assumes "hs_reachable spurious h"
  shows "\<exists>h'. (hs_step False)\<^sup>*\<^sup>* h h' \<and> h_mpc h' = M_Run"
  by (rule flip_ends [OF hs_locks_reachable [OF assms]])

lemma flip_completes_witness: "\<exists>h'. (hs_step False)\<^sup>*\<^sup>* hs_turning h' \<and> h_mpc h' = M_Run"
  by (rule flip_completes [OF hs_turning_reachable])

text \<open>The scanner's wait is not in a loop that tests a flag. If the condition variable
  wakes it without a signal, which POSIX and C++ permit, it scans while the interpreter turns the
  treadmill.\<close>

theorem spurious_wakeup_overlaps:
  "\<exists>h. hs_reachable True h \<and> h_mpc h = M_Turn \<and> h_spc h = S_Outer \<and> h_mutex h = Scanner"
proof -
  let ?h = "hs_turning\<lparr>h_guard := False, h_spc := S_Wait\<rparr>"
  have "hs_reachable True ?h"
    using hs_reachable.step [OF hs_turning_reachable hs_step.s_wait [of hs_turning True]]
    by (simp add: hs_turning_def)
  from hs_reachable.step [OF this hs_step.s_spurious]
  have "hs_reachable True (hs_turning\<lparr>h_guard := True, h_spc := S_Woken\<rparr>)" by (simp add: hs_turning_def)
  from hs_reachable.step [OF this hs_step.s_relock]
  have "hs_reachable True (hs_turning\<lparr>h_guard := True, h_mutex := Scanner, h_spc := S_Unguard\<rparr>)"
    by (simp add: hs_turning_def)
  from hs_reachable.step [OF this hs_step.s_unguard]
  have "hs_reachable True (hs_turning\<lparr>h_guard := False, h_mutex := Scanner, h_spc := S_Start\<rparr>)"
    by (simp add: hs_turning_def)
  from hs_reachable.step [OF this hs_step.s_start]
  have "hs_reachable True (hs_turning\<lparr>h_guard := False, h_mutex := Scanner, h_finished := False, h_spc := S_Outer\<rparr>)"
    by (simp add: hs_turning_def)
  then show ?thesis by (intro exI conjI) (auto simp: hs_turning_def)
qed

end
