(* ===== verification/Zones.thy ===== *)
theory Zones
  imports Ext_Prelude
begin

unbundle bit_operations_syntax

text \<open>
  The zone allocator of \<open>src/EXTZones.cpp\<close>: bump allocation in 32-byte steps with the size of
  each block stored in front of it, extension of a full zone by a new segment, the test whether a
  pointer lies in a zone, the copy of a block over another, the per-thread stack of zones and the
  callback zone. Memory is a byte map with the list of live heap blocks; \<open>posix_memalign\<close> is the
  parameter \<open>ma\<close>, which gives the address for a memory and a size (0 for failure).
\<close>

section \<open>Memory\<close>

record zmem =
  zm_byte :: "addr \<Rightarrow> 8 word"
  zm_blocks :: "(addr \<times> nat) list"

text \<open>A zone; \<open>z_memories\<close> lists the memory and size of the zones behind \<open>memories\<close>.\<close>

record zone =
  z_memory :: addr
  z_offset :: "64 word"
  z_size :: "64 word"
  z_memories :: "(addr \<times> 64 word) list"

definition memset :: "zmem \<Rightarrow> addr \<Rightarrow> 8 word \<Rightarrow> nat \<Rightarrow> zmem" where
  "memset m p c n = m\<lparr>zm_byte := (\<lambda>q. if p \<le> q \<and> q < p + n then c else zm_byte m q)\<rparr>"

definition memcpy :: "zmem \<Rightarrow> addr \<Rightarrow> addr \<Rightarrow> nat \<Rightarrow> zmem" where
  "memcpy m dst src n =
     m\<lparr>zm_byte := (\<lambda>q. if dst \<le> q \<and> q < dst + n then zm_byte m (src + (q - dst)) else zm_byte m q)\<rparr>"

text \<open>A \<open>uint64_t\<close> in memory, least significant byte first.\<close>

definition store64 :: "zmem \<Rightarrow> addr \<Rightarrow> 64 word \<Rightarrow> zmem" where
  "store64 m p w = m\<lparr>zm_byte := (\<lambda>q. if p \<le> q \<and> q < p + 8 then ucast (drop_bit (8 * (q - p)) w)
     else zm_byte m q)\<rparr>"

definition load64 :: "zmem \<Rightarrow> addr \<Rightarrow> 64 word" where
  "load64 m p = foldr (\<lambda>i acc. push_bit 8 acc OR ucast (zm_byte m (p + i))) [0 ..< 8] 0"

definition memalign :: "(zmem \<Rightarrow> nat \<Rightarrow> addr) \<Rightarrow> zmem \<Rightarrow> nat \<Rightarrow> zmem \<times> addr" where
  "memalign ma m n =
     (let a = ma m n in (if a = 0 then m else m\<lparr>zm_blocks := (a, n) # zm_blocks m\<rparr>, a))"

definition mem_free :: "zmem \<Rightarrow> addr \<Rightarrow> zmem" where
  "mem_free m a = m\<lparr>zm_blocks := [b \<leftarrow> zm_blocks m. fst b \<noteq> a]\<rparr>"

section \<open>Zones\<close>

text \<open>Both constants are \<open>unsigned\<close>, of 32 bits: the complement of the padding, taken before it
  widens to the 64 bits of a size, has no bit from 32 on.\<close>

definition LLVM_ZONE_ALIGN :: "32 word" where
  "LLVM_ZONE_ALIGN = 32"

definition LLVM_ZONE_ALIGNPAD :: "32 word" where
  "LLVM_ZONE_ALIGNPAD = LLVM_ZONE_ALIGN - 1"

definition llvm_zone_create :: "(zmem \<Rightarrow> nat \<Rightarrow> addr) \<Rightarrow> zmem \<Rightarrow> 64 word \<Rightarrow> zmem \<times> zone" where
  "llvm_zone_create ma m sz =
     (let (m1, a) = memalign ma m (unat sz)
      in (m1, \<lparr>z_memory = a, z_offset = 0, z_size = (if a = 0 then 0 else sz), z_memories = []\<rparr>))"

definition llvm_zone_destroy :: "zmem \<Rightarrow> zone \<Rightarrow> zmem" where
  "llvm_zone_destroy m z =
     mem_free (foldl (\<lambda>m s. mem_free m (fst s)) m (rev (z_memories z))) (z_memory z)"

definition llvm_zone_reset :: "zone \<Rightarrow> zone" where
  "llvm_zone_reset z = z\<lparr>z_offset := 0\<rparr>"

text \<open>
  Extending a zone: its size becomes twice the larger of its size and the request, at least 1024,
  and the old memory moves to \<open>memories\<close> with a sz that went through an \<open>int\<close>.
\<close>

definition extend_zone :: "(zmem \<Rightarrow> nat \<Rightarrow> addr) \<Rightarrow> zmem \<Rightarrow> zone \<Rightarrow> 64 word \<Rightarrow> zmem \<times> zone" where
  "extend_zone ma m zone sz =
     (let old_zone_size = (ucast (z_size zone) :: 32 word);
          iszero = (z_size zone = 0);
          sz1 = (if sz > z_size zone then sz else z_size zone);
          sz2 = sz1 * 2;
          sz3 = (if sz2 < 1024 then 1024 else sz2);
          (m1, newzone) = llvm_zone_create ma m sz3;
          z1 = zone\<lparr>z_size := sz3, z_memory := z_memory newzone\<rparr>;
          z2 = (if iszero then z1
                else z1\<lparr>z_memories := (z_memory zone, scast old_zone_size) # z_memories zone\<rparr>)
      in (m1, llvm_zone_reset z2))"

definition llvm_zone_malloc ::
  "(zmem \<Rightarrow> nat \<Rightarrow> addr) \<Rightarrow> zmem \<Rightarrow> zone \<Rightarrow> 64 word \<Rightarrow> zmem \<times> zone \<times> addr" where
  "llvm_zone_malloc ma m zone size0 =
     (let sz = size0 + ucast LLVM_ZONE_ALIGN;
          (m1, z1) = (if z_offset zone + sz \<ge> z_size zone then extend_zone ma m zone sz
                      else (m, zone));
          sz = (sz + ucast LLVM_ZONE_ALIGNPAD) AND ucast (NOT LLVM_ZONE_ALIGNPAD);
          newptr = z_memory z1 + unat (z_offset z1);
          m2 = memset m1 newptr 0 (unat sz);
          newptr = newptr + unat LLVM_ZONE_ALIGN;
          m3 = store64 m2 (newptr - 8) sz
      in (m3, z1\<lparr>z_offset := z_offset z1 + sz\<rparr>, newptr))"

definition llvm_zone_ptr_size :: "zmem \<Rightarrow> addr \<Rightarrow> 64 word" where
  "llvm_zone_ptr_size m p = load64 m (p - 8)"

text \<open>\<open>True\<close> is the error result.\<close>

definition llvm_zone_copy_ptr :: "zmem \<Rightarrow> addr \<Rightarrow> addr \<Rightarrow> zmem \<times> bool" where
  "llvm_zone_copy_ptr m ptr1 ptr2 =
     (let size1 = llvm_zone_ptr_size m ptr1;
          size2 = llvm_zone_ptr_size m ptr2
      in if size1 \<noteq> size2 then (m, True)
         else if size1 = 0 then (m, True)
         else (memcpy m ptr2 ptr1 (unat size1), False))"

fun ptr_in_segments :: "(addr \<times> 64 word) list \<Rightarrow> addr \<Rightarrow> bool" where
  "ptr_in_segments [] p = False"
| "ptr_in_segments ((a, n) # ss) p =
     (if p < a \<or> p \<ge> a + unat n then ptr_in_segments ss p else True)"

definition llvm_ptr_in_zone :: "zone \<Rightarrow> addr \<Rightarrow> bool" where
  "llvm_ptr_in_zone z p = ptr_in_segments ((z_memory z, z_size z) # z_memories z) p"

definition llvm_zone_total_size :: "zone \<Rightarrow> 64 word \<times> nat" where
  "llvm_zone_total_size z = (foldl (\<lambda>t s. t + snd s) (z_size z) (z_memories z), Suc (length (z_memories z)))"

section \<open>The zone stack and the callback zone of a thread\<close>

text \<open>
  Zones on the stack are named by an identifier (their address); \<open>zt_zones\<close> is the store of
  zones, \<open>zt_next\<close> the address the next zone gets.
\<close>

record zthread =
  zt_mem :: zmem
  zt_zones :: "nat \<Rightarrow> zone"
  zt_next :: nat
  zt_stack :: "nat list"
  zt_callback :: "nat option"

definition create_in :: "(zmem \<Rightarrow> nat \<Rightarrow> addr) \<Rightarrow> zthread \<Rightarrow> 64 word \<Rightarrow> zthread \<times> nat" where
  "create_in ma t sz =
     (let (m, z) = llvm_zone_create ma (zt_mem t) sz
      in (t\<lparr>zt_mem := m, zt_zones := (zt_zones t)(zt_next t := z), zt_next := Suc (zt_next t)\<rparr>,
          zt_next t))"

definition llvm_push_zone_stack :: "zthread \<Rightarrow> nat \<Rightarrow> zthread" where
  "llvm_push_zone_stack t z = t\<lparr>zt_stack := z # zt_stack t\<rparr>"

definition llvm_peek_zone_stack :: "(zmem \<Rightarrow> nat \<Rightarrow> addr) \<Rightarrow> zthread \<Rightarrow> zthread \<times> nat" where
  "llvm_peek_zone_stack ma t =
     (case zt_stack t of
        [] \<Rightarrow> (let (t1, z) = create_in ma t (1024 * 1024 * 1) in (llvm_push_zone_stack t1 z, z))
      | z # _ \<Rightarrow> (t, z))"

definition llvm_pop_zone_stack :: "zthread \<Rightarrow> zthread \<times> nat option" where
  "llvm_pop_zone_stack t =
     (case zt_stack t of [] \<Rightarrow> (t, None) | z # zs \<Rightarrow> (t\<lparr>zt_stack := zs\<rparr>, Some z))"

definition llvm_zone_malloc_from_current_zone ::
  "(zmem \<Rightarrow> nat \<Rightarrow> addr) \<Rightarrow> zthread \<Rightarrow> 64 word \<Rightarrow> zthread \<times> addr" where
  "llvm_zone_malloc_from_current_zone ma t sz =
     (let (t1, z) = llvm_peek_zone_stack ma t;
          (m, zn, p) = llvm_zone_malloc ma (zt_mem t1) (zt_zones t1 z) sz
      in (t1\<lparr>zt_mem := m, zt_zones := (zt_zones t1)(z := zn)\<rparr>, p))"

definition llvm_ptr_in_current_zone :: "(zmem \<Rightarrow> nat \<Rightarrow> addr) \<Rightarrow> zthread \<Rightarrow> addr \<Rightarrow> zthread \<times> bool" where
  "llvm_ptr_in_current_zone ma t p =
     (let (t1, z) = llvm_peek_zone_stack ma t in (t1, llvm_ptr_in_zone (zt_zones t1 z) p))"

definition llvm_threads_get_callback_zone :: "(zmem \<Rightarrow> nat \<Rightarrow> addr) \<Rightarrow> zthread \<Rightarrow> zthread \<times> nat" where
  "llvm_threads_get_callback_zone ma t =
     (case zt_callback t of
        None \<Rightarrow> (let (t1, z) = create_in ma t (1024 * 1024) in (t1\<lparr>zt_callback := Some z\<rparr>, z))
      | Some z \<Rightarrow> (t, z))"

definition llvm_zone_callback_setup :: "(zmem \<Rightarrow> nat \<Rightarrow> addr) \<Rightarrow> zthread \<Rightarrow> zthread \<times> nat" where
  "llvm_zone_callback_setup ma t =
     (let (t1, z) = llvm_threads_get_callback_zone ma t;
          t2 = llvm_push_zone_stack t1 z
      in (t2\<lparr>zt_zones := (zt_zones t2)(z := llvm_zone_reset (zt_zones t2 z))\<rparr>, z))"

section \<open>Memory lemmas\<close>

lemma byte_of_word:
  fixes w :: "64 word"
  shows "foldr (\<lambda>i acc. push_bit 8 acc OR ucast (ucast (drop_bit (8 * i) w) :: 8 word)) [0 ..< 8] 0 = w"
proof (rule bit_word_eqI)
  fix n assume n: "n < LENGTH(64)"
  have u: "[0 ..< 8] = [0, 1, 2, 3, 4, 5, 6, 7 :: nat]" by (simp add: upt_rec)
  have "n < 64" using n by simp
  then consider "n < 8" | "8 \<le> n \<and> n < 16" | "16 \<le> n \<and> n < 24" | "24 \<le> n \<and> n < 32" | "32 \<le> n \<and> n < 40"
    | "40 \<le> n \<and> n < 48" | "48 \<le> n \<and> n < 56" | "56 \<le> n \<and> n < 64" by linarith
  then show "bit (foldr (\<lambda>i acc. push_bit 8 acc OR ucast (ucast (drop_bit (8 * i) w) :: 8 word)) [0 ..< 8] 0 :: 64 word) n = bit w n"
    unfolding u by cases (simp_all add: bit_simps less_diff_conv2)
qed

lemma foldr_upt_cong: "(\<And>i. i < n \<Longrightarrow> f i = g i) \<Longrightarrow> foldr f [0 ..< n] a = foldr g [0 ..< n] a"
  by (rule foldr_cong) auto

lemma load_store64: "load64 (store64 m p w) p = w"
proof -
  have "load64 (store64 m p w) p =
      foldr (\<lambda>i acc. push_bit 8 acc OR ucast (ucast (drop_bit (8 * i) w) :: 8 word)) [0 ..< 8] 0"
    unfolding load64_def by (rule foldr_upt_cong) (simp add: store64_def)
  then show ?thesis by (simp only: byte_of_word)
qed

lemma load64_cong: "(\<And>i. i < 8 \<Longrightarrow> zm_byte m (p + i) = zm_byte m' (p + i)) \<Longrightarrow> load64 m p = load64 m' p"
  unfolding load64_def by (rule foldr_upt_cong) simp

lemma store64_other: "q < p \<or> p + 8 \<le> q \<Longrightarrow> zm_byte (store64 m p w) q = zm_byte m q"
  by (auto simp: store64_def)

section \<open>Rounding\<close>

definition round_up :: "nat \<Rightarrow> nat" where
  "round_up n = (n + 31) div 32 * 32"

lemma round_up_bounds: "n \<le> round_up n" "round_up n < n + 32" "round_up n mod 32 = 0"
proof -
  have "(n + 31) div 32 * 32 + (n + 31) mod 32 = n + 31" by simp
  moreover have "(n + 31) mod 32 < 32" by simp
  ultimately show "n \<le> round_up n" "round_up n < n + 32" unfolding round_up_def by linarith+
qed (simp add: round_up_def)

lemma and_pad_mask: "unat (w :: 64 word) < 2 ^ 32 \<Longrightarrow>
  w AND ucast (NOT (31 :: 32 word)) = push_bit 5 (drop_bit 5 w)"
proof (rule bit_word_eqI)
  fix n assume w: "unat w < 2 ^ 32" and n: "n < LENGTH(64)"
  have m: "(31 :: 32 word) = mask 5" by (simp add: mask_eq_exp_minus_1)
  have "unat (take_bit 32 w) = unat w" using w by (simp add: take_bit_eq_mod unat_mod)
  then have "take_bit 32 w = w" by (rule word_unat_eq_iff [THEN iffD2])
  then have high: "bit w n \<Longrightarrow> n < 32" using bit_take_bit_iff [of 32 w n] by simp
  show "bit (w AND ucast (NOT (31 :: 32 word))) n = bit (push_bit 5 (drop_bit 5 w)) n"
    unfolding m using n high by (auto simp: bit_simps)
qed

lemma alignpad: "LLVM_ZONE_ALIGNPAD = 31"
  by (simp add: LLVM_ZONE_ALIGNPAD_def LLVM_ZONE_ALIGN_def)

lemma align [simp]: "unat LLVM_ZONE_ALIGN = 32"
  by (simp add: LLVM_ZONE_ALIGN_def)

lemma unat_round_up:
  fixes w :: "64 word"
  assumes "unat w + 31 < 2 ^ 32"
  shows "unat ((w + ucast LLVM_ZONE_ALIGNPAD) AND ucast (NOT LLVM_ZONE_ALIGNPAD)) = round_up (unat w)"
proof -
  have a: "unat (w + 31) = unat w + 31" using assms by (simp add: unat_word_ariths)
  then have m: "(w + 31) AND ucast (NOT (31 :: 32 word)) = push_bit 5 (drop_bit 5 (w + 31))"
    using assms by (intro and_pad_mask) simp
  have "unat (push_bit 5 (drop_bit 5 (w + 31))) = unat (drop_bit 5 (w + 31)) * 32 mod 2 ^ 64"
    by (simp add: push_bit_eq_mult unat_word_ariths mult.commute)
  also have "unat (drop_bit 5 (w + 31)) = (unat w + 31) div 32"
    by (simp add: drop_bit_eq_div unat_div a)
  also have "(unat w + 31) div 32 * 32 mod 2 ^ 64 = (unat w + 31) div 32 * 32"
    by (rule mod_less, rule order_le_less_trans [OF div_times_less_eq_dividend]) (use assms in simp)
  finally have "unat ((w + 31) AND ucast (NOT (31 :: 32 word))) = round_up (unat w)"
    by (simp only: m round_up_def)
  then show ?thesis by (simp add: alignpad)
qed

section \<open>Allocation\<close>

definition zone_ok :: "zone \<Rightarrow> bool" where
  "zone_ok z \<longleftrightarrow> z_memory z mod 32 = 0 \<and> unat (z_offset z) mod 32 = 0 \<and>
     unat (z_offset z) \<le> unat (z_size z) + 31 \<and> unat (z_size z) < 2 ^ 61"

text \<open>What \<open>posix_memalign\<close> documents of a successful call; the calls are assumed to succeed.\<close>

definition aligned :: "(zmem \<Rightarrow> nat \<Rightarrow> addr) \<Rightarrow> bool" where
  "aligned ma \<longleftrightarrow> (\<forall>m n. ma m n \<noteq> 0 \<and> ma m n mod 32 = 0)"

definition block_size :: "64 word \<Rightarrow> nat" where
  "block_size req = round_up (unat req + 32)"

lemma extend_zone_result:
  assumes z: "zone_ok z" and s: "32 \<le> unat sz" "unat sz < 2 ^ 61" and ma: "aligned ma"
    and e: "extend_zone ma m z sz = (m1, z1)"
  shows "zone_ok (z1\<lparr>z_size := 0\<rparr>)" "z_offset z1 = 0" "z_memory z1 = ma m (unat (z_size z1))"
    "unat (z_size z1) = max (2 * max (unat sz) (unat (z_size z))) 1024"
    "zm_byte m1 = zm_byte m"
    "z_memories z1 = (if z_size z = 0 then z_memories z
       else (z_memory z, scast (ucast (z_size z) :: 32 word)) # z_memories z)"
proof -
  define M where "M = (if sz > z_size z then sz else z_size z)"
  have M: "unat M = max (unat sz) (unat (z_size z))"
    by (auto simp: M_def word_less_nat_alt max_def)
  then have lt: "unat M < 2 ^ 61" using s z by (auto simp: zone_ok_def)
  have m2: "unat (M * 2) = 2 * unat M" using lt by (simp add: unat_word_ariths)
  let ?S = "if M * 2 < 1024 then 1024 else M * 2"
  have c: "M * 2 < 1024 \<longleftrightarrow> 2 * unat M < 1024" by (simp add: word_less_nat_alt m2)
  have S: "unat ?S = max (2 * max (unat sz) (unat (z_size z))) 1024"
    unfolding M [symmetric]
  proof (cases "M * 2 < 1024")
    case True
    then show "unat ?S = max (2 * unat M) 1024" using c by simp
  next
    case False
    then have "\<not> 2 * unat M < 1024" using c by simp
    with False show "unat ?S = max (2 * unat M) 1024" by (simp only: if_False m2 max_def) simp
  qed
  have a: "ma m (unat ?S) \<noteq> 0" "ma m (unat ?S) mod 32 = 0" using ma by (simp_all add: aligned_def)
  have z1: "z1 = llvm_zone_reset (if z_size z = 0 then z\<lparr>z_size := ?S, z_memory := ma m (unat ?S)\<rparr>
      else z\<lparr>z_size := ?S, z_memory := ma m (unat ?S),
        z_memories := (z_memory z, scast (ucast (z_size z) :: 32 word)) # z_memories z\<rparr>)"
    and m1: "zm_byte m1 = zm_byte m"
    using e a unfolding M_def by (auto simp: extend_zone_def llvm_zone_create_def memalign_def Let_def)
  have sz: "z_size z1 = ?S" "z_offset z1 = 0" "z_memory z1 = ma m (unat ?S)"
    unfolding z1 llvm_zone_reset_def by simp_all
  show "zone_ok (z1\<lparr>z_size := 0\<rparr>)" using a(2) by (simp add: zone_ok_def sz)
  show "z_offset z1 = 0" "z_memory z1 = ma m (unat (z_size z1))" by (simp_all only: sz)
  show "unat (z_size z1) = max (2 * max (unat sz) (unat (z_size z))) 1024" by (simp only: sz S)
  show "zm_byte m1 = zm_byte m" by (rule m1)
  show "z_memories z1 = (if z_size z = 0 then z_memories z
       else (z_memory z, scast (ucast (z_size z) :: 32 word)) # z_memories z)"
    unfolding z1 llvm_zone_reset_def by simp
qed

text \<open>The state in which the block is cut off, whether the zone was extended or not.\<close>

definition room_zone :: "(zmem \<Rightarrow> nat \<Rightarrow> addr) \<Rightarrow> zmem \<Rightarrow> zone \<Rightarrow> 64 word \<Rightarrow> zmem \<times> zone" where
  "room_zone ma m z sz = (if z_offset z + sz \<ge> z_size z then extend_zone ma m z sz else (m, z))"

lemma room_zone_result:
  assumes z: "zone_ok z" and s: "32 \<le> unat sz" "unat sz < 2 ^ 61" and ma: "aligned ma"
    and e: "room_zone ma m z sz = (m1, z1)"
  shows "z_memory z1 mod 32 = 0" "unat (z_offset z1) mod 32 = 0"
    "unat (z_offset z1) + unat sz < unat (z_size z1)" "zm_byte m1 = zm_byte m"
    "unat (z_size z1) < 2 ^ 62"
proof -
  have o: "unat (z_offset z + sz) = unat (z_offset z) + unat sz"
    using z s by (simp add: zone_ok_def unat_word_ariths)
  have "z_memory z1 mod 32 = 0 \<and> unat (z_offset z1) mod 32 = 0 \<and>
    unat (z_offset z1) + unat sz < unat (z_size z1) \<and> zm_byte m1 = zm_byte m \<and>
    unat (z_size z1) < 2 ^ 62"
  proof (cases "z_offset z + sz \<ge> z_size z")
    case True
    then have x: "extend_zone ma m z sz = (m1, z1)" using e by (simp add: room_zone_def)
    note r = extend_zone_result [OF z s ma x]
    have "unat (z_size z) < 2 ^ 61" using z by (simp add: zone_ok_def)
    then have "unat (z_size z1) < 2 ^ 62" "unat sz < unat (z_size z1)"
      using s unfolding r(4) by (auto simp: max_def)
    then show ?thesis using r(1,2,5) by (simp add: zone_ok_def)
  next
    case False
    then have "z1 = z" "m1 = m" using e by (simp_all add: room_zone_def)
    moreover have "unat (z_offset z) + unat sz < unat (z_size z)"
      using False o by (simp add: word_le_nat_alt)
    ultimately show ?thesis using z by (simp add: zone_ok_def)
  qed
  then show "z_memory z1 mod 32 = 0" "unat (z_offset z1) mod 32 = 0"
    "unat (z_offset z1) + unat sz < unat (z_size z1)" "zm_byte m1 = zm_byte m"
    "unat (z_size z1) < 2 ^ 62" by simp_all
qed

lemma malloc_result:
  assumes z: "zone_ok z" and s: "unat req + 64 \<le> 2 ^ 32" and ma: "aligned ma"
    and r: "room_zone ma m z (req + ucast LLVM_ZONE_ALIGN) = (m1, z1)"
    and c: "llvm_zone_malloc ma m z req = (m', z', p)"
  shows "p = z_memory z1 + unat (z_offset z1) + 32"
    and "unat (z_offset z') = unat (z_offset z1) + block_size req"
    and "z' = z1\<lparr>z_offset := z_offset z'\<rparr>"
    and "unat req + 32 = unat (req + ucast LLVM_ZONE_ALIGN)"
    and "llvm_zone_ptr_size m' p = of_nat (block_size req)"
    and "\<forall>q. p \<le> q \<and> q + 32 < p + block_size req \<longrightarrow> zm_byte m' q = 0"
    and "\<forall>q. q + 32 < p \<or> p + block_size req \<le> q + 32 \<longrightarrow> zm_byte m' q = zm_byte m q"
proof -
  let ?sz = "req + ucast LLVM_ZONE_ALIGN"
  let ?b = "(?sz + ucast LLVM_ZONE_ALIGNPAD) AND ucast (NOT LLVM_ZONE_ALIGNPAD)"
  show sz: "unat req + 32 = unat ?sz" using s by (simp add: LLVM_ZONE_ALIGN_def unat_word_ariths)
  have b: "unat ?b = block_size req"
    using unat_round_up [of ?sz] sz s by (simp add: block_size_def)
  have bb: "32 \<le> block_size req" "block_size req < unat req + 64"
    using round_up_bounds [of "unat req + 32"] by (simp_all add: block_size_def)
  have s61: "32 \<le> unat ?sz" "unat ?sz < 2 ^ 61" using sz s by simp_all
  note rr = room_zone_result [OF z s61 ma r]
  define np where "np = z_memory z1 + unat (z_offset z1)"
  have "llvm_zone_malloc ma m z req =
      (store64 (memset m1 np 0 (unat ?b)) (np + unat LLVM_ZONE_ALIGN - 8) ?b,
       z1\<lparr>z_offset := z_offset z1 + ?b\<rparr>, np + unat LLVM_ZONE_ALIGN)"
    using r by (simp add: llvm_zone_malloc_def Let_def room_zone_def np_def split_beta)
  with c have e: "m' = store64 (memset m1 np 0 (block_size req)) (24 + np) ?b"
    "z' = z1\<lparr>z_offset := z_offset z1 + ?b\<rparr>" "p = np + 32"
    by (auto simp: b)
  show "p = z_memory z1 + unat (z_offset z1) + 32" by (simp add: e np_def)
  have "unat (z_offset z1) + block_size req < 2 ^ 64" using rr(3,5) bb s by simp
  then show "unat (z_offset z') = unat (z_offset z1) + block_size req"
    by (simp add: e b unat_word_ariths)
  show "z' = z1\<lparr>z_offset := z_offset z'\<rparr>" by (simp add: e)
  have "load64 (store64 (memset m1 np 0 (block_size req)) (24 + np) ?b) (24 + np) = ?b"
    by (rule load_store64)
  then show "llvm_zone_ptr_size m' p = of_nat (block_size req)"
    by (simp add: e llvm_zone_ptr_size_def flip: b)
  show "\<forall>q. p \<le> q \<and> q + 32 < p + block_size req \<longrightarrow> zm_byte m' q = 0"
    by (auto simp: e store64_other memset_def)
  show "\<forall>q. q + 32 < p \<or> p + block_size req \<le> q + 32 \<longrightarrow> zm_byte m' q = zm_byte m q"
    using bb rr(4) by (auto simp: e store64_other memset_def)
qed

section \<open>Guarantees\<close>

text \<open>A concrete \<open>posix_memalign\<close> for the witnesses: the next multiple of 32 behind the last block.\<close>

definition bump :: "zmem \<Rightarrow> nat \<Rightarrow> addr" where
  "bump m n = (case zm_blocks m of [] \<Rightarrow> 32 | b # _ \<Rightarrow> ((fst b + snd b) div 32 + 1) * 32)"

lemma bump_aligned: "aligned bump"
  by (auto simp: aligned_def bump_def split: list.split)

definition mem0 :: zmem where
  "mem0 = \<lparr>zm_byte = (\<lambda>_. 0), zm_blocks = []\<rparr>"

definition zone0 :: zone where
  "zone0 = snd (llvm_zone_create bump mem0 1024)"

lemma zone0: "zone_ok zone0" "z_size zone0 = 1024" "z_memory zone0 = 32" "z_offset zone0 = 0"
  by (simp_all add: zone0_def llvm_zone_create_def memalign_def Let_def bump_def mem0_def zone_ok_def)

text \<open>C23: For a request of at most 2^32 - 64 bytes to a well-formed zone of less than 2^61 bytes,
  when \<open>posix_memalign\<close> does not fail, \<open>llvm_zone_malloc\<close> returns a 32-byte aligned pointer with room
  for the request inside the zone's memory, extending the zone when it is full, clears that room,
  records the block's size in front of it and changes no byte outside the block; the next block
  begins behind it.\<close>

theorem zone_malloc_correct:
  assumes "zone_ok z" and "unat req + 64 \<le> 2 ^ 32" and "aligned ma"
    and "llvm_zone_malloc ma m z req = (m', z', p)"
  shows "p mod 32 = 0 \<and> z_memory z' + 32 \<le> p \<and> p + unat req \<le> z_memory z' + unat (z_size z') \<and>
    p + block_size req = z_memory z' + unat (z_offset z') + 32 \<and>
    unat req + 32 \<le> block_size req \<and> llvm_zone_ptr_size m' p = of_nat (block_size req) \<and>
    (\<forall>q \<in> {p ..< p + unat req}. zm_byte m' q = 0) \<and>
    (\<forall>q. q \<notin> {p - 32 ..< p - 32 + block_size req} \<longrightarrow> zm_byte m' q = zm_byte m q)"
proof -
  obtain m1 z1 where r: "room_zone ma m z (req + ucast LLVM_ZONE_ALIGN) = (m1, z1)" by force
  note mr = malloc_result [OF assms(1-3) r assms(4)]
  have "32 \<le> unat (req + ucast LLVM_ZONE_ALIGN)" "unat (req + ucast LLVM_ZONE_ALIGN) < 2 ^ 61"
    using mr(4) assms(2) by simp_all
  note rr = room_zone_result [OF assms(1) this assms(3) r]
  have z': "z_memory z' = z_memory z1" "z_size z' = z_size z1" by (subst mr(3), simp)+
  have "p mod 32 = 0" using rr(1,2) mr(1) by presburger
  moreover have "z_memory z' + 32 \<le> p" by (simp add: mr(1) z')
  moreover have "p + unat req \<le> z_memory z' + unat (z_size z')"
    using rr(3) mr(4) by (simp add: mr(1) z')
  moreover have "p + block_size req = z_memory z' + unat (z_offset z') + 32"
    by (simp add: mr(1,2) z')
  moreover have b: "unat req + 32 \<le> block_size req"
    using round_up_bounds(1) [of "unat req + 32"] by (simp add: block_size_def)
  moreover have "\<forall>q \<in> {p ..< p + unat req}. zm_byte m' q = 0" using mr(6) b by auto
  moreover have "\<forall>q. q \<notin> {p - 32 ..< p - 32 + block_size req} \<longrightarrow> zm_byte m' q = zm_byte m q"
    using mr(7) \<open>z_memory z' + 32 \<le> p\<close> by auto
  ultimately show ?thesis using mr(5) by blast
qed

lemma zone_malloc_correct_witness:
  "\<exists>m' z' p. llvm_zone_malloc bump mem0 zone0 100 = (m', z', p) \<and> p mod 32 = 0 \<and>
     llvm_zone_ptr_size m' p = of_nat (block_size 100)"
proof -
  obtain m' z' p where c: "llvm_zone_malloc bump mem0 zone0 100 = (m', z', p)"
    by (cases "llvm_zone_malloc bump mem0 zone0 100")
  have "p mod 32 = 0 \<and> llvm_zone_ptr_size m' p = of_nat (block_size 100)"
    using zone_malloc_correct [OF zone0(1) _ bump_aligned c] by simp
  with c show ?thesis by (intro exI [of _ m'] exI [of _ z'] exI [of _ p]) simp
qed

text \<open>C24: For a request of at most 2^32 - 64 bytes to a well-formed zone of less than 2^59 bytes,
  when \<open>posix_memalign\<close> does not fail and the size of the zone that serves the request is a multiple
  of 32, the whole block, padding included, lies in the zone, and the zone stays well-formed.\<close>

theorem zone_block_in_bounds:
  assumes "zone_ok z" and "unat req + 64 \<le> 2 ^ 32" and "aligned ma" and "unat (z_size z) < 2 ^ 59"
    and "llvm_zone_malloc ma m z req = (m', z', p)" and "32 dvd unat (z_size z')"
  shows "p - 32 + block_size req \<le> z_memory z' + unat (z_size z') \<and> zone_ok z'"
proof -
  obtain m1 z1 where r: "room_zone ma m z (req + ucast LLVM_ZONE_ALIGN) = (m1, z1)" by force
  note mr = malloc_result [OF assms(1-3) r assms(5)]
  have s61: "32 \<le> unat (req + ucast LLVM_ZONE_ALIGN)" "unat (req + ucast LLVM_ZONE_ALIGN) < 2 ^ 61"
    using mr(4) assms(2) by simp_all
  note rr = room_zone_result [OF assms(1) s61 assms(3) r]
  have z': "z_memory z' = z_memory z1" "z_size z' = z_size z1" by (subst mr(3), simp)+
  obtain k where k: "unat (z_size z1) = 32 * k" using assms(6) z' by (auto simp: dvd_def)
  obtain j where j: "unat (z_offset z1) = 32 * j" using rr(2) by (auto simp: dvd_def elim!: dvdE dest!: mod_0_imp_dvd)
  obtain l where l: "block_size req = 32 * l"
    using round_up_bounds(3) [of "unat req + 32"] by (auto simp: block_size_def elim!: dvdE dest!: mod_0_imp_dvd)
  have "block_size req < unat req + 64" using round_up_bounds(2) [of "unat req + 32"] by (simp add: block_size_def)
  then have le: "unat (z_offset z1) + block_size req \<le> unat (z_size z1)"
    using rr(3) mr(4) unfolding k j l by arith
  have sz: "unat (z_size z1) < 2 ^ 61"
  proof (cases "z_offset z + (req + ucast LLVM_ZONE_ALIGN) \<ge> z_size z")
    case True
    then have "extend_zone ma m z (req + ucast LLVM_ZONE_ALIGN) = (m1, z1)" using r by (simp add: room_zone_def)
    from extend_zone_result(4) [OF assms(1) s61 assms(3) this] show ?thesis
      using assms(2,4) mr(4) by (auto simp: max_def)
  next
    case False
    then show ?thesis using r assms(1) by (auto simp: room_zone_def zone_ok_def)
  qed
  have "zone_ok z'" unfolding zone_ok_def z'
  proof (intro conjI)
    show "unat (z_offset z') mod 32 = 0" by (simp add: mr(2) j l)
    show "unat (z_offset z') \<le> unat (z_size z1) + 31" using le by (simp add: mr(2))
  qed (use rr sz in auto)
  then show ?thesis using le by (simp add: mr(1) z')
qed

lemma zone_block_in_bounds_witness:
  "\<exists>m' z' p. llvm_zone_malloc bump mem0 zone0 100 = (m', z', p) \<and> zone_ok z'"
proof -
  obtain m' z' p where c: "llvm_zone_malloc bump mem0 zone0 100 = (m', z', p)"
    by (cases "llvm_zone_malloc bump mem0 zone0 100")
  have "z_size (fst (snd (llvm_zone_malloc bump mem0 zone0 100))) = 1024"
    by (simp add: llvm_zone_malloc_def Let_def zone0 LLVM_ZONE_ALIGN_def)
  then have "32 dvd unat (z_size z')" by (simp add: c)
  with zone_block_in_bounds [OF zone0(1) _ bump_aligned _ c] c show ?thesis by (simp add: zone0)
qed

text \<open>The size test precedes the rounding, and extension doubles sizes that are no
  multiples of 32. Two ordinary requests to a fresh 1024-byte zone make the allocator clear memory
  behind the end of the zone.\<close>

theorem zone_overrun:
  "let (m1, z1, p1) = llvm_zone_malloc bump mem0 zone0 1000;
       (m2, z2, p2) = llvm_zone_malloc bump m1 z1 975
   in z_memory z2 = z_memory z1 \<and> z_size z2 = 2064 \<and> z_offset z2 = 2080 \<and>
      p2 - 32 + block_size 975 = z_memory z2 + unat (z_size z2) + 16"
  by code_simp

text \<open>A request of 4 gigabytes loses its high bits in the 32-bit mask: the zone is extended
  to hold it, but the block that is cut off is 32 bytes, its header alone, so the block of the next
  request begins where the first one's pointer points to.\<close>

theorem zone_request_truncated:
  "let (m1, z1, p1) = llvm_zone_malloc bump mem0 zone0 (2 ^ 32);
       (m2, z2, p2) = llvm_zone_malloc bump m1 z1 8
   in z_size z1 = 2 ^ 33 + 64 \<and> llvm_zone_ptr_size m1 p1 = 32 \<and> p2 = p1 + 32"
  by (simp add: llvm_zone_malloc_def extend_zone_def llvm_zone_create_def memalign_def llvm_zone_reset_def
      llvm_zone_ptr_size_def load_store64 zone0 LLVM_ZONE_ALIGN_def LLVM_ZONE_ALIGNPAD_def bump_def mem0_def)

text \<open>Membership survives extension while the old memory's size fits an \<open>int\<close>.\<close>

lemma ptr_in_zone_iff: "llvm_ptr_in_zone z p \<longleftrightarrow>
  (\<exists>(a, n) \<in> set ((z_memory z, z_size z) # z_memories z). a \<le> p \<and> p < a + unat n)"
proof -
  have "ptr_in_segments ss p \<longleftrightarrow> (\<exists>(a, n) \<in> set ss. a \<le> p \<and> p < a + unat n)" for ss
    by (induction ss) (auto simp: not_less not_le)
  then show ?thesis by (simp only: llvm_ptr_in_zone_def)
qed

lemma int_size: "unat (w :: 64 word) < 2 ^ 31 \<Longrightarrow> scast (ucast w :: 32 word) = w"
proof -
  assume w: "unat w < 2 ^ 31"
  define k where "k = unat w"
  have k: "w = of_nat k" "k < 2 ^ 31" using w by (simp_all add: k_def)
  have "sint (of_nat k :: 32 word) = int k"
    using k(2) by (simp add: signed_of_nat signed_take_bit_int_eq_self)
  moreover have "(ucast w :: 32 word) = of_nat k" unfolding k_def by transfer (simp add: take_bit_eq_mod)
  ultimately show ?thesis by (simp add: k(1) scast_eq)
qed

text \<open>C25: For a request of at most 2^32 - 64 bytes to a well-formed zone whose size is below 2^31
  (the code passes the size of an outgrown zone through an \<open>int\<close>), when \<open>posix_memalign\<close> does not
  fail: the pointer that \<open>llvm_zone_malloc\<close> returns is in the zone afterwards, and every pointer that
  was in the zone still is, also when the zone was extended.\<close>

theorem zone_pointers_stay:
  assumes "zone_ok z" and "unat req + 64 \<le> 2 ^ 32" and "aligned ma" and "unat (z_size z) < 2 ^ 31"
    and "llvm_zone_malloc ma m z req = (m', z', p)"
  shows "llvm_ptr_in_zone z' p \<and> (\<forall>q. llvm_ptr_in_zone z q \<longrightarrow> llvm_ptr_in_zone z' q)"
proof -
  obtain m1 z1 where r: "room_zone ma m z (req + ucast LLVM_ZONE_ALIGN) = (m1, z1)" by force
  note mr = malloc_result [OF assms(1-3) r assms(5)]
  have s61: "32 \<le> unat (req + ucast LLVM_ZONE_ALIGN)" "unat (req + ucast LLVM_ZONE_ALIGN) < 2 ^ 61"
    using mr(4) assms(2) by simp_all
  note rr = room_zone_result [OF assms(1) s61 assms(3) r]
  have z': "z_memory z' = z_memory z1" "z_size z' = z_size z1" "z_memories z' = z_memories z1"
    by (subst mr(3), simp)+
  have "z_memory z' \<le> p \<and> p < z_memory z' + unat (z_size z')"
    using rr(3) s61 by (simp add: mr(1) z')
  moreover have "llvm_ptr_in_zone z1 q" if q: "llvm_ptr_in_zone z q" for q
  proof (cases "z_offset z + (req + ucast LLVM_ZONE_ALIGN) \<ge> z_size z")
    case True
    then have "extend_zone ma m z (req + ucast LLVM_ZONE_ALIGN) = (m1, z1)" using r by (simp add: room_zone_def)
    from extend_zone_result(6) [OF assms(1) s61 assms(3) this] q show ?thesis
      by (auto simp: ptr_in_zone_iff int_size [OF assms(4)] split: if_splits)
  next
    case False
    then show ?thesis using r q by (simp add: room_zone_def)
  qed
  ultimately show ?thesis by (auto simp: ptr_in_zone_iff z')
qed

lemma zone_pointers_stay_witness:
  "\<exists>m' z' p. llvm_zone_malloc bump mem0 zone0 5000 = (m', z', p) \<and> llvm_ptr_in_zone z' p \<and>
     llvm_ptr_in_zone z' 40"
proof -
  obtain m' z' p where c: "llvm_zone_malloc bump mem0 zone0 5000 = (m', z', p)"
    by (cases "llvm_zone_malloc bump mem0 zone0 5000")
  have "llvm_ptr_in_zone zone0 40" by (simp add: llvm_ptr_in_zone_def zone0)
  then have "llvm_ptr_in_zone z' p \<and> llvm_ptr_in_zone z' 40"
    using zone_pointers_stay [OF zone0(1) _ bump_aligned _ c] by (simp add: zone0)
  with c show ?thesis by (intro exI [of _ m'] exI [of _ z'] exI [of _ p]) simp
qed

text \<open>The recorded size counts the 32 bytes in front of the block, which
  \<open>llvm_zone_copy_ptr\<close> does not subtract: copying one block over another of the same size also copies
  the header of the block behind the first over the header of the block behind the second. Here
  the third block, of 128 bytes, has a recorded size of 64 afterwards.\<close>

theorem copy_ptr_clobbers:
  "let (m1, z1, a) = llvm_zone_malloc bump mem0 zone0 8;
       (m2, z2, b) = llvm_zone_malloc bump m1 z1 8;
       (m3, z3, c) = llvm_zone_malloc bump m2 z2 96;
       (m4, err) = llvm_zone_copy_ptr m3 a b
   in \<not> err \<and> llvm_zone_ptr_size m3 c = 128 \<and> llvm_zone_ptr_size m4 c = 64"
  by code_simp

text \<open>The zone stack is last in, first out, a peek at an empty stack pushes a fresh
  zone of one megabyte, and a callback gets its thread's own zone, emptied, on top of the stack.\<close>

theorem zone_stack_correct:
  "llvm_pop_zone_stack (llvm_push_zone_stack t z) = (t, Some z) \<and>
   llvm_peek_zone_stack ma (llvm_push_zone_stack t z) = (llvm_push_zone_stack t z, z) \<and>
   zt_stack (fst (llvm_peek_zone_stack ma t)) =
     (if zt_stack t = [] then [zt_next t] else zt_stack t) \<and>
   hd (zt_stack (fst (llvm_peek_zone_stack ma t))) = snd (llvm_peek_zone_stack ma t) \<and>
   (let (t', c) = llvm_zone_callback_setup ma t
    in zt_stack t' = c # zt_stack t \<and> zt_callback t' = Some c \<and> z_offset (zt_zones t' c) = 0)"
  by (cases "zt_stack t"; cases "zt_callback t")
    (auto simp: llvm_pop_zone_stack_def llvm_push_zone_stack_def llvm_peek_zone_stack_def create_in_def
      llvm_zone_callback_setup_def llvm_threads_get_callback_zone_def llvm_zone_reset_def split_beta Let_def)

end
