(* ===== verification/Scheduler.thy ===== *)
theory Scheduler
  imports Ext_Prelude "HOL-Library.Multiset" "HOL-Library.Product_Lexorder"
begin

text \<open>
  Scheduled tasks: \<open>PriorityQueue<TaskI>\<close> of \<open>src/PriorityQueue.h\<close> over \<open>Task\<close> of \<open>src/Task.h\<close>, and
  the scheduler thread's \<open>timeSlice\<close> of \<open>src/TaskScheduler.cpp\<close>. \<open>std::priority_queue\<close> with
  \<open>std::greater\<close> on pairs is the list of tasks in ascending order of start time and, for equal
  times, of the task's address. What executing a task does to the rest of the program, including
  the tasks it schedules, is the parameter \<open>exec\<close>.
\<close>

section \<open>The interface of a priority queue\<close>

locale priority_queue =
  fixes ok :: "'q \<Rightarrow> bool" and empty :: 'q and push :: "'t \<Rightarrow> 'q \<Rightarrow> 'q"
    and pop :: "'q \<Rightarrow> 't option \<times> 'q" and elems :: "'q \<Rightarrow> 't multiset" and key :: "'t \<Rightarrow> 'k :: linorder"
  assumes ok_empty: "ok empty" and ok_push: "ok q \<Longrightarrow> ok (push t q)" and ok_pop: "ok q \<Longrightarrow> ok (snd (pop q))"
    and elems_empty: "elems empty = {#}"
    and elems_push: "ok q \<Longrightarrow> elems (push t q) = add_mset t (elems q)"
    and pop_none: "ok q \<Longrightarrow> fst (pop q) = None \<Longrightarrow> elems q = {#}"
    and pop_some: "ok q \<Longrightarrow> fst (pop q) = Some t \<Longrightarrow>
      elems q = add_mset t (elems (snd (pop q))) \<and> (\<forall>u \<in># elems q. key t \<le> key u)"
begin

lemma pop_least: "ok q \<Longrightarrow> fst (pop q) = Some t \<Longrightarrow> u \<in># elems q \<Longrightarrow> key t \<le> key u"
  using pop_some [of q t] by blast

lemma pop_elems: "ok q \<Longrightarrow> fst (pop q) = Some t \<Longrightarrow> elems q = add_mset t (elems (snd (pop q)))"
  using pop_some [of q t] by blast

lemma push_all: "ok q \<Longrightarrow> ok (foldl (\<lambda>q t. push t q) q ts) \<and>
    elems (foldl (\<lambda>q t. push t q) q ts) = mset ts + elems q"
  by (induction ts arbitrary: q) (simp_all add: elems_push ok_push)

end

section \<open>Tasks and their queue\<close>

text \<open>\<open>tk_addr\<close> is the task object's own address; \<open>tk_arg\<close> stands for its class member and argument.\<close>

record task =
  tk_start :: "64 word"
  tk_duration :: "64 word"
  tk_tag :: int
  tk_addr :: addr
  tk_arg :: nat

definition task_key :: "task \<Rightarrow> 64 word \<times> addr" where
  "task_key t = (tk_start t, tk_addr t)"

lemma task_key_start: "task_key t \<le> task_key u \<Longrightarrow> tk_start t \<le> tk_start u"
  by (auto simp: task_key_def less_eq_prod_def)

type_synonym queue = "task list"

definition pq_add :: "task \<Rightarrow> queue \<Rightarrow> queue" where
  "pq_add t q = insort_key task_key t q"

definition pq_peek :: "queue \<Rightarrow> task option" where
  "pq_peek q = (case q of [] \<Rightarrow> None | t # _ \<Rightarrow> Some t)"

definition pq_pop :: "queue \<Rightarrow> task option \<times> queue" where
  "pq_pop q = (case q of [] \<Rightarrow> (None, q) | t # ts \<Rightarrow> (Some t, ts))"

definition pq_clear :: "queue \<Rightarrow> queue" where
  "pq_clear q = []"

definition pq_ok :: "queue \<Rightarrow> bool" where
  "pq_ok q \<longleftrightarrow> sorted (map task_key q)"

interpretation pq: priority_queue pq_ok "pq_clear q0" pq_add pq_pop mset task_key
  by unfold_locales
    (auto simp: pq_ok_def pq_clear_def pq_add_def pq_pop_def sorted_insort_key split: list.splits)

lemma peek_pop: "pq_peek q = fst (pq_pop q)"
  by (simp add: pq_peek_def pq_pop_def split: list.split)

section \<open>The scheduler\<close>

text \<open>\<open>TaskScheduler::add\<close> and \<open>addTask\<close> (under the queue's mutex).\<close>

definition addTask :: "64 word \<Rightarrow> 64 word \<Rightarrow> addr \<Rightarrow> nat \<Rightarrow> int \<Rightarrow> queue \<Rightarrow> queue" where
  "addTask start duration a arg tag q =
     pq_add \<lparr>tk_start = start, tk_duration = duration, tk_tag = tag, tk_addr = a, tk_arg = arg\<rparr> q"

text \<open>
  The inner loop of \<open>timeSlice\<close>: while the first task is due, it is taken from the queue and,
  unless it has a tag, executed; what it schedules is in the queue before the next test. The
  result has the tasks taken, in order. \<open>None\<close> is fuel spent.
\<close>

definition run_task ::
  "(task \<Rightarrow> 's \<Rightarrow> 's \<times> task list) \<Rightarrow> task \<Rightarrow> queue \<Rightarrow> 's \<Rightarrow> queue \<times> 's" where
  "run_task exec t q s =
     (if tk_tag t = 0 then let (s', new) = exec t s in (foldl (\<lambda>q t. pq_add t q) q new, s')
      else (q, s))"

definition due :: "64 word \<Rightarrow> queue \<Rightarrow> bool" where
  "due bound q \<longleftrightarrow> (case pq_peek q of None \<Rightarrow> False | Some t \<Rightarrow> tk_start t < bound)"

primrec slice_loop ::
  "nat \<Rightarrow> (task \<Rightarrow> 's \<Rightarrow> 's \<times> task list) \<Rightarrow> 64 word \<Rightarrow> queue \<Rightarrow> 's \<Rightarrow> (queue \<times> 's \<times> task list) option" where
  "slice_loop 0 exec bound q s = (if due bound q then None else Some (q, s, []))"
| "slice_loop (Suc k) exec bound q s =
     (if due bound q then
        (let t = the (pq_peek q);
             (q2, s2) = run_task exec t (snd (pq_pop q)) s
         in case slice_loop k exec bound q2 s2 of
              None \<Rightarrow> None | Some (q3, s3, tr) \<Rightarrow> Some (q3, s3, t # tr))
      else Some (q, s, []))"

text \<open>
  The scheduler thread among the others. \<open>timeSlice\<close> tests and pops under the queue's mutex and
  executes without it, so that tasks can be added, by the running task or by another thread, before
  every test. When no task is due the thread rests: with a time division of one until the audio
  callback, which sets the time, wakes it (\<open>queueThreadImpl\<close>), otherwise it adds \<open>frames\<close> to the time
  and sleeps. Times are compared as unsigned 64-bit numbers.
\<close>

definition slice_frames :: "32 word \<Rightarrow> 64 word \<Rightarrow> 32 word" where
  "slice_frames numFrames division = ucast (ucast numFrames div division :: 64 word)"

datatype sched_pc = Testing | Executing task | Resting

record sched =
  sd_time :: "64 word"
  sd_queue :: queue
  sd_pc :: sched_pc

datatype sched_event = Take task | Finish | Add task | Rest | Wake | Set_Time "64 word"

inductive sched_step :: "64 word \<Rightarrow> 32 word \<Rightarrow> sched \<Rightarrow> sched_event \<Rightarrow> sched \<Rightarrow> bool" for division frames where
  take_due: "sd_pc st = Testing \<Longrightarrow> due (sd_time st + ucast frames) (sd_queue st) \<Longrightarrow>
    pq_pop (sd_queue st) = (Some t, q) \<Longrightarrow>
    sched_step division frames st (Take t) (st\<lparr>sd_queue := q, sd_pc := Executing t\<rparr>)"
| finish: "sd_pc st = Executing t \<Longrightarrow> sched_step division frames st Finish (st\<lparr>sd_pc := Testing\<rparr>)"
| add_task: "sched_step division frames st (Add u) (st\<lparr>sd_queue := pq_add u (sd_queue st)\<rparr>)"
| rest: "sd_pc st = Testing \<Longrightarrow> \<not> due (sd_time st + ucast frames) (sd_queue st) \<Longrightarrow>
    sched_step division frames st Rest
      (st\<lparr>sd_pc := Resting, sd_time := (if division = 1 then sd_time st else sd_time st + ucast frames)\<rparr>)"
| wake: "sd_pc st = Resting \<Longrightarrow> sched_step division frames st Wake (st\<lparr>sd_pc := Testing\<rparr>)"
| set_time: "division = 1 \<Longrightarrow> sched_step division frames st (Set_Time n) (st\<lparr>sd_time := n\<rparr>)"

inductive_cases sched_stepE: "sched_step division frames st e st'"

inductive sched_run :: "64 word \<Rightarrow> 32 word \<Rightarrow> sched \<Rightarrow> sched_event list \<Rightarrow> sched \<Rightarrow> bool" for division frames where
  run_none: "sched_run division frames st [] st"
| run_step: "sched_step division frames st e st1 \<Longrightarrow> sched_run division frames st1 es st2 \<Longrightarrow>
    sched_run division frames st (e # es) st2"

text \<open>The tasks taken and the tasks added in a run.\<close>

fun taken :: "sched_event list \<Rightarrow> task list" where
  "taken [] = []"
| "taken (Take t # es) = t # taken es"
| "taken (_ # es) = taken es"

fun added :: "sched_event list \<Rightarrow> task list" where
  "added [] = []"
| "added (Add t # es) = t # added es"
| "added (_ # es) = added es"

text \<open>No task is added with a start before that of the task taken last, first \<open>lo\<close>.\<close>

fun timely :: "64 word \<Rightarrow> sched_event list \<Rightarrow> bool" where
  "timely lo [] = True"
| "timely lo (Take t # es) = timely (tk_start t) es"
| "timely lo (Add u # es) = (lo \<le> tk_start u \<and> timely lo es)"
| "timely lo (_ # es) = timely lo es"

section \<open>Order and completeness\<close>

lemma due_pop:
  assumes "pq_ok q" and "due bound q"
  obtains t where "pq_peek q = Some t" "fst (pq_pop q) = Some t" "tk_start t < bound"
    "pq_ok (snd (pq_pop q))" "mset q = add_mset t (mset (snd (pq_pop q)))"
    "\<And>u. u \<in> set q \<Longrightarrow> tk_start t \<le> tk_start u"
proof -
  from assms(2) obtain t where t: "pq_peek q = Some t" "tk_start t < bound"
    by (auto simp: due_def split: option.splits)
  then have p: "fst (pq_pop q) = Some t" by (simp add: peek_pop)
  have "tk_start t \<le> tk_start u" if "u \<in> set q" for u
    using pq.pop_least [OF assms(1) p, of u] that by (auto intro: task_key_start)
  with that t p pq.ok_pop [OF assms(1)] pq.pop_elems [OF assms(1) p] show ?thesis by blast
qed

lemma not_due: "pq_ok q \<Longrightarrow> \<not> due bound q \<Longrightarrow> u \<in> set q \<Longrightarrow> bound \<le> tk_start u"
proof -
  assume a: "pq_ok q" "\<not> due bound q" "u \<in> set q"
  then obtain t where t: "fst (pq_pop q) = Some t" by (cases q) (auto simp: pq_pop_def)
  then have "bound \<le> tk_start t" using a(2) by (simp add: due_def peek_pop)
  then show ?thesis using task_key_start [OF pq.pop_least [OF a(1) t, of u]] a(3) by simp
qed

lemma run_task_result:
  assumes "pq_ok q"
  shows "pq_ok (fst (run_task exec t q s))"
    and "mset (fst (run_task exec t q s)) = mset q + (if tk_tag t = 0 then mset (snd (exec t s)) else {#})"
  using pq.push_all [OF assms, of "snd (exec t s)"]
  by (auto simp: run_task_def split_beta Let_def assms)

lemma pop_facts:
  assumes "pq_ok q" and "due bound q" and "pq_pop q = (Some t, q')"
  shows "pq_ok q'" "mset q = add_mset t (mset q')" "tk_start t < bound" "\<And>u. u \<in> set q \<Longrightarrow> tk_start t \<le> tk_start u"
  using due_pop [OF assms(1,2)] assms(3) by (metis fst_conv option.inject snd_conv)+

lemma sched_run_facts:
  assumes "sched_run division frames st es st'" and "pq_ok (sd_queue st)"
  shows "pq_ok (sd_queue st') \<and>
    mset (sd_queue st) + mset (added es) = mset (taken es) + mset (sd_queue st')"
  using assms
proof (induction rule: sched_run.induct)
  case (run_step st e st1 es st2)
  from run_step.hyps(1) show ?case
  proof (cases rule: sched_step.cases)
    case (take_due t q)
    note p = pop_facts [OF run_step.prems take_due(4,5)]
    show ?thesis using run_step.IH take_due(1,2) p by simp
  next
    case (add_task u)
    then show ?thesis using run_step pq.ok_push [OF run_step.prems, of u] pq.elems_push [OF run_step.prems, of u] by simp
  qed (use run_step in simp_all)
qed simp

lemma sched_run_sorted:
  assumes "sched_run division frames st es st'" and "pq_ok (sd_queue st)" and "timely lo es"
    and "\<forall>u \<in> set (sd_queue st). lo \<le> tk_start u"
  shows "sorted (map tk_start (taken es)) \<and> (\<forall>t \<in> set (taken es). lo \<le> tk_start t)"
  using assms
proof (induction arbitrary: lo rule: sched_run.induct)
  case (run_step st e st1 es st2)
  from run_step.hyps(1) show ?case
  proof (cases rule: sched_step.cases)
    case (take_due t q)
    note p = pop_facts [OF run_step.prems(1) take_due(4,5)]
    have s: "set (sd_queue st) = insert t (set q)" using p(2) by (metis set_mset_add_mset_insert set_mset_mset)
    then have "sorted (map tk_start (taken es)) \<and> (\<forall>u \<in> set (taken es). tk_start t \<le> tk_start u)"
      using run_step.IH [of "tk_start t"] run_step.prems(2) take_due(1,2) p(1,4) by simp
    moreover have "lo \<le> tk_start t" using run_step.prems(3) s by simp
    ultimately show ?thesis using take_due(1) by (auto intro: order_trans)
  next
    case (add_task u)
    then show ?thesis using run_step.IH [of lo] run_step.prems pq.ok_push [OF run_step.prems(1), of u]
      by (simp add: pq_add_def set_insort_key)
  qed (use run_step.IH [of lo] run_step.prems in simp_all)
qed simp

text \<open>The inner loop by itself is a run of the thread in which the executed tasks do all the adding.\<close>

lemma sched_run_append:
  "sched_run division frames st es st1 \<Longrightarrow> sched_run division frames st1 es' st2 \<Longrightarrow>
   sched_run division frames st (es @ es') st2"
  by (induction rule: sched_run.induct) (auto intro: sched_run.intros)

lemma sched_run_adds:
  "sched_run division frames st (map Add us) (st\<lparr>sd_queue := foldl (\<lambda>q u. pq_add u q) (sd_queue st) us\<rparr>)"
proof (induction us arbitrary: st)
  case (Cons u us)
  show ?case using run_step [OF add_task Cons.IH [of "st\<lparr>sd_queue := pq_add u (sd_queue st)\<rparr>"]] by simp
qed (simp add: run_none)

lemma added_map: "taken (map Add us) = []" "taken (es @ es') = taken es @ taken es'"
proof -
  show "taken (map Add us) = []" by (induction us) simp_all
  show "taken (es @ es') = taken es @ taken es'" by (induction es rule: taken.induct) simp_all
qed

theorem slice_loop_runs:
  assumes "slice_loop k exec (time + ucast frames) q s = Some (q', s', tr)"
  shows "\<exists>es. sched_run division frames \<lparr>sd_time = time, sd_queue = q, sd_pc = Testing\<rparr> es
    \<lparr>sd_time = time, sd_queue = q', sd_pc = Testing\<rparr> \<and> taken es = tr"
  using assms
proof (induction k arbitrary: q s tr)
  case 0
  then show ?case by (auto split: if_splits intro!: exI [of _ "[]"] run_none)
next
  case (Suc k)
  let ?S = "\<lambda>q pc. \<lparr>sd_time = time, sd_queue = q, sd_pc = pc\<rparr>"
  show ?case
  proof (cases "due (time + ucast frames) q")
    case False
    then show ?thesis using Suc.prems by (auto intro!: exI [of _ "[]"] run_none)
  next
    case True
    then obtain t where t: "pq_peek q = Some t" by (auto simp: due_def split: option.splits)
    then have p: "pq_pop q = (Some t, snd (pq_pop q))" by (simp add: prod_eq_iff peek_pop)
    obtain q2 s2 where r: "run_task exec t (snd (pq_pop q)) s = (q2, s2)" by force
    obtain tr' where l: "slice_loop k exec (time + ucast frames) q2 s2 = Some (q', s', tr')" and tr: "tr = t # tr'"
      using Suc.prems True by (auto simp: t r split: option.splits)
    obtain es where es: "sched_run division frames (?S q2 Testing) es (?S q' Testing)" "taken es = tr'"
      using Suc.IH [OF l] by blast
    obtain us where q2: "q2 = foldl (\<lambda>q u. pq_add u q) (snd (pq_pop q)) us"
    proof (cases "tk_tag t = 0")
      case True
      then show thesis using r that [of "snd (exec t s)"] by (simp add: run_task_def split_beta Let_def)
    next
      case False
      then show thesis using r that [of "[]"] by (simp add: run_task_def)
    qed
    have "sched_run division frames (?S (snd (pq_pop q)) (Executing t)) (map Add us) (?S q2 (Executing t))"
      using sched_run_adds [of division frames "?S (snd (pq_pop q)) (Executing t)" us] by (simp add: q2)
    moreover have "sched_step division frames (?S q2 (Executing t)) Finish (?S q2 Testing)"
      using sched_step.finish [of "?S q2 (Executing t)"] by simp
    ultimately have "sched_run division frames (?S (snd (pq_pop q)) (Executing t)) (map Add us @ Finish # es) (?S q' Testing)"
      using es(1) by (blast intro: sched_run_append run_step)
    moreover have "sched_step division frames (?S q Testing) (Take t) (?S (snd (pq_pop q)) (Executing t))"
      using sched_step.take_due [of "?S q Testing" frames t "snd (pq_pop q)" division] True p by simp
    ultimately have "sched_run division frames (?S q Testing) (Take t # map Add us @ Finish # es) (?S q' Testing)"
      by (blast intro: run_step)
    then show ?thesis using es(2) tr by (intro exI) (auto simp: added_map)
  qed
qed

text \<open>Tasks that schedule nothing inside the running slice.\<close>

definition later :: "64 word \<Rightarrow> (task \<Rightarrow> 's \<Rightarrow> 's \<times> task list) \<Rightarrow> bool" where
  "later bound exec \<longleftrightarrow> (\<forall>t s. \<forall>u \<in> set (snd (exec t s)). bound \<le> tk_start u)"

definition due_in :: "64 word \<Rightarrow> queue \<Rightarrow> task multiset" where
  "due_in bound q = filter_mset (\<lambda>t. tk_start t < bound) (mset q)"

lemma slice_complete:
  assumes "pq_ok q" and "later bound exec" and "size (due_in bound q) \<le> k"
  shows "\<exists>q' s' tr. slice_loop k exec bound q s = Some (q', s', tr) \<and> pq_ok q' \<and> mset tr = due_in bound q"
  using assms
proof (induction k arbitrary: q s)
  case 0
  then have "due_in bound q = {#}" by simp
  moreover have "\<not> due bound q"
  proof
    assume "due bound q"
    from due_pop [OF 0(1) this] obtain t where t: "tk_start t < bound"
      "mset q = add_mset t (mset (snd (pq_pop q)))" by blast
    then show False using calculation by (simp add: due_in_def)
  qed
  ultimately show ?case using 0(1) by simp
next
  case (Suc k)
  show ?case
  proof (cases "due bound q")
    case False
    then have "due_in bound q = {#}"
      using not_due [OF Suc.prems(1) False] by (auto simp: due_in_def filter_mset_eq_conv not_less [symmetric])
    then show ?thesis using False Suc.prems(1) by simp
  next
    case True
    from due_pop [OF Suc.prems(1) True] obtain t where t: "pq_peek q = Some t" "tk_start t < bound"
      "pq_ok (snd (pq_pop q))" and m: "mset q = add_mset t (mset (snd (pq_pop q)))" by blast
    obtain q2 s2 where r: "run_task exec t (snd (pq_pop q)) s = (q2, s2)" by force
    have ok: "pq_ok q2" and m2: "mset q2 = mset (snd (pq_pop q)) + (if tk_tag t = 0 then mset (snd (exec t s)) else {#})"
      using run_task_result [OF t(3), of exec t s] by (simp_all add: r)
    have "filter_mset (\<lambda>u. tk_start u < bound) (mset (snd (exec t s))) = {#}"
      using Suc.prems(2) by (auto simp: later_def filter_mset_eq_conv not_less [symmetric])
    then have d: "due_in bound q = add_mset t (due_in bound q2)"
      using t(2) by (simp add: due_in_def m m2)
    from Suc.IH [OF ok Suc.prems(2), of s2] Suc.prems(3) obtain q' s' tr where
      "slice_loop k exec bound q2 s2 = Some (q', s', tr)" "pq_ok q'" "mset tr = due_in bound q2"
      unfolding d by auto
    then show ?thesis using True d by (simp add: t r)
  qed
qed

section \<open>Guarantees\<close>

definition beat :: "64 word \<Rightarrow> addr \<Rightarrow> task" where
  "beat start a = \<lparr>tk_start = start, tk_duration = 0, tk_tag = 0, tk_addr = a, tk_arg = 0\<rparr>"

text \<open>C20: In every run of the scheduler thread, however long and whatever the running tasks and
  other threads add to the queue between its tests: every task in the queue at the start or added
  later is either taken once or still in the queue, and, if no task is added that starts before the
  one taken last, tasks are taken in ascending order of their start times.\<close>

theorem tasks_run_in_order:
  assumes "pq_ok (sd_queue st)" and "sched_run division frames st es st'"
  shows "mset (sd_queue st) + mset (added es) = mset (taken es) + mset (sd_queue st') \<and>
    (timely 0 es \<longrightarrow> sorted (map tk_start (taken es)))"
  using sched_run_facts [OF assms(2,1)] sched_run_sorted [OF assms(2,1), of 0] by simp

lemma tasks_run_in_order_witness:
  "\<exists>st'. sched_run 1 512 \<lparr>sd_time = 0, sd_queue = [beat 100 8], sd_pc = Testing\<rparr>
      [Take (beat 100 8), Add (beat 300 4), Finish, Take (beat 300 4)] st' \<and>
    mset [beat 100 8] + mset [beat 300 4] = mset [beat 100 8, beat 300 4] + mset (sd_queue st') \<and>
    sorted (map tk_start [beat 100 8, beat 300 4])"
proof -
  let ?es = "[Take (beat 100 8), Add (beat 300 4), Finish, Take (beat 300 4)]"
  let ?S = "\<lambda>q pc. \<lparr>sd_time = 0, sd_queue = q, sd_pc = pc\<rparr>"
  have "sched_step 1 512 (?S [beat 100 8] Testing) (Take (beat 100 8)) (?S [] (Executing (beat 100 8)))"
    "sched_step 1 512 (?S [] (Executing (beat 100 8))) (Add (beat 300 4)) (?S [beat 300 4] (Executing (beat 100 8)))"
    "sched_step 1 512 (?S [beat 300 4] (Executing (beat 100 8))) Finish (?S [beat 300 4] Testing)"
    "sched_step 1 512 (?S [beat 300 4] Testing) (Take (beat 300 4)) (?S [] (Executing (beat 300 4)))"
    using take_due [of "?S [beat 100 8] Testing" 512 "beat 100 8" "[]" 1]
      add_task [of 1 512 "?S [] (Executing (beat 100 8))" "beat 300 4"]
      finish [of "?S [beat 300 4] (Executing (beat 100 8))" "beat 100 8" 1 512]
      take_due [of "?S [beat 300 4] Testing" 512 "beat 300 4" "[]" 1]
    by (simp_all add: due_def pq_peek_def pq_pop_def pq_add_def beat_def)
  then have r: "sched_run 1 512 (?S [beat 100 8] Testing) ?es (?S [] (Executing (beat 300 4)))"
    by (blast intro: run_step run_none)
  have "pq_ok (sd_queue (?S [beat 100 8] Testing))" by (simp add: pq_ok_def)
  note tasks_run_in_order [OF this r]
  moreover have "timely 0 ?es" by (simp add: beat_def)
  ultimately show ?thesis using r by (intro exI [of _ "?S [] (Executing (beat 300 4))"]) simp
qed

text \<open>C21: A slice whose tasks schedule nothing before its end terminates with as much fuel
  as there are due tasks, and takes exactly the tasks that were due at its start; none is lost and
  none runs early.\<close>

theorem slice_runs_due_tasks:
  assumes "pq_ok q" and "later bound exec"
  shows "\<exists>q' s' tr. slice_loop (size (due_in bound q)) exec bound q s = Some (q', s', tr) \<and>
    mset tr = filter_mset (\<lambda>t. tk_start t < bound) (mset q) \<and> pq_ok q'"
  using slice_complete [OF assms order_refl, of s] by (auto simp: due_in_def)

lemma slice_runs_due_tasks_witness:
  "\<exists>q' s' tr. slice_loop (size (due_in 512 [beat 100 4, beat 700 8])) (\<lambda>t n. (Suc n, [])) 512
     [beat 100 4, beat 700 8] (0 :: nat) = Some (q', s', tr) \<and>
     mset tr = filter_mset (\<lambda>t. tk_start t < 512) (mset [beat 100 4, beat 700 8])"
proof -
  have "pq_ok [beat 100 4, beat 700 8]" by code_simp
  from slice_runs_due_tasks [OF this, of 512 "\<lambda>t n. (Suc n, [])" "0 :: nat"] show ?thesis
    by (auto simp: later_def)
qed

text \<open>Tasks with the same start time run in the order of their addresses, not in the
  order in which they were scheduled: a task added later overtakes one at a higher address.\<close>

theorem equal_times_by_address:
  "fst (pq_pop (addTask t d 16 y 0 (addTask t d 48 x 0 []))) =
     Some \<lparr>tk_start = t, tk_duration = d, tk_tag = 0, tk_addr = 16, tk_arg = y\<rparr>"
  by (simp add: addTask_def pq_add_def pq_pop_def task_key_def)

end
