(* ===== verification/Closure_Table.thy ===== *)
theory Closure_Table
  imports Ext_Prelude
begin

text \<open>
  The closure address table of \<open>src/EXTClosureAddressTable.cpp\<close>: a linked list of entries that
  compiled closures use to find the offset and type of a captured variable, keyed by a 64-bit hash
  of its name. A table is the list of its entries; a null table is the empty list. Where an entry
  is allocated (\<open>malloc\<close> or the zone) does not show in the operations.
\<close>

record address_entry =
  ca_id :: "64 word"
  ca_name :: string
  ca_offset :: "32 word"
  ca_type :: string

type_synonym address_table = "address_entry list"

text \<open>\<open>strcmp\<close> is zero exactly when the strings are equal.\<close>

fun get_address_table :: "string \<Rightarrow> address_table \<Rightarrow> address_table" where
  "get_address_table name [] = []"
| "get_address_table name (e # t) = (if ca_name e \<noteq> name then e # t else get_address_table name t)"

fun get_address_offset :: "64 word \<Rightarrow> address_table \<Rightarrow> 32 word" where
  "get_address_offset i [] = 0"
| "get_address_offset i (e # t) = (if ca_id e = i then ca_offset e else get_address_offset i t)"

text \<open>The loop reads the first entry before it tests for null: \<open>None\<close> is that access.\<close>

fun check_address_exists :: "64 word \<Rightarrow> address_table \<Rightarrow> bool option" where
  "check_address_exists i [] = None"
| "check_address_exists i [e] = Some (ca_id e = i)"
| "check_address_exists i (e # e' # t) = (if ca_id e = i then Some True else check_address_exists i (e' # t))"

fun check_address_type :: "64 word \<Rightarrow> address_table \<Rightarrow> string \<Rightarrow> bool" where
  "check_address_type i [] ty = False"
| "check_address_type i (e # t) ty =
     (if ca_id e = i then \<not> (ca_type e \<noteq> ty \<and> ''{i8*, i8*, void (i8*, i8*)*}**'' \<noteq> ty)
      else check_address_type i t ty)"

definition string_hash :: "string \<Rightarrow> 64 word" where
  "string_hash str = foldl (\<lambda>result c. result * 33 + of_char c) 0 str"

definition add_address_table :: "string \<Rightarrow> 32 word \<Rightarrow> string \<Rightarrow> address_table \<Rightarrow> address_table" where
  "add_address_table name offset ty table =
     \<lparr>ca_id = string_hash name, ca_name = name, ca_offset = offset, ca_type = ty\<rparr> # table"

section \<open>The table as a map from hashes\<close>

text \<open>The contract of the three queries: they see the first entry with the id.\<close>

fun entry_of :: "address_table \<Rightarrow> 64 word \<Rightarrow> (32 word \<times> string) option" where
  "entry_of [] i = None"
| "entry_of (e # t) i = (if ca_id e = i then Some (ca_offset e, ca_type e) else entry_of t i)"

lemma offset_entry: "get_address_offset i t = (case entry_of t i of None \<Rightarrow> 0 | Some (off, _) \<Rightarrow> off)"
  by (induction t) auto

lemma exists_entry: "t \<noteq> [] \<Longrightarrow> check_address_exists i t = Some (entry_of t i \<noteq> None)"
  by (induction i t rule: check_address_exists.induct) auto

lemma type_entry: "check_address_type i t ty =
  (case entry_of t i of None \<Rightarrow> False | Some (_, u) \<Rightarrow> u = ty \<or> ty = ''{i8*, i8*, void (i8*, i8*)*}**'')"
  by (induction t) auto

text \<open>Adding a variable obeys the contract of a table whose names are known by their hash.\<close>

interpretation ct: keyed_table string_hash "\<lambda>name (offset, ty). add_address_table name offset ty" entry_of
  by unfold_locales (auto simp: add_address_table_def)

lemmas entry_of_add = ct.lookup_insert [of _ "(_, _)", simplified]

section \<open>Guarantees\<close>

text \<open>C35: A variable that was added is found with its offset, exists, and has its own type
  and the generic closure type and no other; for every id other than its hash the offset, the
  existence and the type test answer as they did in the table before.\<close>

theorem closure_lookup_after_add:
  "get_address_offset i (add_address_table name off ty t) =
     (if i = string_hash name then off else get_address_offset i t) \<and>
   check_address_exists i (add_address_table name off ty t) =
     (if i = string_hash name then Some True
      else if t = [] then Some False else check_address_exists i t) \<and>
   check_address_type i (add_address_table name off ty t) ty' =
     (if i = string_hash name then ty' = ty \<or> ty' = ''{i8*, i8*, void (i8*, i8*)*}**''
      else check_address_type i t ty')"
proof -
  have a: "add_address_table name off ty t \<noteq> []" by (simp add: add_address_table_def)
  show ?thesis
    unfolding offset_entry exists_entry [OF a] type_entry entry_of_add
    by (auto simp: exists_entry)
qed

text \<open>\<open>get_address_table\<close> has its comparison the wrong way round: it never returns an
  entry of the name asked for, and it does not find a variable in a table that holds only that
  variable.\<close>

theorem get_address_table_inverted:
  "(case get_address_table name t of [] \<Rightarrow> True | e # _ \<Rightarrow> ca_name e \<noteq> name) \<and>
   get_address_table name (add_address_table name off ty []) = []"
proof -
  have "case get_address_table name t of [] \<Rightarrow> True | e # _ \<Rightarrow> ca_name e \<noteq> name"
    by (induction t) auto
  then show ?thesis by (simp add: add_address_table_def)
qed

text \<open>Variables are told apart by their hash only: the different names \<open>aB\<close> and \<open>b!\<close>
  have the same one, so that adding the second hides the first.\<close>

theorem closure_hash_collision:
  "string_hash ''aB'' = string_hash ''b!'' \<and>
   get_address_offset (string_hash ''aB'') (add_address_table ''b!'' 8 ty (add_address_table ''aB'' 0 ty [])) = 8"
  by (simp add: string_hash_def add_address_table_def)

end
