(* ===== verification/Base64.thy ===== *)
theory Base64
  imports Ext_Prelude
begin

unbundle bit_operations_syntax

text \<open>
  The base-64 coders of \<open>src/UNIV.cpp\<close>: \<open>base64_encode\<close>/\<open>base64_decode\<close> over the standard alphabet and
  \<open>cname_encode\<close>/\<open>cname_decode\<close> over an alphabet legal in C names. Buffers are byte lists, read and
  written at the loops' counters, which are \<open>unsigned\<close> (32 bits) and wrap; a loop whose counter wraps
  below the length of its input does not return (\<open>None\<close>, \<open>Endless\<close>). The decoding tables are
  \<open>malloc\<close>ed and filled at 64 entries only, so that the rest of the table is the parameter \<open>junk\<close>;
  \<open>mem\<close> is what a fresh output buffer holds.
\<close>

section \<open>Tables\<close>

definition base64_std_encoding_table :: "byte list" where
  "base64_std_encoding_table =
     List.map chr ''ABCDEFGHIJKLMNOPQRSTUVWXYZabcdefghijklmnopqrstuvwxyz0123456789+/''"

definition base64_codesafe_encoding_table :: "byte list" where
  "base64_codesafe_encoding_table =
     List.map chr ''ABCDEFGHIJKLMNOPQRSTUVWXYZabcdefghijklmnopqrstuvwxyz0123456789_-''"

definition build_decoding_table :: "byte list \<Rightarrow> (byte \<Rightarrow> byte) \<Rightarrow> byte \<Rightarrow> byte" where
  "build_decoding_table tab junk = foldl (\<lambda>t i. t(tab ! i := of_nat i)) junk [0 ..< 64]"

definition base64_mod_table :: "nat list" where
  "base64_mod_table = [0, 2, 1]"

section \<open>Encoding\<close>

text \<open>
  One turn of the encoding loop. \<open>octet\<close> is the conversion of an element of the input to
  \<open>uint32_t\<close>: zero extension of \<open>unsigned char\<close> in \<open>base64_encode\<close>, sign extension of \<open>char\<close> in
  \<open>cname_encode\<close>.
\<close>

definition encode_triple :: "byte list \<Rightarrow> 32 word \<Rightarrow> 32 word \<Rightarrow> 32 word \<Rightarrow> byte list" where
  "encode_triple tab octet_a octet_b octet_c =
     (let triple = push_bit 16 octet_a + push_bit 8 octet_b + octet_c
      in [tab ! unat (drop_bit 18 triple AND 63), tab ! unat (drop_bit 12 triple AND 63),
          tab ! unat (drop_bit 6 triple AND 63), tab ! unat (triple AND 63)])"

definition next_octet :: "(byte \<Rightarrow> 32 word) \<Rightarrow> byte list \<Rightarrow> 32 word \<Rightarrow> 32 word \<times> 32 word" where
  "next_octet octet data i = (if unat i < length data then (octet (data ! unat i), i + 1) else (0, i))"

fun write_bytes :: "32 word \<Rightarrow> byte list \<Rightarrow> byte list \<Rightarrow> byte list" where
  "write_bytes j [] out = out"
| "write_bytes j (b # bs) out = write_bytes (j + 1) bs (out[unat j := b])"

partial_function (option) encode_from ::
  "byte list \<Rightarrow> (byte \<Rightarrow> 32 word) \<Rightarrow> byte list \<Rightarrow> 32 word \<Rightarrow> 32 word \<Rightarrow> byte list \<Rightarrow> byte list option" where
  "encode_from tab octet data i j out =
     (if unat i < length data then
        (let (octet_a, i1) = next_octet octet data i;
             (octet_b, i2) = next_octet octet data i1;
             (octet_c, i3) = next_octet octet data i2
         in encode_from tab octet data i3 (j + 4)
              (write_bytes j (encode_triple tab octet_a octet_b octet_c) out))
      else Some out)"

definition pad_end :: "byte \<Rightarrow> nat \<Rightarrow> byte list \<Rightarrow> byte list" where
  "pad_end pad k out = foldl (\<lambda>out i. out[length out - 1 - i := pad]) out [0 ..< k]"

definition encode_with :: "byte list \<Rightarrow> (byte \<Rightarrow> 32 word) \<Rightarrow> byte \<Rightarrow> (nat \<Rightarrow> byte) \<Rightarrow> byte list \<Rightarrow> byte list option" where
  "encode_with tab octet pad mem data =
     (let output_length = 4 * ((length data + 2) div 3)
      in case encode_from tab octet data 0 0 (map mem [0 ..< output_length]) of
           None \<Rightarrow> None
         | Some out \<Rightarrow> Some (pad_end pad (base64_mod_table ! (length data mod 3)) out))"

definition base64_encode :: "(nat \<Rightarrow> byte) \<Rightarrow> byte list \<Rightarrow> byte list option" where
  "base64_encode mem data = encode_with base64_std_encoding_table ucast (chr (CHR ''='')) mem data"

definition cname_encode :: "(nat \<Rightarrow> byte) \<Rightarrow> byte list \<Rightarrow> byte list option" where
  "cname_encode mem data = encode_with base64_codesafe_encoding_table scast 0 mem data"

section \<open>Decoding\<close>

text \<open>
  \<open>NotMultiple\<close> is the \<open>NULL\<close> result, \<open>OutOfBounds\<close> an access outside the input or the table (the
  index into the table is a sign-extended \<open>char\<close>), \<open>Endless\<close> a loop that does not return.
\<close>

datatype decoded = NotMultiple | OutOfBounds | Endless | Decoded "byte list"

definition sextet :: "byte \<Rightarrow> (byte \<Rightarrow> byte) \<Rightarrow> byte \<Rightarrow> 32 word" where
  "sextet pad dec c = (if c = pad then 0 else scast (dec c))"

definition decode_quad :: "32 word \<Rightarrow> 32 word \<Rightarrow> 32 word \<Rightarrow> 32 word \<Rightarrow> byte list" where
  "decode_quad a b c d =
     (let triple = push_bit 18 a + push_bit 12 b + push_bit 6 c + d
      in [ucast (drop_bit 16 triple AND 255), ucast (drop_bit 8 triple AND 255), ucast (triple AND 255)])"

definition next_sextet :: "byte \<Rightarrow> (byte \<Rightarrow> byte) \<Rightarrow> byte list \<Rightarrow> 32 word \<Rightarrow> 32 word \<times> 32 word" where
  "next_sextet pad dec data i = (sextet pad dec (data ! unat i), i + 1)"

text \<open>Writing the bytes of a group, each only if it is inside the output.\<close>

fun store_upto :: "nat \<Rightarrow> 32 word \<Rightarrow> byte list \<Rightarrow> byte list \<Rightarrow> 32 word \<times> byte list" where
  "store_upto n j [] out = (j, out)"
| "store_upto n j (b # bs) out =
     (if unat j < n then store_upto n (j + 1) bs (out[unat j := b]) else store_upto n j bs out)"

partial_function (option) decode_from ::
  "byte \<Rightarrow> (byte \<Rightarrow> byte) \<Rightarrow> byte list \<Rightarrow> nat \<Rightarrow> 32 word \<Rightarrow> 32 word \<Rightarrow> byte list \<Rightarrow> byte list option" where
  "decode_from pad dec data output_length i j out =
     (if unat i < length data then
        (let (sextet_a, i1) = next_sextet pad dec data i;
             (sextet_b, i2) = next_sextet pad dec data i1;
             (sextet_c, i3) = next_sextet pad dec data i2;
             (sextet_d, i4) = next_sextet pad dec data i3;
             (j', out') = store_upto output_length j (decode_quad sextet_a sextet_b sextet_c sextet_d) out
         in decode_from pad dec data output_length i4 j' out')
      else Some out)"

definition decode_with :: "byte \<Rightarrow> (byte \<Rightarrow> byte) \<Rightarrow> (nat \<Rightarrow> byte) \<Rightarrow> byte list \<Rightarrow> decoded" where
  "decode_with pad dec mem data =
     (let n = length data
      in if n mod 4 \<noteq> 0 then NotMultiple
         else if n = 0 then OutOfBounds
         else if (\<exists>c \<in> set data. c \<noteq> pad \<and> 128 \<le> c) then OutOfBounds
         else
           let output_length = n div 4 * 3 - (if data ! (n - 1) = pad then 1 else 0)
                                           - (if data ! (n - 2) = pad then 1 else 0)
           in case decode_from pad dec data output_length 0 0 (map mem [0 ..< output_length]) of
                None \<Rightarrow> Endless
              | Some out \<Rightarrow> Decoded out)"

definition base64_decode :: "(byte \<Rightarrow> byte) \<Rightarrow> (nat \<Rightarrow> byte) \<Rightarrow> byte list \<Rightarrow> decoded" where
  "base64_decode junk mem data =
     decode_with (chr (CHR ''='')) (build_decoding_table base64_std_encoding_table junk) mem data"

definition cname_decode :: "(byte \<Rightarrow> byte) \<Rightarrow> (nat \<Rightarrow> byte) \<Rightarrow> byte list \<Rightarrow> decoded" where
  "cname_decode junk mem data =
     (let pad = chr (CHR ''$'');
          d = (if length data mod 4 \<noteq> 0 then data @ replicate (4 - length data mod 4) pad else data)
      in decode_with pad (build_decoding_table base64_codesafe_encoding_table junk) mem d)"

section \<open>The loops as functions of the bytes\<close>

text \<open>What the loops compute while their counters do not wrap, group by group.\<close>

fun encode_loop :: "byte list \<Rightarrow> (byte \<Rightarrow> 32 word) \<Rightarrow> byte list \<Rightarrow> byte list" where
  "encode_loop tab octet [] = []"
| "encode_loop tab octet [a] = encode_triple tab (octet a) 0 0"
| "encode_loop tab octet [a, b] = encode_triple tab (octet a) (octet b) 0"
| "encode_loop tab octet (a # b # c # ds) =
     encode_triple tab (octet a) (octet b) (octet c) @ encode_loop tab octet ds"

fun decode_loop :: "byte \<Rightarrow> (byte \<Rightarrow> byte) \<Rightarrow> byte list \<Rightarrow> byte list" where
  "decode_loop pad dec (a # b # c # d # es) =
     decode_quad (sextet pad dec a) (sextet pad dec b) (sextet pad dec c) (sextet pad dec d)
     @ decode_loop pad dec es"
| "decode_loop pad dec _ = []"

lemma triples_induct [case_names none one two more]:
  assumes "P []" and "\<And>a. P [a]" and "\<And>a b. P [a, b]" and "\<And>a b c ds. P ds \<Longrightarrow> P (a # b # c # ds)"
  shows "P (data :: byte list)"
proof (induction data rule: length_induct)
  case (1 xs)
  consider "xs = []" | a where "xs = [a]" | a b where "xs = [a, b]" | a b c ds where "xs = a # b # c # ds"
    by (metis list.exhaust)
  then show ?case using assms 1 by cases auto
qed

lemma unat_counter: "n < 2 ^ 32 \<Longrightarrow> unat (of_nat n :: 32 word) = n"
  by (simp add: unsigned_of_nat take_bit_nat_eq_self)

lemma write_bytes_append:
  "length w + length bs < 2 ^ 32 \<Longrightarrow> length bs \<le> length rest \<Longrightarrow>
   write_bytes (of_nat (length w)) bs (w @ rest) = w @ bs @ drop (length bs) rest"
proof (induction bs arbitrary: w rest)
  case (Cons b bs)
  obtain r rs where r: "rest = r # rs" using Cons.prems by (cases rest) auto
  have u: "unat (of_nat (length w) :: 32 word) = length w"
    using Cons.prems by (simp add: unat_counter)
  have "write_bytes (of_nat (length (w @ [b]))) bs ((w @ [b]) @ rs) = (w @ [b]) @ bs @ drop (length bs) rs"
    using Cons.prems r by (intro Cons.IH) simp_all
  then show ?case by (simp add: r u add.commute)
qed simp

lemma next_octet_inside:
  "data = pre @ a # suf \<Longrightarrow> length data < 2 ^ 32 \<Longrightarrow> i = of_nat (length pre) \<Longrightarrow>
   next_octet octet data i = (octet a, of_nat (length (pre @ [a])))"
  by (simp add: next_octet_def unat_counter add.commute)

lemma next_octet_end:
  "length data < 2 ^ 32 \<Longrightarrow> i = of_nat (length data) \<Longrightarrow> next_octet octet data i = (0, i)"
  by (simp add: next_octet_def unat_counter)

lemma encode_triple_length [simp]: "length (encode_triple tab a b c) = 4"
  by (simp add: encode_triple_def Let_def)

lemma encode_from_end:
  "length data < 2 ^ 32 \<Longrightarrow> i = of_nat (length data) \<Longrightarrow> encode_from tab octet data i j out = Some out"
  by (subst encode_from.simps) (simp add: unat_counter)

lemma encode_from_turn:
  assumes "length data < 2 ^ 32" and "length pre < length data" and "i = of_nat (length pre)"
    and "next_octet octet data i = (a, i1)" and "next_octet octet data i1 = (b, i2)"
    and "next_octet octet data i2 = (c, i3)" and "j = of_nat (length w)" and "length w + 4 < 2 ^ 32"
    and "4 \<le> length rest"
  shows "encode_from tab octet data i j (w @ rest) = encode_from tab octet data i3
    (of_nat (length (w @ encode_triple tab a b c))) ((w @ encode_triple tab a b c) @ drop 4 rest)"
proof -
  have "write_bytes j (encode_triple tab a b c) (w @ rest) = (w @ encode_triple tab a b c) @ drop 4 rest"
    using assms(7-9) by (simp add: write_bytes_append)
  moreover have "unat i < length data" using assms(1-3) by (simp add: unat_counter)
  moreover have "j + 4 = of_nat (length (w @ encode_triple tab a b c))" using assms(7) by simp
  ultimately show ?thesis using assms(4-6) by (subst encode_from.simps) (simp del: of_nat_add)
qed

lemma encode_from_loop:
  assumes "length (pre @ suf) + 2 < 3 * 2 ^ 30" and "3 * length w = 4 * length pre"
    and "length rest = 4 * ((length suf + 2) div 3)"
  shows "encode_from tab octet (pre @ suf) (of_nat (length pre)) (of_nat (length w)) (w @ rest) =
    Some (w @ encode_loop tab octet suf)"
  using assms
proof (induction suf arbitrary: pre w rest rule: triples_induct)
  case none
  then show ?case by (simp add: encode_from_end)
next
  case (one a)
  have d: "length (pre @ [a]) < 2 ^ 32" "length w + 4 < 2 ^ 32" "length rest = 4" using one.prems by simp_all
  note n = next_octet_inside [of _ pre a "[]", OF refl d(1) refl, of octet] next_octet_end [OF d(1) refl, of octet]
  show ?case
    using encode_from_turn [OF d(1) _ refl n(1) n(2) n(2) refl d(2)] encode_from_end [OF d(1) refl] d(3) by simp
next
  case (two a b)
  have d: "length (pre @ [a, b]) < 2 ^ 32" "length w + 4 < 2 ^ 32" "length rest = 4" using two.prems by simp_all
  have n: "next_octet octet (pre @ [a, b]) (of_nat (length pre)) = (octet a, of_nat (length (pre @ [a])))"
    "next_octet octet (pre @ [a, b]) (of_nat (length (pre @ [a]))) = (octet b, of_nat (length (pre @ [a, b])))"
    using next_octet_inside [of _ pre a "[b]" _ octet] next_octet_inside [of _ "pre @ [a]" b "[]" _ octet] d(1)
    by simp_all
  show ?case
    using encode_from_turn [OF d(1) _ refl n next_octet_end [OF d(1) refl] refl d(2)]
      encode_from_end [OF d(1) refl] d(3) by simp
next
  case (more a b c ds)
  let ?d = "pre @ a # b # c # ds" and ?t = "encode_triple tab (octet a) (octet b) (octet c)"
  have d: "length ?d < 2 ^ 32" "length w + 4 < 2 ^ 32" using more.prems(1,2) by simp_all
  have e: "(length (a # b # c # ds) + 2) div 3 = Suc ((length ds + 2) div 3)"
    using div_add_self2 [of 3 "length ds + 2"] by (simp add: ac_simps)
  then have r: "length rest = 4 + 4 * ((length ds + 2) div 3)" using more.prems(3) by (simp only:) simp
  have n: "next_octet octet ?d (of_nat (length pre)) = (octet a, of_nat (length (pre @ [a])))"
    "next_octet octet ?d (of_nat (length (pre @ [a]))) = (octet b, of_nat (length (pre @ [a, b])))"
    "next_octet octet ?d (of_nat (length (pre @ [a, b]))) = (octet c, of_nat (length (pre @ [a, b, c])))"
    using next_octet_inside [of _ pre a "b # c # ds" _ octet] d(1)
      next_octet_inside [of _ "pre @ [a]" b "c # ds" _ octet] next_octet_inside [of _ "pre @ [a, b]" c ds _ octet]
    by simp_all
  have "encode_from tab octet ((pre @ [a, b, c]) @ ds) (of_nat (length (pre @ [a, b, c])))
      (of_nat (length (w @ ?t))) ((w @ ?t) @ drop 4 rest) = Some ((w @ ?t) @ encode_loop tab octet ds)"
    using more.prems(1,2) r by (intro more.IH) simp_all
  then show ?case using encode_from_turn [OF d(1) _ refl n refl d(2)] r by simp
qed

lemma encode_with_loop:
  assumes "length data + 2 < 3 * 2 ^ 30"
  shows "encode_with tab octet pad mem data =
    Some (pad_end pad (base64_mod_table ! (length data mod 3)) (encode_loop tab octet data))"
  using encode_from_loop [of "[]" data "[]" "map mem [0 ..< 4 * ((length data + 2) div 3)]" tab octet] assms
  by (simp add: encode_with_def Let_def)

lemma store_upto_append:
  "length (w @ rest) < 2 ^ 32 \<Longrightarrow> store_upto (length (w @ rest)) (of_nat (length w)) bs (w @ rest) =
   (of_nat (length (w @ take (length rest) bs)), w @ take (length rest) bs @ drop (length bs) rest)"
proof (induction bs arbitrary: w rest)
  case (Cons b bs)
  have u: "unat (of_nat (length w) :: 32 word) = length w"
    using Cons.prems by (simp add: unat_counter)
  show ?case
  proof (cases rest)
    case Nil
    then show ?thesis using Cons.IH [of w "[]"] Cons.prems u by simp
  next
    case (Cons r rs)
    then show ?thesis using Cons.IH [of "w @ [b]" rs] Cons.prems u by (simp add: add.commute)
  qed
qed simp

lemma quads_induct [consumes 1, case_names none more]:
  assumes "length data mod 4 = 0" and "P []" and "\<And>a b c d es. P es \<Longrightarrow> P (a # b # c # d # es)"
  shows "P (data :: byte list)"
  using assms(1)
proof (induction data rule: length_induct)
  case (1 xs)
  consider "xs = []" | a where "xs = [a]" | a b where "xs = [a, b]" | a b c where "xs = [a, b, c]"
    | a b c d es where "xs = a # b # c # d # es"
    by (metis list.exhaust)
  then show ?case using assms(2,3) 1 by cases auto
qed

section \<open>Table lemmas\<close>

lemma decode_quad_length [simp]: "length (decode_quad a b c d) = 3"
  by (simp add: decode_quad_def Let_def)

lemma next_sextet_at:
  "length pre < 2 ^ 32 \<Longrightarrow> i = of_nat (length pre) \<Longrightarrow>
   next_sextet pad dec (pre @ a # suf) i = (sextet pad dec a, of_nat (length (pre @ [a])))"
  by (simp add: next_sextet_def unat_counter add.commute)

lemma decode_from_loop:
  assumes "length (pre @ suf) < 2 ^ 32" and "length suf mod 4 = 0" and "length (w @ rest) < 2 ^ 32"
  shows "decode_from pad dec (pre @ suf) (length (w @ rest)) (of_nat (length pre)) (of_nat (length w)) (w @ rest) =
    Some (w @ take (length rest) (decode_loop pad dec suf) @ drop (length (decode_loop pad dec suf)) rest)"
  using assms(2,1,3)
proof (induction suf arbitrary: pre w rest rule: quads_induct)
  case none
  then show ?case by (subst decode_from.simps) (simp add: unat_counter)
next
  case (more a b c d es)
  let ?d = "pre @ a # b # c # d # es"
  have n: "next_sextet pad dec ?d (of_nat (length pre)) = (sextet pad dec a, of_nat (length (pre @ [a])))"
    "next_sextet pad dec ?d (of_nat (length (pre @ [a]))) = (sextet pad dec b, of_nat (length (pre @ [a, b])))"
    "next_sextet pad dec ?d (of_nat (length (pre @ [a, b]))) = (sextet pad dec c, of_nat (length (pre @ [a, b, c])))"
    "next_sextet pad dec ?d (of_nat (length (pre @ [a, b, c]))) =
       (sextet pad dec d, of_nat (length (pre @ [a, b, c, d])))"
    using next_sextet_at [OF _ refl, of pre pad dec a "b # c # d # es"]
      next_sextet_at [OF _ refl, of "pre @ [a]" pad dec b "c # d # es"]
      next_sextet_at [OF _ refl, of "pre @ [a, b]" pad dec c "d # es"]
      next_sextet_at [OF _ refl, of "pre @ [a, b, c]" pad dec d es] more.prems(1) by simp_all
  let ?q = "decode_quad (sextet pad dec a) (sextet pad dec b) (sextet pad dec c) (sextet pad dec d)"
  let ?w = "w @ take (length rest) ?q" and ?r = "drop 3 rest"
  have l: "length (?w @ ?r) = length (w @ rest)" by simp
  have IH: "decode_from pad dec ((pre @ [a, b, c, d]) @ es) (length (?w @ ?r)) (of_nat (length (pre @ [a, b, c, d])))
      (of_nat (length ?w)) (?w @ ?r) =
    Some (?w @ take (length ?r) (decode_loop pad dec es) @ drop (length (decode_loop pad dec es)) ?r)"
    using more.prems by (intro more.IH) simp_all
  have p: "unat (of_nat (length pre) :: 32 word) < length ?d" using more.prems(1) by (simp add: unat_counter)
  have "store_upto (length (?w @ ?r)) (of_nat (length w)) ?q (w @ rest) = (of_nat (length ?w), ?w @ ?r)"
    unfolding l using store_upto_append [OF more.prems(2), of ?q] by (simp only: decode_quad_length append_assoc)
  then have "decode_from pad dec ?d (length (w @ rest)) (of_nat (length pre)) (of_nat (length w)) (w @ rest) =
    decode_from pad dec ((pre @ [a, b, c, d]) @ es) (length (?w @ ?r)) (of_nat (length (pre @ [a, b, c, d])))
      (of_nat (length ?w)) (?w @ ?r)"
    unfolding l by (subst decode_from.simps) (simp only: p n Let_def if_True prod.case append_assoc append_Cons append_Nil)
  then show ?case unfolding IH by (simp add: take_Cons' drop_Cons' min_def add.commute)
qed

lemma table_fill:
  assumes "distinct tab" and "k < n" and "n \<le> length tab"
  shows "foldl (\<lambda>t i. t(tab ! i := of_nat i)) junk [0 ..< n] (tab ! k) = of_nat k"
  using assms(2,3)
proof (induction n)
  case (Suc n)
  show ?case
  proof (cases "k = n")
    case False
    then have "tab ! n \<noteq> tab ! k" using Suc.prems assms(1) by (simp add: nth_eq_iff_index_eq)
    then show ?thesis using Suc False by simp
  qed simp
qed simp

text \<open>What both alphabets have: 64 distinct ASCII characters, the padding not among them.\<close>

definition alphabet :: "byte list \<Rightarrow> byte \<Rightarrow> bool" where
  "alphabet tab pad \<longleftrightarrow> length tab = 64 \<and> distinct tab \<and> pad \<notin> set tab \<and> pad < 128 \<and> (\<forall>c \<in> set tab. 0 < c \<and> c < 128)"

lemma std_alphabet: "alphabet base64_std_encoding_table (chr (CHR ''=''))"
  unfolding alphabet_def by (intro conjI) code_simp+

lemma codesafe_alphabet: "alphabet base64_codesafe_encoding_table (chr (CHR ''$''))"
  unfolding alphabet_def by (intro conjI) code_simp+

lemma sextet_table:
  assumes "alphabet tab pad" and "k < 64"
  shows "sextet pad (build_decoding_table tab junk) (tab ! k) = of_nat k"
proof -
  have "tab ! k \<in> set tab" using assms by (simp add: alphabet_def)
  then have "tab ! k \<noteq> pad" using assms by (auto simp: alphabet_def)
  moreover have "build_decoding_table tab junk (tab ! k) = of_nat k"
    using table_fill [of tab k 64 junk] assms by (simp add: alphabet_def build_decoding_table_def)
  moreover have "sint (of_nat k :: byte) = int k"
    using assms(2) by (simp add: signed_of_nat signed_take_bit_int_eq_self)
  ultimately show ?thesis by (simp add: sextet_def scast_eq)
qed

lemma sextet_pad: "sextet pad dec pad = 0"
  by (simp add: sextet_def)

section \<open>One group\<close>

text \<open>The value of a group of three octets.\<close>

definition group :: "nat \<Rightarrow> nat \<Rightarrow> nat \<Rightarrow> nat" where
  "group a b c = 65536 * a + 256 * b + c"

lemma unat_and_63: "unat ((w :: 32 word) AND 63) = unat w mod 64"
proof -
  have "(63 :: 32 word) = mask 6" by (simp add: mask_eq_exp_minus_1)
  then have "w AND 63 = take_bit 6 w" by (simp add: take_bit_eq_mask)
  then show ?thesis by (simp add: take_bit_eq_mod unat_mod_distrib)
qed

lemma unat_and_255: "unat ((w :: 32 word) AND 255) = unat w mod 256"
proof -
  have "(255 :: 32 word) = mask 8" by (simp add: mask_eq_exp_minus_1)
  then have "w AND 255 = take_bit 8 w" by (simp add: take_bit_eq_mask)
  then show ?thesis by (simp add: take_bit_eq_mod unat_mod_distrib)
qed

lemma unat_drop: "unat (drop_bit n (w :: 32 word)) = unat w div 2 ^ n"
  using unsigned_less [of w, where ?'a = nat]
  by (simp only: unsigned_drop_bit_eq) (simp add: drop_bit_eq_div take_bit_eq_mod)

lemma byte_lt: "unat (a :: byte) < 256"
  using unsigned_less [of a, where ?'a = nat] by simp

lemma byte_unat: "unat (w :: 32 word) = unat (a :: byte) \<Longrightarrow> ucast w = a"
proof -
  assume "unat w = unat a"
  then have "unat (ucast w :: byte) = unat a"
    using byte_lt [of a] by (simp add: unsigned_ucast_eq take_bit_eq_mod)
  then show ?thesis by (simp add: word_unat_eq_iff)
qed

lemma triple_group:
  "unat (push_bit 16 (ucast (a :: byte)) + push_bit 8 (ucast (b :: byte)) + (ucast (c :: byte) :: 32 word))
   = group (unat a) (unat b) (unat c)"
proof -
  have u: "unat (ucast x :: 32 word) = unat x" for x :: byte
    using byte_lt [of x] by (simp add: unsigned_ucast_eq take_bit_eq_mod)
  have p: "unat (push_bit 16 (ucast a :: 32 word)) = 65536 * unat a"
    using byte_lt [of a] by (simp add: push_bit_eq_mult unat_word_ariths u)
  have q: "unat (push_bit 8 (ucast b :: 32 word)) = 256 * unat b"
    using byte_lt [of b] by (simp add: push_bit_eq_mult unat_word_ariths u)
  show ?thesis
    using byte_lt [of a] byte_lt [of b] byte_lt [of c]
    by (simp add: unat_word_ariths p q u group_def)
qed

lemma encode_triple_bytes:
  "encode_triple tab (ucast (a :: byte)) (ucast (b :: byte)) (ucast (c :: byte)) =
     (let g = group (unat a) (unat b) (unat c)
      in [tab ! (g div 262144 mod 64), tab ! (g div 4096 mod 64), tab ! (g div 64 mod 64), tab ! (g mod 64)])"
  by (simp add: encode_triple_def Let_def unat_and_63 unat_drop triple_group)

lemma sextets_group:
  assumes "s0 < 64" "s1 < 64" "s2 < 64" "s3 < 64"
  shows "unat (push_bit 18 (of_nat s0) + push_bit 12 (of_nat s1) + push_bit 6 (of_nat s2) + (of_nat s3 :: 32 word))
    = 262144 * s0 + 4096 * s1 + 64 * s2 + s3"
proof -
  have "push_bit 18 (of_nat s0) + push_bit 12 (of_nat s1) + push_bit 6 (of_nat s2) + (of_nat s3 :: 32 word)
    = of_nat (262144 * s0 + 4096 * s1 + 64 * s2 + s3)"
    by (simp add: push_bit_eq_mult)
  also have "unat \<dots> = 262144 * s0 + 4096 * s1 + 64 * s2 + s3"
    using assms by (subst unsigned_of_nat) (simp add: take_bit_eq_mod)
  finally show ?thesis .
qed

lemma split_group: "g < 16777216 \<Longrightarrow>
  262144 * (g div 262144 mod 64) + 4096 * (g div 4096 mod 64) + 64 * (g div 64 mod 64) + g mod 64 = (g :: nat)"
proof -
  assume g: "g < 16777216"
  have "g div 262144 < 64" using g by (simp add: less_mult_imp_div_less)
  moreover have "g = 64 * (g div 64) + g mod 64" by simp
  moreover have "g div 64 = 64 * (g div 4096) + g div 64 mod 64"
    using mult_div_mod_eq [of 64 "g div 64"] by (simp add: div_mult2_eq [symmetric])
  moreover have "g div 4096 = 64 * (g div 262144) + g div 4096 mod 64"
    using mult_div_mod_eq [of 64 "g div 4096"] by (simp add: div_mult2_eq [symmetric])
  ultimately show ?thesis by (simp only: mod_less)
qed

lemma group_lt: "group (unat (a :: byte)) (unat (b :: byte)) (unat (c :: byte)) < 16777216"
  using byte_lt [of a] byte_lt [of b] byte_lt [of c] by (simp add: group_def)

lemma group_parts:
  "group (unat (a :: byte)) (unat (b :: byte)) (unat (c :: byte)) div 65536 mod 256 = unat a"
  "group (unat a) (unat b) (unat c) div 256 mod 256 = unat b"
  "group (unat a) (unat b) (unat c) mod 256 = unat c"
proof -
  let ?g = "group (unat a) (unat b) (unat c)"
  have g: "?g = unat c + 256 * (unat b + 256 * unat a)" by (simp add: group_def)
  have d: "?g div 256 = unat b + 256 * unat a" unfolding g using byte_lt [of c] by simp
  have "?g div 65536 = ?g div 256 div 256" by (simp add: div_mult2_eq [symmetric])
  then have "?g div 65536 = unat a" unfolding d using byte_lt [of b] by simp
  then show "?g div 65536 mod 256 = unat a" using byte_lt [of a] by simp
  show "?g div 256 mod 256 = unat b" unfolding d using byte_lt [of b] by simp
  have "(unat c + 256 * k) mod 256 = unat c" for k using byte_lt [of c] by simp
  then show "?g mod 256 = unat c" unfolding g .
qed

text \<open>Decoding the four sextets of a group gives its three octets.\<close>

lemma decode_group:
  fixes a b c :: byte
  defines "g \<equiv> group (unat a) (unat b) (unat c)"
  shows "decode_quad (of_nat (g div 262144 mod 64)) (of_nat (g div 4096 mod 64))
    (of_nat (g div 64 mod 64)) (of_nat (g mod 64)) = [a, b, c]"
proof -
  define T :: "32 word" where "T = push_bit 18 (of_nat (g div 262144 mod 64)) +
      push_bit 12 (of_nat (g div 4096 mod 64)) + push_bit 6 (of_nat (g div 64 mod 64)) + of_nat (g mod 64)"
  have t: "unat T = g"
    unfolding T_def g_def by (rule trans [OF sextets_group split_group]) (simp_all add: group_lt)
  have "ucast (drop_bit 16 T AND 255) = a" "ucast (drop_bit 8 T AND 255) = b" "ucast (T AND 255) = c"
    by (rule byte_unat, simp add: unat_and_255 unat_drop t, simp add: g_def group_parts)+
  then show ?thesis unfolding decode_quad_def Let_def T_def by simp
qed

section \<open>Round trip\<close>

definition quad_of :: "byte list \<Rightarrow> byte \<Rightarrow> byte \<Rightarrow> byte \<Rightarrow> byte list" where
  "quad_of tab a b c = encode_triple tab (ucast a) (ucast b) (ucast c)"

lemma decode_full:
  assumes "alphabet tab pad"
  shows "decode_loop pad (build_decoding_table tab junk) (quad_of tab a b c @ es)
    = [a, b, c] @ decode_loop pad (build_decoding_table tab junk) es"
  unfolding quad_of_def encode_triple_bytes Let_def
  by (simp add: sextet_table [OF assms] decode_group)

lemma quad_length [simp]: "length (quad_of tab a b c) = 4"
  by (simp add: quad_of_def encode_triple_def Let_def)

lemma quad_set: "length tab = 64 \<Longrightarrow> set (quad_of tab a b c) \<subseteq> set tab"
  by (simp add: quad_of_def encode_triple_bytes Let_def)

lemma quad_tab: "quad_of tab a b c = (let g = group (unat a) (unat b) (unat c)
   in [tab ! (g div 262144 mod 64), tab ! (g div 4096 mod 64), tab ! (g div 64 mod 64), tab ! (g mod 64)])"
  by (simp add: quad_of_def encode_triple_bytes)

lemma group_tail: "group x y 0 mod 64 = 0" "group x 0 0 div 64 mod 64 = 0"
proof -
  have "group x y 0 = 64 * (1024 * x + 4 * y)" by (simp add: group_def)
  then show "group x y 0 mod 64 = 0" by simp
  have "group x 0 0 div 64 = 64 * (16 * x)" by (simp add: group_def)
  then show "group x 0 0 div 64 mod 64 = 0" by simp
qed

lemma decode_two:
  assumes "alphabet tab pad"
  shows "decode_loop pad (build_decoding_table tab junk) (take 3 (quad_of tab a b 0) @ [pad]) = [a, b, 0]"
  using decode_group [of a b 0]
  by (simp only: quad_tab Let_def) (simp add: group_tail sextet_table [OF assms] sextet_pad)

lemma decode_one:
  assumes "alphabet tab pad"
  shows "decode_loop pad (build_decoding_table tab junk) (take 2 (quad_of tab a 0 0) @ [pad, pad]) = [a, 0, 0]"
  using decode_group [of a 0 0] group_tail(1) [of "unat a" 0]
  by (simp only: quad_tab Let_def) (simp add: group_tail sextet_table [OF assms] sextet_pad)

text \<open>The padding writes over the last \<open>k\<close> characters.\<close>

lemma pad_end_take: "k \<le> length out \<Longrightarrow> pad_end pad k out = take (length out - k) out @ replicate k pad"
proof (induction k)
  case (Suc k)
  have l: "length (pad_end pad k out) = length out" for k
    by (induction k) (simp_all add: pad_end_def)
  have "pad_end pad (Suc k) out = (pad_end pad k out)[length out - 1 - k := pad]"
    using l [of k] by (simp add: pad_end_def)
  also have "pad_end pad k out = take (length out - k) out @ replicate k pad" using Suc by simp
  also have "take (length out - k) out = take (length out - Suc k) out @ [out ! (length out - Suc k)]"
    using Suc.prems by (metis Suc_diff_Suc Suc_le_lessD diff_less_mono2 lessI take_Suc_conv_app_nth
        zero_less_diff diff_less length_greater_0_conv less_nat_zero_code list.size(3) zero_less_Suc)
  finally show ?case using Suc.prems by (simp add: list_update_append)
qed (simp add: pad_end_def)

definition pads :: "nat \<Rightarrow> nat" where
  "pads n = base64_mod_table ! (n mod 3)"

lemma pads_simps [simp]:
  "pads 0 = 0" "pads (Suc 0) = 2" "pads (Suc (Suc 0)) = 1" "pads (Suc (Suc (Suc n))) = pads n"
  by (simp_all add: pads_def base64_mod_table_def mod_Suc_eq_mod_add3)

definition padded :: "byte list \<Rightarrow> byte \<Rightarrow> byte list \<Rightarrow> byte list" where
  "padded tab pad data = pad_end pad (pads (length data)) (encode_loop tab ucast data)"

lemma encode_length: "length (encode_loop tab octet data) = 4 * ((length data + 2) div 3)"
proof (induction tab octet data rule: encode_loop.induct)
  case (4 tab octet a b c ds)
  have "(length (a # b # c # ds) + 2) div 3 = Suc ((length ds + 2) div 3)"
    using div_add_self2 [of 3 "length ds + 2"] by (simp add: ac_simps)
  then show ?case using 4 by (simp only: encode_loop.simps length_append) (simp add: encode_triple_def Let_def)
qed (simp_all add: encode_triple_def Let_def)

lemma pads_le: "pads (length data) \<le> length (encode_loop tab octet data)"
  by (induction tab octet data rule: encode_loop.induct) (simp_all add: encode_triple_def Let_def)

lemma padded_simps:
  "padded tab pad [] = []"
  "padded tab pad [a] = take 2 (quad_of tab a 0 0) @ [pad, pad]"
  "padded tab pad [a, b] = take 3 (quad_of tab a b 0) @ [pad]"
  "padded tab pad (a # b # c # ds) = quad_of tab a b c @ padded tab pad ds"
proof -
  have q: "encode_loop tab ucast [a] = quad_of tab a 0 0" "encode_loop tab ucast [a, b] = quad_of tab a b 0"
    "encode_loop tab ucast (a # b # c # ds) = quad_of tab a b c @ encode_loop tab ucast ds"
    by (simp_all add: quad_of_def)
  show "padded tab pad [] = []" by (simp add: padded_def pad_end_def)
  show "padded tab pad [a] = take 2 (quad_of tab a 0 0) @ [pad, pad]"
    by (simp only: padded_def q) (simp add: pad_end_take numeral_2_eq_2)
  show "padded tab pad [a, b] = take 3 (quad_of tab a b 0) @ [pad]"
    by (simp only: padded_def q) (simp add: pad_end_take)
  show "padded tab pad (a # b # c # ds) = quad_of tab a b c @ padded tab pad ds"
    using pads_le [of ds tab ucast] by (simp only: padded_def q) (simp add: pad_end_take)
qed

lemma replicate_2: "replicate 2 z = [z, z]"
  by (simp add: numeral_2_eq_2)

lemma padded_decode:
  assumes "alphabet tab pad"
  shows "decode_loop pad (build_decoding_table tab junk) (padded tab pad data) =
    data @ replicate (pads (length data)) 0"
  by (induction data rule: triples_induct)
    (simp_all add: padded_simps decode_full [OF assms] decode_one [OF assms] decode_two [OF assms] replicate_2)

lemma pads_arith: "n + pads n = (n + 2) div 3 * 3" "pads n \<le> 2"
proof -
  define q where "q = n div 3"
  have n: "n = 3 * q + n mod 3" by (simp add: q_def)
  have d: "(3 * q + k) div 3 = q + k div 3" for k by simp
  consider "n mod 3 = 0" | "n mod 3 = 1" | "n mod 3 = 2" by linarith
  then show "n + pads n = (n + 2) div 3 * 3"
  proof cases
    case 1
    with n have "n = 3 * q" by linarith
    then show ?thesis using 1 d [of 2] by (simp add: pads_def base64_mod_table_def)
  next
    case 2
    with n have "n = 3 * q + 1" by linarith
    then show ?thesis using 2 d [of 3] by (simp add: pads_def base64_mod_table_def)
  next
    case 3
    with n have "n = 3 * q + 2" by linarith
    then show ?thesis using 3 d [of 4] by (simp add: pads_def base64_mod_table_def)
  qed
  have "n mod 3 = 0 \<or> n mod 3 = 1 \<or> n mod 3 = 2" by linarith
  then show "pads n \<le> 2" by (auto simp: pads_def base64_mod_table_def)
qed

text \<open>The last two characters tell how much padding there is.\<close>

lemma padded_set: "alphabet tab pad \<Longrightarrow> set (padded tab pad data) \<subseteq> insert pad (set tab)"
proof (induction data rule: triples_induct)
  case (one a)
  then show ?case using quad_set [of tab a 0 0] set_take_subset [of 2 "quad_of tab a 0 0"]
    by (auto simp: padded_simps alphabet_def)
next
  case (two a b)
  then show ?case using quad_set [of tab a b 0] set_take_subset [of 3 "quad_of tab a b 0"]
    by (auto simp: padded_simps alphabet_def)
next
  case (more a b c ds)
  then show ?case using quad_set [of tab a b c] by (auto simp: padded_simps alphabet_def)
qed (simp add: padded_simps)

lemma padded_length: "length (padded tab pad data) = 4 * ((length data + 2) div 3)"
  using pads_le [of data tab ucast]
  by (simp add: padded_def pad_end_take encode_length)

lemma padded_end:
  assumes "alphabet tab pad" and "data \<noteq> []"
  shows "(padded tab pad data ! (length (padded tab pad data) - 1) = pad \<longleftrightarrow> 1 \<le> pads (length data)) \<and>
    (padded tab pad data ! (length (padded tab pad data) - 2) = pad \<longleftrightarrow> pads (length data) = 2)"
  using assms(2)
proof (induction data rule: triples_induct)
  case (one a)
  then show ?case by (simp add: padded_simps nth_append)
next
  case (two a b)
  have "quad_of tab a b 0 ! 2 \<in> set tab" using quad_set [of tab a b 0] assms(1) by (auto simp: alphabet_def subset_iff)
  then show ?case using assms(1) by (auto simp: padded_simps nth_append alphabet_def)
next
  case (more a b c ds)
  show ?case
  proof (cases "ds = []")
    case True
    have "quad_of tab a b c ! 2 \<in> set tab" "quad_of tab a b c ! 3 \<in> set tab"
      using quad_set [of tab a b c] assms(1) by (auto simp: alphabet_def subset_iff)
    then show ?thesis using assms(1) by (auto simp: padded_simps True alphabet_def)
  next
    case False
    then have l: "4 \<le> length (padded tab pad ds)" by (cases ds) (simp_all add: padded_length)
    then have "padded tab pad ds \<noteq> []" by auto
    with l show ?thesis using more.IH [OF False] by (simp add: padded_simps nth_append)
  qed
qed simp

lemma decode_padded:
  assumes a: "alphabet tab pad" and d: "data \<noteq> []" and b: "length data + 2 < 3 * 2 ^ 30"
  shows "decode_with pad (build_decoding_table tab junk) mem (padded tab pad data) = Decoded data"
proof -
  let ?e = "padded tab pad data" and ?k = "pads (length data)"
  have l: "length ?e = 4 * ((length data + 2) div 3)" by (rule padded_length)
  have n: "length data + ?k = length ?e div 4 * 3"
    unfolding l using pads_arith(1) [of "length data"] by simp
  have ne: "length ?e \<noteq> 0" using d l by (cases data) simp_all
  have asc: "\<not> (\<exists>c \<in> set ?e. c \<noteq> pad \<and> 128 \<le> c)"
    using padded_set [OF a, of data] a by (auto simp: alphabet_def not_le [symmetric])
  note e = padded_end [OF a d]
  have k: "?k = 0 \<or> ?k = 1 \<or> ?k = 2" using pads_arith(2) [of "length data"] by linarith
  then have out: "length ?e div 4 * 3 - (if ?e ! (length ?e - 1) = pad then 1 else 0)
      - (if ?e ! (length ?e - 2) = pad then 1 else 0) = length data"
    using e n by auto
  have m: "length ?e mod 4 = 0" unfolding l by simp
  have le: "length ?e < 2 ^ 32" "length data < 2 ^ 32" using b unfolding l by simp_all
  have "decode_from pad (build_decoding_table tab junk) ?e (length data) 0 0 (map mem [0 ..< length data]) =
      Some data"
    using decode_from_loop [of "[]" ?e "[]" "map mem [0 ..< length data]" pad "build_decoding_table tab junk"] m le
    by (simp add: padded_decode [OF a])
  then show ?thesis
    unfolding decode_with_def Let_def using ne asc m
    by (simp only: out if_False not_True_eq_False not_False_eq_True option.case simp_thms)
qed

section \<open>Guarantees\<close>

text \<open>C32: For every non-empty sequence of fewer than 3 * 2^30 - 2 bytes (longer ones overflow the
  32-bit counters of the loops) \<open>base64_encode\<close> returns, and \<open>base64_decode\<close> of its result gives the
  sequence back, whatever the uninitialised entries of the decoding table and the fresh buffers hold.\<close>

theorem base64_round_trip:
  assumes "data \<noteq> []" and "length data + 2 < 3 * 2 ^ 30"
  shows "\<exists>e. base64_encode mem data = Some e \<and> base64_decode junk mem' e = Decoded data"
  using decode_padded [OF std_alphabet assms, of junk mem'] encode_with_loop [OF assms(2)]
  by (simp add: base64_decode_def base64_encode_def padded_def pads_def)

lemma base64_round_trip_witness:
  "\<exists>e. base64_encode (\<lambda>_. 3) [0, 255, 128, 61] = Some e \<and> base64_decode (\<lambda>_. 7) (\<lambda>_. 5) e = Decoded [0, 255, 128, 61]"
  by (rule base64_round_trip) simp_all

lemma scast_ascii: "(a :: byte) < 128 \<Longrightarrow> (scast a :: 32 word) = ucast a"
proof -
  assume "a < 128"
  then have u: "unat a < 128" by (simp add: word_less_nat_alt)
  define k where "k = unat a"
  have k: "a = of_nat k" "k < 128" using u by (simp_all add: k_def)
  have "sint (of_nat k :: byte) = int k"
    using k(2) by (simp add: signed_of_nat signed_take_bit_int_eq_self)
  moreover have "(ucast a :: 32 word) = of_nat k" unfolding k_def by transfer (simp add: take_bit_eq_mod)
  ultimately show ?thesis by (simp add: k(1) scast_eq)
qed

lemma encode_loop_ascii:
  "\<forall>a \<in> set data. a < 128 \<Longrightarrow> encode_loop tab scast data = encode_loop tab ucast data"
  by (induction data rule: triples_induct) (simp_all add: scast_ascii)

lemma encode_loop_set: "length tab = 64 \<Longrightarrow> set (encode_loop tab ucast data) \<subseteq> set tab"
proof (induction data rule: triples_induct)
  case (one a)
  then show ?case using quad_set [of tab a 0 0] by (simp add: quad_of_def)
next
  case (two a b)
  then show ?case using quad_set [of tab a b 0] by (simp add: quad_of_def)
next
  case (more a b c ds)
  then show ?case using quad_set [of tab a b c] by (simp add: quad_of_def)
qed simp

text \<open>The encoded name as a C string: up to the first zero byte.\<close>

definition c_string :: "byte list \<Rightarrow> byte list" where
  "c_string bs = takeWhile (\<lambda>b. b \<noteq> 0) bs"

lemma c_string_cname:
  assumes "\<forall>a \<in> set data. a < 128" and "length data + 2 < 3 * 2 ^ 30"
    and "cname_encode mem data = Some e"
  shows "c_string e =
    take (length (encode_loop base64_codesafe_encoding_table ucast data) - pads (length data))
      (encode_loop base64_codesafe_encoding_table ucast data)"
proof -
  let ?t = "base64_codesafe_encoding_table" let ?e = "encode_loop ?t ucast data"
  have "e = take (length ?e - pads (length data)) ?e @ replicate (pads (length data)) 0"
    using pads_le [of data ?t ucast] encode_loop_ascii [OF assms(1), of ?t] assms(3)
    by (simp add: cname_encode_def encode_with_loop [OF assms(2)] pad_end_take flip: pads_def)
  moreover have "\<forall>b \<in> set (take k ?e). b \<noteq> 0" for k
    using encode_loop_set [of ?t data] codesafe_alphabet set_take_subset [of k ?e]
    by (fastforce simp: alphabet_def)
  ultimately show ?thesis by (simp add: c_string_def takeWhile_append2)
qed

text \<open>\<open>cname_decode\<close> undoes \<open>cname_encode\<close>, read as a C string, for every non-empty sequence
  of ASCII characters whose length the loops' counters can hold, and the encoded name holds only characters of the codesafe alphabet.\<close>

theorem cname_round_trip:
  assumes "data \<noteq> []" and "\<forall>a \<in> set data. a < 128" and "length data + 2 < 3 * 2 ^ 30"
  shows "\<exists>e. cname_encode mem data = Some e \<and> cname_decode junk mem' (c_string e) = Decoded data \<and>
    set (c_string e) \<subseteq> set base64_codesafe_encoding_table"
proof -
  obtain e where e: "cname_encode mem data = Some e"
    using encode_with_loop [OF assms(3)] by (simp add: cname_encode_def)
  let ?t = "base64_codesafe_encoding_table" and ?pad = "chr (CHR ''$'')"
  let ?e = "encode_loop ?t ucast data" and ?k = "pads (length data)"
  let ?c = "c_string e"
  note c = c_string_cname [OF assms(2,3) e]
  have l: "length ?e = 4 * ((length data + 2) div 3)" by (rule encode_length)
  have k: "?k \<le> 2" "?k \<le> length ?e" using pads_arith(2) pads_le by simp_all
  have lc: "length ?c = 4 * ((length data + 2) div 3) - ?k" unfolding c by (simp add: l)
  have p: "padded ?t ?pad data = ?c @ replicate ?k ?pad"
    using k(2) by (simp add: padded_def pad_end_take c)
  have "(if length ?c mod 4 \<noteq> 0 then ?c @ replicate (4 - length ?c mod 4) ?pad else ?c) = padded ?t ?pad data"
  proof (cases "?k = 0")
    case True
    then show ?thesis by (simp add: p lc)
  next
    case False
    obtain a ds where "data = a # ds" using assms(1) by (cases data) auto
    then have "length data + 2 = 3 + length ds" by simp
    moreover have "(3 + length ds) div 3 = Suc (length ds div 3)"
      using div_add_self1 [of 3 "length ds"] by linarith
    ultimately have m: "(length data + 2) div 3 = Suc (length ds div 3)" by (simp only:)
    have "length ?c = 4 * (length ds div 3) + (4 - ?k)" unfolding lc m using k(1) False by simp
    then have "length ?c mod 4 = (4 - ?k) mod 4" by simp
    then have "length ?c mod 4 = 4 - ?k" using False k(1) by simp
    then show ?thesis using k(1) False by (simp add: p)
  qed
  then have "cname_decode junk mem' ?c = Decoded data"
    using decode_padded [OF codesafe_alphabet assms(1,3), of junk mem'] by (simp add: cname_decode_def Let_def)
  moreover have "set ?c \<subseteq> set ?t"
    unfolding c using encode_loop_set [of ?t data] codesafe_alphabet
    by (auto simp: alphabet_def dest!: in_set_takeD)
  ultimately show ?thesis using e by blast
qed

lemma cname_round_trip_witness:
  "\<exists>e. cname_encode (\<lambda>_. 3) [102, 111, 43, 63] = Some e \<and>
     cname_decode (\<lambda>_. 0) (\<lambda>_. 0) (c_string e) = Decoded [102, 111, 43, 63]"
  using cname_round_trip [of "[102, 111, 43, 63]" "\<lambda>_. 3" "\<lambda>_. 0" "\<lambda>_. 0"] by auto

text \<open>\<open>cname_encode\<close> takes \<open>char\<close>s, which are sign-extended: the two bytes of a non-ASCII
  UTF-8 character do not survive, and the name decodes to different bytes.\<close>

theorem cname_loses_non_ascii:
  "map_option (cname_decode (\<lambda>_. 0) (\<lambda>_. 0) \<circ> c_string) (cname_encode (\<lambda>_. 0) [195, 169]) =
     Some (Decoded [194, 169])"
proof -
  have "pad_end 0 (base64_mod_table ! (length [195, 169 :: byte] mod 3))
      (encode_loop base64_codesafe_encoding_table scast [195, 169]) = [119, 113, 107, 0]" by code_simp
  then have "cname_encode (\<lambda>_. 0) [195, 169] = Some [119, 113, 107, 0]"
    by (simp add: cname_encode_def encode_with_loop)
  moreover have "padded base64_codesafe_encoding_table (chr (CHR ''$'')) [194, 169] =
      [119, 113, 107, chr (CHR ''$'')]"
    by code_simp
  then have "cname_decode (\<lambda>_. 0) (\<lambda>_. 0) [119, 113, 107] = Decoded [194, 169]"
    using decode_padded [OF codesafe_alphabet, of "[194, 169]" "\<lambda>_. 0" "\<lambda>_. 0"]
    by (simp add: cname_decode_def Let_def)
  ultimately show ?thesis by (simp add: c_string_def)
qed

end
