(* ===== verification/Osc_Codec.thy ===== *)
theory Osc_Codec
  imports Doubles
begin

unbundle bit_operations_syntax

text \<open>
  The wire format of Open Sound Control in \<open>src/OSC.cpp\<close>: byte swapping, and the \<open>getOSC*\<close> and
  \<open>setOSC*\<close> functions for strings, integers, floats and time tags. A setter gives the bytes it
  writes; a getter reads a buffer at a position and gives the number of bytes consumed and the
  value. Floats are their bit patterns. An access outside the buffer is \<open>OutOfBuffer\<close>, the exception
  of \<open>std::string::at\<close> is \<open>OutOfRange\<close>.
\<close>

datatype osc_error = OutOfBuffer | OutOfRange

section \<open>Words as bytes\<close>

text \<open>The host is little-endian: the least significant byte comes first in memory.\<close>

definition bytes4 :: "32 word \<Rightarrow> byte list" where
  "bytes4 w = [ucast w, ucast (drop_bit 8 w), ucast (drop_bit 16 w), ucast (drop_bit 24 w)]"

definition word4 :: "byte list \<Rightarrow> 32 word" where
  "word4 bs = foldr (\<lambda>b acc. push_bit 8 acc OR ucast b) bs 0"

definition bytes8 :: "64 word \<Rightarrow> byte list" where
  "bytes8 w = [ucast w, ucast (drop_bit 8 w), ucast (drop_bit 16 w), ucast (drop_bit 24 w),
     ucast (drop_bit 32 w), ucast (drop_bit 40 w), ucast (drop_bit 48 w), ucast (drop_bit 56 w)]"

definition word8 :: "byte list \<Rightarrow> 64 word" where
  "word8 bs = foldr (\<lambda>b acc. push_bit 8 acc OR ucast b) bs 0"

text \<open>The eight swap functions copy the bytes in reverse order.\<close>

definition swap32i :: "32 word \<Rightarrow> 32 word" where
  "swap32i f = word4 (rev (bytes4 f))"

definition unswap32i :: "32 word \<Rightarrow> 32 word" where
  "unswap32i a = word4 (rev (bytes4 a))"

definition swap32f :: "32 word \<Rightarrow> 32 word" where
  "swap32f f = word4 (rev (bytes4 f))"

definition unswap32f :: "32 word \<Rightarrow> 32 word" where
  "unswap32f a = word4 (rev (bytes4 a))"

definition swap64i :: "64 word \<Rightarrow> 64 word" where
  "swap64i d = word8 (rev (bytes8 d))"

definition unswap64i :: "64 word \<Rightarrow> 64 word" where
  "unswap64i a = word8 (rev (bytes8 a))"

definition swap64f :: "64 word \<Rightarrow> 64 word" where
  "swap64f d = word8 (rev (bytes8 d))"

definition unswap64f :: "64 word \<Rightarrow> 64 word" where
  "unswap64f a = word8 (rev (bytes8 a))"

section \<open>Reading a buffer\<close>

definition at_buf :: "byte list \<Rightarrow> int \<Rightarrow> nat \<Rightarrow> osc_error + byte list" where
  "at_buf data pos n =
     (if 0 \<le> pos \<and> pos + int n \<le> int (length data) then Inr (take n (drop (nat pos) data))
      else Inl OutOfBuffer)"

definition getOSCInt :: "byte list \<Rightarrow> int \<Rightarrow> osc_error + int \<times> 32 word" where
  "getOSCInt data pos = ebind (at_buf data pos 4) (\<lambda>bs. Inr (4, unswap32i (word4 bs)))"

definition getOSCfloat :: "byte list \<Rightarrow> int \<Rightarrow> osc_error + int \<times> 32 word" where
  "getOSCfloat data pos = ebind (at_buf data pos 4) (\<lambda>bs. Inr (4, unswap32f (word4 bs)))"

definition getOSCLong :: "byte list \<Rightarrow> int \<Rightarrow> osc_error + int \<times> 64 word" where
  "getOSCLong data pos = ebind (at_buf data pos 8) (\<lambda>bs. Inr (8, unswap64i (word8 bs)))"

definition getOSCdouble :: "byte list \<Rightarrow> int \<Rightarrow> osc_error + int \<times> 64 word" where
  "getOSCdouble data pos = ebind (at_buf data pos 8) (\<lambda>bs. Inr (8, unswap64f (word8 bs)))"

text \<open>
  The time tag: seconds and a binary fraction in 32 bits each; 3187296000 is the offset of the
  sender's clock. A tag of 0 and 1 means immediately.
\<close>

definition getOSCTimestamp :: "byte list \<Rightarrow> int \<Rightarrow> osc_error + int \<times> double" where
  "getOSCTimestamp data pos =
     ebind (at_buf data pos 4) (\<lambda>s. ebind (at_buf data (pos + 4) 4) (\<lambda>f.
       let seconds = uint (unswap32i (word4 s)); fractional = unswap32i (word4 f)
       in if seconds = 0 \<and> fractional = 1 then Inr (8, fp_of_int 0)
          else Inr (8, fp_add (fp_of_int (seconds - 3187296000)) (fp_div (fp_of_int (uint fractional)) (fp_of_int 4294967296)))))"

text \<open>
  \<open>getOSCString\<close>: up to 4096 characters to the first zero byte; the count is rounded up to a
  multiple of four past the zero. Then every quote that no backslash precedes gets one; the
  character before the first is read with \<open>at\<close>, which throws.
\<close>

fun scan_cstr :: "nat \<Rightarrow> byte list \<Rightarrow> osc_error + byte list" where
  "scan_cstr 0 bs = Inr []"
| "scan_cstr (Suc k) [] = Inl OutOfBuffer"
| "scan_cstr (Suc k) (b # bs) = (if b = 0 then Inr [] else ebind (scan_cstr k bs) (\<lambda>s. Inr (b # s)))"

fun quote_from :: "byte \<Rightarrow> byte list \<Rightarrow> byte list" where
  "quote_from prev [] = []"
| "quote_from prev (c # cs) =
     (if c = 34 \<and> prev \<noteq> 92 then 92 # c # quote_from c cs else c # quote_from c cs)"

definition quote_quotes :: "byte list \<Rightarrow> osc_error + byte list" where
  "quote_quotes s = (case s of [] \<Rightarrow> Inr []
     | c # cs \<Rightarrow> if c = 34 then Inl OutOfRange else Inr (c # quote_from c cs))"

definition getOSCString :: "byte list \<Rightarrow> int \<Rightarrow> osc_error + int \<times> byte list" where
  "getOSCString data pos =
     (if pos < 0 \<or> int (length data) < pos then Inl OutOfBuffer
      else ebind (scan_cstr 4096 (drop (nat pos) data)) (\<lambda>s.
        let str_cnt = length s + (4 - length s mod 4)
        in ebind (quote_quotes s) (\<lambda>str. Inr (int str_cnt, str))))"

section \<open>Writing\<close>

definition setOSCString :: "byte list \<Rightarrow> byte list" where
  "setOSCString str = str @ replicate (4 - length str mod 4) 0"

definition setOSCfloat :: "32 word \<Rightarrow> byte list" where
  "setOSCfloat f = bytes4 (swap32f f)"

definition setOSCdouble :: "64 word \<Rightarrow> byte list" where
  "setOSCdouble f = bytes8 (swap64f f)"

definition setOSCInt :: "32 word \<Rightarrow> byte list" where
  "setOSCInt i = bytes4 (swap32i i)"

definition setOSCLong :: "64 word \<Rightarrow> byte list" where
  "setOSCLong l = bytes8 (swap64i l)"

definition setOSCTimestamp :: "double \<Rightarrow> byte list" where
  "setOSCTimestamp t =
     (let seconds = word_of_int (fp_to_int t) :: 32 word;
          fractional = fp_sub t (fp_of_int (uint seconds));
          fractionali = word_of_int (fp_to_int (fp_mul fractional (fp_of_int 4294967296)))
      in bytes4 (swap32i (seconds + 3187296000)) @ bytes4 (swap32i fractionali))"

section \<open>Round trips\<close>

lemma word4_bytes4: "word4 (bytes4 w) = w"
proof (rule bit_word_eqI)
  fix n assume n: "n < LENGTH(32)"
  then have "n < 32" by simp
  then consider "n < 8" | "8 \<le> n \<and> n < 16" | "16 \<le> n \<and> n < 24" | "24 \<le> n \<and> n < 32" by linarith
  then show "bit (word4 (bytes4 w)) n = bit w n"
    by cases (simp_all add: word4_def bytes4_def bit_simps less_diff_conv2)
qed

lemma word8_bytes8: "word8 (bytes8 w) = w"
proof (rule bit_word_eqI)
  fix n assume n: "n < LENGTH(64)"
  then have "n < 64" by simp
  then consider "n < 8" | "8 \<le> n \<and> n < 16" | "16 \<le> n \<and> n < 24" | "24 \<le> n \<and> n < 32" | "32 \<le> n \<and> n < 40"
    | "40 \<le> n \<and> n < 48" | "48 \<le> n \<and> n < 56" | "56 \<le> n \<and> n < 64" by linarith
  then show "bit (word8 (bytes8 w)) n = bit w n"
    by cases (simp_all add: word8_def bytes8_def bit_simps less_diff_conv2)
qed

lemma bytes4_word4: "bytes4 (word4 [a, b, c, d]) = [a, b, c, d]"
proof -
  have "bit (word4 [a, b, c, d]) n = (if n < 8 then bit a n else if n < 16 then bit b (n - 8)
      else if n < 24 then bit c (n - 16) else n < 32 \<and> bit d (n - 24))" for n
    by (auto simp: word4_def bit_simps dest: bit_imp_le_length)
  then show ?thesis by (auto simp: bytes4_def bit_simps intro!: bit_word_eqI)
qed

lemma bytes8_word8: "bytes8 (word8 [a, b, c, d, e, f, g, h]) = [a, b, c, d, e, f, g, h]"
proof -
  have "bit (word8 [a, b, c, d, e, f, g, h]) n = (if n < 8 then bit a n else if n < 16 then bit b (n - 8)
      else if n < 24 then bit c (n - 16) else if n < 32 then bit d (n - 24)
      else if n < 40 then bit e (n - 32) else if n < 48 then bit f (n - 40)
      else if n < 56 then bit g (n - 48) else n < 64 \<and> bit h (n - 56))" for n
    by (auto simp: word8_def bit_simps dest: bit_imp_le_length)
  then show ?thesis by (auto simp: bytes8_def bit_simps intro!: bit_word_eqI)
qed

lemma bytes_length [simp]: "length (bytes4 w) = 4" "length (bytes8 v) = 8"
  by (simp_all add: bytes4_def bytes8_def)

lemma bytes4_swap: "bytes4 (word4 (rev (bytes4 w))) = rev (bytes4 w)"
  using bytes4_word4 by (simp add: bytes4_def)

lemma bytes8_swap: "bytes8 (word8 (rev (bytes8 w))) = rev (bytes8 w)"
  using bytes8_word8 by (simp add: bytes8_def)

text \<open>Numbers go out most significant byte first.\<close>

lemma set_big_endian:
  "setOSCInt w = rev (bytes4 w)" "setOSCfloat w = rev (bytes4 w)"
  "setOSCLong v = rev (bytes8 v)" "setOSCdouble v = rev (bytes8 v)"
  by (simp_all add: setOSCInt_def setOSCfloat_def setOSCLong_def setOSCdouble_def swap32i_def
      swap32f_def swap64i_def swap64f_def bytes4_swap bytes8_swap)

lemma unswap_rev: "word4 (rev (bytes4 (word4 (rev (bytes4 w))))) = w"
  "word8 (rev (bytes8 (word8 (rev (bytes8 v))))) = v"
  by (simp_all add: bytes4_swap bytes8_swap word4_bytes4 word8_bytes8)

lemma at_buf_app: "length bs = n \<Longrightarrow> at_buf (pre @ bs @ post) (int (length pre)) n = Inr bs"
  by (simp add: at_buf_def)

lemma getOSCInt_set: "getOSCInt (pre @ setOSCInt w @ post) (int (length pre)) = Inr (4, w)"
  by (simp add: getOSCInt_def set_big_endian at_buf_app unswap32i_def unswap_rev)

lemma getOSCfloat_set: "getOSCfloat (pre @ setOSCfloat w @ post) (int (length pre)) = Inr (4, w)"
  by (simp add: getOSCfloat_def set_big_endian at_buf_app unswap32f_def unswap_rev)

lemma getOSCLong_set: "getOSCLong (pre @ setOSCLong v @ post) (int (length pre)) = Inr (8, v)"
  by (simp add: getOSCLong_def set_big_endian at_buf_app unswap64i_def unswap_rev)

lemma getOSCdouble_set: "getOSCdouble (pre @ setOSCdouble v @ post) (int (length pre)) = Inr (8, v)"
  by (simp add: getOSCdouble_def set_big_endian at_buf_app unswap64f_def unswap_rev)

lemma scan_cstr_app: "length s < k \<Longrightarrow> 0 \<notin> set s \<Longrightarrow> scan_cstr k (s @ 0 # post) = Inr s"
proof (induction s arbitrary: k)
  case Nil
  then show ?case by (cases k) simp_all
next
  case (Cons b s)
  then show ?case by (cases k) auto
qed

lemma setOSCString_shape: "setOSCString s = s @ 0 # replicate (3 - length s mod 4) 0"
proof -
  have "4 - length s mod 4 = Suc (3 - length s mod 4)"
    using mod_less_divisor [of 4 "length s"] by linarith
  then show ?thesis by (simp add: setOSCString_def)
qed

lemma setOSCString_length: "length (setOSCString s) = length s + (4 - length s mod 4)"
  by (simp add: setOSCString_def)

lemma getOSCString_set:
  assumes "length s < 4096" and "0 \<notin> set s"
  shows "getOSCString (pre @ setOSCString s @ post) (int (length pre)) =
    ebind (quote_quotes s) (\<lambda>str. Inr (int (length (setOSCString s)), str))"
proof -
  have "scan_cstr 4096 (s @ 0 # (replicate (3 - length s mod 4) 0 @ post)) = Inr s"
    using assms by (rule scan_cstr_app)
  moreover have "drop (nat (int (length pre))) (pre @ setOSCString s @ post) =
      s @ 0 # (replicate (3 - length s mod 4) 0 @ post)" by (simp add: setOSCString_shape)
  moreover have "\<not> (int (length pre) < 0 \<or> int (length (pre @ setOSCString s @ post)) < int (length pre))"
    by simp
  ultimately show ?thesis
    unfolding getOSCString_def by (simp only: if_False ebind_simps Let_def setOSCString_length)
qed

lemma quote_from_id: "34 \<notin> set s \<Longrightarrow> quote_from p s = s"
  by (induction s arbitrary: p) auto

lemma quote_quotes_id: "34 \<notin> set s \<Longrightarrow> quote_quotes s = Inr s"
  by (cases s) (auto simp: quote_quotes_def quote_from_id)

text \<open>Every number that a setter writes is read back by the matching getter at the same
  place in any buffer, with the same count of bytes, and travels most significant byte first.\<close>

theorem osc_numbers_round_trip:
  "getOSCInt (pre @ setOSCInt w @ post) (int (length pre)) = Inr (int (length (setOSCInt w)), w) \<and>
   getOSCfloat (pre @ setOSCfloat w @ post) (int (length pre)) = Inr (int (length (setOSCfloat w)), w) \<and>
   getOSCLong (pre @ setOSCLong v @ post) (int (length pre)) = Inr (int (length (setOSCLong v)), v) \<and>
   getOSCdouble (pre @ setOSCdouble v @ post) (int (length pre)) = Inr (int (length (setOSCdouble v)), v) \<and>
   setOSCInt w = rev (bytes4 w) \<and> setOSCLong v = rev (bytes8 v)"
  unfolding getOSCInt_set getOSCfloat_set getOSCLong_set getOSCdouble_set by (simp add: set_big_endian)

text \<open>A string without zero bytes and quotes, shorter than 4096, is read back as written,
  and its encoding fills a multiple of four bytes.\<close>

theorem osc_string_round_trip:
  assumes "length s < 4096" and "0 \<notin> set s" and "34 \<notin> set s"
  shows "getOSCString (pre @ setOSCString s @ post) (int (length pre)) = Inr (int (length (setOSCString s)), s) \<and>
    length (setOSCString s) mod 4 = 0"
proof -
  have "(length s + (4 - length s mod 4)) mod 4 = 0" by presburger
  then show ?thesis
    by (simp add: getOSCString_set [OF assms(1,2)] quote_quotes_id [OF assms(3)] setOSCString_length)
qed

lemma osc_string_round_trip_witness:
  "getOSCString ([1] @ setOSCString (ascii ''/synth'') @ [7]) (int (length [1 :: byte])) = Inr (8, ascii ''/synth'')"
proof -
  have "length (ascii ''/synth'') < 4096" "0 \<notin> set (ascii ''/synth'')" "34 \<notin> set (ascii ''/synth'')"
    by code_simp+
  from osc_string_round_trip [OF this, of "[1]" "[7]"] show ?thesis
    by (simp add: setOSCString_length ascii_def)
qed

text \<open>A received string that begins with a quote makes \<open>std::string::at\<close> throw, since the
  character before the first is looked at; nothing in the receiving thread catches it.\<close>

theorem osc_leading_quote_throws:
  assumes "length s < 4095" and "0 \<notin> set s"
  shows "getOSCString (pre @ setOSCString (34 # s) @ post) (int (length pre)) = Inl OutOfRange"
  by (subst getOSCString_set) (use assms in \<open>auto simp: quote_quotes_def\<close>)

lemma osc_leading_quote_throws_witness:
  "getOSCString (setOSCString (34 # ascii ''a'')) 0 = Inl OutOfRange"
  using osc_leading_quote_throws [of "ascii ''a''" "[]" "[]"] by (simp add: ascii_def chr_def)

end
