(* ===== verification/Osc_Message.thy ===== *)
theory Osc_Message
  imports Osc_Codec
begin

text \<open>
  OSC messages and bundles in \<open>src/OSC.cpp\<close>: how a received packet becomes calls of a Scheme
  function or of a compiled callback, and how \<open>sendOSC\<close> packs its arguments. Sockets and threads are
  left out: a packet is the buffer it was received into and its length. The text a stream makes of a
  floating-point number is the parameter \<open>fm\<close>.
\<close>

section \<open>State\<close>

record osc =
  os_fname :: "byte list"
  os_real_type :: byte
  os_integer_type :: byte
  os_send_from_serverfd :: bool
  os_netaddr :: bool
  os_nativeOSC :: bool
  os_nativeUDP :: bool

record formats =
  fm_double :: "double \<Rightarrow> byte list"
  fm_float :: "32 word \<Rightarrow> byte list"

text \<open>
  What a packet leads to: the text of a Scheme task, a call of the compiled callback with address,
  type tags, the offset of the arguments and their length, a call of the compiled UDP callback, the
  end of the receiving thread. \<open>OutOfFuel\<close> is a loop that has not ended.
\<close>

datatype osc_event = SchemeTask "byte list" | NativeCall "byte list" "byte list" int int
  | NativeUDP int | ThreadExit

datatype outcome = Events "osc_event list" | Failed osc_error | OutOfFuel

fun before :: "osc_event \<Rightarrow> outcome \<Rightarrow> outcome" where
  "before e (Events es) = Events (e # es)"
| "before e (Failed er) = Failed er"
| "before e OutOfFuel = OutOfFuel"

definition osc_new :: osc where
  "osc_new = \<lparr>os_fname = [], os_real_type = chr (CHR ''f''), os_integer_type = chr (CHR ''i''),
     os_send_from_serverfd = True, os_netaddr = False, os_nativeOSC = False, os_nativeUDP = False\<rparr>"

text \<open>The four switches; the argument tells whether the first argument is \<open>#t\<close>.\<close>

definition set_real_type :: "osc \<Rightarrow> bool \<Rightarrow> osc" where
  "set_real_type osc t = osc\<lparr>os_real_type := (if t then chr (CHR ''d'') else chr (CHR ''f''))\<rparr>"

definition set_integer_type :: "osc \<Rightarrow> bool \<Rightarrow> osc" where
  "set_integer_type osc t = osc\<lparr>os_integer_type := (if t then chr (CHR ''h'') else chr (CHR ''i''))\<rparr>"

definition send_from_server_socket :: "osc \<Rightarrow> bool \<Rightarrow> osc" where
  "send_from_server_socket osc t = osc\<lparr>os_send_from_serverfd := t\<rparr>"

definition set_msg_include_netaddr :: "osc \<Rightarrow> bool \<Rightarrow> osc" where
  "set_msg_include_netaddr osc t = osc\<lparr>os_netaddr := t\<rparr>"

section \<open>Receiving\<close>

text \<open>The length of the arguments that type tags describe; \<open>None\<close> is the result -1.\<close>

fun message_length_from :: "byte list \<Rightarrow> byte list \<Rightarrow> int \<Rightarrow> int \<Rightarrow> osc_error + int option" where
  "message_length_from [] data args pos = Inr (Some pos)"
| "message_length_from (t # ts) data args pos =
     (if t = chr (CHR ''i'') then message_length_from ts data args (pos + 4)
      else if t = chr (CHR ''f'') then message_length_from ts data args (pos + 4)
      else if t = chr (CHR ''d'') then message_length_from ts data args (pos + 8)
      else if t = chr (CHR ''s'') then
        ebind (getOSCString data (args + pos)) (\<lambda>(n, _). message_length_from ts data args (pos + n))
      else if t = chr (CHR ''h'') then message_length_from ts data args (pos + 8)
      else if t = chr (CHR ''t'') then message_length_from ts data args (pos + 8)
      else if t = chr (CHR ''['') then message_length_from ts data args pos
      else if t = chr (CHR '']'') then message_length_from ts data args pos
      else Inr None)"

definition get_message_length :: "byte list \<Rightarrow> byte list \<Rightarrow> int \<Rightarrow> osc_error + int option" where
  "get_message_length typetags data args = message_length_from (tl typetags) data args 0"

text \<open>
  The argument loop of \<open>send_scheme_call\<close> and \<open>send_scheme_process_call\<close>: the bytes consumed and the
  text, or \<open>None\<close> for an unsupported tag, which drops the message.
\<close>

definition more_text :: "byte list \<Rightarrow> osc_error + (int \<times> byte list) option \<Rightarrow> osc_error + (int \<times> byte list) option" where
  "more_text s r = ebind r (\<lambda>x. Inr (map_option (\<lambda>(pos, rest). (pos, s @ rest)) x))"

fun call_args ::
  "formats \<Rightarrow> byte list \<Rightarrow> byte list \<Rightarrow> int \<Rightarrow> int \<Rightarrow> osc_error + (int \<times> byte list) option" where
  "call_args fm [] data args pos = Inr (Some (pos, []))"
| "call_args fm (t # ts) data args pos =
     (if t = chr (CHR ''i'') then
        ebind (getOSCInt data (args + pos)) (\<lambda>(n, v).
          more_text (32 # dec_int (sint v)) (call_args fm ts data args (pos + n)))
      else if t = chr (CHR ''f'') then
        ebind (getOSCfloat data (args + pos)) (\<lambda>(n, v).
          more_text (32 # fm_float fm v) (call_args fm ts data args (pos + n)))
      else if t = chr (CHR ''d'') then
        ebind (getOSCdouble data (args + pos)) (\<lambda>(n, v).
          more_text (32 # fm_double fm v) (call_args fm ts data args (pos + n)))
      else if t = chr (CHR ''s'') then
        ebind (getOSCString data (args + pos)) (\<lambda>(n, s).
          more_text ([32, 34] @ s @ [34]) (call_args fm ts data args (pos + n)))
      else if t = chr (CHR ''h'') then
        ebind (getOSCLong data (args + pos)) (\<lambda>(n, v).
          more_text (32 # dec_int (sint v)) (call_args fm ts data args (pos + n)))
      else if t = chr (CHR ''t'') then
        ebind (getOSCTimestamp data (args + pos)) (\<lambda>(n, v).
          more_text (32 # fm_double fm v) (call_args fm ts data args (pos + n)))
      else if t = chr (CHR ''['') then more_text (ascii '' (list '') (call_args fm ts data args pos)
      else if t = chr (CHR '']'') then more_text (ascii '')'') (call_args fm ts data args pos)
      else Inr None)"

definition send_scheme_process_call ::
  "formats \<Rightarrow> osc \<Rightarrow> double \<Rightarrow> byte list \<Rightarrow> byte list \<Rightarrow> byte list \<Rightarrow> int \<Rightarrow> osc_error + (int \<times> byte list) option" where
  "send_scheme_process_call fm osc t address typetags data args =
     ebind (call_args fm (tl typetags) data args 0) (\<lambda>r.
       Inr (map_option (\<lambda>(pos, s). (pos, ascii ''('' @ os_fname osc @ ascii '' '' @ fm_double fm t @
         [32, 34] @ address @ [34] @ s @ ascii '')'')) r))"

definition send_scheme_call ::
  "formats \<Rightarrow> osc \<Rightarrow> byte list \<Rightarrow> int \<Rightarrow> double \<Rightarrow> byte list \<Rightarrow> byte list \<Rightarrow> byte list \<Rightarrow> int
   \<Rightarrow> osc_error + (int \<times> byte list) option" where
  "send_scheme_call fm osc netaddy netport t address typetags data args =
     ebind (call_args fm (tl typetags) data args 0) (\<lambda>r.
       Inr (map_option (\<lambda>(pos, s). (pos, ascii ''('' @ os_fname osc @ ascii '' '' @ fm_double fm t @
         [32, 34] @ address @ [34] @
         (if os_netaddr osc then [32, 34] @ netaddy @ [34, 32] @ dec_int netport else []) @ s @ ascii '')'')) r))"

text \<open>\<open>address.find\<close>\<close>

fun contains :: "byte list \<Rightarrow> byte list \<Rightarrow> bool" where
  "contains p [] = (p = [])"
| "contains p (c # cs) = (take (length p) (c # cs) = p \<or> contains p cs)"

definition bundle_tag :: "byte list" where
  "bundle_tag = ascii ''#bundle''"

text \<open>
  The loop over the messages of a bundle. \<open>call\<close> is one of the two functions above; a nested bundle
  ends the loop with the events \<open>recursive\<close>.
\<close>

type_synonym osc_call =
  "double \<Rightarrow> byte list \<Rightarrow> byte list \<Rightarrow> byte list \<Rightarrow> int \<Rightarrow> osc_error + (int \<times> byte list) option"

primrec bundle_loop ::
  "nat \<Rightarrow> bool \<Rightarrow> osc_call \<Rightarrow> osc_event list \<Rightarrow> double \<Rightarrow> byte list \<Rightarrow> int \<Rightarrow> int \<Rightarrow> outcome" where
  "bundle_loop 0 native call recursive timestamp data len pos = (if pos < len then OutOfFuel else Events [])"
| "bundle_loop (Suc k) native call recursive timestamp data len pos =
     (if pos < len then
        (case getOSCInt data pos of Inl e \<Rightarrow> Failed e
         | Inr (res, sz) \<Rightarrow>
        (let pos = pos + res in
         case getOSCString data pos of Inl e \<Rightarrow> Failed e
         | Inr (res1, address) \<Rightarrow>
         if contains bundle_tag address then Events recursive
         else
        (case getOSCString data (pos + res1) of Inl e \<Rightarrow> Failed e
         | Inr (res2, typetags) \<Rightarrow>
        (let used = res1 + res2; pos = pos + res1 + res2; next = pos + (sint sz - used)
         in if native then
              before (NativeCall address typetags pos (sint sz - used))
                (bundle_loop k native call recursive timestamp data len next)
            else
              (case call timestamp address typetags data pos of
                 Inl e \<Rightarrow> Failed e
               | Inr None \<Rightarrow> Events []
               | Inr (Some (_, text)) \<Rightarrow>
                   before (SchemeTask text) (bundle_loop k native call recursive timestamp data len next))))))
      else Events [])"

definition packet ::
  "nat \<Rightarrow> bool \<Rightarrow> osc_call \<Rightarrow> osc_event list \<Rightarrow> byte list \<Rightarrow> int \<Rightarrow> outcome" where
  "packet fuel native call recursive data len =
     (case getOSCString data 0 of Inl e \<Rightarrow> Failed e
      | Inr (pos, address) \<Rightarrow>
      if contains bundle_tag address then
        (case getOSCTimestamp data pos of Inl e \<Rightarrow> Failed e
         | Inr (n, timestamp) \<Rightarrow> bundle_loop fuel native call recursive timestamp data len (pos + n))
      else
        (case getOSCString data pos of Inl e \<Rightarrow> Failed e
         | Inr (res, typetags) \<Rightarrow>
             if native then Events [NativeCall address typetags (pos + res) (len - (pos + res))]
             else (case call (fp_of_int 0) address typetags data (pos + res) of
                     Inl e \<Rightarrow> Failed e
                   | Inr None \<Rightarrow> Events []
                   | Inr (Some (_, text)) \<Rightarrow> Events [SchemeTask text])))"

text \<open>A TCP packet is exactly its bytes; a nested bundle only ends the processing.\<close>

definition process_osc_data :: "nat \<Rightarrow> formats \<Rightarrow> osc \<Rightarrow> byte list \<Rightarrow> outcome" where
  "process_osc_data fuel fm osc data =
     (if data \<noteq> [] then
        packet fuel (os_nativeOSC osc) (send_scheme_process_call fm osc) [] data (int (length data))
      else Events [])"

text \<open>
  One turn of the UDP thread: \<open>data\<close> is the thread's buffer, of which \<open>bytes_read\<close> bytes are new. A
  nested bundle makes the thread return.
\<close>

definition osc_mesg_callback ::
  "nat \<Rightarrow> formats \<Rightarrow> osc \<Rightarrow> byte list \<Rightarrow> int \<Rightarrow> byte list \<Rightarrow> int \<Rightarrow> outcome" where
  "osc_mesg_callback fuel fm osc netaddy netport data bytes_read =
     (if os_nativeUDP osc then Events [NativeUDP bytes_read]
      else if bytes_read > -1 then
        packet fuel (os_nativeOSC osc) (send_scheme_call fm osc netaddy netport) [ThreadExit] data bytes_read
      else Events [])"

section \<open>Sending\<close>

text \<open>The arguments, as \<open>processArgs\<close> tells them apart.\<close>

datatype scm_arg = ArgString "byte list" | ArgPair "scm_arg list" | ArgVector | ArgSymbol
  | ArgInteger int | ArgReal double | ArgOther

text \<open>Writing into a buffer of fixed size; \<open>None\<close> is a write past its end.\<close>

definition put_bytes :: "byte list \<Rightarrow> nat \<Rightarrow> byte list \<Rightarrow> byte list option" where
  "put_bytes buf p bs =
     (if p + length bs \<le> length buf then Some (take p buf @ bs @ drop (p + length bs) buf) else None)"

text \<open>
  \<open>processArgs\<close> over the buffer, the write position, the length and the type tags. The local
  \<open>ret\<close> keeps its value for an argument of no known type.
\<close>

type_synonym pack = "byte list \<times> nat \<times> nat \<times> byte list"

definition pack_arg :: "pack \<Rightarrow> byte list \<Rightarrow> byte \<Rightarrow> pack option" where
  "pack_arg st bs tag = (case st of (tmp, ptr, lgth, tags) \<Rightarrow>
     map_option (\<lambda>tmp'. (tmp', ptr, lgth, tags @ [tag])) (put_bytes tmp ptr bs))"

definition advance :: "nat \<Rightarrow> pack \<Rightarrow> pack" where
  "advance ret st = (case st of (tmp, ptr, lgth, tags) \<Rightarrow> (tmp, ptr + ret, lgth + ret, tags))"

fun processArgs :: "osc \<Rightarrow> scm_arg list \<Rightarrow> nat \<Rightarrow> pack \<Rightarrow> pack option" where
  "processArgs osc [] ret st = Some st"
| "processArgs osc (ArgString s # as) ret st =
     (let bs = setOSCString s
      in case pack_arg st bs (chr (CHR ''s'')) of None \<Rightarrow> None
         | Some st' \<Rightarrow> processArgs osc as (length bs) (advance (length bs) st'))"
| "processArgs osc (ArgPair xs # as) ret (tmp, ptr, lgth, tags) =
     (case processArgs osc xs 0 (tmp, ptr, lgth, tags @ [chr (CHR ''['')]) of None \<Rightarrow> None
      | Some (tmp', ptr', lgth', tags') \<Rightarrow>
          processArgs osc as 0 (tmp', ptr', lgth', tags' @ [chr (CHR '']'')]))"
| "processArgs osc (ArgVector # as) ret st = processArgs osc as ret st"
| "processArgs osc (ArgSymbol # as) ret st = processArgs osc as ret st"
| "processArgs osc (ArgInteger i # as) ret st =
     (let small = (os_integer_type osc = chr (CHR ''i''));
          bs = (if small then setOSCInt (of_int i) else setOSCLong (of_int i))
      in case pack_arg st bs (if small then chr (CHR ''i'') else chr (CHR ''h'')) of None \<Rightarrow> None
         | Some st' \<Rightarrow> processArgs osc as (length bs) (advance (length bs) st'))"
| "processArgs osc (ArgReal r # as) ret st =
     (let small = (os_real_type osc = chr (CHR ''f''));
          bs = (if small then setOSCfloat (fp_to_float r) else setOSCdouble r)
      in case pack_arg st bs (if small then chr (CHR ''f'') else chr (CHR ''d'')) of None \<Rightarrow> None
         | Some st' \<Rightarrow> processArgs osc as (length bs) (advance (length bs) st'))"
| "processArgs osc (ArgOther # as) ret st = processArgs osc as ret (advance ret st)"

text \<open>
  The message of \<open>sendOSC\<close>: the arguments are packed into a buffer of 1024 bytes, the message is
  assembled in one of 2048; \<open>tmp0\<close> is what \<open>malloc\<close> left in the first. \<open>None\<close> is a write past the end
  of either.
\<close>

definition sendOSC_message ::
  "osc \<Rightarrow> byte list \<Rightarrow> byte list \<Rightarrow> scm_arg list \<Rightarrow> byte list option" where
  "sendOSC_message osc tmp0 address args =
     (case processArgs osc args 0 (take 1024 tmp0, 0, 0, ascii '','') of None \<Rightarrow> None
      | Some (tmp, ptr, lgth, typetags) \<Rightarrow>
          let msg = setOSCString address @ setOSCString typetags @ take lgth tmp
          in if lgth \<le> length tmp \<and> length msg \<le> 2048 then Some msg else None)"

end
