(* ===== verification/Osc_Roundtrip.thy ===== *)
theory Osc_Roundtrip
  imports Osc_Message
begin

text \<open>
  What OSC messages mean: the type tags, the body and the Scheme text of an argument list, that
  \<open>sendOSC\<close> packs the first two and that the receiver makes the text of them; when the bundle loop
  ends and when it does not; what the fixed buffers cannot take.
\<close>

section \<open>Tags, body and text of arguments\<close>

fun arg_tags :: "osc \<Rightarrow> scm_arg list \<Rightarrow> byte list" where
  "arg_tags osc [] = []"
| "arg_tags osc (ArgString s # as) = chr (CHR ''s'') # arg_tags osc as"
| "arg_tags osc (ArgPair xs # as) = chr (CHR ''['') # arg_tags osc xs @ chr (CHR '']'') # arg_tags osc as"
| "arg_tags osc (ArgInteger i # as) =
     (if os_integer_type osc = chr (CHR ''i'') then chr (CHR ''i'') else chr (CHR ''h'')) # arg_tags osc as"
| "arg_tags osc (ArgReal r # as) =
     (if os_real_type osc = chr (CHR ''f'') then chr (CHR ''f'') else chr (CHR ''d'')) # arg_tags osc as"
| "arg_tags osc (_ # as) = arg_tags osc as"

fun arg_body :: "osc \<Rightarrow> scm_arg list \<Rightarrow> byte list" where
  "arg_body osc [] = []"
| "arg_body osc (ArgString s # as) = setOSCString s @ arg_body osc as"
| "arg_body osc (ArgPair xs # as) = arg_body osc xs @ arg_body osc as"
| "arg_body osc (ArgInteger i # as) =
     (if os_integer_type osc = chr (CHR ''i'') then setOSCInt (of_int i) else setOSCLong (of_int i)) @ arg_body osc as"
| "arg_body osc (ArgReal r # as) =
     (if os_real_type osc = chr (CHR ''f'') then setOSCfloat (fp_to_float r) else setOSCdouble r) @ arg_body osc as"
| "arg_body osc (_ # as) = arg_body osc as"

fun arg_text :: "formats \<Rightarrow> osc \<Rightarrow> scm_arg list \<Rightarrow> byte list" where
  "arg_text fm osc [] = []"
| "arg_text fm osc (ArgString s # as) = [32, 34] @ s @ [34] @ arg_text fm osc as"
| "arg_text fm osc (ArgPair xs # as) = ascii '' (list '' @ arg_text fm osc xs @ ascii '')'' @ arg_text fm osc as"
| "arg_text fm osc (ArgInteger i # as) =
     32 # dec_int (if os_integer_type osc = chr (CHR ''i'') then sint (of_int i :: 32 word) else sint (of_int i :: 64 word))
     @ arg_text fm osc as"
| "arg_text fm osc (ArgReal r # as) =
     32 # (if os_real_type osc = chr (CHR ''f'') then fm_float fm (fp_to_float r) else fm_double fm r) @ arg_text fm osc as"
| "arg_text fm osc (_ # as) = arg_text fm osc as"

text \<open>A string that the receiver reads back as it is.\<close>

definition plain :: "byte list \<Rightarrow> bool" where
  "plain s \<longleftrightarrow> length s < 4096 \<and> 0 \<notin> set s \<and> 34 \<notin> set s"

fun args_ok :: "scm_arg list \<Rightarrow> bool" where
  "args_ok [] = True"
| "args_ok (ArgString s # as) = (plain s \<and> args_ok as)"
| "args_ok (ArgPair xs # as) = (args_ok xs \<and> args_ok as)"
| "args_ok (ArgOther # as) = False"
| "args_ok (_ # as) = args_ok as"

lemma getOSCString_plain:
  "plain s \<Longrightarrow> getOSCString (pre @ setOSCString s @ post) (int (length pre)) = Inr (int (length (setOSCString s)), s)"
  by (simp add: getOSCString_set quote_quotes_id plain_def)

section \<open>Packing\<close>



section \<open>Unpacking\<close>

lemma more_text_append [simp]: "more_text s (more_text t r) = more_text (s @ t) r"
proof (cases r)
  case (Inr x)
  then show ?thesis by (cases x) (auto simp: more_text_def)
qed (simp add: more_text_def)

lemma more_text_nil [simp]: "more_text [] r = r"
proof (cases r)
  case (Inr x)
  then show ?thesis by (cases x) (auto simp: more_text_def)
qed (simp add: more_text_def)

lemma call_unpack:
  assumes "args_ok args" and "a + p = int (length pre)"
  shows "call_args fm (arg_tags osc args @ ts) (pre @ arg_body osc args @ post) a p =
    more_text (arg_text fm osc args)
      (call_args fm ts (pre @ arg_body osc args @ post) a (p + int (length (arg_body osc args))))"
  using assms
proof (induction osc args arbitrary: p pre post ts rule: arg_tags.induct)
  case (2 osc s as)
  have "getOSCString (pre @ setOSCString s @ arg_body osc as @ post) (int (length pre)) = Inr (int (length (setOSCString s)), s)"
    using "2.prems" by (simp add: getOSCString_plain)
  with "2.IH" [of "p + int (length (setOSCString s))" "pre @ setOSCString s" ts post] "2.prems" show ?case
    by (simp add: ac_simps)
next
  case (3 osc xs as)
  from "3.IH"(1) [of p pre "chr (CHR '']'') # arg_tags osc as @ ts" "arg_body osc as @ post"]
    "3.IH"(2) [of "p + int (length (arg_body osc xs))" "pre @ arg_body osc xs" ts post] "3.prems"
  show ?case by (simp add: ac_simps)
next
  case (4 osc i as)
  show ?case
  proof (cases "os_integer_type osc = chr (CHR ''i'')")
    case True
    have "getOSCInt (pre @ setOSCInt (of_int i) @ arg_body osc as @ post) (int (length pre)) = Inr (4, of_int i)"
      by (rule getOSCInt_set)
    with "4.IH" [of "p + 4" "pre @ setOSCInt (of_int i)" ts post] "4.prems" True show ?thesis
      by (simp add: set_big_endian ac_simps)
  next
    case False
    have "getOSCLong (pre @ setOSCLong (of_int i) @ arg_body osc as @ post) (int (length pre)) = Inr (8, of_int i)"
      by (rule getOSCLong_set)
    with "4.IH" [of "p + 8" "pre @ setOSCLong (of_int i)" ts post] "4.prems" False show ?thesis
      by (simp add: set_big_endian ac_simps)
  qed
next
  case (5 osc r as)
  show ?case
  proof (cases "os_real_type osc = chr (CHR ''f'')")
    case True
    have "getOSCfloat (pre @ setOSCfloat (fp_to_float r) @ arg_body osc as @ post) (int (length pre)) = Inr (4, fp_to_float r)"
      by (rule getOSCfloat_set)
    with "5.IH" [of "p + 4" "pre @ setOSCfloat (fp_to_float r)" ts post] "5.prems" True show ?thesis
      by (simp add: set_big_endian ac_simps)
  next
    case False
    have "getOSCdouble (pre @ setOSCdouble r @ arg_body osc as @ post) (int (length pre)) = Inr (8, r)"
      by (rule getOSCdouble_set)
    with "5.IH" [of "p + 8" "pre @ setOSCdouble r" ts post] "5.prems" False show ?thesis
      by (simp add: set_big_endian ac_simps)
  qed
qed auto

section \<open>Messages\<close>

type_synonym message = "byte list \<times> scm_arg list"

definition tags_of :: "osc \<Rightarrow> message \<Rightarrow> byte list" where
  "tags_of osc m = 44 # arg_tags osc (snd m)"

definition message_bytes :: "osc \<Rightarrow> message \<Rightarrow> byte list" where
  "message_bytes osc m = setOSCString (fst m) @ setOSCString (tags_of osc m) @ arg_body osc (snd m)"

definition call_text :: "formats \<Rightarrow> osc \<Rightarrow> osc \<Rightarrow> double \<Rightarrow> message \<Rightarrow> byte list" where
  "call_text fm osc receiver t m = ascii ''('' @ os_fname receiver @ ascii '' '' @ fm_double fm t @ [32, 34] @ fst m @ [34]
     @ arg_text fm osc (snd m) @ ascii '')''"

text \<open>The UDP thread may add the sender's address and port to the call.\<close>

definition udp_text :: "formats \<Rightarrow> osc \<Rightarrow> osc \<Rightarrow> byte list \<Rightarrow> int \<Rightarrow> double \<Rightarrow> message \<Rightarrow> byte list" where
  "udp_text fm osc receiver netaddy netport t m =
     ascii ''('' @ os_fname receiver @ ascii '' '' @ fm_double fm t @ [32, 34] @ fst m @ [34]
     @ (if os_netaddr receiver then [32, 34] @ netaddy @ [34, 32] @ dec_int netport else [])
     @ arg_text fm osc (snd m) @ ascii '')''"

definition message_ok :: "osc \<Rightarrow> message \<Rightarrow> bool" where
  "message_ok osc m \<longleftrightarrow> plain (fst m) \<and> \<not> contains bundle_tag (fst m) \<and> args_ok (snd m) \<and>
     length (message_bytes osc m) \<le> 2048 \<and> length (arg_body osc (snd m)) \<le> 1024"

lemma arg_tags_plain: "0 \<notin> set (arg_tags osc args) \<and> 34 \<notin> set (arg_tags osc args)"
proof (induction osc args rule: arg_tags.induct)
  case (3 osc xs as)
  then show ?case by (simp add: chr_def)
qed (auto simp: chr_def)

lemma tags_plain: "message_ok osc m \<Longrightarrow> plain (tags_of osc m)"
  using arg_tags_plain [of osc "snd m"]
  by (auto simp: message_ok_def plain_def tags_of_def message_bytes_def setOSCString_length)

lemma message_read:
  assumes "message_ok osc m" and "data = pre @ message_bytes osc m @ post"
  defines "p1 \<equiv> int (length pre) + int (length (setOSCString (fst m)))"
  defines "p2 \<equiv> p1 + int (length (setOSCString (tags_of osc m)))"
  shows "getOSCString data (int (length pre)) = Inr (int (length (setOSCString (fst m))), fst m)"
    and "getOSCString data p1 = Inr (int (length (setOSCString (tags_of osc m))), tags_of osc m)"
    and "send_scheme_process_call fm receiver t (fst m) (tags_of osc m) data p2 =
      Inr (Some (int (length (arg_body osc (snd m))), call_text fm osc receiver t m))"
    and "send_scheme_call fm receiver netaddy netport t (fst m) (tags_of osc m) data p2 =
      Inr (Some (int (length (arg_body osc (snd m))), udp_text fm osc receiver netaddy netport t m))"
proof -
  have ok: "plain (fst m)" "plain (tags_of osc m)" "args_ok (snd m)"
    using assms(1) tags_plain [OF assms(1)] by (simp_all add: message_ok_def)
  show "getOSCString data (int (length pre)) = Inr (int (length (setOSCString (fst m))), fst m)"
    using getOSCString_plain [OF ok(1), of pre] by (simp add: assms(2) message_bytes_def)
  show "getOSCString data p1 = Inr (int (length (setOSCString (tags_of osc m))), tags_of osc m)"
    using getOSCString_plain [OF ok(2), of "pre @ setOSCString (fst m)" "arg_body osc (snd m) @ post"]
    by (simp add: assms(2) message_bytes_def p1_def)
  have args: "call_args fm (tl (tags_of osc m)) data p2 0 =
      Inr (Some (int (length (arg_body osc (snd m))), arg_text fm osc (snd m)))"
    using call_unpack [OF ok(3), of p2 0 "pre @ setOSCString (fst m) @ setOSCString (tags_of osc m)" fm osc "[]" post]
    by (simp add: assms(2) message_bytes_def p1_def p2_def tags_of_def more_text_def)
  show "send_scheme_process_call fm receiver t (fst m) (tags_of osc m) data p2 =
      Inr (Some (int (length (arg_body osc (snd m))), call_text fm osc receiver t m))"
    by (simp add: send_scheme_process_call_def args call_text_def)
  show "send_scheme_call fm receiver netaddy netport t (fst m) (tags_of osc m) data p2 =
      Inr (Some (int (length (arg_body osc (snd m))), udp_text fm osc receiver netaddy netport t m))"
    by (simp add: send_scheme_call_def args udp_text_def)
qed



section \<open>Bundles\<close>

definition element_bytes :: "osc \<Rightarrow> message \<Rightarrow> byte list" where
  "element_bytes osc m = setOSCInt (of_nat (length (message_bytes osc m))) @ message_bytes osc m"

lemma element_length: "length (element_bytes osc m) = 4 + length (message_bytes osc m)"
  by (simp add: element_bytes_def set_big_endian)

lemma bundle_elements:
  assumes "\<forall>m \<in> set ms. message_ok osc m" and "length ms \<le> k"
    and call: "\<And>m data pre post. message_ok osc m \<Longrightarrow> data = pre @ message_bytes osc m @ post \<Longrightarrow>
      call ts (fst m) (tags_of osc m) data
        (int (length pre) + int (length (setOSCString (fst m))) + int (length (setOSCString (tags_of osc m)))) =
      Inr (Some (int (length (arg_body osc (snd m))), task m))"
  shows "bundle_loop k False call rec ts (pre @ concat (map (element_bytes osc) ms) @ old)
      (int (length (pre @ concat (map (element_bytes osc) ms)))) (int (length pre)) =
    Events (map (\<lambda>m. SchemeTask (task m)) ms)"
  using assms(1,2)
proof (induction ms arbitrary: pre k)
  case Nil
  then show ?case by (cases k) simp_all
next
  case (Cons m ms)
  then obtain k' where k: "k = Suc k'" "length ms \<le> k'" by (cases k) auto
  have ok: "message_ok osc m" using Cons.prems by simp
  let ?n = "length (message_bytes osc m)" and ?rest = "concat (map (element_bytes osc) ms)"
  let ?data = "pre @ concat (map (element_bytes osc) (m # ms)) @ old"
  let ?len = "int (length (pre @ concat (map (element_bytes osc) (m # ms))))"
  let ?sz = "of_nat ?n :: 32 word"
  have d1: "?data = pre @ setOSCInt ?sz @ (message_bytes osc m @ ?rest @ old)" by (simp add: element_bytes_def)
  have d2: "?data = (pre @ setOSCInt ?sz) @ message_bytes osc m @ ?rest @ old" by (simp add: element_bytes_def)
  have d3: "?data = (pre @ element_bytes osc m) @ ?rest @ old"
    "pre @ concat (map (element_bytes osc) (m # ms)) = (pre @ element_bytes osc m) @ ?rest" by simp_all
  have sz: "sint ?sz = int ?n"
    using ok by (simp add: message_ok_def signed_of_nat signed_take_bit_int_eq_self)
  have g: "getOSCInt ?data (int (length pre)) = Inr (4, ?sz)" unfolding d1 by (rule getOSCInt_set)
  note r = message_read(1,2) [OF ok d2] call [OF ok d2]
  have p: "int (length (pre @ setOSCInt ?sz)) = int (length pre) + 4" by (simp add: set_big_endian)
  have ln: "int (length (setOSCString (fst m))) + int (length (setOSCString (tags_of osc m))) + int (length (arg_body osc (snd m))) = int ?n"
    by (simp add: message_bytes_def)
  have pl: "int (length (pre @ element_bytes osc m)) = int (length pre) + 4 + int ?n"
    by (simp add: element_length)
  have nb: "\<not> contains bundle_tag (fst m)" using ok by (simp add: message_ok_def)
  have lt: "int (length pre) < ?len" by (simp add: element_length)
  note ih = Cons.IH [of k' "pre @ element_bytes osc m", unfolded d3 [symmetric] pl]
  show ?case
    unfolding k(1) bundle_loop.simps
    using lt g r nb ln ih Cons.prems(1) k(2) unfolding p
    by (simp only: if_True Let_def sum.case prod.case if_False not_False_eq_True option.case sz)
      (simp add: ac_simps)
qed

text \<open>A bundle whose time tag has the given seconds and fraction, and the time it stands for.\<close>

definition bundle_bytes :: "osc \<Rightarrow> 32 word \<Rightarrow> 32 word \<Rightarrow> message list \<Rightarrow> byte list" where
  "bundle_bytes osc seconds fraction ms = setOSCString bundle_tag @ (setOSCInt seconds @ setOSCInt fraction)
     @ concat (map (element_bytes osc) ms)"

definition tag_time :: "32 word \<Rightarrow> 32 word \<Rightarrow> double" where
  "tag_time seconds fraction =
     (if seconds = 0 \<and> fraction = 1 then fp_of_int 0
      else fp_add (fp_of_int (uint seconds - 3187296000))
             (fp_div (fp_of_int (uint fraction)) (fp_of_int 4294967296)))"

lemma tag_time_read:
  "getOSCTimestamp (pre @ (setOSCInt s @ setOSCInt f) @ post) (int (length pre)) = Inr (8, tag_time s f)"
proof -
  have a: "at_buf (pre @ (setOSCInt s @ setOSCInt f) @ post) (int (length pre)) 4 = Inr (setOSCInt s)"
    using at_buf_app [of "setOSCInt s" 4 pre "setOSCInt f @ post"] by (simp add: set_big_endian)
  have b: "at_buf (pre @ (setOSCInt s @ setOSCInt f) @ post) (int (length pre) + 4) 4 = Inr (setOSCInt f)"
    using at_buf_app [of "setOSCInt f" 4 "pre @ setOSCInt s" post] by (simp add: set_big_endian)
  have u: "unswap32i (word4 (setOSCInt w)) = w" for w
    by (simp add: set_big_endian unswap32i_def unswap_rev)
  show ?thesis unfolding getOSCTimestamp_def a b by (simp add: u tag_time_def Let_def uint_0_iff)
qed

definition some_osc :: osc where
  "some_osc = osc_new\<lparr>os_fname := ascii ''recv''\<rparr>"

definition some_formats :: formats where
  "some_formats = \<lparr>fm_double = (\<lambda>_. ascii ''0.5''), fm_float = (\<lambda>_. ascii ''0.25'')\<rparr>"

definition some_message :: message where
  "some_message = (ascii ''/a'', [ArgInteger 7, ArgPair [ArgString (ascii ''hi''), ArgReal 0], ArgSymbol])"

lemma some_message_ok: "message_ok some_osc some_message"
  by code_simp


lemma timestamp_read:
  "\<exists>t'. getOSCTimestamp (pre @ setOSCTimestamp t @ post) (int (length pre)) = Inr (8, t')"
proof -
  have l: "length (setOSCTimestamp t) = 8" by (simp add: setOSCTimestamp_def Let_def)
  have "at_buf (pre @ setOSCTimestamp t @ post) (int (length pre)) 4 = Inr (take 4 (setOSCTimestamp t))"
    using l by (simp add: at_buf_def)
  moreover have "at_buf (pre @ setOSCTimestamp t @ post) (int (length pre) + 4) 4 = Inr (take 4 (drop 4 (setOSCTimestamp t)))"
    using l by (simp add: at_buf_def nat_add_distrib)
  ultimately show ?thesis by (simp add: getOSCTimestamp_def Let_def)
qed

lemma bundle_tag_facts: "plain bundle_tag" "contains bundle_tag bundle_tag" "setOSCString bundle_tag \<noteq> []"
  by code_simp+

text \<open>C31: A bundle of messages within the limits of \<open>message_ok\<close> (argument and string lengths, no
  zeros or quotes in strings, no address with \<open>#bundle\<close>) leads, at a receiver without compiled
  callbacks, to one call per message, in the order of the bundle, all with the time of the bundle's
  time tag; the loop ends within as many turns as there are messages. That holds for a datagram,
  whatever the buffer held behind it, and for a packet from a TCP stream.\<close>

theorem osc_bundle_in_order:
  assumes "\<forall>m \<in> set ms. message_ok osc m" and "\<not> os_nativeOSC receiver" and "\<not> os_nativeUDP receiver"
  shows "osc_mesg_callback (length ms) fm receiver netaddy netport (bundle_bytes osc s f ms @ old)
      (int (length (bundle_bytes osc s f ms))) =
    Events (map (\<lambda>m. SchemeTask (udp_text fm osc receiver netaddy netport (tag_time s f) m)) ms) \<and>
    process_osc_data (length ms) fm receiver (bundle_bytes osc s f ms) =
    Events (map (\<lambda>m. SchemeTask (call_text fm osc receiver (tag_time s f) m)) ms)"
proof -
  let ?b = "setOSCString bundle_tag" and ?els = "concat (map (element_bytes osc) ms)"
  let ?pre = "?b @ (setOSCInt s @ setOSCInt f)"
  let ?data = "bundle_bytes osc s f ms"
  have d: "?data @ post = ?pre @ ?els @ post" "?data = ?pre @ ?els" for post by (simp_all add: bundle_bytes_def)
  have ts: "getOSCTimestamp (?data @ post) (int (length ?b)) = Inr (8, tag_time s f)" for post
    using tag_time_read [of ?b s f "?els @ post"] by (simp add: bundle_bytes_def)
  have a: "getOSCString (?data @ post) 0 = Inr (int (length ?b), bundle_tag)" for post
    using getOSCString_plain [OF bundle_tag_facts(1), of "[]"] by (simp add: bundle_bytes_def)
  have l: "int (length ?pre) = int (length ?b) + 8" by (simp add: set_big_endian)
  have p: "packet (length ms) False call rec (?data @ post) (int (length ?data)) =
      bundle_loop (length ms) False call rec (tag_time s f) (?pre @ ?els @ post) (int (length (?pre @ ?els)))
        (int (length ?pre))" for call rec post
    unfolding packet_def a l by (simp only: sum.case prod.case bundle_tag_facts(2) ts if_True) (simp only: d append_assoc)
  note u = bundle_elements [where call = "send_scheme_call fm receiver netaddy netport" and
      task = "udp_text fm osc receiver netaddy netport (tag_time s f)", OF assms(1) order_refl message_read(4)]
    and c = bundle_elements [where call = "send_scheme_process_call fm receiver" and
      task = "call_text fm osc receiver (tag_time s f)", OF assms(1) order_refl message_read(3)]
  have "osc_mesg_callback (length ms) fm receiver netaddy netport (?data @ old) (int (length ?data)) =
      Events (map (\<lambda>m. SchemeTask (udp_text fm osc receiver netaddy netport (tag_time s f) m)) ms)"
    using assms(2,3) by (simp only: osc_mesg_callback_def p u) simp
  moreover have "?data \<noteq> []" using bundle_tag_facts(3) by (simp add: bundle_bytes_def)
  then have "process_osc_data (length ms) fm receiver ?data =
      Events (map (\<lambda>m. SchemeTask (call_text fm osc receiver (tag_time s f) m)) ms)"
    using assms(2) p [of _ _ "[]"] c [where rec = "[]" and pre = ?pre and old = "[]"]
    by (simp add: process_osc_data_def)
  ultimately show ?thesis by blast
qed

lemma osc_bundle_in_order_witness:
  "process_osc_data 2 some_formats some_osc (bundle_bytes some_osc 0 1 [some_message, some_message]) =
    Events (map (\<lambda>m. SchemeTask (call_text some_formats some_osc some_osc (tag_time 0 1) m))
      [some_message, some_message])"
proof -
  have "\<not> os_nativeOSC some_osc" "\<not> os_nativeUDP some_osc" by (simp_all add: some_osc_def osc_new_def)
  from osc_bundle_in_order [of "[some_message, some_message]" some_osc some_osc some_formats _ _ 0 1, OF _ this]
  show ?thesis by (simp add: some_message_ok numeral_2_eq_2)
qed

section \<open>Limits\<close>

definition stuck_element :: "byte list" where
  "stuck_element = setOSCInt (- 4) @ [97, 0, 0, 0, 44, 0, 0, 0]"

lemma stuck_step:
  fixes pre :: "byte list"
  defines "data \<equiv> pre @ stuck_element"
  shows "bundle_loop k True call rec ts data (int (length data)) (int (length pre)) = OutOfFuel"
proof (induction k)
  case 0
  show ?case by (simp add: data_def stuck_element_def)
next
  case (Suc k)
  let ?a = "setOSCInt (- 4)" let ?tail = "[97, 0, 0, 0, 44, 0, 0, 0 :: byte]"
  have d: "data = pre @ ?a @ ?tail" by (simp add: data_def stuck_element_def)
  have g: "getOSCInt data (int (length pre)) = Inr (4, - 4)" unfolding d by (rule getOSCInt_set)
  have l4: "length ?a = 4" by (simp add: set_big_endian)
  have p: "plain [97]" "plain [44]" by (simp_all add: plain_def)
  have s: "setOSCString [97] = [97, 0, 0, 0]" "setOSCString [44] = [44, 0, 0, 0]"
    by (simp_all add: setOSCString_def numeral_3_eq_3)
  have g1: "getOSCString data (int (length pre) + 4) = Inr (4, [97])"
    using getOSCString_plain [OF p(1), of "pre @ ?a" "[44, 0, 0, 0]"] by (simp add: d s l4)
  have g2: "getOSCString data (int (length pre) + 4 + 4) = Inr (4, [44])"
    using getOSCString_plain [OF p(2), of "pre @ ?a @ [97, 0, 0, 0]" "[]"] by (simp add: d s l4 ac_simps)
  have nb: "\<not> contains bundle_tag [97]" by code_simp
  have lt: "int (length pre) < int (length data)" by (simp add: d)
  have m4: "sint (- 4 :: 32 word) = - 4" by simp
  show ?case
    unfolding bundle_loop.simps using lt g g1 g2 nb m4 Suc.IH by (simp add: Let_def)
qed

text \<open>The size of a bundle's element is not checked: an element that gives its size as -4
  takes the loop back to the same element, and the receiver never returns.\<close>

theorem osc_bundle_hangs:
  assumes nat: "os_nativeOSC receiver"
  shows "process_osc_data fuel fm receiver
    (setOSCString bundle_tag @ setOSCTimestamp 5 @ stuck_element) = OutOfFuel"
proof -
  let ?b = "setOSCString bundle_tag" let ?pre = "?b @ setOSCTimestamp 5"
  let ?data = "?b @ setOSCTimestamp 5 @ stuck_element"
  obtain ts where ts: "getOSCTimestamp ?data (int (length ?b)) = Inr (8, ts)"
    using timestamp_read [of ?b 5 stuck_element] by blast
  have a: "getOSCString ?data 0 = Inr (int (length ?b), bundle_tag)"
    using getOSCString_plain [OF bundle_tag_facts(1), of "[]"] by simp
  have l: "int (length ?pre) = int (length ?b) + 8" by (simp add: setOSCTimestamp_def Let_def)
  have "bundle_loop fuel True (send_scheme_process_call fm receiver) [] ts ?data (int (length ?data)) (int (length ?b) + 8) = OutOfFuel"
    using stuck_step [of fuel "send_scheme_process_call fm receiver" "[]" ts ?pre] unfolding l by simp
  then show "process_osc_data fuel fm receiver ?data = OutOfFuel"
    using nat a ts bundle_tag_facts by (simp add: process_osc_data_def packet_def)
qed

lemma osc_bundle_hangs_witness:
  "process_osc_data 1000 some_formats (some_osc\<lparr>os_nativeOSC := True\<rparr>)
     (setOSCString bundle_tag @ setOSCTimestamp 5 @ stuck_element) = OutOfFuel"
  by (rule osc_bundle_hangs) simp

text \<open>The packing buffers are not checked and \<open>ret\<close> is not reset: a string argument of 1024
  characters is written past the end of the 1024-byte buffer, and an argument of no known type
  after an integer sends four bytes of uninitialised memory without a type tag.\<close>

theorem osc_send_unchecked:
  "sendOSC_message osc (replicate 1024 x) address [ArgString (replicate 1024 97)] = None \<and>
   sendOSC_message osc_new (replicate 1024 x) [97] [ArgInteger 1, ArgOther] =
     Some ([97, 0, 0, 0] @ [44, 105, 0, 0] @ [0, 0, 0, 1] @ [x, x, x, x])"
proof
  show "sendOSC_message osc (replicate 1024 x) address [ArgString (replicate 1024 97)] = None"
    by (simp add: sendOSC_message_def pack_arg_def put_bytes_def setOSCString_length Let_def)
  have b: "setOSCInt 1 = [0, 0, 0, 1]" "ascii '','' = [44]" "chr (CHR ''i'') = 105"
    "setOSCString [97] = [97, 0, 0, 0]" "setOSCString [44, 105] = [44, 105, 0, 0]" by code_simp+
  have r: "replicate 4 x = [x, x, x, x]" by (simp add: eval_nat_numeral)
  have "processArgs osc_new [ArgInteger 1, ArgOther] 0 (replicate 1024 x, 0, 0, [44]) =
      Some ([0, 0, 0, 1] @ replicate 1020 x, 8, 8, [44, 105])"
    by (simp add: pack_arg_def put_bytes_def advance_def Let_def osc_new_def b(1,3))
  moreover have "take 8 ([0, 0, 0, 1] @ replicate 1020 x) = [0, 0, 0, 1, x, x, x, x]" by (simp add: r)
  ultimately show "sendOSC_message osc_new (replicate 1024 x) [97] [ArgInteger 1, ArgOther] =
     Some ([97, 0, 0, 0] @ [44, 105, 0, 0] @ [0, 0, 0, 1] @ [x, x, x, x])"
    by (simp add: sendOSC_message_def Let_def b(2,4,5))
qed

end
