(* ===== verification/Slip.thy ===== *)
theory Slip
  imports Ext_Prelude
begin

text \<open>
  The SLIP framing of OSC over TCP in \<open>src/OSC.cpp\<close>: \<open>parse_osc_slip_data\<close> and, of the server thread,
  what one read from a client's socket does to that client's packet. Sockets are left out.
\<close>

definition SLIP_END :: byte where "SLIP_END = 192"
definition SLIP_ESC :: byte where "SLIP_ESC = 219"
definition SLIP_ESC_END :: byte where "SLIP_ESC_END = 220"
definition SLIP_ESC_ESC :: byte where "SLIP_ESC_ESC = 221"

text \<open>The result codes of the source: 2 complete, 1 and 0 more to come with and without a pending
  escape, -1 bad packet; and the data collected.\<close>

fun parse_osc_slip_data :: "byte list \<Rightarrow> byte list \<Rightarrow> bool \<Rightarrow> int \<times> byte list" where
  "parse_osc_slip_data data [] active_escape = (if active_escape then 1 else 0, data)"
| "parse_osc_slip_data data (b # buf) active_escape =
     (if b = SLIP_END then (2, data)
      else if b = SLIP_ESC then parse_osc_slip_data data buf True
      else if active_escape then
        (if b = SLIP_ESC_ESC then parse_osc_slip_data (data @ [SLIP_ESC]) buf False
         else if b = SLIP_ESC_END then parse_osc_slip_data (data @ [SLIP_END]) buf False
         else (-1, data))
      else parse_osc_slip_data (data @ [b]) buf False)"

text \<open>What the server thread keeps of a client, and one read: bytes before a packet's first
  \<open>SLIP_END\<close> are skipped; a completed packet is handed on (\<open>process_osc_data\<close>) and the rest of the
  buffer is not looked at.\<close>

record tcp_client =
  tc_data :: "byte list"
  tc_packet :: bool
  tc_active_escape :: bool

text \<open>The entries of a file descriptor that no client has used yet are made by the maps' \<open>[]\<close>: false.
  \<open>accept\<close> gives the descriptor a new vector and leaves its two flags as an earlier client left them.\<close>

definition tcp_new :: tcp_client where
  "tcp_new = \<lparr>tc_data = [], tc_packet = False, tc_active_escape = False\<rparr>"

definition tcp_accept :: "tcp_client \<Rightarrow> tcp_client" where
  "tcp_accept c = c\<lparr>tc_data := []\<rparr>"

definition tcp_reset :: "tcp_client \<Rightarrow> tcp_client" where
  "tcp_reset c = c\<lparr>tc_data := [], tc_active_escape := False, tc_packet := False\<rparr>"

definition tcp_parse :: "tcp_client \<Rightarrow> byte list \<Rightarrow> tcp_client \<times> byte list option" where
  "tcp_parse c buf =
     (let (result, data) = parse_osc_slip_data (tc_data c) buf (tc_active_escape c); c1 = c\<lparr>tc_data := data\<rparr>
      in if result = 2 then (tcp_reset c1, Some data)
         else if result = -1 then (tcp_reset c1, None)
         else if result = 0 \<or> result = 1 then (c1\<lparr>tc_active_escape := (result \<noteq> 0)\<rparr>, None)
         else (tcp_reset c1, None))"

definition tcp_read :: "tcp_client \<Rightarrow> byte list \<Rightarrow> tcp_client \<times> byte list option" where
  "tcp_read c buf =
     (if tc_packet c then tcp_parse c buf
      else case dropWhile (\<lambda>b. b \<noteq> SLIP_END) buf of
             [] \<Rightarrow> (c, None)
           | _ # rest \<Rightarrow> tcp_parse (c\<lparr>tc_packet := True\<rparr>) rest)"

fun tcp_reads :: "tcp_client \<Rightarrow> byte list list \<Rightarrow> tcp_client \<times> byte list list" where
  "tcp_reads c [] = (c, [])"
| "tcp_reads c (b # bs) =
     (let (c1, p) = tcp_read c b; (c2, ps) = tcp_reads c1 bs
      in (c2, (case p of None \<Rightarrow> ps | Some x \<Rightarrow> x # ps)))"

section \<open>The encoding of RFC 1055\<close>

definition slip_byte :: "byte \<Rightarrow> byte list" where
  "slip_byte b = (if b = SLIP_END then [SLIP_ESC, SLIP_ESC_END]
     else if b = SLIP_ESC then [SLIP_ESC, SLIP_ESC_ESC] else [b])"

definition slip_encode :: "byte list \<Rightarrow> byte list" where
  "slip_encode bs = concat (map slip_byte bs)"

lemmas slip_codes = SLIP_END_def SLIP_ESC_def SLIP_ESC_END_def SLIP_ESC_ESC_def

lemma slip_distinct [simp]:
  "SLIP_ESC \<noteq> SLIP_END" "SLIP_ESC_END \<noteq> SLIP_END" "SLIP_ESC_ESC \<noteq> SLIP_END" "SLIP_END \<noteq> SLIP_ESC"
  "SLIP_ESC_END \<noteq> SLIP_ESC" "SLIP_ESC_ESC \<noteq> SLIP_ESC" "SLIP_ESC_END \<noteq> SLIP_ESC_ESC"
  by (simp_all add: slip_codes)

lemma parse_encoded:
  "parse_osc_slip_data data (slip_encode p @ rest) False = parse_osc_slip_data (data @ p) rest False"
  by (induction p arbitrary: data) (simp_all add: slip_encode_def slip_byte_def)

text \<open>How a parse goes on in the next buffer.\<close>

definition resume :: "int \<times> byte list \<Rightarrow> byte list \<Rightarrow> int \<times> byte list" where
  "resume r buf = (case r of (c, data) \<Rightarrow>
     if c = 0 then parse_osc_slip_data data buf False
     else if c = 1 then parse_osc_slip_data data buf True else (c, data))"

lemma parse_append:
  "parse_osc_slip_data data (b1 @ b2) esc = resume (parse_osc_slip_data data b1 esc) b2"
  by (induction data b1 esc rule: parse_osc_slip_data.induct) (simp_all add: resume_def)

section \<open>Guarantees\<close>

text \<open>C33: A packet in the framing of RFC 1055 is recovered byte for byte, also when it
  contains the framing bytes, and the client is ready for the next packet.\<close>

theorem slip_round_trip:
  "tcp_read tcp_new (SLIP_END # slip_encode p @ [SLIP_END]) = (tcp_new, Some p)"
  by (simp add: tcp_read_def tcp_new_def tcp_parse_def parse_encoded tcp_reset_def)

text \<open>C34: Inside a packet it does not matter how the stream is cut into reads, even between an
  escape and the byte it escapes: while a read has not completed the packet, the next read goes on
  as if the two had been one.\<close>

theorem slip_chunking:
  "tc_packet c \<Longrightarrow> fst (parse_osc_slip_data (tc_data c) b1 (tc_active_escape c)) \<in> {0, 1} \<Longrightarrow>
   snd (tcp_read c b1) = None \<and> tcp_read (fst (tcp_read c b1)) b2 = tcp_read c (b1 @ b2)"
proof -
  assume a: "tc_packet c" "fst (parse_osc_slip_data (tc_data c) b1 (tc_active_escape c)) \<in> {0, 1}"
  obtain r d where p: "parse_osc_slip_data (tc_data c) b1 (tc_active_escape c) = (r, d)" by force
  then have r: "r = 0 \<or> r = 1" using a(2) by simp
  have one: "tcp_read c b1 = (c\<lparr>tc_data := d, tc_active_escape := (r \<noteq> 0)\<rparr>, None)"
    using a(1) r by (auto simp: tcp_read_def tcp_parse_def p)
  have "parse_osc_slip_data (tc_data c) (b1 @ b2) (tc_active_escape c) = parse_osc_slip_data d b2 (r \<noteq> 0)"
    using r by (auto simp: parse_append p resume_def)
  then have "tcp_parse (c\<lparr>tc_data := d, tc_active_escape := (r \<noteq> 0)\<rparr>) b2 = tcp_parse c (b1 @ b2)"
    by (cases c) (simp add: tcp_parse_def tcp_reset_def split_beta Let_def)
  then show ?thesis unfolding one using a(1) by (simp add: tcp_read_def)
qed

lemma slip_chunking_witness:
  "tcp_read (fst (tcp_read (tcp_new\<lparr>tc_packet := True\<rparr>) [1, SLIP_ESC])) [SLIP_ESC_END, SLIP_END]
     = (tcp_new, Some [1, SLIP_END])"
proof -
  have "tcp_read (fst (tcp_read (tcp_new\<lparr>tc_packet := True\<rparr>) [1, SLIP_ESC])) [SLIP_ESC_END, SLIP_END] =
      tcp_read (tcp_new\<lparr>tc_packet := True\<rparr>) ([1, SLIP_ESC] @ [SLIP_ESC_END, SLIP_END])"
    by (rule slip_chunking [THEN conjunct2]) (simp_all add: tcp_new_def slip_codes)
  also have "\<dots> = (tcp_new, Some [1, SLIP_END])" by code_simp
  finally show ?thesis .
qed

text \<open>When a read brings more than one packet, only the first is processed: the rest of
  the buffer is dropped.\<close>

theorem slip_second_packet_lost:
  "tcp_reads tcp_new [SLIP_END # slip_encode p @ [SLIP_END] @ SLIP_END # slip_encode q @ [SLIP_END]] = (tcp_new, [p])"
  by (simp add: tcp_read_def tcp_new_def tcp_parse_def parse_encoded tcp_reset_def)

text \<open>A descriptor that is used again after a client closed its connection inside a packet still
  counts as inside a packet: the first packet of the new client is read as an empty one and dropped.\<close>

theorem slip_stale_packet:
  "tcp_read (tcp_accept (fst (tcp_read tcp_new [SLIP_END]))) (SLIP_END # slip_encode p @ [SLIP_END]) =
     (tcp_new, Some [])"
  by (simp add: tcp_read_def tcp_new_def tcp_accept_def tcp_parse_def tcp_reset_def)

end
