(* ===== verification/Scheme_Store.thy ===== *)
theory Scheme_Store
  imports Numbers "HOL-Library.Monad_Syntax"
begin

text \<open>
  The interpreter's cells (src/include/Scheme.h, src/src/Scheme.cpp) as a store of typed objects:
  allocation, \<open>car\<close> and \<open>cdr\<close>, the constructors, and the list routines. A new cell has an address
  no cell had before; which old cells may be reused is the collector's matter (\<open>Treadmill\<close>). The
  debugger's fields of a cell are left out. \<open>None\<close> is no result: a field read through a cell that
  has no such field (undefined in C++), or a loop that does not end.
\<close>

section \<open>Opcodes\<close>

text \<open>
  The opcodes of src/include/OPDefines.h by the function that executes them (the first column of
  the dispatch table), in the order of that file.
\<close>

datatype op0 = OP_LOAD | OP_T0LVL | OP_T1LVL | OP_READ_INTERNAL | OP_GENSYM | OP_VALUEPRINT | OP_EVAL
  | OP_REAL_EVAL | OP_E0ARGS | OP_E1ARGS | OP_APPLY | OP_REAL_APPLY | OP_TRACING | OP_DOMACRO | OP_LAMBDA
  | OP_MKCLOSURE | OP_QUOTE | OP_DEF0 | OP_DEF1 | OP_DEFP | OP_BEGIN | OP_IF0 | OP_IF1
  | OP_SET0 | OP_SET1 | OP_LET0 | OP_LET1 | OP_LET2 | OP_LET0AST | OP_LET1AST | OP_LET2AST

datatype op1 = OP_LET0REC | OP_LET1REC | OP_LET2REC | OP_COND0 | OP_COND1 | OP_DELAY | OP_AND0
  | OP_AND1 | OP_OR0 | OP_OR1 | OP_C0STREAM | OP_C1STREAM | OP_MACRO0 | OP_MACRO1 | OP_CASE0
  | OP_CASE1 | OP_CASE2 | OP_PEVAL | OP_PAPPLY | OP_CONTINUATION

datatype op2 = OP_INEX2EX | OP_EXP | OP_LOG | OP_SIN | OP_COS | OP_TAN | OP_ASIN | OP_ACOS | OP_ATAN
  | OP_SQRT | OP_EXPT | OP_FLOOR | OP_CEILING | OP_TRUNCATE | OP_ROUND | OP_ADD | OP_SUB | OP_MUL
  | OP_DIV | OP_BITNOT | OP_BITAND | OP_BITOR | OP_BITEOR | OP_BITLSL | OP_BITLSR | OP_INTDIV | OP_REM
  | OP_MOD | OP_CAR | OP_CDR | OP_CONS | OP_SETCAR | OP_SETCDR | OP_CHAR2INT | OP_INT2CHAR
  | OP_CHARUPCASE | OP_CHARDNCASE | OP_SYM2STR | OP_ATOM2STR | OP_STR2SYM | OP_STR2ATOM
  | OP_MKSTRING | OP_STRLEN | OP_STRREF | OP_STRSET | OP_STRAPPEND
  | OP_SUBSTR | OP_VECTOR | OP_MKVECTOR | OP_VECLEN | OP_VECREF | OP_VECSET

datatype op3 = OP_NOT | OP_BOOLP | OP_EOFOBJP | OP_NULLP | OP_NUMEQ | OP_LESS | OP_GRE | OP_LEQ | OP_GEQ
  | OP_SYMBOLP | OP_NUMBERP | OP_STRINGP | OP_INTEGERP | OP_REALP | OP_RATIONALP | OP_CHARP | OP_CHARAP
  | OP_CHARNP | OP_CHARWP | OP_CHARUP | OP_CHARLP | OP_PORTP | OP_INPORTP | OP_OUTPORTP | OP_PROCP
  | OP_PAIRP | OP_LISTP
  | OP_ENVP | OP_VECTORP | OP_CPTRP | OP_EQ | OP_EQV

datatype op4 = OP_FORCE | OP_SAVE_FORCED | OP_WRITE | OP_WRITE_CHAR | OP_DISPLAY | OP_NEWLINE | OP_ERR0
  | OP_ERR1 | OP_REVERSE | OP_LIST_STAR | OP_APPEND | OP_PUT | OP_GET | OP_QUIT | OP_NEWSEGMENT | OP_OBLIST
  | OP_CURR_INPORT | OP_CURR_OUTPORT | OP_OPEN_INFILE | OP_OPEN_OUTFILE | OP_OPEN_INOUTFILE
  | OP_OPEN_INSTRING | OP_OPEN_INOUTSTRING | OP_OPEN_OUTSTRING | OP_GET_OUTSTRING | OP_CLOSE_INPORT
  | OP_CLOSE_OUTPORT | OP_INT_ENV | OP_CURR_ENV

datatype op5 = OP_READ | OP_READ_CHAR | OP_PEEK_CHAR | OP_CHAR_READY | OP_SET_INPORT | OP_SET_OUTPORT
  | OP_RDSEXPR | OP_RDLIST | OP_RDDOT | OP_RDQUOTE | OP_RDQQUOTE | OP_RDQQUOTEVEC | OP_RDUNQUOTE
  | OP_RDUQTSP | OP_RDVEC | OP_P0LIST | OP_P1LIST | OP_PVECFROM

datatype op6 = OP_LIST_LENGTH | OP_ASSQ | OP_GET_CLOSURE | OP_CLOSUREP | OP_MACROP

datatype opcode = O0 op0 | O1 op1 | O2 op2 | O3 op3 | O4 op4 | O5 op5 | O6 op6

text \<open>A frame of the dump stack (\<open>struct dump_stack_frame\<close>).\<close>

record frame =
  f_op :: opcode
  f_args :: addr
  f_envir :: addr
  f_code :: addr

section \<open>Ports and tokens\<close>

text \<open>
  A port (\<open>struct port\<close>) reads and writes a file, or a buffer from offset 0 on: the buffer, \<open>curr\<close> and
  \<open>past_the_end\<close> as offsets in it. A file is the bytes left to read and the bytes written so far; \<open>Freed\<close> is a closed file. The flags
  are \<open>port_input\<close>, \<open>port_output\<close> and \<open>port_srfi6\<close> of \<open>kind\<close>.
\<close>

datatype port_rep = Stdio "byte list" "byte list" | Str nat nat nat | Freed

record port =
  p_input :: bool
  p_output :: bool
  p_srfi6 :: bool
  p_rep :: port_rep

definition closed_port :: port where
  "closed_port = \<lparr>p_input = False, p_output = False, p_srfi6 = False, p_rep = Str 0 0 0\<rparr>"

datatype token = TOK_EOF | TOK_LPAREN | TOK_RPAREN | TOK_DOT | TOK_ATOM | TOK_QUOTE | TOK_COMMENT | TOK_DQUOTE
  | TOK_BQUOTE | TOK_COMMA | TOK_ATMARK | TOK_SHARP | TOK_SHARP_CONST | TOK_VEC

section \<open>Cells\<close>

text \<open>
  The type flag of a cell and the fields of its union. \<open>Blank\<close> is a cell as \<open>get_cell\<close> leaves
  it, \<open>Atom\<close> one of the cells NIL, T and F, whose two fields point to themselves. \<open>Syntax\<close> is
  \<open>T_SYMBOL | T_SYNTAX\<close>. A string has a buffer and a length, a vector its elements, a \<open>Dump\<close> the
  frames \<open>dump_stack_copy\<close> saved (a \<open>T_CPTR\<close>), a port its \<open>struct port\<close>. The store also holds the registers of
  reading and printing: the current ports, the token and the print flag.
\<close>

datatype cell = Junk | Blank addr addr | Atom | Pair addr addr | Environment addr addr
  | Symbol addr addr | Syntax addr addr | Closure addr addr | Macro addr addr | Promise addr addr
  | Continuation addr addr | Number num | Character int | String nat nat | Vector "addr list"
  | Proc opcode | Foreign nat | Dump "frame list" | Port nat

record store =
  h_cell :: "addr \<Rightarrow> cell"
  h_immutable :: "addr \<Rightarrow> bool"
  h_buf :: "nat \<Rightarrow> byte list"
  h_next :: addr
  h_nbuf :: nat
  h_gensym_cnt :: int
  h_port :: "nat \<Rightarrow> port"
  h_nport :: nat
  h_inport :: addr
  h_outport :: addr
  h_save_inport :: addr
  h_loadport :: addr
  h_tok :: token
  h_print_flag :: bool

text \<open>The cells \<open>scheme_init_custom_alloc\<close> allocates first, in this order.\<close>

definition NIL :: addr where "NIL = 0"
definition sink :: addr where "sink = 1"
definition T_OBJ :: addr where "T_OBJ = 2"
definition F_OBJ :: addr where "F_OBJ = 3"
definition EOF_OBJ :: addr where "EOF_OBJ = 4"

definition is_pair :: "store \<Rightarrow> addr \<Rightarrow> bool" where
  "is_pair h p = (case h_cell h p of Pair _ _ \<Rightarrow> True | _ \<Rightarrow> False)"

definition is_environment :: "store \<Rightarrow> addr \<Rightarrow> bool" where
  "is_environment h p = (case h_cell h p of Environment _ _ \<Rightarrow> True | _ \<Rightarrow> False)"

definition is_symbol :: "store \<Rightarrow> addr \<Rightarrow> bool" where
  "is_symbol h p = (case h_cell h p of Symbol _ _ \<Rightarrow> True | Syntax _ _ \<Rightarrow> True | _ \<Rightarrow> False)"

definition is_syntax :: "store \<Rightarrow> addr \<Rightarrow> bool" where
  "is_syntax h p = (case h_cell h p of Syntax _ _ \<Rightarrow> True | _ \<Rightarrow> False)"

definition is_closure :: "store \<Rightarrow> addr \<Rightarrow> bool" where
  "is_closure h p = (case h_cell h p of Closure _ _ \<Rightarrow> True | _ \<Rightarrow> False)"

definition is_macro :: "store \<Rightarrow> addr \<Rightarrow> bool" where
  "is_macro h p = (case h_cell h p of Macro _ _ \<Rightarrow> True | _ \<Rightarrow> False)"

definition is_promise :: "store \<Rightarrow> addr \<Rightarrow> bool" where
  "is_promise h p = (case h_cell h p of Promise _ _ \<Rightarrow> True | _ \<Rightarrow> False)"

definition is_continuation :: "store \<Rightarrow> addr \<Rightarrow> bool" where
  "is_continuation h p = (case h_cell h p of Continuation _ _ \<Rightarrow> True | _ \<Rightarrow> False)"

definition is_number :: "store \<Rightarrow> addr \<Rightarrow> bool" where
  "is_number h p = (case h_cell h p of Number _ \<Rightarrow> True | _ \<Rightarrow> False)"

definition is_character :: "store \<Rightarrow> addr \<Rightarrow> bool" where
  "is_character h p = (case h_cell h p of Character _ \<Rightarrow> True | _ \<Rightarrow> False)"

definition is_string :: "store \<Rightarrow> addr \<Rightarrow> bool" where
  "is_string h p = (case h_cell h p of String _ _ \<Rightarrow> True | _ \<Rightarrow> False)"

definition is_vector :: "store \<Rightarrow> addr \<Rightarrow> bool" where
  "is_vector h p = (case h_cell h p of Vector _ \<Rightarrow> True | _ \<Rightarrow> False)"

definition is_proc :: "store \<Rightarrow> addr \<Rightarrow> bool" where
  "is_proc h p = (case h_cell h p of Proc _ \<Rightarrow> True | _ \<Rightarrow> False)"

definition is_foreign :: "store \<Rightarrow> addr \<Rightarrow> bool" where
  "is_foreign h p = (case h_cell h p of Foreign _ \<Rightarrow> True | _ \<Rightarrow> False)"

definition is_cptr :: "store \<Rightarrow> addr \<Rightarrow> bool" where
  "is_cptr h p = (case h_cell h p of Dump _ \<Rightarrow> True | _ \<Rightarrow> False)"

definition is_port :: "store \<Rightarrow> addr \<Rightarrow> bool" where
  "is_port h p = (case h_cell h p of Port _ \<Rightarrow> True | _ \<Rightarrow> False)"

lemmas type_defs = is_pair_def is_environment_def is_symbol_def is_syntax_def is_closure_def is_macro_def
  is_promise_def is_continuation_def is_number_def is_character_def is_string_def is_vector_def
  is_proc_def is_foreign_def is_cptr_def is_port_def

text \<open>The pair of pointers that \<open>car\<close> and \<open>cdr\<close> read, and the cell with one of them replaced.\<close>

fun cell_fields :: "addr \<Rightarrow> cell \<Rightarrow> (addr \<times> addr) option" where
  "cell_fields p Atom = Some (p, p)"
| "cell_fields p (Blank a d) = Some (a, d)"
| "cell_fields p (Pair a d) = Some (a, d)"
| "cell_fields p (Environment a d) = Some (a, d)"
| "cell_fields p (Symbol a d) = Some (a, d)"
| "cell_fields p (Syntax a d) = Some (a, d)"
| "cell_fields p (Closure a d) = Some (a, d)"
| "cell_fields p (Macro a d) = Some (a, d)"
| "cell_fields p (Promise a d) = Some (a, d)"
| "cell_fields p (Continuation a d) = Some (a, d)"
| "cell_fields p _ = None"

fun with_fields :: "cell \<Rightarrow> addr \<Rightarrow> addr \<Rightarrow> cell option" where
  "with_fields (Blank _ _) a d = Some (Blank a d)"
| "with_fields (Pair _ _) a d = Some (Pair a d)"
| "with_fields (Environment _ _) a d = Some (Environment a d)"
| "with_fields (Symbol _ _) a d = Some (Symbol a d)"
| "with_fields (Syntax _ _) a d = Some (Syntax a d)"
| "with_fields (Closure _ _) a d = Some (Closure a d)"
| "with_fields (Macro _ _) a d = Some (Macro a d)"
| "with_fields (Promise _ _) a d = Some (Promise a d)"
| "with_fields (Continuation _ _) a d = Some (Continuation a d)"
| "with_fields _ a d = None"

definition car :: "store \<Rightarrow> addr \<Rightarrow> addr option" where
  "car h p = map_option fst (cell_fields p (h_cell h p))"

definition cdr :: "store \<Rightarrow> addr \<Rightarrow> addr option" where
  "cdr h p = map_option snd (cell_fields p (h_cell h p))"

definition put_cell :: "store \<Rightarrow> addr \<Rightarrow> cell \<Rightarrow> store" where
  "put_cell h p c = h\<lparr>h_cell := (h_cell h)(p := c)\<rparr>"

definition store_car :: "store \<Rightarrow> addr \<Rightarrow> addr \<Rightarrow> store option" where
  "store_car h p a = do { d \<leftarrow> cdr h p; c \<leftarrow> with_fields (h_cell h p) a d; Some (put_cell h p c) }"

definition store_cdr :: "store \<Rightarrow> addr \<Rightarrow> addr \<Rightarrow> store option" where
  "store_cdr h p d = do { a \<leftarrow> car h p; c \<leftarrow> with_fields (h_cell h p) a d; Some (put_cell h p c) }"

definition caar :: "store \<Rightarrow> addr \<Rightarrow> addr option" where "caar h p = Option.bind (car h p) (car h)"
definition cadr :: "store \<Rightarrow> addr \<Rightarrow> addr option" where "cadr h p = Option.bind (cdr h p) (car h)"
definition cdar :: "store \<Rightarrow> addr \<Rightarrow> addr option" where "cdar h p = Option.bind (car h p) (cdr h)"
definition cddr :: "store \<Rightarrow> addr \<Rightarrow> addr option" where "cddr h p = Option.bind (cdr h p) (cdr h)"
definition caddr :: "store \<Rightarrow> addr \<Rightarrow> addr option" where "caddr h p = Option.bind (cddr h p) (car h)"
definition cadar :: "store \<Rightarrow> addr \<Rightarrow> addr option" where "cadar h p = Option.bind (cdar h p) (car h)"
definition cadaar :: "store \<Rightarrow> addr \<Rightarrow> addr option" where "cadaar h p = Option.bind (caar h p) (cadr h)"

section \<open>Allocation\<close>

text \<open>\<open>get_cell\<close>, and the constructors that fill the cell it returns.\<close>

definition new_cell :: "store \<Rightarrow> store \<times> addr" where
  "new_cell h =
     (h\<lparr>h_cell := (h_cell h)(h_next h := Blank NIL NIL), h_immutable := (h_immutable h)(h_next h := False),
        h_next := Suc (h_next h)\<rparr>, h_next h)"

definition alloc :: "cell \<Rightarrow> store \<Rightarrow> store \<times> addr" where
  "alloc c h = (let (h1, x) = new_cell h in (put_cell h1 x c, x))"

definition setimmutable :: "store \<Rightarrow> addr \<Rightarrow> store" where
  "setimmutable h p = h\<lparr>h_immutable := (h_immutable h)(p := True)\<rparr>"

definition cons :: "store \<Rightarrow> addr \<Rightarrow> addr \<Rightarrow> store \<times> addr" where
  "cons h a d = alloc (Pair a d) h"

definition immutable_cons :: "store \<Rightarrow> addr \<Rightarrow> addr \<Rightarrow> store \<times> addr" where
  "immutable_cons h a d = (let (h1, x) = cons h a d in (setimmutable h1 x, x))"

definition mk_closure :: "store \<Rightarrow> addr \<Rightarrow> addr \<Rightarrow> store \<times> addr" where
  "mk_closure h c e = alloc (Closure c e) h"

definition mk_integer :: "store \<Rightarrow> int \<Rightarrow> store \<times> addr" where
  "mk_integer h i = alloc (Number (Integer i)) h"

definition mk_character :: "store \<Rightarrow> int \<Rightarrow> store \<times> addr" where
  "mk_character h c = alloc (Character c) h"

definition mk_proc :: "store \<Rightarrow> opcode \<Rightarrow> store \<times> addr" where
  "mk_proc h oc = alloc (Proc oc) h"

text \<open>\<open>mk_vector\<close> with the elements \<open>fill_vector\<close> stores.\<close>

definition mk_vector :: "store \<Rightarrow> nat \<Rightarrow> addr \<Rightarrow> store \<times> addr" where
  "mk_vector h len fill = alloc (Vector (replicate len fill)) h"

text \<open>\<open>store_string\<close>: a fresh buffer with the characters and a terminating zero.\<close>

definition store_string :: "store \<Rightarrow> byte list \<Rightarrow> store \<times> nat" where
  "store_string h s = (h\<lparr>h_buf := (h_buf h)(h_nbuf h := s @ [0]), h_nbuf := Suc (h_nbuf h)\<rparr>, h_nbuf h)"

definition mk_counted_string :: "store \<Rightarrow> byte list \<Rightarrow> store \<times> addr" where
  "mk_counted_string h s = (let (h1, b) = store_string h s in alloc (String b (length s)) h1)"

definition mk_empty_string :: "store \<Rightarrow> nat \<Rightarrow> byte \<Rightarrow> store \<times> addr" where
  "mk_empty_string h len fill = mk_counted_string h (replicate len fill)"

text \<open>The C string in a buffer: the bytes before the first zero.\<close>

definition c_str :: "store \<Rightarrow> nat \<Rightarrow> byte list" where
  "c_str h b = takeWhile (\<lambda>c. c \<noteq> 0) (h_buf h b)"

text \<open>\<open>symname\<close>: the name of a symbol is the string in its \<open>car\<close>.\<close>

definition symname :: "store \<Rightarrow> addr \<Rightarrow> byte list option" where
  "symname h p =
     (if is_symbol h p then
        do { s \<leftarrow> car h p; (case h_cell h s of String b _ \<Rightarrow> Some (c_str h b) | _ \<Rightarrow> None) }
      else None)"

section \<open>Lists\<close>

partial_function (option) list_length_loop :: "store \<Rightarrow> addr \<Rightarrow> int \<Rightarrow> int option" where
  "list_length_loop h a v =
     (if is_pair h a then do { d \<leftarrow> cdr h a; list_length_loop h d (v + 1) }
      else Some (if a = NIL then v else -1))"

definition list_length :: "store \<Rightarrow> addr \<Rightarrow> int option" where
  "list_length h a = list_length_loop h a 0"

partial_function (option) reverse_loop :: "store \<Rightarrow> addr \<Rightarrow> addr \<Rightarrow> (store \<times> addr) option" where
  "reverse_loop h a p =
     (if is_pair h a then
        do { x \<leftarrow> car h a; let (h1, q) = cons h x p; d \<leftarrow> cdr h1 a; reverse_loop h1 d q }
      else Some (h, p))"

definition reverse :: "store \<Rightarrow> addr \<Rightarrow> (store \<times> addr) option" where
  "reverse h a = (if a = NIL then Some (h, NIL) else reverse_loop h a NIL)"

text \<open>The loop both \<open>reverse_in_place\<close> and \<open>append\<close> run: the cells are relinked one by one.\<close>

partial_function (option) relink_loop :: "store \<Rightarrow> addr \<Rightarrow> addr \<Rightarrow> (store \<times> addr) option" where
  "relink_loop h p result =
     (if p \<noteq> NIL then do { q \<leftarrow> cdr h p; h1 \<leftarrow> store_cdr h p result; relink_loop h1 q p }
      else Some (h, result))"

definition reverse_in_place :: "store \<Rightarrow> addr \<Rightarrow> addr \<Rightarrow> (store \<times> addr) option" where
  "reverse_in_place h term list = relink_loop h list term"

definition append :: "store \<Rightarrow> addr \<Rightarrow> addr \<Rightarrow> (store \<times> addr) option" where
  "append h a b =
     (if a \<noteq> NIL then do { (h1, r) \<leftarrow> reverse h a; relink_loop h1 r b } else Some (h, b))"

partial_function (option) list_copy_loop :: "store \<Rightarrow> addr \<Rightarrow> addr \<Rightarrow> (store \<times> addr) option" where
  "list_copy_loop h a ret =
     (if a \<noteq> NIL then
        do { x \<leftarrow> car h a; let (h1, q) = cons h x ret; d \<leftarrow> cdr h1 a; list_copy_loop h1 d q }
      else Some (h, ret))"

definition list_copy :: "store \<Rightarrow> addr \<Rightarrow> (store \<times> addr) option" where
  "list_copy h a = do { (h1, ret) \<leftarrow> list_copy_loop h a NIL; reverse_in_place h1 NIL ret }"

text \<open>
  \<open>list_star\<close>: the first cell is copied; the loop makes a copy of each further cell but keeps
  walking along the original ones, and the last step stores into the last but one of them.
\<close>

partial_function (option) list_star_loop :: "store \<Rightarrow> addr \<Rightarrow> (store \<times> addr) option" where
  "list_star_loop h p =
     do { t \<leftarrow> cddr h p;
          if t \<noteq> NIL then
            do { x \<leftarrow> car h p; y \<leftarrow> cdr h p; let (h1, d) = cons h x y; p' \<leftarrow> cdr h1 d; list_star_loop h1 p' }
          else Some (h, p) }"

definition list_star :: "store \<Rightarrow> addr \<Rightarrow> (store \<times> addr) option" where
  "list_star h d =
     do { n \<leftarrow> cdr h d;
          if n = NIL then do { x \<leftarrow> car h d; Some (h, x) }
          else do { x \<leftarrow> car h d; let (h1, q) = cons h x n; (h2, p) \<leftarrow> list_star_loop h1 q;
                    y \<leftarrow> cadr h2 p; h3 \<leftarrow> store_cdr h2 p y; Some (h3, q) } }"

text \<open>\<open>list_ref\<close>: NIL past the end; a negative position leaves the result uninitialised.\<close>

fun list_ref_nat :: "store \<Rightarrow> nat \<Rightarrow> addr \<Rightarrow> addr option" where
  "list_ref_nat h 0 a = (if \<not> is_pair h a then Some NIL else car h a)"
| "list_ref_nat h (Suc i) a =
     (if \<not> is_pair h a then Some NIL else do { d \<leftarrow> cdr h a; list_ref_nat h i d })"

definition list_ref :: "store \<Rightarrow> int \<Rightarrow> addr \<Rightarrow> addr option" where
  "list_ref h pos a = (if pos < 0 then None else list_ref_nat h (nat pos) a)"

text \<open>\<open>list?\<close>: two pointers, one twice as fast, tell a cycle from a list.\<close>

partial_function (option) listp_loop :: "store \<Rightarrow> addr \<Rightarrow> addr \<Rightarrow> bool option" where
  "listp_loop h slow fast =
     (if \<not> is_pair h fast then Some (fast = NIL)
      else do { f1 \<leftarrow> cdr h fast;
           if \<not> is_pair h f1 then Some (f1 = NIL)
           else do { f2 \<leftarrow> cdr h f1; s1 \<leftarrow> cdr h slow; if f2 = s1 then Some False else listp_loop h s1 f2 } })"

text \<open>\<open>eqv_sc\<close>: strings are compared by the address of their buffer.\<close>

definition eqv :: "store \<Rightarrow> addr \<Rightarrow> addr \<Rightarrow> bool" where
  "eqv h a b =
     (case h_cell h a of
        String p _ \<Rightarrow> (case h_cell h b of String q _ \<Rightarrow> p = q | _ \<Rightarrow> False)
      | Number x \<Rightarrow> (case h_cell h b of Number y \<Rightarrow> num_eq x y | _ \<Rightarrow> False)
      | Character x \<Rightarrow> (case h_cell h b of Character y \<Rightarrow> x = y | _ \<Rightarrow> False)
      | Proc x \<Rightarrow> (case h_cell h b of Proc y \<Rightarrow> x = y | _ \<Rightarrow> False)
      | Dump _ \<Rightarrow> is_cptr h b \<and> a = b
      | _ \<Rightarrow> a = b)"

end
