(* ===== verification/Scheme_Lists.thy ===== *)
theory Scheme_Lists
  imports Scheme_Store
begin

text \<open>What the list routines of \<open>Scheme_Store\<close> do to lists in the store.\<close>

section \<open>The store\<close>

named_theorems heap_simps \<open>reading a store after a change\<close>

text \<open>
  \<open>store_ok\<close>: the special cells are in place, and the addresses from the next one on have not been given out.
\<close>

definition store_ok :: "store \<Rightarrow> bool" where
  "store_ok h \<longleftrightarrow> h_cell h NIL = Atom \<and> h_cell h T_OBJ = Atom \<and> h_cell h F_OBJ = Atom \<and> EOF_OBJ < h_next h \<and>
     (\<forall>p. h_cell h p \<noteq> Junk \<longrightarrow> p < h_next h)"

lemma store_okD:
  assumes "store_ok h"
  shows "h_cell h NIL = Atom" "\<not> is_pair h NIL" "NIL < h_next h" "is_pair h p \<Longrightarrow> p < h_next h" "is_pair h p \<Longrightarrow> p \<noteq> NIL"
proof -
  show a: "h_cell h NIL = Atom" and "NIL < h_next h" "is_pair h p \<Longrightarrow> p < h_next h"
    using assms by (auto simp: store_ok_def NIL_def EOF_OBJ_def is_pair_def split: cell.splits)
  show "\<not> is_pair h NIL" using a by (simp add: is_pair_def)
  then show "is_pair h p \<Longrightarrow> p \<noteq> NIL" by blast
qed

lemma car_cdr_pair [simp]: "h_cell h p = Pair a d \<Longrightarrow> car h p = Some a" "h_cell h p = Pair a d \<Longrightarrow> cdr h p = Some d"
  by (simp_all add: car_def cdr_def)

lemma is_pair_Pair [simp]: "h_cell h p = Pair a d \<Longrightarrow> is_pair h p"
  by (simp add: is_pair_def)

lemma put_cell_simps [heap_simps]:
  "h_cell (put_cell h p c) = (h_cell h)(p := c)" "h_next (put_cell h p c) = h_next h"
  "h_immutable (put_cell h p c) = h_immutable h" "h_buf (put_cell h p c) = h_buf h"
  by (simp_all add: put_cell_def)

lemma alloc_simps [heap_simps]:
  "snd (alloc c h) = h_next h" "h_cell (fst (alloc c h)) = (h_cell h)(h_next h := c)"
  "h_next (fst (alloc c h)) = Suc (h_next h)"
  by (simp_all add: alloc_def new_cell_def put_cell_def)

lemma cons_simps [heap_simps]:
  "snd (cons h a d) = h_next h" "h_cell (fst (cons h a d)) = (h_cell h)(h_next h := Pair a d)"
  "h_next (fst (cons h a d)) = Suc (h_next h)"
  by (simp_all add: cons_def heap_simps)

lemma case_cons [simp]: "(case cons h a d of (h1, x) \<Rightarrow> f h1 x) = f (fst (cons h a d)) (h_next h)"
  by (simp add: case_prod_beta heap_simps)

lemma store_cdr_pair:
  "h_cell h p = Pair a d \<Longrightarrow> store_cdr h p d' = Some (put_cell h p (Pair a d'))"
  by (simp add: store_cdr_def)

lemma store_ok_cons: "store_ok h \<Longrightarrow> store_ok (fst (cons h a d))"
  by (auto simp: store_ok_def heap_simps is_pair_def NIL_def T_OBJ_def F_OBJ_def EOF_OBJ_def less_Suc_eq split: if_splits)

lemma store_ok_put_pair: "store_ok h \<Longrightarrow> is_pair h p \<Longrightarrow> store_ok (put_cell h p (Pair a d))"
  by (frule (1) store_okD(4)) (auto simp: store_ok_def heap_simps is_pair_def)

text \<open>\<open>keeps h h'\<close>: no cell of \<open>h\<close> was changed.\<close>

definition keeps :: "store \<Rightarrow> store \<Rightarrow> bool" where
  "keeps h h' \<longleftrightarrow> h_next h \<le> h_next h' \<and> (\<forall>p < h_next h. h_cell h' p = h_cell h p)"

lemma keeps_refl [simp, intro]: "keeps h h"
  by (simp add: keeps_def)

lemma keeps_trans [trans]: "keeps h h1 \<Longrightarrow> keeps h1 h2 \<Longrightarrow> keeps h h2"
  by (auto simp: keeps_def)

lemma keeps_cons [simp, intro]: "keeps h (fst (cons h a d))"
  by (simp add: keeps_def heap_simps)

section \<open>Lists in the store\<close>

text \<open>\<open>slist h p xs e\<close>: from \<open>p\<close> the cells of \<open>xs\<close>, each with its element, lead to \<open>e\<close>.\<close>

fun segment :: "store \<Rightarrow> addr \<Rightarrow> (addr \<times> addr) list \<Rightarrow> addr \<Rightarrow> bool" where
  "segment h p [] e \<longleftrightarrow> p = e"
| "segment h p ((c, v) # xs) e \<longleftrightarrow> p = c \<and> (\<exists>d. h_cell h c = Pair v d \<and> segment h d xs e)"

abbreviation slist :: "store \<Rightarrow> addr \<Rightarrow> (addr \<times> addr) list \<Rightarrow> bool" where
  "slist h p xs \<equiv> segment h p xs NIL"

abbreviation elems :: "(addr \<times> addr) list \<Rightarrow> addr list" where
  "elems xs \<equiv> map snd xs"

lemma segment_append: "segment h p (xs @ ys) e \<longleftrightarrow> (\<exists>q. segment h p xs q \<and> segment h q ys e)"
  by (induction h p xs e rule: segment.induct) auto

lemma segment_cong:
  "segment h p xs e \<Longrightarrow> (\<And>c v. (c, v) \<in> set xs \<Longrightarrow> h_cell h' c = h_cell h c) \<Longrightarrow> segment h' p xs e"
proof (induction h p xs e rule: segment.induct)
  case (2 h p c v xs e)
  then obtain d where d: "p = c" "h_cell h c = Pair v d" "segment h d xs e" by auto
  have "segment h' d xs e" by (rule "2.IH" [OF d(3)]) (use "2.prems"(2) in auto)
  moreover have "h_cell h' c = Pair v d" using "2.prems"(2) [of c v] d(2) by simp
  ultimately show ?case using d(1) by auto
qed simp

lemma segment_pair: "segment h p xs e \<Longrightarrow> (c, v) \<in> set xs \<Longrightarrow> is_pair h c"
  by (induction h p xs e rule: segment.induct) auto

lemma segment_keeps:
  assumes "segment h p xs e" "store_ok h" "keeps h h'"
  shows "segment h' p xs e"
proof (rule segment_cong [OF assms(1)])
  fix c v assume "(c, v) \<in> set xs"
  then have "is_pair h c" by (rule segment_pair [OF assms(1)])
  then show "h_cell h' c = h_cell h c" using assms(2,3) store_okD(4) by (auto simp: keeps_def)
qed

lemma segment_put: "segment h p xs e \<Longrightarrow> q \<notin> fst ` set xs \<Longrightarrow> segment (put_cell h q c) p xs e"
  by (erule segment_cong) (force simp: heap_simps)

lemma segment_unique: "segment h p xs NIL \<Longrightarrow> segment h p ys NIL \<Longrightarrow> store_ok h \<Longrightarrow> xs = ys"
proof (induction xs arbitrary: p ys)
  case Nil
  then show ?case by (cases ys) (auto dest: store_okD(1))
next
  case (Cons x xs)
  then show ?case by (cases x; cases ys) (auto dest: store_okD(1))
qed

lemma slist_distinct:
  assumes "slist h p xs" "store_ok h"
  shows "distinct (map fst xs)"
  using assms
proof (induction xs arbitrary: p)
  case (Cons x xs)
  obtain c v where x: "x = (c, v)" by force
  then obtain d where d: "h_cell h c = Pair v d" "slist h d xs" "p = c" using Cons.prems by auto
  have "c \<notin> fst ` set xs"
  proof
    assume "c \<in> fst ` set xs"
    then obtain us w vs where xs: "xs = us @ (c, w) # vs" by (auto dest!: split_list)
    with d obtain q where "segment h q ((c, w) # vs) NIL" by (auto simp: segment_append)
    then have "slist h c ((c, w) # vs)" by simp
    moreover have "slist h c ((c, v) # xs)" using d by simp
    ultimately have "(c, w) # vs = (c, v) # xs" using segment_unique Cons.prems(2) by blast
    then show False by (simp add: xs)
  qed
  with Cons.IH [OF d(2) Cons.prems(2)] show ?case by (simp add: x)
qed simp

lemma slist_NIL: "store_ok h \<Longrightarrow> slist h NIL xs \<longleftrightarrow> xs = []"
  by (cases xs) (auto dest: store_okD(1))

lemma slist_not_NIL: "store_ok h \<Longrightarrow> slist h p (x # xs) \<Longrightarrow> p \<noteq> NIL"
  by (cases x) (auto dest: store_okD(1))

section \<open>Length, reversal, copying, appending\<close>

lemma list_length_loop_segment:
  "segment h p xs e \<Longrightarrow> \<not> is_pair h e \<Longrightarrow>
   list_length_loop h p v = Some (if e = NIL then v + int (length xs) else -1)"
proof (induction xs arbitrary: p v)
  case Nil
  then show ?case by (simp add: list_length_loop.simps)
next
  case (Cons x xs)
  then show ?case by (cases x) (auto simp: list_length_loop.simps [of h p])
qed

text \<open>\<open>fresh h zs\<close>: the cells of \<open>zs\<close> are none of \<open>h\<close>'s.\<close>

definition fresh :: "store \<Rightarrow> (addr \<times> addr) list \<Rightarrow> bool" where
  "fresh h zs \<longleftrightarrow> (\<forall>c \<in> fst ` set zs. h_next h \<le> c)"

lemma fresh_simps [simp]:
  "fresh h []" "fresh h ((c, v) # zs) \<longleftrightarrow> h_next h \<le> c \<and> fresh h zs" "fresh h (xs @ ys) \<longleftrightarrow> fresh h xs \<and> fresh h ys"
  by (auto simp: fresh_def)

lemma fresh_cons_mono: "fresh (fst (cons h a d)) zs \<Longrightarrow> fresh h zs"
  by (auto simp: fresh_def heap_simps)

lemma segment_step:
  assumes "segment h p (x # xs) e" "store_ok h"
  obtains c v d where "x = (c, v)" "p = c" "h_cell h c = Pair v d" "segment h d xs e" "c < h_next h" "c \<noteq> NIL"
proof -
  obtain c v where x: "x = (c, v)" by force
  then obtain d where "h_cell h c = Pair v d" "segment h d xs e" "p = c" using assms(1) by auto
  then show ?thesis using that x assms(2) store_okD(4,5) by auto
qed

text \<open>One step of the loops that cons a copy of an element onto the result.\<close>

lemma copy_step:
  assumes "segment h p (x # xs) NIL" "segment h q ys e" "store_ok h"
  obtains c v d where "p = c" "x = (c, v)" "h_cell h c = Pair v d" "c \<noteq> NIL" "cdr (fst (cons h v q)) c = Some d"
    "slist (fst (cons h v q)) d xs" "segment (fst (cons h v q)) (h_next h) ((h_next h, v) # ys) e"
    "store_ok (fst (cons h v q))"
proof -
  obtain c v d where c: "x = (c, v)" "p = c" "h_cell h c = Pair v d" "slist h d xs" "c < h_next h" "c \<noteq> NIL"
    using assms(1,3) by (rule segment_step)
  let ?h = "fst (cons h v q)"
  have "slist ?h d xs" using segment_keeps [OF c(4) assms(3)] by blast
  moreover have "segment ?h (h_next h) ((h_next h, v) # ys) e"
    using segment_keeps [OF assms(2,3), of ?h] by (auto simp: heap_simps)
  moreover have "cdr ?h c = Some d" using c by (simp add: heap_simps car_cdr_pair)
  ultimately show ?thesis using that c store_ok_cons [OF assms(3)] by blast
qed

lemma reverse_loop_slist:
  assumes "slist h p xs" "segment h q ys e" "store_ok h"
  shows "\<exists>h' r zs. reverse_loop h p q = Some (h', r) \<and> segment h' r (zs @ ys) e \<and> elems zs = rev (elems xs) \<and>
           fresh h zs \<and> keeps h h' \<and> store_ok h'"
  using assms
proof (induction xs arbitrary: h p q ys)
  case Nil
  then have "reverse_loop h p q = Some (h, q)"
    by (subst reverse_loop.simps) (simp add: store_okD(2))
  then show ?case using Nil by (intro exI [of _ h] exI [of _ q] exI [of _ "[]"]) auto
next
  case (Cons x xs)
  obtain c v d where c: "p = c" "x = (c, v)" "h_cell h c = Pair v d" "c \<noteq> NIL" "cdr (fst (cons h v q)) c = Some d"
    "slist (fst (cons h v q)) d xs" "segment (fst (cons h v q)) (h_next h) ((h_next h, v) # ys) e"
    "store_ok (fst (cons h v q))" using Cons.prems by (rule copy_step)
  obtain h' r zs where ih: "reverse_loop (fst (cons h v q)) d (h_next h) = Some (h', r)"
    "segment h' r (zs @ (h_next h, v) # ys) e" "elems zs = rev (elems xs)" "fresh (fst (cons h v q)) zs"
    "keeps (fst (cons h v q)) h'" "store_ok h'" using Cons.IH [OF c(6-8)] by blast
  have "reverse_loop h p q = Some (h', r)"
    by (subst reverse_loop.simps) (simp add: c(1,3,5) ih(1))
  then show ?case using ih c(2) keeps_trans [OF keeps_cons ih(5)]
    by (intro exI [of _ h'] exI [of _ r] exI [of _ "zs @ [(h_next h, v)]"]) (auto dest: fresh_cons_mono)
qed

lemma reverse_slist:
  assumes "slist h p xs" "store_ok h"
  shows "\<exists>h' r zs. reverse h p = Some (h', r) \<and> slist h' r zs \<and> elems zs = rev (elems xs) \<and> fresh h zs \<and>
           keeps h h' \<and> store_ok h'"
proof (cases "p = NIL")
  case True
  then have "xs = []" using assms by (simp add: slist_NIL)
  then show ?thesis using True assms by (intro exI [of _ h] exI [of _ NIL] exI [of _ "[]"]) (auto simp: reverse_def)
next
  case False
  then show ?thesis using reverse_loop_slist [OF assms(1) _ assms(2), of NIL "[]" NIL] by (simp add: reverse_def)
qed

lemma relink_loop_slist:
  assumes "slist h p xs" "segment h q ys e" "store_ok h" "fst ` set xs \<inter> fst ` set ys = {}" "distinct (map fst xs)"
  shows "\<exists>h' r. relink_loop h p q = Some (h', r) \<and> segment h' r (rev xs @ ys) e \<and> store_ok h' \<and>
           h_next h' = h_next h \<and> (\<forall>c. c \<notin> fst ` set xs \<longrightarrow> h_cell h' c = h_cell h c)"
  using assms
proof (induction xs arbitrary: h p q ys)
  case Nil
  then have "relink_loop h p q = Some (h, q)" by (subst relink_loop.simps) simp
  then show ?case using Nil by auto
next
  case (Cons x xs)
  obtain c v d where c: "x = (c, v)" "p = c" "h_cell h c = Pair v d" "slist h d xs" "c < h_next h" "c \<noteq> NIL"
    using Cons.prems(1,3) by (rule segment_step)
  let ?h = "put_cell h c (Pair v q)"
  have c1: "c \<notin> fst ` set ys" "c \<notin> fst ` set xs" using Cons.prems(4,5) c(1) by auto
  have xs': "slist ?h d xs" using c(4) c1(2) by (rule segment_put)
  have ys': "segment ?h c ((c, v) # ys) e" using segment_put [OF Cons.prems(2) c1(1)] by (simp add: heap_simps)
  have ok: "store_ok ?h" using Cons.prems(3) c(3) by (simp add: store_ok_put_pair)
  have dj: "fst ` set xs \<inter> fst ` set ((c, v) # ys) = {}" "distinct (map fst xs)" using Cons.prems(4,5) c1 by auto
  obtain h' r where ih: "relink_loop ?h d c = Some (h', r)" "segment h' r (rev xs @ (c, v) # ys) e" "store_ok h'"
    "h_next h' = h_next ?h" "\<forall>z. z \<notin> fst ` set xs \<longrightarrow> h_cell h' z = h_cell ?h z"
    using Cons.IH [OF xs' ys' ok dj] by blast
  have "relink_loop h p q = Some (h', r)"
    by (subst relink_loop.simps) (simp add: c(2,3,6) ih(1) store_cdr_pair)
  then show ?case using ih c(1) by (intro exI [of _ h'] exI [of _ r]) (auto simp: heap_simps)
qed

lemma reverse_in_place_slist:
  assumes "slist h p xs" "store_ok h"
  shows "\<exists>h' r. reverse_in_place h NIL p = Some (h', r) \<and> slist h' r (rev xs) \<and> store_ok h' \<and>
           h_next h' = h_next h \<and> (\<forall>c. c \<notin> fst ` set xs \<longrightarrow> h_cell h' c = h_cell h c)"
  using relink_loop_slist [OF assms(1) _ assms(2), of NIL "[]" NIL] slist_distinct [OF assms]
  by (simp add: reverse_in_place_def)

lemma append_slist:
  assumes "slist h p xs" "segment h q ys e" "store_ok h"
  shows "\<exists>h' r zs. append h p q = Some (h', r) \<and> segment h' r (zs @ ys) e \<and> elems zs = elems xs \<and> fresh h zs \<and>
           keeps h h' \<and> store_ok h'"
proof (cases "p = NIL")
  case True
  then have "xs = []" using assms by (simp add: slist_NIL)
  then show ?thesis using True assms
    by (intro exI [of _ h] exI [of _ q] exI [of _ "[]"]) (auto simp: append_def)
next
  case False
  obtain h1 r zs where r: "reverse h p = Some (h1, r)" "slist h1 r zs" "elems zs = rev (elems xs)" "fresh h zs"
    "keeps h h1" "store_ok h1" using reverse_slist [OF assms(1,3)] by blast
  have ys: "segment h1 q ys e" using segment_keeps [OF assms(2,3) r(5)] .
  have lt: "c < h_next h" if "c \<in> fst ` set ys" for c
    using that segment_pair [OF assms(2)] store_okD(4) [OF assms(3)] by force
  then have dj: "fst ` set zs \<inter> fst ` set ys = {}" using r(4) unfolding fresh_def by (meson disjoint_iff linorder_not_less)
  obtain h2 r2 where h2: "relink_loop h1 r q = Some (h2, r2)" "segment h2 r2 (rev zs @ ys) e" "store_ok h2"
    "h_next h2 = h_next h1" "\<forall>c. c \<notin> fst ` set zs \<longrightarrow> h_cell h2 c = h_cell h1 c"
    using relink_loop_slist [OF r(2) ys r(6) dj slist_distinct [OF r(2,6)]] by blast
  have "c \<notin> fst ` set zs" if "c < h_next h" for c using r(4) that by (auto simp: fresh_def)
  then have k: "keeps h h2" using r(5) h2(4,5) by (simp add: keeps_def)
  have "append h p q = Some (h2, r2)" using False by (simp add: append_def r(1) h2(1))
  then show ?thesis using h2(2,3) k r(3,4)
    by (intro exI [of _ h2] exI [of _ r2] exI [of _ "rev zs"]) (auto simp: rev_map [symmetric] fresh_def)
qed

section \<open>The list predicate\<close>

text \<open>\<open>tail h k p\<close>: where \<open>k\<close> steps along the list lead.\<close>

definition next_cell :: "store \<Rightarrow> addr \<Rightarrow> addr" where
  "next_cell h p = (case h_cell h p of Pair _ d \<Rightarrow> d | _ \<Rightarrow> p)"

lemma next_cell_simps: "is_pair h p \<Longrightarrow> cdr h p = Some (next_cell h p)" "\<not> is_pair h p \<Longrightarrow> next_cell h p = p"
  by (auto simp: is_pair_def cdr_def next_cell_def split: cell.splits)

fun tail :: "store \<Rightarrow> nat \<Rightarrow> addr \<Rightarrow> addr" where
  "tail h 0 p = p"
| "tail h (Suc k) p = next_cell h (tail h k p)"

lemma cdr_tail: "is_pair h (tail h k p) \<Longrightarrow> cdr h (tail h k p) = Some (tail h (Suc k) p)"
  by (simp add: next_cell_simps)

lemma tail_add: "tail h (i + j) p = tail h i (tail h j p)"
  by (induction i) simp_all

lemma tail_stuck: "\<not> is_pair h (tail h k p) \<Longrightarrow> tail h (k + i) p = tail h k p"
by (induction i) (simp_all add: next_cell_simps)

lemma tail_pair_le: "is_pair h (tail h k p) \<Longrightarrow> i \<le> k \<Longrightarrow> is_pair h (tail h i p)"
  by (metis le_add_diff_inverse tail_stuck)

lemma listp_loop_step:
  assumes "is_pair h (tail h (2 * i + 1) p)"
  shows "listp_loop h (tail h i p) (tail h (2 * i) p) =
    (if tail h (2 * i + 2) p = tail h (i + 1) p then Some False
     else listp_loop h (tail h (i + 1) p) (tail h (2 * (i + 1)) p))"
proof -
  have "is_pair h (tail h (2 * i) p)" "is_pair h (tail h i p)" using tail_pair_le [OF assms] by simp_all
  then show ?thesis using assms cdr_tail [of h "2 * i" p] cdr_tail [of h "2 * i + 1" p] cdr_tail [of h i p]
    by (subst listp_loop.simps) (simp del: tail.simps)
qed

lemma listp_loop_end:
  assumes "\<not> is_pair h (tail h (2 * i + 1) p)"
  shows "listp_loop h (tail h i p) (tail h (2 * i) p) = Some (tail h (2 * i + 1) p = NIL)"
proof (cases "is_pair h (tail h (2 * i) p)")
  case True
  then show ?thesis using assms cdr_tail [of h "2 * i" p] by (subst listp_loop.simps) (simp del: tail.simps)
next
  case False
  then show ?thesis using tail_stuck [of h "2 * i" p 1] by (subst listp_loop.simps) (simp del: tail.simps)
qed

lemma tail_period:
  assumes "tail h m p = tail h (m + d) p"
  shows "m \<le> i \<Longrightarrow> tail h (i + k * d) p = tail h i p"
proof (induction k)
  case (Suc k)
  have "tail h (i + d) p = tail h i p"
    using assms tail_add [of h "i - m" "m + d" p] tail_add [of h "i - m" m p] Suc.prems by (simp del: tail.simps)
  moreover have "tail h (i + Suc k * d) p = tail h (k * d) (tail h (i + d) p)"
    using tail_add [of h "k * d" "i + d" p] by (simp add: algebra_simps)
  ultimately show ?case using Suc tail_add [of h "k * d" i p] by (simp add: add.commute)
qed simp

lemma tail_meets:
  assumes "\<forall>k. is_pair h (tail h k p)" "store_ok h"
  shows "\<exists>i. tail h (2 * i + 2) p = tail h (i + 1) p"
proof -
  have "range (\<lambda>k. tail h k p) \<subseteq> {..< h_next h}" using assms store_okD(4) by blast
  then have "\<not> inj (\<lambda>k. tail h k p)" using finite_subset finite_imageD by (metis finite_lessThan infinite_UNIV_nat)
  then obtain m d where d: "tail h m p = tail h (m + d) p" "0 < d"
    unfolding inj_def by (metis less_imp_add_positive linorder_neqE_nat)
  have "tail h (Suc m * d + Suc m * d) p = tail h (Suc m * d) p"
    by (rule tail_period [OF d(1)]) (use d(2) in \<open>cases d; simp\<close>)
  moreover obtain i where "Suc m * d = i + 1" using d(2) by (cases "Suc m * d") auto
  ultimately show ?thesis by (intro exI [of _ i]) (simp add: mult_2)
qed

lemma listp_loop_decides:
  assumes "store_ok h"
  shows "listp_loop h p p = Some (\<exists>k. tail h k p = NIL)"
proof (cases "\<forall>k. is_pair h (tail h k p)")
  case True
  define n where "n = (LEAST i. tail h (2 * i + 2) p = tail h (i + 1) p)"
  have n: "tail h (2 * n + 2) p = tail h (n + 1) p" unfolding n_def by (rule LeastI_ex [OF tail_meets [OF True assms]])
  have "listp_loop h (tail h i p) (tail h (2 * i) p) = Some False" if "i \<le> n" for i
    using that
  proof (induction "n - i" arbitrary: i)
    case 0
    then show ?case using listp_loop_step [of h i p] True n by (simp del: tail.simps)
  next
    case (Suc d)
    have "listp_loop h (tail h (i + 1) p) (tail h (2 * (i + 1)) p) = Some False"
      using Suc.hyps(1) [of "i + 1"] Suc.hyps(2) by simp
    then show ?case using listp_loop_step [of h i p] True by (simp del: tail.simps split: if_splits)
  qed
  from this [of 0] have "listp_loop h p p = Some False" by simp
  moreover have "\<nexists>k. tail h k p = NIL" using True store_okD(2) [OF assms] by metis
  ultimately show ?thesis by simp
next
  case False
  define n where "n = (LEAST k. \<not> is_pair h (tail h k p))"
  have n: "\<not> is_pair h (tail h n p)" unfolding n_def using False by (metis (mono_tags, lifting) LeastI)
  have pairs: "is_pair h (tail h k p)" if "k < n" for k using not_less_Least that unfolding n_def by blast
  have stuck: "tail h k p = tail h n p" if "n \<le> k" for k using tail_stuck [OF n, of "k - n"] that by simp
  have ex: "(\<exists>k. tail h k p = NIL) \<longleftrightarrow> tail h n p = NIL"
    using pairs stuck store_okD(2) [OF assms] by (metis linorder_not_less)
  have "listp_loop h (tail h i p) (tail h (2 * i) p) = Some (tail h n p = NIL)" for i
  proof (induction "n - 2 * i" arbitrary: i rule: less_induct)
    case less
    show ?case
    proof (cases "2 * i + 1 < n")
      case True
      have ne: "tail h (2 * i + 2) p \<noteq> tail h (i + 1) p"
      proof
        assume eq: "tail h (2 * i + 2) p = tail h (i + 1) p"
        then have "tail h (i + 1) p = tail h (i + 1 + (i + 1)) p" by (simp add: mult_2)
        from tail_period [OF this, of "i + 1" n] have "tail h (i + 1 + n * (i + 1)) p = tail h (i + 1) p" by simp
        moreover have "is_pair h (tail h (i + 1) p)" using True by (intro pairs) simp
        ultimately show False using stuck [of "i + 1 + n * (i + 1)"] n by simp
      qed
      have ih: "listp_loop h (tail h (i + 1) p) (tail h (2 * (i + 1)) p) = Some (tail h n p = NIL)"
        by (rule less) (use True in presburger)
      show ?thesis unfolding listp_loop_step [OF pairs [OF True]] if_not_P [OF ne] by (rule ih)
    next
      case False
      then have eq: "tail h (2 * i + 1) p = tail h n p" by (intro stuck) simp
      then have "\<not> is_pair h (tail h (2 * i + 1) p)" using n by (simp only: not_False_eq_True)
      from listp_loop_end [OF this] show ?thesis unfolding eq .
    qed
  qed
  from this [of 0] show ?thesis using ex by simp
qed

lemma segment_tail: "segment h p xs e \<Longrightarrow> tail h (length xs) p = e"
proof (induction h p xs e rule: segment.induct)
  case (2 h p c v xs e)
  then obtain d where "h_cell h p = Pair v d" "tail h (length xs) d = e" by auto
  then show ?case using tail_add [of h "length xs" 1 p] by (simp add: next_cell_def)
qed simp

lemma tail_segment: "(\<forall>i<k. is_pair h (tail h i p)) \<Longrightarrow> \<exists>xs. segment h p xs (tail h k p)"
proof (induction k)
  case (Suc k)
  then obtain xs where xs: "segment h p xs (tail h k p)" by auto
  obtain v d where "h_cell h (tail h k p) = Pair v d"
    using Suc.prems [rule_format, of k] unfolding is_pair_def by (simp split: cell.splits)
  then have "segment h p (xs @ [(tail h k p, v)]) (tail h (Suc k) p)" using xs by (auto simp: segment_append next_cell_def)
  then show ?case by blast
qed (auto intro: exI [of _ "[]"])

lemma tail_NIL:
  assumes "store_ok h"
  shows "(\<exists>k. tail h k p = NIL) \<longleftrightarrow> (\<exists>xs. slist h p xs)"
proof
  assume "\<exists>k. tail h k p = NIL"
  then have n: "tail h (LEAST k. tail h k p = NIL) p = NIL" (is "tail h ?n p = NIL") by (rule LeastI_ex)
  have "is_pair h (tail h i p)" if "i < ?n" for i
  proof (rule ccontr)
    assume "\<not> is_pair h (tail h i p)"
    then have "tail h i p = NIL" using tail_stuck [of h i p "?n - i"] that n by simp
    then show False using not_less_Least [OF that] by simp
  qed
  then show "\<exists>xs. slist h p xs" using tail_segment [of ?n h p] n by metis
next
  assume "\<exists>xs. slist h p xs"
  then show "\<exists>k. tail h k p = NIL" using segment_tail by blast
qed

text \<open>\<open>list?\<close> ends on every structure, circular or not, and tells whether it is a proper list.\<close>

theorem list_predicate_decides:
  assumes "store_ok h"
  shows "listp_loop h p p = Some (\<exists>xs. slist h p xs)"
  using listp_loop_decides [OF assms] tail_NIL [OF assms] by simp

text \<open>\<open>append\<close> of two proper lists: the elements of both in order; the cells of the first list are copied, those
  of the second shared, and no existing cell changes.
\<close>

theorem append_correct:
  assumes "store_ok h" "slist h p xs" "slist h q ys"
  shows "\<exists>h' r zs. append h p q = Some (h', r) \<and> slist h' r (zs @ ys) \<and> elems zs = elems xs \<and> fresh h zs \<and> keeps h h'"
  using append_slist [OF assms(2,3,1)] by blast

text \<open>A store with the special cells, a list of the cells 5, 6 and a circular list in the cell 7.\<close>

definition sample_store :: store where
  "sample_store = \<lparr>h_cell = (\<lambda>_. Junk)(0 := Atom, 1 := Blank 0 0, 2 := Atom, 3 := Atom, 4 := Blank 0 0,
     5 := Pair T_OBJ 6, 6 := Pair F_OBJ 0, 7 := Pair T_OBJ 7), h_immutable = \<lambda>_. False, h_buf = \<lambda>_. [],
     h_next = 8, h_nbuf = 0, h_gensym_cnt = 0, h_port = \<lambda>_. closed_port, h_nport = 0,
     h_inport = 0, h_outport = 0, h_save_inport = 0, h_loadport = 0, h_tok = TOK_EOF, h_print_flag = False\<rparr>"

lemma sample_store_ok: "store_ok sample_store"
  by (auto simp: store_ok_def sample_store_def is_pair_def NIL_def T_OBJ_def F_OBJ_def EOF_OBJ_def split: if_splits)

lemma sample_slist: "slist sample_store 5 [(5, T_OBJ), (6, F_OBJ)]"
  by (simp add: sample_store_def NIL_def)

theorem list_predicate_decides_witness: "\<exists>b. listp_loop sample_store 7 7 = Some b"
  using list_predicate_decides [OF sample_store_ok, of 7] by blast

theorem append_correct_witness:
  "\<exists>h' r zs. append sample_store 5 5 = Some (h', r) \<and> slist h' r (zs @ [(5, T_OBJ), (6, F_OBJ)]) \<and>
     elems zs = [T_OBJ, F_OBJ] \<and> fresh sample_store zs \<and> keeps sample_store h'"
  using append_correct [OF sample_store_ok sample_slist sample_slist] by simp

declare case_cons [simp del]

end
