(* ===== verification/Scheme_Env.thy ===== *)
theory Scheme_Env
  imports Scheme_Lists
begin

text \<open>
  Symbols and environments (src/src/Scheme.cpp, \<open>oblist\<close> and \<open>Environment implementation\<close>). An
  environment is a list of frames; a frame is an association list of slots, or for the global
  environment a vector of such lists indexed by the hash of the name.
\<close>

section \<open>Symbols\<close>

definition str_hash :: "byte list \<Rightarrow> 64 word" where
  "str_hash str = foldl (\<lambda>r c. r * 33 + ucast c) 0 str"

definition hash_fn :: "byte list \<Rightarrow> nat \<Rightarrow> nat" where
  "hash_fn key table_size = unat (str_hash key) mod table_size"

text \<open>The elements of a vector; \<open>None\<close> outside its bounds (undefined in C++).\<close>

definition vector_elem :: "store \<Rightarrow> addr \<Rightarrow> nat \<Rightarrow> addr option" where
  "vector_elem h v i = (case h_cell h v of Vector xs \<Rightarrow> if i < length xs then Some (xs ! i) else None | _ \<Rightarrow> None)"

definition set_vector_elem :: "store \<Rightarrow> addr \<Rightarrow> nat \<Rightarrow> addr \<Rightarrow> store option" where
  "set_vector_elem h v i a =
     (case h_cell h v of Vector xs \<Rightarrow> if i < length xs then Some (put_cell h v (Vector (xs[i := a]))) else None
      | _ \<Rightarrow> None)"

definition vector_size :: "store \<Rightarrow> addr \<Rightarrow> nat option" where
  "vector_size h v = (case h_cell h v of Vector xs \<Rightarrow> Some (length xs) | _ \<Rightarrow> None)"

definition mk_string :: "store \<Rightarrow> byte list \<Rightarrow> store \<times> addr" where
  "mk_string h name = mk_counted_string h name"

text \<open>An uninterned symbol: a pair with a string whose type is then changed.\<close>

definition new_symbol :: "store \<Rightarrow> byte list \<Rightarrow> store \<times> addr" where
  "new_symbol h name =
     (let (h1, s) = mk_string h name; (h2, x) = immutable_cons h1 s NIL;
          h3 = (put_cell h2 x (Symbol s NIL))\<lparr>h_immutable := (h_immutable h2)(x := False)\<rparr>
      in (setimmutable h3 s, x))"

definition oblist_add_by_name :: "store \<Rightarrow> addr \<Rightarrow> byte list \<Rightarrow> (store \<times> addr) option" where
  "oblist_add_by_name h oblist name =
     do { let (h1, x) = new_symbol h name;
          n \<leftarrow> vector_size h1 oblist;
          let location = hash_fn name n;
          b \<leftarrow> vector_elem h1 oblist location;
          let (h2, c) = immutable_cons h1 x b;
          h3 \<leftarrow> set_vector_elem h2 oblist location c;
          Some (h3, x) }"

partial_function (option) oblist_find_loop :: "store \<Rightarrow> byte list \<Rightarrow> addr \<Rightarrow> addr option" where
  "oblist_find_loop h name x =
     (if x = NIL then Some NIL
      else do { s \<leftarrow> car h x; n \<leftarrow> symname h s;
                if n = name then Some s else do { d \<leftarrow> cdr h x; oblist_find_loop h name d } })"

definition oblist_find_by_name :: "store \<Rightarrow> addr \<Rightarrow> byte list \<Rightarrow> addr option" where
  "oblist_find_by_name h oblist name =
     do { n \<leftarrow> vector_size h oblist; x \<leftarrow> vector_elem h oblist (hash_fn name n); oblist_find_loop h name x }"

definition mk_symbol :: "store \<Rightarrow> addr \<Rightarrow> byte list \<Rightarrow> (store \<times> addr) option" where
  "mk_symbol h oblist name =
     do { x \<leftarrow> oblist_find_by_name h oblist name;
          if x \<noteq> NIL then Some (h, x) else oblist_add_by_name h oblist name }"

text \<open>\<open>oblist_all_symbols\<close>: the cells of the buckets are consed, not the symbols in them.\<close>

partial_function (option) oblist_bucket_loop :: "store \<Rightarrow> addr \<Rightarrow> addr \<Rightarrow> (store \<times> addr) option" where
  "oblist_bucket_loop h x ob =
     (if x = NIL then Some (h, ob)
      else do { let (h1, c) = cons h x ob; d \<leftarrow> cdr h1 x; oblist_bucket_loop h1 d c })"

fun oblist_all_loop :: "store \<Rightarrow> addr list \<Rightarrow> addr \<Rightarrow> (store \<times> addr) option" where
  "oblist_all_loop h [] ob = Some (h, ob)"
| "oblist_all_loop h (x # xs) ob = do { (h1, ob1) \<leftarrow> oblist_bucket_loop h x ob; oblist_all_loop h1 xs ob1 }"

definition oblist_all_symbols :: "store \<Rightarrow> addr \<Rightarrow> (store \<times> addr) option" where
  "oblist_all_symbols h oblist = (case h_cell h oblist of Vector xs \<Rightarrow> oblist_all_loop h xs NIL | _ \<Rightarrow> None)"

definition gensym :: "store \<Rightarrow> store \<times> addr" where
  "gensym h =
     (let n = (if h_gensym_cnt h + 1 > 10000000 then 0 else h_gensym_cnt h + 1)
      in new_symbol (h\<lparr>h_gensym_cnt := n\<rparr>) (ascii ''gensym-'' @ dec_nat (nat n)))"

section \<open>Environments\<close>

definition new_frame_in_env :: "store \<Rightarrow> addr \<Rightarrow> store \<times> addr" where
  "new_frame_in_env h old_env =
     (let (h1, new_frame) = (if old_env = NIL then mk_vector h 65521 NIL else (h, NIL));
          (h2, e) = immutable_cons h1 new_frame old_env
      in ((put_cell h2 e (Environment new_frame old_env))\<lparr>h_immutable := (h_immutable h2)(e := False)\<rparr>, e))"

definition new_slot_spec_in_env :: "store \<Rightarrow> addr \<Rightarrow> addr \<Rightarrow> addr \<Rightarrow> store option" where
  "new_slot_spec_in_env h env variable value =
     do { let (h1, slot) = immutable_cons h variable value;
          f \<leftarrow> car h1 env;
          if is_vector h1 f then
            do { name \<leftarrow> symname h1 variable;
                 n \<leftarrow> vector_size h1 f;
                 let location = hash_fn name n;
                 b \<leftarrow> vector_elem h1 f location;
                 let (h2, c) = immutable_cons h1 slot b;
                 set_vector_elem h2 f location c }
          else do { let (h2, tmp) = immutable_cons h1 slot f; store_car h2 env tmp } }"

partial_function (option) find_slot_in_frame :: "store \<Rightarrow> addr \<Rightarrow> addr \<Rightarrow> addr option option" where
  "find_slot_in_frame h hdl y =
     (if y = NIL then Some None
      else do { a \<leftarrow> caar h y;
                if a = hdl then do { s \<leftarrow> car h y; Some (Some s) }
                else do { d \<leftarrow> cdr h y; find_slot_in_frame h hdl d } })"

definition frame_list :: "store \<Rightarrow> addr \<Rightarrow> addr \<Rightarrow> addr option" where
  "frame_list h hdl f =
     (if is_vector h f then do { name \<leftarrow> symname h hdl; n \<leftarrow> vector_size h f; vector_elem h f (hash_fn name n) }
      else Some f)"

partial_function (option) find_slot_in_env :: "store \<Rightarrow> addr \<Rightarrow> addr \<Rightarrow> bool \<Rightarrow> addr option" where
  "find_slot_in_env h env hdl all =
     (if env = NIL then Some NIL
      else do { f \<leftarrow> car h env;
                y \<leftarrow> frame_list h hdl f;
                s \<leftarrow> find_slot_in_frame h hdl y;
                (case s of Some slot \<Rightarrow> Some slot
                 | None \<Rightarrow> if \<not> all then Some NIL else do { e \<leftarrow> cdr h env; find_slot_in_env h e hdl all }) })"

definition set_slot_in_env :: "store \<Rightarrow> addr \<Rightarrow> addr \<Rightarrow> store option" where
  "set_slot_in_env h slot value = store_cdr h slot value"

definition slot_value_in_env :: "store \<Rightarrow> addr \<Rightarrow> addr option" where
  "slot_value_in_env h slot = cdr h slot"

text \<open>
  \<open>llvm_check_valid_dot_symbol\<close> (src/src/EXTLLVM.cpp): the text before the first dot and that text with
  \<open>_xtlang_name\<close> appended are bound. \<open>None\<close> when they overrun the buffer of 1024 characters.
\<close>

definition xtlang_name :: "byte list" where
  "xtlang_name = ascii ''_xtlang_name''"

definition llvm_check_valid_dot_symbol :: "store \<Rightarrow> addr \<Rightarrow> addr \<Rightarrow> byte list \<Rightarrow> (store \<times> bool) option" where
  "llvm_check_valid_dot_symbol h oblist envir symbol =
     (if 46 \<notin> set symbol then Some (h, False)
      else let c = takeWhile (\<lambda>b. b \<noteq> 46) symbol
           in if length c \<ge> 1012 then None
              else do { (h1, x) \<leftarrow> mk_symbol h oblist c;
                        s \<leftarrow> find_slot_in_env h1 envir x True;
                        if s = NIL then Some (h1, False)
                        else do { (h2, y) \<leftarrow> mk_symbol h1 oblist (c @ xtlang_name);
                                  s2 \<leftarrow> find_slot_in_env h2 envir y True;
                                  Some (h2, s2 \<noteq> NIL) } })"

end
