(* ===== verification/Scheme_Dispatch.thy ===== *)
theory Scheme_Dispatch
  imports Scheme_Env
begin

text \<open>
  The dispatch table (src/include/OPDefines.h) and the table of argument tests (src/src/Scheme.cpp): name, number and types of
  the arguments of every operation.
\<close>

section \<open>Tests\<close>

definition is_num_integer :: "store \<Rightarrow> addr \<Rightarrow> bool" where
  "is_num_integer h p = (case h_cell h p of Number (Integer _) \<Rightarrow> True | _ \<Rightarrow> False)"

definition is_nonneg :: "store \<Rightarrow> addr \<Rightarrow> bool" where
  "is_nonneg h p = (case h_cell h p of Number (Integer i) \<Rightarrow> i \<ge> 0 | _ \<Rightarrow> False)"

definition is_inport :: "store \<Rightarrow> addr \<Rightarrow> bool" where
  "is_inport h p = (case h_cell h p of Port i \<Rightarrow> p_input (h_port h i) | _ \<Rightarrow> False)"

definition is_outport :: "store \<Rightarrow> addr \<Rightarrow> bool" where
  "is_outport h p = (case h_cell h p of Port i \<Rightarrow> p_output (h_port h i) | _ \<Rightarrow> False)"

section \<open>The dispatch table\<close>

datatype test = TST_ANY | TST_STRING | TST_SYMBOL | TST_ENVIRONMENT | TST_PAIR | TST_LIST | TST_CHAR | TST_VECTOR
  | TST_NUMBER | TST_INTEGER | TST_NATURAL | TST_INPORT | TST_OUTPORT

fun test_fct :: "store \<Rightarrow> test \<Rightarrow> addr \<Rightarrow> bool" where
  "test_fct h TST_ANY p = True"
| "test_fct h TST_STRING p = is_string h p"
| "test_fct h TST_SYMBOL p = is_symbol h p"
| "test_fct h TST_ENVIRONMENT p = is_environment h p"
| "test_fct h TST_PAIR p = is_pair h p"
| "test_fct h TST_LIST p = (p = NIL \<or> is_pair h p)"
| "test_fct h TST_CHAR p = is_character h p"
| "test_fct h TST_VECTOR p = is_vector h p"
| "test_fct h TST_NUMBER p = is_number h p"
| "test_fct h TST_INTEGER p = is_num_integer h p"
| "test_fct h TST_NATURAL p = is_nonneg h p"
| "test_fct h TST_INPORT p = is_inport h p"
| "test_fct h TST_OUTPORT p = is_outport h p"

fun test_kind :: "test \<Rightarrow> string" where
  "test_kind TST_ANY = ''''"
| "test_kind TST_STRING = ''string''"
| "test_kind TST_SYMBOL = ''symbol''"
| "test_kind TST_ENVIRONMENT = ''environment''"
| "test_kind TST_PAIR = ''pair''"
| "test_kind TST_LIST = ''pair or '()''"
| "test_kind TST_CHAR = ''character''"
| "test_kind TST_VECTOR = ''vector''"
| "test_kind TST_NUMBER = ''number''"
| "test_kind TST_INTEGER = ''integer''"
| "test_kind TST_NATURAL = ''non-negative integer''"
| "test_kind TST_INPORT = ''input port''"
| "test_kind TST_OUTPORT = ''output_port''"

text \<open>Name, least and greatest number of arguments, and tests of an operation that has a name.\<close>

record op_code_info =
  pcd_name :: string
  min_arity :: nat
  max_arity :: nat
  arg_tests :: "test list"

definition INF_ARG :: nat where "INF_ARG = 65535"

definition info :: "string \<Rightarrow> nat \<Rightarrow> nat \<Rightarrow> test list \<Rightarrow> op_code_info option" where
  "info s a b ts = Some \<lparr>pcd_name = s, min_arity = a, max_arity = b, arg_tests = ts\<rparr>"

fun info_0 :: "op0 \<Rightarrow> op_code_info option" where
  "info_0 OP_LOAD = info ''load'' 1 1 [TST_STRING]"
| "info_0 OP_TRACING = info ''tracing'' 1 1 [TST_NATURAL]"
| "info_0 OP_GENSYM = info ''gensym'' 0 0 []"
| "info_0 OP_MKCLOSURE = info ''make-closure'' 1 2 [TST_PAIR, TST_ENVIRONMENT]"
| "info_0 OP_DEFP = info ''defined?'' 1 2 [TST_SYMBOL, TST_ENVIRONMENT]"
| "info_0 _ = None"

fun info_1 :: "op1 \<Rightarrow> op_code_info option" where
  "info_1 OP_PEVAL = info ''eval'' 1 2 [TST_ANY, TST_ENVIRONMENT]"
| "info_1 OP_PAPPLY = info ''apply'' 1 INF_ARG []"
| "info_1 OP_CONTINUATION = info ''call-with-current-continuation'' 1 1 []"
| "info_1 _ = None"

fun info_2 :: "op2 \<Rightarrow> op_code_info option" where
  "info_2 OP_INEX2EX = info ''inexact->exact'' 1 1 [TST_NUMBER]"
| "info_2 OP_EXP = info ''exp'' 1 1 [TST_NUMBER]"
| "info_2 OP_LOG = info ''log'' 1 1 [TST_NUMBER]"
| "info_2 OP_SIN = info ''sin'' 1 1 [TST_NUMBER]"
| "info_2 OP_COS = info ''cos'' 1 1 [TST_NUMBER]"
| "info_2 OP_TAN = info ''tan'' 1 1 [TST_NUMBER]"
| "info_2 OP_ASIN = info ''asin'' 1 1 [TST_NUMBER]"
| "info_2 OP_ACOS = info ''acos'' 1 1 [TST_NUMBER]"
| "info_2 OP_ATAN = info ''atan'' 1 2 [TST_NUMBER]"
| "info_2 OP_SQRT = info ''sqrt'' 1 1 [TST_NUMBER]"
| "info_2 OP_EXPT = info ''expt'' 2 2 [TST_NUMBER]"
| "info_2 OP_FLOOR = info ''floor'' 1 1 [TST_NUMBER]"
| "info_2 OP_CEILING = info ''ceiling'' 1 1 [TST_NUMBER]"
| "info_2 OP_TRUNCATE = info ''truncate'' 1 1 [TST_NUMBER]"
| "info_2 OP_ROUND = info ''round'' 1 1 [TST_NUMBER]"
| "info_2 OP_ADD = info ''+'' 0 INF_ARG [TST_NUMBER]"
| "info_2 OP_SUB = info ''-'' 1 INF_ARG [TST_NUMBER]"
| "info_2 OP_MUL = info ''*'' 0 INF_ARG [TST_NUMBER]"
| "info_2 OP_DIV = info ''/'' 1 INF_ARG [TST_NUMBER]"
| "info_2 OP_BITNOT = info ''bitwise-not'' 1 1 [TST_INTEGER]"
| "info_2 OP_BITAND = info ''bitwise-and'' 2 INF_ARG [TST_INTEGER]"
| "info_2 OP_BITOR = info ''bitwise-or'' 2 INF_ARG [TST_INTEGER]"
| "info_2 OP_BITEOR = info ''bitwise-eor'' 2 INF_ARG [TST_INTEGER]"
| "info_2 OP_BITLSL = info ''bitwise-shift-left'' 2 INF_ARG [TST_INTEGER]"
| "info_2 OP_BITLSR = info ''bitwise-shift-right'' 2 INF_ARG [TST_INTEGER]"
| "info_2 OP_INTDIV = info ''quotient'' 1 INF_ARG [TST_INTEGER]"
| "info_2 OP_REM = info ''remainder'' 2 2 [TST_INTEGER]"
| "info_2 OP_MOD = info ''modulo'' 2 2 [TST_NUMBER]"
| "info_2 OP_CAR = info ''car'' 1 1 [TST_PAIR]"
| "info_2 OP_CDR = info ''cdr'' 1 1 [TST_PAIR]"
| "info_2 OP_CONS = info ''cons'' 2 2 []"
| "info_2 OP_SETCAR = info ''set-car!'' 2 2 [TST_PAIR, TST_ANY]"
| "info_2 OP_SETCDR = info ''set-cdr!'' 2 2 [TST_PAIR, TST_ANY]"
| "info_2 OP_CHAR2INT = info ''char->integer'' 1 1 [TST_CHAR]"
| "info_2 OP_INT2CHAR = info ''integer->char'' 1 1 [TST_NATURAL]"
| "info_2 OP_CHARUPCASE = info ''char-upcase'' 1 1 [TST_CHAR]"
| "info_2 OP_CHARDNCASE = info ''char-downcase'' 1 1 [TST_CHAR]"
| "info_2 OP_SYM2STR = info ''symbol->string'' 1 1 [TST_SYMBOL]"
| "info_2 OP_ATOM2STR = info ''atom->string'' 1 1 [TST_ANY]"
| "info_2 OP_STR2SYM = info ''string->symbol'' 1 1 [TST_STRING]"
| "info_2 OP_STR2ATOM = info ''string->atom'' 1 1 [TST_STRING]"
| "info_2 OP_MKSTRING = info ''make-string'' 1 2 [TST_NATURAL, TST_CHAR]"
| "info_2 OP_STRLEN = info ''string-length'' 1 1 [TST_STRING]"
| "info_2 OP_STRREF = info ''string-ref'' 2 2 [TST_STRING, TST_NATURAL]"
| "info_2 OP_STRSET = info ''string-set!'' 3 3 [TST_STRING, TST_NATURAL, TST_CHAR]"
| "info_2 OP_STRAPPEND = info ''string-append'' 0 INF_ARG [TST_STRING]"
| "info_2 OP_SUBSTR = info ''substring'' 2 3 [TST_STRING, TST_NATURAL]"
| "info_2 OP_VECTOR = info ''vector'' 0 INF_ARG []"
| "info_2 OP_MKVECTOR = info ''make-vector'' 1 2 [TST_NATURAL, TST_ANY]"
| "info_2 OP_VECLEN = info ''vector-length'' 1 1 [TST_VECTOR]"
| "info_2 OP_VECREF = info ''vector-ref'' 2 2 [TST_VECTOR, TST_NATURAL]"
| "info_2 OP_VECSET = info ''vector-set!'' 3 3 [TST_VECTOR, TST_NATURAL, TST_ANY]"

fun info_3 :: "op3 \<Rightarrow> op_code_info option" where
  "info_3 OP_NOT = info ''not'' 1 1 []"
| "info_3 OP_BOOLP = info ''boolean?'' 1 1 []"
| "info_3 OP_EOFOBJP = info ''eof-object?'' 1 1 []"
| "info_3 OP_NULLP = info ''null?'' 1 1 []"
| "info_3 OP_NUMEQ = info ''='' 2 INF_ARG [TST_NUMBER]"
| "info_3 OP_LESS = info ''<'' 2 INF_ARG [TST_NUMBER]"
| "info_3 OP_GRE = info ''>'' 2 INF_ARG [TST_NUMBER]"
| "info_3 OP_LEQ = info ''<='' 2 INF_ARG [TST_NUMBER]"
| "info_3 OP_GEQ = info ''>='' 2 INF_ARG [TST_NUMBER]"
| "info_3 OP_SYMBOLP = info ''symbol?'' 1 1 [TST_ANY]"
| "info_3 OP_NUMBERP = info ''number?'' 1 1 [TST_ANY]"
| "info_3 OP_STRINGP = info ''string?'' 1 1 [TST_ANY]"
| "info_3 OP_INTEGERP = info ''integer?'' 1 1 [TST_ANY]"
| "info_3 OP_REALP = info ''real?'' 1 1 [TST_ANY]"
| "info_3 OP_CHARP = info ''char?'' 1 1 [TST_ANY]"
| "info_3 OP_RATIONALP = info ''rational?'' 1 1 [TST_ANY]"
| "info_3 OP_CHARAP = info ''char-alphabetic?'' 1 1 [TST_CHAR]"
| "info_3 OP_CHARNP = info ''char-numeric?'' 1 1 [TST_CHAR]"
| "info_3 OP_CHARWP = info ''char-whitespace?'' 1 1 [TST_CHAR]"
| "info_3 OP_CHARUP = info ''char-upper-case?'' 1 1 [TST_CHAR]"
| "info_3 OP_CHARLP = info ''char-lower-case?'' 1 1 [TST_CHAR]"
| "info_3 OP_PORTP = info ''port?'' 1 1 [TST_ANY]"
| "info_3 OP_INPORTP = info ''input-port?'' 1 1 [TST_ANY]"
| "info_3 OP_OUTPORTP = info ''output-port?'' 1 1 [TST_ANY]"
| "info_3 OP_PROCP = info ''procedure?'' 1 1 [TST_ANY]"
| "info_3 OP_PAIRP = info ''pair?'' 1 1 [TST_ANY]"
| "info_3 OP_LISTP = info ''list?'' 1 1 [TST_ANY]"
| "info_3 OP_ENVP = info ''environment?'' 1 1 [TST_ANY]"
| "info_3 OP_VECTORP = info ''vector?'' 1 1 [TST_ANY]"
| "info_3 OP_CPTRP = info ''cptr?'' 1 1 [TST_ANY]"
| "info_3 OP_EQ = info ''eq?'' 2 2 [TST_ANY]"
| "info_3 OP_EQV = info ''eqv?'' 2 2 [TST_ANY]"

fun info_4 :: "op4 \<Rightarrow> op_code_info option" where
  "info_4 OP_FORCE = info ''force'' 1 1 [TST_ANY]"
| "info_4 OP_SAVE_FORCED = None"
| "info_4 OP_WRITE = info ''write'' 1 2 [TST_ANY, TST_OUTPORT]"
| "info_4 OP_WRITE_CHAR = info ''write-char'' 1 2 [TST_CHAR, TST_OUTPORT]"
| "info_4 OP_DISPLAY = info ''display'' 1 2 [TST_ANY, TST_OUTPORT]"
| "info_4 OP_NEWLINE = info ''newline'' 0 1 [TST_OUTPORT]"
| "info_4 OP_ERR0 = info ''error'' 1 INF_ARG []"
| "info_4 OP_ERR1 = None"
| "info_4 OP_REVERSE = info ''reverse'' 1 1 [TST_LIST]"
| "info_4 OP_LIST_STAR = info ''list*'' 1 INF_ARG []"
| "info_4 OP_APPEND = info ''append'' 0 INF_ARG []"
| "info_4 OP_PUT = info ''put'' 3 3 []"
| "info_4 OP_GET = info ''get'' 2 2 []"
| "info_4 OP_QUIT = info ''quit'' 0 1 [TST_NUMBER]"
| "info_4 OP_NEWSEGMENT = info ''new-segment'' 0 1 [TST_NUMBER]"
| "info_4 OP_OBLIST = info ''oblist'' 0 0 []"
| "info_4 OP_CURR_INPORT = info ''current-input-port'' 0 0 []"
| "info_4 OP_CURR_OUTPORT = info ''current-output-port'' 0 0 []"
| "info_4 OP_OPEN_INFILE = info ''open-input-file'' 1 1 [TST_STRING]"
| "info_4 OP_OPEN_OUTFILE = info ''open-output-file'' 1 1 [TST_STRING]"
| "info_4 OP_OPEN_INOUTFILE = info ''open-input-output-file'' 1 1 [TST_STRING]"
| "info_4 OP_OPEN_INSTRING = info ''open-input-string'' 1 1 [TST_STRING]"
| "info_4 OP_OPEN_INOUTSTRING = info ''open-input-output-string'' 1 1 [TST_STRING]"
| "info_4 OP_OPEN_OUTSTRING = info ''open-output-string'' 0 1 [TST_STRING]"
| "info_4 OP_GET_OUTSTRING = info ''get-output-string'' 1 1 [TST_OUTPORT]"
| "info_4 OP_CLOSE_INPORT = info ''close-input-port'' 1 1 [TST_INPORT]"
| "info_4 OP_CLOSE_OUTPORT = info ''close-output-port'' 1 1 [TST_OUTPORT]"
| "info_4 OP_INT_ENV = info ''interaction-environment'' 0 0 []"
| "info_4 OP_CURR_ENV = info ''current-environment'' 0 0 []"

definition info_5 :: "op5 \<Rightarrow> op_code_info option" where
  "info_5 oc =
     (case oc of
        OP_READ \<Rightarrow> info ''read'' 0 1 [TST_INPORT]
      | OP_READ_CHAR \<Rightarrow> info ''read-char'' 0 1 [TST_INPORT]
      | OP_PEEK_CHAR \<Rightarrow> info ''peek-char'' 0 1 [TST_INPORT]
      | OP_CHAR_READY \<Rightarrow> info ''char-ready?'' 0 1 [TST_INPORT]
      | OP_SET_INPORT \<Rightarrow> info ''set-input-port'' 1 1 [TST_INPORT]
      | OP_SET_OUTPORT \<Rightarrow> info ''set-output-port'' 1 1 [TST_OUTPORT]
      | _ \<Rightarrow> None)"

fun info_6 :: "op6 \<Rightarrow> op_code_info option" where
  "info_6 OP_LIST_LENGTH = info ''length'' 1 1 [TST_LIST]"
| "info_6 OP_ASSQ = info ''assq'' 2 2 []"
| "info_6 OP_GET_CLOSURE = info ''get-closure-code'' 1 1 []"
| "info_6 OP_CLOSUREP = info ''closure?'' 1 1 []"
| "info_6 OP_MACROP = info ''macro?'' 1 1 []"

fun dispatch_table :: "opcode \<Rightarrow> op_code_info option" where
  "dispatch_table (O0 oc) = info_0 oc"
| "dispatch_table (O1 oc) = info_1 oc"
| "dispatch_table (O2 oc) = info_2 oc"
| "dispatch_table (O3 oc) = info_3 oc"
| "dispatch_table (O4 oc) = info_4 oc"
| "dispatch_table (O5 oc) = info_5 oc"
| "dispatch_table (O6 oc) = info_6 oc"

section \<open>Numbers of the opcodes\<close>

text \<open>The value of an opcode in \<open>enum scheme_opcodes\<close>: its position in OPDefines.h.\<close>

definition opcodes :: "opcode list" where
  "opcodes = map O0
      [OP_LOAD, OP_T0LVL, OP_T1LVL, OP_READ_INTERNAL, OP_GENSYM, OP_VALUEPRINT, OP_EVAL, OP_REAL_EVAL,
       OP_E0ARGS, OP_E1ARGS, OP_APPLY, OP_REAL_APPLY, OP_TRACING, OP_DOMACRO, OP_LAMBDA, OP_MKCLOSURE,
       OP_QUOTE, OP_DEF0, OP_DEF1, OP_DEFP, OP_BEGIN, OP_IF0, OP_IF1, OP_SET0, OP_SET1, OP_LET0, OP_LET1,
       OP_LET2, OP_LET0AST, OP_LET1AST, OP_LET2AST] @
    map O1
      [OP_LET0REC, OP_LET1REC, OP_LET2REC, OP_COND0, OP_COND1, OP_DELAY, OP_AND0, OP_AND1, OP_OR0, OP_OR1,
       OP_C0STREAM, OP_C1STREAM, OP_MACRO0, OP_MACRO1, OP_CASE0, OP_CASE1, OP_CASE2, OP_PEVAL, OP_PAPPLY,
       OP_CONTINUATION] @
    map O2
      [OP_INEX2EX, OP_EXP, OP_LOG, OP_SIN, OP_COS, OP_TAN, OP_ASIN, OP_ACOS, OP_ATAN, OP_SQRT, OP_EXPT,
       OP_FLOOR, OP_CEILING, OP_TRUNCATE, OP_ROUND, OP_ADD, OP_SUB, OP_MUL, OP_DIV, OP_BITNOT, OP_BITAND,
       OP_BITOR, OP_BITEOR, OP_BITLSL, OP_BITLSR, OP_INTDIV, OP_REM, OP_MOD, OP_CAR, OP_CDR, OP_CONS,
       OP_SETCAR, OP_SETCDR, OP_CHAR2INT, OP_INT2CHAR, OP_CHARUPCASE, OP_CHARDNCASE, OP_SYM2STR,
       OP_ATOM2STR, OP_STR2SYM, OP_STR2ATOM, OP_MKSTRING, OP_STRLEN, OP_STRREF, OP_STRSET, OP_STRAPPEND,
       OP_SUBSTR, OP_VECTOR, OP_MKVECTOR, OP_VECLEN, OP_VECREF, OP_VECSET] @
    map O3
      [OP_NOT, OP_BOOLP, OP_EOFOBJP, OP_NULLP, OP_NUMEQ, OP_LESS, OP_GRE, OP_LEQ, OP_GEQ, OP_SYMBOLP,
       OP_NUMBERP, OP_STRINGP, OP_INTEGERP, OP_REALP, OP_RATIONALP, OP_CHARP, OP_CHARAP, OP_CHARNP,
       OP_CHARWP, OP_CHARUP, OP_CHARLP, OP_PORTP, OP_INPORTP, OP_OUTPORTP, OP_PROCP, OP_PAIRP, OP_LISTP,
       OP_ENVP, OP_VECTORP, OP_CPTRP, OP_EQ, OP_EQV] @
    map O4
      [OP_FORCE, OP_SAVE_FORCED, OP_WRITE, OP_WRITE_CHAR, OP_DISPLAY, OP_NEWLINE, OP_ERR0, OP_ERR1,
       OP_REVERSE, OP_LIST_STAR, OP_APPEND, OP_PUT, OP_GET, OP_QUIT, OP_NEWSEGMENT, OP_OBLIST,
       OP_CURR_INPORT, OP_CURR_OUTPORT, OP_OPEN_INFILE, OP_OPEN_OUTFILE, OP_OPEN_INOUTFILE,
       OP_OPEN_INSTRING, OP_OPEN_INOUTSTRING, OP_OPEN_OUTSTRING, OP_GET_OUTSTRING, OP_CLOSE_INPORT,
       OP_CLOSE_OUTPORT, OP_INT_ENV, OP_CURR_ENV] @
    map O5
      [OP_READ, OP_READ_CHAR, OP_PEEK_CHAR, OP_CHAR_READY, OP_SET_INPORT, OP_SET_OUTPORT, OP_RDSEXPR,
       OP_RDLIST, OP_RDDOT, OP_RDQUOTE, OP_RDQQUOTE, OP_RDQQUOTEVEC, OP_RDUNQUOTE, OP_RDUQTSP, OP_RDVEC,
       OP_P0LIST, OP_P1LIST, OP_PVECFROM] @
    map O6
      [OP_LIST_LENGTH, OP_ASSQ, OP_GET_CLOSURE, OP_CLOSUREP, OP_MACROP]"

definition opcode_number :: "opcode \<Rightarrow> nat" where
  "opcode_number oc = length (takeWhile (\<lambda>x. x \<noteq> oc) opcodes)"

definition procname :: "opcode \<Rightarrow> byte list" where
  "procname oc = (case dispatch_table oc of Some pcd \<Rightarrow> ascii (pcd_name pcd) | None \<Rightarrow> ascii ''ILLEGAL!'')"

section \<open>What evaluation does not change\<close>

text \<open>
  What evaluation does not change: the global environment, the symbol table and the special
  symbols; the C functions behind \<open>Foreign\<close> cells and \<open>llvm_scheme_env_set\<close> (LLVM), which
  may change the store; the text of a machine address; and the
  functions of the C library behind \<open>exp\<close> to \<open>expt\<close>.
\<close>

record globals =
  k_global_env :: addr
  k_oblist :: addr
  k_LAMBDA :: addr
  k_QUOTE :: addr
  k_QQUOTE :: addr
  k_UNQUOTE :: addr
  k_UNQUOTESP :: addr
  k_FEED_TO :: addr
  k_COLON_HOOK :: addr
  k_ERROR_HOOK :: addr
  k_LIVECODING_ERROR_HOOK :: addr
  k_SHARP_HOOK :: addr
  k_foreign :: "nat \<Rightarrow> store \<Rightarrow> addr \<Rightarrow> (store \<times> addr) option"
  k_llvm_env_set :: "store \<Rightarrow> byte list \<Rightarrow> (store \<times> addr) option"
  k_pointer :: "addr \<Rightarrow> byte list"
  k_libm :: "op2 \<Rightarrow> double list \<Rightarrow> double"
  k_what :: "byte list"

end
