(* ===== verification/Scheme_Ports.thy ===== *)
theory Scheme_Ports
  imports Scheme_Dispatch
begin

text \<open>
  Ports (src/src/Scheme.cpp, \<open>Routines for Reading\<close>): making and closing them, one character in, one
  character back, one character out. Files being loaded by \<open>load\<close> are left out, so that \<open>file_i\<close> is 0 and the end
  of the input port is the end of the input.
\<close>

section \<open>Making and closing ports\<close>

definition put_buf :: "store \<Rightarrow> nat \<Rightarrow> byte list \<Rightarrow> store" where
  "put_buf h b s = h\<lparr>h_buf := (h_buf h)(b := s)\<rparr>"

definition set_rep :: "store \<Rightarrow> nat \<Rightarrow> port_rep \<Rightarrow> store" where
  "set_rep h i r = h\<lparr>h_port := (h_port h)(i := (h_port h i)\<lparr>p_rep := r\<rparr>)\<rparr>"

definition new_port :: "store \<Rightarrow> port \<Rightarrow> store \<times> nat" where
  "new_port h pt = (h\<lparr>h_port := (h_port h)(h_nport h := pt), h_nport := Suc (h_nport h)\<rparr>, h_nport h)"

definition mk_port :: "store \<Rightarrow> nat \<Rightarrow> store \<times> addr" where
  "mk_port h i = alloc (Port i) h"

definition port_from_string :: "store \<Rightarrow> nat \<Rightarrow> nat \<Rightarrow> bool \<Rightarrow> bool \<Rightarrow> store \<times> addr" where
  "port_from_string h b past_the_end inp out =
     (let (h1, i) = new_port h \<lparr>p_input = inp, p_output = out, p_srfi6 = False, p_rep = Str b 0 past_the_end\<rparr>
      in mk_port h1 i)"

definition BLOCK_SIZE :: nat where "BLOCK_SIZE = 256"

definition port_from_scratch :: "store \<Rightarrow> store \<times> addr" where
  "port_from_scratch h =
     (let (h1, b) = store_string h (replicate (BLOCK_SIZE - 1) 32);
          (h2, i) = new_port h1 \<lparr>p_input = False, p_output = True, p_srfi6 = True, p_rep = Str b 0 (BLOCK_SIZE - 1)\<rparr>
      in mk_port h2 i)"

definition port_of :: "store \<Rightarrow> addr \<Rightarrow> nat option" where
  "port_of h p = (case h_cell h p of Port i \<Rightarrow> Some i | _ \<Rightarrow> None)"

text \<open>\<open>port_close\<close> with the flags to clear; a port without directions is free, and its file closed.\<close>

definition port_close :: "store \<Rightarrow> addr \<Rightarrow> bool \<Rightarrow> bool \<Rightarrow> store option" where
  "port_close h p inp out =
     do { i \<leftarrow> port_of h p;
          let pt = (h_port h i)\<lparr>p_input := p_input (h_port h i) \<and> \<not> inp, p_output := p_output (h_port h i) \<and> \<not> out\<rparr>;
          let pt = (if p_input pt \<or> p_output pt then pt
            else pt\<lparr>p_srfi6 := False, p_rep := (case p_rep pt of Stdio _ _ \<Rightarrow> Freed | r \<Rightarrow> r)\<rparr>);
          Some (h\<lparr>h_port := (h_port h)(i := pt)\<rparr>) }"

section \<open>Input\<close>

text \<open>
  A character from a buffer is a signed \<open>char\<close>, one from a file is not; the end of the input is -1. A
  buffer ends at its first zero too.
\<close>

definition EOF :: int where "EOF = -1"

definition basic_inchar :: "store \<Rightarrow> nat \<Rightarrow> (store \<times> int) option" where
  "basic_inchar h i =
     (case p_rep (h_port h i) of
        Stdio [] w \<Rightarrow> Some (h, EOF)
      | Stdio (c # r) w \<Rightarrow> Some (set_rep h i (Stdio r w), uint c)
      | Str b k e \<Rightarrow>
          if k < length (h_buf h b) then
            (let c = h_buf h b ! k in
             if c = 0 \<or> k = e then Some (h, EOF) else Some (set_rep h i (Str b (Suc k) e), sint c))
          else None
      | Freed \<Rightarrow> None)"

definition inchar :: "store \<Rightarrow> (store \<times> int) option" where
  "inchar h = do { i \<leftarrow> port_of h (h_inport h); basic_inchar h i }"

definition backchar :: "store \<Rightarrow> int \<Rightarrow> store option" where
  "backchar h c =
     (if c = EOF then Some h
      else do { i \<leftarrow> port_of h (h_inport h);
                (case p_rep (h_port h i) of
                   Stdio r w \<Rightarrow> Some (set_rep h i (Stdio (word_of_int c # r) w))
                 | Str b k e \<Rightarrow> Some (if k \<noteq> 0 then set_rep h i (Str b (k - 1) e) else h)
                 | Freed \<Rightarrow> None) })"

section \<open>Output\<close>

text \<open>
  \<open>realloc_port_string\<close>: the text is moved to a larger buffer, filled with spaces behind it. The copy is a
  \<open>strcpy\<close>, which stops at the first zero.
\<close>

definition realloc_port_string :: "store \<Rightarrow> nat \<Rightarrow> store option" where
  "realloc_port_string h i =
     (case p_rep (h_port h i) of
        Str b k e \<Rightarrow>
          (let s = c_str h b; n = e + 1 + BLOCK_SIZE;
               (h1, b1) = store_string h (s @ 0 # replicate (n - 2 - length s) 32)
           in Some (set_rep h1 i (Str b1 k (n - 1))))
      | _ \<Rightarrow> None)"

definition put_at :: "store \<Rightarrow> nat \<Rightarrow> byte \<Rightarrow> store option" where
  "put_at h i c =
     (case p_rep (h_port h i) of
        Str b k e \<Rightarrow>
          if k < length (h_buf h b) then Some (set_rep (put_buf h b ((h_buf h b)[k := c])) i (Str b (Suc k) e)) else None
      | _ \<Rightarrow> None)"

definition putcharacter :: "store \<Rightarrow> byte \<Rightarrow> store option" where
  "putcharacter h c =
     do { i \<leftarrow> port_of h (h_outport h);
          (case p_rep (h_port h i) of
             Stdio r w \<Rightarrow> Some (set_rep h i (Stdio r (w @ [c])))
           | Str b k e \<Rightarrow>
               if k \<noteq> e then put_at h i c
               else if p_srfi6 (h_port h i) then do { h1 \<leftarrow> realloc_port_string h i; put_at h1 i c }
               else Some h
           | Freed \<Rightarrow> None) }"

text \<open>\<open>putstr\<close> and \<open>putchars\<close>: a full buffer that cannot grow drops the characters.\<close>

primrec putstr :: "store \<Rightarrow> byte list \<Rightarrow> store option" where
  "putstr h [] = Some h"
| "putstr h (c # s) = do { h1 \<leftarrow> putcharacter h c; putstr h1 s }"

end
