(* ===== verification/Scheme_Reader.thy ===== *)
theory Scheme_Reader
  imports Scheme_Ports
begin

text \<open>
  From characters to tokens and atoms (src/src/Scheme.cpp): \<open>token\<close>, \<open>readstr_upto\<close>, \<open>readstrexp\<close>,
  \<open>mk_atom\<close> and \<open>mk_sharp_const\<close>. Characters are integers as in C, -1 being the end of the input; the
  classification is that of the C locale, where no negative character is a space, a digit or a letter.
\<close>

section \<open>Characters\<close>

definition isspace :: "int \<Rightarrow> bool" where "isspace c \<longleftrightarrow> c = 32 \<or> 9 \<le> c \<and> c \<le> 13"
definition iscntrl :: "int \<Rightarrow> bool" where "iscntrl c \<longleftrightarrow> 0 \<le> c \<and> c < 32 \<or> c = 127"
definition isdigit :: "int \<Rightarrow> bool" where "isdigit c \<longleftrightarrow> 48 \<le> c \<and> c \<le> 57"
definition isupper :: "int \<Rightarrow> bool" where "isupper c \<longleftrightarrow> 65 \<le> c \<and> c \<le> 90"
definition islower :: "int \<Rightarrow> bool" where "islower c \<longleftrightarrow> 97 \<le> c \<and> c \<le> 122"
definition toupper :: "int \<Rightarrow> int" where "toupper c = (if islower c then c - 32 else c)"
definition tolower :: "int \<Rightarrow> int" where "tolower c = (if isupper c then c + 32 else c)"

text \<open>The text up to the terminating zero.\<close>

definition cut :: "byte list \<Rightarrow> byte list" where "cut s = takeWhile (\<lambda>c. c \<noteq> 0) s"

definition is_one_of :: "string \<Rightarrow> int \<Rightarrow> bool" where
  "is_one_of s c \<longleftrightarrow> c = EOF \<or> c \<in> sint ` set (ascii s)"

definition delimiters :: string where
  "delimiters = ''();'' @ [CHR 0x09, CHR 0x0A, CHR 0x0D, CHR 0x20]"

section \<open>Tokens\<close>

partial_function (option) skip_loop :: "store \<Rightarrow> (store \<times> int) option" where
  "skip_loop h = do { (h1, c) \<leftarrow> inchar h; if isspace c \<or> iscntrl c then skip_loop h1 else Some (h1, c) }"

definition skipspace :: "store \<Rightarrow> store option" where
  "skipspace h = do { (h1, c) \<leftarrow> skip_loop h; backchar h1 c }"

definition read_token :: "store \<Rightarrow> (store \<times> token) option" where
  "read_token h =
     do { h1 \<leftarrow> skipspace h; (h2, c) \<leftarrow> inchar h1;
          if c = EOF then Some (h2, TOK_EOF)
          else if c = sint (chr CHR ''('') then Some (h2, TOK_LPAREN)
          else if c = sint (chr CHR '')'') then Some (h2, TOK_RPAREN)
          else if c = sint (chr CHR ''.'') then
            do { (h3, d) \<leftarrow> inchar h2;
                 if is_one_of [CHR 0x20, CHR 0x0A, CHR 0x09] d then Some (h3, TOK_DOT)
                 else do { h4 \<leftarrow> backchar h3 d; h5 \<leftarrow> backchar h4 c; Some (h5, TOK_ATOM) } }
          else if c = 39 then Some (h2, TOK_QUOTE)
          else if c = sint (chr CHR '';'') then Some (h2, TOK_COMMENT)
          else if c = 34 then Some (h2, TOK_DQUOTE)
          else if c = 96 then Some (h2, TOK_BQUOTE)
          else if c = sint (chr CHR '','') then
            do { (h3, d) \<leftarrow> inchar h2;
                 if d = sint (chr CHR ''@'') then Some (h3, TOK_ATMARK)
                 else do { h4 \<leftarrow> backchar h3 d; Some (h4, TOK_COMMA) } }
          else if c = sint (chr CHR ''#'') then
            do { (h3, d) \<leftarrow> inchar h2;
                 if d = sint (chr CHR ''('') then Some (h3, TOK_VEC)
                 else if d = sint (chr CHR ''!'') then Some (h3, TOK_COMMENT)
                 else do { h4 \<leftarrow> backchar h3 d;
                           Some (h4, if is_one_of ('' tfodxb'' @ [CHR 0x5C]) d then TOK_SHARP_CONST else TOK_SHARP) } }
          else do { h3 \<leftarrow> backchar h2 c; Some (h3, TOK_ATOM) } }"

text \<open>The rest of a line, for comments.\<close>

partial_function (option) skip_line :: "store \<Rightarrow> store option" where
  "skip_line h = do { (h1, c) \<leftarrow> inchar h; if c \<noteq> 10 \<and> c \<noteq> EOF then skip_line h1 else Some h1 }"

text \<open>
  \<open>readstr_upto\<close>: the characters up to a delimiter, which is put back unless it is the second one after a
  backslash. \<open>strbuff\<close> takes \<open>STRBUFF\<close> bytes and is not checked.
\<close>

definition STRBUFF :: nat where "STRBUFF = 4194304"

partial_function (option) readstr_loop :: "store \<Rightarrow> string \<Rightarrow> byte list \<Rightarrow> (store \<times> byte list) option" where
  "readstr_loop h delim acc =
     do { (h1, c) \<leftarrow> inchar h;
          let b = (word_of_int c :: byte);
          if length acc \<ge> STRBUFF then None
          else if is_one_of delim (sint b) then Some (h1, acc @ [b])
          else readstr_loop h1 delim (acc @ [b]) }"

definition readstr_upto :: "store \<Rightarrow> string \<Rightarrow> (store \<times> byte list) option" where
  "readstr_upto h delim =
     do { (h1, s) \<leftarrow> readstr_loop h delim [];
          if length s = 2 \<and> s ! 0 = 92 then Some (h1, cut s)
          else do { h2 \<leftarrow> backchar h1 (sint (last s)); Some (h2, cut (butlast s)) } }"

section \<open>Strings\<close>

text \<open>
  \<open>readstrexp\<close>. A hexadecimal digit is whatever lies between 0 and F. The result is the text before the
  closing quote, \<open>None\<close> inside for a string that is not closed, too long, or has a bad escape.
\<close>

datatype str_state = st_ok | st_bsl | st_x1 | st_x2 int

partial_function (option) readstr_state :: "store \<Rightarrow> str_state \<Rightarrow> byte list \<Rightarrow> (store \<times> byte list option) option" where
  "readstr_state h st p =
     do { (h1, c) \<leftarrow> inchar h;
          if c = EOF \<or> length p > STRBUFF - 1 then Some (h1, None)
          else (case st of
             st_ok \<Rightarrow>
               if c = 92 then readstr_state h1 st_bsl p
               else if c = 34 then Some (h1, Some p)
               else readstr_state h1 st_ok (p @ [word_of_int c])
           | st_bsl \<Rightarrow>
               if c = sint (chr CHR ''x'') \<or> c = sint (chr CHR ''X'') then readstr_state h1 st_x1 p
               else if c = sint (chr CHR ''n'') then readstr_state h1 st_ok (p @ [10])
               else if c = sint (chr CHR ''t'') then readstr_state h1 st_ok (p @ [9])
               else if c = sint (chr CHR ''r'') then readstr_state h1 st_ok (p @ [13])
               else readstr_state h1 st_ok (p @ [word_of_int c])
           | st_x1 \<Rightarrow>
               (let u = toupper c in
                if 48 \<le> u \<and> u \<le> 70 then readstr_state h1 (st_x2 (if u \<le> 57 then u - 48 else u - 55)) p
                else Some (h1, None))
           | st_x2 c1 \<Rightarrow>
               (let u = toupper c in
                if 48 \<le> u \<and> u \<le> 70 then
                  readstr_state h1 st_ok (p @ [word_of_int (16 * c1 + (if u \<le> 57 then u - 48 else u - 55))])
                else Some (h1, None))) }"

text \<open>
  The string made of it; for a text with a zero in it, \<open>strcpy\<close> leaves the rest of the new buffer unset.
\<close>

definition readstrexp :: "store \<Rightarrow> (store \<times> addr) option" where
  "readstrexp h =
     do { (h1, r) \<leftarrow> readstr_state h st_ok [];
          (case r of
             None \<Rightarrow> Some (h1, F_OBJ)
           | Some s \<Rightarrow> if 0 \<in> set s then None else Some (mk_counted_string h1 s)) }"

end
