(* ===== verification/Decimals.thy ===== *)
theory Decimals
  imports Doubles
begin

text \<open>
  Numbers as decimal text, as the C library reads and writes it for the interpreter: \<open>strtod\<close> and
  \<open>strtoll\<close>, and \<open>printf\<close> with \<open>%#.20g\<close>. Both directions for doubles are exact on integers and round
  once, as the standard asks for.
\<close>

section \<open>Reading\<close>

definition digit :: "byte \<Rightarrow> bool" where
  "digit c \<longleftrightarrow> 48 \<le> c \<and> c \<le> 57"

definition dec_value :: "byte list \<Rightarrow> int" where
  "dec_value s = foldl (\<lambda>n c. 10 * n + (uint c - 48)) 0 s"

definition sign_of :: "byte list \<Rightarrow> bool \<times> byte list" where
  "sign_of s = (case s of c # r \<Rightarrow> if c = 45 then (True, r) else if c = 43 then (False, r) else (False, s) | [] \<Rightarrow> (False, []))"

text \<open>\<open>atoll\<close>; a value that is no \<open>int64_t\<close> is undefined.\<close>

definition atoll :: "byte list \<Rightarrow> int option" where
  "atoll s =
     (let (neg, r) = sign_of s; n = dec_value (takeWhile digit r); i = (if neg then - n else n)
      in if in_i64 i then Some i else None)"

text \<open>The decimal exponent at the end of a number; it counts only with a digit in it.\<close>

definition exponent :: "byte list \<Rightarrow> int" where
  "exponent s =
     (case s of
        c # r \<Rightarrow>
          if c = 101 \<or> c = 69 then
            (let (neg, d) = sign_of r; n = dec_value (takeWhile digit d) in if neg then - n else n)
          else 0
      | [] \<Rightarrow> 0)"

definition of_decimal :: "bool \<Rightarrow> int \<Rightarrow> int \<Rightarrow> double" where
  "of_decimal s n k = (if 0 \<le> k then fp_round s (n * 10 ^ nat k) 1 0 else fp_round s n (10 ^ nat (- k)) 0)"

definition atof :: "byte list \<Rightarrow> double" where
  "atof s =
     (let (neg, r) = sign_of s; ip = takeWhile digit r; r1 = dropWhile digit r;
          (fp, r2) = (case r1 of c # t \<Rightarrow> if c = 46 then (takeWhile digit t, dropWhile digit t) else ([], r1) | [] \<Rightarrow> ([], []))
      in of_decimal neg (dec_value (ip @ fp)) (exponent r2 - int (length fp)))"

section \<open>Writing\<close>

definition scaled10 :: "int \<Rightarrow> int \<Rightarrow> int \<Rightarrow> int \<times> int" where
  "scaled10 n d s = (if 0 \<le> s then (n * 10 ^ nat s, d) else (n, d * 10 ^ nat (- s)))"

text \<open>The decimal exponent of a positive quotient.\<close>

definition dec_exp :: "int \<Rightarrow> int \<Rightarrow> int" where
  "dec_exp n d =
     (let j = int (length (dec_int n)) - int (length (dec_int d)); (a, b) = scaled10 n d (- j)
      in if a < b then j - 1 else j)"

text \<open>The twenty digits of a positive quotient, rounded to nearest even, and its exponent.\<close>

definition digits20 :: "int \<Rightarrow> int \<Rightarrow> int \<times> int" where
  "digits20 n d =
     (let x = dec_exp n d; (a, b) = scaled10 n d (19 - x); m = half_even a b
      in if m = 10 ^ 20 then (10 ^ 19, x + 1) else (m, x))"

definition two_digits :: "nat \<Rightarrow> byte list" where
  "two_digits n = (if n < 10 then 48 # dec_nat n else dec_nat n)"

definition layout20 :: "int \<Rightarrow> int \<Rightarrow> byte list" where
  "layout20 m x =
     (let ds = dec_int m in
      if - 4 \<le> x \<and> x < 20 then
        (if 0 \<le> x then take (nat x + 1) ds @ 46 # drop (nat x + 1) ds
         else [48, 46] @ replicate (nat (- x) - 1) 48 @ ds)
      else hd ds # 46 # tl ds @ 101 # (if x < 0 then 45 else 43) # two_digits (nat \<bar>x\<bar>))"

definition fmt20 :: "double \<Rightarrow> byte list" where
  "fmt20 r =
     (if fp_neg r then [45] else []) @
     (if fp_is_nan r then ascii ''nan'' else if fp_is_inf r then ascii ''inf''
      else if fp_mant r = 0 then ascii ''0.'' @ replicate 19 48
      else (let (n, d) = scaled (fp_mant r) 1 (fp_exp r); (m, x) = digits20 n d in layout20 m x))"

end
