(* ===== verification/Scheme_Printer.thy ===== *)
theory Scheme_Printer
  imports Scheme_Reader Decimals
begin

text \<open>
  Atoms as text and text as atoms (src/src/Scheme.cpp): \<open>mk_atom\<close>, \<open>mk_sharp_const\<close>, \<open>atom2str\<close>,
  \<open>printslashstring\<close> and \<open>printatom\<close>.
\<close>

section \<open>Atoms\<close>

definition alloc_num :: "store \<Rightarrow> fault + num \<Rightarrow> (store \<times> addr) option" where
  "alloc_num h r = (case r of Inr n \<Rightarrow> Some (alloc (Number n) h) | Inl _ \<Rightarrow> None)"

text \<open>
  The loop of \<open>mk_atom\<close>: whether there was a decimal point (or an exponent) and a slash; \<open>None\<close> when the
  text is a symbol after all.
\<close>

fun atom_scan :: "byte list \<Rightarrow> bool \<Rightarrow> bool \<Rightarrow> (bool \<times> bool) option" where
  "atom_scan [] dec rat = Some (dec, rat)"
| "atom_scan (c # s) dec rat =
     (if digit c then atom_scan s dec rat
      else if c = 46 \<and> \<not> dec then atom_scan s True rat
      else if c = 47 \<and> \<not> rat then atom_scan s dec True
      else if c = 101 \<or> c = 69 then
        (case s of d # t \<Rightarrow> if d = 45 \<or> d = 43 \<or> digit d then atom_scan t True rat else None | [] \<Rightarrow> None)
      else None)"

text \<open>What \<open>mk_atom\<close> takes a text for.\<close>

datatype atom_kind = Empty_Atom | Symbol_Atom | Number_Atom bool bool

definition atom_kind :: "byte list \<Rightarrow> atom_kind" where
  "atom_kind q =
     (let digits = (\<lambda>s dec. case s of
            d # t \<Rightarrow> if digit d then (case atom_scan t dec False of Some (b, r) \<Rightarrow> Number_Atom b r | None \<Rightarrow> Symbol_Atom)
                     else Symbol_Atom
          | [] \<Rightarrow> Symbol_Atom)
      in case q of
           [] \<Rightarrow> Empty_Atom
         | c # s \<Rightarrow>
             if c = 43 \<or> c = 45 then
               (case s of d # t \<Rightarrow> if d = 46 then digits t True else digits s False | [] \<Rightarrow> Symbol_Atom)
             else if c = 46 then digits s True
             else digits q False)"

definition after_slash :: "byte list \<Rightarrow> byte list" where
  "after_slash q = tl (dropWhile (\<lambda>c. c \<noteq> 47) q)"

text \<open>
  The position of the first \<open>::\<close>, for the colon hook. The two halves become atoms in an order C++ leaves open.
\<close>

fun find_colons :: "byte list \<Rightarrow> nat option" where
  "find_colons (c # d # s) = (if c = 58 \<and> d = 58 then Some 0 else map_option Suc (find_colons (d # s)))"
| "find_colons _ = None"

lemma find_colons_less: "find_colons q = Some n \<Longrightarrow> n + 1 < length q"
  by (induction q arbitrary: n rule: find_colons.induct) (auto split: if_splits)

definition mk_simple_atom :: "globals \<Rightarrow> store \<Rightarrow> byte list \<Rightarrow> (store \<times> addr) option" where
  "mk_simple_atom K h q =
     (case atom_kind q of
        Empty_Atom \<Rightarrow> Some (h, NIL)
      | Symbol_Atom \<Rightarrow> mk_symbol h (k_oblist K) q
      | Number_Atom dec rat \<Rightarrow>
          if dec then Some (alloc (Number (Real (atof q))) h)
          else if rat then do { n \<leftarrow> atoll q; d \<leftarrow> atoll (after_slash q); alloc_num h (mk_rational n d) }
          else do { n \<leftarrow> atoll q; Some (mk_integer h n) })"

function mk_atom :: "globals \<Rightarrow> store \<Rightarrow> byte list \<Rightarrow> (store \<times> addr) option" where
  "mk_atom K h q =
     (case find_colons q of
        Some n \<Rightarrow>
          do { (h1, s) \<leftarrow> mk_symbol h (k_oblist K) (take n q);
               (h2, a) \<leftarrow> mk_atom K h1 (drop (n + 2) q);
               let (h3, x) = cons h2 a NIL; let (h4, y) = cons h3 (k_QUOTE K) x;
               let (h5, z) = cons h4 s NIL; let (h6, u) = cons h5 y z;
               Some (cons h6 (k_COLON_HOOK K) u) }
      | None \<Rightarrow> mk_simple_atom K h q)"
  by auto

termination
  by (relation "measure (\<lambda>(K, h, q). length q)") (auto dest: find_colons_less)

declare mk_atom.simps [simp del]

section \<open>Constants that begin with a sharp sign\<close>

text \<open>
  \<open>sscanf\<close> of an integer in a base: outer \<open>None\<close> where the result is undefined (too large), inner \<open>None\<close> where
  nothing is converted.
\<close>

definition digit_value :: "byte \<Rightarrow> int" where
  "digit_value c =
     (let i = uint c in if 48 \<le> i \<and> i \<le> 57 then i - 48 else if 97 \<le> i \<and> i \<le> 122 then i - 87
      else if 65 \<le> i \<and> i \<le> 90 then i - 55 else 36)"

definition scan_int :: "int \<Rightarrow> int \<Rightarrow> byte list \<Rightarrow> int option option" where
  "scan_int base limit s =
     (let (neg, r) = sign_of (dropWhile (\<lambda>c. isspace (sint c)) s);
          hex = (base = 16 \<and> take 1 r = [48] \<and> take 1 (drop 1 r) \<in> {[120], [88]});
          ds = takeWhile (\<lambda>c. digit_value c < base) (if hex then drop 2 r else r);
          n = foldl (\<lambda>n c. base * n + digit_value c) 0 ds
      in if ds = [] then (if hex then None else Some None)
         else if n < limit then Some (Some (if neg then - n else n)) else None)"

text \<open>\<open>charnames\<close> and \<open>is_ascii_name\<close>.\<close>

definition charnames :: "string list" where
  "charnames = [''nul'', ''soh'', ''stx'', ''etx'', ''eot'', ''enq'', ''ack'', ''bel'', ''bs'', ''ht'', ''lf'', ''vt'',
     ''ff'', ''cr'', ''so'', ''si'', ''dle'', ''dc1'', ''dc2'', ''dc3'', ''dc4'', ''nak'', ''syn'', ''etb'', ''can'', ''em'',
     ''sub'', ''esc'', ''fs'', ''gs'', ''rs'', ''us'']"

definition ascii_name :: "byte list \<Rightarrow> int option" where
  "ascii_name s =
     (let i = length (takeWhile (\<lambda>n. ascii n \<noteq> s) charnames)
      in if i < 32 then Some (int i) else if s = ascii ''del'' then Some 127 else None)"

text \<open>
  A character by its name; \<open>None\<close> inside for none. For the empty name the code looks behind the
  end of the text.
\<close>

definition named_char :: "byte list \<Rightarrow> int option option" where
  "named_char s =
     (if s = ascii ''space'' then Some (Some 32)
      else if s = ascii ''newline'' then Some (Some 10)
      else if s = ascii ''return'' then Some (Some 13)
      else if s = ascii ''tab'' then Some (Some 9)
      else (case s of
          [] \<Rightarrow> None
        | c # r \<Rightarrow>
            if c = chr CHR ''x'' \<and> r \<noteq> [] then
              do { v \<leftarrow> scan_int 16 (2 ^ 32) r;
                   Some (case v of None \<Rightarrow> None | Some i \<Rightarrow>
                     (let c1 = sint (word_of_int i :: 32 word) in if c1 < 256 then Some c1 else None)) }
            else Some (case ascii_name s of Some i \<Rightarrow> Some i | None \<Rightarrow> if r = [] then Some (sint c) else None)))"

text \<open>\<open>mk_sharp_const\<close> prints the digits into \<open>tmp\<close>, 256 bytes with the prefix. NIL is the answer for anything else.\<close>

definition mk_sharp_const :: "store \<Rightarrow> byte list \<Rightarrow> (store \<times> addr) option" where
  "mk_sharp_const h name =
     (let number = (\<lambda>v. case v of Some (Some i) \<Rightarrow> Some (mk_integer h i) | _ \<Rightarrow> None) in
      if name = ascii ''t'' then Some (h, T_OBJ)
      else if name = ascii ''f'' then Some (h, F_OBJ)
      else (case name of
          [] \<Rightarrow> Some (h, NIL)
        | c # s \<Rightarrow>
            if c = chr CHR ''o'' then (if length s > 254 then None else number (scan_int 8 (2 ^ 63) (48 # s)))
            else if c = chr CHR ''d'' then number (scan_int 10 (2 ^ 63) s)
            else if c = chr CHR ''x'' then (if length s > 253 then None else number (scan_int 16 (2 ^ 63) ([48, 120] @ s)))
            else if c = chr CHR ''b'' then Some (mk_integer h (binary_decode s))
            else if c = 92 then
              do { v \<leftarrow> named_char s;
                   Some (case v of Some i \<Rightarrow> mk_character h i | None \<Rightarrow> (h, NIL)) }
            else Some (h, NIL)))"

section \<open>Printing\<close>

definition hex_digit :: "byte \<Rightarrow> byte" where
  "hex_digit d = (if d < 10 then d + 48 else d - 10 + 65)"

definition slash_char :: "byte \<Rightarrow> byte list" where
  "slash_char c =
     (if c = 255 \<or> c = 34 \<or> c < 32 \<or> c = 92 then
        92 # (if c = 34 then [34] else if c = 10 then [chr CHR ''n''] else if c = 9 then [chr CHR ''t'']
              else if c = 13 then [chr CHR ''r''] else if c = 92 then [92]
              else [chr CHR ''x'', hex_digit (c div 16), hex_digit (c mod 16)])
      else [c])"

definition slash_text :: "byte list \<Rightarrow> byte list" where
  "slash_text s = 34 # concat (map slash_char s) @ [34]"

definition printslashstring :: "store \<Rightarrow> byte list \<Rightarrow> store option" where
  "printslashstring h s = putstr h (slash_text s)"

text \<open>The text of a character constant; negative characters index \<open>charnames\<close> outside.\<close>

definition char_text :: "int \<Rightarrow> byte list option" where
  "char_text c =
     (if c = 32 then Some (ascii (CHR ''#'' # CHR 0x5C # ''space''))
      else if c = 10 then Some (ascii (CHR ''#'' # CHR 0x5C # ''newline''))
      else if c = 13 then Some (ascii (CHR ''#'' # CHR 0x5C # ''return''))
      else if c = 9 then Some (ascii (CHR ''#'' # CHR 0x5C # ''tab''))
      else if c = 127 then Some (ascii (CHR ''#'' # CHR 0x5C # ''del''))
      else if 0 \<le> c \<and> c < 32 then Some (ascii (CHR ''#'' # CHR 0x5C # charnames ! nat c))
      else if c < 0 then None
      else Some (cut [35, 92, word_of_int c]))"

definition num_text :: "num \<Rightarrow> byte list" where
  "num_text x = (case x of Integer i \<Rightarrow> dec_int i | Rational n d \<Rightarrow> dec_int n @ 47 # dec_int d | Real r \<Rightarrow> fmt20 r)"

text \<open>
  \<open>atom2str\<close>, but for strings with the print flag, which it prints itself. A foreign function is printed
  with a number read from its code pointer.
\<close>

definition atom2str :: "store \<Rightarrow> addr \<Rightarrow> bool \<Rightarrow> byte list option" where
  "atom2str h l f =
     (if l = NIL then Some (ascii ''()'')
      else if l = T_OBJ then Some (ascii ''#t'')
      else if l = F_OBJ then Some (ascii ''#f'')
      else if l = EOF_OBJ then Some (ascii ''#<EOF>'')
      else (case h_cell h l of
          Port _ \<Rightarrow> Some (ascii ''#<PORT>'')
        | Number x \<Rightarrow> Some (num_text x)
        | String b _ \<Rightarrow> Some (c_str h b)
        | Character c \<Rightarrow> if f then char_text c else Some (cut [word_of_int c])
        | Symbol _ _ \<Rightarrow> symname h l
        | Syntax _ _ \<Rightarrow> symname h l
        | Proc oc \<Rightarrow> Some (ascii ''#<'' @ procname oc @ ascii '' PROCEDURE '' @ dec_nat (opcode_number oc) @ ascii ''>'')
        | Macro _ _ \<Rightarrow> Some (ascii ''#<MACRO>'')
        | Closure _ _ \<Rightarrow> Some (ascii ''#<CLOSURE>'')
        | Promise _ _ \<Rightarrow> Some (ascii ''#<PROMISE>'')
        | Foreign _ \<Rightarrow> None
        | Continuation _ _ \<Rightarrow> Some (ascii ''#<CONTINUATION>'')
        | Dump _ \<Rightarrow> Some (ascii ''#<CPTR>'')
        | _ \<Rightarrow> Some (ascii ''#<ERROR>'')))"

definition atom_text :: "store \<Rightarrow> addr \<Rightarrow> bool \<Rightarrow> byte list option" where
  "atom_text h l f =
     (case h_cell h l of
        String b n \<Rightarrow> if f then (if n \<le> length (h_buf h b) then Some (slash_text (take n (h_buf h b))) else None)
                      else atom2str h l f
      | _ \<Rightarrow> atom2str h l f)"

definition printatom :: "store \<Rightarrow> addr \<Rightarrow> bool \<Rightarrow> store option" where
  "printatom h l f = do { s \<leftarrow> atom_text h l f; putstr h s }"

end
