(* ===== verification/Scheme_Show.thy ===== *)
theory Scheme_Show
  imports Scheme_Printer
begin

text \<open>
  The text of any object, as error messages, \<open>println\<close> and the replies of the interpreter show it
  (\<open>printSchemeCell\<close> in src/src/UNIV.cpp). Unlike \<open>write\<close> it does not make text that can be read back, and with \<open>full\<close>
  it follows environments and code.
\<close>

section \<open>Numbers\<close>

text \<open>A stream with \<open>fixed\<close> and a precision: that many digits behind the point, rounded to nearest even.\<close>

definition pad_left :: "nat \<Rightarrow> byte list \<Rightarrow> byte list" where
  "pad_left n s = replicate (n - length s) 48 @ s"

definition fmt_fixed :: "nat \<Rightarrow> double \<Rightarrow> byte list" where
  "fmt_fixed p r =
     (if fp_neg r then [45] else []) @
     (if fp_is_nan r then ascii ''nan'' else if fp_is_inf r then ascii ''inf''
      else (let (n, d) = scaled (fp_mant r) 1 (fp_exp r); m = nat (half_even (n * 10 ^ p) d)
            in dec_nat (m div 10 ^ p) @ 46 # pad_left p (dec_nat (m mod 10 ^ p))))"

definition show_num :: "bool \<Rightarrow> num \<Rightarrow> byte list" where
  "show_num full x =
     (case x of Integer i \<Rightarrow> dec_int i | Rational n d \<Rightarrow> dec_int n @ 47 # dec_int d
      | Real r \<Rightarrow> fmt_fixed (if full then 23 else 6) r)"

section \<open>Lists of objects\<close>

primrec map_options :: "('a \<Rightarrow> 'b option) \<Rightarrow> 'a list \<Rightarrow> 'b list option" where
  "map_options f [] = Some []"
| "map_options f (x # xs) = do { y \<leftarrow> f x; ys \<leftarrow> map_options f xs; Some (y # ys) }"

lemma map_options_mono [partial_function_mono]:
  assumes "\<And>x. mono_option (\<lambda>g. F x g)"
  shows "mono_option (\<lambda>g. map_options (\<lambda>x. F x g) xs)"
proof (induction xs)
  case Nil
  then show ?case by (simp add: option.const_mono)
next
  case (Cons x xs)
  then show ?case using assms by (auto intro!: bind_mono option.const_mono)
qed

primrec between :: "byte list \<Rightarrow> byte list list \<Rightarrow> byte list" where
  "between s [] = []"
| "between s (x # xs) = x @ (if xs = [] then [] else s @ between s xs)"

text \<open>The frames of a continuation, the bottom of the stack first: what is printed of each, and the text around it.\<close>

definition frame_addrs :: "frame list \<Rightarrow> addr list" where
  "frame_addrs fs = concat (map (\<lambda>f. [f_args f, f_code f, f_envir f]) fs)"

fun show_frames :: "nat \<Rightarrow> frame list \<Rightarrow> byte list list \<Rightarrow> byte list" where
  "show_frames j (f # fs) (a # c # e # ss) =
     [10, 10] @ ascii ''FRAME('' @ dec_nat j @ ascii '')--------------------------'' @
     10 # ascii ''OPCODE: '' @ dec_nat (opcode_number (f_op f)) @ 10 # ascii ''ARGS: '' @ a @
     10 # ascii ''CODE: '' @ c @ 10 # ascii ''ENVIR: '' @ e @ show_frames (Suc j) fs ss"
| "show_frames j _ _ = []"

section \<open>Objects\<close>

text \<open>
  \<open>ptr\<close> gives the text of a machine address. The final tests of the code look at the number type of any cell; for other cells than
  numbers that field is part of a pointer, and there is no result.
\<close>

partial_function (option) printSchemeCell :: "(addr \<Rightarrow> byte list) \<Rightarrow> store \<Rightarrow> bool \<Rightarrow> bool \<Rightarrow> addr \<Rightarrow> byte list option" where
  "printSchemeCell ptr h full quotes val =
     (case h_cell h val of
        String b _ \<Rightarrow> Some (if quotes then 34 # c_str h b @ [34] else c_str h b)
      | Symbol _ _ \<Rightarrow> symname h val
      | Syntax _ _ \<Rightarrow> symname h val
      | Character c \<Rightarrow> Some (dec_int c)
      | Environment f e \<Rightarrow>
          do { s \<leftarrow> (if full then
                 do { a \<leftarrow> (if is_vector h f then Some (ascii ''<VECTOR-FRAME>'') else printSchemeCell ptr h full quotes f);
                      d \<leftarrow> printSchemeCell ptr h full quotes e; Some (a @ 32 # d) }
               else Some []);
               Some (ascii ''#<ENVIRONMENT '' @ ptr val @ 32 # s @ ascii ''>'') }
      | Proc oc \<Rightarrow> Some (ascii ''#<PROC '' @ procname oc @ ascii ''>'')
      | Foreign _ \<Rightarrow> Some (ascii ''#<FOREIGN>'')
      | Macro _ _ \<Rightarrow> Some (ascii ''#<MACRO>'')
      | Closure c e \<Rightarrow>
          do { s \<leftarrow> (if full then
                 do { a \<leftarrow> printSchemeCell ptr h full quotes c; d \<leftarrow> printSchemeCell ptr h full quotes e;
                      Some (ascii ''<CODE '' @ a @ ascii ''> '' @ d @ ascii ''>>'') }
               else Some []);
               Some (ascii ''#<<CLOSURE '' @ ptr val @ ascii ''>'' @ s) }
      | Continuation _ d \<Rightarrow>
          do { s \<leftarrow> (if full then
                 (case h_cell h d of
                    Dump fs \<Rightarrow>
                      do { ss \<leftarrow> map_options (\<lambda>x. printSchemeCell ptr h True quotes x) (frame_addrs (rev fs));
                           Some (show_frames 0 (rev fs) ss) }
                  | _ \<Rightarrow> None)
               else Some []);
               Some (ascii ''#<<CONTINUATION '' @ ptr val @ ascii ''>'' @ s @ 10 # ascii ''>>'') }
      | Dump _ \<Rightarrow> Some (ascii ''#<CPTR: '' @ ptr val @ ascii ''>'')
      | Vector xs \<Rightarrow>
          if length xs > 1000 \<and> \<not> full then Some (ascii ''#( -- '' @ dec_nat (length xs) @ ascii '' elements -- )'')
          else do { ss \<leftarrow> map_options (\<lambda>x. printSchemeCell ptr h full quotes x) xs; Some (35 # 40 # between [32] ss @ [41]) }
      | Port _ \<Rightarrow> Some (ascii ''#<PORT'' @ ptr val @ ascii ''>'')
      | Pair a d \<Rightarrow>
          do { n \<leftarrow> list_length h val;
               if n < 0 then
                 do { x \<leftarrow> printSchemeCell ptr h full quotes a; y \<leftarrow> printSchemeCell ptr h full quotes d;
                      Some (40 # x @ ascii '' . '' @ y @ [41]) }
               else if n > 1000 \<and> \<not> full then Some (ascii ''( -- '' @ dec_int n @ ascii '' elements -- )'')
               else
                 do { ss \<leftarrow> map_options (\<lambda>i. do { x \<leftarrow> list_ref_nat h i val; printSchemeCell ptr h full quotes x }) [0..<nat n];
                      Some (40 # between [32] ss @ [41]) } }
      | Number x \<Rightarrow> Some (show_num full x)
      | _ \<Rightarrow>
          if val = NIL then Some (if full then ascii ''()'' else ascii ''NIL'')
          else if val = T_OBJ then Some (ascii ''#t'')
          else if val = F_OBJ then Some (ascii ''#f'')
          else None)"

end
