(* ===== verification/Scheme_Machine.thy ===== *)
theory Scheme_Machine
  imports Scheme_Show
begin

text \<open>
  The registers of the interpreter (\<open>struct scheme\<close>, src/include/SchemePrivate.h), its dump stack and
  the operations that change both (src/src/Scheme.cpp): saving and returning, continuations, errors.
  The debugger's registers (\<open>last_symbol_apply\<close>, \<open>applied_symbol_names\<close>, \<open>_debugger\<close>), which only
  shape messages, are left out.
\<close>

section \<open>Registers\<close>

record scheme =
  heap :: store
  r_args :: addr
  r_envir :: addr
  r_code :: addr
  r_value :: addr
  r_dump :: "frame list"
  r_op :: opcode

text \<open>
  What an operation ends in. \<open>Next\<close>: it returned \<open>sc->T\<close>, go on with \<open>r_op\<close>. \<open>Stop\<close>: it returned
  \<open>sc->NIL\<close>. \<open>Error\<close>: \<open>_Error_1\<close> without a hook; the message is printed and the evaluation
  ends. \<open>Throw\<close>: \<open>ScmRuntimeError\<close>, caught by the caller of \<open>Eval_Cycle\<close>. \<open>Exception\<close>: a
  \<open>std::exception\<close>, which \<open>scheme_load_string\<close> reports and \<open>scheme_call\<close> does not catch.
\<close>

datatype outcome = Next scheme | Stop scheme | Error "byte list" "addr option" scheme
  | Throw string addr scheme | Exception scheme

section \<open>The dump stack\<close>

definition s_save :: "opcode \<Rightarrow> addr \<Rightarrow> addr \<Rightarrow> scheme \<Rightarrow> scheme" where
  "s_save oc args code sc =
     sc\<lparr>r_dump := \<lparr>f_op = oc, f_args = args, f_envir = r_envir sc, f_code = code\<rparr> # r_dump sc\<rparr>"

definition resume :: "frame \<Rightarrow> scheme \<Rightarrow> scheme" where
  "resume f sc = sc\<lparr>r_op := f_op f, r_args := f_args f, r_envir := f_envir f, r_code := f_code f\<rparr>"

definition s_return :: "scheme \<Rightarrow> addr \<Rightarrow> outcome" where
  "s_return sc a =
     (case r_dump sc of
        [] \<Rightarrow> Stop (sc\<lparr>r_value := a\<rparr>)
      | f # fs \<Rightarrow> Next (resume f (sc\<lparr>r_value := a, r_dump := fs\<rparr>)))"

definition s_goto :: "scheme \<Rightarrow> opcode \<Rightarrow> outcome" where
  "s_goto sc oc = Next (sc\<lparr>r_op := oc\<rparr>)"

definition s_retbool :: "scheme \<Rightarrow> bool \<Rightarrow> outcome" where
  "s_retbool sc tf = s_return sc (if tf then T_OBJ else F_OBJ)"

definition is_true :: "addr \<Rightarrow> bool" where
  "is_true p \<longleftrightarrow> p \<noteq> F_OBJ"

definition eval_in :: "scheme \<Rightarrow> addr \<Rightarrow> outcome" where
  "eval_in sc c = s_goto (sc\<lparr>r_code := c\<rparr>) (O0 OP_EVAL)"

text \<open>\<open>return_new sc (h, x)\<close>: return a value just allocated.\<close>

definition return_new :: "scheme \<Rightarrow> store \<times> addr \<Rightarrow> outcome" where
  "return_new sc r = s_return (sc\<lparr>heap := fst r\<rparr>) (snd r)"

text \<open>
  The copies \<open>dump_stack_copy\<close> and \<open>dump_stack_continuation_set\<close> make of a frame: new lists, and
  the interned symbol of the same name for a symbol. Both go through the frames from the bottom
  of the stack.
\<close>

definition copy_frame :: "addr \<Rightarrow> store \<Rightarrow> frame \<Rightarrow> (store \<times> frame) option" where
  "copy_frame oblist h f =
     do { (h1, a) \<leftarrow> list_copy h (f_args f);
          (h2, c) \<leftarrow> (if is_symbol h1 (f_code f)
                     then do { n \<leftarrow> symname h1 (f_code f); mk_symbol h1 oblist n }
                     else list_copy h1 (f_code f));
          Some (h2, f\<lparr>f_args := a, f_code := c\<rparr>) }"

fun copy_frames :: "addr \<Rightarrow> store \<Rightarrow> frame list \<Rightarrow> (store \<times> frame list) option" where
  "copy_frames oblist h [] = Some (h, [])"
| "copy_frames oblist h (f # fs) =
     do { (h1, gs) \<leftarrow> copy_frames oblist h fs; (h2, g) \<leftarrow> copy_frame oblist h1 f; Some (h2, g # gs) }"

definition dump_stack_copy :: "globals \<Rightarrow> scheme \<Rightarrow> (store \<times> addr) option" where
  "dump_stack_copy K sc =
     do { let (h1, y) = alloc (Dump (r_dump sc)) (heap sc);
          (h2, fs) \<leftarrow> copy_frames (k_oblist K) h1 (r_dump sc);
          Some (put_cell h2 y (Dump fs), y) }"

definition dump_stack_continuation_set :: "globals \<Rightarrow> scheme \<Rightarrow> addr \<Rightarrow> scheme option" where
  "dump_stack_continuation_set K sc p =
     (case h_cell (heap sc) p of
        Dump fs \<Rightarrow> do { (h1, gs) \<leftarrow> copy_frames (k_oblist K) (heap sc) fs; Some (sc\<lparr>heap := h1, r_dump := gs\<rparr>) }
      | _ \<Rightarrow> None)"

definition mk_continuation :: "globals \<Rightarrow> scheme \<Rightarrow> (store \<times> addr) option" where
  "mk_continuation K sc = do { (h1, y) \<leftarrow> dump_stack_copy K sc; Some (alloc (Continuation NIL y) h1) }"

section \<open>Errors\<close>

text \<open>
  \<open>_Error_1\<close>: if \<open>*error-hook*\<close> or \<open>*livecoding-error-hook*\<close> is bound to something but NIL, its value
  is called with the message and the offending value. The message printed in between is left
  out.
\<close>

definition quote_list :: "globals \<Rightarrow> store \<Rightarrow> addr \<Rightarrow> store \<times> addr" where
  "quote_list K h a = (let (h1, p) = cons h a NIL in cons h1 (k_QUOTE K) p)"

definition call_hook :: "scheme \<Rightarrow> store \<Rightarrow> byte list \<Rightarrow> addr \<Rightarrow> addr \<Rightarrow> outcome option" where
  "call_hook sc h s hook code =
     do { let (h1, str) = mk_string h s;
          let (h2, c) = cons h1 str code;
          let h3 = setimmutable h2 str;
          f \<leftarrow> slot_value_in_env h3 hook;
          let (h4, c1) = cons h3 f c;
          Some (eval_in (sc\<lparr>heap := h4\<rparr>) c1) }"

definition hook_of :: "globals \<Rightarrow> scheme \<Rightarrow> addr \<Rightarrow> addr option" where
  "hook_of K sc hdl =
     do { x \<leftarrow> find_slot_in_env (heap sc) (r_envir sc) hdl True;
          if x = NIL then Some NIL
          else do { v \<leftarrow> slot_value_in_env (heap sc) x; Some (if v = NIL then NIL else x) } }"

definition error_1 :: "globals \<Rightarrow> scheme \<Rightarrow> byte list \<Rightarrow> addr option \<Rightarrow> outcome option" where
  "error_1 K sc s a =
     do { x \<leftarrow> hook_of K sc (k_ERROR_HOOK K);
          if x \<noteq> NIL then
            (case a of
               Some v \<Rightarrow> (let (h1, q) = quote_list K (heap sc) v; (h2, c) = cons h1 q NIL in call_hook sc h2 s x c)
             | None \<Rightarrow> call_hook sc (heap sc) s x NIL)
          else do { x \<leftarrow> hook_of K sc (k_LIVECODING_ERROR_HOOK K);
            if x \<noteq> NIL then
              (let (h1, p1) = mk_integer (heap sc) 0; (h2, p2) = cons h1 p1 NIL;
                   (h3, p3) = quote_list K h2 (case a of Some v \<Rightarrow> v | None \<Rightarrow> F_OBJ);
                   (h4, c) = cons h3 p3 p2
               in call_hook sc h4 s x c)
            else Some (Error s a sc) } }"

definition error_0 :: "globals \<Rightarrow> scheme \<Rightarrow> string \<Rightarrow> outcome option" where
  "error_0 K sc s = error_1 K sc (ascii s) None"

definition error_at :: "globals \<Rightarrow> scheme \<Rightarrow> string \<Rightarrow> addr \<Rightarrow> outcome option" where
  "error_at K sc s a = error_1 K sc (ascii s) (Some a)"

text \<open>The syntactic form a \<open>Syntax\<close> symbol stands for: \<open>syntaxnum\<close> looks at single characters of the name.\<close>

definition syntaxnum :: "store \<Rightarrow> addr \<Rightarrow> opcode option" where
  "syntaxnum h p =
     do { q \<leftarrow> car h p;
          (case h_cell h q of
             String b n \<Rightarrow>
               (let s = (\<lambda>i c. h_buf h b ! i = chr c) in
                if n = 2 then Some (if s 0 CHR ''i'' then O0 OP_IF0 else O1 OP_OR0)
                else if n = 3 then Some (if s 0 CHR ''a'' then O1 OP_AND0 else O0 OP_LET0)
                else if n = 4 then
                  Some (if s 3 CHR ''e'' then O1 OP_CASE0 else if s 3 CHR ''d'' then O1 OP_COND0
                        else if s 3 CHR ''*'' then O0 OP_LET0AST else O0 OP_SET0)
                else if n = 5 then
                  Some (if s 2 CHR ''g'' then O0 OP_BEGIN else if s 2 CHR ''l'' then O1 OP_DELAY
                        else if s 2 CHR ''c'' then O1 OP_MACRO0 else O0 OP_QUOTE)
                else if n = 6 then
                  Some (if s 2 CHR ''m'' then O0 OP_LAMBDA else if s 2 CHR ''f'' then O0 OP_DEF0
                        else O1 OP_LET0REC)
                else Some (O1 OP_C0STREAM))
           | _ \<Rightarrow> None) }"

end
