(* ===== verification/Scheme_Eval.thy ===== *)
theory Scheme_Eval
  imports Scheme_Machine
begin

text \<open>
  The operations of the evaluator, one definition per opcode: \<open>opexe_0\<close> and \<open>opexe_1\<close> of
  src/src/Scheme.cpp without the operations that read and print. Each takes the registers and
  gives the outcome; \<open>None\<close> is undefined behaviour or a loop that does not end.
\<close>

section \<open>Evaluation and application\<close>

definition op_eval :: "globals \<Rightarrow> scheme \<Rightarrow> outcome option" where
  "op_eval K sc =
     (let h = heap sc; code = r_code sc in
      if is_symbol h code then
        do { x \<leftarrow> find_slot_in_env h (r_envir sc) code True;
             if x \<noteq> NIL then do { v \<leftarrow> slot_value_in_env h x; Some (s_return sc v) }
             else do { name \<leftarrow> symname h code;
                       (h1, valid) \<leftarrow> llvm_check_valid_dot_symbol h (k_oblist K) (r_envir sc) name;
                       let sc1 = sc\<lparr>heap := h1\<rparr>;
                       if valid then Some (s_return sc1 code)
                       else error_at K sc1 ''eval: unbound variable:'' code } }
      else if is_pair h code then
        do { x \<leftarrow> car h code;
             if is_syntax h x then
               do { d \<leftarrow> cdr h code; oc \<leftarrow> syntaxnum h x; Some (s_goto (sc\<lparr>r_code := d\<rparr>) oc) }
             else Some (eval_in (s_save (O0 OP_E0ARGS) NIL code sc) x) }
      else Some (s_return sc code))"

definition op_e0args :: "scheme \<Rightarrow> outcome option" where
  "op_e0args sc =
     (if is_macro (heap sc) (r_value sc) then
        let sc1 = s_save (O0 OP_DOMACRO) (r_code sc) NIL sc;
            (h1, a) = cons (heap sc1) (r_code sc1) NIL
        in Some (s_goto (sc1\<lparr>heap := h1, r_args := a, r_code := r_value sc\<rparr>) (O0 OP_APPLY))
      else do { d \<leftarrow> cdr (heap sc) (r_code sc); Some (s_goto (sc\<lparr>r_code := d\<rparr>) (O0 OP_E1ARGS)) })"

definition op_e1args :: "scheme \<Rightarrow> outcome option" where
  "op_e1args sc =
     (let (h1, a) = cons (heap sc) (r_value sc) (r_args sc); sc1 = sc\<lparr>heap := h1, r_args := a\<rparr> in
      if is_pair h1 (r_code sc1) then
        do { d \<leftarrow> cdr h1 (r_code sc1); c \<leftarrow> car h1 (r_code sc1);
             Some (eval_in ((s_save (O0 OP_E1ARGS) a d sc1)\<lparr>r_args := NIL\<rparr>) c) }
      else
        do { (h2, l) \<leftarrow> reverse_in_place h1 NIL a;
             f \<leftarrow> car h2 l; rest \<leftarrow> cdr h2 l;
             Some (s_goto (sc1\<lparr>heap := h2, r_code := f, r_args := rest\<rparr>) (O0 OP_APPLY)) })"

text \<open>
  The loop that binds the parameters of a closure: it ends at the end of the parameters, with what is left
  of both lists, or (\<open>None\<close> inside) when the arguments are used up.
\<close>

partial_function (option) bind_params :: "store \<Rightarrow> addr \<Rightarrow> addr \<Rightarrow> addr \<Rightarrow> (store \<times> (addr \<times> addr) option) option" where
  "bind_params h envir x y =
     (if is_pair h x then
        if y = NIL then Some (h, None)
        else do { p \<leftarrow> car h x; a \<leftarrow> car h y;
                  h1 \<leftarrow> new_slot_spec_in_env h envir p a;
                  x1 \<leftarrow> cdr h1 x; y1 \<leftarrow> cdr h1 y;
                  bind_params h1 envir x1 y1 }
      else Some (h, Some (x, y)))"

definition apply_closure :: "globals \<Rightarrow> scheme \<Rightarrow> outcome option" where
  "apply_closure K sc =
     do { ccode \<leftarrow> car (heap sc) (r_code sc); cenv \<leftarrow> cdr (heap sc) (r_code sc);
          let (h1, e) = new_frame_in_env (heap sc) cenv;
          ps \<leftarrow> car h1 ccode;
          (h2, r) \<leftarrow> bind_params h1 e ps (r_args sc);
          let sc2 = sc\<lparr>heap := h2, r_envir := e\<rparr>;
          (case r of
             None \<Rightarrow> error_at K sc2 ''not enough arguments calling: '' (r_args sc)
           | Some (x, y) \<Rightarrow>
               if x \<noteq> NIL \<and> \<not> is_symbol h2 x then
                 error_at K sc2 ''syntax error in closure: not a symbol:'' x
               else do { h3 \<leftarrow> (if x = NIL then Some h2 else new_slot_spec_in_env h2 e x y);
                         body \<leftarrow> cdr h3 ccode;
                         Some (s_goto (sc\<lparr>heap := h3, r_envir := e, r_code := body, r_args := NIL\<rparr>) (O0 OP_BEGIN)) }) }"

definition op_apply :: "globals \<Rightarrow> scheme \<Rightarrow> outcome option" where
  "op_apply K sc =
     (let h = heap sc; f = r_code sc in
      case h_cell h f of
        Proc oc \<Rightarrow> Some (s_goto sc oc)
      | Foreign i \<Rightarrow> do { r \<leftarrow> k_foreign K i h (r_args sc); Some (return_new sc r) }
      | Closure _ _ \<Rightarrow> apply_closure K sc
      | Macro _ _ \<Rightarrow> apply_closure K sc
      | Promise _ _ \<Rightarrow> apply_closure K sc
      | Continuation _ d \<Rightarrow>
          do { sc1 \<leftarrow> dump_stack_continuation_set K sc d;
               v \<leftarrow> (if r_args sc \<noteq> NIL then car (heap sc1) (r_args sc) else Some NIL);
               Some (s_return sc1 v) }
      | _ \<Rightarrow>
          if \<not> is_symbol h f then Some (Throw ''Attempting to return a string from non-symbol obj'' f sc)
          else do { name \<leftarrow> symname h f;
                    (h1, valid) \<leftarrow> llvm_check_valid_dot_symbol h (k_oblist K) (r_envir sc) name;
                    if valid then do { r \<leftarrow> k_llvm_env_set K h1 name; Some (return_new sc r) }
                    else error_0 K (sc\<lparr>heap := h1\<rparr>) ''illegal function'' })"

text \<open>
  \<open>OP_DOMACRO\<close> also sets the \<open>_size\<close> of the expansion to that of the call form, a position in the source
  for messages. In a vector \<open>_size\<close> is the length: for a macro that expands to a vector the model, which
  does not keep positions, has no result.
\<close>

definition op_domacro :: "scheme \<Rightarrow> outcome option" where
  "op_domacro sc = (if is_vector (heap sc) (r_value sc) then None else Some (eval_in sc (r_value sc)))"

definition op_lambda :: "scheme \<Rightarrow> outcome option" where
  "op_lambda sc = Some (return_new sc (mk_closure (heap sc) (r_code sc) (r_envir sc)))"

definition op_mkclosure :: "globals \<Rightarrow> scheme \<Rightarrow> outcome option" where
  "op_mkclosure K sc =
     do { let h = heap sc;
          x \<leftarrow> car h (r_args sc); a \<leftarrow> car h x;
          c \<leftarrow> (if a = k_LAMBDA K then cdr h x else Some x);
          d \<leftarrow> cdr h (r_args sc);
          e \<leftarrow> (if d = NIL then Some (r_envir sc) else cadr h (r_args sc));
          Some (return_new sc (mk_closure h c e)) }"

definition op_quote :: "scheme \<Rightarrow> outcome option" where
  "op_quote sc = do { x \<leftarrow> car (heap sc) (r_code sc); Some (s_return sc x) }"

section \<open>Definitions and assignment\<close>

text \<open>Whether \<open>atom2str\<close> gives the empty string: for an empty string or name and for the character 0.\<close>

definition prints_empty :: "store \<Rightarrow> addr \<Rightarrow> bool option" where
  "prints_empty h p =
     (case h_cell h p of
        String b _ \<Rightarrow> Some (c_str h b = [])
      | Character c \<Rightarrow> Some (c mod 256 = 0)
      | _ \<Rightarrow> if is_symbol h p then do { n \<leftarrow> symname h p; Some (n = []) } else Some False)"

text \<open>
  \<open>define\<close>: for \<open>(define (f . params) . body)\<close> a lambda expression is made. Otherwise, when the value
  expression is a pair, the text of its second element gets another text inserted at position 1,
  which \<open>std::string::insert\<close> refuses for the empty text. For a name that is no symbol, that
  branch reads the name of something else.
\<close>

definition op_def0 :: "globals \<Rightarrow> scheme \<Rightarrow> outcome option" where
  "op_def0 K sc =
     do { let h = heap sc; let code = r_code sc;
          a \<leftarrow> car h code;
          (sc1, x, crash) \<leftarrow>
            (if is_pair h a then
               do { x \<leftarrow> car h a; params \<leftarrow> cdr h a; body \<leftarrow> cdr h code;
                    let (h1, p) = cons h params body;
                    let (h2, c) = cons h1 (k_LAMBDA K) p;
                    Some (sc\<lparr>heap := h2, r_code := c\<rparr>, x, False) }
             else
               do { c \<leftarrow> cadr h code;
                    crash \<leftarrow> (if is_pair h c then do { s \<leftarrow> cadr h c; n \<leftarrow> symname h a; prints_empty h s } else Some False);
                    Some (sc\<lparr>r_code := c\<rparr>, a, crash) });
          if crash then Some (Exception sc1)
          else if \<not> is_symbol (heap sc1) x then error_at K sc1 ''variable is not a symbol'' x
          else Some (s_goto (s_save (O0 OP_DEF1) NIL x sc1) (O0 OP_EVAL)) }"

text \<open>\<open>OP_DEF1\<close> and \<open>OP_MACRO1\<close>: set the slot of the innermost frame, or make one.\<close>

definition define_here :: "store \<Rightarrow> addr \<Rightarrow> addr \<Rightarrow> addr \<Rightarrow> store option" where
  "define_here h envir name v =
     do { x \<leftarrow> find_slot_in_env h envir name False;
          if x \<noteq> NIL then set_slot_in_env h x v else new_slot_spec_in_env h envir name v }"

definition op_def1 :: "scheme \<Rightarrow> outcome option" where
  "op_def1 sc =
     do { h1 \<leftarrow> define_here (heap sc) (r_envir sc) (r_code sc) (r_value sc);
          Some (s_return (sc\<lparr>heap := h1\<rparr>) (r_code sc)) }"

definition op_defp :: "scheme \<Rightarrow> outcome option" where
  "op_defp sc =
     do { let h = heap sc; d \<leftarrow> cdr h (r_args sc);
          e \<leftarrow> (if d \<noteq> NIL then cadr h (r_args sc) else Some (r_envir sc));
          a \<leftarrow> car h (r_args sc);
          x \<leftarrow> find_slot_in_env h e a True;
          Some (s_retbool sc (x \<noteq> NIL)) }"

definition op_set0 :: "scheme \<Rightarrow> outcome option" where
  "op_set0 sc =
     do { x \<leftarrow> car (heap sc) (r_code sc); c \<leftarrow> cadr (heap sc) (r_code sc);
          Some (eval_in (s_save (O0 OP_SET1) NIL x sc) c) }"

definition op_set1 :: "globals \<Rightarrow> scheme \<Rightarrow> outcome option" where
  "op_set1 K sc =
     do { y \<leftarrow> find_slot_in_env (heap sc) (r_envir sc) (r_code sc) True;
          if y \<noteq> NIL then
            do { h1 \<leftarrow> set_slot_in_env (heap sc) y (r_value sc); Some (s_return (sc\<lparr>heap := h1\<rparr>) (r_value sc)) }
          else error_0 K sc ''set!: unbound variable:'' }"

section \<open>Sequences, conditionals, let\<close>

definition op_begin :: "scheme \<Rightarrow> outcome option" where
  "op_begin sc =
     (if \<not> is_pair (heap sc) (r_code sc) then Some (s_return sc (r_code sc))
      else do { d \<leftarrow> cdr (heap sc) (r_code sc); c \<leftarrow> car (heap sc) (r_code sc);
                let sc1 = (if d \<noteq> NIL then s_save (O0 OP_BEGIN) NIL d sc else sc);
                Some (eval_in sc1 c) })"

definition op_if0 :: "scheme \<Rightarrow> outcome option" where
  "op_if0 sc =
     do { d \<leftarrow> cdr (heap sc) (r_code sc); c \<leftarrow> car (heap sc) (r_code sc);
          Some (eval_in (s_save (O0 OP_IF1) NIL d sc) c) }"

definition op_if1 :: "scheme \<Rightarrow> outcome option" where
  "op_if1 sc =
     do { c \<leftarrow> (if is_true (r_value sc) then car (heap sc) (r_code sc) else cadr (heap sc) (r_code sc));
          Some (eval_in sc c) }"

text \<open>The bindings of a \<open>let\<close>: the second element of \<open>(let name bindings . body)\<close>, else the first.\<close>

definition let_bindings :: "store \<Rightarrow> addr \<Rightarrow> addr option" where
  "let_bindings h code = do { a \<leftarrow> car h code; if is_symbol h a then cadr h code else Some a }"

definition op_let0 :: "scheme \<Rightarrow> outcome option" where
  "op_let0 sc =
     do { b \<leftarrow> let_bindings (heap sc) (r_code sc);
          Some (s_goto (sc\<lparr>r_args := NIL, r_value := r_code sc, r_code := b\<rparr>) (O0 OP_LET1)) }"

definition op_let1 :: "globals \<Rightarrow> scheme \<Rightarrow> outcome option" where
  "op_let1 K sc =
     (let (h1, a) = cons (heap sc) (r_value sc) (r_args sc); sc1 = sc\<lparr>heap := h1, r_args := a\<rparr> in
      if is_pair h1 (r_code sc1) then
        do { d \<leftarrow> cdr h1 (r_code sc1); b \<leftarrow> car h1 (r_code sc1);
             let sc2 = (s_save (O0 OP_LET1) a d sc1)\<lparr>r_code := b\<rparr>;
             if \<not> is_pair h1 b then error_0 K sc2 ''Scm Error: Poorly formed let!''
             else do { c \<leftarrow> cadr h1 b; Some (eval_in (sc2\<lparr>r_args := NIL\<rparr>) c) } }
      else
        do { (h2, l) \<leftarrow> reverse_in_place h1 NIL a;
             c \<leftarrow> car h2 l; rest \<leftarrow> cdr h2 l;
             Some (s_goto (sc1\<lparr>heap := h2, r_code := c, r_args := rest\<rparr>) (O0 OP_LET2)) })"

partial_function (option) bind_let :: "store \<Rightarrow> addr \<Rightarrow> addr \<Rightarrow> addr \<Rightarrow> store option" where
  "bind_let h envir x y =
     (if y = NIL then Some h
      else do { p \<leftarrow> caar h x; a \<leftarrow> car h y;
                h1 \<leftarrow> new_slot_spec_in_env h envir p a;
                x1 \<leftarrow> cdr h1 x; y1 \<leftarrow> cdr h1 y;
                bind_let h1 envir x1 y1 })"

partial_function (option) let_names :: "store \<Rightarrow> addr \<Rightarrow> addr \<Rightarrow> (store \<times> addr) option" where
  "let_names h x a =
     (if x = NIL then Some (h, a)
      else do { p \<leftarrow> caar h x; let (h1, a1) = cons h p a; x1 \<leftarrow> cdr h1 x; let_names h1 x1 a1 })"

definition op_let2 :: "globals \<Rightarrow> scheme \<Rightarrow> outcome option" where
  "op_let2 K sc =
     do { let code = r_code sc; let (h1, e) = new_frame_in_env (heap sc) (r_envir sc);
          b \<leftarrow> let_bindings h1 code;
          h2 \<leftarrow> bind_let h1 e b (r_args sc);
          let sc2 = sc\<lparr>heap := h2, r_envir := e\<rparr>;
          a \<leftarrow> car h2 code;
          if is_symbol h2 a then
            do { bs \<leftarrow> cadr h2 code;
                 if \<not> is_pair h2 bs then error_0 K sc2 ''Scm Error: Poorly formed named let!''
                 else do { (h3, ns) \<leftarrow> let_names h2 bs NIL;
                           (h4, ns1) \<leftarrow> reverse_in_place h3 NIL ns;
                           body \<leftarrow> cddr h4 code;
                           let (h5, c) = cons h4 ns1 body;
                           let (h6, f) = mk_closure h5 c e;
                           h7 \<leftarrow> new_slot_spec_in_env h6 e a f;
                           Some (s_goto (sc2\<lparr>heap := h7, r_code := body, r_args := NIL\<rparr>) (O0 OP_BEGIN)) } }
          else do { body \<leftarrow> cdr h2 code;
                    Some (s_goto (sc2\<lparr>r_code := body, r_args := NIL\<rparr>) (O0 OP_BEGIN)) } }"

definition op_let0ast :: "globals \<Rightarrow> scheme \<Rightarrow> outcome option" where
  "op_let0ast K sc =
     do { let h = heap sc; a \<leftarrow> car h (r_code sc); d \<leftarrow> cdr h (r_code sc);
          if a = NIL then
            (let (h1, e) = new_frame_in_env h (r_envir sc)
             in Some (s_goto (sc\<lparr>heap := h1, r_envir := e, r_code := d\<rparr>) (O0 OP_BEGIN)))
          else do { let sc1 = s_save (O0 OP_LET1AST) d a sc;
                    if \<not> is_pair h a then error_0 K sc1 ''Let* cannot be used for a named let!''
                    else do { c \<leftarrow> cadaar h (r_code sc); Some (eval_in sc1 c) } } }"

definition op_let1ast :: "scheme \<Rightarrow> outcome option" where
  "op_let1ast sc =
     (let (h1, e) = new_frame_in_env (heap sc) (r_envir sc)
      in Some (s_goto (sc\<lparr>heap := h1, r_envir := e\<rparr>) (O0 OP_LET2AST)))"

definition op_let2ast :: "scheme \<Rightarrow> outcome option" where
  "op_let2ast sc =
     do { p \<leftarrow> caar (heap sc) (r_code sc);
          h1 \<leftarrow> new_slot_spec_in_env (heap sc) (r_envir sc) p (r_value sc);
          d \<leftarrow> cdr h1 (r_code sc);
          let sc1 = sc\<lparr>heap := h1, r_code := d\<rparr>;
          if is_pair h1 d then
            do { c \<leftarrow> cadar h1 d; Some (eval_in ((s_save (O0 OP_LET2AST) (r_args sc) d sc1)\<lparr>r_args := NIL\<rparr>) c) }
          else Some (s_goto (sc1\<lparr>r_code := r_args sc, r_args := NIL\<rparr>) (O0 OP_BEGIN)) }"

section \<open>The top level\<close>

text \<open>
  The loop that reads, evaluates and (not interactively) prints: a frame for the next round, one for printing and one for
  evaluating what is read. Loading files, tracing and the interactive prompt are left out.
\<close>

definition op_t0lvl :: "globals \<Rightarrow> scheme \<Rightarrow> outcome option" where
  "op_t0lvl K sc =
     (let h = (heap sc)\<lparr>h_save_inport := h_inport (heap sc), h_inport := h_loadport (heap sc)\<rparr>;
          sc1 = sc\<lparr>heap := h, r_dump := [], r_envir := k_global_env K\<rparr>;
          sc2 = s_save (O0 OP_T1LVL) NIL NIL (s_save (O0 OP_VALUEPRINT) NIL NIL (s_save (O0 OP_T0LVL) NIL NIL sc1))
      in Some (s_goto sc2 (O0 OP_READ_INTERNAL)))"

definition op_t1lvl :: "scheme \<Rightarrow> outcome option" where
  "op_t1lvl sc =
     Some (s_goto (sc\<lparr>heap := (heap sc)\<lparr>h_inport := h_save_inport (heap sc)\<rparr>, r_code := r_value sc\<rparr>) (O0 OP_EVAL))"

definition op_read_internal :: "scheme \<Rightarrow> outcome option" where
  "op_read_internal sc =
     do { (h, t) \<leftarrow> read_token (heap sc);
          let sc1 = sc\<lparr>heap := h\<lparr>h_tok := t\<rparr>\<rparr>;
          if t = TOK_EOF then
            (if h_inport h = h_loadport h then Some (s_goto (sc1\<lparr>r_args := NIL\<rparr>) (O4 OP_QUIT))
             else Some (s_return sc1 EOF_OBJ))
          else Some (s_goto sc1 (O5 OP_RDSEXPR)) }"

fun opexe_0 :: "globals \<Rightarrow> op0 \<Rightarrow> scheme \<Rightarrow> outcome option" where
  "opexe_0 K OP_LOAD sc = None"
| "opexe_0 K OP_T0LVL sc = op_t0lvl K sc"
| "opexe_0 K OP_T1LVL sc = op_t1lvl sc"
| "opexe_0 K OP_READ_INTERNAL sc = op_read_internal sc"
| "opexe_0 K OP_VALUEPRINT sc = Some (s_return sc (r_value sc))"
| "opexe_0 K OP_REAL_EVAL sc = op_eval K sc"
| "opexe_0 K OP_REAL_APPLY sc = op_apply K sc"
| "opexe_0 K OP_TRACING sc = None"
| "opexe_0 K OP_GENSYM sc = Some (return_new sc (gensym (heap sc)))"
| "opexe_0 K OP_EVAL sc = op_eval K sc"
| "opexe_0 K OP_E0ARGS sc = op_e0args sc"
| "opexe_0 K OP_E1ARGS sc = op_e1args sc"
| "opexe_0 K OP_APPLY sc = op_apply K sc"
| "opexe_0 K OP_DOMACRO sc = op_domacro sc"
| "opexe_0 K OP_LAMBDA sc = op_lambda sc"
| "opexe_0 K OP_MKCLOSURE sc = op_mkclosure K sc"
| "opexe_0 K OP_QUOTE sc = op_quote sc"
| "opexe_0 K OP_DEF0 sc = op_def0 K sc"
| "opexe_0 K OP_DEF1 sc = op_def1 sc"
| "opexe_0 K OP_DEFP sc = op_defp sc"
| "opexe_0 K OP_BEGIN sc = op_begin sc"
| "opexe_0 K OP_IF0 sc = op_if0 sc"
| "opexe_0 K OP_IF1 sc = op_if1 sc"
| "opexe_0 K OP_SET0 sc = op_set0 sc"
| "opexe_0 K OP_SET1 sc = op_set1 K sc"
| "opexe_0 K OP_LET0 sc = op_let0 sc"
| "opexe_0 K OP_LET1 sc = op_let1 K sc"
| "opexe_0 K OP_LET2 sc = op_let2 K sc"
| "opexe_0 K OP_LET0AST sc = op_let0ast K sc"
| "opexe_0 K OP_LET1AST sc = op_let1ast sc"
| "opexe_0 K OP_LET2AST sc = op_let2ast sc"

end
