(* ===== verification/Scheme_Forms.thy ===== *)
theory Scheme_Forms
  imports Scheme_Eval
begin

text \<open>
  \<open>opexe_1\<close> of src/src/Scheme.cpp: \<open>letrec\<close>, \<open>cond\<close>, \<open>delay\<close>, \<open>and\<close>, \<open>or\<close>, \<open>cons-stream\<close>, \<open>macro\<close>, \<open>case\<close>, \<open>apply\<close>,
  \<open>eval\<close> and \<open>call-with-current-continuation\<close>; and the operations on promises.
\<close>

section \<open>letrec\<close>

definition op_let0rec :: "scheme \<Rightarrow> outcome option" where
  "op_let0rec sc =
     do { let (h1, e) = new_frame_in_env (heap sc) (r_envir sc);
          b \<leftarrow> car h1 (r_code sc);
          Some (s_goto (sc\<lparr>heap := h1, r_envir := e, r_args := NIL, r_value := r_code sc, r_code := b\<rparr>)
                  (O1 OP_LET1REC)) }"

definition op_let1rec :: "scheme \<Rightarrow> outcome option" where
  "op_let1rec sc =
     (let (h1, a) = cons (heap sc) (r_value sc) (r_args sc); sc1 = sc\<lparr>heap := h1, r_args := a\<rparr> in
      if is_pair h1 (r_code sc1) then
        do { d \<leftarrow> cdr h1 (r_code sc1); c \<leftarrow> cadar h1 (r_code sc1);
             Some (eval_in ((s_save (O1 OP_LET1REC) a d sc1)\<lparr>r_args := NIL\<rparr>) c) }
      else
        do { (h2, l) \<leftarrow> reverse_in_place h1 NIL a;
             c \<leftarrow> car h2 l; rest \<leftarrow> cdr h2 l;
             Some (s_goto (sc1\<lparr>heap := h2, r_code := c, r_args := rest\<rparr>) (O1 OP_LET2REC)) })"

definition op_let2rec :: "scheme \<Rightarrow> outcome option" where
  "op_let2rec sc =
     do { x \<leftarrow> car (heap sc) (r_code sc);
          h1 \<leftarrow> bind_let (heap sc) (r_envir sc) x (r_args sc);
          d \<leftarrow> cdr h1 (r_code sc);
          Some (s_goto (sc\<lparr>heap := h1, r_code := d, r_args := NIL\<rparr>) (O0 OP_BEGIN)) }"

section \<open>cond, and, or, case\<close>

definition op_cond0 :: "globals \<Rightarrow> scheme \<Rightarrow> outcome option" where
  "op_cond0 K sc =
     (if \<not> is_pair (heap sc) (r_code sc) then error_0 K sc ''syntax error in cond''
      else do { c \<leftarrow> caar (heap sc) (r_code sc); Some (eval_in (s_save (O1 OP_COND1) NIL (r_code sc) sc) c) })"

definition op_cond1 :: "globals \<Rightarrow> scheme \<Rightarrow> outcome option" where
  "op_cond1 K sc =
     (let h = heap sc in
      if is_true (r_value sc) then
        do { c \<leftarrow> cdar h (r_code sc);
             let sc1 = sc\<lparr>r_code := c\<rparr>;
             if c = NIL then Some (s_return sc1 (r_value sc))
             else do { a \<leftarrow> car h c;
               if a = k_FEED_TO K then
                 do { d \<leftarrow> cdr h c;
                      if \<not> is_pair h d then error_0 K sc1 ''syntax error in cond''
                      else do { let (h1, q) = quote_list K h (r_value sc);
                                let (h2, p) = cons h1 q NIL;
                                f \<leftarrow> cadr h2 c;
                                let (h3, e) = cons h2 f p;
                                Some (eval_in (sc1\<lparr>heap := h3\<rparr>) e) } }
               else Some (s_goto sc1 (O0 OP_BEGIN)) } }
      else
        do { c \<leftarrow> cdr h (r_code sc);
             let sc1 = sc\<lparr>r_code := c\<rparr>;
             if c = NIL then Some (s_return sc1 NIL)
             else do { e \<leftarrow> caar h c; Some (eval_in (s_save (O1 OP_COND1) NIL c sc1) e) } })"

definition op_and0 :: "scheme \<Rightarrow> outcome option" where
  "op_and0 sc =
     (if r_code sc = NIL then Some (s_return sc T_OBJ)
      else do { d \<leftarrow> cdr (heap sc) (r_code sc); c \<leftarrow> car (heap sc) (r_code sc);
                Some (eval_in (s_save (O1 OP_AND1) NIL d sc) c) })"

definition op_and1 :: "scheme \<Rightarrow> outcome option" where
  "op_and1 sc =
     (if \<not> is_true (r_value sc) then Some (s_return sc (r_value sc))
      else if r_code sc = NIL then Some (s_return sc (r_value sc))
      else do { d \<leftarrow> cdr (heap sc) (r_code sc); c \<leftarrow> car (heap sc) (r_code sc);
                Some (eval_in (s_save (O1 OP_AND1) NIL d sc) c) })"

definition op_or0 :: "scheme \<Rightarrow> outcome option" where
  "op_or0 sc =
     (if r_code sc = NIL then Some (s_return sc F_OBJ)
      else do { d \<leftarrow> cdr (heap sc) (r_code sc); c \<leftarrow> car (heap sc) (r_code sc);
                Some (eval_in (s_save (O1 OP_OR1) NIL d sc) c) })"

definition op_or1 :: "scheme \<Rightarrow> outcome option" where
  "op_or1 sc =
     (if is_true (r_value sc) then Some (s_return sc (r_value sc))
      else if r_code sc = NIL then Some (s_return sc (r_value sc))
      else do { d \<leftarrow> cdr (heap sc) (r_code sc); c \<leftarrow> car (heap sc) (r_code sc);
                Some (eval_in (s_save (O1 OP_OR1) NIL d sc) c) })"

definition op_case0 :: "scheme \<Rightarrow> outcome option" where
  "op_case0 sc =
     do { d \<leftarrow> cdr (heap sc) (r_code sc); c \<leftarrow> car (heap sc) (r_code sc);
          Some (eval_in (s_save (O1 OP_CASE1) NIL d sc) c) }"

partial_function (option) eqv_member :: "store \<Rightarrow> addr \<Rightarrow> addr \<Rightarrow> bool option" where
  "eqv_member h y v =
     (if y = NIL then Some False
      else do { a \<leftarrow> car h y; if eqv h a v then Some True else do { d \<leftarrow> cdr h y; eqv_member h d v } })"

text \<open>The clause \<open>case\<close> takes (NIL for none); \<open>Inl\<close> is the clause of the syntax error.\<close>

partial_function (option) case_clause :: "store \<Rightarrow> addr \<Rightarrow> addr \<Rightarrow> (addr + addr) option" where
  "case_clause h x v =
     (if x = NIL then Some (Inr NIL)
      else do { y \<leftarrow> caar h x;
                if \<not> is_pair h y then
                  (if is_symbol h y then
                     do { n \<leftarrow> symname h y;
                          if n = ascii ''else'' then Some (Inr x) else do { c \<leftarrow> car h x; Some (Inl c) } }
                   else do { c \<leftarrow> car h x; Some (Inl c) })
                else do { found \<leftarrow> eqv_member h y v;
                          if found then Some (Inr x) else do { d \<leftarrow> cdr h x; case_clause h d v } } })"

definition op_case1 :: "globals \<Rightarrow> scheme \<Rightarrow> outcome option" where
  "op_case1 K sc =
     do { let h = heap sc;
          r \<leftarrow> case_clause h (r_code sc) (r_value sc);
          (case r of
             Inl c \<Rightarrow>
               error_at K sc ''Syntax Error: Case clause must have the form ((<datum1> ...) <exp1> <exp2> ...) not'' c
           | Inr x \<Rightarrow>
               if x \<noteq> NIL then
                 do { y \<leftarrow> caar h x; d \<leftarrow> cdar h x;
                      if is_pair h y then Some (s_goto (sc\<lparr>r_code := d\<rparr>) (O0 OP_BEGIN))
                      else Some (eval_in (s_save (O1 OP_CASE2) NIL d sc) y) }
               else Some (s_return sc NIL)) }"

definition op_case2 :: "scheme \<Rightarrow> outcome option" where
  "op_case2 sc = Some (if is_true (r_value sc) then s_goto sc (O0 OP_BEGIN) else s_return sc NIL)"

section \<open>Promises, streams, macros\<close>

text \<open>
  Changing the type flag of a cell keeps its two fields; the immutable flag is cleared with the rest.
\<close>

definition set_type :: "(addr \<Rightarrow> addr \<Rightarrow> cell) \<Rightarrow> store \<Rightarrow> addr \<Rightarrow> store option" where
  "set_type T h p =
     do { (a, d) \<leftarrow> cell_fields p (h_cell h p);
          Some ((put_cell h p (T a d))\<lparr>h_immutable := (h_immutable h)(p := False)\<rparr>) }"

definition mk_promise :: "store \<Rightarrow> addr \<Rightarrow> addr \<Rightarrow> (store \<times> addr) option" where
  "mk_promise h c e =
     (let (h1, p) = cons h NIL c; (h2, x) = mk_closure h1 p e
      in do { h3 \<leftarrow> set_type Promise h2 x; Some (h3, x) })"

definition op_delay :: "scheme \<Rightarrow> outcome option" where
  "op_delay sc = do { r \<leftarrow> mk_promise (heap sc) (r_code sc) (r_envir sc); Some (return_new sc r) }"

definition op_c0stream :: "scheme \<Rightarrow> outcome option" where
  "op_c0stream sc =
     do { d \<leftarrow> cdr (heap sc) (r_code sc); c \<leftarrow> car (heap sc) (r_code sc);
          Some (eval_in (s_save (O1 OP_C1STREAM) NIL d sc) c) }"

definition op_c1stream :: "scheme \<Rightarrow> outcome option" where
  "op_c1stream sc =
     do { (h1, x) \<leftarrow> mk_promise (heap sc) (r_code sc) (r_envir sc);
          Some (return_new (sc\<lparr>r_args := r_value sc\<rparr>) (cons h1 (r_value sc) x)) }"

definition op_force :: "scheme \<Rightarrow> outcome option" where
  "op_force sc =
     do { p \<leftarrow> car (heap sc) (r_args sc);
          let sc1 = sc\<lparr>r_code := p\<rparr>;
          if is_promise (heap sc) p then
            Some (s_goto ((s_save (O4 OP_SAVE_FORCED) NIL p sc1)\<lparr>r_args := NIL\<rparr>) (O0 OP_APPLY))
          else Some (s_return sc1 p) }"

text \<open>
  \<open>memcpy\<close> of a whole cell over another. A copy of NIL, T or F is a cell without a type whose fields point to the
  original. (The list links of the collector, which are copied too, are not part of this store.)
\<close>

definition memcpy_cell :: "store \<Rightarrow> addr \<Rightarrow> addr \<Rightarrow> store" where
  "memcpy_cell h p q =
     (if p = q then h
      else (put_cell h p (if h_cell h q = Atom then Blank q q else h_cell h q))
             \<lparr>h_immutable := (h_immutable h)(p := h_immutable h q)\<rparr>)"

definition op_save_forced :: "scheme \<Rightarrow> outcome option" where
  "op_save_forced sc =
     Some (s_return (sc\<lparr>heap := memcpy_cell (heap sc) (r_code sc) (r_value sc)\<rparr>) (r_value sc))"

definition op_macro0 :: "globals \<Rightarrow> scheme \<Rightarrow> outcome option" where
  "op_macro0 K sc =
     do { let h = heap sc; a \<leftarrow> car h (r_code sc);
          (sc1, x) \<leftarrow>
            (if is_pair h a then
               do { x \<leftarrow> car h a; params \<leftarrow> cdr h a; body \<leftarrow> cdr h (r_code sc);
                    let (h1, p) = cons h params body;
                    let (h2, c) = cons h1 (k_LAMBDA K) p;
                    Some (sc\<lparr>heap := h2, r_code := c\<rparr>, x) }
             else do { c \<leftarrow> cadr h (r_code sc); Some (sc\<lparr>r_code := c\<rparr>, a) });
          if \<not> is_symbol (heap sc1) x then error_at K sc1 ''variable is not a symbol'' x
          else Some (s_goto (s_save (O1 OP_MACRO1) NIL x sc1) (O0 OP_EVAL)) }"

definition op_macro1 :: "scheme \<Rightarrow> outcome option" where
  "op_macro1 sc =
     do { h1 \<leftarrow> set_type Macro (heap sc) (r_value sc);
          h2 \<leftarrow> define_here h1 (r_envir sc) (r_code sc) (r_value sc);
          Some (s_return (sc\<lparr>heap := h2\<rparr>) (r_code sc)) }"

section \<open>apply, eval, call/cc\<close>

definition op_papply :: "globals \<Rightarrow> scheme \<Rightarrow> outcome option" where
  "op_papply K sc =
     do { f \<leftarrow> car (heap sc) (r_args sc); d \<leftarrow> cdr (heap sc) (r_args sc);
          (h1, a) \<leftarrow> list_star (heap sc) d;
          let sc1 = sc\<lparr>heap := h1, r_code := f, r_args := a\<rparr>;
          if \<not> is_pair h1 a \<and> a \<noteq> NIL then
            error_at K sc1 ''Error: Apply must finish with a string argument! not:'' a
          else Some (s_goto sc1 (O0 OP_APPLY)) }"

definition op_peval :: "scheme \<Rightarrow> outcome option" where
  "op_peval sc =
     do { c \<leftarrow> car (heap sc) (r_args sc); d \<leftarrow> cdr (heap sc) (r_args sc);
          e \<leftarrow> (if d \<noteq> NIL then cadr (heap sc) (r_args sc) else Some (r_envir sc));
          Some (eval_in (sc\<lparr>r_envir := e\<rparr>) c) }"

definition op_continuation :: "globals \<Rightarrow> scheme \<Rightarrow> outcome option" where
  "op_continuation K sc =
     do { f \<leftarrow> car (heap sc) (r_args sc);
          (h1, k) \<leftarrow> mk_continuation K (sc\<lparr>r_code := f\<rparr>);
          let (h2, a) = cons h1 k NIL;
          Some (s_goto (sc\<lparr>heap := h2, r_code := f, r_args := a\<rparr>) (O0 OP_APPLY)) }"

fun opexe_1 :: "globals \<Rightarrow> op1 \<Rightarrow> scheme \<Rightarrow> outcome option" where
  "opexe_1 K OP_LET0REC sc = op_let0rec sc"
| "opexe_1 K OP_LET1REC sc = op_let1rec sc"
| "opexe_1 K OP_LET2REC sc = op_let2rec sc"
| "opexe_1 K OP_COND0 sc = op_cond0 K sc"
| "opexe_1 K OP_COND1 sc = op_cond1 K sc"
| "opexe_1 K OP_DELAY sc = op_delay sc"
| "opexe_1 K OP_AND0 sc = op_and0 sc"
| "opexe_1 K OP_AND1 sc = op_and1 sc"
| "opexe_1 K OP_OR0 sc = op_or0 sc"
| "opexe_1 K OP_OR1 sc = op_or1 sc"
| "opexe_1 K OP_C0STREAM sc = op_c0stream sc"
| "opexe_1 K OP_C1STREAM sc = op_c1stream sc"
| "opexe_1 K OP_MACRO0 sc = op_macro0 K sc"
| "opexe_1 K OP_MACRO1 sc = op_macro1 sc"
| "opexe_1 K OP_CASE0 sc = op_case0 sc"
| "opexe_1 K OP_CASE1 sc = op_case1 K sc"
| "opexe_1 K OP_CASE2 sc = op_case2 sc"
| "opexe_1 K OP_PEVAL sc = op_peval sc"
| "opexe_1 K OP_PAPPLY sc = op_papply K sc"
| "opexe_1 K OP_CONTINUATION sc = op_continuation K sc"

end
