(* ===== verification/Scheme_Prims.thy ===== *)
theory Scheme_Prims
  imports Scheme_Forms
begin

text \<open>
  The built-in procedures of \<open>opexe_2\<close>, \<open>opexe_3\<close>, \<open>opexe_4\<close> and \<open>opexe_6\<close> (src/src/Scheme.cpp): numbers, pairs,
  characters, strings, vectors, predicates, lists, property lists. Their arguments are in \<open>r_args\<close>.
\<close>

section \<open>Arguments\<close>

definition nvalue :: "store \<Rightarrow> addr \<Rightarrow> num option" where
  "nvalue h p = (case h_cell h p of Number n \<Rightarrow> Some n | _ \<Rightarrow> None)"

text \<open>The numbers in the list of arguments, up to its end.\<close>

partial_function (option) list_nums :: "store \<Rightarrow> addr \<Rightarrow> num list option" where
  "list_nums h x =
     (if x = NIL then Some []
      else do { a \<leftarrow> car h x; n \<leftarrow> nvalue h a; d \<leftarrow> cdr h x; ns \<leftarrow> list_nums h d; Some (n # ns) })"

text \<open>\<open>ivalue\<close> of a number or a character, and its truncation to an \<open>int\<close>.\<close>

definition ivalue :: "store \<Rightarrow> addr \<Rightarrow> int option" where
  "ivalue h p =
     (case h_cell h p of
        Number n \<Rightarrow> (case num_ivalue n of Inr i \<Rightarrow> Some i | Inl _ \<Rightarrow> None)
      | Character c \<Rightarrow> Some c
      | _ \<Rightarrow> None)"

definition int32 :: "int \<Rightarrow> int" where
  "int32 i = (i + 2 ^ 31) mod 2 ^ 32 - 2 ^ 31"

text \<open>\<open>(char)c\<close>, which is signed.\<close>

definition char_of_int :: "int \<Rightarrow> int" where
  "char_of_int i = (i + 128) mod 256 - 128"

definition return_num :: "globals \<Rightarrow> scheme \<Rightarrow> addr option \<Rightarrow> fault + num \<Rightarrow> outcome option" where
  "return_num K sc a r =
     (case r of
        Inr n \<Rightarrow> Some (return_new sc (alloc (Number n) (heap sc)))
      | Inl Undefined \<Rightarrow> None
      | Inl (Scheme_Error m) \<Rightarrow>
          if m = ''Cannot make rational with 0 denominator'' then None else error_1 K sc (ascii m) a)"

section \<open>Numbers\<close>

fun num_fold :: "op2 \<Rightarrow> (num list \<Rightarrow> fault + num) option" where
  "num_fold OP_ADD = Some op_add"
| "num_fold OP_SUB = Some op_sub"
| "num_fold OP_MUL = Some op_mul"
| "num_fold OP_DIV = Some op_div"
| "num_fold OP_BITAND = Some (op_bit_first num_bitand)"
| "num_fold OP_BITOR = Some (op_bit_zero num_bitor)"
| "num_fold OP_BITEOR = Some (op_bit_zero num_biteor)"
| "num_fold OP_BITLSL = Some (op_bit_first num_bitlsl)"
| "num_fold OP_BITLSR = Some (op_bit_first num_bitlsr)"
| "num_fold OP_INTDIV = Some op_intdiv"
| "num_fold _ = None"

definition op_number :: "globals \<Rightarrow> op2 \<Rightarrow> scheme \<Rightarrow> outcome option" where
  "op_number K oc sc =
     (case num_fold oc of
        Some f \<Rightarrow> do { ns \<leftarrow> list_nums (heap sc) (r_args sc); return_num K sc None (f ns) }
      | None \<Rightarrow>
          do { p \<leftarrow> car (heap sc) (r_args sc); x \<leftarrow> nvalue (heap sc) p;
               (case oc of
                  OP_INEX2EX \<Rightarrow>
                    (case x of Integer _ \<Rightarrow> Some (s_return sc p) | _ \<Rightarrow> return_num K sc (Some p) (op_inex2ex x))
                | OP_FLOOR \<Rightarrow> return_num K sc None (Inr (op_floor x))
                | OP_CEILING \<Rightarrow> return_num K sc None (Inr (op_ceiling x))
                | OP_TRUNCATE \<Rightarrow> return_num K sc None (Inr (op_truncate x))
                | OP_ROUND \<Rightarrow> return_num K sc None (Inr (op_round x))
                | OP_BITNOT \<Rightarrow> return_num K sc None (op_bitnot x)
                | OP_REM \<Rightarrow>
                    do { q \<leftarrow> cadr (heap sc) (r_args sc); y \<leftarrow> nvalue (heap sc) q; return_num K sc None (op_rem x y) }
                | OP_MOD \<Rightarrow>
                    do { q \<leftarrow> cadr (heap sc) (r_args sc); y \<leftarrow> nvalue (heap sc) q; return_num K sc None (op_mod x y) }
                | _ \<Rightarrow> None) })"

section \<open>Pairs\<close>

definition op_car :: "scheme \<Rightarrow> outcome option" where
  "op_car sc = do { x \<leftarrow> caar (heap sc) (r_args sc); Some (s_return sc x) }"

definition op_cdr :: "scheme \<Rightarrow> outcome option" where
  "op_cdr sc = do { x \<leftarrow> cdar (heap sc) (r_args sc); Some (s_return sc x) }"

text \<open>\<open>cons\<close> makes the new pair of the first cell of the list of arguments.\<close>

definition op_cons :: "scheme \<Rightarrow> outcome option" where
  "op_cons sc =
     do { x \<leftarrow> cadr (heap sc) (r_args sc); h1 \<leftarrow> store_cdr (heap sc) (r_args sc) x;
          Some (s_return (sc\<lparr>heap := h1\<rparr>) (r_args sc)) }"

definition op_setcar :: "globals \<Rightarrow> scheme \<Rightarrow> outcome option" where
  "op_setcar K sc =
     do { p \<leftarrow> car (heap sc) (r_args sc);
          if \<not> h_immutable (heap sc) p then
            do { x \<leftarrow> cadr (heap sc) (r_args sc); h1 \<leftarrow> store_car (heap sc) p x;
                 r \<leftarrow> car h1 (r_args sc);
                 Some (s_return (sc\<lparr>heap := h1\<rparr>) r) }
          else error_0 K sc ''set-car!: unable to alter immutable pair'' }"

definition op_setcdr :: "globals \<Rightarrow> scheme \<Rightarrow> outcome option" where
  "op_setcdr K sc =
     do { p \<leftarrow> car (heap sc) (r_args sc);
          if \<not> h_immutable (heap sc) p then
            do { x \<leftarrow> cadr (heap sc) (r_args sc); h1 \<leftarrow> store_cdr (heap sc) p x;
                 r \<leftarrow> car h1 (r_args sc);
                 Some (s_return (sc\<lparr>heap := h1\<rparr>) r) }
          else error_0 K sc ''set-cdr!: unable to alter immutable pair'' }"

section \<open>Characters, symbols, strings\<close>

definition op_char2int :: "scheme \<Rightarrow> outcome option" where
  "op_char2int sc =
     do { p \<leftarrow> car (heap sc) (r_args sc); c \<leftarrow> ivalue (heap sc) p;
          Some (return_new sc (mk_integer (heap sc) (c mod 256))) }"

definition op_int2char :: "scheme \<Rightarrow> outcome option" where
  "op_int2char sc =
     do { p \<leftarrow> car (heap sc) (r_args sc); c \<leftarrow> ivalue (heap sc) p;
          Some (return_new sc (mk_character (heap sc) (char_of_int c))) }"

definition string_parts :: "store \<Rightarrow> addr \<Rightarrow> (nat \<times> nat) option" where
  "string_parts h p = (case h_cell h p of String b n \<Rightarrow> Some (b, n) | _ \<Rightarrow> None)"

definition op_str2sym :: "globals \<Rightarrow> scheme \<Rightarrow> outcome option" where
  "op_str2sym K sc =
     do { p \<leftarrow> car (heap sc) (r_args sc); (b, _) \<leftarrow> string_parts (heap sc) p;
          r \<leftarrow> mk_symbol (heap sc) (k_oblist K) (c_str (heap sc) b);
          Some (return_new sc r) }"

definition op_sym2str :: "scheme \<Rightarrow> outcome option" where
  "op_sym2str sc =
     do { p \<leftarrow> car (heap sc) (r_args sc); n \<leftarrow> symname (heap sc) p;
          let (h1, s) = mk_string (heap sc) n;
          Some (s_return (sc\<lparr>heap := setimmutable h1 s\<rparr>) s) }"

definition op_mkstring :: "scheme \<Rightarrow> outcome option" where
  "op_mkstring sc =
     do { p \<leftarrow> car (heap sc) (r_args sc); i \<leftarrow> ivalue (heap sc) p; d \<leftarrow> cdr (heap sc) (r_args sc);
          fill \<leftarrow> (if d \<noteq> NIL then do { q \<leftarrow> cadr (heap sc) (r_args sc); ivalue (heap sc) q } else Some 32);
          if int32 i < 0 then None
          else Some (return_new sc (mk_empty_string (heap sc) (nat (int32 i)) (word_of_int fill))) }"

definition op_strlen :: "scheme \<Rightarrow> outcome option" where
  "op_strlen sc =
     do { p \<leftarrow> car (heap sc) (r_args sc); (_, n) \<leftarrow> string_parts (heap sc) p;
          Some (return_new sc (mk_integer (heap sc) (int n))) }"

text \<open>Only the upper bound of an index is tested; a negative one is undefined.\<close>

definition op_strref :: "globals \<Rightarrow> scheme \<Rightarrow> outcome option" where
  "op_strref K sc =
     do { p \<leftarrow> car (heap sc) (r_args sc); (b, n) \<leftarrow> string_parts (heap sc) p;
          q \<leftarrow> cadr (heap sc) (r_args sc); i \<leftarrow> ivalue (heap sc) q;
          if int32 i \<ge> int n then error_at K sc ''string-ref: out of bounds:'' q
          else if int32 i < 0 then None
          else Some (return_new sc (mk_character (heap sc) (uint (h_buf (heap sc) b ! nat (int32 i))))) }"

definition op_strset :: "globals \<Rightarrow> scheme \<Rightarrow> outcome option" where
  "op_strset K sc =
     do { p \<leftarrow> car (heap sc) (r_args sc);
          if h_immutable (heap sc) p then error_at K sc ''string-set!: unable to alter immutable string:'' p
          else do { (b, n) \<leftarrow> string_parts (heap sc) p;
                    q \<leftarrow> cadr (heap sc) (r_args sc); i \<leftarrow> ivalue (heap sc) q;
                    if int32 i \<ge> int n then error_at K sc ''string-set!: out of bounds:'' q
                    else if int32 i < 0 then None
                    else do { r \<leftarrow> caddr (heap sc) (r_args sc); c \<leftarrow> ivalue (heap sc) r;
                              let buf = (h_buf (heap sc) b)[nat (int32 i) := word_of_int c];
                              Some (s_return (sc\<lparr>heap := put_buf (heap sc) b buf\<rparr>) p) } } }"

partial_function (option) list_strings :: "store \<Rightarrow> addr \<Rightarrow> byte list option" where
  "list_strings h x =
     (if x = NIL then Some []
      else do { p \<leftarrow> car h x; (b, n) \<leftarrow> string_parts h p; d \<leftarrow> cdr h x; s \<leftarrow> list_strings h d;
                Some (take n (h_buf h b) @ s) })"

definition op_strappend :: "scheme \<Rightarrow> outcome option" where
  "op_strappend sc =
     do { s \<leftarrow> list_strings (heap sc) (r_args sc); Some (return_new sc (mk_counted_string (heap sc) s)) }"

definition op_substr :: "globals \<Rightarrow> scheme \<Rightarrow> outcome option" where
  "op_substr K sc =
     do { let h = heap sc;
          p \<leftarrow> car h (r_args sc); (b, n) \<leftarrow> string_parts h p;
          q \<leftarrow> cadr h (r_args sc); i0 \<leftarrow> ivalue h q; let index0 = int32 i0;
          if index0 > int n then error_at K sc ''substring: start out of bounds:'' q
          else do { d \<leftarrow> cddr h (r_args sc);
            r \<leftarrow> (if d \<noteq> NIL then caddr h (r_args sc) else Some NIL);
            i1 \<leftarrow> (if d \<noteq> NIL then ivalue h r else Some 0);
            let index1 = (if d \<noteq> NIL then int32 i1 else int n);
            if d \<noteq> NIL \<and> (index1 > int n \<or> index1 < index0) then error_at K sc ''substring: end out of bounds:'' r
            else if index0 < 0 then None
            else Some (return_new sc (mk_counted_string h
                   (take (nat (index1 - index0)) (drop (nat index0) (h_buf h b))))) } }"

section \<open>Vectors\<close>

partial_function (option) list_elems :: "store \<Rightarrow> addr \<Rightarrow> addr list option" where
  "list_elems h x =
     (if is_pair h x then do { a \<leftarrow> car h x; d \<leftarrow> cdr h x; as \<leftarrow> list_elems h d; Some (a # as) } else Some [])"

definition op_vector :: "globals \<Rightarrow> scheme \<Rightarrow> outcome option" where
  "op_vector K sc =
     do { len \<leftarrow> list_length (heap sc) (r_args sc);
          if len < 0 then error_at K sc ''vector: not a proper list:'' (r_args sc)
          else do { xs \<leftarrow> list_elems (heap sc) (r_args sc); Some (return_new sc (alloc (Vector xs) (heap sc))) } }"

definition op_mkvector :: "scheme \<Rightarrow> outcome option" where
  "op_mkvector sc =
     do { p \<leftarrow> car (heap sc) (r_args sc); i \<leftarrow> ivalue (heap sc) p; d \<leftarrow> cdr (heap sc) (r_args sc);
          fill \<leftarrow> (if d \<noteq> NIL then cadr (heap sc) (r_args sc) else Some NIL);
          if int32 i < 0 then None else Some (return_new sc (mk_vector (heap sc) (nat (int32 i)) fill)) }"

definition op_veclen :: "scheme \<Rightarrow> outcome option" where
  "op_veclen sc =
     do { p \<leftarrow> car (heap sc) (r_args sc); n \<leftarrow> vector_size (heap sc) p;
          Some (return_new sc (mk_integer (heap sc) (int n))) }"

text \<open>
  The index is an \<open>int\<close> and the size unsigned: they are compared as unsigned numbers of 32 bits, so that a
  negative index is out of bounds (unless a vector had more than \<open>2 ^ 31\<close> elements).
\<close>

definition op_vecref :: "globals \<Rightarrow> scheme \<Rightarrow> outcome option" where
  "op_vecref K sc =
     do { p \<leftarrow> car (heap sc) (r_args sc); n \<leftarrow> vector_size (heap sc) p;
          q \<leftarrow> cadr (heap sc) (r_args sc); i \<leftarrow> ivalue (heap sc) q;
          if i mod 2 ^ 32 \<ge> int n then error_at K sc ''vector-ref: out of bounds:'' q
          else if int32 i < 0 then None
          else do { x \<leftarrow> vector_elem (heap sc) p (nat (int32 i)); Some (s_return sc x) } }"

definition op_vecset :: "globals \<Rightarrow> scheme \<Rightarrow> outcome option" where
  "op_vecset K sc =
     do { p \<leftarrow> car (heap sc) (r_args sc);
          if h_immutable (heap sc) p then error_at K sc ''vector-set!: unable to alter immutable vector:'' p
          else do { n \<leftarrow> vector_size (heap sc) p;
                    q \<leftarrow> cadr (heap sc) (r_args sc); i \<leftarrow> ivalue (heap sc) q;
                    if i mod 2 ^ 32 \<ge> int n then error_at K sc ''vector-set!: out of bounds:'' q
                    else if int32 i < 0 then None
                    else do { x \<leftarrow> caddr (heap sc) (r_args sc);
                              h1 \<leftarrow> set_vector_elem (heap sc) p (nat (int32 i)) x;
                              Some (s_return (sc\<lparr>heap := h1\<rparr>) p) } } }"

section \<open>Functions of the C library, atoms and strings\<close>

text \<open>\<open>exp\<close> to \<open>expt\<close>; \<open>atan\<close> takes one argument or two.\<close>

definition op_libm :: "globals \<Rightarrow> op2 \<Rightarrow> scheme \<Rightarrow> outcome option" where
  "op_libm K oc sc =
     do { let h = heap sc; p \<leftarrow> car h (r_args sc); x \<leftarrow> nvalue h p; d \<leftarrow> cdr h (r_args sc);
          let one = Some (return_new sc (alloc (Number (Real (k_libm K oc [real_of x]))) h));
          let two = do { q \<leftarrow> cadr h (r_args sc); y \<leftarrow> nvalue h q;
                         Some (return_new sc (alloc (Number (Real (k_libm K oc [real_of x, real_of y]))) h)) };
          if oc = OP_ATAN then (if d = NIL then one else two)
          else if oc = OP_EXPT then (if d = NIL then error_0 K sc ''expt: needs two arguments'' else two)
          else one }"

definition op_charcase :: "(int \<Rightarrow> int) \<Rightarrow> scheme \<Rightarrow> outcome option" where
  "op_charcase f sc =
     do { p \<leftarrow> car (heap sc) (r_args sc); i \<leftarrow> ivalue (heap sc) p;
          Some (return_new sc (mk_character (heap sc) (char_of_int (f (i mod 256))))) }"

definition op_str2atom :: "globals \<Rightarrow> scheme \<Rightarrow> outcome option" where
  "op_str2atom K sc =
     do { p \<leftarrow> car (heap sc) (r_args sc); (b, n) \<leftarrow> string_parts (heap sc) p;
          let s = c_str (heap sc) b;
          r \<leftarrow> (case s of c # t \<Rightarrow> if c = 35 then mk_sharp_const (heap sc) t else mk_atom K (heap sc) s
                 | [] \<Rightarrow> mk_atom K (heap sc) s);
          Some (return_new sc r) }"

definition op_atom2str :: "globals \<Rightarrow> scheme \<Rightarrow> outcome option" where
  "op_atom2str K sc =
     do { x \<leftarrow> car (heap sc) (r_args sc);
          if is_number (heap sc) x \<or> is_character (heap sc) x \<or> is_string (heap sc) x \<or> is_symbol (heap sc) x then
            do { s \<leftarrow> atom2str (heap sc) x False; Some (return_new sc (mk_counted_string (heap sc) s)) }
          else error_at K sc ''atom->string: not an atom:'' x }"

fun opexe_2 :: "globals \<Rightarrow> op2 \<Rightarrow> scheme \<Rightarrow> outcome option" where
  "opexe_2 K OP_CAR sc = op_car sc"
| "opexe_2 K OP_CDR sc = op_cdr sc"
| "opexe_2 K OP_CONS sc = op_cons sc"
| "opexe_2 K OP_SETCAR sc = op_setcar K sc"
| "opexe_2 K OP_SETCDR sc = op_setcdr K sc"
| "opexe_2 K OP_CHAR2INT sc = op_char2int sc"
| "opexe_2 K OP_INT2CHAR sc = op_int2char sc"
| "opexe_2 K OP_CHARUPCASE sc = op_charcase toupper sc"
| "opexe_2 K OP_CHARDNCASE sc = op_charcase tolower sc"
| "opexe_2 K OP_ATOM2STR sc = op_atom2str K sc"
| "opexe_2 K OP_STR2ATOM sc = op_str2atom K sc"
| "opexe_2 K OP_EXP sc = op_libm K OP_EXP sc"
| "opexe_2 K OP_LOG sc = op_libm K OP_LOG sc"
| "opexe_2 K OP_SIN sc = op_libm K OP_SIN sc"
| "opexe_2 K OP_COS sc = op_libm K OP_COS sc"
| "opexe_2 K OP_TAN sc = op_libm K OP_TAN sc"
| "opexe_2 K OP_ASIN sc = op_libm K OP_ASIN sc"
| "opexe_2 K OP_ACOS sc = op_libm K OP_ACOS sc"
| "opexe_2 K OP_ATAN sc = op_libm K OP_ATAN sc"
| "opexe_2 K OP_SQRT sc = op_libm K OP_SQRT sc"
| "opexe_2 K OP_EXPT sc = op_libm K OP_EXPT sc"
| "opexe_2 K OP_SYM2STR sc = op_sym2str sc"
| "opexe_2 K OP_STR2SYM sc = op_str2sym K sc"
| "opexe_2 K OP_MKSTRING sc = op_mkstring sc"
| "opexe_2 K OP_STRLEN sc = op_strlen sc"
| "opexe_2 K OP_STRREF sc = op_strref K sc"
| "opexe_2 K OP_STRSET sc = op_strset K sc"
| "opexe_2 K OP_STRAPPEND sc = op_strappend sc"
| "opexe_2 K OP_SUBSTR sc = op_substr K sc"
| "opexe_2 K OP_VECTOR sc = op_vector K sc"
| "opexe_2 K OP_MKVECTOR sc = op_mkvector sc"
| "opexe_2 K OP_VECLEN sc = op_veclen sc"
| "opexe_2 K OP_VECREF sc = op_vecref K sc"
| "opexe_2 K OP_VECSET sc = op_vecset K sc"
| "opexe_2 K oc sc = op_number K oc sc"

end
