(* ===== verification/Scheme_IO.thy ===== *)
theory Scheme_IO
  imports Scheme_Prims
begin

text \<open>
  The operations on ports of \<open>opexe_4\<close>, and \<open>opexe_5\<close>: reading and printing of whole objects
  (src/src/Scheme.cpp). Reading a list inside a list, and printing one, go through the dump stack.
\<close>

section \<open>Ports\<close>

definition with_outport :: "scheme \<Rightarrow> addr \<Rightarrow> scheme" where
  "with_outport sc p =
     (if p = h_outport (heap sc) then sc
      else (let (h, x) = cons (heap sc) (h_outport (heap sc)) NIL; sc1 = s_save (O5 OP_SET_OUTPORT) x NIL sc
            in sc1\<lparr>heap := h\<lparr>h_outport := p\<rparr>\<rparr>))"

definition op_write :: "bool \<Rightarrow> scheme \<Rightarrow> outcome option" where
  "op_write flag sc =
     do { d \<leftarrow> cdr (heap sc) (r_args sc);
          sc1 \<leftarrow> (if is_pair (heap sc) d then do { p \<leftarrow> car (heap sc) d; Some (with_outport sc p) } else Some sc);
          x \<leftarrow> car (heap sc1) (r_args sc1);
          Some (s_goto (sc1\<lparr>heap := (heap sc1)\<lparr>h_print_flag := flag\<rparr>, r_args := x\<rparr>) (O5 OP_P0LIST)) }"

definition op_newline :: "scheme \<Rightarrow> outcome option" where
  "op_newline sc =
     do { sc1 \<leftarrow> (if is_pair (heap sc) (r_args sc) then do { p \<leftarrow> car (heap sc) (r_args sc); Some (with_outport sc p) }
                 else Some sc);
          h \<leftarrow> putstr (heap sc1) [10];
          Some (s_return (sc1\<lparr>heap := h\<rparr>) T_OBJ) }"

text \<open>\<open>error\<close>: the message itself is not printed, the other arguments are. The interactive loop is left out.\<close>

definition op_err0 :: "scheme \<Rightarrow> outcome option" where
  "op_err0 sc =
     do { x \<leftarrow> car (heap sc) (r_args sc);
          let (h, a) = (if is_string (heap sc) x then (heap sc, r_args sc)
            else (let (h1, s) = mk_string (heap sc) (ascii '' -- ''); (h2, a) = cons h1 s (r_args sc)
                  in (setimmutable h2 s, a)));
          d \<leftarrow> cdr h a;
          Some (s_goto (sc\<lparr>heap := h, r_args := d\<rparr>) (O4 OP_ERR1)) }"

definition op_err1 :: "scheme \<Rightarrow> outcome option" where
  "op_err1 sc =
     do { h \<leftarrow> putstr (heap sc) [32];
          if r_args sc \<noteq> NIL then
            do { d \<leftarrow> cdr h (r_args sc); x \<leftarrow> car h (r_args sc);
                 let sc1 = s_save (O4 OP_ERR1) d NIL (sc\<lparr>heap := h\<lparr>h_print_flag := True\<rparr>\<rparr>);
                 Some (s_goto (sc1\<lparr>r_args := x\<rparr>) (O5 OP_P0LIST)) }
          else do { h1 \<leftarrow> putstr h [10]; Some (Stop (sc\<lparr>heap := h1\<rparr>)) } }"

text \<open>\<open>new-segment\<close>: what \<open>alloc_cellseg\<close> does is the collector's matter.\<close>

definition op_newsegment :: "globals \<Rightarrow> scheme \<Rightarrow> outcome option" where
  "op_newsegment K sc =
     (if \<not> is_pair (heap sc) (r_args sc) then error_0 K sc ''new-segment: argument must be a number''
      else do { x \<leftarrow> car (heap sc) (r_args sc);
                if \<not> is_number (heap sc) x then error_0 K sc ''new-segment: argument must be a number''
                else Some (s_return sc T_OBJ) })"

definition op_open_string :: "bool \<Rightarrow> scheme \<Rightarrow> outcome option" where
  "op_open_string out sc =
     do { p \<leftarrow> car (heap sc) (r_args sc); (b, n) \<leftarrow> string_parts (heap sc) p;
          Some (return_new sc (port_from_string (heap sc) b n True out)) }"

definition op_open_outstring :: "scheme \<Rightarrow> outcome option" where
  "op_open_outstring sc =
     do { p \<leftarrow> car (heap sc) (r_args sc);
          if p = NIL then Some (return_new sc (port_from_scratch (heap sc)))
          else do { (b, n) \<leftarrow> string_parts (heap sc) p;
                    Some (return_new sc (port_from_string (heap sc) b n False True)) } }"

definition op_get_outstring :: "scheme \<Rightarrow> outcome option" where
  "op_get_outstring sc =
     do { p \<leftarrow> car (heap sc) (r_args sc); i \<leftarrow> port_of (heap sc) p;
          let pt = h_port (heap sc) i;
          (case p_rep pt of
             Str b k e \<Rightarrow>
               if p_input pt \<or> p_output pt then
                 (if k \<le> length (h_buf (heap sc) b) then
                    Some (return_new sc (mk_string (heap sc) (cut (take k (h_buf (heap sc) b))))) else None)
               else Some (s_return sc F_OBJ)
           | _ \<Rightarrow> Some (s_return sc F_OBJ)) }"

definition op_close :: "bool \<Rightarrow> bool \<Rightarrow> scheme \<Rightarrow> outcome option" where
  "op_close inp out sc =
     do { p \<leftarrow> car (heap sc) (r_args sc); h \<leftarrow> port_close (heap sc) p inp out;
          Some (s_return (sc\<lparr>heap := h\<rparr>) T_OBJ) }"

section \<open>Reading\<close>

definition with_inport :: "scheme \<Rightarrow> addr \<Rightarrow> scheme" where
  "with_inport sc p =
     (let (h, x) = cons (heap sc) (h_inport (heap sc)) NIL; sc1 = s_save (O5 OP_SET_INPORT) x NIL sc
      in sc1\<lparr>heap := h\<lparr>h_inport := p\<rparr>\<rparr>)"

definition op_read :: "globals \<Rightarrow> scheme \<Rightarrow> outcome option" where
  "op_read K sc =
     (let h = heap sc; x = h_inport h in
      if \<not> is_pair h (r_args sc) then Some (s_goto sc (O0 OP_READ_INTERNAL))
      else do { p \<leftarrow> car h (r_args sc);
                if \<not> is_inport h p then error_at K sc ''read: not an input port:'' p
                else if p = x then Some (s_goto sc (O0 OP_READ_INTERNAL))
                else if is_inport h x then Some (s_goto (with_inport sc p) (O0 OP_READ_INTERNAL))
                else Some (s_goto (sc\<lparr>heap := h\<lparr>h_inport := p\<rparr>\<rparr>) (O0 OP_READ_INTERNAL)) })"

definition op_read_char :: "bool \<Rightarrow> scheme \<Rightarrow> outcome option" where
  "op_read_char peek sc =
     do { sc1 \<leftarrow> (if is_pair (heap sc) (r_args sc) then
                   do { p \<leftarrow> car (heap sc) (r_args sc);
                        Some (if p \<noteq> h_inport (heap sc) then with_inport sc p else sc) }
                 else Some sc);
          (h, c) \<leftarrow> inchar (heap sc1);
          if c = EOF then Some (s_return (sc1\<lparr>heap := h\<rparr>) EOF_OBJ)
          else do { h1 \<leftarrow> (if peek then backchar h c else Some h);
                    Some (return_new (sc1\<lparr>heap := h1\<rparr>) (mk_character h1 c)) } }"

definition op_char_ready :: "scheme \<Rightarrow> outcome option" where
  "op_char_ready sc =
     do { p \<leftarrow> (if is_pair (heap sc) (r_args sc) then car (heap sc) (r_args sc) else Some (h_inport (heap sc)));
          i \<leftarrow> port_of (heap sc) p;
          let pt = h_port (heap sc) i;
          Some (s_retbool sc (case p_rep pt of Str _ _ _ \<Rightarrow> p_input pt \<or> p_output pt | _ \<Rightarrow> False)) }"

text \<open>\<open>sc->tok = token(sc)\<close> and \<open>s_goto(sc,OP_RDSEXPR)\<close>.\<close>

definition next_sexpr :: "scheme \<Rightarrow> outcome option" where
  "next_sexpr sc =
     do { (h, t) \<leftarrow> read_token (heap sc); Some (s_goto (sc\<lparr>heap := h\<lparr>h_tok := t\<rparr>\<rparr>) (O5 OP_RDSEXPR)) }"

text \<open>The opening parenthesis of a list.\<close>

definition open_list :: "globals \<Rightarrow> scheme \<Rightarrow> outcome option" where
  "open_list K sc =
     do { (h, t) \<leftarrow> read_token (heap sc);
          let sc1 = sc\<lparr>heap := h\<lparr>h_tok := t\<rparr>\<rparr>;
          if t = TOK_RPAREN then Some (s_return sc1 NIL)
          else if t = TOK_DOT then error_0 K sc1 ''syntax error: illegal dot expression''
          else Some (s_goto (s_save (O5 OP_RDLIST) NIL NIL sc1) (O5 OP_RDSEXPR)) }"

definition op_rdsexpr :: "globals \<Rightarrow> scheme \<Rightarrow> outcome option" where
  "op_rdsexpr K sc =
     (let h = heap sc in
      case h_tok h of
        TOK_EOF \<Rightarrow>
          if h_inport h = h_loadport h then Some (s_goto (sc\<lparr>r_args := NIL\<rparr>) (O4 OP_QUIT))
          else Some (s_return sc EOF_OBJ)
      | TOK_COMMENT \<Rightarrow> do { h1 \<leftarrow> skip_line h; next_sexpr (sc\<lparr>heap := h1\<rparr>) }
      | TOK_VEC \<Rightarrow> open_list K (s_save (O5 OP_RDVEC) NIL NIL sc)
      | TOK_LPAREN \<Rightarrow> open_list K sc
      | TOK_QUOTE \<Rightarrow> next_sexpr (s_save (O5 OP_RDQUOTE) NIL NIL sc)
      | TOK_BQUOTE \<Rightarrow>
          do { (h1, t) \<leftarrow> read_token h;
               if t = TOK_VEC then
                 Some (s_goto ((s_save (O5 OP_RDQQUOTEVEC) NIL NIL sc)\<lparr>heap := h1\<lparr>h_tok := TOK_LPAREN\<rparr>\<rparr>) (O5 OP_RDSEXPR))
               else Some (s_goto ((s_save (O5 OP_RDQQUOTE) NIL NIL sc)\<lparr>heap := h1\<lparr>h_tok := t\<rparr>\<rparr>) (O5 OP_RDSEXPR)) }
      | TOK_COMMA \<Rightarrow> next_sexpr (s_save (O5 OP_RDUNQUOTE) NIL NIL sc)
      | TOK_ATMARK \<Rightarrow> next_sexpr (s_save (O5 OP_RDUQTSP) NIL NIL sc)
      | TOK_ATOM \<Rightarrow>
          do { (h1, s) \<leftarrow> readstr_upto h delimiters; r \<leftarrow> mk_atom K h1 s; Some (return_new sc r) }
      | TOK_DQUOTE \<Rightarrow>
          do { (h1, x) \<leftarrow> readstrexp h;
               if x = F_OBJ then error_0 K (sc\<lparr>heap := h1\<rparr>) ''Error reading string''
               else Some (return_new sc (setimmutable h1 x, x)) }
      | TOK_SHARP \<Rightarrow>
          do { f \<leftarrow> find_slot_in_env h (r_envir sc) (k_SHARP_HOOK K) True;
               if f = NIL then error_0 K sc ''undefined sharp expression''
               else do { v \<leftarrow> slot_value_in_env h f; let (h1, c) = cons h v NIL;
                         Some (eval_in (sc\<lparr>heap := h1\<rparr>) c) } }
      | TOK_SHARP_CONST \<Rightarrow>
          do { (h1, s) \<leftarrow> readstr_upto h delimiters; (h2, x) \<leftarrow> mk_sharp_const h1 s;
               if x = NIL then error_0 K (sc\<lparr>heap := h2\<rparr>) ''undefined sharp expression''
               else Some (return_new sc (h2, x)) }
      | TOK_RPAREN \<Rightarrow> error_0 K sc ''Illegal right bracket: unbalanced expr?''
      | TOK_DOT \<Rightarrow> error_0 K sc ''syntax error: illegal token'')"

definition op_rdlist :: "scheme \<Rightarrow> outcome option" where
  "op_rdlist sc =
     do { let (h0, a) = cons (heap sc) (r_value sc) (r_args sc);
          (h1, t1) \<leftarrow> read_token h0;
          (h2, t) \<leftarrow> (if t1 = TOK_COMMENT then do { h2 \<leftarrow> skip_line h1; read_token h2 } else Some (h1, t1));
          let sc1 = sc\<lparr>heap := h2\<lparr>h_tok := t\<rparr>, r_args := a\<rparr>;
          if t = TOK_RPAREN then
            do { (h3, c) \<leftarrow> inchar (heap sc1);
                 h4 \<leftarrow> (if c \<noteq> 10 then backchar h3 c else Some h3);
                 r \<leftarrow> reverse_in_place h4 NIL a;
                 Some (return_new sc1 r) }
          else if t = TOK_DOT then next_sexpr (s_save (O5 OP_RDDOT) a NIL sc1)
          else Some (s_goto (s_save (O5 OP_RDLIST) a NIL sc1) (O5 OP_RDSEXPR)) }"

definition op_rddot :: "globals \<Rightarrow> scheme \<Rightarrow> outcome option" where
  "op_rddot K sc =
     do { (h, t) \<leftarrow> read_token (heap sc);
          if t \<noteq> TOK_RPAREN then error_0 K (sc\<lparr>heap := h\<rparr>) ''syntax error: illegal dot expression''
          else do { r \<leftarrow> reverse_in_place h (r_value sc) (r_args sc); Some (return_new sc r) } }"

text \<open>A quoted object: the list of the symbol and the object read.\<close>

definition op_rdquoted :: "addr \<Rightarrow> scheme \<Rightarrow> outcome option" where
  "op_rdquoted q sc =
     Some (let (h, x) = cons (heap sc) (r_value sc) NIL in return_new sc (cons h q x))"

definition op_rdqquotevec :: "globals \<Rightarrow> scheme \<Rightarrow> outcome option" where
  "op_rdqquotevec K sc =
     do { let (h1, x) = cons (heap sc) (r_value sc) NIL; let (h2, y) = cons h1 (k_QQUOTE K) x;
          let (h3, z) = cons h2 y NIL;
          (h4, v) \<leftarrow> mk_symbol h3 (k_oblist K) (ascii ''vector'');
          let (h5, u) = cons h4 v z;
          (h6, a) \<leftarrow> mk_symbol h5 (k_oblist K) (ascii ''apply'');
          Some (return_new sc (cons h6 a u)) }"

section \<open>Printing\<close>

definition ok_abbrev :: "store \<Rightarrow> addr \<Rightarrow> bool" where
  "ok_abbrev h x \<longleftrightarrow> is_pair h x \<and> cdr h x = Some NIL"

definition abbreviation_of :: "globals \<Rightarrow> addr \<Rightarrow> byte list option" where
  "abbreviation_of K q =
     (if q = k_QUOTE K then Some [39] else if q = k_QQUOTE K then Some [96]
      else if q = k_UNQUOTE K then Some [44] else if q = k_UNQUOTESP K then Some [44, 64] else None)"

text \<open>
  \<open>OP_PVECFROM\<close> takes the number of elements from \<open>ivalue_unchecked\<close>, a field that vectors do not set (theirs
  is \<open>_size\<close>), so that printing a vector has no defined result.
\<close>

definition op_p0list :: "globals \<Rightarrow> scheme \<Rightarrow> outcome option" where
  "op_p0list K sc =
     (let h = heap sc; p = r_args sc in
      if is_vector h p then
        do { h1 \<leftarrow> putstr h (ascii ''#(''); let (h2, z) = mk_integer h1 0; let (h3, a) = cons h2 p z;
             Some (s_goto (sc\<lparr>heap := h3, r_args := a\<rparr>) (O5 OP_PVECFROM)) }
      else if is_environment h p then
        do { h1 \<leftarrow> putstr h (ascii ''#<ENVIRONMENT>''); Some (s_return (sc\<lparr>heap := h1\<rparr>) T_OBJ) }
      else if \<not> is_pair h p then
        do { h1 \<leftarrow> printatom h p (h_print_flag h); Some (s_return (sc\<lparr>heap := h1\<rparr>) T_OBJ) }
      else do { q \<leftarrow> car h p; d \<leftarrow> cdr h p;
        (case (if ok_abbrev h d then abbreviation_of K q else None) of
           Some s \<Rightarrow>
             do { h1 \<leftarrow> putstr h s; x \<leftarrow> cadr h1 p; Some (s_goto (sc\<lparr>heap := h1, r_args := x\<rparr>) (O5 OP_P0LIST)) }
         | None \<Rightarrow>
             do { h1 \<leftarrow> putstr h (ascii ''('');
                  Some (s_goto ((s_save (O5 OP_P1LIST) d NIL sc)\<lparr>heap := h1, r_args := q\<rparr>) (O5 OP_P0LIST)) }) })"

definition op_p1list :: "scheme \<Rightarrow> outcome option" where
  "op_p1list sc =
     (let h = heap sc; p = r_args sc in
      if is_pair h p then
        do { d \<leftarrow> cdr h p; q \<leftarrow> car h p; h1 \<leftarrow> putstr h [32];
             Some (s_goto ((s_save (O5 OP_P1LIST) d NIL sc)\<lparr>heap := h1, r_args := q\<rparr>) (O5 OP_P0LIST)) }
      else if is_vector h p then
        do { h1 \<leftarrow> putstr h (ascii '' . '');
             Some (s_goto ((s_save (O5 OP_P1LIST) NIL NIL sc)\<lparr>heap := h1\<rparr>) (O5 OP_P0LIST)) }
      else do { h1 \<leftarrow> (if p \<noteq> NIL then do { h1 \<leftarrow> putstr h (ascii '' . ''); printatom h1 p (h_print_flag h1) } else Some h);
                h2 \<leftarrow> putstr h1 (ascii '')'');
                Some (s_return (sc\<lparr>heap := h2\<rparr>) T_OBJ) })"

definition opexe_5 :: "globals \<Rightarrow> op5 \<Rightarrow> scheme \<Rightarrow> outcome option" where
  "opexe_5 K oc sc =
     (case oc of
        OP_READ \<Rightarrow> op_read K sc
      | OP_READ_CHAR \<Rightarrow> op_read_char False sc
      | OP_PEEK_CHAR \<Rightarrow> op_read_char True sc
      | OP_CHAR_READY \<Rightarrow> op_char_ready sc
      | OP_SET_INPORT \<Rightarrow>
          do { p \<leftarrow> car (heap sc) (r_args sc);
               Some (s_return (sc\<lparr>heap := (heap sc)\<lparr>h_inport := p\<rparr>\<rparr>) (r_value sc)) }
      | OP_SET_OUTPORT \<Rightarrow>
          do { p \<leftarrow> car (heap sc) (r_args sc);
               Some (s_return (sc\<lparr>heap := (heap sc)\<lparr>h_outport := p\<rparr>\<rparr>) (r_value sc)) }
      | OP_RDSEXPR \<Rightarrow> op_rdsexpr K sc
      | OP_RDLIST \<Rightarrow> op_rdlist sc
      | OP_RDDOT \<Rightarrow> op_rddot K sc
      | OP_RDQUOTE \<Rightarrow> op_rdquoted (k_QUOTE K) sc
      | OP_RDQQUOTE \<Rightarrow> op_rdquoted (k_QQUOTE K) sc
      | OP_RDQQUOTEVEC \<Rightarrow> op_rdqquotevec K sc
      | OP_RDUNQUOTE \<Rightarrow> op_rdquoted (k_UNQUOTE K) sc
      | OP_RDUQTSP \<Rightarrow> op_rdquoted (k_UNQUOTESP K) sc
      | OP_RDVEC \<Rightarrow> Some (s_goto (sc\<lparr>r_args := r_value sc\<rparr>) (O2 OP_VECTOR))
      | OP_P0LIST \<Rightarrow> op_p0list K sc
      | OP_P1LIST \<Rightarrow> op_p1list sc
      | OP_PVECFROM \<Rightarrow> None)"

end
