(* ===== verification/Scheme_Cycle.thy ===== *)
theory Scheme_Cycle
  imports Scheme_IO
begin

text \<open>
  \<open>opexe_3\<close>, \<open>opexe_4\<close> and \<open>opexe_6\<close>, the dispatch table (src/include/OPDefines.h) and the evaluation cycle with
  its check of the arguments (src/src/Scheme.cpp). Opening files is left out.
\<close>

section \<open>Predicates\<close>

fun comp_func :: "op3 \<Rightarrow> (num \<Rightarrow> num \<Rightarrow> bool) option" where
  "comp_func OP_NUMEQ = Some num_eq"
| "comp_func OP_LESS = Some num_lt"
| "comp_func OP_GRE = Some num_gt"
| "comp_func OP_LEQ = Some num_le"
| "comp_func OP_GEQ = Some num_ge"
| "comp_func _ = None"

text \<open>The loop of the comparison operators; it stops at the first pair that fails.\<close>

partial_function (option) comp_loop :: "store \<Rightarrow> (num \<Rightarrow> num \<Rightarrow> bool) \<Rightarrow> num \<Rightarrow> addr \<Rightarrow> bool option" where
  "comp_loop h f v x =
     (if x = NIL then Some True
      else do { a \<leftarrow> car h x; w \<leftarrow> nvalue h a;
                if \<not> f v w then Some False else do { d \<leftarrow> cdr h x; comp_loop h f w d } })"

text \<open>
  \<open>is_integer\<close> and \<open>is_rational\<close> look at the number type of any cell: characters and procedures have that of an
  integer, and for other cells it is part of a pointer.
\<close>

definition num_type_is :: "store \<Rightarrow> addr \<Rightarrow> (num \<Rightarrow> bool) \<Rightarrow> bool \<Rightarrow> bool option" where
  "num_type_is h x f i =
     (case h_cell h x of Number n \<Rightarrow> Some (f n) | Character _ \<Rightarrow> Some i | Proc _ \<Rightarrow> Some i | _ \<Rightarrow> None)"

definition char_test :: "store \<Rightarrow> addr \<Rightarrow> (int \<Rightarrow> bool) \<Rightarrow> bool option" where
  "char_test h x f = do { i \<leftarrow> ivalue h x; Some (f (int32 i)) }"

definition type_test :: "store \<Rightarrow> op3 \<Rightarrow> addr \<Rightarrow> bool option" where
  "type_test h oc x =
     (case oc of
        OP_NOT \<Rightarrow> Some (x = F_OBJ)
      | OP_BOOLP \<Rightarrow> Some (x = F_OBJ \<or> x = T_OBJ)
      | OP_EOFOBJP \<Rightarrow> Some (x = EOF_OBJ)
      | OP_NULLP \<Rightarrow> Some (x = NIL)
      | OP_SYMBOLP \<Rightarrow> Some (is_symbol h x)
      | OP_NUMBERP \<Rightarrow> Some (is_number h x)
      | OP_INTEGERP \<Rightarrow> num_type_is h x (\<lambda>n. case n of Integer _ \<Rightarrow> True | _ \<Rightarrow> False) True
      | OP_RATIONALP \<Rightarrow> num_type_is h x (\<lambda>n. case n of Rational _ _ \<Rightarrow> True | _ \<Rightarrow> False) False
      | OP_CHARAP \<Rightarrow> char_test h x (\<lambda>c. isupper c \<or> islower c)
      | OP_CHARNP \<Rightarrow> char_test h x isdigit
      | OP_CHARWP \<Rightarrow> char_test h x isspace
      | OP_CHARUP \<Rightarrow> char_test h x isupper
      | OP_CHARLP \<Rightarrow> char_test h x islower
      | OP_PORTP \<Rightarrow> Some (is_port h x)
      | OP_INPORTP \<Rightarrow> Some (is_inport h x)
      | OP_OUTPORTP \<Rightarrow> Some (is_outport h x)
      | OP_STRINGP \<Rightarrow> Some (is_string h x)
      | OP_REALP \<Rightarrow> Some (is_number h x)
      | OP_CHARP \<Rightarrow> Some (is_character h x)
      | OP_PROCP \<Rightarrow> Some (is_proc h x \<or> is_closure h x \<or> is_continuation h x \<or> is_foreign h x)
      | OP_PAIRP \<Rightarrow> Some (is_pair h x)
      | OP_LISTP \<Rightarrow> listp_loop h x x
      | OP_ENVP \<Rightarrow> Some (is_environment h x)
      | OP_VECTORP \<Rightarrow> Some (is_vector h x)
      | OP_CPTRP \<Rightarrow> Some (is_cptr h x)
      | _ \<Rightarrow> None)"

definition opexe_3 :: "op3 \<Rightarrow> scheme \<Rightarrow> outcome option" where
  "opexe_3 oc sc =
     do { let h = heap sc; x \<leftarrow> car h (r_args sc);
          (case comp_func oc of
             Some f \<Rightarrow> do { v \<leftarrow> nvalue h x; d \<leftarrow> cdr h (r_args sc); b \<leftarrow> comp_loop h f v d; Some (s_retbool sc b) }
           | None \<Rightarrow>
               if oc = OP_EQ then do { y \<leftarrow> cadr h (r_args sc); Some (s_retbool sc (x = y)) }
               else if oc = OP_EQV then do { y \<leftarrow> cadr h (r_args sc); Some (s_retbool sc (eqv h x y)) }
               else do { b \<leftarrow> type_test h oc x; Some (s_retbool sc b) }) }"

section \<open>Lists and property lists\<close>

partial_function (option) append_loop :: "store \<Rightarrow> addr \<Rightarrow> addr \<Rightarrow> (store \<times> addr) option" where
  "append_loop h x y =
     (if y = NIL then Some (h, x)
      else do { b \<leftarrow> car h y; (h1, x1) \<leftarrow> append h x b; d \<leftarrow> cdr h1 y; append_loop h1 x1 d })"

definition op_append :: "scheme \<Rightarrow> outcome option" where
  "op_append sc =
     (let h = heap sc; a = r_args sc in
      if a = NIL then Some (s_return sc NIL)
      else do { x \<leftarrow> car h a; d \<leftarrow> cdr h a;
                if d = NIL then Some (s_return sc a)
                else do { r \<leftarrow> append_loop h x d; Some (return_new sc r) } })"

text \<open>\<open>hasprop\<close> masks the type with the number of \<open>T_SYMBOL\<close>, 3, and so accepts most types.\<close>

definition hasprop :: "store \<Rightarrow> addr \<Rightarrow> bool" where
  "hasprop h p =
     (case h_cell h p of Junk \<Rightarrow> False | Blank _ _ \<Rightarrow> False | Atom \<Rightarrow> False | Proc _ \<Rightarrow> False | Foreign _ \<Rightarrow> False
      | Macro _ _ \<Rightarrow> False | _ \<Rightarrow> True)"

partial_function (option) find_prop :: "store \<Rightarrow> addr \<Rightarrow> addr \<Rightarrow> addr option" where
  "find_prop h x y =
     (if x = NIL then Some NIL
      else do { a \<leftarrow> caar h x; if a = y then Some x else do { d \<leftarrow> cdr h x; find_prop h d y } })"

definition op_put :: "globals \<Rightarrow> scheme \<Rightarrow> outcome option" where
  "op_put K sc =
     do { let h = heap sc; s \<leftarrow> car h (r_args sc); y \<leftarrow> cadr h (r_args sc);
          if \<not> hasprop h s \<or> \<not> hasprop h y then error_0 K sc ''illegal use of put''
          else do { ps \<leftarrow> cdr h s; x \<leftarrow> find_prop h ps y; v \<leftarrow> caddr h (r_args sc);
            if x \<noteq> NIL then
              do { p \<leftarrow> car h x; h1 \<leftarrow> store_cdr h p v; Some (s_return (sc\<lparr>heap := h1\<rparr>) T_OBJ) }
            else do { let (h1, p) = cons h y v; let (h2, q) = cons h1 p ps;
                      h3 \<leftarrow> store_cdr h2 s q; Some (s_return (sc\<lparr>heap := h3\<rparr>) T_OBJ) } } }"

definition op_get :: "globals \<Rightarrow> scheme \<Rightarrow> outcome option" where
  "op_get K sc =
     do { let h = heap sc; s \<leftarrow> car h (r_args sc); y \<leftarrow> cadr h (r_args sc);
          if \<not> hasprop h s \<or> \<not> hasprop h y then error_0 K sc ''illegal use of get''
          else do { ps \<leftarrow> cdr h s; x \<leftarrow> find_prop h ps y;
            if x \<noteq> NIL then do { v \<leftarrow> cdar h x; Some (s_return sc v) } else Some (s_return sc NIL) } }"

fun opexe_4 :: "globals \<Rightarrow> op4 \<Rightarrow> scheme \<Rightarrow> outcome option" where
  "opexe_4 K OP_FORCE sc = op_force sc"
| "opexe_4 K OP_WRITE sc = op_write True sc"
| "opexe_4 K OP_WRITE_CHAR sc = op_write False sc"
| "opexe_4 K OP_DISPLAY sc = op_write False sc"
| "opexe_4 K OP_NEWLINE sc = op_newline sc"
| "opexe_4 K OP_ERR0 sc = op_err0 sc"
| "opexe_4 K OP_ERR1 sc = op_err1 sc"
| "opexe_4 K OP_NEWSEGMENT sc = op_newsegment K sc"
| "opexe_4 K OP_CURR_INPORT sc = Some (s_return sc (h_inport (heap sc)))"
| "opexe_4 K OP_CURR_OUTPORT sc = Some (s_return sc (h_outport (heap sc)))"
| "opexe_4 K OP_OPEN_INFILE sc = None"
| "opexe_4 K OP_OPEN_OUTFILE sc = None"
| "opexe_4 K OP_OPEN_INOUTFILE sc = None"
| "opexe_4 K OP_OPEN_INSTRING sc = op_open_string False sc"
| "opexe_4 K OP_OPEN_INOUTSTRING sc = op_open_string True sc"
| "opexe_4 K OP_OPEN_OUTSTRING sc = op_open_outstring sc"
| "opexe_4 K OP_GET_OUTSTRING sc = op_get_outstring sc"
| "opexe_4 K OP_CLOSE_INPORT sc = op_close True False sc"
| "opexe_4 K OP_CLOSE_OUTPORT sc = op_close False True sc"
| "opexe_4 K OP_SAVE_FORCED sc = op_save_forced sc"
| "opexe_4 K OP_REVERSE sc =
     do { x \<leftarrow> car (heap sc) (r_args sc); r \<leftarrow> reverse (heap sc) x; Some (return_new sc r) }"
| "opexe_4 K OP_LIST_STAR sc = do { r \<leftarrow> list_star (heap sc) (r_args sc); Some (return_new sc r) }"
| "opexe_4 K OP_APPEND sc = op_append sc"
| "opexe_4 K OP_PUT sc = op_put K sc"
| "opexe_4 K OP_GET sc = op_get K sc"
| "opexe_4 K OP_QUIT sc = Some (Stop sc)"
| "opexe_4 K OP_OBLIST sc = do { r \<leftarrow> oblist_all_symbols (heap sc) (k_oblist K); Some (return_new sc r) }"
| "opexe_4 K OP_INT_ENV sc = Some (s_return sc (k_global_env K))"
| "opexe_4 K OP_CURR_ENV sc = Some (s_return sc (r_envir sc))"

text \<open>\<open>assq\<close>: the cell of the list the loop stops at; \<open>None\<close> inside for an element that is no pair.\<close>

partial_function (option) assq_loop :: "store \<Rightarrow> addr \<Rightarrow> addr \<Rightarrow> addr option option" where
  "assq_loop h x y =
     (if is_pair h y then
        do { p \<leftarrow> car h y;
             if \<not> is_pair h p then Some None
             else do { a \<leftarrow> caar h y; if x = a then Some (Some y) else do { d \<leftarrow> cdr h y; assq_loop h x d } } }
      else Some (Some y))"

definition op_assq :: "globals \<Rightarrow> scheme \<Rightarrow> outcome option" where
  "op_assq K sc =
     do { let h = heap sc; x \<leftarrow> car h (r_args sc); l \<leftarrow> cadr h (r_args sc);
          r \<leftarrow> assq_loop h x l;
          (case r of
             None \<Rightarrow> error_0 K sc ''unable to handle non pair element''
           | Some y \<Rightarrow> if is_pair h y then do { p \<leftarrow> car h y; Some (s_return sc p) } else Some (s_return sc F_OBJ)) }"

text \<open>\<open>get-closure-code\<close> tests its argument and then takes the code of \<open>r_value\<close>, whatever that is.\<close>

definition op_get_closure :: "globals \<Rightarrow> scheme \<Rightarrow> outcome option" where
  "op_get_closure K sc =
     do { a \<leftarrow> car (heap sc) (r_args sc);
          let sc1 = sc\<lparr>r_args := a\<rparr>;
          if is_closure (heap sc) a \<or> is_macro (heap sc) a then
            do { c \<leftarrow> car (heap sc) (r_value sc); Some (return_new sc1 (cons (heap sc) (k_LAMBDA K) c)) }
          else Some (s_return sc1 F_OBJ) }"

fun opexe_6 :: "globals \<Rightarrow> op6 \<Rightarrow> scheme \<Rightarrow> outcome option" where
  "opexe_6 K OP_LIST_LENGTH sc =
     do { x \<leftarrow> car (heap sc) (r_args sc); v \<leftarrow> list_length (heap sc) x;
          if v < 0 then error_at K sc ''length: not a list:'' x else Some (return_new sc (mk_integer (heap sc) v)) }"
| "opexe_6 K OP_ASSQ sc = op_assq K sc"
| "opexe_6 K OP_GET_CLOSURE sc = op_get_closure K sc"
| "opexe_6 K OP_CLOSUREP sc = do { x \<leftarrow> car (heap sc) (r_args sc); Some (s_retbool sc (is_closure (heap sc) x)) }"
| "opexe_6 K OP_MACROP sc = do { x \<leftarrow> car (heap sc) (r_args sc); Some (s_retbool sc (is_macro (heap sc) x)) }"

fun opexe :: "globals \<Rightarrow> opcode \<Rightarrow> scheme \<Rightarrow> outcome option" where
  "opexe K (O0 oc) sc = opexe_0 K oc sc"
| "opexe K (O1 oc) sc = opexe_1 K oc sc"
| "opexe K (O2 oc) sc = opexe_2 K oc sc"
| "opexe K (O3 oc) sc = opexe_3 oc sc"
| "opexe K (O4 oc) sc = opexe_4 K oc sc"
| "opexe K (O5 oc) sc = opexe_5 K oc sc"
| "opexe K (O6 oc) sc = opexe_6 K oc sc"

section \<open>The evaluation cycle\<close>

text \<open>
  The check of the arguments: their number, then each with its test, the last test being used for the
  remaining ones. The result is the position and the test that failed.
\<close>

fun test_args :: "store \<Rightarrow> test list \<Rightarrow> nat \<Rightarrow> nat \<Rightarrow> addr \<Rightarrow> (nat \<times> test) option option" where
  "test_args h [] n i a = Some None"
| "test_args h (t # ts) 0 i a = Some None"
| "test_args h (t # ts) (Suc n) i a =
     do { x \<leftarrow> car h a;
          if \<not> test_fct h t x then Some (Some (i, t))
          else do { d \<leftarrow> cdr h a; test_args h (if ts = [] then [t] else ts) n (Suc i) d } }"

definition arity_message :: "op_code_info \<Rightarrow> string \<Rightarrow> nat \<Rightarrow> byte list" where
  "arity_message pcd s n =
     ascii ''function('' @ ascii (pcd_name pcd) @ ascii ''): needs'' @
     ascii (if min_arity pcd = max_arity pcd then '''' else s) @ ascii '' '' @ dec_nat n @ ascii '' argument(s)''"

definition test_message :: "op_code_info \<Rightarrow> nat \<Rightarrow> test \<Rightarrow> byte list \<Rightarrow> byte list" where
  "test_message pcd i t printed =
     take 511 (ascii ''function('' @ ascii (pcd_name pcd) @ ascii ''): argument '' @ dec_nat (i + 1) @
       ascii '' must be: '' @ ascii (test_kind t) @ [10] @ ascii ''argument values: '' @ printed)"

definition check_args :: "globals \<Rightarrow> scheme \<Rightarrow> op_code_info \<Rightarrow> byte list option option" where
  "check_args K sc pcd =
     do { n \<leftarrow> list_length (heap sc) (r_args sc);
          if n < int (min_arity pcd) then Some (Some (arity_message pcd '' at least'' (min_arity pcd)))
          else if n > int (max_arity pcd) then Some (Some (arity_message pcd '' at most'' (max_arity pcd)))
          else do { r \<leftarrow> test_args (heap sc) (arg_tests pcd) (nat n) 0 (r_args sc);
                    (case r of None \<Rightarrow> Some None
                     | Some (i, t) \<Rightarrow>
                         do { s \<leftarrow> printSchemeCell (k_pointer K) (heap sc) True True (r_args sc);
                              Some (Some (test_message pcd i t s)) }) } }"

text \<open>One round of \<open>Eval_Cycle\<close> after the check of the time.\<close>

definition step :: "globals \<Rightarrow> scheme \<Rightarrow> outcome option" where
  "step K sc =
     (case dispatch_table (r_op sc) of
        None \<Rightarrow> opexe K (r_op sc) sc
      | Some pcd \<Rightarrow>
          do { m \<leftarrow> check_args K sc pcd;
               (case m of None \<Rightarrow> opexe K (r_op sc) sc | Some msg \<Rightarrow> error_1 K sc msg (Some (r_code sc))) })"

text \<open>
  \<open>Eval_Cycle\<close> looks at the clock before every round. \<open>late k\<close> is what the check before round \<open>k\<close> finds: \<open>None\<close>
  while \<open>UNIV::TIME\<close>, which the audio thread advances, is at most \<open>call_end_time\<close>, which is set by the
  caller and made infinite by an error; otherwise the message, which names the last function called. Then
  \<open>_Error_1\<close> is called with the message and the cycle is left, which is what the callers do
  with a \<open>Throw\<close>.
\<close>

partial_function (option) eval_timed :: "globals \<Rightarrow> (nat \<Rightarrow> string option) \<Rightarrow> nat \<Rightarrow> scheme \<Rightarrow> outcome option" where
  "eval_timed K late k sc =
     (case late k of
        Some msg \<Rightarrow> Some (Throw msg NIL sc)
      | None \<Rightarrow> do { r \<leftarrow> step K sc; (case r of Next sc1 \<Rightarrow> eval_timed K late (Suc k) sc1 | _ \<Rightarrow> Some r) })"

text \<open>The cycle of a call that stays within its time.\<close>

partial_function (option) eval_cycle :: "globals \<Rightarrow> scheme \<Rightarrow> outcome option" where
  "eval_cycle K sc = do { r \<leftarrow> step K sc; (case r of Next sc1 \<Rightarrow> eval_cycle K sc1 | _ \<Rightarrow> Some r) }"

lemma eval_timed_ends:
  assumes "eval_timed K late k sc = Some r" "\<And>i. late i = None"
  shows "eval_cycle K sc = Some r"
proof -
  have "(\<forall>i. late i = None) \<longrightarrow> eval_cycle K sc = Some r"
  proof (rule eval_timed.raw_induct [where P = "\<lambda>K late k sc r. (\<forall>i. late i = None) \<longrightarrow> eval_cycle K sc = Some r", OF _ assms(1)])
    fix ev :: "globals \<Rightarrow> (nat \<Rightarrow> string option) \<Rightarrow> nat \<Rightarrow> scheme \<Rightarrow> outcome option" and K late k sc r
    assume "\<And>K late k sc r. ev K late k sc = Some r \<Longrightarrow> (\<forall>i. late i = None) \<longrightarrow> eval_cycle K sc = Some r"
      and "(case late k of Some msg \<Rightarrow> Some (Throw msg NIL sc)
        | None \<Rightarrow> do { r \<leftarrow> step K sc; (case r of Next sc1 \<Rightarrow> ev K late (Suc k) sc1 | _ \<Rightarrow> Some r) }) = Some r"
    then show "(\<forall>i. late i = None) \<longrightarrow> eval_cycle K sc = Some r"
      by (subst eval_cycle.simps) (cases "late k"; auto split: outcome.splits Option.bind_splits)
  qed
  then show ?thesis using assms(2) by blast
qed

lemma eval_cycle_ends:
  assumes "eval_cycle K sc = Some r" "\<And>i. late i = None"
  shows "eval_timed K late k sc = Some r"
proof -
  have "\<forall>k. eval_timed K late k sc = Some r"
  proof (rule eval_cycle.raw_induct [where P = "\<lambda>K sc r. \<forall>k. eval_timed K late k sc = Some r", OF _ assms(1)])
    fix ev :: "globals \<Rightarrow> scheme \<Rightarrow> outcome option" and K sc r
    assume "\<And>K sc r. ev K sc = Some r \<Longrightarrow> \<forall>k. eval_timed K late k sc = Some r"
      and "do { r \<leftarrow> step K sc; (case r of Next sc1 \<Rightarrow> ev K sc1 | _ \<Rightarrow> Some r) } = Some r"
    then show "\<forall>k. eval_timed K late k sc = Some r"
      by (subst eval_timed.simps) (auto simp: assms(2) split: outcome.splits Option.bind_splits)
  qed
  then show ?thesis by blast
qed

lemma eval_timed_in_time:
  assumes "\<And>i. late i = None"
  shows "eval_timed K late k sc = eval_cycle K sc"
proof (cases "eval_cycle K sc")
  case None
  then show ?thesis using eval_timed_ends [of K late k sc, OF _ assms] by (cases "eval_timed K late k sc") auto
next
  case (Some r)
  then show ?thesis using eval_cycle_ends [OF Some assms] by simp
qed

end
