(* ===== verification/Scheme_Semantics.thy ===== *)
theory Scheme_Semantics
  imports Scheme_Cycle
begin

text \<open>
  A natural semantics of the interpreter's language over the store, and the proof that the
  evaluation cycle with its dump stack implements it.
\<close>

section \<open>The semantics\<close>

text \<open>
  \<open>primitive K oc h a e f v h'\<close>: the operation \<open>oc\<close>, called through the cell \<open>f\<close> with arguments \<open>a\<close>, passes the
  check of its arguments and returns \<open>v\<close> at once, whatever is on the stack.
\<close>

abbreviation regs :: "store \<Rightarrow> addr \<Rightarrow> addr \<Rightarrow> addr \<Rightarrow> addr \<Rightarrow> frame list \<Rightarrow> opcode \<Rightarrow> scheme" where
  "regs h a e c w D oc \<equiv>
     \<lparr>heap = h, r_args = a, r_envir = e, r_code = c, r_value = w, r_dump = D, r_op = oc\<rparr>"

definition primitive :: "globals \<Rightarrow> opcode \<Rightarrow> store \<Rightarrow> addr \<Rightarrow> addr \<Rightarrow> addr \<Rightarrow> addr \<Rightarrow> store \<Rightarrow> bool" where
  "primitive K oc h a e f v h' \<longleftrightarrow>
     (\<forall>w D. \<exists>s. step K (regs h a e f w D oc) = Some (s_return s v) \<and> r_dump s = D \<and> heap s = h')"

definition passes_check :: "globals \<Rightarrow> opcode \<Rightarrow> store \<Rightarrow> addr \<Rightarrow> addr \<Rightarrow> bool" where
  "passes_check K oc h a f \<longleftrightarrow>
     (\<forall>pcd. dispatch_table oc = Some pcd \<longrightarrow> (\<forall>e w D. check_args K (regs h a e f w D oc) pcd = Some None))"

text \<open>
  What can be evaluated: an expression, the body of a syntactic form, a sequence, an application, the
  operands still to be evaluated with the list of those evaluated (last first), the same for the
  expressions of \<open>let\<close> and \<open>letrec\<close>, the bindings of a \<open>let*\<close> from a value on, the clauses of \<open>cond\<close>,
  and the expressions of \<open>and\<close> and \<open>or\<close>.
\<close>

datatype phrase = Exp addr | Form opcode addr | Body addr | Apply addr addr | Args addr addr
  | Lets addr addr | Recs addr addr | Stars addr addr addr | Clauses addr | Conj addr | Disj addr

inductive ev :: "globals \<Rightarrow> phrase \<Rightarrow> store \<Rightarrow> addr \<Rightarrow> addr \<Rightarrow> store \<Rightarrow> bool" for K where
  Var: "\<lbrakk>is_symbol h c; find_slot_in_env h e c True = Some s; s \<noteq> NIL; slot_value_in_env h s = Some v\<rbrakk>
    \<Longrightarrow> ev K (Exp c) h e v h"
| Const: "\<lbrakk>\<not> is_symbol h c; \<not> is_pair h c\<rbrakk> \<Longrightarrow> ev K (Exp c) h e c h"
| Syntactic: "\<lbrakk>h_cell h c = Pair x d; is_syntax h x; syntaxnum h x = Some oc; ev K (Form oc d) h e v h'\<rbrakk>
    \<Longrightarrow> ev K (Exp c) h e v h'"
| Call: "\<lbrakk>h_cell h c = Pair x d; \<not> is_syntax h x; ev K (Exp x) h e f h1; \<not> is_macro h1 f;
    cdr h1 c = Some d1; cons h1 f NIL = (h2, a); ev K (Args a d1) h2 e l h3;
    car h3 l = Some g; cdr h3 l = Some as; ev K (Apply g as) h3 e v h'\<rbrakk>
    \<Longrightarrow> ev K (Exp c) h e v h'"
| Macro_Call: "\<lbrakk>h_cell h c = Pair x d; \<not> is_syntax h x; ev K (Exp x) h e m h1; is_macro h1 m;
    cons h1 c NIL = (h2, a); ev K (Apply m a) h2 e c1 h3; \<not> is_vector h3 c1; ev K (Exp c1) h3 e v h'\<rbrakk>
    \<Longrightarrow> ev K (Exp c) h e v h'"

| Args_End: "\<lbrakk>\<not> is_pair h d; reverse_in_place h NIL a = Some (h', l)\<rbrakk> \<Longrightarrow> ev K (Args a d) h e l h'"
| Args_More: "\<lbrakk>h_cell h d = Pair c d1; ev K (Exp c) h e w h1; cons h1 w a = (h2, a1);
    ev K (Args a1 d1) h2 e l h'\<rbrakk> \<Longrightarrow> ev K (Args a d) h e l h'"

| Apply_Prim: "\<lbrakk>h_cell h f = Proc oc; primitive K oc h as e f v h'\<rbrakk> \<Longrightarrow> ev K (Apply f as) h e v h'"
| Apply_Foreign: "\<lbrakk>h_cell h f = Foreign i; k_foreign K i h as = Some (h', v)\<rbrakk> \<Longrightarrow> ev K (Apply f as) h e v h'"
| Apply_Closure: "\<lbrakk>is_closure h f \<or> is_macro h f \<or> is_promise h f; car h f = Some cc; cdr h f = Some ce;
    new_frame_in_env h ce = (h1, e1); car h1 cc = Some ps; bind_params h1 e1 ps as = Some (h2, Some (x, y));
    x = NIL \<or> is_symbol h2 x;
    (if x = NIL then Some h2 else new_slot_spec_in_env h2 e1 x y) = Some h3;
    cdr h3 cc = Some body; ev K (Body body) h3 e1 v h'\<rbrakk> \<Longrightarrow> ev K (Apply f as) h e v h'"
| Apply_Apply: "\<lbrakk>h_cell h f = Proc (O1 OP_PAPPLY); passes_check K (O1 OP_PAPPLY) h as f;
    car h as = Some g; cdr h as = Some d; list_star h d = Some (h1, l); is_pair h1 l \<or> l = NIL;
    ev K (Apply g l) h1 e v h'\<rbrakk> \<Longrightarrow> ev K (Apply f as) h e v h'"
| Apply_Eval: "\<lbrakk>h_cell h f = Proc (O1 OP_PEVAL); passes_check K (O1 OP_PEVAL) h as f;
    car h as = Some c; cdr h as = Some d; (if d \<noteq> NIL then cadr h as else Some e) = Some e1;
    ev K (Exp c) h e1 v h'\<rbrakk> \<Longrightarrow> ev K (Apply f as) h e v h'"
| Apply_Force: "\<lbrakk>h_cell h f = Proc (O4 OP_FORCE); passes_check K (O4 OP_FORCE) h as f;
    car h as = Some p; is_promise h p; ev K (Apply p NIL) h e v h1\<rbrakk>
    \<Longrightarrow> ev K (Apply f as) h e v (memcpy_cell h1 p v)"

| Body_Value: "\<not> is_pair h c \<Longrightarrow> ev K (Body c) h e c h"
| Body_Last: "\<lbrakk>h_cell h c = Pair x NIL; ev K (Exp x) h e v h'\<rbrakk> \<Longrightarrow> ev K (Body c) h e v h'"
| Body_More: "\<lbrakk>h_cell h c = Pair x d; d \<noteq> NIL; ev K (Exp x) h e w h1; ev K (Body d) h1 e v h'\<rbrakk>
    \<Longrightarrow> ev K (Body c) h e v h'"

| Begin: "ev K (Body d) h e v h' \<Longrightarrow> ev K (Form (O0 OP_BEGIN) d) h e v h'"
| Quote: "car h d = Some v \<Longrightarrow> ev K (Form (O0 OP_QUOTE) d) h e v h"
| Lambda: "mk_closure h d e = (h', v) \<Longrightarrow> ev K (Form (O0 OP_LAMBDA) d) h e v h'"
| If: "\<lbrakk>car h d = Some t; cdr h d = Some d1; ev K (Exp t) h e w h1;
    (if is_true w then car h1 d1 else cadr h1 d1) = Some c; ev K (Exp c) h1 e v h'\<rbrakk>
    \<Longrightarrow> ev K (Form (O0 OP_IF0) d) h e v h'"
| Set: "\<lbrakk>car h d = Some x; cadr h d = Some c; ev K (Exp c) h e v h1;
    find_slot_in_env h1 e x True = Some s; s \<noteq> NIL; set_slot_in_env h1 s v = Some h'\<rbrakk>
    \<Longrightarrow> ev K (Form (O0 OP_SET0) d) h e v h'"
| Define: "\<lbrakk>car h d = Some x; is_symbol h x; cadr h d = Some c;
    is_pair h c \<longrightarrow> (\<exists>s. cadr h c = Some s \<and> prints_empty h s = Some False); symname h x \<noteq> None;
    ev K (Exp c) h e v h1; define_here h1 e x v = Some h'\<rbrakk>
    \<Longrightarrow> ev K (Form (O0 OP_DEF0) d) h e x h'"
| Define_Fun: "\<lbrakk>car h d = Some p; h_cell h p = Pair x ps; is_symbol h x; cdr h d = Some body;
    cons h ps body = (h1, q); cons h1 (k_LAMBDA K) q = (h2, c); is_symbol h2 x;
    ev K (Exp c) h2 e v h3; define_here h3 e x v = Some h'\<rbrakk>
    \<Longrightarrow> ev K (Form (O0 OP_DEF0) d) h e x h'"

| Lets_End: "\<lbrakk>\<not> is_pair h d; reverse_in_place h NIL a = Some (h', l)\<rbrakk> \<Longrightarrow> ev K (Lets a d) h e l h'"
| Lets_More: "\<lbrakk>h_cell h d = Pair b d1; is_pair h b; cadr h b = Some c; ev K (Exp c) h e w h1;
    cons h1 w a = (h2, a1); ev K (Lets a1 d1) h2 e l h'\<rbrakk> \<Longrightarrow> ev K (Lets a d) h e l h'"
| Let: "\<lbrakk>let_bindings h d = Some b; cons h d NIL = (h1, a); ev K (Lets a b) h1 e l h2;
    car h2 l = Some d1; cdr h2 l = Some ws; new_frame_in_env h2 e = (h3, e1);
    let_bindings h3 d1 = Some b1; bind_let h3 e1 b1 ws = Some h4; car h4 d1 = Some n; \<not> is_symbol h4 n;
    cdr h4 d1 = Some body; ev K (Body body) h4 e1 v h'\<rbrakk>
    \<Longrightarrow> ev K (Form (O0 OP_LET0) d) h e v h'"
| Named_Let: "\<lbrakk>let_bindings h d = Some b; cons h d NIL = (h1, a); ev K (Lets a b) h1 e l h2;
    car h2 l = Some d1; cdr h2 l = Some ws; new_frame_in_env h2 e = (h3, e1);
    let_bindings h3 d1 = Some b1; bind_let h3 e1 b1 ws = Some h4; car h4 d1 = Some n; is_symbol h4 n;
    cadr h4 d1 = Some bs; is_pair h4 bs; let_names h4 bs NIL = Some (h5, ns);
    reverse_in_place h5 NIL ns = Some (h6, ps); cddr h6 d1 = Some body; cons h6 ps body = (h7, c);
    mk_closure h7 c e1 = (h8, f); new_slot_spec_in_env h8 e1 n f = Some h9; ev K (Body body) h9 e1 v h'\<rbrakk>
    \<Longrightarrow> ev K (Form (O0 OP_LET0) d) h e v h'"

| Let_Star_Empty: "\<lbrakk>car h d = Some NIL; cdr h d = Some d1; new_frame_in_env h e = (h1, e1);
    ev K (Body d1) h1 e1 v h'\<rbrakk> \<Longrightarrow> ev K (Form (O0 OP_LET0AST) d) h e v h'"
| Let_Star: "\<lbrakk>car h d = Some b; b \<noteq> NIL; is_pair h b; cdr h d = Some d1; cadaar h d = Some c;
    ev K (Exp c) h e w h1; new_frame_in_env h1 e = (h2, e1); ev K (Stars w b d1) h2 e1 v h'\<rbrakk>
    \<Longrightarrow> ev K (Form (O0 OP_LET0AST) d) h e v h'"
| Stars_End: "\<lbrakk>caar h b = Some p; new_slot_spec_in_env h e p w = Some h1; cdr h1 b = Some b1; \<not> is_pair h1 b1;
    ev K (Body d) h1 e v h'\<rbrakk> \<Longrightarrow> ev K (Stars w b d) h e v h'"
| Stars_More: "\<lbrakk>caar h b = Some p; new_slot_spec_in_env h e p w = Some h1; cdr h1 b = Some b1; is_pair h1 b1;
    cadar h1 b1 = Some c; ev K (Exp c) h1 e w1 h2; ev K (Stars w1 b1 d) h2 e v h'\<rbrakk>
    \<Longrightarrow> ev K (Stars w b d) h e v h'"

| Recs_End: "\<lbrakk>\<not> is_pair h d; reverse_in_place h NIL a = Some (h', l)\<rbrakk> \<Longrightarrow> ev K (Recs a d) h e l h'"
| Recs_More: "\<lbrakk>h_cell h d = Pair b d1; cadr h b = Some c; ev K (Exp c) h e w h1;
    cons h1 w a = (h2, a1); ev K (Recs a1 d1) h2 e l h'\<rbrakk> \<Longrightarrow> ev K (Recs a d) h e l h'"
| Let_Rec: "\<lbrakk>new_frame_in_env h e = (h1, e1); car h1 d = Some b; cons h1 d NIL = (h2, a); ev K (Recs a b) h2 e1 l h3;
    car h3 l = Some d1; cdr h3 l = Some ws; car h3 d1 = Some b1; bind_let h3 e1 b1 ws = Some h4;
    cdr h4 d1 = Some body; ev K (Body body) h4 e1 v h'\<rbrakk>
    \<Longrightarrow> ev K (Form (O1 OP_LET0REC) d) h e v h'"

| Cond: "\<lbrakk>is_pair h d; ev K (Clauses d) h e v h'\<rbrakk> \<Longrightarrow> ev K (Form (O1 OP_COND0) d) h e v h'"
| Clause_Value: "\<lbrakk>caar h d = Some t; ev K (Exp t) h e v h'; is_true v; cdar h' d = Some NIL\<rbrakk>
    \<Longrightarrow> ev K (Clauses d) h e v h'"
| Clause_Body: "\<lbrakk>caar h d = Some t; ev K (Exp t) h e w h1; is_true w; cdar h1 d = Some b; b \<noteq> NIL;
    car h1 b = Some x; x \<noteq> k_FEED_TO K; ev K (Body b) h1 e v h'\<rbrakk> \<Longrightarrow> ev K (Clauses d) h e v h'"
| Clause_Feed: "\<lbrakk>caar h d = Some t; ev K (Exp t) h e w h1; is_true w; cdar h1 d = Some b; b \<noteq> NIL;
    car h1 b = Some (k_FEED_TO K); cdr h1 b = Some r; is_pair h1 r; quote_list K h1 w = (h2, q); cons h2 q NIL = (h3, p);
    cadr h3 b = Some f; cons h3 f p = (h4, c); ev K (Exp c) h4 e v h'\<rbrakk> \<Longrightarrow> ev K (Clauses d) h e v h'"
| Clause_None: "\<lbrakk>caar h d = Some t; ev K (Exp t) h e w h1; \<not> is_true w; cdr h1 d = Some NIL\<rbrakk>
    \<Longrightarrow> ev K (Clauses d) h e NIL h1"
| Clause_Next: "\<lbrakk>caar h d = Some t; ev K (Exp t) h e w h1; \<not> is_true w; cdr h1 d = Some d1; d1 \<noteq> NIL;
    ev K (Clauses d1) h1 e v h'\<rbrakk> \<Longrightarrow> ev K (Clauses d) h e v h'"

| And_Empty: "ev K (Form (O1 OP_AND0) NIL) h e T_OBJ h"
| And: "\<lbrakk>d \<noteq> NIL; ev K (Conj d) h e v h'\<rbrakk> \<Longrightarrow> ev K (Form (O1 OP_AND0) d) h e v h'"
| Conj_False: "\<lbrakk>car h d = Some c; cdr h d = Some d1; ev K (Exp c) h e v h'; \<not> is_true v \<or> d1 = NIL\<rbrakk>
    \<Longrightarrow> ev K (Conj d) h e v h'"
| Conj_True: "\<lbrakk>car h d = Some c; cdr h d = Some d1; ev K (Exp c) h e w h1; is_true w; d1 \<noteq> NIL;
    ev K (Conj d1) h1 e v h'\<rbrakk> \<Longrightarrow> ev K (Conj d) h e v h'"
| Or_Empty: "ev K (Form (O1 OP_OR0) NIL) h e F_OBJ h"
| Or: "\<lbrakk>d \<noteq> NIL; ev K (Disj d) h e v h'\<rbrakk> \<Longrightarrow> ev K (Form (O1 OP_OR0) d) h e v h'"
| Disj_True: "\<lbrakk>car h d = Some c; cdr h d = Some d1; ev K (Exp c) h e v h'; is_true v \<or> d1 = NIL\<rbrakk>
    \<Longrightarrow> ev K (Disj d) h e v h'"
| Disj_False: "\<lbrakk>car h d = Some c; cdr h d = Some d1; ev K (Exp c) h e w h1; \<not> is_true w; d1 \<noteq> NIL;
    ev K (Disj d1) h1 e v h'\<rbrakk> \<Longrightarrow> ev K (Disj d) h e v h'"

| Case_None: "\<lbrakk>car h d = Some c; cdr h d = Some d1; ev K (Exp c) h e w h1; case_clause h1 d1 w = Some (Inr NIL)\<rbrakk>
    \<Longrightarrow> ev K (Form (O1 OP_CASE0) d) h e NIL h1"
| Case_Clause: "\<lbrakk>car h d = Some c; cdr h d = Some d1; ev K (Exp c) h e w h1; case_clause h1 d1 w = Some (Inr x); x \<noteq> NIL;
    caar h1 x = Some y; is_pair h1 y; cdar h1 x = Some b; ev K (Body b) h1 e v h'\<rbrakk>
    \<Longrightarrow> ev K (Form (O1 OP_CASE0) d) h e v h'"
| Case_Else: "\<lbrakk>car h d = Some c; cdr h d = Some d1; ev K (Exp c) h e w h1; case_clause h1 d1 w = Some (Inr x); x \<noteq> NIL;
    caar h1 x = Some y; \<not> is_pair h1 y; cdar h1 x = Some b; ev K (Exp y) h1 e u h2; is_true u; ev K (Body b) h2 e v h'\<rbrakk>
    \<Longrightarrow> ev K (Form (O1 OP_CASE0) d) h e v h'"

| Delay: "mk_promise h d e = Some (h', v) \<Longrightarrow> ev K (Form (O1 OP_DELAY) d) h e v h'"
| Cons_Stream: "\<lbrakk>car h d = Some c; cdr h d = Some d1; ev K (Exp c) h e w h1; mk_promise h1 d1 e = Some (h2, x);
    cons h2 w x = (h', v)\<rbrakk> \<Longrightarrow> ev K (Form (O1 OP_C0STREAM) d) h e v h'"
| Macro_Def: "\<lbrakk>car h d = Some x; is_symbol h x; cadr h d = Some c; ev K (Exp c) h e v h1;
    set_type Macro h1 v = Some h2; define_here h2 e x v = Some h'\<rbrakk>
    \<Longrightarrow> ev K (Form (O1 OP_MACRO0) d) h e x h'"

end
