(* ===== verification/Scheme_Refinement.thy ===== *)
theory Scheme_Refinement
  imports Scheme_Semantics
begin

text \<open>
  The evaluation cycle implements the natural semantics: for every rule of \<open>ev\<close>, runs of the cycle for the
  premises compose to a run for the conclusion.
\<close>

section \<open>Runs of the cycle\<close>

named_theorems op_simps \<open>one round of the cycle for each operation\<close>

lemma step_O0 [op_simps]: "info_0 oc = None \<Longrightarrow> step K (regs h a e c w D (O0 oc)) = opexe_0 K oc (regs h a e c w D (O0 oc))"
  by (simp add: step_def)

lemma step_O1 [op_simps]: "info_1 oc = None \<Longrightarrow> step K (regs h a e c w D (O1 oc)) = opexe_1 K oc (regs h a e c w D (O1 oc))"
  by (simp add: step_def)

lemma step_checked: "passes_check K oc h a f \<Longrightarrow> step K (regs h a e f w D oc) = opexe K oc (regs h a e f w D oc)"
  by (cases "dispatch_table oc") (auto simp: step_def passes_check_def)

lemmas [op_simps] = eval_in_def s_goto_def s_save_def return_new_def s_retbool_def

definition leads :: "globals \<Rightarrow> scheme \<Rightarrow> scheme \<Rightarrow> bool" where
  "leads K = (\<lambda>s s'. step K s = Some (Next s'))\<^sup>*\<^sup>*"

lemma leads_refl [simp, intro]: "leads K s s"
  by (simp add: leads_def)

lemma leads_step: "step K s = Some (Next s1) \<Longrightarrow> leads K s1 s2 \<Longrightarrow> leads K s s2"
  unfolding leads_def by (rule converse_rtranclp_into_rtranclp)

lemma leads_trans [trans]: "leads K s s1 \<Longrightarrow> leads K s1 s2 \<Longrightarrow> leads K s s2"
  unfolding leads_def by (rule rtranclp_trans)

lemma leads_eval_cycle: "leads K s s1 \<Longrightarrow> eval_cycle K s = eval_cycle K s1"
  unfolding leads_def
proof (induction rule: converse_rtranclp_induct)
  case (step s s2)
  then show ?case by (subst eval_cycle.simps) simp
qed simp

text \<open>
  The same for the cycle with its time limit: it takes one check for every operation, so that there is a
  number \<open>n\<close> of checks that must be passed on the way.
\<close>

lemma leads_eval_timed:
  assumes "leads K s s1"
  shows "\<exists>n. \<forall>late k. (if \<forall>i < n. late (k + i) = None then eval_timed K late k s = eval_timed K late (k + n) s1
    else \<exists>msg s2. eval_timed K late k s = Some (Throw msg NIL s2))"
  using assms unfolding leads_def
proof (induction rule: converse_rtranclp_induct)
  case base
  show ?case by (rule exI [of _ 0]) simp
next
  case (step s s2)
  then obtain n where n: "\<And>late k. if \<forall>i < n. late (k + i) = None
      then eval_timed K late k s2 = eval_timed K late (k + n) s1
      else \<exists>msg s3. eval_timed K late k s2 = Some (Throw msg NIL s3)" by blast
  have e: "eval_timed K late k s = (case late k of Some msg \<Rightarrow> Some (Throw msg NIL s) | None \<Rightarrow> eval_timed K late (Suc k) s2)"
    for late k
    using step.hyps(1) by (subst eval_timed.simps) (simp split: option.split)
  have a: "(\<forall>i < Suc n. late (k + i) = None) \<longleftrightarrow> late k = None \<and> (\<forall>i < n. late (Suc k + i) = None)"
    for late :: "nat \<Rightarrow> string option" and k
    by (simp add: All_less_Suc2)
  show ?case
  proof (rule exI [of _ "Suc n"], intro allI)
    fix late :: "nat \<Rightarrow> string option" and k
    show "if \<forall>i < Suc n. late (k + i) = None then eval_timed K late k s = eval_timed K late (k + Suc n) s1
      else \<exists>msg s2. eval_timed K late k s = Some (Throw msg NIL s2)"
      unfolding a e using n [of late "Suc k"] by (cases "late k") (simp_all split: if_splits)
  qed
qed

text \<open>
  \<open>returns K F h a e c w oc v h'\<close>: from these registers, with the frames \<open>F\<close> above any stack \<open>D\<close>, the cycle comes to
  return \<open>v\<close> to the stack \<open>D\<close> with the store \<open>h'\<close>.
\<close>

definition returns ::
  "globals \<Rightarrow> frame list \<Rightarrow> store \<Rightarrow> addr \<Rightarrow> addr \<Rightarrow> addr \<Rightarrow> addr \<Rightarrow> opcode \<Rightarrow> addr \<Rightarrow> store \<Rightarrow> bool" where
  "returns K F h a e c w oc v h' \<longleftrightarrow>
     (\<forall>D. \<exists>s s2. leads K (regs h a e c w (F @ D) oc) s \<and> step K s = Some (s_return s2 v) \<and> r_dump s2 = D \<and> heap s2 = h')"

lemma returns_now:
  "(\<And>D. \<exists>s2. step K (regs h a e c w (F @ D) oc) = Some (s_return s2 v) \<and> r_dump s2 = D \<and> heap s2 = h') \<Longrightarrow>
   returns K F h a e c w oc v h'"
  unfolding returns_def by blast

lemma returns_step:
  assumes "\<And>D. step K (regs h a e c w (F @ D) oc) = Some (Next (regs h1 a1 e1 c1 w1 (F1 @ D) oc1))"
    "returns K F1 h1 a1 e1 c1 w1 oc1 v h'"
  shows "returns K F h a e c w oc v h'"
  unfolding returns_def
proof
  fix D
  obtain s s2 where "leads K (regs h1 a1 e1 c1 w1 (F1 @ D) oc1) s" "step K s = Some (s_return s2 v)" "r_dump s2 = D"
    "heap s2 = h'" using assms(2) unfolding returns_def by blast
  then show "\<exists>s s2. leads K (regs h a e c w (F @ D) oc) s \<and> step K s = Some (s_return s2 v) \<and> r_dump s2 = D \<and> heap s2 = h'"
    using leads_step [OF assms(1)] by blast
qed

lemma returns_leads:
  assumes "\<And>D. leads K (regs h a e c w (F @ D) oc) (regs h1 a1 e1 c1 (w1 D) (F1 @ D) oc1)"
    "\<And>w. returns K F1 h1 a1 e1 c1 w oc1 v h'"
  shows "returns K F h a e c w oc v h'"
  unfolding returns_def
proof
  fix D
  obtain s s2 where "leads K (regs h1 a1 e1 c1 (w1 D) (F1 @ D) oc1) s" "step K s = Some (s_return s2 v)" "r_dump s2 = D"
    "heap s2 = h'" using assms(2) unfolding returns_def by blast
  then show "\<exists>s s2. leads K (regs h a e c w (F @ D) oc) s \<and> step K s = Some (s_return s2 v) \<and> r_dump s2 = D \<and> heap s2 = h'"
    using leads_trans [OF assms(1)] by blast
qed

lemma returns_frame:
  assumes "returns K [] h a e c w oc u h1"
  shows "leads K (regs h a e c w (f # D) oc) (regs h1 (f_args f) (f_envir f) (f_code f) u D (f_op f))"
proof -
  obtain s s2 where s: "leads K (regs h a e c w (f # D) oc) s" "step K s = Some (s_return s2 u)" "r_dump s2 = f # D"
    "heap s2 = h1" using assms unfolding returns_def by fastforce
  have "s_return s2 u = Next (regs h1 (f_args f) (f_envir f) (f_code f) u D (f_op f))"
    using s(3,4) by (cases s2) (simp add: s_return_def resume_def)
  then show ?thesis using leads_trans [OF s(1)] leads_step [of K s] s(2) by simp
qed

lemma returns_seq:
  assumes "returns K [] h a e c w oc u h1" "returns K F h1 (f_args f) (f_envir f) (f_code f) u (f_op f) v h'"
  shows "returns K (f # F) h a e c w oc v h'"
  unfolding returns_def
proof
  fix D
  obtain s s2 where "leads K (regs h1 (f_args f) (f_envir f) (f_code f) u (F @ D) (f_op f)) s" "step K s = Some (s_return s2 v)"
    "r_dump s2 = D" "heap s2 = h'" using assms(2) unfolding returns_def by blast
  then show "\<exists>s s2. leads K (regs h a e c w ((f # F) @ D) oc) s \<and> step K s = Some (s_return s2 v) \<and> r_dump s2 = D \<and> heap s2 = h'"
    using leads_trans [OF returns_frame [OF assms(1)]] by fastforce
qed

lemma returns_goto:
  assumes "returns K [] h1 a1 e1 c1 w1 oc1 v h'"
    "\<And>D. step K (regs h a e c w D oc) = Some (Next (regs h1 a1 e1 c1 w1 D oc1))"
  shows "returns K [] h a e c w oc v h'"
  by (rule returns_step [OF _ assms(1)]) (simp add: assms(2))

lemma returns_pushed:
  assumes "returns K [f] h1 a1 e1 c1 w1 oc1 v h'"
    "\<And>D. step K (regs h a e c w D oc) = Some (Next (regs h1 a1 e1 c1 w1 (f # D) oc1))"
  shows "returns K [] h a e c w oc v h'"
  by (rule returns_step [OF _ assms(1)]) (simp add: assms(2))

lemma returns_push:
  assumes "returns K [] h1 a1 e1 c1 w1 oc1 u h2" "returns K [] h2 (f_args f) (f_envir f) (f_code f) u (f_op f) v h'"
    "\<And>D. step K (regs h a e c w D oc) = Some (Next (regs h1 a1 e1 c1 w1 (f # D) oc1))"
  shows "returns K [] h a e c w oc v h'"
  by (rule returns_pushed [OF returns_seq [OF assms(1,2)] assms(3)])

lemma returns_at_once:
  assumes "\<And>D. \<exists>s2. step K (regs h a e c w D oc) = Some (s_return s2 v) \<and> r_dump s2 = D \<and> heap s2 = h'"
  shows "returns K [] h a e c w oc v h'"
  by (rule returns_now) (use assms in simp)

text \<open>What a judgement of the semantics says about the cycle.\<close>

definition frame_of :: "opcode \<Rightarrow> addr \<Rightarrow> addr \<Rightarrow> addr \<Rightarrow> frame" where
  "frame_of oc a e c = \<lparr>f_op = oc, f_args = a, f_envir = e, f_code = c\<rparr>"

lemma frame_of_simps [simp]:
  "f_op (frame_of oc a e c) = oc" "f_args (frame_of oc a e c) = a" "f_envir (frame_of oc a e c) = e"
  "f_code (frame_of oc a e c) = c"
  by (simp_all add: frame_of_def)

lemma frame_eq [simp]:
  "\<lparr>f_op = oc, f_args = a, f_envir = e, f_code = c\<rparr> = frame_of oc a e c"
  by (simp add: frame_of_def)

text \<open>\<open>collects\<close>: the loop that evaluates a list of expressions and ends with the list of their values.\<close>

definition collects ::
  "globals \<Rightarrow> opcode \<Rightarrow> opcode \<Rightarrow> addr \<Rightarrow> addr \<Rightarrow> store \<Rightarrow> addr \<Rightarrow> addr \<Rightarrow> store \<Rightarrow> bool" where
  "collects K oc oc' a d h e l h' \<longleftrightarrow>
     (\<forall>h0 w a0 D g as. cons h0 w a0 = (h, a) \<longrightarrow> car h' l = Some g \<longrightarrow> cdr h' l = Some as \<longrightarrow>
        (\<exists>w'. leads K (regs h0 a0 e d w D oc) (regs h' as e g w' D oc')))"

fun realizes :: "globals \<Rightarrow> phrase \<Rightarrow> store \<Rightarrow> addr \<Rightarrow> addr \<Rightarrow> store \<Rightarrow> bool" where
  "realizes K (Exp c) h e v h' \<longleftrightarrow> (\<forall>a w. returns K [] h a e c w (O0 OP_EVAL) v h')"
| "realizes K (Form oc d) h e v h' \<longleftrightarrow> (\<forall>a w. returns K [] h a e d w oc v h')"
| "realizes K (Body c) h e v h' \<longleftrightarrow> (\<forall>a w. returns K [] h a e c w (O0 OP_BEGIN) v h')"
| "realizes K (Apply f as) h e v h' \<longleftrightarrow> (\<forall>w. returns K [] h as e f w (O0 OP_APPLY) v h')"
| "realizes K (Args a d) h e l h' \<longleftrightarrow> collects K (O0 OP_E1ARGS) (O0 OP_APPLY) a d h e l h'"
| "realizes K (Lets a d) h e l h' \<longleftrightarrow> collects K (O0 OP_LET1) (O0 OP_LET2) a d h e l h'"
| "realizes K (Recs a d) h e l h' \<longleftrightarrow> collects K (O1 OP_LET1REC) (O1 OP_LET2REC) a d h e l h'"
| "realizes K (Stars w b d) h e v h' \<longleftrightarrow> returns K [] h d e b w (O0 OP_LET2AST) v h'"
| "realizes K (Clauses d) h e v h' \<longleftrightarrow>
     (\<exists>t. caar h d = Some t \<and> (\<forall>a w. returns K [frame_of (O1 OP_COND1) NIL e d] h a e t w (O0 OP_EVAL) v h'))"
| "realizes K (Conj d) h e v h' \<longleftrightarrow>
     (\<exists>c d1. car h d = Some c \<and> cdr h d = Some d1 \<and>
        (\<forall>a w. returns K [frame_of (O1 OP_AND1) NIL e d1] h a e c w (O0 OP_EVAL) v h'))"
| "realizes K (Disj d) h e v h' \<longleftrightarrow>
     (\<exists>c d1. car h d = Some c \<and> cdr h d = Some d1 \<and>
        (\<forall>a w. returns K [frame_of (O1 OP_OR1) NIL e d1] h a e c w (O0 OP_EVAL) v h'))"

section \<open>Expressions and application\<close>

named_theorems real \<open>the rules of the semantics hold of the cycle\<close>

lemmas eval_simps = op_simps op_eval_def Let_def

lemma real_Var [real]:
  assumes "is_symbol h c" "find_slot_in_env h e c True = Some s" "s \<noteq> NIL" "slot_value_in_env h s = Some v"
  shows "realizes K (Exp c) h e v h"
proof -
  have "\<exists>s2. step K (regs h a e c w D (O0 OP_EVAL)) = Some (s_return s2 v) \<and> r_dump s2 = D \<and> heap s2 = h" for a w D
    using assms by (auto simp: eval_simps)
  then show ?thesis by (auto intro: returns_at_once)
qed

lemma real_Const [real]:
  assumes "\<not> is_symbol h c" "\<not> is_pair h c"
  shows "realizes K (Exp c) h e c h"
proof -
  have "\<exists>s2. step K (regs h a e c w D (O0 OP_EVAL)) = Some (s_return s2 c) \<and> r_dump s2 = D \<and> heap s2 = h" for a w D
    using assms by (auto simp: eval_simps)
  then show ?thesis by (auto intro: returns_at_once)
qed

lemma not_symbol_pair: "h_cell h c = Pair x d \<Longrightarrow> \<not> is_symbol h c"
  by (simp add: is_symbol_def)

lemma real_Syntactic [real]:
  assumes "h_cell h c = Pair x d" "is_syntax h x" "syntaxnum h x = Some oc" "realizes K (Form oc d) h e v h'"
  shows "realizes K (Exp c) h e v h'"
proof -
  have "returns K [] h a e c w (O0 OP_EVAL) v h'" for a w
  proof (rule returns_goto)
    show "returns K [] h a e d w oc v h'" using assms(4) by simp
  qed (use assms(1-3) in \<open>simp add: eval_simps not_symbol_pair\<close>)
  then show ?thesis by simp
qed

text \<open>A call or a \<open>let\<close> first collects values; the run goes on with the registers it has then.\<close>

lemma collects_returns:
  assumes "collects K oc oc' a d h e l h1" "cons h0 w a0 = (h, a)" "car h1 l = Some g" "cdr h1 l = Some as"
    "\<And>w. returns K [] h1 as e g w oc' v h'"
  shows "returns K [] h0 a0 e d w oc v h'"
proof -
  have "\<forall>D. \<exists>w'. leads K (regs h0 a0 e d w D oc) (regs h1 as e g w' D oc')"
    using assms(1-4) by (simp add: collects_def)
  then obtain w' where w: "\<And>D. leads K (regs h0 a0 e d w D oc) (regs h1 as e g (w' D) D oc')" by (metis (no_types))
  have "leads K (regs h0 a0 e d w ([] @ D) oc) (regs h1 as e g (w' D) ([] @ D) oc')" for D using w by simp
  then show ?thesis using assms(5) by (rule returns_leads)
qed

lemma real_Call [real]:
  assumes "h_cell h c = Pair x d" "\<not> is_syntax h x" "realizes K (Exp x) h e f h1" "\<not> is_macro h1 f"
    "cdr h1 c = Some d1" "cons h1 f NIL = (h2, a)" "realizes K (Args a d1) h2 e l h3"
    "car h3 l = Some g" "cdr h3 l = Some as" "realizes K (Apply g as) h3 e v h'"
  shows "realizes K (Exp c) h e v h'"
proof -
  let ?f = "frame_of (O0 OP_E0ARGS) NIL e c"
  have "returns K [] h1 NIL e d1 f (O0 OP_E1ARGS) v h'"
    using assms(7,10) by (auto intro: collects_returns [OF _ assms(6,8,9), where ?oc' = "O0 OP_APPLY"])
  then have "returns K [] h1 NIL e c f (O0 OP_E0ARGS) v h'"
    by (rule returns_goto) (use assms(4,5) in \<open>simp add: op_simps op_e0args_def\<close>)
  note eargs = this
  have "returns K [] h b e c w (O0 OP_EVAL) v h'" for b w
    by (rule returns_push [of K h b e x w "O0 OP_EVAL" f h1 ?f])
      (use assms(1-3) eargs in \<open>simp_all add: eval_simps not_symbol_pair\<close>)
  then show ?thesis by simp
qed

lemma real_Macro_Call [real]:
  assumes "h_cell h c = Pair x d" "\<not> is_syntax h x" "realizes K (Exp x) h e m h1" "is_macro h1 m"
    "cons h1 c NIL = (h2, a)" "realizes K (Apply m a) h2 e c1 h3" "\<not> is_vector h3 c1" "realizes K (Exp c1) h3 e v h'"
  shows "realizes K (Exp c) h e v h'"
proof -
  let ?f = "frame_of (O0 OP_E0ARGS) NIL e c" and ?g = "frame_of (O0 OP_DOMACRO) c e NIL"
  have "returns K [] h3 c e c1 c1 (O0 OP_EVAL) v h'" using assms(8) by simp
  then have "returns K [] h3 c e NIL c1 (O0 OP_DOMACRO) v h'"
    by (rule returns_goto) (use assms(7) in \<open>simp add: op_simps op_domacro_def\<close>)
  then have "returns K [] h1 NIL e c m (O0 OP_E0ARGS) v h'"
    by - (rule returns_push [of K h2 a e m m "O0 OP_APPLY" c1 h3 ?g],
      use assms(4-6) in \<open>simp_all add: op_simps op_e0args_def\<close>)
  then have "returns K [] h b e c w (O0 OP_EVAL) v h'" for b w
    by - (rule returns_push [of K h b e x w "O0 OP_EVAL" m h1 ?f],
      use assms(1-3) in \<open>simp_all add: eval_simps not_symbol_pair\<close>)
  then show ?thesis by simp
qed

text \<open>The loops over operands, over the bindings of \<open>let\<close> and over those of \<open>letrec\<close>.\<close>

lemma collects_end:
  assumes "\<And>h0 w a0 g as D. cons h0 w a0 = (h, a) \<Longrightarrow> car h' l = Some g \<Longrightarrow> cdr h' l = Some as \<Longrightarrow>
    step K (regs h0 a0 e d w D oc) = Some (Next (regs h' as e g w D oc'))"
  shows "collects K oc oc' a d h e l h'"
  unfolding collects_def using assms leads_step by blast

lemma collects_more:
  assumes "\<And>h0 w a0 D. cons h0 w a0 = (h, a) \<Longrightarrow>
      step K (regs h0 a0 e d w D oc) = Some (Next (regs h NIL e c w (frame_of oc a e d1 # D) (O0 OP_EVAL)))"
    "realizes K (Exp c) h e u h1" "cons h1 u a = (h2, a1)" "collects K oc oc' a1 d1 h2 e l h'"
  shows "collects K oc oc' a d h e l h'"
  unfolding collects_def
proof (intro allI impI)
  fix h0 w a0 D g as
  assume "cons h0 w a0 = (h, a)" and g: "car h' l = Some g" "cdr h' l = Some as"
  then have "leads K (regs h0 a0 e d w D oc) (regs h NIL e c w (frame_of oc a e d1 # D) (O0 OP_EVAL))"
    using leads_step [OF assms(1)] by blast
  also have "leads K \<dots> (regs h1 a e d1 u D oc)"
    using returns_frame [of K h NIL e c w "O0 OP_EVAL" u h1 "frame_of oc a e d1" D] assms(2) by simp
  finally have "leads K (regs h0 a0 e d w D oc) (regs h1 a e d1 u D oc)" .
  moreover obtain w' where "leads K (regs h1 a e d1 u D oc) (regs h' as e g w' D oc')"
    using assms(3,4) g unfolding collects_def by blast
  ultimately show "\<exists>w'. leads K (regs h0 a0 e d w D oc) (regs h' as e g w' D oc')" using leads_trans by blast
qed

lemma real_Args_End [real]:
  "\<lbrakk>\<not> is_pair h d; reverse_in_place h NIL a = Some (h', l)\<rbrakk> \<Longrightarrow> realizes K (Args a d) h e l h'"
  by (auto simp: op_simps op_e1args_def Let_def intro: collects_end)

lemma real_Args_More [real]:
  "\<lbrakk>h_cell h d = Pair c d1; realizes K (Exp c) h e w h1; cons h1 w a = (h2, a1); realizes K (Args a1 d1) h2 e l h'\<rbrakk>
    \<Longrightarrow> realizes K (Args a d) h e l h'"
  by (auto simp: op_simps op_e1args_def Let_def intro: collects_more)


lemma real_Apply_Prim [real]:
  assumes "h_cell h f = Proc oc" "primitive K oc h as e f v h'"
  shows "realizes K (Apply f as) h e v h'"
proof -
  have "returns K [] h as e f w oc v h'" for w using assms(2) by (auto simp: primitive_def intro: returns_at_once)
  then have "returns K [] h as e f w (O0 OP_APPLY) v h'" for w
    by (rule returns_goto) (simp add: op_simps op_apply_def Let_def assms(1))
  then show ?thesis by simp
qed

lemma real_Apply_Foreign [real]:
  assumes "h_cell h f = Foreign i" "k_foreign K i h as = Some (h', v)"
  shows "realizes K (Apply f as) h e v h'"
proof -
  have "\<exists>s2. step K (regs h as e f w D (O0 OP_APPLY)) = Some (s_return s2 v) \<and> r_dump s2 = D \<and> heap s2 = h'" for w D
    using assms by (auto simp: op_simps op_apply_def Let_def)
  then show ?thesis by (auto intro: returns_at_once)
qed

lemma apply_closure_cases:
  "is_closure h f \<or> is_macro h f \<or> is_promise h f \<Longrightarrow> opexe_0 K OP_APPLY (regs h as e f w D oc) = apply_closure K (regs h as e f w D oc)"
  by (auto simp: op_apply_def Let_def is_closure_def is_macro_def is_promise_def split: cell.splits)

lemma real_Apply_Closure [real]:
  assumes "is_closure h f \<or> is_macro h f \<or> is_promise h f" "car h f = Some cc" "cdr h f = Some ce"
    "new_frame_in_env h ce = (h1, e1)" "car h1 cc = Some ps" "bind_params h1 e1 ps as = Some (h2, Some (x, y))"
    "x = NIL \<or> is_symbol h2 x" "(if x = NIL then Some h2 else new_slot_spec_in_env h2 e1 x y) = Some h3"
    "cdr h3 cc = Some body" "realizes K (Body body) h3 e1 v h'"
  shows "realizes K (Apply f as) h e v h'"
proof -
  have "returns K [] h as e f w (O0 OP_APPLY) v h'" for w
  proof (rule returns_goto)
    show "returns K [] h3 NIL e1 body w (O0 OP_BEGIN) v h'" using assms(10) by simp
    show "step K (regs h as e f w D (O0 OP_APPLY)) = Some (Next (regs h3 NIL e1 body w D (O0 OP_BEGIN)))" for D
      using assms(2-9)
      by (simp only: step_O0 info_0.simps apply_closure_cases [OF assms(1)])
        (cases "x = NIL"; simp add: apply_closure_def s_goto_def)
  qed
  then show ?thesis by simp
qed

lemma real_Apply_Apply [real]:
  assumes "h_cell h f = Proc (O1 OP_PAPPLY)" "passes_check K (O1 OP_PAPPLY) h as f" "car h as = Some g" "cdr h as = Some d"
    "list_star h d = Some (h1, l)" "is_pair h1 l \<or> l = NIL" "realizes K (Apply g l) h1 e v h'"
  shows "realizes K (Apply f as) h e v h'"
proof -
  have "returns K [] h1 l e g w (O0 OP_APPLY) v h'" for w using assms(7) by simp
  then have "returns K [] h as e f w (O1 OP_PAPPLY) v h'" for w
    by (rule returns_goto) (use assms(3-6) in \<open>auto simp: step_checked [OF assms(2)] op_papply_def s_goto_def\<close>)
  then have "returns K [] h as e f w (O0 OP_APPLY) v h'" for w
    by (rule returns_goto) (simp add: op_simps op_apply_def Let_def assms(1))
  then show ?thesis by simp
qed

lemma real_Apply_Eval [real]:
  assumes "h_cell h f = Proc (O1 OP_PEVAL)" "passes_check K (O1 OP_PEVAL) h as f" "car h as = Some c" "cdr h as = Some d"
    "(if d \<noteq> NIL then cadr h as else Some e) = Some e1" "realizes K (Exp c) h e1 v h'"
  shows "realizes K (Apply f as) h e v h'"
proof -
  have "returns K [] h as e1 c w (O0 OP_EVAL) v h'" for w using assms(6) by simp
  then have "returns K [] h as e f w (O1 OP_PEVAL) v h'" for w
    by (rule returns_goto)
      (use assms(3-5) in \<open>auto simp: step_checked [OF assms(2)] op_peval_def s_goto_def eval_in_def split: if_splits\<close>)
  then have "returns K [] h as e f w (O0 OP_APPLY) v h'" for w
    by (rule returns_goto) (simp add: op_simps op_apply_def Let_def assms(1))
  then show ?thesis by simp
qed

lemma real_Apply_Force [real]:
  assumes "h_cell h f = Proc (O4 OP_FORCE)" "passes_check K (O4 OP_FORCE) h as f" "car h as = Some p" "is_promise h p"
    "realizes K (Apply p NIL) h e v h1"
  shows "realizes K (Apply f as) h e v (memcpy_cell h1 p v)"
proof -
  let ?f = "frame_of (O4 OP_SAVE_FORCED) NIL e p" and ?h = "memcpy_cell h1 p v"
  have "returns K [] h1 NIL e p v (O4 OP_SAVE_FORCED) v ?h"
    by (rule returns_at_once) (auto simp: step_def op_save_forced_def)
  then have "returns K [] h as e f w (O4 OP_FORCE) v ?h" for w
    by - (rule returns_push [of K h NIL e p w "O0 OP_APPLY" v h1 ?f],
      use assms(3-5) in \<open>simp_all add: step_checked [OF assms(2)] op_force_def s_goto_def s_save_def\<close>)
  then have "returns K [] h as e f w (O0 OP_APPLY) v ?h" for w
    by (rule returns_goto) (simp add: op_simps op_apply_def Let_def assms(1))
  then show ?thesis by simp
qed

section \<open>Sequences, conditionals, definitions\<close>

lemma real_Body_Value [real]:
  assumes "\<not> is_pair h c"
  shows "realizes K (Body c) h e c h"
proof -
  have "\<exists>s2. step K (regs h a e c w D (O0 OP_BEGIN)) = Some (s_return s2 c) \<and> r_dump s2 = D \<and> heap s2 = h" for a w D
    using assms by (auto simp: op_simps op_begin_def)
  then show ?thesis by (auto intro: returns_at_once)
qed

lemma real_Body_Last [real]:
  assumes "h_cell h c = Pair x NIL" "realizes K (Exp x) h e v h'"
  shows "realizes K (Body c) h e v h'"
proof -
  have "returns K [] h a e x w (O0 OP_EVAL) v h'" for a w using assms(2) by simp
  then have "returns K [] h a e c w (O0 OP_BEGIN) v h'" for a w
    by (rule returns_goto) (use assms(1) in \<open>simp add: op_simps op_begin_def Let_def\<close>)
  then show ?thesis by simp
qed

lemma real_Body_More [real]:
  assumes "h_cell h c = Pair x d" "d \<noteq> NIL" "realizes K (Exp x) h e w h1" "realizes K (Body d) h1 e v h'"
  shows "realizes K (Body c) h e v h'"
proof -
  let ?f = "frame_of (O0 OP_BEGIN) NIL e d"
  have "returns K [] h a e c u (O0 OP_BEGIN) v h'" for a u
    by (rule returns_push [of K h a e x u "O0 OP_EVAL" w h1 ?f])
      (use assms in \<open>simp_all add: op_simps op_begin_def Let_def\<close>)
  then show ?thesis by simp
qed

lemma real_Begin [real]: "realizes K (Body d) h e v h' \<Longrightarrow> realizes K (Form (O0 OP_BEGIN) d) h e v h'"
  by simp

lemma real_Quote [real]:
  assumes "car h d = Some v"
  shows "realizes K (Form (O0 OP_QUOTE) d) h e v h"
proof -
  have "\<exists>s2. step K (regs h a e d w D (O0 OP_QUOTE)) = Some (s_return s2 v) \<and> r_dump s2 = D \<and> heap s2 = h" for a w D
    using assms by (auto simp: op_simps op_quote_def)
  then show ?thesis by (auto intro: returns_at_once)
qed

lemma real_Lambda [real]:
  assumes "mk_closure h d e = (h', v)"
  shows "realizes K (Form (O0 OP_LAMBDA) d) h e v h'"
proof -
  have "\<exists>s2. step K (regs h a e d w D (O0 OP_LAMBDA)) = Some (s_return s2 v) \<and> r_dump s2 = D \<and> heap s2 = h'" for a w D
    using assms by (auto simp: op_simps op_lambda_def)
  then show ?thesis by (auto intro: returns_at_once)
qed

lemma real_If [real]:
  assumes "car h d = Some t" "cdr h d = Some d1" "realizes K (Exp t) h e w h1"
    "(if is_true w then car h1 d1 else cadr h1 d1) = Some c" "realizes K (Exp c) h1 e v h'"
  shows "realizes K (Form (O0 OP_IF0) d) h e v h'"
proof -
  let ?f = "frame_of (O0 OP_IF1) NIL e d1"
  have "returns K [] h1 NIL e c w (O0 OP_EVAL) v h'" using assms(5) by simp
  then have "returns K [] h1 NIL e d1 w (O0 OP_IF1) v h'"
    by (rule returns_goto) (use assms(4) in \<open>auto simp: op_simps op_if1_def split: if_splits\<close>)
  then have "returns K [] h a e d u (O0 OP_IF0) v h'" for a u
    by - (rule returns_push [of K h a e t u "O0 OP_EVAL" w h1 ?f],
      use assms(1-3) in \<open>simp_all add: op_simps op_if0_def\<close>)
  then show ?thesis by simp
qed

lemma real_Set [real]:
  assumes "car h d = Some x" "cadr h d = Some c" "realizes K (Exp c) h e v h1"
    "find_slot_in_env h1 e x True = Some s" "s \<noteq> NIL" "set_slot_in_env h1 s v = Some h'"
  shows "realizes K (Form (O0 OP_SET0) d) h e v h'"
proof -
  let ?f = "frame_of (O0 OP_SET1) NIL e x"
  have "returns K [] h1 NIL e x v (O0 OP_SET1) v h'"
    by (rule returns_at_once) (use assms(4-6) in \<open>auto simp: op_simps op_set1_def\<close>)
  then have "returns K [] h a e d u (O0 OP_SET0) v h'" for a u
    by - (rule returns_push [of K h a e c u "O0 OP_EVAL" v h1 ?f],
      use assms(1-3) in \<open>simp_all add: op_simps op_set0_def\<close>)
  then show ?thesis by simp
qed

lemma returns_define:
  assumes "define_here h e x v = Some h'"
  shows "returns K [] h NIL e x v (O0 OP_DEF1) x h'"
  by (rule returns_at_once) (use assms in \<open>auto simp: op_simps op_def1_def\<close>)

lemma real_Define [real]:
  assumes "car h d = Some x" "is_symbol h x" "cadr h d = Some c"
    "is_pair h c \<longrightarrow> (\<exists>s. cadr h c = Some s \<and> prints_empty h s = Some False)" "symname h x \<noteq> None"
    "realizes K (Exp c) h e v h1" "define_here h1 e x v = Some h'"
  shows "realizes K (Form (O0 OP_DEF0) d) h e x h'"
proof -
  let ?f = "frame_of (O0 OP_DEF1) NIL e x"
  have "\<not> is_pair h x" using assms(2) by (auto simp: is_symbol_def is_pair_def split: cell.splits)
  then have "step K (regs h a e d u D (O0 OP_DEF0)) = Some (Next (regs h a e c u (?f # D) (O0 OP_EVAL)))" for a u D
    using assms(1-5) by (auto simp: op_simps op_def0_def Let_def)
  then have "returns K [] h a e d u (O0 OP_DEF0) x h'" for a u
    by - (rule returns_push [of K h a e c u "O0 OP_EVAL" v h1 ?f],
      use assms(6) returns_define [OF assms(7)] in simp_all)
  then show ?thesis by simp
qed

lemma real_Define_Fun [real]:
  assumes "car h d = Some p" "h_cell h p = Pair x ps" "is_symbol h x" "cdr h d = Some body"
    "cons h ps body = (h1, q)" "cons h1 (k_LAMBDA K) q = (h2, c)" "is_symbol h2 x"
    "realizes K (Exp c) h2 e v h3" "define_here h3 e x v = Some h'"
  shows "realizes K (Form (O0 OP_DEF0) d) h e x h'"
proof -
  let ?f = "frame_of (O0 OP_DEF1) NIL e x"
  have "step K (regs h a e d u D (O0 OP_DEF0)) = Some (Next (regs h2 a e c u (?f # D) (O0 OP_EVAL)))" for a u D
    using assms(1-7) by (auto simp: op_simps op_def0_def Let_def)
  then have "returns K [] h a e d u (O0 OP_DEF0) x h'" for a u
    by - (rule returns_push [of K h2 a e c u "O0 OP_EVAL" v h3 ?f],
      use assms(8) returns_define [OF assms(9)] in simp_all)
  then show ?thesis by simp
qed

end
