(* ===== verification/Scheme_Correct.thy ===== *)
theory Scheme_Correct
  imports Scheme_Refinement
begin

text \<open>The remaining rules (\<open>let\<close>, \<open>cond\<close>, \<open>and\<close>, \<open>or\<close>, \<open>case\<close>, promises, macros) and the refinement theorem.\<close>

section \<open>let, let*, letrec\<close>

lemma real_Lets_End [real]:
  "\<lbrakk>\<not> is_pair h d; reverse_in_place h NIL a = Some (h', l)\<rbrakk> \<Longrightarrow> realizes K (Lets a d) h e l h'"
  by (auto simp: op_simps op_let1_def Let_def intro: collects_end)

lemma real_Lets_More [real]:
  "\<lbrakk>h_cell h d = Pair b d1; is_pair h b; cadr h b = Some c; realizes K (Exp c) h e w h1; cons h1 w a = (h2, a1);
    realizes K (Lets a1 d1) h2 e l h'\<rbrakk> \<Longrightarrow> realizes K (Lets a d) h e l h'"
  by (auto simp: op_simps op_let1_def Let_def intro: collects_more)

lemma returns_let0:
  assumes "let_bindings h d = Some b" "cons h d NIL = (h1, a)" "realizes K (Lets a b) h1 e l h2" "car h2 l = Some d1"
    "cdr h2 l = Some ws" "\<And>w. returns K [] h2 ws e d1 w (O0 OP_LET2) v h'"
  shows "realizes K (Form (O0 OP_LET0) d) h e v h'"
proof -
  have "returns K [] h NIL e b d (O0 OP_LET1) v h'"
    using assms(3,6) by (auto intro: collects_returns [OF _ assms(2,4,5), where ?oc' = "O0 OP_LET2"])
  then have "returns K [] h a0 e d w (O0 OP_LET0) v h'" for a0 w
    by (rule returns_goto) (use assms(1) in \<open>simp add: op_simps op_let0_def\<close>)
  then show ?thesis by simp
qed

lemma real_Let [real]:
  assumes "let_bindings h d = Some b" "cons h d NIL = (h1, a)" "realizes K (Lets a b) h1 e l h2" "car h2 l = Some d1"
    "cdr h2 l = Some ws" "new_frame_in_env h2 e = (h3, e1)" "let_bindings h3 d1 = Some b1" "bind_let h3 e1 b1 ws = Some h4"
    "car h4 d1 = Some n" "\<not> is_symbol h4 n" "cdr h4 d1 = Some body" "realizes K (Body body) h4 e1 v h'"
  shows "realizes K (Form (O0 OP_LET0) d) h e v h'"
proof (rule returns_let0 [OF assms(1-5)])
  fix w
  have "returns K [] h4 NIL e1 body w (O0 OP_BEGIN) v h'" using assms(12) by simp
  then show "returns K [] h2 ws e d1 w (O0 OP_LET2) v h'"
    by (rule returns_goto) (use assms(6-11) in \<open>simp add: op_simps op_let2_def Let_def\<close>)
qed

lemma real_Named_Let [real]:
  assumes "let_bindings h d = Some b" "cons h d NIL = (h1, a)" "realizes K (Lets a b) h1 e l h2" "car h2 l = Some d1"
    "cdr h2 l = Some ws" "new_frame_in_env h2 e = (h3, e1)" "let_bindings h3 d1 = Some b1" "bind_let h3 e1 b1 ws = Some h4"
    "car h4 d1 = Some n" "is_symbol h4 n" "cadr h4 d1 = Some bs" "is_pair h4 bs" "let_names h4 bs NIL = Some (h5, ns)"
    "reverse_in_place h5 NIL ns = Some (h6, ps)" "cddr h6 d1 = Some body" "cons h6 ps body = (h7, c)"
    "mk_closure h7 c e1 = (h8, f)" "new_slot_spec_in_env h8 e1 n f = Some h9" "realizes K (Body body) h9 e1 v h'"
  shows "realizes K (Form (O0 OP_LET0) d) h e v h'"
proof (rule returns_let0 [OF assms(1-5)])
  fix w
  have "returns K [] h9 NIL e1 body w (O0 OP_BEGIN) v h'" using assms(19) by simp
  then show "returns K [] h2 ws e d1 w (O0 OP_LET2) v h'"
    by (rule returns_goto) (use assms(6-18) in \<open>simp add: op_simps op_let2_def Let_def\<close>)
qed

lemma real_Let_Star_Empty [real]:
  assumes "car h d = Some NIL" "cdr h d = Some d1" "new_frame_in_env h e = (h1, e1)" "realizes K (Body d1) h1 e1 v h'"
  shows "realizes K (Form (O0 OP_LET0AST) d) h e v h'"
proof -
  have "returns K [] h1 a e1 d1 w (O0 OP_BEGIN) v h'" for a w using assms(4) by simp
  then have "returns K [] h a e d w (O0 OP_LET0AST) v h'" for a w
    by (rule returns_goto) (use assms(1-3) in \<open>simp add: op_simps op_let0ast_def Let_def\<close>)
  then show ?thesis by simp
qed

lemma real_Let_Star [real]:
  assumes "car h d = Some b" "b \<noteq> NIL" "is_pair h b" "cdr h d = Some d1" "cadaar h d = Some c"
    "realizes K (Exp c) h e w h1" "new_frame_in_env h1 e = (h2, e1)" "realizes K (Stars w b d1) h2 e1 v h'"
  shows "realizes K (Form (O0 OP_LET0AST) d) h e v h'"
proof -
  let ?f = "frame_of (O0 OP_LET1AST) d1 e b"
  have "returns K [] h2 d1 e1 b w (O0 OP_LET2AST) v h'" using assms(8) by simp
  then have "returns K [] h1 d1 e b w (O0 OP_LET1AST) v h'"
    by (rule returns_goto) (use assms(7) in \<open>simp add: op_simps op_let1ast_def\<close>)
  then have "returns K [] h a e d u (O0 OP_LET0AST) v h'" for a u
    by - (rule returns_push [of K h a e c u "O0 OP_EVAL" w h1 ?f],
      use assms(1-6) in \<open>simp_all add: op_simps op_let0ast_def Let_def\<close>)
  then show ?thesis by simp
qed

lemma real_Stars_End [real]:
  assumes "caar h b = Some p" "new_slot_spec_in_env h e p w = Some h1" "cdr h1 b = Some b1" "\<not> is_pair h1 b1"
    "realizes K (Body d) h1 e v h'"
  shows "realizes K (Stars w b d) h e v h'"
proof -
  have "returns K [] h1 NIL e d w (O0 OP_BEGIN) v h'" using assms(5) by simp
  then have "returns K [] h d e b w (O0 OP_LET2AST) v h'"
    by (rule returns_goto) (use assms(1-4) in \<open>simp add: op_simps op_let2ast_def Let_def\<close>)
  then show ?thesis by simp
qed

lemma real_Stars_More [real]:
  assumes "caar h b = Some p" "new_slot_spec_in_env h e p w = Some h1" "cdr h1 b = Some b1" "is_pair h1 b1"
    "cadar h1 b1 = Some c" "realizes K (Exp c) h1 e w1 h2" "realizes K (Stars w1 b1 d) h2 e v h'"
  shows "realizes K (Stars w b d) h e v h'"
proof -
  let ?f = "frame_of (O0 OP_LET2AST) d e b1"
  have "returns K [] h d e b w (O0 OP_LET2AST) v h'"
    by (rule returns_push [of K h1 NIL e c w "O0 OP_EVAL" w1 h2 ?f])
      (use assms in \<open>simp_all add: op_simps op_let2ast_def Let_def\<close>)
  then show ?thesis by simp
qed

lemma real_Recs_End [real]:
  "\<lbrakk>\<not> is_pair h d; reverse_in_place h NIL a = Some (h', l)\<rbrakk> \<Longrightarrow> realizes K (Recs a d) h e l h'"
  by (auto simp: op_simps op_let1rec_def Let_def intro: collects_end)

lemma cadar_pair: "h_cell h d = Pair b d1 \<Longrightarrow> cadar h d = cadr h b"
  by (simp add: cadar_def cdar_def cadr_def)

lemma real_Recs_More [real]:
  "\<lbrakk>h_cell h d = Pair b d1; cadr h b = Some c; realizes K (Exp c) h e w h1; cons h1 w a = (h2, a1);
    realizes K (Recs a1 d1) h2 e l h'\<rbrakk> \<Longrightarrow> realizes K (Recs a d) h e l h'"
  by (auto simp: op_simps op_let1rec_def Let_def cadar_pair intro: collects_more)

lemma real_Let_Rec [real]:
  assumes "new_frame_in_env h e = (h1, e1)" "car h1 d = Some b" "cons h1 d NIL = (h2, a)" "realizes K (Recs a b) h2 e1 l h3"
    "car h3 l = Some d1" "cdr h3 l = Some ws" "car h3 d1 = Some b1" "bind_let h3 e1 b1 ws = Some h4"
    "cdr h4 d1 = Some body" "realizes K (Body body) h4 e1 v h'"
  shows "realizes K (Form (O1 OP_LET0REC) d) h e v h'"
proof -
  have "returns K [] h4 NIL e1 body w (O0 OP_BEGIN) v h'" for w using assms(10) by simp
  then have l2: "returns K [] h3 ws e1 d1 w (O1 OP_LET2REC) v h'" for w
    by (rule returns_goto) (use assms(7-9) in \<open>simp add: op_simps op_let2rec_def\<close>)
  have "returns K [] h1 NIL e1 b d (O1 OP_LET1REC) v h'"
    using assms(4) l2 by (auto intro: collects_returns [OF _ assms(3,5,6), where ?oc' = "O1 OP_LET2REC"])
  then have "returns K [] h a0 e d w (O1 OP_LET0REC) v h'" for a0 w
    by (rule returns_goto) (use assms(1,2) in \<open>simp add: op_simps op_let0rec_def\<close>)
  then show ?thesis by simp
qed

section \<open>cond, and, or, case\<close>

lemma real_Cond [real]:
  assumes "is_pair h d" "realizes K (Clauses d) h e v h'"
  shows "realizes K (Form (O1 OP_COND0) d) h e v h'"
proof -
  obtain t where t: "caar h d = Some t" "\<And>a w. returns K [frame_of (O1 OP_COND1) NIL e d] h a e t w (O0 OP_EVAL) v h'"
    using assms(2) by auto
  have "returns K [] h a e d w (O1 OP_COND0) v h'" for a w
    by (rule returns_pushed [OF t(2)]) (use assms(1) t(1) in \<open>simp add: op_simps op_cond0_def\<close>)
  then show ?thesis by simp
qed

lemma returns_exp:
  assumes "realizes K (Exp c) h e u h1" "returns K [] h1 a1 e1 c1 u oc v h'"
  shows "returns K [frame_of oc a1 e1 c1] h a e c w (O0 OP_EVAL) v h'"
  using assms by (intro returns_seq [where ?h1.0 = h1 and u = u]) simp_all

text \<open>A clause, from the value \<open>w\<close> of its test on.\<close>

lemma real_clause:
  assumes "caar h d = Some t" "realizes K (Exp t) h e w h1" "returns K [] h1 NIL e d w (O1 OP_COND1) v h'"
  shows "realizes K (Clauses d) h e v h'"
  using assms(1) returns_exp [OF assms(2,3)] by simp

lemma real_Clause_Value [real]:
  assumes "caar h d = Some t" "realizes K (Exp t) h e v h'" "is_true v" "cdar h' d = Some NIL"
  shows "realizes K (Clauses d) h e v h'"
  by (rule real_clause [OF assms(1,2)], rule returns_at_once) (use assms(3,4) in \<open>auto simp: op_simps op_cond1_def Let_def\<close>)

lemma real_Clause_Body [real]:
  assumes "caar h d = Some t" "realizes K (Exp t) h e w h1" "is_true w" "cdar h1 d = Some b" "b \<noteq> NIL"
    "car h1 b = Some x" "x \<noteq> k_FEED_TO K" "realizes K (Body b) h1 e v h'"
  shows "realizes K (Clauses d) h e v h'"
proof (rule real_clause [OF assms(1,2)], rule returns_goto)
  show "returns K [] h1 NIL e b w (O0 OP_BEGIN) v h'" using assms(8) by simp
qed (use assms(3-7) in \<open>simp add: op_simps op_cond1_def Let_def\<close>)

lemma real_Clause_Feed [real]:
  assumes "caar h d = Some t" "realizes K (Exp t) h e w h1" "is_true w" "cdar h1 d = Some b" "b \<noteq> NIL"
    "car h1 b = Some (k_FEED_TO K)" "cdr h1 b = Some r" "is_pair h1 r" "quote_list K h1 w = (h2, q)" "cons h2 q NIL = (h3, p)"
    "cadr h3 b = Some f" "cons h3 f p = (h4, c)" "realizes K (Exp c) h4 e v h'"
  shows "realizes K (Clauses d) h e v h'"
proof (rule real_clause [OF assms(1,2)], rule returns_goto)
  show "returns K [] h4 NIL e c w (O0 OP_EVAL) v h'" using assms(13) by simp
qed (use assms(3-12) in \<open>simp add: op_simps op_cond1_def Let_def\<close>)

lemma real_Clause_None [real]:
  assumes "caar h d = Some t" "realizes K (Exp t) h e w h1" "\<not> is_true w" "cdr h1 d = Some NIL"
  shows "realizes K (Clauses d) h e NIL h1"
  by (rule real_clause [OF assms(1,2)], rule returns_at_once) (use assms(3,4) in \<open>auto simp: op_simps op_cond1_def Let_def\<close>)

lemma real_Clause_Next [real]:
  assumes "caar h d = Some t" "realizes K (Exp t) h e w h1" "\<not> is_true w" "cdr h1 d = Some d1" "d1 \<noteq> NIL"
    "realizes K (Clauses d1) h1 e v h'"
  shows "realizes K (Clauses d) h e v h'"
proof (rule real_clause [OF assms(1,2)])
  obtain t1 where t1: "caar h1 d1 = Some t1" "\<And>a w. returns K [frame_of (O1 OP_COND1) NIL e d1] h1 a e t1 w (O0 OP_EVAL) v h'"
    using assms(6) by auto
  show "returns K [] h1 NIL e d w (O1 OP_COND1) v h'"
    by (rule returns_pushed [OF t1(2)]) (use assms(3-5) t1(1) in \<open>simp add: op_simps op_cond1_def Let_def\<close>)
qed

lemma real_And_Empty [real]: "realizes K (Form (O1 OP_AND0) NIL) h e T_OBJ h"
proof -
  have "\<exists>s2. step K (regs h a e NIL w D (O1 OP_AND0)) = Some (s_return s2 T_OBJ) \<and> r_dump s2 = D \<and> heap s2 = h" for a w D
    by (auto simp: op_simps op_and0_def)
  then show ?thesis by (auto intro: returns_at_once)
qed

lemma real_And [real]:
  assumes "d \<noteq> NIL" "realizes K (Conj d) h e v h'"
  shows "realizes K (Form (O1 OP_AND0) d) h e v h'"
proof -
  obtain c d1 where c: "car h d = Some c" "cdr h d = Some d1"
    "\<And>a w. returns K [frame_of (O1 OP_AND1) NIL e d1] h a e c w (O0 OP_EVAL) v h'" using assms(2) by auto
  have "returns K [] h a e d w (O1 OP_AND0) v h'" for a w
    by (rule returns_pushed [OF c(3)]) (use assms(1) c(1,2) in \<open>simp add: op_simps op_and0_def\<close>)
  then show ?thesis by simp
qed

lemma real_Conj_False [real]:
  assumes "car h d = Some c" "cdr h d = Some d1" "realizes K (Exp c) h e v h'" "\<not> is_true v \<or> d1 = NIL"
  shows "realizes K (Conj d) h e v h'"
proof -
  have "returns K [] h' NIL e d1 v (O1 OP_AND1) v h'"
    by (rule returns_at_once) (use assms(4) in \<open>auto simp: op_simps op_and1_def\<close>)
  then show ?thesis using assms(1,2) returns_exp [OF assms(3)] by simp
qed

lemma real_Conj_True [real]:
  assumes "car h d = Some c" "cdr h d = Some d1" "realizes K (Exp c) h e w h1" "is_true w" "d1 \<noteq> NIL"
    "realizes K (Conj d1) h1 e v h'"
  shows "realizes K (Conj d) h e v h'"
proof -
  obtain c1 d2 where c1: "car h1 d1 = Some c1" "cdr h1 d1 = Some d2"
    "\<And>a w. returns K [frame_of (O1 OP_AND1) NIL e d2] h1 a e c1 w (O0 OP_EVAL) v h'" using assms(6) by auto
  have "returns K [] h1 NIL e d1 w (O1 OP_AND1) v h'"
    by (rule returns_pushed [OF c1(3)]) (use assms(4,5) c1(1,2) in \<open>simp add: op_simps op_and1_def\<close>)
  then show ?thesis using assms(1,2) returns_exp [OF assms(3)] by simp
qed

lemma real_Or_Empty [real]: "realizes K (Form (O1 OP_OR0) NIL) h e F_OBJ h"
proof -
  have "\<exists>s2. step K (regs h a e NIL w D (O1 OP_OR0)) = Some (s_return s2 F_OBJ) \<and> r_dump s2 = D \<and> heap s2 = h" for a w D
    by (auto simp: op_simps op_or0_def)
  then show ?thesis by (auto intro: returns_at_once)
qed

lemma real_Or [real]:
  assumes "d \<noteq> NIL" "realizes K (Disj d) h e v h'"
  shows "realizes K (Form (O1 OP_OR0) d) h e v h'"
proof -
  obtain c d1 where c: "car h d = Some c" "cdr h d = Some d1"
    "\<And>a w. returns K [frame_of (O1 OP_OR1) NIL e d1] h a e c w (O0 OP_EVAL) v h'" using assms(2) by auto
  have "returns K [] h a e d w (O1 OP_OR0) v h'" for a w
    by (rule returns_pushed [OF c(3)]) (use assms(1) c(1,2) in \<open>simp add: op_simps op_or0_def\<close>)
  then show ?thesis by simp
qed

lemma real_Disj_True [real]:
  assumes "car h d = Some c" "cdr h d = Some d1" "realizes K (Exp c) h e v h'" "is_true v \<or> d1 = NIL"
  shows "realizes K (Disj d) h e v h'"
proof -
  have "returns K [] h' NIL e d1 v (O1 OP_OR1) v h'"
    by (rule returns_at_once) (use assms(4) in \<open>auto simp: op_simps op_or1_def\<close>)
  then show ?thesis using assms(1,2) returns_exp [OF assms(3)] by simp
qed

lemma real_Disj_False [real]:
  assumes "car h d = Some c" "cdr h d = Some d1" "realizes K (Exp c) h e w h1" "\<not> is_true w" "d1 \<noteq> NIL"
    "realizes K (Disj d1) h1 e v h'"
  shows "realizes K (Disj d) h e v h'"
proof -
  obtain c1 d2 where c1: "car h1 d1 = Some c1" "cdr h1 d1 = Some d2"
    "\<And>a w. returns K [frame_of (O1 OP_OR1) NIL e d2] h1 a e c1 w (O0 OP_EVAL) v h'" using assms(6) by auto
  have "returns K [] h1 NIL e d1 w (O1 OP_OR1) v h'"
    by (rule returns_pushed [OF c1(3)]) (use assms(4,5) c1(1,2) in \<open>simp add: op_simps op_or1_def\<close>)
  then show ?thesis using assms(1,2) returns_exp [OF assms(3)] by simp
qed


text \<open>The two first rounds of a \<open>case\<close>, up to the choice of a clause.\<close>

lemma returns_case:
  assumes "car h d = Some c" "cdr h d = Some d1" "realizes K (Exp c) h e w h1" "returns K [] h1 NIL e d1 w (O1 OP_CASE1) v h'"
  shows "realizes K (Form (O1 OP_CASE0) d) h e v h'"
proof -
  have "returns K [] h a e d u (O1 OP_CASE0) v h'" for a u
    by (rule returns_pushed [OF returns_exp [OF assms(3,4)]]) (use assms(1,2) in \<open>simp add: op_simps op_case0_def\<close>)
  then show ?thesis by simp
qed

lemma real_Case_None [real]:
  assumes "car h d = Some c" "cdr h d = Some d1" "realizes K (Exp c) h e w h1" "case_clause h1 d1 w = Some (Inr NIL)"
  shows "realizes K (Form (O1 OP_CASE0) d) h e NIL h1"
  by (rule returns_case [OF assms(1-3)], rule returns_at_once) (use assms(4) in \<open>auto simp: op_simps op_case1_def\<close>)

lemma real_Case_Clause [real]:
  assumes "car h d = Some c" "cdr h d = Some d1" "realizes K (Exp c) h e w h1" "case_clause h1 d1 w = Some (Inr x)" "x \<noteq> NIL"
    "caar h1 x = Some y" "is_pair h1 y" "cdar h1 x = Some b" "realizes K (Body b) h1 e v h'"
  shows "realizes K (Form (O1 OP_CASE0) d) h e v h'"
proof (rule returns_case [OF assms(1-3)], rule returns_goto)
  show "returns K [] h1 NIL e b w (O0 OP_BEGIN) v h'" using assms(9) by simp
qed (use assms(4-8) in \<open>simp add: op_simps op_case1_def\<close>)

lemma real_Case_Else [real]:
  assumes "car h d = Some c" "cdr h d = Some d1" "realizes K (Exp c) h e w h1" "case_clause h1 d1 w = Some (Inr x)" "x \<noteq> NIL"
    "caar h1 x = Some y" "\<not> is_pair h1 y" "cdar h1 x = Some b" "realizes K (Exp y) h1 e u h2" "is_true u"
    "realizes K (Body b) h2 e v h'"
  shows "realizes K (Form (O1 OP_CASE0) d) h e v h'"
proof (rule returns_case [OF assms(1-3)])
  have "returns K [] h2 NIL e b u (O0 OP_BEGIN) v h'" using assms(11) by simp
  then have c2: "returns K [] h2 NIL e b u (O1 OP_CASE2) v h'"
    by (rule returns_goto) (use assms(10) in \<open>simp add: op_simps op_case2_def\<close>)
  show "returns K [] h1 NIL e d1 w (O1 OP_CASE1) v h'"
    by (rule returns_pushed [OF returns_exp [OF assms(9) c2]]) (use assms(4-8) in \<open>simp add: op_simps op_case1_def\<close>)
qed

section \<open>Promises, streams, macros\<close>

lemma real_Delay [real]:
  assumes "mk_promise h d e = Some (h', v)"
  shows "realizes K (Form (O1 OP_DELAY) d) h e v h'"
proof -
  have "\<exists>s2. step K (regs h a e d w D (O1 OP_DELAY)) = Some (s_return s2 v) \<and> r_dump s2 = D \<and> heap s2 = h'" for a w D
    using assms by (auto simp: op_simps op_delay_def)
  then show ?thesis by (auto intro: returns_at_once)
qed

lemma real_Cons_Stream [real]:
  assumes "car h d = Some c" "cdr h d = Some d1" "realizes K (Exp c) h e w h1" "mk_promise h1 d1 e = Some (h2, x)"
    "cons h2 w x = (h', v)"
  shows "realizes K (Form (O1 OP_C0STREAM) d) h e v h'"
proof -
  have c1: "returns K [] h1 NIL e d1 w (O1 OP_C1STREAM) v h'"
    by (rule returns_at_once) (use assms(4,5) in \<open>auto simp: op_simps op_c1stream_def\<close>)
  have "returns K [] h a e d u (O1 OP_C0STREAM) v h'" for a u
    by (rule returns_pushed [OF returns_exp [OF assms(3) c1]]) (use assms(1,2) in \<open>simp add: op_simps op_c0stream_def\<close>)
  then show ?thesis by simp
qed

lemma real_Macro_Def [real]:
  assumes "car h d = Some x" "is_symbol h x" "cadr h d = Some c" "realizes K (Exp c) h e v h1"
    "set_type Macro h1 v = Some h2" "define_here h2 e x v = Some h'"
  shows "realizes K (Form (O1 OP_MACRO0) d) h e x h'"
proof -
  have m1: "returns K [] h1 NIL e x v (O1 OP_MACRO1) x h'"
    by (rule returns_at_once) (use assms(5,6) in \<open>auto simp: op_simps op_macro1_def\<close>)
  have "\<not> is_pair h x" using assms(2) by (auto simp: is_symbol_def is_pair_def split: cell.splits)
  then have "returns K [] h a e d u (O1 OP_MACRO0) x h'" for a u
    by - (rule returns_pushed [OF returns_exp [OF assms(4) m1]],
      use assms(1-3) in \<open>simp add: op_simps op_macro0_def Let_def\<close>)
  then show ?thesis by simp
qed

section \<open>Refinement\<close>

lemma ev_realizes: "ev K ph h e v h' \<Longrightarrow> realizes K ph h e v h'"
  by (induction rule: ev.induct) (rule real; assumption)+

text \<open>C1: the evaluation cycle implements the natural semantics (in which no macro expands to a vector): if an
  expression evaluates to a value, then the rounds of the cycle, started on it, resume the top frame of
  the stack with that value and store, all other frames untouched. And \<open>Eval_Cycle\<close> itself, started on an
  empty stack, makes a fixed number of checks of the time: if none finds the limit exceeded, it
  stops with that value and store, and otherwise it reports that the time is up.
\<close>

theorem cycle_refines_semantics:
  assumes "ev K (Exp c) h e v h'"
  shows "leads K (regs h a e c w (f # D) (O0 OP_EVAL)) (regs h' (f_args f) (f_envir f) (f_code f) v D (f_op f)) \<and>
    (\<exists>n. \<forall>late.
       if \<forall>k < n. late k = None
       then \<exists>s. eval_timed K late 0 (regs h a e c w [] (O0 OP_EVAL)) = Some (Stop s) \<and> r_value s = v \<and> heap s = h'
       else \<exists>msg s. eval_timed K late 0 (regs h a e c w [] (O0 OP_EVAL)) = Some (Throw msg NIL s))"
proof
  have r: "returns K [] h a e c w (O0 OP_EVAL) v h'" using ev_realizes [OF assms] by simp
  then show "leads K (regs h a e c w (f # D) (O0 OP_EVAL)) (regs h' (f_args f) (f_envir f) (f_code f) v D (f_op f))"
    by (rule returns_frame)
  obtain s s2 where s: "leads K (regs h a e c w [] (O0 OP_EVAL)) s" "step K s = Some (s_return s2 v)" "r_dump s2 = []" "heap s2 = h'"
    using r unfolding returns_def by fastforce
  have last: "eval_timed K late k s = (case late k of Some msg \<Rightarrow> Some (Throw msg NIL s) | None \<Rightarrow> Some (Stop (s2\<lparr>r_value := v\<rparr>)))"
    for late k
    by (subst eval_timed.simps) (simp add: s(2) s_return_def s(3) split: option.split)
  from leads_eval_timed [OF s(1)] obtain n where n: "\<And>late k. if \<forall>i < n. late (k + i) = None
      then eval_timed K late k (regs h a e c w [] (O0 OP_EVAL)) = eval_timed K late (k + n) s
      else \<exists>msg s2. eval_timed K late k (regs h a e c w [] (O0 OP_EVAL)) = Some (Throw msg NIL s2)" by blast
  show "\<exists>n. \<forall>late. if \<forall>k < n. late k = None
       then \<exists>s. eval_timed K late 0 (regs h a e c w [] (O0 OP_EVAL)) = Some (Stop s) \<and> r_value s = v \<and> heap s = h'
       else \<exists>msg s. eval_timed K late 0 (regs h a e c w [] (O0 OP_EVAL)) = Some (Throw msg NIL s)"
  proof (rule exI [of _ "Suc n"], intro allI)
    fix late :: "nat \<Rightarrow> string option"
    show "if \<forall>k < Suc n. late k = None
       then \<exists>s. eval_timed K late 0 (regs h a e c w [] (O0 OP_EVAL)) = Some (Stop s) \<and> r_value s = v \<and> heap s = h'
       else \<exists>msg s. eval_timed K late 0 (regs h a e c w [] (O0 OP_EVAL)) = Some (Throw msg NIL s)"
      using n [of late 0] s(4) by (cases "late n") (auto simp: last less_Suc_eq split: if_splits)
  qed
qed

end
