(* ===== verification/Scheme_Tail.thy ===== *)
theory Scheme_Tail
  imports Scheme_Correct
begin

text \<open>Tail calls do not use the dump stack.\<close>

text \<open>\<open>lasts K b h e c h'\<close>: the expressions of the sequence \<open>b\<close> before its last one, \<open>c\<close>, have been evaluated.\<close>

inductive lasts :: "globals \<Rightarrow> addr \<Rightarrow> store \<Rightarrow> addr \<Rightarrow> addr \<Rightarrow> store \<Rightarrow> bool" for K where
  Last: "h_cell h b = Pair c NIL \<Longrightarrow> lasts K b h e c h"
| Before: "\<lbrakk>h_cell h b = Pair x d; d \<noteq> NIL; ev K (Exp x) h e w h1; lasts K d h1 e c h'\<rbrakk> \<Longrightarrow> lasts K b h e c h'"

text \<open>
  \<open>tail_of K (h, e, c) (h', e', c')\<close>: what is left of the evaluation of \<open>c\<close> is that of \<open>c'\<close>, its tail expression: the branch
  an \<open>if\<close> takes, the last expression of a \<open>begin\<close>, and for the application of a closure the last
  expression of the body.
\<close>

inductive tail_of :: "globals \<Rightarrow> store \<times> addr \<times> addr \<Rightarrow> store \<times> addr \<times> addr \<Rightarrow> bool" for K where
  Tail_If: "\<lbrakk>h_cell h c = Pair x d; is_syntax h x; syntaxnum h x = Some (O0 OP_IF0); car h d = Some t; cdr h d = Some d1;
    ev K (Exp t) h e w h1; (if is_true w then car h1 d1 else cadr h1 d1) = Some c1\<rbrakk>
    \<Longrightarrow> tail_of K (h, e, c) (h1, e, c1)"
| Tail_Begin: "\<lbrakk>h_cell h c = Pair x d; is_syntax h x; syntaxnum h x = Some (O0 OP_BEGIN); lasts K d h e c1 h1\<rbrakk>
    \<Longrightarrow> tail_of K (h, e, c) (h1, e, c1)"
| Tail_Call: "\<lbrakk>h_cell h c = Pair x d; \<not> is_syntax h x; ev K (Exp x) h e f h1; \<not> is_macro h1 f;
    cdr h1 c = Some d1; cons h1 f NIL = (h2, a); ev K (Args a d1) h2 e l h3; car h3 l = Some g; cdr h3 l = Some as;
    is_closure h3 g; car h3 g = Some cc; cdr h3 g = Some ce; new_frame_in_env h3 ce = (h4, e1); car h4 cc = Some ps;
    bind_params h4 e1 ps as = Some (h5, Some (NIL, y)); cdr h5 cc = Some body; lasts K body h5 e1 c1 h6\<rbrakk>
    \<Longrightarrow> tail_of K (h, e, c) (h6, e1, c1)"

lemma lasts_leads: "lasts K b h e c h' \<Longrightarrow> \<exists>a' w'. leads K (regs h a e b w D (O0 OP_BEGIN)) (regs h' a' e c w' D (O0 OP_EVAL))"
proof (induction arbitrary: a w rule: lasts.induct)
  case (Last h b c e)
  then have "step K (regs h a e b w D (O0 OP_BEGIN)) = Some (Next (regs h a e c w D (O0 OP_EVAL)))"
    by (simp add: op_simps op_begin_def Let_def)
  then show ?case using leads_step by blast
next
  case (Before h b x d e u h1 c h')
  let ?f = "frame_of (O0 OP_BEGIN) NIL e d"
  have "step K (regs h a e b w D (O0 OP_BEGIN)) = Some (Next (regs h a e x w (?f # D) (O0 OP_EVAL)))"
    using Before(1,2) by (simp add: op_simps op_begin_def Let_def)
  moreover have "leads K (regs h a e x w (?f # D) (O0 OP_EVAL)) (regs h1 NIL e d u D (O0 OP_BEGIN))"
    using returns_frame [of K h a e x w "O0 OP_EVAL" u h1 ?f D] ev_realizes [OF Before(3)] by simp
  ultimately have "leads K (regs h a e b w D (O0 OP_BEGIN)) (regs h1 NIL e d u D (O0 OP_BEGIN))"
    using leads_step by blast
  then show ?case using Before.IH leads_trans by blast
qed

lemma tail_of_leads:
  assumes "tail_of K (h, e, c) (h', e', c')"
  shows "\<exists>a' w'. leads K (regs h a e c w D (O0 OP_EVAL)) (regs h' a' e' c' w' D (O0 OP_EVAL))"
  using assms
proof cases
  case (Tail_If x d t d1 u)
  let ?f = "frame_of (O0 OP_IF1) NIL e d1"
  have "step K (regs h a e c w D (O0 OP_EVAL)) = Some (Next (regs h a e d w D (O0 OP_IF0)))"
    using Tail_If by (simp add: eval_simps not_symbol_pair)
  moreover have "step K (regs h a e d w D (O0 OP_IF0)) = Some (Next (regs h a e t w (?f # D) (O0 OP_EVAL)))"
    using Tail_If by (simp add: op_simps op_if0_def)
  moreover have "leads K (regs h a e t w (?f # D) (O0 OP_EVAL)) (regs h' NIL e d1 u D (O0 OP_IF1))"
    using returns_frame [of K h a e t w "O0 OP_EVAL" u h' ?f D] ev_realizes Tail_If by fastforce
  moreover have "step K (regs h' NIL e d1 u D (O0 OP_IF1)) = Some (Next (regs h' NIL e c' u D (O0 OP_EVAL)))"
    using Tail_If by (auto simp: op_simps op_if1_def split: if_splits)
  ultimately have "leads K (regs h a e c w D (O0 OP_EVAL)) (regs h' NIL e c' u D (O0 OP_EVAL))"
    using leads_step leads_trans leads_refl by metis
  then show ?thesis using Tail_If(1) by blast
next
  case (Tail_Begin x d)
  have "step K (regs h a e c w D (O0 OP_EVAL)) = Some (Next (regs h a e d w D (O0 OP_BEGIN)))"
    using Tail_Begin by (simp add: eval_simps not_symbol_pair)
  moreover obtain a' w' where "leads K (regs h a e d w D (O0 OP_BEGIN)) (regs h' a' e c' w' D (O0 OP_EVAL))"
    using lasts_leads Tail_Begin by blast
  ultimately show ?thesis using leads_step Tail_Begin(1) by blast
next
  case (Tail_Call x d f h1 d1 h2 a1 l h3 g as cc ce h4 ps h5 y body)
  let ?f = "frame_of (O0 OP_E0ARGS) NIL e c"
  have s1: "step K (regs h a e c w D (O0 OP_EVAL)) = Some (Next (regs h a e x w (?f # D) (O0 OP_EVAL)))"
    using Tail_Call(1,2) by (simp add: eval_simps not_symbol_pair)
  have l1: "leads K (regs h a e x w (?f # D) (O0 OP_EVAL)) (regs h1 NIL e c f D (O0 OP_E0ARGS))"
    using returns_frame [of K h a e x w "O0 OP_EVAL" f h1 ?f D] ev_realizes [OF Tail_Call(3)] by simp
  have s2: "step K (regs h1 NIL e c f D (O0 OP_E0ARGS)) = Some (Next (regs h1 NIL e d1 f D (O0 OP_E1ARGS)))"
    using Tail_Call(4,5) by (simp add: op_simps op_e0args_def)
  obtain u where l2: "leads K (regs h1 NIL e d1 f D (O0 OP_E1ARGS)) (regs h3 as e g u D (O0 OP_APPLY))"
    using ev_realizes [OF Tail_Call(7)] Tail_Call(6,8,9) unfolding realizes.simps collects_def by blast
  have s3: "step K (regs h3 as e g u D (O0 OP_APPLY)) = Some (Next (regs h5 NIL e' body u D (O0 OP_BEGIN)))"
    using Tail_Call(11-16)
    by (simp only: step_O0 info_0.simps apply_closure_cases [OF disjI1 [OF Tail_Call(10)]])
      (simp add: apply_closure_def s_goto_def)
  obtain a' w' where l3: "leads K (regs h5 NIL e' body u D (O0 OP_BEGIN)) (regs h' a' e' c' w' D (O0 OP_EVAL))"
    using lasts_leads [OF Tail_Call(17)] by blast
  have "leads K (regs h a e c w D (O0 OP_EVAL)) (regs h3 as e g u D (O0 OP_APPLY))"
    using leads_step [OF s1] leads_trans [OF l1] leads_step [OF s2 l2] by blast
  then show ?thesis using leads_trans leads_step [OF s3 l3] by blast
qed

text \<open>C10: tail calls do not use the stack: however many tail calls lead from an expression to another, the cycle comes
  to evaluate the second with exactly the stack the first was evaluated with.
\<close>

theorem tail_calls_keep_stack:
  assumes "(tail_of K)\<^sup>*\<^sup>* (h, e, c) (h', e', c')"
  shows "\<exists>a' w'. leads K (regs h a e c w D (O0 OP_EVAL)) (regs h' a' e' c' w' D (O0 OP_EVAL))"
proof -
  have "\<exists>a' w'. leads K (regs (fst s) a (fst (snd s)) (snd (snd s)) w D (O0 OP_EVAL))
      (regs (fst s') a' (fst (snd s')) (snd (snd s')) w' D (O0 OP_EVAL))" if "(tail_of K)\<^sup>*\<^sup>* s s'" for s s'
    using that
  proof (induction rule: rtranclp_induct)
    case (step s1 s2)
    obtain h1 e1 c1 h2 e2 c2 where eq: "s1 = (h1, e1, c1)" "s2 = (h2, e2, c2)" by (cases s1; cases s2)
    obtain a1 w1 where "leads K (regs (fst s) a (fst (snd s)) (snd (snd s)) w D (O0 OP_EVAL)) (regs h1 a1 e1 c1 w1 D (O0 OP_EVAL))"
      using step.IH eq(1) by auto
    moreover obtain a2 w2 where "leads K (regs h1 a1 e1 c1 w1 D (O0 OP_EVAL)) (regs h2 a2 e2 c2 w2 D (O0 OP_EVAL))"
      using tail_of_leads step.hyps(2) eq by blast
    ultimately show ?case using leads_trans eq(2) by fastforce
  qed auto
  from this [OF assms] show ?thesis by simp
qed

end
