(* ===== verification/Scheme_Example.thy ===== *)
theory Scheme_Example
  imports Scheme_Tail
begin

text \<open>
  A program in a store, evaluated with the rules of the semantics: \<open>((lambda (x) x) 7)\<close>. The conditional
  equations for the loops let the simplifier run them on concrete stores.
\<close>

section \<open>Running the loops\<close>

named_theorems run_simps \<open>conditional equations for running the loops\<close>

lemma relink_loop_run [run_simps]:
  "p = NIL \<Longrightarrow> relink_loop h p r = Some (h, r)"
  "p \<noteq> NIL \<Longrightarrow> h_cell h p = Pair a d \<Longrightarrow> relink_loop h p r = relink_loop (put_cell h p (Pair a r)) d p"
  by (subst relink_loop.simps, simp add: store_cdr_pair)+

lemma bind_params_run [run_simps]:
  "\<not> is_pair h x \<Longrightarrow> bind_params h e x y = Some (h, Some (x, y))"
  "h_cell h x = Pair p x1 \<Longrightarrow> h_cell h y = Pair a y1 \<Longrightarrow> y \<noteq> NIL \<Longrightarrow> new_slot_spec_in_env h e p a = Some h1 \<Longrightarrow>
   h_cell h1 x = Pair p x1 \<Longrightarrow> h_cell h1 y = Pair a y1 \<Longrightarrow> bind_params h e x y = bind_params h1 e x1 y1"
  by (subst bind_params.simps, simp)+

lemma find_slot_in_frame_run [run_simps]:
  "y = NIL \<Longrightarrow> find_slot_in_frame h x y = Some None"
  "y \<noteq> NIL \<Longrightarrow> h_cell h y = Pair s d \<Longrightarrow> h_cell h s = Pair n v \<Longrightarrow>
   find_slot_in_frame h x y = (if n = x then Some (Some s) else find_slot_in_frame h x d)"
  by (subst find_slot_in_frame.simps, simp add: caar_def)+

lemma find_slot_in_env_run [run_simps]:
  "e = NIL \<Longrightarrow> find_slot_in_env h e x b = Some NIL"
  "e \<noteq> NIL \<Longrightarrow> h_cell h e = Environment f e1 \<Longrightarrow> \<not> is_vector h f \<Longrightarrow> find_slot_in_frame h x f = Some r \<Longrightarrow>
   find_slot_in_env h e x b =
     (case r of Some s \<Rightarrow> Some s | None \<Rightarrow> if b then find_slot_in_env h e1 x b else Some NIL)"
  by (subst find_slot_in_env.simps, simp add: frame_list_def car_def cdr_def split: option.splits)+

lemma new_slot_run [run_simps]:
  "h_cell h e = Environment f e1 \<Longrightarrow> \<not> is_vector h f \<Longrightarrow> e < h_next h \<Longrightarrow> f \<noteq> h_next h \<Longrightarrow>
   new_slot_spec_in_env h e x v =
     Some (put_cell (fst (immutable_cons (fst (immutable_cons h x v)) (h_next h) f)) e (Environment (Suc (h_next h)) e1))"
  by (auto simp: new_slot_spec_in_env_def immutable_cons_def setimmutable_def cons_def alloc_def new_cell_def put_cell_def
    Let_def car_def cdr_def store_car_def is_vector_def)

section \<open>The program\<close>

definition program_store :: store where
  "program_store = \<lparr>h_cell = (\<lambda>_. Junk)(0 := Atom, 1 := Blank 0 0, 2 := Atom, 3 := Atom, 4 := Blank 0 0,
     5 := String 0 6, 6 := Syntax 5 0, 7 := String 1 1, 8 := Symbol 7 0, 9 := Number (Integer 7), 10 := Environment 0 0,
     11 := Blank 0 0, 12 := Pair 13 16, 13 := Pair 6 14, 14 := Pair 15 17, 15 := Pair 8 0, 16 := Pair 9 0, 17 := Pair 8 0),
     h_immutable = \<lambda>_. False, h_buf = (\<lambda>b. if b = 0 then ascii ''lambda'' @ [0] else ascii ''x'' @ [0]),
     h_next = 18, h_nbuf = 2, h_gensym_cnt = 0, h_port = \<lambda>_. closed_port, h_nport = 0,
     h_inport = 0, h_outport = 0, h_save_inport = 0, h_loadport = 0, h_tok = TOK_EOF, h_print_flag = False\<rparr>"

definition program_globals :: globals where
  "program_globals = \<lparr>k_global_env = 10, k_oblist = 11, k_LAMBDA = 6, k_QUOTE = 6, k_QQUOTE = 8, k_UNQUOTE = 8,
     k_UNQUOTESP = 8, k_FEED_TO = 8, k_COLON_HOOK = 8, k_ERROR_HOOK = 8, k_LIVECODING_ERROR_HOOK = 8, k_SHARP_HOOK = 8, k_foreign = \<lambda>_ h a. Some (h, a), k_llvm_env_set = \<lambda>h _. Some (h, NIL),
     k_pointer = \<lambda>_. ascii ''0x0'', k_libm = \<lambda>_ _. 0, k_what = ascii ''basic_string''\<rparr>"

lemmas run_defs = cons_def immutable_cons_def mk_closure_def new_frame_in_env_def setimmutable_def alloc_def new_cell_def put_cell_def Let_def
  car_def cdr_def NIL_def T_OBJ_def F_OBJ_def is_pair_def is_symbol_def is_syntax_def is_macro_def is_closure_def is_vector_def

definition p1 :: store where "p1 = fst (mk_closure program_store 14 10)"
definition p2 :: store where "p2 = fst (cons p1 18 0)"
definition p3 :: store where "p3 = fst (cons p2 9 19)"
definition p4 :: store where "p4 = put_cell (put_cell p3 20 (Pair 9 0)) 19 (Pair 18 20)"
definition p5 :: store where "p5 = fst (new_frame_in_env p4 10)"
definition p6 :: store where "p6 = put_cell (fst (immutable_cons (fst (immutable_cons p5 8 9)) 22 0)) 21 (Environment 23 10)"

lemma p1: "mk_closure program_store 14 10 = (p1, 18)" "\<not> is_macro p1 18" "cdr p1 12 = Some 16"
  by (simp_all add: p1_def program_store_def run_defs)

lemma p2: "cons p1 18 NIL = (p2, 19)" "h_cell p2 16 = Pair 9 0" "\<not> is_symbol p2 9" "\<not> is_pair p2 9"
  by (simp_all add: p2_def p1_def program_store_def run_defs)

lemma p3: "cons p2 9 19 = (p3, 20)" "\<not> is_pair p3 0" 
  by (simp_all add: p3_def p2_def p1_def program_store_def run_defs)

lemma p3_rev: "reverse_in_place p3 NIL 20 = Some (p4, 19)"
proof -
  have "h_cell p3 20 = Pair 9 19" "h_cell p3 19 = Pair 18 0"
    by (simp_all add: p3_def p2_def p1_def program_store_def run_defs)
  then show ?thesis by (simp add: reverse_in_place_def run_simps p4_def heap_simps NIL_def)
qed

lemma p4: "car p4 19 = Some 18" "cdr p4 19 = Some 20" "is_closure p4 18" "car p4 18 = Some 14" "cdr p4 18 = Some 10"
  by (simp_all add: p4_def p3_def p2_def p1_def program_store_def run_defs)

lemma p5: "new_frame_in_env p4 10 = (p5, 21)" "car p5 14 = Some 15"
  by (simp_all add: p5_def p4_def p3_def p2_def p1_def program_store_def run_defs)

lemma p5_cells: "h_cell p5 15 = Pair 8 0" "h_cell p5 20 = Pair 9 0" "h_cell p5 21 = Environment 0 10" "h_cell p5 0 = Atom"
  "h_next p5 = 22"
  by (simp_all add: p5_def p4_def p3_def p2_def p1_def program_store_def run_defs)

lemma p6_cells: "h_cell p6 15 = Pair 8 0" "h_cell p6 20 = Pair 9 0" "h_cell p6 17 = Pair 8 0" "h_cell p6 21 = Environment 23 10"
  "h_cell p6 23 = Pair 22 0" "h_cell p6 22 = Pair 8 9" "h_cell p6 8 = Symbol 7 0" "h_cell p6 0 = Atom" "cdr p6 14 = Some 17"
  by (simp_all add: p6_def p5_def p4_def p3_def p2_def p1_def program_store_def run_defs)

lemma p6_bind: "bind_params p5 21 15 20 = Some (p6, Some (0, 0))"
proof -
  have "new_slot_spec_in_env p5 21 8 9 = Some p6"
    using p5_cells by (simp add: run_simps p6_def is_vector_def)
  then show ?thesis using p5_cells(1,2) p6_cells by (simp add: run_simps NIL_def is_pair_def)
qed

lemma p6_find: "find_slot_in_env p6 21 8 True = Some 22"
  using p6_cells by (simp add: run_simps NIL_def is_vector_def)

lemma program_code: "h_cell program_store 12 = Pair 13 16" "h_cell program_store 13 = Pair 6 14" "\<not> is_syntax program_store 13"
  "is_syntax program_store 6"
  by (simp_all add: program_store_def run_defs)

lemma program_lambda: "syntaxnum program_store 6 = Some (O0 OP_LAMBDA)"
  by (simp add: syntaxnum_def program_store_def car_def ascii_def)

lemma program_operator: "ev K (Exp 13) program_store 10 18 p1"
  using program_code program_lambda p1(1) by (auto intro: Syntactic Lambda)

lemma program_args: "ev K (Args 19 16) p2 10 19 p4"
proof -
  have "ev K (Args 20 0) p3 10 19 p4" using p3(2) p3_rev by (rule Args_End)
  then show ?thesis using Args_More [OF p2(2) Const [OF p2(3,4)] p3(1)] by simp
qed

lemma program_body: "ev K (Body 17) p6 21 9 p6"
proof -
  have "ev K (Exp 8) p6 21 9 p6"
    using p6_find p6_cells by (intro Var) (auto simp: is_symbol_def NIL_def slot_value_in_env_def)
  then show ?thesis using p6_cells(3) by (auto intro: Body_Last simp: NIL_def)
qed

lemma program_evaluates: "ev K (Exp 12) program_store 10 9 p6"
proof -
  have "ev K (Apply 18 20) p4 10 9 p6"
    by (rule Apply_Closure [OF _ p4(4,5) p5 p6_bind])
      (use p4(3) p6_cells(9) program_body in \<open>auto simp: NIL_def\<close>)
  then show ?thesis using Call [OF program_code(1,3) program_operator p1(2,3) p2(1) program_args p4(1,2)] by simp
qed

theorem cycle_refines_semantics_witness:
  "\<exists>s. eval_timed program_globals (\<lambda>_. None) 0 (regs program_store 0 10 12 0 [] (O0 OP_EVAL)) = Some (Stop s) \<and>
     r_value s = 9 \<and> heap s = p6"
proof -
  from cycle_refines_semantics [OF program_evaluates, of program_globals 0 0] obtain n where
    n: "\<forall>late. if \<forall>k < n. late k = None
      then \<exists>s. eval_timed program_globals late 0 (regs program_store 0 10 12 0 [] (O0 OP_EVAL)) = Some (Stop s) \<and>
        r_value s = 9 \<and> heap s = p6
      else \<exists>msg s. eval_timed program_globals late 0 (regs program_store 0 10 12 0 [] (O0 OP_EVAL)) = Some (Throw msg NIL s)"
    by blast
  from n [rule_format, of "\<lambda>_. None"] show ?thesis by simp
qed

lemma program_tail: "tail_of K (program_store, 10, 12) (p6, 21, 8)"
proof -
  have "lasts K 17 p6 21 8 p6" using p6_cells(3) by (intro Last) (simp add: NIL_def)
  then show ?thesis
    using Tail_Call [OF program_code(1,3) program_operator p1(2,3) p2(1) program_args p4(1-5) p5] p6_bind p6_cells(9)
    by (simp add: NIL_def)
qed

theorem tail_calls_keep_stack_witness:
  "\<exists>a' w'. leads program_globals (regs program_store 0 10 12 0 [frame_of (O0 OP_IF1) 0 10 0] (O0 OP_EVAL))
     (regs p6 a' 21 8 w' [frame_of (O0 OP_IF1) 0 10 0] (O0 OP_EVAL))"
  using tail_calls_keep_stack [OF r_into_rtranclp [of "tail_of program_globals", OF program_tail]] by blast

end
