(* ===== verification/Scheme_Bindings.thy ===== *)
theory Scheme_Bindings
  imports Scheme_Example
begin

text \<open>Lookup, definition and assignment of variables in environments; interned symbols.\<close>

section \<open>Well-formed environments\<close>

text \<open>
  A list of slots: a proper list whose elements are pairs. A frame is one, or a vector of them. The global
  environment, the last of a chain, is the only one with a vector.
\<close>

definition slots :: "store \<Rightarrow> addr \<Rightarrow> (addr \<times> addr) list \<Rightarrow> bool" where
  "slots h y xs \<longleftrightarrow> slist h y xs \<and> (\<forall>s \<in> set (elems xs). is_pair h s)"

definition frame_ok :: "store \<Rightarrow> addr \<Rightarrow> addr \<Rightarrow> bool" where
  "frame_ok h f e1 \<longleftrightarrow>
     (case h_cell h f of
        Vector vs \<Rightarrow> e1 = NIL \<and> vs \<noteq> [] \<and> (\<forall>y \<in> set vs. \<exists>xs. slots h y xs)
      | _ \<Rightarrow> \<exists>xs. slots h f xs)"

fun env_ok :: "store \<Rightarrow> addr \<Rightarrow> addr list \<Rightarrow> bool" where
  "env_ok h e [] \<longleftrightarrow> e = NIL"
| "env_ok h e (c # cs) \<longleftrightarrow> e = c \<and> (\<exists>f e1. h_cell h c = Environment f e1 \<and> frame_ok h f e1 \<and> env_ok h e1 cs)"

lemma find_slot_in_frame_slots:
  assumes "slots h y xs" "store_ok h"
  shows "find_slot_in_frame h x y = Some (find (\<lambda>s. car h s = Some x) (elems xs))"
  using assms(1)
proof (induction xs arbitrary: y)
  case Nil
  then show ?case by (simp add: slots_def run_simps)
next
  case (Cons c xs)
  obtain q s where c: "c = (q, s)" by force
  with Cons.prems obtain d where d: "h_cell h q = Pair s d" "slist h d xs" "y = q" "is_pair h s" "slots h d xs"
    by (auto simp: slots_def)
  then obtain n v where s: "h_cell h s = Pair n v" by (auto simp: is_pair_def split: cell.splits)
  have "y \<noteq> NIL" using d(1,3) store_okD(1) [OF assms(2)] by auto
  then show ?case using find_slot_in_frame_run(2) [of y h s d n v x] d s c Cons.IH [OF d(5)] by simp
qed

text \<open>Changes that keep pairs, symbols and strings keep slots and names.\<close>

definition only :: "addr \<Rightarrow> store \<Rightarrow> store \<Rightarrow> bool" where
  "only q h h' \<longleftrightarrow> (\<forall>p. h_cell h p \<noteq> Junk \<longrightarrow> p \<noteq> q \<longrightarrow> h_cell h' p = h_cell h p) \<and> h_buf h' = h_buf h"

lemma onlyD: "only q h h' \<Longrightarrow> h_cell h p = c \<Longrightarrow> c \<noteq> Junk \<Longrightarrow> p \<noteq> q \<Longrightarrow> h_cell h' p = c"
  by (auto simp: only_def)

lemma only_pair: "only q h h' \<Longrightarrow> \<not> is_pair h q \<Longrightarrow> h_cell h p = Pair a d \<Longrightarrow> h_cell h' p = Pair a d"
  using onlyD [of q h h' p "Pair a d"] by (cases "p = q") auto

lemma only_slots:
  assumes "only q h h'" "\<not> is_pair h q" "slots h y xs"
  shows "slots h' y xs"
proof -
  have "slist h' y xs"
  proof (rule segment_cong)
    fix c v assume "(c, v) \<in> set xs"
    then have "is_pair h c" using assms(3) segment_pair unfolding slots_def by blast
    then obtain a d where "h_cell h c = Pair a d" by (auto simp: is_pair_def split: cell.splits)
    then show "h_cell h' c = h_cell h c" using only_pair [OF assms(1,2)] by simp
  qed (use assms(3) in \<open>simp add: slots_def\<close>)
  moreover have "is_pair h' s" if s: "is_pair h s" for s
  proof -
    obtain a d where "h_cell h s = Pair a d" using s by (auto simp: is_pair_def split: cell.splits)
    then show ?thesis using only_pair [OF assms(1,2)] by simp
  qed
  ultimately show ?thesis using assms(3) by (auto simp: slots_def)
qed

lemma only_car_pair: "only q h h' \<Longrightarrow> \<not> is_pair h q \<Longrightarrow> is_pair h s \<Longrightarrow> car h' s = car h s \<and> cdr h' s = cdr h s"
  using only_pair by (fastforce simp: is_pair_def split: cell.splits)

lemma only_find:
  assumes "only q h h'" "\<not> is_pair h q" "slots h y xs" "store_ok h" "store_ok h'"
  shows "find_slot_in_frame h' x y = find_slot_in_frame h x y"
proof -
  have "find (\<lambda>s. car h' s = Some x) (elems xs) = find (\<lambda>s. car h s = Some x) (elems xs)"
    using only_car_pair [OF assms(1,2)] assms(3) by (intro find_cong) (auto simp: slots_def)
  then show ?thesis
    using find_slot_in_frame_slots [OF assms(3,4)] find_slot_in_frame_slots [OF only_slots [OF assms(1-3)] assms(5)] by simp
qed

lemma symname_cell: "symname h x = Some n \<Longrightarrow> \<exists>s d b k. (h_cell h x = Symbol s d \<or> h_cell h x = Syntax s d) \<and> h_cell h s = String b k \<and> n = c_str h b"
  by (auto simp: symname_def is_symbol_def car_def split: if_splits cell.splits bind_splits)

lemma only_symname:
  assumes "only q h h'" "\<not> is_symbol h q" "\<not> is_string h q" "symname h x = Some n"
  shows "symname h' x = Some n"
proof -
  obtain s d b k where s: "h_cell h x = Symbol s d \<or> h_cell h x = Syntax s d" "h_cell h s = String b k" "n = c_str h b"
    using symname_cell [OF assms(4)] by blast
  have "x \<noteq> q" "s \<noteq> q" using s assms(2,3) by (auto simp: is_symbol_def is_string_def)
  then have "h_cell h' x = h_cell h x" "h_cell h' s = String b k" "h_buf h' = h_buf h"
    using assms(1) s by (auto simp: only_def)
  then show ?thesis using s by (auto simp: symname_def is_symbol_def car_def c_str_def)
qed

section \<open>Lookup\<close>

text \<open>The search in one frame.\<close>

definition frame_find :: "store \<Rightarrow> addr \<Rightarrow> addr \<Rightarrow> addr option option" where
  "frame_find h x f = Option.bind (frame_list h x f) (find_slot_in_frame h x)"

lemma find_slot_in_env_frame:
  assumes "h_cell h e = Environment f e1" "e \<noteq> NIL"
  shows "find_slot_in_env h e x all =
    Option.bind (frame_find h x f) (\<lambda>r. case r of Some s \<Rightarrow> Some s
      | None \<Rightarrow> if all then find_slot_in_env h e1 x all else Some NIL)"
proof -
  have "car h e = Some f" "cdr h e = Some e1" using assms(1) by (simp_all add: car_def cdr_def)
  then show ?thesis using assms(2)
    by (subst find_slot_in_env.simps) (auto simp: frame_find_def intro!: bind_option_cong split: option.splits)
qed

lemma env_not_NIL: "store_ok h \<Longrightarrow> h_cell h e = Environment f e1 \<Longrightarrow> e \<noteq> NIL"
  using store_okD(1) by auto

text \<open>The list of slots in which a name is looked up.\<close>

lemma frame_ok_list:
  assumes "frame_ok h f e1" "symname h x = Some n"
  obtains y xs where "frame_list h x f = Some y" "slots h y xs"
proof (cases "is_vector h f")
  case True
  then obtain vs where vs: "h_cell h f = Vector vs" by (auto simp: is_vector_def split: cell.splits)
  then have "vs \<noteq> []" "\<forall>y \<in> set vs. \<exists>xs. slots h y xs" using assms(1) by (auto simp: frame_ok_def)
  moreover from this have "hash_fn n (length vs) < length vs" by (simp add: hash_fn_def)
  moreover from this have "frame_list h x f = Some (vs ! hash_fn n (length vs))"
    using vs assms(2) True by (simp add: frame_list_def vector_size_def vector_elem_def)
  ultimately show ?thesis using that nth_mem by blast
next
  case False
  then have "\<exists>xs. slots h f xs" using assms(1) by (auto simp: frame_ok_def is_vector_def split: cell.splits)
  moreover have "frame_list h x f = Some f" using False by (simp add: frame_list_def)
  ultimately show ?thesis using that by blast
qed

lemma frame_find_total:
  assumes "frame_ok h f e1" "symname h x = Some n" "store_ok h"
  shows "\<exists>r. frame_find h x f = Some r"
proof -
  obtain y xs where "frame_list h x f = Some y" "slots h y xs" using frame_ok_list [OF assms(1,2)] .
  then show ?thesis using find_slot_in_frame_slots [OF _ assms(3)] by (simp add: frame_find_def)
qed

lemma only_frame:
  assumes "only q h h'" "\<not> is_pair h q" "\<not> is_symbol h q" "\<not> is_string h q" "store_ok h" "store_ok h'"
    "frame_ok h f e1" "f \<noteq> q" "symname h x = Some n"
  shows "frame_find h' x f = frame_find h x f" and "frame_ok h' f e1"
proof -
  have "h_cell h f \<noteq> Junk"
  proof (cases "is_vector h f")
    case False
    then obtain xs where "slist h f xs" using assms(7) by (auto simp: frame_ok_def is_vector_def slots_def split: cell.splits)
    then show ?thesis using store_okD(1) [OF assms(5)] by (cases xs) auto
  qed (auto simp: is_vector_def)
  then have f: "h_cell h' f = h_cell h f" using assms(1,8) by (auto simp: only_def)
  obtain y xs where y: "frame_list h x f = Some y" "slots h y xs" using frame_ok_list [OF assms(7,9)] .
  have "frame_list h' x f = Some y"
    using y(1) f only_symname [OF assms(1,3,4,9)] assms(9)
    by (auto simp: frame_list_def is_vector_def vector_size_def vector_elem_def split: cell.splits if_splits)
  then show "frame_find h' x f = frame_find h x f"
    using y only_find [OF assms(1,2) y(2) assms(5,6)] by (simp add: frame_find_def)
  show "frame_ok h' f e1"
    using assms(7) f only_slots [OF assms(1,2)] by (fastforce simp: frame_ok_def split: cell.splits)
qed

lemma only_env:
  assumes "only q h h'" "\<not> is_pair h q" "\<not> is_symbol h q" "\<not> is_string h q" "store_ok h" "store_ok h'" "symname h x = Some n"
  shows "env_ok h e cs \<Longrightarrow> (\<And>c f e1. c \<in> set cs \<Longrightarrow> h_cell h c = Environment f e1 \<Longrightarrow> c \<noteq> q \<and> f \<noteq> q) \<Longrightarrow>
    find_slot_in_env h' e x all = find_slot_in_env h e x all \<and> env_ok h' e cs"
proof (induction cs arbitrary: e)
  case Nil
  then show ?case by (simp add: find_slot_in_env_run)
next
  case (Cons c cs)
  obtain f e1 where c: "e = c" "h_cell h c = Environment f e1" "frame_ok h f e1" "env_ok h e1 cs" using Cons.prems(1) by auto
  have q: "c \<noteq> q" "f \<noteq> q" using Cons.prems(2) [of c f e1] c(2) by auto
  have c': "h_cell h' c = Environment f e1" using onlyD [OF assms(1) c(2) _ q(1)] by simp
  have ih: "find_slot_in_env h' e1 x all = find_slot_in_env h e1 x all \<and> env_ok h' e1 cs"
    using Cons.IH [OF c(4)] Cons.prems(2) by auto
  have ff: "frame_find h' x f = frame_find h x f" "frame_ok h' f e1"
    using only_frame [OF assms(1-6) c(3) q(2) assms(7)] by blast+
  have "find_slot_in_env h' e x all = find_slot_in_env h e x all"
    unfolding c(1) find_slot_in_env_frame [OF c(2) env_not_NIL [OF assms(5) c(2)]]
      find_slot_in_env_frame [OF c' env_not_NIL [OF assms(6) c']] ff(1) conjunct1 [OF ih] ..
  then show ?case using c(1) c' ff(2) ih by auto
qed

lemma find_slot_total:
  assumes "store_ok h" "symname h x = Some n"
  shows "env_ok h e cs \<Longrightarrow> \<exists>s. find_slot_in_env h e x all = Some s"
proof (induction cs arbitrary: e)
  case Nil
  then show ?case by (simp add: find_slot_in_env_run)
next
  case (Cons c cs)
  obtain f e1 where c: "e = c" "h_cell h c = Environment f e1" "frame_ok h f e1" "env_ok h e1 cs" using Cons.prems by auto
  obtain r where "frame_find h x f = Some r" using frame_find_total [OF c(3) assms(2,1)] by blast
  then show ?case using Cons.IH [OF c(4)] c(1) find_slot_in_env_frame [OF c(2) env_not_NIL [OF assms(1) c(2)]]
    by (auto split: option.splits)
qed

section \<open>Definition\<close>

text \<open>A new slot in a frame that is a list: two cells, and the environment points to the second.\<close>

lemma store_ok_fresh: "store_ok h \<Longrightarrow> h_next h \<le> p \<Longrightarrow> h_cell h p = Junk"
  by (auto simp: store_ok_def)

lemma store_ok_alloc2:
  assumes "store_ok h" "h_cell h q \<noteq> Junk" "h_cell h q \<noteq> Atom" "c \<noteq> Junk" "c1 \<noteq> Junk" "c2 \<noteq> Junk"
    "h_cell h' = (h_cell h)(h_next h := c1, Suc (h_next h) := c2, q := c)" "h_next h' = Suc (Suc (h_next h))"
  shows "store_ok h'"
proof -
  have "q < h_next h" "q \<noteq> NIL" "q \<noteq> T_OBJ" "q \<noteq> F_OBJ" "F_OBJ < h_next h" "T_OBJ < h_next h"
    using assms(1-3) by (auto simp: store_ok_def EOF_OBJ_def F_OBJ_def T_OBJ_def)
  moreover have "p < h_next h'" if "h_cell h' p \<noteq> Junk" for p
  proof (cases "p < h_next h \<or> p = h_next h \<or> p = Suc (h_next h)")
    case False
    then have "h_cell h' p = h_cell h p" using calculation(1) by (simp add: assms(7))
    then show ?thesis using that store_ok_fresh [OF assms(1), of p] False by simp
  qed (auto simp: assms(8))
  moreover have "h_cell h NIL = Atom \<and> h_cell h T_OBJ = Atom \<and> h_cell h F_OBJ = Atom \<and> EOF_OBJ < h_next h"
    using assms(1) by (simp add: store_ok_def)
  ultimately show ?thesis using store_okD(3) [OF assms(1)] by (simp add: store_ok_def assms(7,8))
qed

lemma only_alloc2:
  assumes "store_ok h" "h_cell h' = (h_cell h)(h_next h := c1, Suc (h_next h) := c2, q := c)" "h_buf h' = h_buf h"
  shows "only q h h'"
proof -
  have "h_cell h (h_next h) = Junk" "h_cell h (Suc (h_next h)) = Junk" using store_ok_fresh [OF assms(1)] by simp_all
  then show ?thesis using assms(2,3) by (auto simp: only_def)
qed

lemma immutable_cons_simps [heap_simps]:
  "snd (immutable_cons h a d) = h_next h" "h_cell (fst (immutable_cons h a d)) = (h_cell h)(h_next h := Pair a d)"
  "h_next (fst (immutable_cons h a d)) = Suc (h_next h)" "h_buf (fst (immutable_cons h a d)) = h_buf h"
  by (simp_all add: immutable_cons_def setimmutable_def cons_def alloc_def new_cell_def put_cell_def Let_def)

lemma new_slot_list:
  assumes "store_ok h" "h_cell h e = Environment f e1" "\<not> is_vector h f" "h_cell h f \<noteq> Junk"
  shows "\<exists>h'. new_slot_spec_in_env h e x v = Some h' \<and> h_next h' = Suc (Suc (h_next h)) \<and> h_buf h' = h_buf h \<and>
    h_cell h' = (h_cell h)(h_next h := Pair x v, Suc (h_next h) := Pair (h_next h) f, e := Environment (Suc (h_next h)) e1)"
proof -
  have "e < h_next h" "f \<noteq> h_next h" using assms store_ok_fresh [OF assms(1), of "h_next h"] by (auto simp: store_ok_def)
  then show ?thesis using new_slot_run [OF assms(2,3)] by (simp add: heap_simps fun_upd_twist)
qed

lemma new_slot_vector:
  assumes "store_ok h" "h_cell h e = Environment f e1" "h_cell h f = Vector vs" "vs \<noteq> []" "symname h x = Some n"
  defines "i \<equiv> hash_fn n (length vs)"
  shows "\<exists>h'. new_slot_spec_in_env h e x v = Some h' \<and> h_next h' = Suc (Suc (h_next h)) \<and> h_buf h' = h_buf h \<and>
    h_cell h' = (h_cell h)(h_next h := Pair x v, Suc (h_next h) := Pair (h_next h) (vs ! i), f := Vector (vs[i := Suc (h_next h)]))"
proof -
  let ?h = "fst (immutable_cons h x v)"
  have ne: "e \<noteq> h_next h" "f \<noteq> h_next h" "f \<noteq> Suc (h_next h)"
    using assms(1-3) store_ok_fresh [OF assms(1), of "h_next h"] store_ok_fresh [OF assms(1), of "Suc (h_next h)"] by auto
  have i: "i < length vs" using assms(4) by (simp add: i_def hash_fn_def)
  have o: "only (h_next h) h ?h" by (auto simp: only_def heap_simps)
  have nj: "h_cell h (h_next h) = Junk" using store_ok_fresh [OF assms(1)] by simp
  then have "symname ?h x = Some n"
    using only_symname [OF o _ _ assms(5)] by (simp add: is_symbol_def is_string_def)
  moreover have "car ?h e = Some f" "h_cell ?h f = Vector vs" using assms(2,3) ne by (simp_all add: heap_simps car_def)
  ultimately have "new_slot_spec_in_env h e x v =
      Some (put_cell (fst (immutable_cons ?h (h_next h) (vs ! i))) f (Vector (vs[i := Suc (h_next h)])))"
    using i ne by (simp add: new_slot_spec_in_env_def Let_def case_prod_beta heap_simps is_vector_def vector_size_def
      vector_elem_def set_vector_elem_def i_def)
  then show ?thesis by (simp add: heap_simps)
qed

lemma frame_not_env: "frame_ok h f e1 \<Longrightarrow> store_ok h \<Longrightarrow> h_cell h f \<noteq> Environment a b \<and> h_cell h f \<noteq> Junk"
proof -
  assume a: "frame_ok h f e1" "store_ok h"
  show ?thesis
  proof (cases "is_vector h f")
    case False
    then obtain xs where "slist h f xs" using a(1) by (auto simp: frame_ok_def is_vector_def slots_def split: cell.splits)
    then show ?thesis using store_okD(1) [OF a(2)] by (cases xs) auto
  qed (auto simp: is_vector_def)
qed

lemma env_frame_ok: "env_ok h e cs \<Longrightarrow> c \<in> set cs \<Longrightarrow> h_cell h c = Environment f e1 \<Longrightarrow> frame_ok h f e1"
  by (induction cs arbitrary: e) auto

text \<open>What a lookup finds after a slot was added, for the two kinds of frames.\<close>

lemma lookup_after_list:
  assumes ok: "store_ok h" and env: "h_cell h c = Environment f e1" "frame_ok h f e1" "env_ok h e1 cs" "c \<notin> set cs"
    and list: "\<not> is_vector h f" and y: "symname h y = Some m"
    and h': "new_slot_spec_in_env h c x v = Some h'"
  shows "only c h h' \<and> store_ok h' \<and> env_ok h' c (c # cs) \<and> h_cell h' (h_next h) = Pair x v \<and>
    find_slot_in_env h' c y all = (if x = y then Some (h_next h) else find_slot_in_env h c y all)"
proof -
  let ?n = "h_next h"
  obtain "h_next h' = Suc (Suc ?n)" and buf: "h_buf h' = h_buf h" and
    hc: "h_cell h' = (h_cell h)(?n := Pair x v, Suc ?n := Pair ?n f, c := Environment (Suc ?n) e1)"
    using new_slot_list [OF ok env(1) list, of x v] frame_not_env [OF env(2) ok] h' by auto
  then have ok': "store_ok h'" and o: "only c h h'"
    using store_ok_alloc2 [OF ok, of c "Environment (Suc ?n) e1" "Pair x v" "Pair ?n f" h'] only_alloc2 [OF ok hc buf] env(1) by auto
  have c: "\<not> is_pair h c" "\<not> is_symbol h c" "\<not> is_string h c" using env(1) by (simp_all add: is_pair_def is_symbol_def is_string_def)
  have fr: "f \<noteq> c" "c < ?n" using frame_not_env [OF env(2) ok] env(1) ok by (auto simp: store_ok_def)
  have cells: "h_cell h' ?n = Pair x v" "h_cell h' (Suc ?n) = Pair ?n f" "h_cell h' c = Environment (Suc ?n) e1"
    using fr(2) by (simp_all add: hc)
  have nv: "\<not> is_vector h' (Suc ?n)" "\<not> is_vector h' f"
    using only_frame(2) [OF o c ok ok' env(2) fr(1) y] onlyD [OF o refl _ fr(1)] list frame_not_env [OF env(2) ok] cells(2)
    by (auto simp: is_vector_def)
  have rest: "find_slot_in_env h' e1 y all = find_slot_in_env h e1 y all \<and> env_ok h' e1 cs"
    using only_env [OF o c ok ok' y env(3)] env(4) frame_not_env [OF env_frame_ok [OF env(3)] ok] env(1) by metis
  have ff: "find_slot_in_frame h' y f = find_slot_in_frame h y f"
    using only_frame(1) [OF o c ok ok' env(2) fr(1) y] list nv(2) by (simp add: frame_find_def frame_list_def)
  have "Suc ?n \<noteq> NIL" by (simp add: NIL_def)
  then have "frame_find h' y (Suc ?n) = (if x = y then Some (Some ?n) else frame_find h y f)"
    using find_slot_in_frame_run(2) [OF _ cells(2,1), of y] list nv ff by (simp add: frame_find_def frame_list_def)
  then have "find_slot_in_env h' c y all = (if x = y then Some ?n else find_slot_in_env h c y all)"
    unfolding find_slot_in_env_frame [OF env(1) env_not_NIL [OF ok env(1)]]
      find_slot_in_env_frame [OF cells(3) env_not_NIL [OF ok' cells(3)]] conjunct1 [OF rest] by simp
  moreover have "frame_ok h' (Suc ?n) e1"
  proof -
    obtain xs where "slots h f xs" using env(2) list by (auto simp: frame_ok_def is_vector_def split: cell.splits)
    then have "slots h' f xs" using only_slots [OF o c(1)] by blast
    then have "slots h' (Suc ?n) ((Suc ?n, ?n) # xs)" using cells by (simp add: slots_def)
    then show ?thesis using cells(2) by (auto simp: frame_ok_def)
  qed
  ultimately show ?thesis using o ok' cells rest by auto
qed

lemma lookup_after_vector:
  assumes ok: "store_ok h" and env: "h_cell h c = Environment f NIL" "frame_ok h f NIL"
    and vs: "h_cell h f = Vector vs" and x: "symname h x = Some n" and y: "symname h y = Some m"
    and h': "new_slot_spec_in_env h c x v = Some h'"
  shows "only f h h' \<and> store_ok h' \<and> env_ok h' c [c] \<and> h_cell h' (h_next h) = Pair x v \<and>
    find_slot_in_env h' c y all = (if x = y then Some (h_next h) else find_slot_in_env h c y all)"
proof -
  let ?n = "h_next h" and ?i = "hash_fn n (length vs)" and ?j = "hash_fn m (length vs)"
  have ne: "vs \<noteq> []" "\<forall>y \<in> set vs. \<exists>xs. slots h y xs" using env(2) vs by (auto simp: frame_ok_def)
  then have ij: "?i < length vs" "?j < length vs" by (simp_all add: hash_fn_def)
  obtain "h_next h' = Suc (Suc ?n)" and buf: "h_buf h' = h_buf h" and
    hc: "h_cell h' = (h_cell h)(?n := Pair x v, Suc ?n := Pair ?n (vs ! ?i), f := Vector (vs[?i := Suc ?n]))"
    using new_slot_vector [OF ok env(1) vs ne(1) x, of v] h' by auto
  then have ok': "store_ok h'" and o: "only f h h'"
    using store_ok_alloc2 [OF ok, of f "Vector (vs[?i := Suc ?n])" "Pair x v" "Pair ?n (vs ! ?i)" h'] only_alloc2 [OF ok hc buf] vs
    by auto
  have c: "\<not> is_pair h f" "\<not> is_symbol h f" "\<not> is_string h f" using vs by (simp_all add: is_pair_def is_symbol_def is_string_def)
  have lt: "f < ?n" "c \<noteq> f" using ok vs env(1) by (auto simp: store_ok_def)
  have cells: "h_cell h' ?n = Pair x v" "h_cell h' (Suc ?n) = Pair ?n (vs ! ?i)" "h_cell h' f = Vector (vs[?i := Suc ?n])"
    "h_cell h' c = Environment f NIL" using lt onlyD [OF o env(1)] by (simp_all add: hc)
  have sl: "\<exists>xs. slots h' z xs" if "z \<in> set vs" for z using that ne(2) only_slots [OF o c(1)] by blast
  have ff: "find_slot_in_frame h' y z = find_slot_in_frame h y z" if "z \<in> set vs" for z
    using that ne(2) only_find [OF o c(1) _ ok ok'] by blast
  have fl: "frame_list h' y f = Some (vs[?i := Suc ?n] ! ?j)" "frame_list h y f = Some (vs ! ?j)"
    using cells(3) vs only_symname [OF o c(2,3) y] y ij
    by (simp_all add: frame_list_def is_vector_def vector_size_def vector_elem_def)
  have "Suc ?n \<noteq> NIL" by (simp add: NIL_def)
  then have new: "find_slot_in_frame h' y (Suc ?n) = (if x = y then Some (Some ?n) else find_slot_in_frame h y (vs ! ?i))"
    using find_slot_in_frame_run(2) [OF _ cells(2,1), of y] ff [OF nth_mem [OF ij(1)]] by simp
  have "frame_find h' y f = (if x = y then Some (Some ?n) else frame_find h y f)"
  proof (cases "?i = ?j")
    case True
    then show ?thesis using fl new ij by (simp add: frame_find_def)
  next
    case False
    then have "x \<noteq> y" using x y by auto
    then show ?thesis using fl ff [OF nth_mem [OF ij(2)]] False by (simp add: frame_find_def)
  qed
  then have "find_slot_in_env h' c y all = (if x = y then Some ?n else find_slot_in_env h c y all)"
    unfolding find_slot_in_env_frame [OF env(1) env_not_NIL [OF ok env(1)]]
      find_slot_in_env_frame [OF cells(4) env_not_NIL [OF ok' cells(4)]]
    by (simp add: find_slot_in_env_run)
  moreover have "frame_ok h' f NIL"
  proof -
    obtain xs where "slots h' (vs ! ?i) xs" using sl [OF nth_mem [OF ij(1)]] by blast
    then have "slots h' (Suc ?n) ((Suc ?n, ?n) # xs)" using cells by (simp add: slots_def)
    then have "\<exists>xs. slots h' z xs" if "z \<in> set (vs[?i := Suc ?n])" for z
      using that sl set_update_subset_insert [of vs ?i "Suc ?n"] by blast
    then show ?thesis using cells(3) ne(1) by (simp add: frame_ok_def)
  qed
  ultimately show ?thesis using o ok' cells by auto
qed

text \<open>C27: a new binding, made by \<open>define\<close>, by a call or by \<open>let\<close>: the new slot is the one found for its variable, every other
  variable is found where it was, in this environment and the enclosing ones, with the value it had, and the environment
  stays well formed; for frames that are lists and for the hashed frame of the global environment.
\<close>

theorem definition_binds:
  assumes "store_ok h" "env_ok h c (c # cs)" "c \<notin> set cs" "symname h x = Some n"
  shows "\<exists>h' s. new_slot_spec_in_env h c x v = Some h' \<and> find_slot_in_env h' c x all = Some s \<and> s \<noteq> NIL \<and>
    slot_value_in_env h' s = Some v \<and> env_ok h' c (c # cs) \<and>
    (\<forall>y m t. y \<noteq> x \<and> symname h y = Some m \<and> find_slot_in_env h c y all = Some t \<and> is_pair h t \<longrightarrow>
       find_slot_in_env h' c y all = Some t \<and> slot_value_in_env h' t = slot_value_in_env h t)"
proof -
  obtain f e1 where c: "h_cell h c = Environment f e1" "frame_ok h f e1" "env_ok h e1 cs" using assms(2) by auto
  obtain h' q where h': "new_slot_spec_in_env h c x v = Some h'" and q: "\<not> is_pair h q" "only q h h'" and ok': "env_ok h' c (c # cs)"
    "h_cell h' (h_next h) = Pair x v" and look: "\<And>y m. symname h y = Some m \<Longrightarrow>
       find_slot_in_env h' c y all = (if x = y then Some (h_next h) else find_slot_in_env h c y all)"
  proof (cases "is_vector h f")
    case True
    then obtain vs where vs: "h_cell h f = Vector vs" by (auto simp: is_vector_def split: cell.splits)
    then have e1: "e1 = NIL" "vs \<noteq> []" using c(2) by (auto simp: frame_ok_def)
    then have cs: "cs = []" using c(3) store_okD(1) [OF assms(1)] by (cases cs) auto
    obtain h' where h': "new_slot_spec_in_env h c x v = Some h'"
      using new_slot_vector [OF assms(1) c(1) vs e1(2) assms(4)] by blast
    note l = lookup_after_vector [OF assms(1) c(1,2) [unfolded e1(1)] vs assms(4) _ h']
    show ?thesis by (rule that [OF h', of f]) (use l assms(4) vs cs in \<open>auto simp: is_pair_def\<close>)
  next
    case False
    obtain h' where h': "new_slot_spec_in_env h c x v = Some h'"
      using new_slot_list [OF assms(1) c(1) False] frame_not_env [OF c(2) assms(1)] by blast
    note l = lookup_after_list [OF assms(1) c assms(3) False _ h']
    show ?thesis by (rule that [OF h', of c]) (use l assms(4) c(1) in \<open>auto simp: is_pair_def\<close>)
  qed
  have "h_next h \<noteq> NIL" using store_okD(3) [OF assms(1)] by simp
  moreover have "slot_value_in_env h' (h_next h) = Some v" using ok'(2) by (simp add: slot_value_in_env_def)
  moreover have "slot_value_in_env h' t = slot_value_in_env h t" if "is_pair h t" for t
    using only_car_pair [OF q(2,1) that] by (simp add: slot_value_in_env_def)
  ultimately show ?thesis using h' look assms(4) ok'(1) by (intro exI [of _ h'] exI [of _ "h_next h"]) auto
qed

lemma program_store_ok: "store_ok program_store"
  by (auto simp: store_ok_def program_store_def NIL_def T_OBJ_def F_OBJ_def EOF_OBJ_def split: if_splits)

lemma program_name: "symname program_store 8 = Some (ascii ''x'')"
  by (simp add: symname_def program_store_def is_symbol_def car_def c_str_def ascii_def chr_def)

lemma program_env: "env_ok program_store 10 [10]"
  by (auto simp: program_store_def frame_ok_def slots_def NIL_def intro: exI [of _ "[]"])

theorem definition_binds_witness:
  "\<exists>h' s. new_slot_spec_in_env program_store 10 8 9 = Some h' \<and> find_slot_in_env h' 10 8 True = Some s \<and>
    slot_value_in_env h' s = Some 9"
  using definition_binds [OF program_store_ok program_env _ program_name, of 9 True] by auto

end
