(* ===== verification/Scheme_Symbols.thy ===== *)
theory Scheme_Symbols
  imports Scheme_Bindings
begin

text \<open>The symbol table: one symbol for each name.\<close>

text \<open>
  \<open>buffers_ok\<close>: no string uses a buffer that has not been handed out. \<open>bucket_ok h y xs\<close>: a bucket is a proper list
  of symbols.
\<close>

definition buffers_ok :: "store \<Rightarrow> bool" where
  "buffers_ok h \<longleftrightarrow> (\<forall>p b k. h_cell h p = String b k \<longrightarrow> b < h_nbuf h)"

definition bucket_ok :: "store \<Rightarrow> addr \<Rightarrow> (addr \<times> addr) list \<Rightarrow> bool" where
  "bucket_ok h y xs \<longleftrightarrow> slist h y xs \<and> (\<forall>s \<in> set (elems xs). \<exists>n. symname h s = Some n)"

definition oblist_ok :: "store \<Rightarrow> addr \<Rightarrow> bool" where
  "oblist_ok h ob \<longleftrightarrow> store_ok h \<and> buffers_ok h \<and>
     (\<exists>vs. h_cell h ob = Vector vs \<and> vs \<noteq> [] \<and> (\<forall>y \<in> set vs. \<exists>xs. bucket_ok h y xs))"

lemma oblist_find_bucket:
  assumes "bucket_ok h y xs" "store_ok h"
  shows "oblist_find_loop h n y = Some (case find (\<lambda>s. symname h s = Some n) (elems xs) of None \<Rightarrow> NIL | Some s \<Rightarrow> s)"
  using assms(1)
proof (induction xs arbitrary: y)
  case Nil
  then show ?case by (subst oblist_find_loop.simps) (simp add: bucket_ok_def)
next
  case (Cons c xs)
  obtain q s where c: "c = (q, s)" by force
  with Cons.prems obtain d where d: "h_cell h q = Pair s d" "y = q" "bucket_ok h d xs" by (auto simp: bucket_ok_def)
  obtain m where m: "symname h s = Some m" using Cons.prems c by (auto simp: bucket_ok_def)
  have "y \<noteq> NIL" using d(1,2) store_okD(1) [OF assms(2)] by auto
  then show ?case using c d m Cons.IH [OF d(3)] by (subst oblist_find_loop.simps) simp
qed

lemma oblist_find_vector:
  assumes "h_cell h ob = Vector vs" "vs \<noteq> []"
  shows "oblist_find_by_name h ob n = oblist_find_loop h n (vs ! hash_fn n (length vs))"
  using assms by (simp add: oblist_find_by_name_def vector_size_def vector_elem_def hash_fn_def)

lemma find_names:
  assumes "find (\<lambda>s. symname h s = Some n) ys = Some s"
  shows "symname h s = Some n" "s \<in> set ys"
  using assms by (auto simp: find_Some_iff)

lemma symbol_not_NIL: "symname h s = Some n \<Longrightarrow> store_ok h \<Longrightarrow> s \<noteq> NIL"
  using store_okD(1) by (auto simp: symname_def is_symbol_def split: if_splits)

text \<open>The store after a symbol was added.\<close>

lemma oblist_add:
  fixes n :: "byte list"
  assumes ok: "oblist_ok h ob" and vs: "h_cell h ob = Vector vs"
  defines "k \<equiv> h_next h" and "i \<equiv> hash_fn n (length vs)"
  shows "\<exists>h'. oblist_add_by_name h ob n = Some (h', Suc k) \<and> h_next h' = Suc (Suc (Suc k)) \<and>
    h_buf h' = (h_buf h)(h_nbuf h := n @ [0]) \<and> h_nbuf h' = Suc (h_nbuf h) \<and>
    h_port h' = h_port h \<and> h_inport h' = h_inport h \<and> h_loadport h' = h_loadport h \<and> h_save_inport h' = h_save_inport h \<and>
    h_cell h' = (h_cell h)(k := String (h_nbuf h) (length n), Suc k := Symbol k NIL, Suc (Suc k) := Pair (Suc k) (vs ! i),
      ob := Vector (vs[i := Suc (Suc k)]))"
proof -
  have ne: "vs \<noteq> []" using ok vs by (auto simp: oblist_ok_def)
  then have i: "i < length vs" by (simp add: i_def hash_fn_def)
  have lt: "ob < k" using ok vs by (auto simp: oblist_ok_def store_ok_def k_def)
  show ?thesis using i lt vs
    by (simp add: oblist_add_by_name_def new_symbol_def mk_string_def mk_counted_string_def store_string_def
      immutable_cons_def cons_def alloc_def new_cell_def put_cell_def setimmutable_def Let_def vector_size_def
      vector_elem_def set_vector_elem_def k_def i_def fun_upd_twist)
qed

text \<open>Old symbols keep their names.\<close>

lemma symname_kept:
  assumes "buffers_ok h" "symname h s = Some m"
    "\<And>p. h_cell h p \<noteq> Junk \<Longrightarrow> p \<noteq> ob \<Longrightarrow> h_cell h' p = h_cell h p" "h_cell h ob = Vector vs"
    "\<And>b. b < h_nbuf h \<Longrightarrow> h_buf h' b = h_buf h b"
  shows "symname h' s = Some m"
proof -
  obtain t d b k where s: "h_cell h s = Symbol t d \<or> h_cell h s = Syntax t d" "h_cell h t = String b k" "m = c_str h b"
    using symname_cell [OF assms(2)] by blast
  have "s \<noteq> ob" "t \<noteq> ob" using s assms(4) by auto
  then have "h_cell h' s = h_cell h s" "h_cell h' t = String b k" "h_buf h' b = h_buf h b"
    using s assms(1,3,5) by (auto simp: buffers_ok_def)
  then show ?thesis using s by (auto simp: symname_def is_symbol_def car_def c_str_def)
qed

lemma bucket_kept:
  assumes "bucket_ok h y xs" "store_ok h"
    "\<And>s m. symname h s = Some m \<Longrightarrow> symname h' s = Some m"
    "\<And>p. h_cell h p \<noteq> Junk \<Longrightarrow> p \<noteq> ob \<Longrightarrow> h_cell h' p = h_cell h p" "h_cell h ob = Vector vs"
  shows "bucket_ok h' y xs"
proof -
  have "slist h' y xs"
  proof (rule segment_cong)
    fix c v assume "(c, v) \<in> set xs"
    then have "is_pair h c" using assms(1) segment_pair unfolding bucket_ok_def by blast
    then show "h_cell h' c = h_cell h c" using assms(5) by (intro assms(4)) (auto simp: is_pair_def)
  qed (use assms(1) in \<open>simp add: bucket_ok_def\<close>)
  then show ?thesis using assms(1,3) unfolding bucket_ok_def by blast
qed

lemma bucket_find_kept:
  assumes "bucket_ok h y xs" "bucket_ok h' y xs" "store_ok h" "store_ok h'"
    "\<And>s m. symname h s = Some m \<Longrightarrow> symname h' s = Some m"
  shows "oblist_find_loop h' m y = oblist_find_loop h m y"
proof -
  have "find (\<lambda>s. symname h' s = Some m) (elems xs) = find (\<lambda>s. symname h s = Some m) (elems xs)"
    using assms(1,5) by (intro find_cong) (fastforce simp: bucket_ok_def)+
  then show ?thesis using oblist_find_bucket [OF assms(1,3)] oblist_find_bucket [OF assms(2,4)] by simp
qed

lemma symbol_added:
  assumes ok: "oblist_ok h ob" and n: "0 \<notin> set n" and new: "oblist_find_by_name h ob n = Some NIL"
  shows "\<exists>h' s. oblist_add_by_name h ob n = Some (h', s) \<and> s \<noteq> NIL \<and> symname h' s = Some n \<and>
    oblist_find_by_name h' ob n = Some s \<and> oblist_ok h' ob \<and>
    (\<forall>m. m \<noteq> n \<longrightarrow> oblist_find_by_name h' ob m = oblist_find_by_name h ob m)"
proof -
  obtain vs where vs: "h_cell h ob = Vector vs" "vs \<noteq> []" and sok: "store_ok h" and bok: "buffers_ok h"
    and buckets: "\<And>y. y \<in> set vs \<Longrightarrow> \<exists>xs. bucket_ok h y xs" using ok by (auto simp: oblist_ok_def)
  define k where "k = h_next h"
  define i where "i = hash_fn n (length vs)"
  let ?vs = "vs[i := Suc (Suc k)]"
  obtain h' where h': "oblist_add_by_name h ob n = Some (h', Suc k)" "h_next h' = Suc (Suc (Suc k))"
    "h_buf h' = (h_buf h)(h_nbuf h := n @ [0])" "h_nbuf h' = Suc (h_nbuf h)"
    and hc: "h_cell h' = (h_cell h)(k := String (h_nbuf h) (length n), Suc k := Symbol k NIL,
      Suc (Suc k) := Pair (Suc k) (vs ! i), ob := Vector ?vs)"
    using oblist_add [OF ok vs(1), of n] unfolding k_def i_def by blast
  have i: "i < length vs" using vs(2) by (simp add: i_def hash_fn_def)
  have lt: "ob < k" using sok vs(1) by (auto simp: store_ok_def k_def)
  have cells: "h_cell h' k = String (h_nbuf h) (length n)" "h_cell h' (Suc k) = Symbol k NIL"
    "h_cell h' (Suc (Suc k)) = Pair (Suc k) (vs ! i)" "h_cell h' ob = Vector ?vs" using lt by (simp_all add: hc)
  have old: "h_cell h' p = h_cell h p" if "h_cell h p \<noteq> Junk" "p \<noteq> ob" for p
    using that sok by (auto simp: hc store_ok_def k_def)
  have names: "symname h' s = Some m" if "symname h s = Some m" for s m
  proof (rule symname_kept [OF bok that old vs(1)])
    show "h_buf h' b = h_buf h b" if "b < h_nbuf h" for b using that by (simp add: h'(3))
  qed
  have name: "symname h' (Suc k) = Some n"
    using cells h'(3) n by (simp add: symname_def is_symbol_def car_def c_str_def takeWhile_append)
  have sok': "store_ok h'"
  proof -
    have "NIL \<noteq> ob" "T_OBJ \<noteq> ob" "F_OBJ \<noteq> ob" using sok vs(1) by (auto simp: store_ok_def)
    moreover have "p < h_next h'" if "h_cell h' p \<noteq> Junk" for p
      using that sok lt by (auto simp: hc h'(2) store_ok_def k_def split: if_splits)
    ultimately show ?thesis using sok old by (auto simp: store_ok_def h'(2) k_def)
  qed
  have bok': "buffers_ok h'" using bok unfolding buffers_ok_def hc h'(4) by (auto simp: less_Suc_eq)
  have kept: "bucket_ok h' y xs" if "bucket_ok h y xs" for y xs by (rule bucket_kept [OF that sok names old vs(1)])
  obtain xs where xs: "bucket_ok h (vs ! i) xs" using buckets [OF nth_mem [OF i]] by blast
  have head: "bucket_ok h' (Suc (Suc k)) ((Suc (Suc k), Suc k) # xs)"
    using kept [OF xs] cells(3) name by (auto simp: bucket_ok_def)
  have "\<exists>xs. bucket_ok h' y xs" if "y \<in> set ?vs" for y
    using that buckets kept head set_update_subset_insert [of vs i "Suc (Suc k)"] by blast
  then have ok': "oblist_ok h' ob" using sok' bok' cells(4) vs(2) by (auto simp: oblist_ok_def)
  have find_n: "oblist_find_by_name h' ob n = Some (Suc k)"
    using oblist_find_vector [OF cells(4)] vs(2) i oblist_find_bucket [OF head sok', of n] name by (simp add: i_def)
  have other: "oblist_find_by_name h' ob m = oblist_find_by_name h ob m" if "m \<noteq> n" for m
  proof -
    let ?j = "hash_fn m (length vs)"
    have j: "?j < length vs" using vs(2) by (simp add: hash_fn_def)
    have same: "oblist_find_loop h' m (vs ! ?j) = oblist_find_loop h m (vs ! ?j)"
      using buckets [OF nth_mem [OF j]] kept bucket_find_kept [OF _ _ sok sok' names] by metis
    have "oblist_find_loop h' m (Suc (Suc k)) = oblist_find_loop h' m (vs ! i)"
      using oblist_find_bucket [OF head sok', of m] oblist_find_bucket [OF kept [OF xs] sok', of m] name that by simp
    then show ?thesis
      using oblist_find_vector [OF cells(4)] oblist_find_vector [OF vs] vs(2) same i by (cases "?j = i") simp_all
  qed
  show ?thesis using h'(1) name find_n ok' other by (intro exI [of _ h'] exI [of _ "Suc k"]) (auto simp: NIL_def)
qed

lemma oblist_okD:
  assumes "oblist_ok h ob"
  obtains vs where "h_cell h ob = Vector vs" "vs \<noteq> []" "store_ok h" "buffers_ok h" "\<And>y. y \<in> set vs \<Longrightarrow> \<exists>xs. bucket_ok h y xs"
  using assms unfolding oblist_ok_def by blast

lemma find_bucket:
  assumes "oblist_ok h ob" "h_cell h ob = Vector vs"
  obtains xs where "bucket_ok h (vs ! hash_fn n (length vs)) xs"
    "oblist_find_by_name h ob n = Some (case find (\<lambda>s. symname h s = Some n) (elems xs) of None \<Rightarrow> NIL | Some s \<Rightarrow> s)"
proof -
  have vs: "vs \<noteq> []" "store_ok h" and b: "\<And>y. y \<in> set vs \<Longrightarrow> \<exists>xs. bucket_ok h y xs" using assms by (auto simp: oblist_ok_def)
  have "hash_fn n (length vs) < length vs" using vs(1) by (simp add: hash_fn_def)
  then obtain xs where xs: "bucket_ok h (vs ! hash_fn n (length vs)) xs" using b nth_mem by blast
  then show ?thesis using that oblist_find_vector [OF assms(2) vs(1)] oblist_find_bucket [OF xs vs(2)] by simp
qed

text \<open>A symbol that is found has the name.\<close>

lemma found_symname:
  assumes "oblist_ok h ob" "oblist_find_by_name h ob n = Some s" "s \<noteq> NIL"
  shows "symname h s = Some n"
proof -
  obtain vs where vs: "h_cell h ob = Vector vs" using assms(1) by (rule oblist_okD)
  obtain xs where xs: "oblist_find_by_name h ob n =
      Some (case find (\<lambda>s. symname h s = Some n) (elems xs) of None \<Rightarrow> NIL | Some s \<Rightarrow> s)"
    using find_bucket [OF assms(1) vs] by blast
  show ?thesis
  proof (cases "find (\<lambda>s. symname h s = Some n) (elems xs)")
    case None
    then show ?thesis using xs assms(2,3) by simp
  next
    case (Some t)
    then show ?thesis using xs assms(2) find_names(1) [OF Some] by simp
  qed
qed

text \<open>A symbol, found or made.\<close>

lemma mk_symbol_cases:
  assumes ok: "oblist_ok h ob" and n: "0 \<notin> set n"
  obtains s where "mk_symbol h ob n = Some (h, s)" "oblist_find_by_name h ob n = Some s" "s \<noteq> NIL"
  | h' s where "mk_symbol h ob n = Some (h', s)" "oblist_add_by_name h ob n = Some (h', s)" "s \<noteq> NIL"
    "oblist_find_by_name h' ob n = Some s" "oblist_ok h' ob" "oblist_find_by_name h ob n = Some NIL"
    "\<And>m. m \<noteq> n \<Longrightarrow> oblist_find_by_name h' ob m = oblist_find_by_name h ob m"
proof -
  obtain vs where vs: "h_cell h ob = Vector vs" using ok by (rule oblist_okD)
  obtain x where x: "oblist_find_by_name h ob n = Some x" using find_bucket [OF ok vs] by blast
  show ?thesis
  proof (cases "x = NIL")
    case True
    then show ?thesis using symbol_added [OF ok n] x that(2) by (auto simp: mk_symbol_def)
  next
    case False
    then show ?thesis using x that(1) by (simp add: mk_symbol_def)
  qed
qed

lemma oblist_add_fields:
  assumes "oblist_ok h ob" "oblist_add_by_name h ob n = Some (h', s)"
  shows "h_port h' = h_port h" "h_inport h' = h_inport h" "h_loadport h' = h_loadport h" "h_save_inport h' = h_save_inport h"
proof -
  obtain vs where vs: "h_cell h ob = Vector vs" using assms(1) by (rule oblist_okD)
  show "h_port h' = h_port h" "h_inport h' = h_inport h" "h_loadport h' = h_loadport h" "h_save_inport h' = h_save_inport h"
    using oblist_add [OF assms(1) vs, of n] assms(2) by auto
qed

text \<open>C28: symbols are interned: \<open>mk_symbol\<close> finds or makes a symbol of the given name, finds that same symbol when
  called again, keeps the table well formed, and every symbol found before is still the one found
  for its name.
\<close>

theorem symbols_interned:
  assumes ok: "oblist_ok h ob" and n: "0 \<notin> set n"
  shows "\<exists>h' s. mk_symbol h ob n = Some (h', s) \<and> symname h' s = Some n \<and> mk_symbol h' ob n = Some (h', s) \<and>
    oblist_ok h' ob \<and>
    (\<forall>m t. oblist_find_by_name h ob m = Some t \<and> t \<noteq> NIL \<longrightarrow> oblist_find_by_name h' ob m = Some t)"
proof (rule mk_symbol_cases [OF ok n])
  fix s assume s: "mk_symbol h ob n = Some (h, s)" "oblist_find_by_name h ob n = Some s" "s \<noteq> NIL"
  then show ?thesis using ok found_symname [OF ok s(2,3)] by (intro exI [of _ h] exI [of _ s]) simp
next
  fix h' s
  assume s: "mk_symbol h ob n = Some (h', s)" "s \<noteq> NIL" "oblist_find_by_name h' ob n = Some s" "oblist_ok h' ob"
    "oblist_find_by_name h ob n = Some NIL"
    and other: "\<And>m. m \<noteq> n \<Longrightarrow> oblist_find_by_name h' ob m = oblist_find_by_name h ob m"
  have "oblist_find_by_name h' ob m = Some t" if "oblist_find_by_name h ob m = Some t" "t \<noteq> NIL" for m t
    using that s(5) other by (cases "m = n") auto
  then show ?thesis using s found_symname [OF s(4,3,2)] by (intro exI [of _ h'] exI [of _ s]) (auto simp: mk_symbol_def)
qed

text \<open>A table with a single empty bucket.\<close>

definition table_store :: store where
  "table_store = \<lparr>h_cell = (\<lambda>_. Junk)(0 := Atom, 1 := Blank 0 0, 2 := Atom, 3 := Atom, 4 := Blank 0 0, 5 := Vector [0]),
     h_immutable = \<lambda>_. False, h_buf = \<lambda>_. [], h_next = 6, h_nbuf = 0, h_gensym_cnt = 0, h_port = \<lambda>_. closed_port, h_nport = 0,
     h_inport = 0, h_outport = 0, h_save_inport = 0, h_loadport = 0, h_tok = TOK_EOF, h_print_flag = False\<rparr>"

lemma table_store_ok: "oblist_ok table_store 5"
  by (auto simp: oblist_ok_def store_ok_def buffers_ok_def bucket_ok_def table_store_def NIL_def T_OBJ_def F_OBJ_def EOF_OBJ_def
    split: if_splits intro: exI [of _ "[]"])

theorem symbols_interned_witness:
  "\<exists>h' s. mk_symbol table_store 5 [102] = Some (h', s) \<and> symname h' s = Some [102] \<and> mk_symbol h' 5 [102] = Some (h', s)"
proof -
  have "(0 :: byte) \<notin> set [102]" by simp
  from symbols_interned [OF table_store_ok this] show ?thesis by blast
qed

end
