(* ===== verification/Scheme_Checks.thy ===== *)
theory Scheme_Checks
  imports Scheme_Symbols
begin

text \<open>What the check of the arguments ensures.\<close>

lemma list_length_loop_slist:
  assumes "list_length_loop h a v = Some r" "0 \<le> v" "0 \<le> r"
  shows "\<exists>xs. slist h a xs \<and> r = v + int (length xs)"
proof -
  have "0 \<le> v \<longrightarrow> 0 \<le> r \<longrightarrow> (\<exists>xs. slist h a xs \<and> r = v + int (length xs))"
  proof (rule list_length_loop.raw_induct [OF _ assms(1)], intro impI)
    fix loop h a v r
    assume ih: "\<And>h a v r. loop h a v = Some r \<Longrightarrow> 0 \<le> v \<longrightarrow> 0 \<le> r \<longrightarrow> (\<exists>xs. slist h a xs \<and> r = v + int (length xs))"
      and eq: "(if is_pair h a then Option.bind (cdr h a) (\<lambda>d. loop h d (v + 1)) else Some (if a = NIL then v else -1)) = Some r"
      and pos: "0 \<le> v" "0 \<le> r"
    show "\<exists>xs. slist h a xs \<and> r = v + int (length xs)"
    proof (cases "is_pair h a")
      case True
      then obtain x d where a: "h_cell h a = Pair x d" by (auto simp: is_pair_def split: cell.splits)
      then have "loop h d (v + 1) = Some r" using eq True by simp
      then obtain xs where "slist h d xs" "r = v + 1 + int (length xs)" using ih [of h d "v + 1" r] pos by auto
      then show ?thesis using a by (intro exI [of _ "(a, x) # xs"]) auto
    next
      case False
      then show ?thesis using eq pos by (intro exI [of _ "[]"]) (auto split: if_splits)
    qed
  qed
  then show ?thesis using assms(2,3) by blast
qed

lemma test_args_all:
  "test_args h [t] (length xs) i a = Some None \<Longrightarrow> slist h a xs \<Longrightarrow> \<forall>v \<in> set (elems xs). test_fct h t v"
proof (induction xs arbitrary: a i)
  case (Cons c xs)
  obtain q v where "c = (q, v)" by force
  with Cons.prems obtain d where "h_cell h a = Pair v d" "slist h d xs" by auto
  then show ?case using Cons.prems(1) Cons.IH [of "Suc i" d] \<open>c = (q, v)\<close> by (auto split: if_splits)
qed simp

text \<open>The arguments of an operation that passed its check are a proper list of a suitable length, each of the right type.\<close>

lemma passes_check_args:
  assumes "passes_check K oc h a f" "dispatch_table oc = Some pcd"
  shows "\<exists>xs. slist h a xs \<and> min_arity pcd \<le> length xs \<and> length xs \<le> max_arity pcd \<and>
    (\<forall>t. arg_tests pcd = [t] \<longrightarrow> (\<forall>v \<in> set (elems xs). test_fct h t v))"
proof -
  have c: "check_args K (regs h a 0 f 0 [] oc) pcd = Some None" using assms by (simp add: passes_check_def)
  then obtain n where n: "list_length h a = Some n" "int (min_arity pcd) \<le> n" "n \<le> int (max_arity pcd)"
    and t: "test_args h (arg_tests pcd) (nat n) 0 a = Some None"
    by (auto simp: check_args_def split: bind_splits if_splits option.splits)
  have "0 \<le> n" using n(2) by (rule order.trans [rotated]) simp
  then obtain xs where xs: "slist h a xs" "n = int (length xs)"
    using list_length_loop_slist [of h a 0 n] n(1) by (auto simp: list_length_def)
  have "\<forall>v \<in> set (elems xs). test_fct h t' v" if "arg_tests pcd = [t']" for t'
    using t xs(2) that test_args_all [OF _ xs(1)] by simp
  then show ?thesis using n(2,3) xs by (intro exI [of _ xs]) simp
qed

lemma slist_1: "slist h a xs \<Longrightarrow> length xs = 1 \<Longrightarrow> \<exists>x. h_cell h a = Pair x NIL \<and> elems xs = [x]"
  by (cases xs) auto

lemma slist_2: "slist h a xs \<Longrightarrow> length xs = 2 \<Longrightarrow> \<exists>x y d. h_cell h a = Pair x d \<and> h_cell h d = Pair y NIL \<and> elems xs = [x, y]"
  by (auto simp: length_Suc_conv numeral_2_eq_2)

lemma primitiveI:
  assumes "passes_check K oc h a f"
    "\<And>w D. opexe K oc (regs h a e f w D oc) = Some (s_return ((regs h a e f w D oc)\<lparr>heap := h'\<rparr>) v)"
  shows "primitive K oc h a e f v h'"
  unfolding primitive_def step_checked [OF assms(1)] assms(2) by (intro allI exI conjI) (rule refl, simp_all)

lemma primitive_new:
  assumes "passes_check K oc h a f"
    "\<And>w D. opexe K oc (regs h a e f w D oc) = Some (return_new (regs h a e f w D oc) r')"
  shows "\<exists>v h'. primitive K oc h a e f v h'"
  using primitiveI [OF assms(1), of e "fst r'" "snd r'"] assms(2) by (auto simp: return_new_def)

section \<open>Predicates and comparisons\<close>

definition predicates :: "op3 list" where
  "predicates = [OP_NOT, OP_BOOLP, OP_EOFOBJP, OP_NULLP, OP_SYMBOLP, OP_NUMBERP, OP_STRINGP, OP_REALP, OP_CHARP, OP_PROCP,
     OP_PAIRP, OP_LISTP, OP_ENVP, OP_VECTORP, OP_CPTRP]"

definition comparisons :: "op3 list" where
  "comparisons = [OP_NUMEQ, OP_LESS, OP_GRE, OP_LEQ, OP_GEQ]"

lemma predicate_info:
  "oc \<in> set predicates \<Longrightarrow> \<exists>pcd. info_3 oc = Some pcd \<and> min_arity pcd = 1 \<and> max_arity pcd = 1 \<and> comp_func oc = None \<and>
    oc \<noteq> OP_EQ \<and> oc \<noteq> OP_EQV"
  by (auto simp: predicates_def info_def)

lemma type_test_total: "oc \<in> set predicates \<Longrightarrow> store_ok h \<Longrightarrow> \<exists>b. type_test h oc x = Some b"
  using listp_loop_decides [of h x] by (auto simp: predicates_def type_test_def)

lemma predicate_returns:
  assumes "passes_check K (O3 oc) h a f" "oc \<in> set predicates" "store_ok h"
  shows "\<exists>v h'. primitive K (O3 oc) h a e f v h'"
proof -
  obtain pcd where i: "info_3 oc = Some pcd" "min_arity pcd = 1" "max_arity pcd = 1" "comp_func oc = None" "oc \<noteq> OP_EQ" "oc \<noteq> OP_EQV"
    using predicate_info [OF assms(2)] by blast
  obtain xs where "slist h a xs" "length xs = 1" using passes_check_args [OF assms(1), of pcd] i(1-3) by auto
  then obtain x where x: "h_cell h a = Pair x NIL" using slist_1 by blast
  obtain b where "type_test h oc x = Some b" using type_test_total [OF assms(2,3)] by blast
  then have "primitive K (O3 oc) h a e f (if b then T_OBJ else F_OBJ) h"
    by (intro primitiveI [OF assms(1)]) (use i x in \<open>simp add: opexe_3_def Let_def s_retbool_def\<close>)
  then show ?thesis by blast
qed

lemma comp_loop_numbers:
  "slist h x xs \<Longrightarrow> \<forall>v \<in> set (elems xs). is_number h v \<Longrightarrow> store_ok h \<Longrightarrow> \<exists>b. comp_loop h f v x = Some b"
proof (induction xs arbitrary: x v)
  case Nil
  then show ?case by (subst comp_loop.simps) (auto intro: exI [of _ True])
next
  case (Cons c xs)
  obtain q y where c: "c = (q, y)" by force
  with Cons.prems obtain d where d: "x = q" "h_cell h q = Pair y d" "slist h d xs" by auto
  obtain m where m: "h_cell h y = Number m" using Cons.prems(2) c by (auto simp: is_number_def split: cell.splits)
  then have "nvalue h y = Some m" by (simp add: nvalue_def)
  moreover have "x \<noteq> NIL" using d store_okD(1) [OF Cons.prems(3)] by auto
  ultimately show ?case using Cons.IH [OF d(3), of m] Cons.prems d(1,2)
    by (subst comp_loop.simps) (auto simp: c intro: exI [of _ False])
qed

lemma comparison_info:
  "oc \<in> set comparisons \<Longrightarrow> \<exists>pcd g. info_3 oc = Some pcd \<and> min_arity pcd = 2 \<and> arg_tests pcd = [TST_NUMBER] \<and> comp_func oc = Some g"
  by (auto simp: comparisons_def info_def)

lemma comparison_returns:
  assumes "passes_check K (O3 oc) h a f" "oc \<in> set comparisons" "store_ok h"
  shows "\<exists>v h'. primitive K (O3 oc) h a e f v h'"
proof -
  obtain pcd g where i: "info_3 oc = Some pcd" "min_arity pcd = 2" "arg_tests pcd = [TST_NUMBER]" "comp_func oc = Some g"
    using comparison_info [OF assms(2)] by blast
  obtain xs where xs: "slist h a xs" "2 \<le> length xs" "\<forall>v \<in> set (elems xs). is_number h v"
    using passes_check_args [OF assms(1), of pcd] i(1-3) by auto
  then obtain q x ys where ys: "xs = (q, x) # ys" by (cases xs) auto
  then obtain d where d: "h_cell h a = Pair x d" "slist h d ys" using xs(1) by auto
  obtain n where n: "nvalue h x = Some n" using xs(3) ys by (auto simp: is_number_def nvalue_def split: cell.splits)
  obtain b where "comp_loop h g n d = Some b" using comp_loop_numbers [OF d(2)] xs(3) ys assms(3) by fastforce
  then have "primitive K (O3 oc) h a e f (if b then T_OBJ else F_OBJ) h"
    by (intro primitiveI [OF assms(1)]) (use i d n in \<open>simp add: opexe_3_def Let_def s_retbool_def\<close>)
  then show ?thesis by blast
qed

section \<open>Pairs, characters, strings, vectors\<close>

definition unary :: "op2 list" where
  "unary = [OP_CAR, OP_CDR, OP_CHAR2INT, OP_INT2CHAR, OP_STRLEN, OP_VECLEN, OP_FLOOR, OP_CEILING, OP_TRUNCATE, OP_ROUND]"

text \<open>The result of such an operation on an argument that passed the test.\<close>

definition unary_value :: "op2 \<Rightarrow> store \<Rightarrow> cell \<Rightarrow> store \<times> addr" where
  "unary_value oc h c =
     (case c of
        Pair p d \<Rightarrow> (h, if oc = OP_CAR then p else d)
      | Character i \<Rightarrow> mk_integer h (i mod 256)
      | String b n \<Rightarrow> mk_integer h (int n)
      | Vector xs \<Rightarrow> mk_integer h (int (length xs))
      | Number n \<Rightarrow>
          (case oc of OP_FLOOR \<Rightarrow> alloc (Number (op_floor n)) h
           | OP_CEILING \<Rightarrow> alloc (Number (op_ceiling n)) h
           | OP_TRUNCATE \<Rightarrow> alloc (Number (op_truncate n)) h
           | OP_ROUND \<Rightarrow> alloc (Number (op_round n)) h
           | _ \<Rightarrow> mk_character h (char_of_int (case n of Integer i \<Rightarrow> i | _ \<Rightarrow> 0)))
      | _ \<Rightarrow> (h, NIL))"

lemma unary_opexe:
  assumes "oc \<in> set unary" "info_2 oc = Some pcd" "arg_tests pcd = [t]" "test_fct h t x" "h_cell h a = Pair x NIL"
  shows "opexe K (O2 oc) (regs h a e f w D (O2 oc)) = Some (return_new (regs h a e f w D (O2 oc)) (unary_value oc h (h_cell h x)))"
proof -
  have "car h a = Some x" using assms(5) by simp
  then show ?thesis using assms(1-4)
    by (auto simp: unary_def info_def op_car_def op_cdr_def op_char2int_def op_int2char_def op_strlen_def op_veclen_def op_number_def
      unary_value_def return_num_def return_new_def caar_def cdar_def car_def cdr_def is_pair_def is_character_def is_nonneg_def is_string_def
      is_vector_def is_number_def ivalue_def nvalue_def string_parts_def vector_size_def split: cell.splits num.splits)
qed

lemma unary_returns:
  assumes "passes_check K (O2 oc) h a f" "oc \<in> set unary"
  shows "\<exists>v h'. primitive K (O2 oc) h a e f v h'"
proof -
  obtain pcd t where i: "info_2 oc = Some pcd" "min_arity pcd = 1" "max_arity pcd = 1" "arg_tests pcd = [t]"
    using assms(2) by (auto simp: unary_def info_def)
  obtain xs where xs: "slist h a xs" "length xs = 1" "\<forall>v \<in> set (elems xs). test_fct h t v"
    using passes_check_args [OF assms(1), of pcd] i by auto
  then obtain x where x: "h_cell h a = Pair x NIL" "test_fct h t x" using slist_1 [OF xs(1,2)] by auto
  show ?thesis by (rule primitive_new [OF assms(1)]) (rule unary_opexe [OF assms(2) i(1,4) x(2,1)])
qed

definition binary :: "opcode list" where
  "binary = [O2 OP_CONS, O3 OP_EQ, O3 OP_EQV]"

lemma binary_returns:
  assumes "passes_check K oc h a f" "oc \<in> set binary"
  shows "\<exists>v h'. primitive K oc h a e f v h'"
proof -
  obtain pcd where i: "dispatch_table oc = Some pcd" "min_arity pcd = 2" "max_arity pcd = 2"
    using assms(2) by (auto simp: binary_def info_def)
  obtain xs where xs: "slist h a xs" "length xs = 2" using passes_check_args [OF assms(1), of pcd] i by auto
  then obtain x y d where x: "h_cell h a = Pair x d" "h_cell h d = Pair y NIL" using slist_2 [OF xs] by blast
  then have c: "cadr h a = Some y" "car h a = Some x" by (simp_all add: cadr_def)
  have "oc = O2 OP_CONS \<or> oc = O3 OP_EQ \<or> oc = O3 OP_EQV" using assms(2) by (simp add: binary_def)
  then show ?thesis
  proof (elim disjE)
    assume o: "oc = O2 OP_CONS"
    show ?thesis
      by (rule primitive_new [OF assms(1), where r' = "(put_cell h a (Pair x y), a)"])
        (use x c in \<open>simp add: o op_cons_def store_cdr_pair return_new_def\<close>)
  next
    assume o: "oc = O3 OP_EQ"
    show ?thesis
      by (rule primitive_new [OF assms(1), where r' = "(h, if x = y then T_OBJ else F_OBJ)"])
        (use c in \<open>simp add: o opexe_3_def Let_def s_retbool_def return_new_def\<close>)
  next
    assume o: "oc = O3 OP_EQV"
    show ?thesis
      by (rule primitive_new [OF assms(1), where r' = "(h, if eqv h x y then T_OBJ else F_OBJ)"])
        (use c in \<open>simp add: o opexe_3_def Let_def s_retbool_def return_new_def\<close>)
  qed
qed

text \<open>C29: the check of the arguments makes these operations safe: an operation of the lists above that passes the check returns
  a value at once; it neither fails on a cell of the wrong type, nor raises an error, nor runs forever.
\<close>

theorem checked_primitives_return:
  assumes "store_ok h" "passes_check K oc h a f"
    "oc \<in> O3 ` set predicates \<union> O3 ` set comparisons \<union> O2 ` set unary \<union> set binary"
  shows "\<exists>v h'. primitive K oc h a e f v h'"
  using assms(3) predicate_returns [OF _ _ assms(1)] comparison_returns [OF _ _ assms(1)] unary_returns binary_returns assms(2)
  by (elim UnE imageE) blast+

lemma program_floor: "passes_check K (O2 OP_FLOOR) program_store 16 5"
proof -
  have c: "h_cell program_store 16 = Pair 9 NIL" "h_cell program_store 9 = Number (Integer 7)" by (simp_all add: program_store_def NIL_def)
  have "slist program_store 16 [(16, 9)]" using c(1) by simp
  then have "list_length program_store 16 = Some 1"
    using list_length_loop_segment [of program_store 16 "[(16, 9)]" NIL 0] store_okD(2) [OF program_store_ok]
    by (simp add: list_length_def)
  then show ?thesis using c by (auto simp: passes_check_def info_def check_args_def is_number_def)
qed

theorem checked_primitives_return_witness:
  "\<exists>v h'. primitive program_globals (O2 OP_FLOOR) program_store 16 10 5 v h'"
  using checked_primitives_return [OF program_store_ok program_floor] by (auto simp: unary_def)

end
