(* ===== verification/Scheme_Faults.thy ===== *)
theory Scheme_Faults
  imports Scheme_Checks
begin

text \<open>Where the operations of the interpreter do not do what they are meant to.\<close>

section \<open>Promises\<close>

text \<open>a promise whose value is \<open>#f\<close> becomes true: forcing it first returns \<open>#f\<close> and copies the cell over the
  promise; forced again, the copy itself is returned, which is not the object \<open>#f\<close>.
\<close>

theorem forced_false_is_true:
  assumes "h_cell h F_OBJ = Atom" "is_promise h p" "h_cell h as = Pair p NIL"
  defines "h' \<equiv> memcpy_cell h p F_OBJ"
  shows "op_save_forced (regs h NIL e p F_OBJ D oc) = Some (s_return (regs h' NIL e p F_OBJ D oc) F_OBJ) \<and>
    op_force (regs h' as e c w D oc) = Some (s_return (regs h' as e p w D oc) p) \<and> is_true p"
proof -
  have ne: "p \<noteq> F_OBJ" "as \<noteq> p" using assms(1-3) by (auto simp: is_promise_def)
  then have c: "h_cell h' p = Blank F_OBJ F_OBJ" "h_cell h' as = Pair p NIL"
    using assms(1,3) by (simp_all add: h'_def memcpy_cell_def put_cell_def)
  then have "\<not> is_promise h' p" by (simp add: is_promise_def)
  moreover have "car h' as = Some p" using c(2) by simp
  ultimately show ?thesis using ne(1) by (simp add: op_save_forced_def op_force_def h'_def is_true_def Let_def)
qed

definition promise_store :: store where
  "promise_store = (put_cell (put_cell program_store 11 (Promise 15 10)) 17 (Pair 11 0))"

theorem forced_false_is_true_witness:
  "op_force (regs (memcpy_cell promise_store 11 F_OBJ) 17 10 0 0 [] (O4 OP_FORCE)) =
     Some (s_return (regs (memcpy_cell promise_store 11 F_OBJ) 17 10 11 0 [] (O4 OP_FORCE)) 11) \<and> is_true 11"
proof -
  have "h_cell promise_store F_OBJ = Atom" "is_promise promise_store 11" "h_cell promise_store 17 = Pair 11 NIL"
    by (simp_all add: promise_store_def program_store_def put_cell_def is_promise_def F_OBJ_def NIL_def)
  from forced_false_is_true [OF this] show ?thesis by blast
qed

text \<open>The copy a continuation makes of a list: fresh cells only.\<close>

lemma list_copy_loop_fresh:
  assumes "list_copy_loop h a ret = Some (h', r)" "segment h ret ys NIL" "store_ok h" "fresh h0 ys" "keeps h0 h"
  shows "keeps h0 h' \<and> store_ok h' \<and> (\<exists>zs. slist h' r zs \<and> fresh h0 zs)"
proof -
  have "\<forall>ys. segment h ret ys NIL \<and> store_ok h \<and> fresh h0 ys \<and> keeps h0 h \<longrightarrow>
      keeps h0 (fst (h', r)) \<and> store_ok (fst (h', r)) \<and> (\<exists>zs. slist (fst (h', r)) (snd (h', r)) zs \<and> fresh h0 zs)"
  proof (rule list_copy_loop.raw_induct [OF _ assms(1)], intro allI impI, elim conjE)
    fix loop h a ret y ys
    assume ih: "\<And>h a ret y. loop h a ret = Some y \<Longrightarrow> \<forall>ys. segment h ret ys NIL \<and> store_ok h \<and> fresh h0 ys \<and> keeps h0 h \<longrightarrow>
        keeps h0 (fst y) \<and> store_ok (fst y) \<and> (\<exists>zs. slist (fst y) (snd y) zs \<and> fresh h0 zs)"
      and eq: "(if a \<noteq> NIL then Option.bind (car h a) (\<lambda>x. let (h1, q) = cons h x ret in
          Option.bind (cdr h1 a) (\<lambda>d. loop h1 d q)) else Some (h, ret)) = Some y"
      and p: "segment h ret ys NIL" "store_ok h" "fresh h0 ys" "keeps h0 h"
    show "keeps h0 (fst y) \<and> store_ok (fst y) \<and> (\<exists>zs. slist (fst y) (snd y) zs \<and> fresh h0 zs)"
    proof (cases "a = NIL")
      case False
      then obtain x d where x: "loop (fst (cons h x ret)) d (h_next h) = Some y"
        using eq by (auto simp: case_prod_beta heap_simps split: bind_splits)
      have "segment (fst (cons h x ret)) (h_next h) ((h_next h, x) # ys) NIL"
        using segment_keeps [OF p(1,2), of "fst (cons h x ret)"] by (auto simp: heap_simps)
      moreover have "fresh h0 ((h_next h, x) # ys)" using p(3,4) by (simp add: keeps_def)
      ultimately show ?thesis using ih [OF x] store_ok_cons [OF p(2)] keeps_trans [OF p(4) keeps_cons] by blast
    qed (use eq p in auto)
  qed
  from this [rule_format, of ys] show ?thesis using assms(2-5) by simp
qed

lemma list_copy_fresh:
  assumes "list_copy h a = Some (h', r)" "store_ok h"
  shows "keeps h h' \<and> (r = NIL \<or> h_next h \<le> r)"
proof -
  obtain h1 ret where r: "list_copy_loop h a NIL = Some (h1, ret)" "reverse_in_place h1 NIL ret = Some (h', r)"
    using assms(1) by (auto simp: list_copy_def split: bind_splits)
  obtain zs where z: "keeps h h1" "store_ok h1" "slist h1 ret zs" "fresh h zs"
    using list_copy_loop_fresh [OF r(1) _ assms(2), of "[]" h] by auto
  obtain h2 r2 where h2: "reverse_in_place h1 NIL ret = Some (h2, r2)" "slist h2 r2 (rev zs)" "h_next h2 = h_next h1"
    "\<forall>c. c \<notin> fst ` set zs \<longrightarrow> h_cell h2 c = h_cell h1 c" using reverse_in_place_slist [OF z(3,2)] by blast
  have "c \<notin> fst ` set zs" if "c < h_next h" for c using z(4) that by (auto simp: fresh_def)
  then have "keeps h h2" using z(1) h2(3,4) by (simp add: keeps_def)
  moreover have "r2 = NIL \<or> h_next h \<le> r2"
  proof (cases "rev zs")
    case (Cons b bs)
    have "r2 = fst b" using h2(2) unfolding Cons by (cases b) simp
    moreover have "b \<in> set zs" using Cons set_rev [of zs] by (metis list.set_intros(1))
    ultimately show ?thesis using z(4) by (auto simp: fresh_def)
  qed (use h2(2) in simp)
  ultimately show ?thesis using r(2) h2(1) by simp
qed

text \<open>a continuation captured while a promise is forced does not remember the promise: its copy of the frame
  that would store the value refers to another cell, so that a value that comes through the
  continuation is not stored in the promise.
\<close>

theorem continuation_loses_promise:
  assumes "store_ok h" "is_promise h p" "copy_frame ob h (frame_of (O4 OP_SAVE_FORCED) NIL e p) = Some (h', f)"
  shows "f_op f = O4 OP_SAVE_FORCED \<and> f_code f \<noteq> p \<and>
    (\<forall>v. h_cell (memcpy_cell h' (f_code f) v) p = h_cell h p)"
proof -
  have nil: "list_copy h NIL = Some (h, NIL)"
    by (simp add: list_copy_def reverse_in_place_def relink_loop_run) (subst list_copy_loop.simps, simp add: relink_loop_run)
  have ns: "\<not> is_symbol h p" using assms(2) by (auto simp: is_promise_def is_symbol_def split: cell.splits)
  have eq: "copy_frame ob h (frame_of (O4 OP_SAVE_FORCED) NIL e p) =
      Option.bind (list_copy h p) (\<lambda>(h2, c). Some (h2, (frame_of (O4 OP_SAVE_FORCED) NIL e p)\<lparr>f_args := NIL, f_code := c\<rparr>))"
    unfolding copy_frame_def by (simp add: nil ns)
  obtain c where c: "list_copy h p = Some (h', c)" "f = (frame_of (O4 OP_SAVE_FORCED) NIL e p)\<lparr>f_args := NIL, f_code := c\<rparr>"
    using assms(3) unfolding eq by (cases "list_copy h p") auto
  have "h_cell h p \<noteq> Junk" "h_cell h p \<noteq> Atom" using assms(2) by (auto simp: is_promise_def)
  then have p: "p < h_next h" "p \<noteq> NIL" using assms(1) store_okD(1) [OF assms(1)] by (auto simp: store_ok_def)
  have k: "keeps h h'" "c = NIL \<or> h_next h \<le> c" using list_copy_fresh [OF c(1) assms(1)] by blast+
  have "c \<noteq> p" using k(2) p by linarith
  moreover have "h_cell h' p = h_cell h p" using k(1) p(1) unfolding keeps_def by blast
  ultimately show ?thesis using c(2) by (simp add: memcpy_cell_def put_cell_def)
qed

lemma list_copy_loop_run:
  "a = NIL \<Longrightarrow> list_copy_loop h a r = Some (h, r)"
  "a \<noteq> NIL \<Longrightarrow> car h a = Some x \<Longrightarrow> cons h x r = (h1, q) \<Longrightarrow> cdr h1 a = Some d \<Longrightarrow> list_copy_loop h a r = list_copy_loop h1 d q"
  by (subst list_copy_loop.simps, simp)+

lemma promise_store_ok: "store_ok promise_store" "is_promise promise_store 11"
  by (auto simp: store_ok_def promise_store_def put_cell_def program_store_def is_promise_def NIL_def T_OBJ_def F_OBJ_def EOF_OBJ_def
    split: if_splits)

lemma promise_store_copy: "\<exists>h' f. copy_frame 5 promise_store (frame_of (O4 OP_SAVE_FORCED) NIL 10 11) = Some (h', f)"
proof -
  let ?h1 = "fst (cons promise_store 15 NIL)" and ?h2 = "fst (cons (fst (cons promise_store 15 NIL)) 0 18)"
  have n: "h_next promise_store = 18" "h_next ?h1 = 19" by (simp_all add: heap_simps promise_store_def put_cell_def program_store_def)
  have c: "car promise_store 11 = Some 15" "cdr ?h1 11 = Some 10" "car ?h1 10 = Some 0" "cdr ?h2 10 = Some 0"
    by (simp_all add: heap_simps promise_store_def put_cell_def program_store_def car_def cdr_def)
  have "cons promise_store 15 NIL = (?h1, 18)" "cons ?h1 0 18 = (?h2, 19)" using n by (simp_all add: prod_eq_iff heap_simps)
  then have l: "list_copy_loop promise_store 11 NIL = Some (?h2, 19)"
    using list_copy_loop_run(2) [of 11 promise_store 15 NIL ?h1 18 10] list_copy_loop_run(2) [of 10 ?h1 0 18 ?h2 19 0] c
    by (simp add: list_copy_loop_run(1) NIL_def)
  have "h_cell ?h2 19 = Pair 0 18" "h_cell ?h2 18 = Pair 15 NIL" using n by (simp_all add: heap_simps)
  then have "slist ?h2 19 [(19, 0), (18, 15)]" by simp
  then obtain h' r where "reverse_in_place ?h2 NIL 19 = Some (h', r)"
    using reverse_in_place_slist store_ok_cons [OF store_ok_cons [OF promise_store_ok(1)]] by blast
  then have "list_copy promise_store 11 = Some (h', r)" using l by (simp add: list_copy_def)
  moreover have "list_copy promise_store NIL = Some (promise_store, NIL)"
    by (simp add: list_copy_def list_copy_loop_run(1) reverse_in_place_def relink_loop_run)
  moreover have "\<not> is_symbol promise_store 11" by (simp add: promise_store_def put_cell_def is_symbol_def)
  ultimately show ?thesis by (simp add: copy_frame_def)
qed

theorem continuation_loses_promise_witness:
  "\<exists>h' f. copy_frame 5 promise_store (frame_of (O4 OP_SAVE_FORCED) NIL 10 11) = Some (h', f) \<and> f_code f \<noteq> 11"
  using promise_store_copy continuation_loses_promise [OF promise_store_ok] by blast

section \<open>define, apply, append, characters\<close>

text \<open>\<open>(define x (f ""))\<close>, with any expression whose second element is an empty string, ends in a C++ exception:
  \<open>std::string::insert\<close> at position 1 of an empty string. \<open>scheme_load_string\<close> catches it, \<open>scheme_call\<close> does not.
\<close>

theorem define_crashes:
  assumes "h_cell h d = Pair x d1" "is_symbol h x" "symname h x = Some n" "h_cell h d1 = Pair c NIL" "h_cell h c = Pair f c1"
    "h_cell h c1 = Pair s NIL" "h_cell h s = String b k" "c_str h b = []"
  shows "step K (regs h a e d w D (O0 OP_DEF0)) = Some (Exception (regs h a e c w D (O0 OP_DEF0)))"
proof -
  have "\<not> is_pair h x" using assms(2) by (auto simp: is_symbol_def is_pair_def split: cell.splits)
  moreover have "cadr h d = Some c" "cadr h c = Some s" using assms(1,4-6) by (simp_all add: cadr_def)
  ultimately show ?thesis using assms by (simp add: op_simps op_def0_def Let_def prints_empty_def)
qed

definition crash_store :: store where
  "crash_store = program_store\<lparr>h_cell := (h_cell program_store)(18 := String 2 0, 19 := Pair 18 0, 20 := Pair 8 19, 21 := Pair 20 0,
     22 := Pair 8 21), h_buf := (h_buf program_store)(2 := [0]), h_next := 23, h_nbuf := 3\<rparr>"

theorem define_crashes_witness:
  "step program_globals (regs crash_store 0 10 22 0 [] (O0 OP_DEF0)) = Some (Exception (regs crash_store 0 10 20 0 [] (O0 OP_DEF0)))"
  by (rule define_crashes [where x = 8 and ?d1.0 = 21 and c = 20 and f = 8 and ?c1.0 = 19 and s = 18 and b = 2 and k = 0
      and n = "ascii ''x''"])
    (simp_all add: crash_store_def program_store_def NIL_def is_symbol_def symname_def car_def c_str_def ascii_def chr_def)

text \<open>\<open>apply\<close> hands the list itself to the procedure, and \<open>cons\<close> builds its result in the list of its arguments:
  \<open>(apply cons l)\<close> destroys the list \<open>l\<close> of two elements, whose first cell becomes the new pair.
\<close>

theorem apply_cons_destroys:
  assumes "h_cell h as = Pair g d" "h_cell h d = Pair l NIL" "h_cell h l = Pair x m" "h_cell h m = Pair y NIL"
    "h_cell h g = Proc (O2 OP_CONS)" "h_cell h NIL = Atom"
  shows "op_papply K (regs h as e c w D oc) = Some (Next (regs h l e g w D (O0 OP_APPLY))) \<and>
    op_apply K (regs h l e g w D (O0 OP_APPLY)) = Some (Next (regs h l e g w D (O2 OP_CONS))) \<and>
    op_cons (regs h l e g w D (O2 OP_CONS)) =
      Some (s_return (regs (put_cell h l (Pair x y)) l e g w D (O2 OP_CONS)) l)"
proof -
  have "list_star h d = Some (h, l)" using assms(2) by (simp add: list_star_def)
  moreover have "cadr h l = Some y" using assms(3,4) by (simp add: cadr_def)
  ultimately show ?thesis using assms(1,3,5)
    by (simp add: op_papply_def op_apply_def op_cons_def s_goto_def Let_def store_cdr_pair)
qed

definition apply_store :: store where
  "apply_store = program_store\<lparr>h_cell := (h_cell program_store)(18 := Proc (O2 OP_CONS), 19 := Pair 9 0, 20 := Pair 9 19, 21 := Pair 20 0,
     22 := Pair 18 21), h_next := 23\<rparr>"

theorem apply_cons_destroys_witness:
  "op_cons (regs apply_store 20 10 18 0 [] (O2 OP_CONS)) =
     Some (s_return (regs (put_cell apply_store 20 (Pair 9 9)) 20 10 18 0 [] (O2 OP_CONS)) 20)"
proof -
  have "h_cell apply_store 22 = Pair 18 21" "h_cell apply_store 21 = Pair 20 NIL" "h_cell apply_store 20 = Pair 9 19"
    "h_cell apply_store 19 = Pair 9 NIL" "h_cell apply_store 18 = Proc (O2 OP_CONS)" "h_cell apply_store NIL = Atom"
    by (simp_all add: apply_store_def program_store_def NIL_def)
  from apply_cons_destroys [OF this] show ?thesis by blast
qed

text \<open>\<open>append\<close> of a single list returns the list of its arguments, a list whose only element is that list.\<close>

theorem append_one_wraps:
  assumes "h_cell h as = Pair l NIL" "as \<noteq> NIL"
  shows "op_append (regs h as e c w D oc) = Some (s_return (regs h as e c w D oc) as)"
  using assms by (simp add: op_append_def Let_def)

text \<open>the character \<open>integer->char\<close> makes of a byte from 128 on is negative, the one \<open>string-ref\<close> reads is not:
  \<open>eqv?\<close> tells them apart.
\<close>

theorem high_characters_differ:
  assumes "128 \<le> i" "i < 256" "h_cell h p = Character (char_of_int i)" "h_cell h q = Character (uint (word_of_int i :: byte))"
  shows "\<not> eqv h p q"
proof -
  have "uint (word_of_int i :: byte) = i" using assms(1,2) by (simp add: uint_word_of_int)
  moreover have "char_of_int i \<noteq> i" using assms(1,2) by (simp add: char_of_int_def)
  ultimately show ?thesis using assms(3,4) by (simp add: eqv_def)
qed

end
