(* ===== verification/Scheme_Input.thy ===== *)
theory Scheme_Input
  imports Scheme_Printer
begin

text \<open>
  The reader's routines on the text left in a string port: what one character, a token, an atom or a
  string takes from it.
\<close>

section \<open>The text left to read\<close>

text \<open>
  \<open>input_at h u s\<close>: the input port is a string port, \<open>u\<close> has been read and \<open>s\<close> is left. The bytes 0 and 255, which
  end the input or look like its end, do not occur in \<open>s\<close>.
\<close>

definition input_at :: "store \<Rightarrow> byte list \<Rightarrow> byte list \<Rightarrow> bool" where
  "input_at h u s \<longleftrightarrow>
     (\<exists>i b. h_cell h (h_inport h) = Port i \<and> p_rep (h_port h i) = Str b (length u) (length u + length s) \<and>
        take (length u + length s) (h_buf h b) = u @ s \<and> length u + length s < length (h_buf h b) \<and>
        b < h_nbuf h \<and> 0 \<notin> set s \<and> 255 \<notin> set s)"

definition advance :: "store \<Rightarrow> nat \<Rightarrow> store" where
  "advance h n =
     (case h_cell h (h_inport h) of
        Port i \<Rightarrow> (case p_rep (h_port h i) of Str b k e \<Rightarrow> set_rep h i (Str b (k + n) e) | _ \<Rightarrow> h)
      | _ \<Rightarrow> h)"

lemma set_rep_simps [simp]:
  "h_cell (set_rep h i r) = h_cell h" "h_inport (set_rep h i r) = h_inport h" "h_buf (set_rep h i r) = h_buf h"
  "h_next (set_rep h i r) = h_next h" "h_nbuf (set_rep h i r) = h_nbuf h" "h_outport (set_rep h i r) = h_outport h"
  "h_immutable (set_rep h i r) = h_immutable h" "h_print_flag (set_rep h i r) = h_print_flag h"
  "h_loadport (set_rep h i r) = h_loadport h" "h_save_inport (set_rep h i r) = h_save_inport h"
  "p_rep (h_port (set_rep h i r) i) = r" "set_rep (set_rep h i r) i r' = set_rep h i r'"
  "j \<noteq> i \<Longrightarrow> h_port (set_rep h i r) j = h_port h j" "set_rep h i (p_rep (h_port h i)) = h" "h_nport (set_rep h i r) = h_nport h"
  "p_srfi6 (h_port (set_rep h i r) j) = p_srfi6 (h_port h j)" "h_gensym_cnt (set_rep h i r) = h_gensym_cnt h"
  by (simp_all add: set_rep_def)

lemma advance_simps [simp]:
  "h_cell (advance h n) = h_cell h" "h_inport (advance h n) = h_inport h" "h_buf (advance h n) = h_buf h"
  "h_next (advance h n) = h_next h" "h_nbuf (advance h n) = h_nbuf h" "h_outport (advance h n) = h_outport h"
  "h_immutable (advance h n) = h_immutable h" "h_print_flag (advance h n) = h_print_flag h" "h_loadport (advance h n) = h_loadport h"
  "h_save_inport (advance h n) = h_save_inport h"
  by (simp_all add: advance_def split: cell.split port_rep.split)

lemma advance_0 [simp]: "advance h 0 = h"
  by (auto simp: advance_def split: cell.split port_rep.split) (metis set_rep_simps(14))

lemma advance_add [simp]: "advance (advance h m) n = advance h (m + n)"
  by (auto simp: advance_def add.assoc split: cell.split port_rep.split)

lemma sint_eq_iff: "sint (a :: byte) = sint b \<longleftrightarrow> a = b"
  by (auto intro: signed_word_eqI)

lemma sint_EOF: "sint (c :: byte) = EOF \<longleftrightarrow> c = 255"
  using sint_eq_iff [of c 255] by (simp add: EOF_def)

lemma input_at_advance:
  assumes "input_at h u (t @ s)"
  shows "input_at (advance h (length t)) (u @ t) s"
  using assms by (auto simp: input_at_def advance_def add.assoc)

lemma inchar_at:
  assumes "input_at h u (c # s)"
  shows "inchar h = Some (advance h 1, sint c)" "sint c \<noteq> EOF" "c \<noteq> 0" "backchar (advance h 1) (sint c) = Some h"
proof -
  obtain i b where i: "h_cell h (h_inport h) = Port i" "p_rep (h_port h i) = Str b (length u) (length u + length (c # s))"
    "take (length u + length (c # s)) (h_buf h b) = u @ c # s" "length u + length (c # s) < length (h_buf h b)"
    "c \<noteq> 0" "c \<noteq> 255" using assms by (auto simp: input_at_def)
  have "h_buf h b ! length u = take (length u + length (c # s)) (h_buf h b) ! length u" by simp
  then have c: "h_buf h b ! length u = c" by (simp only: i(3)) simp
  show "inchar h = Some (advance h 1, sint c)" using i c
    by (simp add: inchar_def port_of_def basic_inchar_def advance_def Let_def)
  show "sint c \<noteq> EOF" "c \<noteq> 0" using i by (simp_all add: sint_EOF)
  then have "backchar (advance h 1) (sint c) = Some (set_rep h i (Str b (length u) (length u + length (c # s))))" using i(1,2)
    by (simp add: backchar_def port_of_def advance_def)
  then show "backchar (advance h 1) (sint c) = Some h" using set_rep_simps(14) [of h i] by (simp only: i(2))
qed

lemma inchar_end: "input_at h u [] \<Longrightarrow> inchar h = Some (h, EOF)"
  by (auto simp: inchar_def port_of_def basic_inchar_def input_at_def Let_def)

lemma backchar_EOF [simp]: "backchar h EOF = Some h"
  by (simp add: backchar_def)

lemma advance_next: "input_at h u (c # s) \<Longrightarrow> input_at (advance h 1) (u @ [c]) s"
  using input_at_advance [of h u "[c]" s] by simp

lemma input_at_clean: "input_at h u s \<Longrightarrow> 0 \<notin> set s \<and> 255 \<notin> set s"
  by (auto simp: input_at_def)

section \<open>Tokens\<close>

definition blank :: "byte \<Rightarrow> bool" where
  "blank c \<longleftrightarrow> isspace (sint c) \<or> iscntrl (sint c)"

lemma skip_loop_at:
  assumes "input_at h u (ws @ s)" "\<forall>c \<in> set ws. blank c"
  shows "skip_loop h = skip_loop (advance h (length ws))"
  using assms
proof (induction ws arbitrary: h u)
  case (Cons c ws)
  have "skip_loop h = skip_loop (advance h 1)" using inchar_at(1) [of h u c "ws @ s"] Cons.prems
    by (subst skip_loop.simps) (simp add: blank_def)
  also have "\<dots> = skip_loop (advance (advance h 1) (length ws))"
    using advance_next [of h u c "ws @ s"] Cons.prems by (intro Cons.IH) simp_all
  finally show ?case by simp
qed simp

lemma read_token_blanks:
  "input_at h u (ws @ s) \<Longrightarrow> \<forall>c \<in> set ws. blank c \<Longrightarrow> read_token h = read_token (advance h (length ws))"
  using skip_loop_at [of h u ws s] by (simp add: read_token_def skipspace_def)

lemma skipspace_at:
  assumes "input_at h u (c # s)" "\<not> blank c"
  shows "skipspace h = Some h"
  using inchar_at [OF assms(1)] assms(2) by (subst skipspace_def, subst skip_loop.simps) (simp add: blank_def)

lemma char_codes [simp]:
  "chr CHR ''('' = 40" "chr CHR '')'' = 41" "chr CHR ''.'' = 46" "chr CHR '';'' = 59" "chr CHR '','' = 44"
  "chr CHR ''@'' = 64" "chr CHR ''#'' = 35" "chr CHR ''!'' = 33"
  by (simp_all add: chr_def)

lemma blank_codes [simp]:
  "\<not> blank 40" "\<not> blank 41" "\<not> blank 46" "\<not> blank 44" "\<not> blank 35" "\<not> blank 34" "\<not> blank 39" "\<not> blank 96"
  "blank 32" "blank 10"
  by (simp_all add: blank_def isspace_def iscntrl_def)

lemma token_paren:
  "input_at h u (40 # s) \<Longrightarrow> read_token h = Some (advance h 1, TOK_LPAREN)"
  "input_at h u (41 # s) \<Longrightarrow> read_token h = Some (advance h 1, TOK_RPAREN)"
  "input_at h u (39 # s) \<Longrightarrow> read_token h = Some (advance h 1, TOK_QUOTE)"
  "input_at h u (34 # s) \<Longrightarrow> read_token h = Some (advance h 1, TOK_DQUOTE)"
  "input_at h u (96 # s) \<Longrightarrow> read_token h = Some (advance h 1, TOK_BQUOTE)"
  by (frule inchar_at, frule skipspace_at, simp, simp add: read_token_def EOF_def)+

lemma token_end: "input_at h u [] \<Longrightarrow> read_token h = Some (h, TOK_EOF)"
  by (subst read_token_def, subst skipspace_def, subst skip_loop.simps)
    (simp add: inchar_end isspace_def iscntrl_def EOF_def backchar_def)

lemma is_one_of_byte: "is_one_of s (sint c) \<longleftrightarrow> c = 255 \<or> c \<in> set (ascii s)"
  by (auto simp: is_one_of_def sint_EOF sint_eq_iff)

lemma token_comma:
  assumes "input_at h u (44 # s)"
  shows "read_token h = Some (if s \<noteq> [] \<and> hd s = 64 then (advance h 2, TOK_ATMARK) else (advance h 1, TOK_COMMA))"
proof -
  note a = inchar_at [OF assms] skipspace_at [OF assms] advance_next [OF assms]
  show ?thesis
  proof (cases s)
    case Nil
    then have "input_at (advance h 1) (u @ [44]) []" using a(6) by simp
    note b = inchar_end [OF this]
    show ?thesis using a b Nil backchar_EOF [of "advance h 1"] by (simp add: read_token_def EOF_def)
  next
    case (Cons d t)
    then have "input_at (advance h 1) (u @ [44]) (d # t)" using a(6) by simp
    note b = inchar_at [OF this]
    show ?thesis using a b Cons sint_eq_iff [of d 64] by (simp add: read_token_def EOF_def numeral_2_eq_2)
  qed
qed

lemma token_dot:
  assumes "input_at h u (46 # d # s)"
  shows "read_token h = Some (if d \<in> {32, 10, 9} then (advance h 2, TOK_DOT) else (h, TOK_ATOM))"
proof -
  note a = inchar_at [OF assms] skipspace_at [OF assms]
  note b = inchar_at [OF advance_next [OF assms]] input_at_clean [OF assms]
  have "is_one_of [CHR 0x20, CHR 0x0A, CHR 0x09] (sint d) \<longleftrightarrow> d \<in> {32, 10, 9}"
    using b(5) by (auto simp: is_one_of_byte ascii_def chr_def)
  then show ?thesis using a b by (simp add: read_token_def EOF_def numeral_2_eq_2)
qed

lemma token_sharp:
  assumes "input_at h u (35 # d # s)" "d \<in> {116, 102, 111, 100, 120, 98, 92}"
  shows "read_token h = Some (advance h 1, TOK_SHARP_CONST)"
proof -
  note a = inchar_at [OF assms(1)] skipspace_at [OF assms(1)]
  note b = inchar_at [OF advance_next [OF assms(1)]]
  have "is_one_of ('' tfodxb'' @ [CHR 0x5C]) (sint d)" "d \<noteq> 40" "d \<noteq> 33" using assms(2)
    by (auto simp: is_one_of_byte ascii_def chr_def)
  then show ?thesis using a b sint_eq_iff [of d 40] sint_eq_iff [of d 33] by (simp add: read_token_def EOF_def)
qed

text \<open>The first character of an atom.\<close>

definition atom_start :: "byte \<Rightarrow> bool" where
  "atom_start c \<longleftrightarrow> \<not> blank c \<and> c \<notin> {40, 41, 46, 39, 59, 34, 96, 44, 35}"

lemma token_atom:
  assumes "input_at h u (c # s)" "atom_start c"
  shows "read_token h = Some (h, TOK_ATOM)"
proof -
  note a = inchar_at [OF assms(1)] skipspace_at [OF assms(1)]
  have "sint c \<noteq> 40 \<and> sint c \<noteq> 41 \<and> sint c \<noteq> 46 \<and> sint c \<noteq> 39 \<and> sint c \<noteq> 59 \<and> sint c \<noteq> 34 \<and> sint c \<noteq> 96 \<and> sint c \<noteq> 44 \<and> sint c \<noteq> 35"
    using assms(2) sint_eq_iff [of c 40] sint_eq_iff [of c 41] sint_eq_iff [of c 46] sint_eq_iff [of c 39] sint_eq_iff [of c 59]
      sint_eq_iff [of c 34] sint_eq_iff [of c 96] sint_eq_iff [of c 44] sint_eq_iff [of c 35] by (simp add: atom_start_def)
  then show ?thesis using a assms(2) by (simp add: read_token_def atom_start_def)
qed

end
