(* ===== verification/Scheme_Text.thy ===== *)
theory Scheme_Text
  imports Scheme_Input
begin

text \<open>
  Atoms and strings read back from the text the printer makes of them.
\<close>

section \<open>Up to a delimiter\<close>

definition delim :: "byte \<Rightarrow> bool" where
  "delim c \<longleftrightarrow> c \<in> {40, 41, 59, 9, 10, 13, 32}"

text \<open>What ends an atom: the end of the text or a delimiter.\<close>

definition stops :: "byte list \<Rightarrow> bool" where
  "stops r \<longleftrightarrow> r = [] \<or> delim (hd r)"

lemma is_one_of_delim: "is_one_of delimiters (sint c) \<longleftrightarrow> c = 255 \<or> delim c"
  by (auto simp: is_one_of_byte delimiters_def delim_def ascii_def chr_def)

lemma inchar_eof_byte: "(word_of_int EOF :: byte) = 255" "sint (255 :: byte) = EOF"
  by (simp_all add: EOF_def)

lemma is_one_of_end [simp]: "is_one_of s (- 1)"
  by (simp add: is_one_of_def EOF_def)

lemma backchar_end [simp]: "backchar h (- 1) = Some h"
  by (simp add: backchar_def EOF_def)

lemma inchar_byte: "(word_of_int (sint c) :: byte) = c"
  by simp

lemma readstr_loop_at:
  assumes "input_at h u (t @ r)" "\<forall>c \<in> set t. \<not> delim c" "stops r" "length acc + length t < STRBUFF"
  shows "readstr_loop h delimiters acc =
    Some (if r = [] then (advance h (length t), acc @ t @ [255]) else (advance h (Suc (length t)), acc @ t @ [hd r]))"
  using assms
proof (induction t arbitrary: h u acc)
  case Nil
  show ?case
  proof (cases r)
    case Nil
    then show ?thesis using Nil.prems inchar_end [of h u]
      by (subst readstr_loop.simps) (simp add: inchar_eof_byte)
  next
    case (Cons c s)
    then have "input_at h u (c # s)" "delim c" using Nil.prems by (simp_all add: stops_def)
    then show ?thesis using inchar_at [of h u c s] Nil.prems(4) Cons
      by (subst readstr_loop.simps) (simp add: is_one_of_delim)
  qed
next
  case (Cons c t)
  have i: "input_at h u (c # t @ r)" using Cons.prems(1) by simp
  have c: "c \<noteq> 255" "\<not> delim c" using input_at_clean [OF i] Cons.prems(2) by auto
  have "readstr_loop h delimiters acc = readstr_loop (advance h 1) delimiters (acc @ [c])"
    using inchar_at [OF i] Cons.prems(4) c by (subst readstr_loop.simps) (simp add: is_one_of_delim)
  also have "\<dots> = Some (if r = [] then (advance (advance h 1) (length t), (acc @ [c]) @ t @ [255])
    else (advance (advance h 1) (Suc (length t)), (acc @ [c]) @ t @ [hd r]))"
    using Cons.prems by (intro Cons.IH [OF advance_next [OF i]]) simp_all
  finally show ?case by simp
qed

lemma cut_clean: "0 \<notin> set s \<Longrightarrow> cut s = s"
  unfolding cut_def by (rule takeWhile_eq_all_conv [THEN iffD2]) auto

lemma backchar_stop:
  assumes "input_at h u (t @ c # s)"
  shows "backchar (advance h (Suc (length t))) (sint c) = Some (advance h (length t))"
proof -
  have "input_at (advance h (length t)) (u @ t) (c # s)" by (rule input_at_advance [OF assms])
  from inchar_at(4) [OF this] show ?thesis by simp
qed

lemma readstr_upto_at:
  assumes "input_at h u (t @ r)" "\<forall>c \<in> set t. \<not> delim c" "stops r" "length t < STRBUFF" "t \<noteq> [92]"
  shows "readstr_upto h delimiters = Some (advance h (length t), t)"
proof -
  have "0 \<notin> set t" using input_at_clean [OF assms(1)] by simp
  then have t: "cut t = t" by (rule cut_clean)
  have l: "\<not> (length (t @ [x]) = 2 \<and> (t @ [x]) ! 0 = 92)" for x using assms(5) by (cases t) auto
  have loop: "readstr_loop h delimiters [] =
    Some (if r = [] then (advance h (length t), t @ [255]) else (advance h (Suc (length t)), t @ [hd r]))"
    using readstr_loop_at [OF assms(1-3), of "[]"] assms(4) by simp
  show ?thesis
  proof (cases r)
    case Nil
    show ?thesis using loop l [of 255] t Nil by (auto simp: readstr_upto_def)
  next
    case (Cons c s)
    then have "input_at h u (t @ c # s)" using assms(1) by simp
    from backchar_stop [OF this] show ?thesis using loop l [of c] t Cons
      by (auto simp: readstr_upto_def)
  qed
qed

text \<open>A delimiter as a character constant.\<close>

lemma readstr_upto_slash:
  assumes "input_at h u (92 # c # r)" "delim c"
  shows "readstr_upto h delimiters = Some (advance h 2, [92, c])"
proof -
  have "c \<noteq> 0" using assms(2) by (auto simp: delim_def)
  then have "cut [92, c] = [92, c]" by (intro cut_clean) auto
  moreover have "\<not> delim 92" by (simp add: delim_def)
  then have "readstr_loop h delimiters [] = Some (advance h (Suc (Suc 0)), [92, c])"
    using readstr_loop_at [of h u "[92]" "c # r" "[]"] assms by (simp add: stops_def STRBUFF_def)
  ultimately show ?thesis by (simp add: readstr_upto_def flip: numeral_2_eq_2)
qed

section \<open>Strings\<close>

lemma hex_digit_read:
  assumes "(d :: byte) < 16"
  shows "48 \<le> toupper (sint (hex_digit d))" "toupper (sint (hex_digit d)) \<le> 70"
    "(if toupper (sint (hex_digit d)) \<le> 57 then toupper (sint (hex_digit d)) - 48 else toupper (sint (hex_digit d)) - 55) = uint d"
proof -
  have "d = word_of_nat (unat d)" "unat d \<in> set [0..<16]" using assms unat_mono [OF assms] by auto
  then obtain n where "d = word_of_nat n" "n \<in> set [0..<16]" by blast
  then have "d \<in> {0, 1, 2, 3, 4, 5, 6, 7, 8, 9, 10, 11, 12, 13, 14, 15}" by (auto simp: upt_rec)
  then show "48 \<le> toupper (sint (hex_digit d))" "toupper (sint (hex_digit d)) \<le> 70"
    "(if toupper (sint (hex_digit d)) \<le> 57 then toupper (sint (hex_digit d)) - 48 else toupper (sint (hex_digit d)) - 55) = uint d"
    by (auto simp: hex_digit_def toupper_def islower_def)
qed

lemma byte_of_nibbles:
  "(c :: byte) div 16 < 16" "c mod 16 < 16" "(word_of_int (16 * uint (c div 16) + uint (c mod 16)) :: byte) = c"
proof -
  show "c div 16 < 16" "c mod 16 < 16" by (simp_all add: word_less_def uint_div uint_mod) (use uint_bounded [of c] in simp)
  have "16 * uint (c div 16) + uint (c mod 16) = uint c" by (simp add: uint_div uint_mod)
  then show "(word_of_int (16 * uint (c div 16) + uint (c mod 16)) :: byte) = c" by simp
qed

lemma readstr_state_1:
  assumes "input_at h u (c # s)" "length p < STRBUFF"
  shows "readstr_state h st p = (case st of
             st_ok \<Rightarrow>
               if c = 92 then readstr_state (advance h 1) st_bsl p
               else if c = 34 then Some (advance h 1, Some p)
               else readstr_state (advance h 1) st_ok (p @ [c])
           | st_bsl \<Rightarrow>
               if c = 120 \<or> c = 88 then readstr_state (advance h 1) st_x1 p
               else if c = 110 then readstr_state (advance h 1) st_ok (p @ [10])
               else if c = 116 then readstr_state (advance h 1) st_ok (p @ [9])
               else if c = 114 then readstr_state (advance h 1) st_ok (p @ [13])
               else readstr_state (advance h 1) st_ok (p @ [c])
           | st_x1 \<Rightarrow>
               (let u = toupper (sint c) in
                if 48 \<le> u \<and> u \<le> 70 then readstr_state (advance h 1) (st_x2 (if u \<le> 57 then u - 48 else u - 55)) p
                else Some (advance h 1, None))
           | st_x2 c1 \<Rightarrow>
               (let u = toupper (sint c) in
                if 48 \<le> u \<and> u \<le> 70 then
                  readstr_state (advance h 1) st_ok (p @ [word_of_int (16 * c1 + (if u \<le> 57 then u - 48 else u - 55))])
                else Some (advance h 1, None)))"
proof -
  have eqs: "sint c = 92 \<longleftrightarrow> c = 92" "sint c = 34 \<longleftrightarrow> c = 34" "sint c = 120 \<longleftrightarrow> c = 120" "sint c = 88 \<longleftrightarrow> c = 88"
    "sint c = 110 \<longleftrightarrow> c = 110" "sint c = 116 \<longleftrightarrow> c = 116" "sint c = 114 \<longleftrightarrow> c = 114"
    using sint_eq_iff [of c 92] sint_eq_iff [of c 34] sint_eq_iff [of c 120] sint_eq_iff [of c 88] sint_eq_iff [of c 110]
      sint_eq_iff [of c 116] sint_eq_iff [of c 114] by simp_all
  have codes: "chr CHR ''x'' = 120" "chr CHR ''X'' = 88" "chr CHR ''n'' = 110" "chr CHR ''t'' = 116" "chr CHR ''r'' = 114"
    by (simp_all add: chr_def)
  have "\<not> STRBUFF - 1 < length p" using assms(2) by arith
  then show ?thesis using inchar_at [OF assms(1)]
    by (subst readstr_state.simps) (cases st; simp add: eqs codes Let_def)
qed

text \<open>One character of a string, escaped or not.\<close>

lemma readstr_state_char:
  assumes "input_at h u (slash_char c @ s)" "length p < STRBUFF"
  shows "readstr_state h st_ok p = readstr_state (advance h (length (slash_char c))) st_ok (p @ [c])"
proof (cases "c = 255 \<or> c = 34 \<or> c < 32 \<or> c = 92")
  case False
  then have "slash_char c = [c]" by (simp add: slash_char_def)
  then show ?thesis using readstr_state_1 [of h u c s p st_ok] assms False by simp
next
  case True
  define r where "r = tl (slash_char c) @ s"
  have sc: "slash_char c @ s = 92 # r" using True by (simp add: r_def slash_char_def)
  have i: "input_at h u (92 # r)" using assms(1) by (simp add: sc)
  have 1: "readstr_state h st_ok p = readstr_state (advance h 1) st_bsl p" using readstr_state_1 [OF i assms(2), of st_ok] by simp
  note i1 = advance_next [OF i]
  show ?thesis
  proof (cases "c \<in> {34, 10, 9, 13, 92}")
    case True
    then obtain d where d: "slash_char c = [92, d]"
      "(if d = 120 \<or> d = 88 then None else if d = 110 then Some 10 else if d = 116 then Some 9 else if d = 114 then Some 13 else Some d) = Some c"
      by (auto simp: slash_char_def chr_def)
    then have "input_at (advance h 1) (u @ [92]) (d # s)" using i1 by (simp add: r_def)
    from readstr_state_1 [OF this assms(2), of st_bsl] show ?thesis using 1 d by (auto split: if_splits)
  next
    case False
    define x y where "x = c div 16" and "y = c mod 16"
    have sx: "slash_char c = [92, 120, hex_digit x, hex_digit y]" using True False by (simp add: slash_char_def chr_def x_def y_def)
    then have j: "input_at (advance h 1) (u @ [92]) (120 # hex_digit x # hex_digit y # s)" using i1 by (simp add: r_def)
    have 2: "readstr_state (advance h 1) st_bsl p = readstr_state (advance h 2) st_x1 p"
      using readstr_state_1 [OF j assms(2), of st_bsl] by (simp add: numeral_2_eq_2)
    note j1 = advance_next [OF j]
    note hx = hex_digit_read [OF byte_of_nibbles(1) [of c], folded x_def]
    note hy = hex_digit_read [OF byte_of_nibbles(2) [of c], folded y_def]
    have 3: "readstr_state (advance h 2) st_x1 p = readstr_state (advance h 3) (st_x2 (uint x)) p"
      using readstr_state_1 [OF j1 assms(2), of st_x1] hx by (simp add: Let_def numeral_2_eq_2 numeral_3_eq_3)
    have "readstr_state (advance h 3) (st_x2 (uint x)) p = readstr_state (advance h 4) st_ok (p @ [c])"
      using readstr_state_1 [OF advance_next [OF j1] assms(2), of "st_x2 (uint x)"] hy byte_of_nibbles(3) [of c, folded x_def y_def]
      by (simp add: Let_def numeral_2_eq_2 numeral_3_eq_3 eval_nat_numeral)
    then show ?thesis using 1 2 3 by (simp add: sx eval_nat_numeral)
  qed
qed

lemma readstr_state_text:
  assumes "input_at h u (concat (map slash_char s) @ 34 # r)" "length p + length s < STRBUFF"
  shows "readstr_state h st_ok p = Some (advance h (Suc (length (concat (map slash_char s)))), Some (p @ s))"
  using assms
proof (induction s arbitrary: h u p)
  case Nil
  then show ?case using readstr_state_1 [of h u 34 r p st_ok] by simp
next
  case (Cons c s)
  have i: "input_at h u (slash_char c @ concat (map slash_char s) @ 34 # r)" using Cons.prems(1) by simp
  have "readstr_state h st_ok p = readstr_state (advance h (length (slash_char c))) st_ok (p @ [c])"
    using readstr_state_char [OF i] Cons.prems(2) by simp
  also have "\<dots> = Some (advance (advance h (length (slash_char c))) (Suc (length (concat (map slash_char s)))), Some ((p @ [c]) @ s))"
    using Cons.prems(2) by (intro Cons.IH [OF input_at_advance [OF i]]) simp
  finally show ?case by simp
qed

text \<open>A string in the form \<open>write\<close> gives it, after its opening quote.\<close>

lemma readstrexp_at:
  assumes "input_at h u (concat (map slash_char s) @ 34 # r)" "length s < STRBUFF" "0 \<notin> set s"
  shows "readstrexp h = Some (mk_counted_string (advance h (Suc (length (concat (map slash_char s))))) s)"
  using readstr_state_text [OF assms(1), of "[]"] assms(2,3) by (simp add: readstrexp_def)

end
