(* ===== verification/Scheme_Atoms.thy ===== *)
theory Scheme_Atoms
  imports Scheme_Text
begin

text \<open>
  Numbers, characters and symbols as atoms: what \<open>mk_atom\<close> and \<open>mk_sharp_const\<close> make of the text that \<open>atom2str\<close>
  writes for them.
\<close>

section \<open>Integers in decimal\<close>

lemma uint_digit: "n < 10 \<Longrightarrow> uint (of_nat (48 + n) :: byte) = 48 + int n"
  by (simp only: unsigned_of_nat take_bit_eq_mod) simp

lemma digit_of_nat: "n < 10 \<Longrightarrow> digit (of_nat (48 + n))"
  unfolding digit_def word_le_def by (simp only: uint_digit) simp

lemma dec_nat_digits: "\<forall>c \<in> set (dec_nat n). digit c"
proof (induction n rule: dec_nat.induct)
  case (1 n)
  show ?case
  proof (cases "n < 10")
    case True
    then show ?thesis using digit_of_nat [of n] by (subst dec_nat.simps) simp
  next
    case False
    then show ?thesis using 1 digit_of_nat [of "n mod 10"] by (subst dec_nat.simps) auto
  qed
qed

lemma dec_nat_Nil [simp]: "dec_nat n \<noteq> []"
  by (subst dec_nat.simps) simp

lemma dec_value_snoc: "dec_value (s @ [c]) = 10 * dec_value s + (uint c - 48)"
  by (simp add: dec_value_def)

lemma dec_value_dec_nat: "dec_value (dec_nat n) = int n"
proof (induction n rule: dec_nat.induct)
  case (1 n)
  show ?case
  proof (cases "n < 10")
    case True
    then show ?thesis using uint_digit [of n] by (subst dec_nat.simps) (simp add: dec_value_def)
  next
    case False
    then have "dec_value (dec_nat n) = 10 * int (n div 10) + int (n mod 10)"
      using 1 uint_digit [of "n mod 10"] by (subst dec_nat.simps) (simp add: dec_value_snoc)
    then show ?thesis by presburger
  qed
qed

lemma length_dec_nat: "n < 10 ^ Suc k \<Longrightarrow> length (dec_nat n) \<le> Suc k"
proof (induction k arbitrary: n)
  case (Suc k)
  have "n div 10 < 10 ^ Suc k" using Suc.prems by (simp add: less_mult_imp_div_less)
  then show ?case using Suc.IH [of "n div 10"] by (subst dec_nat.simps) simp
qed (simp add: dec_nat.simps)

lemma digit_codes: "digit c \<Longrightarrow> c \<notin> {43, 45, 46, 47, 58, 0, 255, 64, 92, 101, 69, 40, 41, 59, 9, 10, 13, 32, 39, 34, 96, 44, 35}"
  by (auto simp: digit_def)

lemma takeWhile_digit: "\<forall>c \<in> set s. digit c \<Longrightarrow> r = [] \<or> \<not> digit (hd r) \<Longrightarrow> takeWhile digit (s @ r) = s"
  by (cases r) (simp_all add: takeWhile_append)

lemma dec_int_cases:
  obtains n where "i = - int n" "n \<noteq> 0" "dec_int i = 45 # dec_nat n" | n where "i = int n" "dec_int i = dec_nat n"
proof (cases "i < 0")
  case True
  then show ?thesis using that(1) [of "nat (- i)"] by (simp add: dec_int_def)
next
  case False
  then show ?thesis using that(2) [of "nat i"] by (simp add: dec_int_def)
qed

lemma sign_of_digits: "digit (hd s) \<Longrightarrow> s \<noteq> [] \<Longrightarrow> sign_of (s @ r) = (False, s @ r)"
  using digit_codes [of "hd s"] by (cases s) (auto simp: sign_of_def)

lemma hd_dec_nat: "digit (hd (dec_nat n))"
  using dec_nat_digits [of n] hd_in_set [OF dec_nat_Nil] by blast

lemma atoll_dec_int:
  assumes "in_i64 i" "r = [] \<or> \<not> digit (hd r)"
  shows "atoll (dec_int i @ r) = Some i"
proof (cases i rule: dec_int_cases)
  case (1 n)
  then show ?thesis using assms takeWhile_digit [OF dec_nat_digits assms(2)]
    by (simp add: atoll_def sign_of_def dec_value_dec_nat)
next
  case (2 n)
  then show ?thesis using assms takeWhile_digit [OF dec_nat_digits assms(2)] sign_of_digits [OF hd_dec_nat dec_nat_Nil, of n r]
    by (simp add: atoll_def dec_value_dec_nat)
qed

lemma atom_scan_digits: "\<forall>c \<in> set s. digit c \<Longrightarrow> atom_scan (s @ r) dec rat = atom_scan r dec rat"
  by (induction s) auto

lemma atom_kind_dec_int:
  "atom_kind (dec_int i @ r) = (case atom_scan r False False of Some (b, q) \<Rightarrow> Number_Atom b q | None \<Rightarrow> Symbol_Atom)"
proof -
  obtain n where n: "dec_int i = 45 # dec_nat n \<or> dec_int i = dec_nat n" by (cases i rule: dec_int_cases) auto
  obtain d t where d: "dec_nat n = d # t" "digit d" "\<forall>c \<in> set t. digit c"
    using dec_nat_digits [of n] by (cases "dec_nat n") auto
  then show ?thesis using n atom_scan_digits [OF d(3), of r] digit_codes [OF d(2)] by (auto simp: atom_kind_def)
qed

lemma find_colons_none: "58 \<notin> set q \<Longrightarrow> find_colons q = None"
  by (induction q rule: find_colons.induct) auto

lemma dec_int_set: "c \<in> set (dec_int i) \<Longrightarrow> digit c \<or> c = 45"
  using dec_nat_digits by (cases i rule: dec_int_cases) auto

lemma dec_int_Nil [simp]: "dec_int i \<noteq> []"
  by (cases i rule: dec_int_cases) auto

lemma length_dec_int: "in_i64 i \<Longrightarrow> length (dec_int i) \<le> 20"
proof -
  assume i: "in_i64 i"
  have len: "length (dec_nat n) \<le> 19" if "\<bar>i\<bar> = int n" for n
    using length_dec_nat [of n 18] i that by (auto simp: in_i64_def)
  show ?thesis using len by (cases i rule: dec_int_cases) (auto intro: le_SucI)
qed

lemma not_digit_slash [simp]: "\<not> digit 47"
  by (simp add: digit_def word_le_def)

lemma mk_atom_integer:
  assumes "in_i64 i"
  shows "mk_atom K h (dec_int i) = Some (mk_integer h i)"
proof -
  have "find_colons (dec_int i) = None" using dec_int_set digit_codes by (intro find_colons_none) fastforce
  then show ?thesis using atom_kind_dec_int [of i "[]"] atoll_dec_int [OF assms, of "[]"]
    by (simp add: mk_atom.simps mk_simple_atom_def)
qed

lemma mk_atom_rational:
  assumes "in_i64 n" "in_i64 d" "0 < d" "mk_rational n d = Inr x"
  shows "mk_atom K h (dec_int n @ 47 # dec_int d) = Some (alloc (Number x) h)"
proof -
  have "find_colons (dec_int n @ 47 # dec_int d) = None" using dec_int_set digit_codes by (intro find_colons_none) fastforce
  moreover obtain m where m: "dec_int d = dec_nat m" using assms(3) by (cases d rule: dec_int_cases) auto
  have "atom_kind (dec_int n @ 47 # dec_int d) = Number_Atom False True"
    using atom_kind_dec_int [of n "47 # dec_int d"] atom_scan_digits [OF dec_nat_digits, of m "[]"] not_digit_slash
    by (simp add: m)
  moreover have "after_slash (dec_int n @ 47 # dec_int d) = dec_int d"
    using dec_int_set [of _ n] digit_codes by (subst after_slash_def, subst dropWhile_append2) fastforce+
  moreover have "atoll (dec_int n @ 47 # dec_int d) = Some n" "atoll (dec_int d) = Some d"
    using atoll_dec_int [OF assms(1), of "47 # dec_int d"] atoll_dec_int [OF assms(2), of "[]"] digit_codes [of 47] by auto
  ultimately show ?thesis by (simp add: mk_atom.simps mk_simple_atom_def assms(4) alloc_num_def)
qed

section \<open>Characters\<close>

definition char_back :: "int \<Rightarrow> bool" where
  "char_back c =
     (case char_text c of
        Some (a # b # s) \<Rightarrow>
          a = 35 \<and> b = 92 \<and> named_char s = Some (Some c) \<and> s \<noteq> [] \<and> length s \<le> 7 \<and> list_all (\<lambda>x. x \<noteq> 0) s \<and>
          (list_all (\<lambda>x. \<not> delim x) s \<or> length s = 1)
      | _ \<Rightarrow> False)"

lemma chars_back_low: "list_all char_back (map int [0..<33])"
  by code_simp

lemma ascii_name_1: "ascii_name [c] = None"
proof -
  have "takeWhile (\<lambda>n. ascii n \<noteq> [c]) charnames = charnames"
    by (rule takeWhile_eq_all_conv [THEN iffD2]) (simp add: charnames_def ascii_def)
  then have "length (takeWhile (\<lambda>n. ascii n \<noteq> [c]) charnames) = 32" by (simp add: charnames_def)
  then show ?thesis by (simp add: ascii_name_def Let_def ascii_def)
qed

lemma char_back_high:
  assumes "33 \<le> c" "c < 127"
  shows "char_back c"
proof -
  define w :: byte where "w = word_of_int c"
  have u: "uint w = c" using assms by (simp add: w_def uint_word_of_int_eq take_bit_eq_mod)
  have s: "sint w = c" using assms by (simp add: w_def sint_sbintrunc' signed_take_bit_int_eq_self)
  have w0: "w \<noteq> 0" using u assms(1) by auto
  have "named_char [w] = Some (Some c)" by (simp add: named_char_def ascii_def ascii_name_1 s)
  moreover have "char_text c = Some [35, 92, w]" using assms w0 by (simp add: char_text_def cut_def w_def [symmetric])
  ultimately show ?thesis using w0 by (simp add: char_back_def)
qed

lemma char_back_del: "char_back 127"
  by code_simp

lemma chars_back:
  assumes "0 \<le> c" "c < 128"
  shows "char_back c"
proof -
  consider "nat c \<in> set [0..<33]" | "33 \<le> c" "c < 127" | "c = 127" using assms by fastforce
  then show ?thesis
  proof cases
    case 1
    then have "c \<in> set (map int [0..<33])" using assms(1) by (auto intro: rev_image_eqI)
    then show ?thesis using chars_back_low by (auto simp: list_all_iff)
  qed (use char_back_high char_back_del in auto)
qed

lemma mk_sharp_const_char:
  assumes "0 \<le> c" "c < 128" "char_text c = Some (35 # s)"
  shows "mk_sharp_const h s = Some (mk_character h c)"
proof -
  obtain r where "s = 92 # r" "named_char r = Some (Some c)"
    using chars_back [OF assms(1,2)] assms(3) by (auto simp: char_back_def split: list.splits)
  then show ?thesis by (simp add: mk_sharp_const_def ascii_def chr_def)
qed

end
