(* ===== verification/Scheme_Growth.thy ===== *)
theory Scheme_Growth
  imports Scheme_Symbols Scheme_Atoms
begin

text \<open>
  How the store changes while the reader builds an object: new cells, new symbols in the table, and lists in the making
  whose cells are linked the other way round at the end.
\<close>

section \<open>The cells of the symbol table\<close>

definition table_cells :: "store \<Rightarrow> addr \<Rightarrow> addr set" where
  "table_cells h ob = {q. \<exists>vs y xs. h_cell h ob = Vector vs \<and> y \<in> set vs \<and> slist h y xs \<and> q \<in> fst ` set xs}"

lemma table_cells_bucket:
  "h_cell h ob = Vector vs \<Longrightarrow> y \<in> set vs \<Longrightarrow> slist h y xs \<Longrightarrow> (c, v) \<in> set xs \<Longrightarrow> c \<in> table_cells h ob"
  unfolding table_cells_def by force

section \<open>Changes that leave the table alone\<close>

text \<open>
  \<open>outside ob C h h'\<close>: from \<open>h\<close> to \<open>h'\<close> only cells of \<open>C\<close> changed, pairs outside the table.
\<close>

definition outside :: "addr \<Rightarrow> addr set \<Rightarrow> store \<Rightarrow> store \<Rightarrow> bool" where
  "outside ob C h h' \<longleftrightarrow>
     h_next h \<le> h_next h' \<and> h_nbuf h \<le> h_nbuf h' \<and> store_ok h' \<and> buffers_ok h' \<and>
     (\<forall>p < h_next h. p \<notin> C \<longrightarrow> h_cell h' p = h_cell h p) \<and>
     (\<forall>p b n. h_cell h p = String b n \<longrightarrow> h_buf h' b = h_buf h b) \<and> (\<forall>p \<in> C. is_pair h p) \<and> C \<inter> table_cells h ob = {}"

lemma outside_symname:
  assumes "outside ob C h h'" "oblist_ok h ob" "symname h s = Some m"
  shows "symname h' s = Some m"
proof -
  obtain t d b k where s: "h_cell h s = Symbol t d \<or> h_cell h s = Syntax t d" "h_cell h t = String b k" "m = c_str h b"
    using symname_cell [OF assms(3)] by blast
  have C: "h_cell h' p = h_cell h p" if "h_cell h p \<noteq> Junk" "\<not> is_pair h p" for p
    using that assms(1,2) unfolding outside_def oblist_ok_def store_ok_def by blast
  have "h_cell h' s = h_cell h s" "h_cell h' t = String b k" using s C by (auto simp: is_pair_def)
  moreover have "h_buf h' b = h_buf h b" using assms(1) s(2) unfolding outside_def by blast
  ultimately show ?thesis using s by (auto simp: symname_def is_symbol_def car_def c_str_def)
qed

lemma outside_bucket:
  assumes "outside ob C h h'" "oblist_ok h ob" "h_cell h ob = Vector vs" "y \<in> set vs" "bucket_ok h y xs"
  shows "bucket_ok h' y xs"
proof -
  have "slist h' y xs"
  proof (rule segment_cong)
    show sl: "slist h y xs" using assms(5) by (simp add: bucket_ok_def)
    fix c v assume c: "(c, v) \<in> set xs"
    then have "c \<in> table_cells h ob" using table_cells_bucket [OF assms(3,4) sl] by blast
    moreover have "c < h_next h" using segment_pair [OF sl c] assms(2) by (auto simp: oblist_ok_def dest: store_okD(4))
    ultimately show "h_cell h' c = h_cell h c" using assms(1) unfolding outside_def by blast
  qed
  then show ?thesis using assms(5) outside_symname [OF assms(1,2)] unfolding bucket_ok_def by blast
qed

lemma outside_vector:
  assumes "outside ob C h h'" "oblist_ok h ob"
  obtains vs where "h_cell h ob = Vector vs" "h_cell h' ob = Vector vs"
proof -
  obtain vs where vs: "h_cell h ob = Vector vs" "store_ok h" using assms(2) by (rule oblist_okD)
  then have "ob < h_next h" "\<not> is_pair h ob" by (auto simp: store_ok_def is_pair_def)
  then have "h_cell h' ob = h_cell h ob" using assms(1) unfolding outside_def by blast
  then show ?thesis using vs that by simp
qed

lemma outside_oblist:
  assumes "outside ob C h h'" "oblist_ok h ob"
  shows "oblist_ok h' ob"
proof -
  obtain vs where vs: "h_cell h ob = Vector vs" "h_cell h' ob = Vector vs" using outside_vector [OF assms] by blast
  have "\<exists>xs. bucket_ok h' y xs" if y: "y \<in> set vs" for y
  proof -
    obtain xs where "bucket_ok h y xs" using assms(2) vs(1) y by (auto simp: oblist_ok_def)
    then show ?thesis using outside_bucket [OF assms vs(1) y] by blast
  qed
  then show ?thesis using vs assms by (auto simp: oblist_ok_def outside_def)
qed

lemma outside_find:
  assumes "outside ob C h h'" "oblist_ok h ob"
  shows "oblist_find_by_name h' ob m = oblist_find_by_name h ob m"
proof -
  obtain vs where vs: "h_cell h ob = Vector vs" "h_cell h' ob = Vector vs" using outside_vector [OF assms] by blast
  have ne: "vs \<noteq> []" and ok: "store_ok h" "store_ok h'" using assms vs by (auto simp: oblist_ok_def outside_def)
  let ?y = "vs ! hash_fn m (length vs)"
  have y: "?y \<in> set vs" using ne by (simp add: hash_fn_def)
  obtain xs where xs: "bucket_ok h ?y xs" using assms(2) vs(1) y by (auto simp: oblist_ok_def)
  have "oblist_find_loop h' m ?y = oblist_find_loop h m ?y"
    by (rule bucket_find_kept [OF xs outside_bucket [OF assms vs(1) y xs] ok]) (rule outside_symname [OF assms])
  then show ?thesis using oblist_find_vector [OF vs(1) ne] oblist_find_vector [OF vs(2) ne] by simp
qed

lemma outside_table:
  assumes "outside ob C h h'" "oblist_ok h ob"
  shows "table_cells h' ob = table_cells h ob"
proof -
  obtain vs where vs: "h_cell h ob = Vector vs" "h_cell h' ob = Vector vs" using outside_vector [OF assms] by blast
  have ok: "store_ok h" "store_ok h'" using assms by (auto simp: oblist_ok_def outside_def)
  have "slist h' y xs \<longleftrightarrow> slist h y xs" if y: "y \<in> set vs" for y xs
  proof -
    obtain ys where ys: "bucket_ok h y ys" using assms(2) vs(1) y by (auto simp: oblist_ok_def)
    then have "slist h y ys" "slist h' y ys" using outside_bucket [OF assms vs(1) y ys] by (auto simp: bucket_ok_def)
    then show ?thesis using segment_unique ok by blast
  qed
  then show ?thesis unfolding table_cells_def vs by auto
qed

section \<open>Growth\<close>

text \<open>
  \<open>grows ob C h h'\<close>: of the cells of \<open>h\<close> only those of \<open>C\<close> and the table itself may have changed, every symbol is
  still found, and what is new in the table are new cells.
\<close>

definition grows :: "addr \<Rightarrow> addr set \<Rightarrow> store \<Rightarrow> store \<Rightarrow> bool" where
  "grows ob C h h' \<longleftrightarrow>
     oblist_ok h ob \<and> oblist_ok h' ob \<and> h_next h \<le> h_next h' \<and> h_nbuf h \<le> h_nbuf h' \<and>
     (\<forall>p < h_next h. p \<notin> C \<longrightarrow> p \<noteq> ob \<longrightarrow> h_cell h' p = h_cell h p) \<and> (\<forall>b < h_nbuf h. h_buf h' b = h_buf h b) \<and>
     (\<forall>m t. oblist_find_by_name h ob m = Some t \<longrightarrow> t \<noteq> NIL \<longrightarrow> oblist_find_by_name h' ob m = Some t) \<and>
     (\<forall>q < h_next h. q \<in> table_cells h' ob \<longrightarrow> q \<in> table_cells h ob)"

lemma growsD:
  assumes "grows ob C h h'"
  shows "oblist_ok h ob" "oblist_ok h' ob" "h_next h \<le> h_next h'" "h_nbuf h \<le> h_nbuf h'"
    "p < h_next h \<Longrightarrow> p \<notin> C \<Longrightarrow> p \<noteq> ob \<Longrightarrow> h_cell h' p = h_cell h p" "b < h_nbuf h \<Longrightarrow> h_buf h' b = h_buf h b"
    "oblist_find_by_name h ob m = Some t \<Longrightarrow> t \<noteq> NIL \<Longrightarrow> oblist_find_by_name h' ob m = Some t"
    "q < h_next h \<Longrightarrow> q \<in> table_cells h' ob \<Longrightarrow> q \<in> table_cells h ob"
  using assms unfolding grows_def by blast+

lemma grows_refl: "oblist_ok h ob \<Longrightarrow> grows ob C h h"
  by (simp add: grows_def)

lemma grows_trans:
  assumes "grows ob C h h1" "grows ob D h1 h2" "\<And>p. p \<in> D \<Longrightarrow> p < h_next h \<Longrightarrow> p \<in> C"
  shows "grows ob C h h2"
  unfolding grows_def
proof (intro conjI allI impI)
  note 1 = growsD [OF assms(1)] and 2 = growsD [OF assms(2)]
  show "oblist_ok h ob" "oblist_ok h2 ob" "h_next h \<le> h_next h2" "h_nbuf h \<le> h_nbuf h2" using 1(1,3,4) 2(2-4) by simp_all
  show "h_cell h2 p = h_cell h p" if "p < h_next h" "p \<notin> C" "p \<noteq> ob" for p
    using that 1(3,5) 2(5) assms(3) by (metis order_less_le_trans)
  show "h_buf h2 b = h_buf h b" if "b < h_nbuf h" for b using that 1(4,6) 2(6) by simp
  show "oblist_find_by_name h2 ob m = Some t" if "oblist_find_by_name h ob m = Some t" "t \<noteq> NIL" for m t
    using that 1(7) 2(7) by blast
  show "q \<in> table_cells h ob" if "q < h_next h" "q \<in> table_cells h2 ob" for q
    using that 1(3,8) 2(8) by (metis order_less_le_trans)
qed

lemma grows_mono: "grows ob C h h' \<Longrightarrow> C \<subseteq> D \<Longrightarrow> grows ob D h h'"
  unfolding grows_def by blast

lemma grows_outside:
  assumes "outside ob C h h'" "oblist_ok h ob" "\<forall>b < h_nbuf h. h_buf h' b = h_buf h b"
  shows "grows ob C h h'"
  using assms outside_oblist [OF assms(1,2)] outside_find [OF assms(1,2)] outside_table [OF assms(1,2)]
  unfolding grows_def outside_def by simp

lemma grows_none:
  "outside ob {} h h' \<Longrightarrow> oblist_ok h ob \<Longrightarrow> \<forall>b < h_nbuf h. h_buf h' b = h_buf h b \<Longrightarrow> grows ob C h h'"
  by (rule grows_mono [OF grows_outside [where C = "{}"]]) simp_all

text \<open>Stores that differ in ports and registers only.\<close>

lemma grows_same:
  assumes "oblist_ok h ob" "h_cell h' = h_cell h" "h_buf h' = h_buf h" "h_next h' = h_next h" "h_nbuf h' = h_nbuf h"
  shows "grows ob C h h'"
proof -
  have "outside ob {} h h'" using assms by (auto simp: outside_def oblist_ok_def store_ok_def buffers_ok_def)
  then show ?thesis by (rule grows_none [OF _ assms(1)]) (simp add: assms)
qed

lemma alloc_other [simp]:
  "h_nbuf (fst (alloc c h)) = h_nbuf h" "h_buf (fst (alloc c h)) = h_buf h" "h_port (fst (alloc c h)) = h_port h"
  "h_inport (fst (alloc c h)) = h_inport h" "h_loadport (fst (alloc c h)) = h_loadport h" "h_save_inport (fst (alloc c h)) = h_save_inport h" "h_outport (fst (alloc c h)) = h_outport h" "snd (alloc c h) = h_next h"
  "h_next (fst (alloc c h)) = Suc (h_next h)" "h_cell (fst (alloc c h)) = (h_cell h)(h_next h := c)"
  by (simp_all add: alloc_def new_cell_def put_cell_def)

lemma grows_alloc:
  assumes "oblist_ok h ob" "\<And>b n. c = String b n \<Longrightarrow> b < h_nbuf h"
  shows "grows ob C h (fst (alloc c h))"
proof -
  have "store_ok h" "buffers_ok h" using assms(1) by (auto simp: oblist_ok_def)
  then have "outside ob {} h (fst (alloc c h))" using assms(2)
    by (auto simp: outside_def heap_simps store_ok_def buffers_ok_def NIL_def T_OBJ_def F_OBJ_def EOF_OBJ_def less_Suc_eq)
  then show ?thesis by (rule grows_none [OF _ assms(1)]) (simp add: assms)
qed

lemma grows_store_string:
  assumes "oblist_ok h ob"
  shows "grows ob C h (fst (store_string h s))"
proof -
  have "store_ok h" "buffers_ok h" using assms by (auto simp: oblist_ok_def)
  then have "outside ob {} h (fst (store_string h s))"
    by (auto simp: outside_def store_string_def store_ok_def buffers_ok_def intro: less_SucI)
  then show ?thesis by (rule grows_none [OF _ assms]) (simp add: store_string_def)
qed

lemma relink_loop_cells:
  assumes "relink_loop h p q = Some y"
  shows "\<exists>f. fst y = h\<lparr>h_cell := f\<rparr>"
proof (rule relink_loop.raw_induct [where P = "\<lambda>h p q y. \<exists>f. fst y = h\<lparr>h_cell := f\<rparr>", OF _ assms])
  fix loop h p q y
  assume ih: "\<And>h p q y. loop h p q = Some y \<Longrightarrow> \<exists>f. fst y = h\<lparr>h_cell := f\<rparr>"
    and eq: "(if p \<noteq> NIL then do { d \<leftarrow> cdr h p; h1 \<leftarrow> store_cdr h p q; loop h1 d p } else Some (h, q)) = Some y"
  show "\<exists>f. fst y = h\<lparr>h_cell := f\<rparr>"
  proof (cases "p = NIL")
    case True
    then show ?thesis using eq by (intro exI [of _ "h_cell h"]) auto
  next
    case False
    then obtain d h1 where d: "store_cdr h p q = Some h1" "loop h1 d p = Some y" using eq by (auto simp: Option.bind_eq_Some_conv)
    then obtain f where "fst y = h1\<lparr>h_cell := f\<rparr>" using ih by blast
    moreover obtain c where "h1 = put_cell h p c" using d(1) by (auto simp: store_cdr_def Option.bind_eq_Some_conv split: option.splits)
    ultimately show ?thesis by (intro exI [of _ f]) (simp add: put_cell_def)
  qed
qed

lemma grows_reverse:
  assumes "oblist_ok h ob" "slist h p xs" "fst ` set xs \<inter> table_cells h ob = {}"
  obtains f r where "reverse_in_place h e p = Some (h\<lparr>h_cell := f\<rparr>, r)" "segment (h\<lparr>h_cell := f\<rparr>) r (rev xs) e"
    "grows ob (fst ` set xs) h (h\<lparr>h_cell := f\<rparr>)"
proof -
  have ok: "store_ok h" "buffers_ok h" using assms(1) by (auto simp: oblist_ok_def)
  obtain h' r where r: "relink_loop h p e = Some (h', r)" "segment h' r (rev xs) e" "store_ok h'"
    "\<forall>c. c \<notin> fst ` set xs \<longrightarrow> h_cell h' c = h_cell h c"
    using relink_loop_slist [OF assms(2) _ ok(1) _ slist_distinct [OF assms(2) ok(1)], of e "[]" e] by auto
  obtain f where f: "h' = h\<lparr>h_cell := f\<rparr>" using relink_loop_cells [OF r(1)] by auto
  have "buffers_ok h'" unfolding buffers_ok_def
  proof (intro allI impI)
    fix c b k assume s: "h_cell h' c = String b k"
    then have "c \<notin> fst ` set xs" using segment_pair [OF r(2)] by (force simp: is_pair_def)
    then have "h_cell h c = String b k" using r(4) s by simp
    then have "b < h_nbuf h" using ok(2) unfolding buffers_ok_def by blast
    then show "b < h_nbuf h'" using f by simp
  qed
  moreover have "\<forall>c \<in> fst ` set xs. is_pair h c" using segment_pair [OF assms(2)] by force
  ultimately have "outside ob (fst ` set xs) h h'" using r(3,4) assms(3) f by (simp add: outside_def)
  then have "grows ob (fst ` set xs) h h'" by (rule grows_outside [OF _ assms(1)]) (simp add: f)
  then show ?thesis using that r(1,2) unfolding f reverse_in_place_def by blast
qed

lemma oblist_add_grows:
  assumes ok: "oblist_ok h ob" and new: "oblist_find_by_name h ob n = Some NIL"
    and add: "oblist_add_by_name h ob n = Some (h', s)" and ok': "oblist_ok h' ob"
    and other: "\<And>m. m \<noteq> n \<Longrightarrow> oblist_find_by_name h' ob m = oblist_find_by_name h ob m"
  shows "grows ob C h h'"
proof -
  obtain vs where vs: "h_cell h ob = Vector vs" "vs \<noteq> []" "store_ok h" "buffers_ok h"
    and b: "\<forall>y \<in> set vs. \<exists>xs. bucket_ok h y xs" using ok unfolding oblist_ok_def by blast
  define k where "k = h_next h"
  define i where "i = hash_fn n (length vs)"
  have h': "h_next h' = Suc (Suc (Suc k))" "h_buf h' = (h_buf h)(h_nbuf h := n @ [0])" "h_nbuf h' = Suc (h_nbuf h)"
    "h_cell h' = (h_cell h)(k := String (h_nbuf h) (length n), Suc k := Symbol k NIL, Suc (Suc k) := Pair (Suc k) (vs ! i),
      ob := Vector (vs[i := Suc (Suc k)]))"
    using oblist_add [OF ok vs(1), of n] add by (auto simp: k_def i_def)
  have i: "i < length vs" using vs(2) by (simp add: i_def hash_fn_def)
  have "ob < k" using vs by (auto simp: store_ok_def k_def)
  have old: "h_cell h' p = h_cell h p" if "p < k" "p \<noteq> ob" for p using that h'(4) by simp
  have kept: "slist h y xs" if y: "y \<in> set vs" and xs: "slist h' y xs" for y xs
  proof -
    obtain ys where ys: "slist h y ys" using b y by (auto simp: bucket_ok_def)
    have "slist h' y ys"
    proof (rule segment_cong [OF ys])
      fix c v assume "(c, v) \<in> set ys"
      then have "is_pair h c" by (rule segment_pair [OF ys])
      then have "c < k" "c \<noteq> ob" using vs(1) store_okD(4) [OF vs(3)] by (auto simp: k_def is_pair_def)
      then show "h_cell h' c = h_cell h c" by (rule old)
    qed
    then show ?thesis using segment_unique [OF xs] ys ok' by (auto simp: oblist_ok_def)
  qed
  have table: "q \<in> table_cells h ob" if q: "q < k" "q \<in> table_cells h' ob" for q
  proof -
    obtain y xs where y: "y \<in> set (vs[i := Suc (Suc k)])" "slist h' y xs" "q \<in> fst ` set xs"
      using q(2) h'(4) by (auto simp: table_cells_def)
    show ?thesis
    proof (cases "y \<in> set vs")
      case True
      then show ?thesis using kept [OF True y(2)] y(3) vs(1) unfolding table_cells_def by blast
    next
      case False
      then have ysk: "y = Suc (Suc k)" using y(1) set_update_subset_insert by fastforce
      then obtain xs' where "xs = (Suc (Suc k), Suc k) # xs'" "slist h' (vs ! i) xs'"
        using y(2,3) h'(4) \<open>ob < k\<close> by (cases xs) auto
      then have "slist h (vs ! i) xs'" "q \<in> fst ` set xs'" using kept nth_mem [OF i] y(3) q(1) by auto
      then show ?thesis using nth_mem [OF i] vs(1) unfolding table_cells_def by blast
    qed
  qed
  show ?thesis unfolding grows_def
  proof (intro conjI allI impI ok ok')
    show "oblist_find_by_name h' ob m = Some t" if "oblist_find_by_name h ob m = Some t" "t \<noteq> NIL" for m t
      using that new other by (cases "m = n") auto
  qed (use h' old table in \<open>simp_all add: k_def\<close>)
qed

lemma mk_symbol_grows:
  assumes "oblist_ok h ob" "0 \<notin> set n"
  obtains h' s where "mk_symbol h ob n = Some (h', s)" "oblist_find_by_name h' ob n = Some s" "s \<noteq> NIL" "grows ob C h h'"
    "h_port h' = h_port h" "h_inport h' = h_inport h" "h_loadport h' = h_loadport h" "h_save_inport h' = h_save_inport h"
proof (rule mk_symbol_cases [OF assms], goal_cases)
  case (1 s)
  then show ?case using that grows_refl [OF assms(1)] by blast
next
  case (2 h' s)
  then show ?case using that oblist_add_grows [OF assms(1)] oblist_add_fields [OF assms(1)] by metis
qed

section \<open>The input port\<close>

lemma input_at_grows:
  assumes "grows ob C h h'" "\<forall>p \<in> C. is_pair h p" "input_at h u s" "h_port h' = h_port h" "h_inport h' = h_inport h"
  shows "input_at h' u s"
proof -
  obtain i b where i: "h_cell h (h_inport h) = Port i" "p_rep (h_port h i) = Str b (length u) (length u + length s)"
    "take (length u + length s) (h_buf h b) = u @ s" "length u + length s < length (h_buf h b)" "b < h_nbuf h"
    "0 \<notin> set s" "255 \<notin> set s" using assms(3) by (auto simp: input_at_def)
  have "h_inport h < h_next h" "h_inport h \<noteq> ob" "h_inport h \<notin> C"
    using i(1) growsD(1) [OF assms(1)] assms(2) by (auto simp: oblist_ok_def store_ok_def is_pair_def)
  then have "h_cell h' (h_inport h) = Port i" "h_buf h' b = h_buf h b" "b < h_nbuf h'"
    using growsD(5) [OF assms(1)] i(1) growsD(6) [OF assms(1) i(5)] growsD(4) [OF assms(1)] i(5) by auto
  then show ?thesis using i(2-) assms(4,5) by (auto simp: input_at_def)
qed

lemma advance_other [simp]: "h_nport (advance h n) = h_nport h" "h_gensym_cnt (advance h n) = h_gensym_cnt h"
  by (simp_all add: advance_def split: cell.split port_rep.split)

lemma grows_advance: "oblist_ok h ob \<Longrightarrow> grows ob C h (advance h n)"
  by (rule grows_same) simp_all

end
