(* ===== verification/Scheme_Data.thy ===== *)
theory Scheme_Data
  imports Scheme_Growth
begin

text \<open>
  Objects that have an external representation: as values, as cells of the store, as text.
\<close>

section \<open>Objects\<close>

datatype datum = D_Nil | D_Bool bool | D_Num num | D_Char int | D_Str "byte list" | D_Sym "byte list" | D_Pair datum datum

text \<open>
  \<open>repr ob h F p d\<close>: the object at \<open>p\<close> is \<open>d\<close>, made of cells of \<open>F\<close> and of symbols of the table \<open>ob\<close>.
\<close>

fun repr :: "addr \<Rightarrow> store \<Rightarrow> addr set \<Rightarrow> addr \<Rightarrow> datum \<Rightarrow> bool" where
  "repr ob h F p D_Nil \<longleftrightarrow> p = NIL"
| "repr ob h F p (D_Bool b) \<longleftrightarrow> p = (if b then T_OBJ else F_OBJ)"
| "repr ob h F p (D_Num x) \<longleftrightarrow> p \<in> F \<and> h_cell h p = Number x"
| "repr ob h F p (D_Char c) \<longleftrightarrow> p \<in> F \<and> h_cell h p = Character c"
| "repr ob h F p (D_Str s) \<longleftrightarrow>
     p \<in> F \<and> (\<exists>b. h_cell h p = String b (length s) \<and> length s \<le> length (h_buf h b) \<and> take (length s) (h_buf h b) = s)"
| "repr ob h F p (D_Sym n) \<longleftrightarrow> oblist_find_by_name h ob n = Some p \<and> p \<noteq> NIL"
| "repr ob h F p (D_Pair x y) \<longleftrightarrow> p \<in> F \<and> (\<exists>a d. h_cell h p = Pair a d \<and> repr ob h F a x \<and> repr ob h F d y)"

lemma repr_mono: "repr ob h F p d \<Longrightarrow> F \<subseteq> G \<Longrightarrow> repr ob h G p d"
  by (induction ob h F p d rule: repr.induct) auto

lemma repr_grows:
  assumes "repr ob h F p d" "grows ob C h h'" "F \<inter> C = {}"
  shows "repr ob h' F p d"
  using assms
proof (induction ob h F p d rule: repr.induct)
  case (5 ob h F p s)
  then obtain b where b: "p \<in> F" "h_cell h p = String b (length s)" "length s \<le> length (h_buf h b)" "take (length s) (h_buf h b) = s"
    by auto
  have "p < h_next h" "p \<noteq> ob" "b < h_nbuf h"
    using growsD(1) [OF 5(2)] b(2) by (auto simp: oblist_ok_def store_ok_def buffers_ok_def)
  then have "h_cell h' p = h_cell h p" "h_buf h' b = h_buf h b"
    using growsD(5,6) [OF 5(2)] b(1) 5(3) by blast+
  then show ?case using b by auto
next
  case (7 ob h F p x y)
  then obtain a d where a: "p \<in> F" "h_cell h p = Pair a d" "repr ob h F a x" "repr ob h F d y" by auto
  have "p < h_next h" "p \<noteq> ob" using growsD(1) [OF 7(4)] a(2) by (auto simp: oblist_ok_def store_ok_def)
  then have "h_cell h' p = Pair a d" using growsD(5) [OF 7(4)] a(1,2) 7(5) by fastforce
  then show ?case using a 7 by auto
next
  case (3 ob h F p x)
  then have p: "p \<in> F" "h_cell h p = Number x" by auto
  have "p < h_next h" "p \<noteq> ob" using growsD(1) [OF 3(2)] p(2) by (auto simp: oblist_ok_def store_ok_def)
  then show ?case using growsD(5) [OF 3(2)] p 3(3) by fastforce
next
  case (4 ob h F p x)
  then have p: "p \<in> F" "h_cell h p = Character x" by auto
  have "p < h_next h" "p \<noteq> ob" using growsD(1) [OF 4(2)] p(2) by (auto simp: oblist_ok_def store_ok_def)
  then show ?case using growsD(5) [OF 4(2)] p 4(3) by fastforce
qed (auto dest: growsD(7))

section \<open>Text\<close>

text \<open>The prefix that stands for \<open>quote\<close> and the like in a list of two elements.\<close>

definition prefix_of :: "byte list \<Rightarrow> byte list option" where
  "prefix_of n =
     (if n = ascii ''quote'' then Some [39] else if n = ascii ''quasiquote'' then Some [96]
      else if n = ascii ''unquote'' then Some [44] else if n = ascii ''unquote-splicing'' then Some [44, 64] else None)"

fun quoted :: "datum \<Rightarrow> datum \<Rightarrow> (byte list \<times> datum) option" where
  "quoted (D_Sym n) (D_Pair x D_Nil) = map_option (\<lambda>s. (s, x)) (prefix_of n)"
| "quoted _ _ = None"

lemma quoted_Some: "quoted a b = Some (s, x) \<longleftrightarrow> (\<exists>n. a = D_Sym n \<and> b = D_Pair x D_Nil \<and> prefix_of n = Some s)"
  by (induction a b rule: quoted.induct) auto

function text_of :: "datum \<Rightarrow> byte list" and tail_of :: "datum \<Rightarrow> byte list" where
  "text_of D_Nil = [40, 41]"
| "text_of (D_Bool b) = [35, if b then 116 else 102]"
| "text_of (D_Num x) = num_text x"
| "text_of (D_Char c) = the (char_text c)"
| "text_of (D_Str s) = slash_text s"
| "text_of (D_Sym n) = n"
| "text_of (D_Pair a b) = (case quoted a b of Some (s, x) \<Rightarrow> s @ text_of x | None \<Rightarrow> 40 # text_of a @ tail_of b)"
| "tail_of d =
     (case d of D_Nil \<Rightarrow> [41] | D_Pair a b \<Rightarrow> 32 # text_of a @ tail_of b | _ \<Rightarrow> [32, 46, 32] @ text_of d @ [41])"
  by pat_completeness auto

termination
  by (relation "measure (\<lambda>x. case x of Inl d \<Rightarrow> 2 * size d | Inr d \<Rightarrow> 2 * size d + 1)") (auto simp: quoted_Some)

declare tail_of.simps [simp del]

lemma tail_of_simps [simp]:
  "tail_of D_Nil = [41]" "tail_of (D_Pair a b) = 32 # text_of a @ tail_of b" "tail_of (D_Bool v) = [32, 46, 32] @ text_of (D_Bool v) @ [41]"
  "tail_of (D_Num x) = [32, 46, 32] @ num_text x @ [41]" "tail_of (D_Char c) = [32, 46, 32] @ the (char_text c) @ [41]"
  "tail_of (D_Str s) = [32, 46, 32] @ slash_text s @ [41]" "tail_of (D_Sym n) = [32, 46, 32] @ n @ [41]"
  by (simp_all add: tail_of.simps)

section \<open>Objects that can be read back\<close>

text \<open>
  A symbol is read back when its name is an atom of its own. It must not begin with an \<open>@\<close> either, for the
  printer puts a comma directly before it when it is unquoted.
\<close>

definition symbol_back :: "byte list \<Rightarrow> bool" where
  "symbol_back n \<longleftrightarrow>
     n \<noteq> [] \<and> n \<noteq> [92] \<and> (atom_start (hd n) \<or> hd n = 46 \<and> 2 \<le> length n) \<and> hd n \<noteq> 64 \<and>
     list_all (\<lambda>c. \<not> delim c \<and> c \<noteq> 0 \<and> c \<noteq> 255) n \<and> length n < STRBUFF \<and> atom_kind n = Symbol_Atom \<and> find_colons n = None"

definition number_back :: "num \<Rightarrow> bool" where
  "number_back x =
     (case x of
        Integer i \<Rightarrow> in_i64 i
      | Rational n d \<Rightarrow> in_i64 n \<and> in_i64 d \<and> 0 < d \<and> mk_rational n d = Inr x
      | Real r \<Rightarrow> False)"

fun readable :: "datum \<Rightarrow> bool" where
  "readable D_Nil \<longleftrightarrow> True"
| "readable (D_Bool b) \<longleftrightarrow> True"
| "readable (D_Num x) \<longleftrightarrow> number_back x"
| "readable (D_Char c) \<longleftrightarrow> 0 \<le> c \<and> c < 128"
| "readable (D_Str s) \<longleftrightarrow> 0 \<notin> set s \<and> length s < STRBUFF"
| "readable (D_Sym n) \<longleftrightarrow> symbol_back n"
| "readable (D_Pair a b) \<longleftrightarrow> readable a \<and> readable b"

text \<open>The characters of a number.\<close>

lemma num_text_back:
  assumes "number_back x"
  shows "num_text x \<noteq> []" "digit (hd (num_text x)) \<or> hd (num_text x) = 45"
    "\<forall>c \<in> set (num_text x). digit c \<or> c = 45 \<or> c = 47" "length (num_text x) < STRBUFF"
    "mk_atom K h (num_text x) = Some (alloc (Number x) h)"
proof -
  have hd_int: "digit (hd (dec_int i @ r)) \<or> hd (dec_int i @ r) = 45" for i r
    using dec_int_set [of "hd (dec_int i)" i] by simp
  have "num_text x \<noteq> [] \<and> (digit (hd (num_text x)) \<or> hd (num_text x) = 45) \<and>
    (\<forall>c \<in> set (num_text x). digit c \<or> c = 45 \<or> c = 47) \<and> length (num_text x) < STRBUFF \<and>
    mk_atom K h (num_text x) = Some (alloc (Number x) h)"
  proof (cases x)
    case (Integer i)
    then show ?thesis using assms hd_int [of i "[]"] dec_int_set [of _ i] length_dec_int [of i] mk_atom_integer [of i K h]
      by (auto simp: num_text_def number_back_def STRBUFF_def mk_integer_def)
  next
    case (Rational n d)
    then show ?thesis using assms hd_int [of n "47 # dec_int d"] dec_int_set [of _ n] dec_int_set [of _ d]
        length_dec_int [of n] length_dec_int [of d] mk_atom_rational [of n d x K h]
      by (auto simp: num_text_def number_back_def STRBUFF_def)
  qed (use assms in \<open>simp add: number_back_def\<close>)
  then show "num_text x \<noteq> []" "digit (hd (num_text x)) \<or> hd (num_text x) = 45"
    "\<forall>c \<in> set (num_text x). digit c \<or> c = 45 \<or> c = 47" "length (num_text x) < STRBUFF"
    "mk_atom K h (num_text x) = Some (alloc (Number x) h)" by blast+
qed

lemma sint_byte: "sint (c :: byte) = (if uint c < 128 then uint c else uint c - 256)"
proof -
  have "0 \<le> uint c" "uint c < 256" using uint_bounded [of c] by simp_all
  moreover have "sint c = (uint c + 128) mod 256 - 128"
    by (simp only: sint_uint signed_take_bit_eq_take_bit_shift take_bit_eq_mod) simp
  moreover have "(x + 128) mod 256 - 128 = (if x < 128 then x else x - 256)" if "0 \<le> x" "x < 256" for x :: int
    using that mod_add_self2 [of "x - 128" 256] by (cases "x < 128") (simp_all add: add.commute)
  ultimately show ?thesis by simp
qed

lemma blank_iff: "blank c \<longleftrightarrow> c \<le> 32 \<or> c = 127"
proof -
  have "0 \<le> uint c" "uint c < 256" "c = 127 \<longleftrightarrow> uint c = 127" using uint_bounded [of c] by (simp_all add: word_uint_eq_iff)
  then show ?thesis by (auto simp: blank_def isspace_def iscntrl_def sint_byte word_le_def)
qed

lemma atom_start_number: "digit c \<or> c = 45 \<Longrightarrow> atom_start c"
  by (auto simp: atom_start_def blank_iff digit_def word_le_def)

end
