(* ===== verification/Scheme_Reading.thy ===== *)
theory Scheme_Reading
  imports Scheme_Data
begin

text \<open>The reader, on the text of an object, makes the object.\<close>

section \<open>What it means to read an object\<close>

lemma step_O5 [op_simps]: "info_5 oc = None \<Longrightarrow> step K (regs h a e c w D (O5 oc)) = opexe_5 K oc (regs h a e c w D (O5 oc))"
  by (simp add: step_def)

abbreviation same_in :: "store \<Rightarrow> store \<Rightarrow> bool" where
  "same_in h' h \<equiv> h_inport h' = h_inport h \<and> h_loadport h' = h_loadport h \<and> h_save_inport h' = h_save_inport h"

text \<open>A token that begins an object and is no vector.\<close>

definition begins :: "token \<Rightarrow> bool" where
  "begins t \<longleftrightarrow> t \<notin> {TOK_EOF, TOK_RPAREN, TOK_COMMENT, TOK_DOT, TOK_VEC}"

text \<open>The symbols of the abbreviations.\<close>

definition quotes_ok :: "globals \<Rightarrow> store \<Rightarrow> bool" where
  "quotes_ok K h \<longleftrightarrow>
     (\<forall>n q. (n, q) \<in> {(ascii ''quote'', k_QUOTE K), (ascii ''quasiquote'', k_QQUOTE K), (ascii ''unquote'', k_UNQUOTE K),
        (ascii ''unquote-splicing'', k_UNQUOTESP K)} \<longrightarrow> oblist_find_by_name h (k_oblist K) n = Some q \<and> q \<noteq> NIL)"

text \<open>
  \<open>reads K d\<close>: in front of the text of \<open>d\<close> and of something that ends an atom, the reader takes a token that begins an
  object, and \<open>OP_RDSEXPR\<close> then returns \<open>d\<close>, made of new cells. The newline after a list is read as well.
\<close>

definition result_ok :: "globals \<Rightarrow> addr set \<Rightarrow> store \<Rightarrow> byte list \<Rightarrow> store \<Rightarrow> bool" where
  "result_ok K C h r h' \<longleftrightarrow>
     grows (k_oblist K) C h h' \<and> same_in h' h \<and> (\<exists>u r'. input_at h' u r' \<and> (r' = r \<or> r = 10 # r'))"

definition completes :: "globals \<Rightarrow> store \<Rightarrow> addr \<Rightarrow> store \<Rightarrow> bool" where
  "completes K h v h' \<longleftrightarrow> (\<forall>a e c w. returns K [] h a e c w (O5 OP_RDSEXPR) v h')"

definition reads :: "globals \<Rightarrow> datum \<Rightarrow> bool" where
  "reads K d \<longleftrightarrow>
     (\<forall>h u r. oblist_ok h (k_oblist K) \<longrightarrow> quotes_ok K h \<longrightarrow> input_at h u (text_of d @ r) \<longrightarrow> stops r \<longrightarrow>
        (\<exists>h1 t h' v. read_token h = Some (h1, t) \<and> begins t \<and> completes K (h1\<lparr>h_tok := t\<rparr>) v h' \<and>
           repr (k_oblist K) h' {h_next h..} v d \<and> result_ok K {} h r h'))"

lemma completes_once:
  assumes "\<And>a e c w D. \<exists>s2. op_rdsexpr K (regs h a e c w D (O5 OP_RDSEXPR)) = Some (s_return s2 v) \<and> r_dump s2 = D \<and> heap s2 = h'"
  shows "completes K h v h'"
  unfolding completes_def
  by (intro allI returns_at_once) (use assms in \<open>simp add: op_simps info_5_def opexe_5_def\<close>)

lemma input_at_tok [simp]: "input_at (h\<lparr>h_tok := t\<rparr>) u s = input_at h u s"
  by (simp add: input_at_def)

lemma grows_tok: "grows ob C h h' \<Longrightarrow> grows ob C h (h'\<lparr>h_tok := t\<rparr>)"
  by (rule grows_trans [OF _ grows_same [of _ _ _ "{}"]]) (simp_all add: grows_def)

lemma grows_advanced: "oblist_ok h ob \<Longrightarrow> grows ob C h ((advance h n)\<lparr>h_tok := t\<rparr>)"
  by (intro grows_tok grows_advance)

lemma grows_token: "oblist_ok h ob \<Longrightarrow> grows ob C h (advance ((advance h m)\<lparr>h_tok := t\<rparr>) n)"
  "oblist_ok h ob \<Longrightarrow> grows ob C h (advance (h\<lparr>h_tok := t\<rparr>) n)"
  by (rule grows_same; simp)+

section \<open>Atoms\<close>

text \<open>Atoms that go through \<open>mk_atom\<close>.\<close>

lemma token_of_atom:
  assumes "input_at h u (n @ r)" "n \<noteq> []" "atom_start (hd n) \<or> hd n = 46 \<and> 2 \<le> length n" "\<forall>c \<in> set n. \<not> delim c"
  shows "read_token h = Some (h, TOK_ATOM)"
proof (cases "atom_start (hd n)")
  case True
  then show ?thesis using token_atom [of h u "hd n" "tl n @ r"] assms(1,2) by (cases n) auto
next
  case False
  then obtain d t where n: "n = 46 # d # t" using assms(2,3) by (cases n rule: remdups_adj.cases) auto
  then have "d \<notin> {32, 10, 9}" using assms(4) by (auto simp: delim_def)
  then show ?thesis using token_dot [of h u d "t @ r"] assms(1) n by simp
qed

lemma rdsexpr_atom:
  assumes i: "input_at h u (n @ r)" and n: "n \<noteq> []" "atom_start (hd n) \<or> hd n = 46 \<and> 2 \<le> length n" "\<forall>c \<in> set n. \<not> delim c"
    "length n < STRBUFF" "n \<noteq> [92]" and "stops r"
    and atom: "mk_atom K (advance (h\<lparr>h_tok := TOK_ATOM\<rparr>) (length n)) n = Some (h', v)"
  shows "read_token h = Some (h, TOK_ATOM)" "completes K (h\<lparr>h_tok := TOK_ATOM\<rparr>) v h'"
proof -
  show "read_token h = Some (h, TOK_ATOM)" using i n(1-3) by (rule token_of_atom)
  have "readstr_upto (h\<lparr>h_tok := TOK_ATOM\<rparr>) delimiters = Some (advance (h\<lparr>h_tok := TOK_ATOM\<rparr>) (length n), n)"
    by (rule readstr_upto_at) (use assms in auto)
  then show "completes K (h\<lparr>h_tok := TOK_ATOM\<rparr>) v h'" using atom
    by (intro completes_once) (auto simp: op_rdsexpr_def return_new_def)
qed

lemma input_atom:
  assumes "input_at h u (n @ r)"
  shows "input_at (advance (h\<lparr>h_tok := t\<rparr>) (length n)) (u @ n) r"
  by (rule input_at_advance) (use assms in simp)

lemma grows_then: "grows ob C h h1 \<Longrightarrow> grows ob {} h1 h2 \<Longrightarrow> grows ob C h h2"
  by (erule (1) grows_trans) simp

lemma result_same:
  "grows (k_oblist K) C h h' \<Longrightarrow> input_at h' u r \<Longrightarrow> same_in h' h \<Longrightarrow> result_ok K C h r h'"
  by (auto simp: result_ok_def)

lemma result_alloc:
  assumes g: "grows (k_oblist K) {} h h0" and "input_at h0 u r" "same_in h0 h" "\<And>b n. c = String b n \<Longrightarrow> b < h_nbuf h0"
  shows "result_ok K {} h r (fst (alloc c h0))"
proof -
  have g1: "grows (k_oblist K) {} h0 (fst (alloc c h0))" using assms(4) by (intro grows_alloc [OF growsD(2) [OF g]])
  have "input_at (fst (alloc c h0)) u r" by (rule input_at_grows [OF g1 _ assms(2)]) simp_all
  then show ?thesis using grows_trans [OF g g1] assms(3) by (intro result_same) simp_all
qed

lemma setimmutable_input [simp]: "input_at (setimmutable h x) u s = input_at h u s" "same_in (setimmutable h x) h"
  by (simp_all add: input_at_def setimmutable_def)

lemma result_setimmutable: "result_ok K C h r h' \<Longrightarrow> result_ok K C h r (setimmutable h' x)"
proof -
  assume r: "result_ok K C h r h'"
  then have g: "grows (k_oblist K) C h h'" by (simp add: result_ok_def)
  have "grows (k_oblist K) {} h' (setimmutable h' x)" by (rule grows_same [OF growsD(2) [OF g]]) (simp_all add: setimmutable_def)
  from grows_then [OF g this] have "grows (k_oblist K) C h (setimmutable h' x)" .
  then show ?thesis using r by (simp add: result_ok_def)
qed

lemma reads_number:
  assumes "number_back x"
  shows "reads K (D_Num x)"
  unfolding reads_def
proof (intro allI impI)
  fix h u r
  let ?n = "num_text x" and ?h = "advance (h\<lparr>h_tok := TOK_ATOM\<rparr>) (length (num_text x))"
  assume ok: "oblist_ok h (k_oblist K)" and i: "input_at h u (text_of (D_Num x) @ r)" and r: "stops r"
  have i: "input_at h u (?n @ r)" using i by simp
  note b = num_text_back [OF assms]
  have d: "\<forall>c \<in> set ?n. \<not> delim c" using b(3) digit_codes by (fastforce simp: delim_def)
  have "atom_start (hd ?n)" "?n \<noteq> [92]" using b(2,3) atom_start_number digit_codes by fastforce+
  then have rd: "read_token h = Some (h, TOK_ATOM)" "completes K (h\<lparr>h_tok := TOK_ATOM\<rparr>) (h_next h) (fst (alloc (Number x) ?h))"
    using rdsexpr_atom [OF i b(1) _ d b(4) _ r, of K "fst (alloc (Number x) ?h)" "h_next h"] b(5) [of K ?h]
    by (simp_all add: prod_eq_iff)
  have "result_ok K {} h r (fst (alloc (Number x) ?h))"
    by (rule result_alloc [OF grows_token(2) [OF ok] input_atom [OF i]]) simp_all
  then show "\<exists>h1 t h' v. read_token h = Some (h1, t) \<and> begins t \<and> completes K (h1\<lparr>h_tok := t\<rparr>) v h' \<and>
      repr (k_oblist K) h' {h_next h..} v (D_Num x) \<and> result_ok K {} h r h'"
    using rd by (intro exI [of _ h] exI [of _ TOK_ATOM] exI conjI) (auto simp: begins_def)
qed

lemma reads_symbol:
  assumes "symbol_back n"
  shows "reads K (D_Sym n)"
  unfolding reads_def
proof (intro allI impI)
  fix h u r
  let ?h = "advance (h\<lparr>h_tok := TOK_ATOM\<rparr>) (length n)"
  assume ok: "oblist_ok h (k_oblist K)" and i: "input_at h u (text_of (D_Sym n) @ r)" and r: "stops r"
  have i: "input_at h u (n @ r)" using i by simp
  have n: "n \<noteq> []" "atom_start (hd n) \<or> hd n = 46 \<and> 2 \<le> length n" "\<forall>c \<in> set n. \<not> delim c" "length n < STRBUFF" "n \<noteq> [92]"
    "0 \<notin> set n" "atom_kind n = Symbol_Atom" "find_colons n = None"
    using assms by (auto simp: symbol_back_def list_all_iff)
  have g: "grows (k_oblist K) {} h ?h" by (rule grows_token [OF ok])
  obtain h' s where s: "mk_symbol ?h (k_oblist K) n = Some (h', s)" "oblist_find_by_name h' (k_oblist K) n = Some s"
    "s \<noteq> NIL" "grows (k_oblist K) {} ?h h'" "h_port h' = h_port ?h" "same_in h' ?h"
    using mk_symbol_grows [OF growsD(2) [OF g] n(6), where C = "{}"] by blast
  have "mk_atom K ?h n = Some (h', s)" using s(1) n(7,8) by (simp add: mk_atom.simps mk_simple_atom_def)
  then have rd: "read_token h = Some (h, TOK_ATOM)" "completes K (h\<lparr>h_tok := TOK_ATOM\<rparr>) s h'"
    using rdsexpr_atom [OF i n(1-5) r] by blast+
  have "input_at h' (u @ n) r" by (rule input_at_grows [OF s(4) _ input_atom [OF i] s(5)]) (use s(6) in simp_all)
  then have "result_ok K {} h r h'" using grows_trans [OF g s(4)] s(6) by (auto simp: result_ok_def)
  then show "\<exists>h1 t h' v. read_token h = Some (h1, t) \<and> begins t \<and> completes K (h1\<lparr>h_tok := t\<rparr>) v h' \<and>
      repr (k_oblist K) h' {h_next h..} v (D_Sym n) \<and> result_ok K {} h r h'"
    using rd s(2,3) by (intro exI [of _ h] exI [of _ TOK_ATOM] exI conjI) (auto simp: begins_def)
qed


section \<open>Constants with a sharp sign\<close>

lemma rdsexpr_sharp:
  assumes i: "input_at h u (35 # n @ r)" and n: "n \<noteq> []" "hd n \<in> {116, 102, 111, 100, 120, 98, 92}"
    and read: "readstr_upto ((advance h 1)\<lparr>h_tok := TOK_SHARP_CONST\<rparr>) delimiters =
      Some (advance ((advance h 1)\<lparr>h_tok := TOK_SHARP_CONST\<rparr>) (length n), n)"
    and c: "mk_sharp_const (advance ((advance h 1)\<lparr>h_tok := TOK_SHARP_CONST\<rparr>) (length n)) n = Some (h', v)" "v \<noteq> NIL"
  shows "read_token h = Some (advance h 1, TOK_SHARP_CONST)" "completes K ((advance h 1)\<lparr>h_tok := TOK_SHARP_CONST\<rparr>) v h'"
proof -
  show "read_token h = Some (advance h 1, TOK_SHARP_CONST)"
    using token_sharp [of h u "hd n" "tl n @ r"] i n by (cases n) auto
  show "completes K ((advance h 1)\<lparr>h_tok := TOK_SHARP_CONST\<rparr>) v h'" using read c
    by (intro completes_once) (auto simp: op_rdsexpr_def return_new_def)
qed

lemma input_sharp:
  assumes "input_at h u (35 # n @ r)"
  shows "input_at ((advance h 1)\<lparr>h_tok := t\<rparr>) (u @ [35]) (n @ r)"
    "input_at (advance ((advance h 1)\<lparr>h_tok := t\<rparr>) (length n)) ((u @ [35]) @ n) r"
proof -
  show i: "input_at ((advance h 1)\<lparr>h_tok := t\<rparr>) (u @ [35]) (n @ r)" using advance_next [OF assms] by simp
  show "input_at (advance ((advance h 1)\<lparr>h_tok := t\<rparr>) (length n)) ((u @ [35]) @ n) r" by (rule input_at_advance [OF i])
qed

lemma reads_bool: "reads K (D_Bool b)"
  unfolding reads_def
proof (intro allI impI)
  fix h u r
  let ?n = "[if b then 116 else 102] :: byte list" and ?h = "advance ((advance h 1)\<lparr>h_tok := TOK_SHARP_CONST\<rparr>) 1"
  assume ok: "oblist_ok h (k_oblist K)" and i: "input_at h u (text_of (D_Bool b) @ r)" and r: "stops r"
  have i: "input_at h u (35 # ?n @ r)" using i by simp
  note i1 = input_sharp [OF i, of TOK_SHARP_CONST]
  have rd: "readstr_upto ((advance h 1)\<lparr>h_tok := TOK_SHARP_CONST\<rparr>) delimiters = Some (?h, ?n)"
    using readstr_upto_at [OF i1(1) _ r] by (auto simp: delim_def STRBUFF_def)
  have rd: "readstr_upto ((advance h 1)\<lparr>h_tok := TOK_SHARP_CONST\<rparr>) delimiters =
      Some (advance ((advance h 1)\<lparr>h_tok := TOK_SHARP_CONST\<rparr>) (length ?n), ?n)" using rd by simp
  have c: "mk_sharp_const (advance ((advance h 1)\<lparr>h_tok := TOK_SHARP_CONST\<rparr>) (length ?n)) ?n =
      Some (?h, if b then T_OBJ else F_OBJ)" by (simp add: mk_sharp_const_def ascii_def chr_def)
  have rd: "read_token h = Some (advance h 1, TOK_SHARP_CONST)"
    "completes K ((advance h 1)\<lparr>h_tok := TOK_SHARP_CONST\<rparr>) (if b then T_OBJ else F_OBJ) ?h"
    using rdsexpr_sharp [OF i _ _ rd c] by (simp_all add: NIL_def T_OBJ_def F_OBJ_def)
  have "result_ok K {} h r ?h" using i1(2) by (intro result_same [OF grows_token(1) [OF ok]]) simp_all
  then show "\<exists>h1 t h' v. read_token h = Some (h1, t) \<and> begins t \<and> completes K (h1\<lparr>h_tok := t\<rparr>) v h' \<and>
      repr (k_oblist K) h' {h_next h..} v (D_Bool b) \<and> result_ok K {} h r h'"
    using rd by (intro exI [of _ "advance h 1"] exI [of _ TOK_SHARP_CONST] exI conjI) (auto simp: begins_def)
qed

lemma reads_char:
  assumes c: "0 \<le> c" "c < 128"
  shows "reads K (D_Char c)"
  unfolding reads_def
proof (intro allI impI)
  fix h u r
  obtain s where s: "char_text c = Some (35 # 92 # s)" "s \<noteq> []" "length s \<le> 7" "(\<forall>x \<in> set s. \<not> delim x) \<or> length s = 1"
    using chars_back [OF c] by (auto simp: char_back_def list_all_iff split: option.splits list.splits)
  let ?n = "92 # s" and ?h = "advance ((advance h 1)\<lparr>h_tok := TOK_SHARP_CONST\<rparr>) (length (92 # s))"
  assume ok: "oblist_ok h (k_oblist K)" and i: "input_at h u (text_of (D_Char c) @ r)" and r: "stops r"
  have i: "input_at h u (35 # ?n @ r)" using i by (simp add: s(1))
  note i1 = input_sharp [OF i, of TOK_SHARP_CONST]
  have rd: "readstr_upto ((advance h 1)\<lparr>h_tok := TOK_SHARP_CONST\<rparr>) delimiters = Some (?h, ?n)"
  proof (cases "\<forall>x \<in> set s. \<not> delim x")
    case True
    then show ?thesis using s(2,3) by (intro readstr_upto_at [OF i1(1) _ r]) (auto simp: delim_def STRBUFF_def)
  next
    case False
    then obtain x where x: "s = [x]" "delim x" using s(4) by (auto simp: length_Suc_conv)
    then show ?thesis using readstr_upto_slash [of _ "u @ [35]" x r] i1(1) by (simp add: numeral_2_eq_2)
  qed
  have "mk_sharp_const ?h ?n = Some (fst (alloc (Character c) ?h), h_next h)"
    using mk_sharp_const_char [OF c s(1), of ?h] by (simp add: mk_character_def prod_eq_iff)
  moreover have "h_next h \<noteq> NIL" using ok by (auto simp: oblist_ok_def dest: store_okD(3))
  ultimately have rd: "read_token h = Some (advance h 1, TOK_SHARP_CONST)"
    "completes K ((advance h 1)\<lparr>h_tok := TOK_SHARP_CONST\<rparr>) (h_next h) (fst (alloc (Character c) ?h))"
    using rdsexpr_sharp [OF i _ _ rd] by simp_all
  have "result_ok K {} h r (fst (alloc (Character c) ?h))"
    by (rule result_alloc [OF grows_token(1) [OF ok] i1(2)]) simp_all
  then show "\<exists>h1 t h' v. read_token h = Some (h1, t) \<and> begins t \<and> completes K (h1\<lparr>h_tok := t\<rparr>) v h' \<and>
      repr (k_oblist K) h' {h_next h..} v (D_Char c) \<and> result_ok K {} h r h'"
    using rd by (intro exI [of _ "advance h 1"] exI [of _ TOK_SHARP_CONST] exI conjI) (auto simp: begins_def)
qed

section \<open>Strings and the empty list\<close>

lemma input_quoted:
  assumes "input_at h u (c # s)"
  shows "input_at ((advance h 1)\<lparr>h_tok := t\<rparr>) (u @ [c]) s"
  using advance_next [OF assms] by simp

lemma reads_string:
  assumes s: "0 \<notin> set s" "length s < STRBUFF"
  shows "reads K (D_Str s)"
  unfolding reads_def
proof (intro allI impI)
  fix h u r
  let ?t = "concat (map slash_char s)"
  let ?h = "advance ((advance h 1)\<lparr>h_tok := TOK_DQUOTE\<rparr>) (Suc (length ?t))"
  let ?g = "fst (store_string ?h s)" and ?c = "String (h_nbuf h) (length s)"
  let ?r = "setimmutable (fst (alloc ?c ?g)) (h_next h)"
  assume ok: "oblist_ok h (k_oblist K)" and i: "input_at h u (text_of (D_Str s) @ r)" and r: "stops r"
  have i: "input_at h u (34 # ?t @ 34 # r)" using i by (simp add: slash_text_def)
  note i1 = input_quoted [OF i, of TOK_DQUOTE]
  have "input_at ((advance h 1)\<lparr>h_tok := TOK_DQUOTE\<rparr>) (u @ [34]) ((?t @ [34]) @ r)" using i1 by simp
  from input_at_advance [OF this] have i2: "input_at ?h ((u @ [34]) @ ?t @ [34]) r" by simp
  have nx: "F_OBJ < h_next h" using ok by (auto simp: oblist_ok_def store_ok_def F_OBJ_def EOF_OBJ_def)
  have g: "grows (k_oblist K) {} h ?h" by (rule grows_token [OF ok])
  have g1: "grows (k_oblist K) {} h ?g" by (rule grows_then [OF g grows_store_string [OF growsD(2) [OF g]]])
  have "input_at ?g ((u @ [34]) @ ?t @ [34]) r"
    by (rule input_at_grows [OF grows_store_string [OF growsD(2) [OF g], of "{}"] _ i2]) (simp_all add: store_string_def)
  from result_alloc [OF g1 this, of ?c] have "result_ok K {} h r (fst (alloc ?c ?g))"
    by (simp add: store_string_def)
  then have res: "result_ok K {} h r ?r" by (rule result_setimmutable)
  have "read_token h = Some (advance h 1, TOK_DQUOTE)" by (rule token_paren(4) [OF i])
  moreover have "readstrexp ((advance h 1)\<lparr>h_tok := TOK_DQUOTE\<rparr>) = Some (mk_counted_string ?h s)"
    by (rule readstrexp_at [OF i1 s(2,1)])
  then have "readstrexp ((advance h 1)\<lparr>h_tok := TOK_DQUOTE\<rparr>) = Some (fst (alloc ?c ?g), h_next h)"
    by (simp add: mk_counted_string_def store_string_def prod_eq_iff)
  then have "completes K ((advance h 1)\<lparr>h_tok := TOK_DQUOTE\<rparr>) (h_next h) ?r" using nx
    by (intro completes_once) (auto simp: op_rdsexpr_def return_new_def)
  moreover have "repr (k_oblist K) ?r {h_next h..} (h_next h) (D_Str s)" by (simp add: setimmutable_def store_string_def)
  ultimately show "\<exists>h1 t h' v. read_token h = Some (h1, t) \<and> begins t \<and> completes K (h1\<lparr>h_tok := t\<rparr>) v h' \<and>
      repr (k_oblist K) h' {h_next h..} v (D_Str s) \<and> result_ok K {} h r h'"
    using res by (intro exI [of _ "advance h 1"] exI [of _ TOK_DQUOTE] exI conjI) (auto simp: begins_def)
qed

lemma reads_nil: "reads K D_Nil"
  unfolding reads_def
proof (intro allI impI)
  fix h u r
  let ?h = "(advance h 1)\<lparr>h_tok := TOK_LPAREN\<rparr>" and ?r = "(advance ((advance h 1)\<lparr>h_tok := TOK_LPAREN\<rparr>) 1)\<lparr>h_tok := TOK_RPAREN\<rparr>"
  assume ok: "oblist_ok h (k_oblist K)" and i: "input_at h u (text_of D_Nil @ r)" and r: "stops r"
  have i: "input_at h u (40 # 41 # r)" using i by simp
  note i1 = input_quoted [OF i, of TOK_LPAREN]
  have "completes K ?h NIL ?r" using token_paren(2) [OF i1]
    by (intro completes_once) (auto simp: op_rdsexpr_def open_list_def)
  moreover have "result_ok K {} h r ?r" using input_quoted [OF i1, of TOK_RPAREN]
    by (intro result_same grows_tok grows_token [OF ok]) simp_all
  ultimately show "\<exists>h1 t h' v. read_token h = Some (h1, t) \<and> begins t \<and> completes K (h1\<lparr>h_tok := t\<rparr>) v h' \<and>
      repr (k_oblist K) h' {h_next h..} v D_Nil \<and> result_ok K {} h r h'"
    using token_paren(1) [OF i] by (intro exI [of _ "advance h 1"] exI [of _ TOK_LPAREN] exI conjI) (auto simp: begins_def)
qed

section \<open>Abbreviations\<close>

lemma prefix_hd: "prefix_of n = Some s \<Longrightarrow> s \<noteq> [] \<and> hd s \<noteq> 64"
  by (auto simp: prefix_of_def split: if_splits)

lemma text_hd:
  assumes "readable d"
  shows "text_of d \<noteq> [] \<and> hd (text_of d) \<noteq> 64"
proof (cases d)
  case (D_Num x)
  then show ?thesis using assms num_text_back(1,2) [of x] digit_codes [of "hd (num_text x)"] by auto
next
  case (D_Char c)
  then show ?thesis using assms chars_back [of c] by (auto simp: char_back_def split: option.splits list.splits)
next
  case (D_Pair a b)
  show ?thesis
  proof (cases "quoted a b")
    case (Some y)
    then obtain s x n where "quoted a b = Some (s, x)" "prefix_of n = Some s" by (cases y) (auto simp: quoted_Some)
    then show ?thesis using D_Pair prefix_hd [of n s] by simp
  qed (simp add: D_Pair)
next
  case (D_Sym n)
  then show ?thesis using assms by (simp add: symbol_back_def)
qed (simp_all add: slash_text_def)

lemma quotes_grows: "quotes_ok K h \<Longrightarrow> grows (k_oblist K) C h h' \<Longrightarrow> quotes_ok K h'"
  unfolding quotes_ok_def by (intro allI impI) (auto dest: growsD(7))

text \<open>What the reader does at the prefix of an abbreviation.\<close>

lemma prefix_token:
  assumes "prefix_of n = Some s" "input_at h u (s @ x @ r)" "x \<noteq> []" "hd x \<noteq> 64" "quotes_ok K h"
  obtains tk oc q where "read_token h = Some (advance h (length s), tk)" "begins tk" "info_5 oc = None"
    "\<And>sc h1 t. h_tok (heap sc) = tk \<Longrightarrow> read_token (heap sc) = Some (h1, t) \<Longrightarrow> begins t \<Longrightarrow>
      op_rdsexpr K sc = Some (s_goto ((s_save (O5 oc) NIL NIL sc)\<lparr>heap := h1\<lparr>h_tok := t\<rparr>\<rparr>) (O5 OP_RDSEXPR))"
    "\<And>sc. opexe_5 K oc sc = op_rdquoted q sc" "oblist_find_by_name h (k_oblist K) n = Some q" "q \<noteq> NIL"
proof -
  have q: "oblist_find_by_name h (k_oblist K) n = Some q \<and> q \<noteq> NIL"
    if "(n, q) \<in> {(ascii ''quote'', k_QUOTE K), (ascii ''quasiquote'', k_QQUOTE K), (ascii ''unquote'', k_UNQUOTE K),
        (ascii ''unquote-splicing'', k_UNQUOTESP K)}" for q
    using that assms(5) unfolding quotes_ok_def by blast
  obtain c x' where x: "x = c # x'" "c \<noteq> 64" using assms(3,4) by (cases x) auto
  consider "s = [39]" "n = ascii ''quote''" | "s = [96]" "n = ascii ''quasiquote''" | "s = [44]" "n = ascii ''unquote''"
    | "s = [44, 64]" "n = ascii ''unquote-splicing''"
    using assms(1) by (auto simp: prefix_of_def split: if_splits)
  then show ?thesis
  proof cases
    case 1
    show ?thesis by (rule that [of TOK_QUOTE OP_RDQUOTE "k_QUOTE K"])
      (use 1 token_paren(3) assms(2) q in \<open>auto simp: begins_def info_5_def opexe_5_def op_rdsexpr_def next_sexpr_def s_save_def\<close>)
  next
    case 2
    show ?thesis by (rule that [of TOK_BQUOTE OP_RDQQUOTE "k_QQUOTE K"])
      (use 2 token_paren(5) assms(2) q in \<open>auto simp: begins_def info_5_def opexe_5_def op_rdsexpr_def next_sexpr_def s_save_def\<close>)
  next
    case 3
    show ?thesis by (rule that [of TOK_COMMA OP_RDUNQUOTE "k_UNQUOTE K"])
      (use 3 token_comma assms(2) x q in \<open>auto simp: begins_def info_5_def opexe_5_def op_rdsexpr_def next_sexpr_def s_save_def\<close>)
  next
    case 4
    show ?thesis by (rule that [of TOK_ATMARK OP_RDUQTSP "k_UNQUOTESP K"])
      (use 4 token_comma assms(2) x q in \<open>auto simp: begins_def info_5_def opexe_5_def op_rdsexpr_def next_sexpr_def s_save_def numeral_2_eq_2\<close>)
  qed
qed

text \<open>Two more cells around what was read.\<close>

lemma wrap_quoted:
  fixes q v :: addr
  assumes "oblist_ok h ob" "input_at h u s"
  defines "g \<equiv> fst (cons (fst (cons h v NIL)) q (h_next h))"
  shows "op_rdquoted q (regs h a e c v D oc) = Some (s_return (regs g a e c v D oc) (Suc (h_next h)))"
    "h_cell g = (h_cell h)(h_next h := Pair v NIL, Suc (h_next h) := Pair q (h_next h))" "grows ob {} h g" "input_at g u s"
    "same_in g h"
proof -
  let ?g1 = "fst (alloc (Pair v NIL) h)"
  have g1: "grows ob {} h ?g1" by (rule grows_alloc [OF assms(1)]) simp
  have g2: "grows ob {} ?g1 g" unfolding g_def cons_def by (rule grows_alloc [OF growsD(2) [OF g1]]) simp
  show "grows ob {} h g" by (rule grows_then [OF g1 g2])
  then show "input_at g u s" by (rule input_at_grows) (use assms(2) in \<open>simp_all add: g_def cons_def\<close>)
qed (simp_all add: g_def op_rdquoted_def return_new_def cons_def Let_def split_beta)

lemma reads_quoted:
  assumes x: "reads K x" "readable x" and p: "prefix_of n = Some s"
  shows "reads K (D_Pair (D_Sym n) (D_Pair x D_Nil))"
  unfolding reads_def
proof (intro allI impI)
  fix h u r
  assume ok: "oblist_ok h (k_oblist K)" and qs: "quotes_ok K h" and r: "stops r"
    and i: "input_at h u (text_of (D_Pair (D_Sym n) (D_Pair x D_Nil)) @ r)"
  have i: "input_at h u (s @ text_of x @ r)" using i p by simp
  obtain tk oc q where tk: "read_token h = Some (advance h (length s), tk)" "begins tk" "info_5 oc = None"
    "\<And>sc h1 t. h_tok (heap sc) = tk \<Longrightarrow> read_token (heap sc) = Some (h1, t) \<Longrightarrow> begins t \<Longrightarrow>
      op_rdsexpr K sc = Some (s_goto ((s_save (O5 oc) NIL NIL sc)\<lparr>heap := h1\<lparr>h_tok := t\<rparr>\<rparr>) (O5 OP_RDSEXPR))"
    "\<And>sc. opexe_5 K oc sc = op_rdquoted q sc" "oblist_find_by_name h (k_oblist K) n = Some q" "q \<noteq> NIL"
    using prefix_token [OF p i _ _ qs] text_hd [OF x(2)] by blast
  let ?h = "(advance h (length s))\<lparr>h_tok := tk\<rparr>"
  have g: "grows (k_oblist K) {} h ?h" by (rule grows_advanced [OF ok])
  have i1: "input_at ?h (u @ s) (text_of x @ r)" using input_at_advance [OF i] by simp
  obtain h1 t h2 v where v: "read_token ?h = Some (h1, t)" "begins t" "completes K (h1\<lparr>h_tok := t\<rparr>) v h2"
    "repr (k_oblist K) h2 {h_next h..} v x" "result_ok K {} ?h r h2"
    using x(1) growsD(2) [OF g] quotes_grows [OF qs g] i1 r unfolding reads_def by fastforce
  then obtain u' r' where g2: "grows (k_oblist K) {} ?h h2" "input_at h2 u' r'" "r' = r \<or> r = 10 # r'" "same_in h2 h"
    by (auto simp: result_ok_def)
  let ?g = "fst (cons (fst (cons h2 v NIL)) q (h_next h2))" and ?p = "Suc (h_next h2)"
  note w = wrap_quoted [OF growsD(2) [OF g2(1)] g2(2), where q = q and v = v]
  have gg: "grows (k_oblist K) {} h ?g" using grows_then [OF grows_then [OF g g2(1)] w(3)] .
  have "completes K ?h ?p ?g" unfolding completes_def
  proof (intro allI)
    fix a e c w
    show "returns K [] ?h a e c w (O5 OP_RDSEXPR) ?p ?g"
    proof (rule returns_push [where f = "frame_of (O5 oc) NIL e NIL"])
      show "returns K [] (h1\<lparr>h_tok := t\<rparr>) a e c w (O5 OP_RDSEXPR) v h2" using v(3) by (simp add: completes_def)
      show "step K (regs ?h a e c w D (O5 OP_RDSEXPR)) =
          Some (Next (regs (h1\<lparr>h_tok := t\<rparr>) a e c w (frame_of (O5 oc) NIL e NIL # D) (O5 OP_RDSEXPR)))" for D
        using tk(4) [of "regs ?h a e c w D (O5 OP_RDSEXPR)"] v(1,2) by (simp add: op_simps info_5_def opexe_5_def)
      show "returns K [] h2 (f_args (frame_of (O5 oc) NIL e NIL)) (f_envir (frame_of (O5 oc) NIL e NIL))
          (f_code (frame_of (O5 oc) NIL e NIL)) v (f_op (frame_of (O5 oc) NIL e NIL)) ?p ?g"
        by (rule returns_at_once) (use w(1) tk(3,5) in \<open>auto simp: step_O5\<close>)
    qed
  qed
  moreover have "repr (k_oblist K) ?g {h_next h..} ?p (D_Pair (D_Sym n) (D_Pair x D_Nil))"
  proof -
    have "h_next h \<le> h_next h2" using growsD(3) [OF g2(1)] by simp
    moreover have "repr (k_oblist K) ?g {h_next h..} v x" by (rule repr_grows [OF v(4) w(3)]) simp
    ultimately show ?thesis using w(2) tk(7) growsD(7) [OF gg tk(6)] by auto
  qed
  moreover have "result_ok K {} h r ?g" using gg w(4,5) g2(3,4) by (auto simp: result_ok_def)
  ultimately show "\<exists>h1 t h' v. read_token h = Some (h1, t) \<and> begins t \<and> completes K (h1\<lparr>h_tok := t\<rparr>) v h' \<and>
      repr (k_oblist K) h' {h_next h..} v (D_Pair (D_Sym n) (D_Pair x D_Nil)) \<and> result_ok K {} h r h'"
    using tk(1,2) by blast
qed

section \<open>Lists\<close>

text \<open>
  \<open>reads_tail K d\<close>: with the elements read so far in the list \<open>acc\<close>, newest first, and one more just read, \<open>OP_RDLIST\<close>
  reads the rest \<open>d\<close> of the list and returns the elements in order, followed by \<open>d\<close>.
\<close>

definition reads_tail :: "globals \<Rightarrow> datum \<Rightarrow> bool" where
  "reads_tail K d \<longleftrightarrow>
     (\<forall>h u r a v acc. oblist_ok h (k_oblist K) \<longrightarrow> quotes_ok K h \<longrightarrow> input_at h u (tail_of d @ r) \<longrightarrow> stops r \<longrightarrow>
        slist h a acc \<longrightarrow> fst ` set acc \<inter> table_cells h (k_oblist K) = {} \<longrightarrow>
        (\<exists>h' p y. (\<forall>e c. returns K [] h a e c v (O5 OP_RDLIST) p h') \<and> segment h' p (rev ((h_next h, v) # acc)) y \<and>
           repr (k_oblist K) h' {Suc (h_next h)..} y d \<and> result_ok K (fst ` set acc) h r h'))"

lemma table_cells_less:
  assumes "oblist_ok h ob" "q \<in> table_cells h ob"
  shows "q < h_next h"
proof -
  obtain y xs where "slist h y xs" "q \<in> fst ` set xs" using assms(2) by (auto simp: table_cells_def)
  then have "is_pair h q" using segment_pair by fastforce
  then show ?thesis using assms(1) store_okD(4) by (auto simp: oblist_ok_def)
qed

text \<open>The element just read goes in front.\<close>

lemma push_element:
  assumes ok: "oblist_ok h ob" and acc: "slist h a acc" "fst ` set acc \<inter> table_cells h ob = {}"
  shows "grows ob C h (fst (cons h v a))" "slist (fst (cons h v a)) (h_next h) ((h_next h, v) # acc)"
    "fst ` set ((h_next h, v) # acc) \<inter> table_cells (fst (cons h v a)) ob = {}"
proof -
  have sok: "store_ok h" using ok by (simp add: oblist_ok_def)
  have g: "grows ob C h (fst (cons h v a))" for C unfolding cons_def by (rule grows_alloc [OF ok]) simp
  show "grows ob C h (fst (cons h v a))" by (rule g)
  show "slist (fst (cons h v a)) (h_next h) ((h_next h, v) # acc)"
    using segment_keeps [OF acc(1) sok keeps_cons, of v a] by (auto simp: cons_def)
  have "outside ob {} h (fst (cons h v a))"
    using sok ok by (auto simp: outside_def cons_def store_ok_def buffers_ok_def oblist_ok_def NIL_def T_OBJ_def F_OBJ_def EOF_OBJ_def
      less_Suc_eq)
  then have "table_cells (fst (cons h v a)) ob = table_cells h ob" by (rule outside_table [OF _ ok])
  then show "fst ` set ((h_next h, v) # acc) \<inter> table_cells (fst (cons h v a)) ob = {}"
    using acc(2) table_cells_less [OF ok, of "h_next h"] by auto
qed

text \<open>The elements are kept while more is read.\<close>

lemma acc_grows:
  assumes g: "grows ob {} h h'" and acc: "slist h a acc" "fst ` set acc \<inter> table_cells h ob = {}"
  shows "slist h' a acc" "fst ` set acc \<inter> table_cells h' ob = {}"
proof -
  have ok: "store_ok h" "oblist_ok h ob" using growsD(1) [OF g] by (simp_all add: oblist_ok_def)
  have lt: "c < h_next h" "c \<noteq> ob" if "c \<in> fst ` set acc" for c
    using that segment_pair [OF acc(1)] store_okD(4) [OF ok(1)] ok(2) by (force simp: oblist_ok_def is_pair_def)+
  show "slist h' a acc" by (rule segment_cong [OF acc(1)]) (use growsD(5) [OF g] lt in force)
  show "fst ` set acc \<inter> table_cells h' ob = {}" using growsD(8) [OF g] lt(1) acc(2) by blast
qed

lemma acc_same:
  assumes "h_cell h' = h_cell h"
  shows "slist h' a acc = slist h a acc" "table_cells h' ob = table_cells h ob"
proof -
  have s: "segment h' p xs e \<longleftrightarrow> segment h p xs e" for p xs e
    using segment_cong [of h p xs e h'] segment_cong [of h' p xs e h] assms by auto
  show "slist h' a acc = slist h a acc" by (rule s)
  show "table_cells h' ob = table_cells h ob" by (simp add: table_cells_def s assms)
qed

text \<open>The elements in order at the end of the list.\<close>

lemma reverse_elements:
  assumes ok: "oblist_ok h ob" and i: "input_at h u r" and acc: "slist h a acc" "fst ` set acc \<inter> table_cells h ob = {}"
  obtains h' p where "reverse_in_place h e a = Some (h', p)" "segment h' p (rev acc) e" "grows ob (fst ` set acc) h h'"
    "input_at h' u r" "same_in h' h"
proof (rule grows_reverse [OF ok acc, of e], goal_cases)
  case (1 f p)
  have "\<forall>p \<in> fst ` set acc. is_pair h p" using segment_pair [OF acc(1)] by force
  then have "input_at (h\<lparr>h_cell := f\<rparr>) u r" by (intro input_at_grows [OF 1(4) _ i]) simp_all
  then show ?case using 1 by simp
qed

text \<open>The closing parenthesis, with the newline that may follow.\<close>

lemma after_list:
  assumes "input_at h u r"
  obtains h1 c h2 u' r' m where "inchar h = Some (h1, c)" "(if c \<noteq> 10 then backchar h1 c else Some h1) = Some h2"
    "h2 = advance h m" "input_at h2 u' r'" "r' = r \<or> r = 10 # r'"
proof (cases r)
  case Nil
  then show ?thesis using that [of h EOF h 0 u r] inchar_end [of h u] assms by (auto simp: EOF_def)
next
  case (Cons c s)
  then have i: "input_at h u (c # s)" using assms by simp
  show ?thesis
  proof (cases "c = 10")
    case True
    then show ?thesis using that [of "advance h 1" 10 "advance h 1" 1 "u @ [c]" s] inchar_at [OF i] advance_next [OF i] Cons by simp
  next
    case False
    then have "sint c \<noteq> 10" using sint_eq_iff [of c 10] by simp
    then show ?thesis using that [of "advance h 1" "sint c" h 0 u r] inchar_at [OF i] assms by simp
  qed
qed

lemma result_pushed:
  assumes "grows (k_oblist K) C h h1" "grows (k_oblist K) D h1 h2" "\<And>p. p \<in> D \<Longrightarrow> p < h_next h \<Longrightarrow> p \<in> C"
    "same_in h2 h" "input_at h2 u r'" "r' = r \<or> r = 10 # r'"
  shows "result_ok K C h r h2"
  using grows_trans [OF assms(1,2)] assms(3-) by (auto simp: result_ok_def)

lemma reads_tail_nil: "reads_tail K D_Nil"
  unfolding reads_tail_def
proof (intro allI impI)
  fix h u r a v acc
  let ?ob = "k_oblist K" and ?k = "fst (cons h v a)"
  let ?acc = "(h_next h, v) # acc" and ?h = "(advance (fst (cons h v a)) 1)\<lparr>h_tok := TOK_RPAREN\<rparr>"
  assume ok: "oblist_ok h ?ob" and i: "input_at h u (tail_of D_Nil @ r)" and acc: "slist h a acc" "fst ` set acc \<inter> table_cells h ?ob = {}"
  note k = push_element [OF ok acc, where v = v]
  have ik: "input_at ?k u (41 # r)" by (rule input_at_grows [OF k(1) [where C = "{}"]]) (use i in \<open>simp_all add: cons_def\<close>)
  obtain h1 c h2 u' r' m where c: "inchar ?h = Some (h1, c)" "(if c \<noteq> 10 then backchar h1 c else Some h1) = Some h2"
    "h2 = advance ?h m" "input_at h2 u' r'" "r' = r \<or> r = 10 # r'"
    by (rule after_list [OF input_quoted [OF ik, of TOK_RPAREN]])
  have g: "grows ?ob {} h h2"
    unfolding c(3) by (rule grows_then [OF k(1) grows_token(1) [OF growsD(2) [OF k(1)]]])
  have acc2: "slist h2 (h_next h) ?acc" "fst ` set ?acc \<inter> table_cells h2 ?ob = {}"
    using k(2,3) acc_same [of h2 ?k] c(3) by simp_all
  obtain h' p where p: "reverse_in_place h2 NIL (h_next h) = Some (h', p)" "segment h' p (rev ?acc) NIL"
    "grows ?ob (fst ` set ?acc) h2 h'" "input_at h' u' r'" "same_in h' h2"
    using reverse_elements [OF growsD(2) [OF g] c(4) acc2] by blast
  have "returns K [] h a e d v (O5 OP_RDLIST) p h'" for e d
  proof (rule returns_at_once)
    show "\<exists>s2. step K (regs h a e d v D (O5 OP_RDLIST)) = Some (s_return s2 p) \<and> r_dump s2 = D \<and> heap s2 = h'" for D
      using token_paren(2) [OF ik] c(1,2) p(1)
      by (simp add: op_simps info_5_def opexe_5_def op_rdlist_def Let_def split_beta cons_def) auto
  qed
  moreover have "result_ok K (fst ` set acc) h r h'"
    by (rule result_pushed [OF grows_mono [OF g] p(3) _ _ p(4) c(5)]) (use p(5) c(3) in \<open>auto simp: cons_def\<close>)
  ultimately show "\<exists>h' p y. (\<forall>e c. returns K [] h a e c v (O5 OP_RDLIST) p h') \<and> segment h' p (rev ?acc) y \<and>
      repr ?ob h' {Suc (h_next h)..} y D_Nil \<and> result_ok K (fst ` set acc) h r h'"
    using p(2) by (intro exI [of _ h'] exI [of _ p] exI [of _ NIL]) auto
qed

lemma readsD:
  assumes "reads K d" "oblist_ok h (k_oblist K)" "quotes_ok K h" "input_at h u (text_of d @ r)" "stops r"
  obtains h1 t h' v u' r' where "read_token h = Some (h1, t)" "begins t" "completes K (h1\<lparr>h_tok := t\<rparr>) v h'"
    "repr (k_oblist K) h' {h_next h..} v d" "grows (k_oblist K) {} h h'" "same_in h' h" "input_at h' u' r'"
    "r' = r \<or> r = 10 # r'"
  using assms unfolding reads_def result_ok_def by blast

lemma blank_first: "input_at h u (32 # s) \<Longrightarrow> read_token h = read_token (advance h 1)"
  using read_token_blanks [of h u "[32]" s] by simp

lemma stops_tail: "stops (tail_of d @ r)"
  by (cases d) (auto simp: stops_def delim_def)

lemma tail_newline: "tail_of d @ r \<noteq> 10 # s"
  by (cases d) auto

lemma reads_tail_pair:
  assumes x: "reads K x" and y: "reads_tail K y"
  shows "reads_tail K (D_Pair x y)"
  unfolding reads_tail_def
proof (intro allI impI)
  fix h u r a v acc
  let ?ob = "k_oblist K" and ?k = "fst (cons h v a)" and ?acc = "(h_next h, v) # acc"
  assume ok: "oblist_ok h ?ob" and qs: "quotes_ok K h" and i: "input_at h u (tail_of (D_Pair x y) @ r)" and r: "stops r"
    and acc: "slist h a acc" "fst ` set acc \<inter> table_cells h ?ob = {}"
  note k = push_element [OF ok acc, where v = v]
  have ik: "input_at ?k u (32 # text_of x @ tail_of y @ r)"
    by (rule input_at_grows [OF k(1) [where C = "{}"]]) (use i in \<open>simp_all add: cons_def\<close>)
  have g1: "grows ?ob {} ?k (advance ?k 1)" by (rule grows_advance [OF growsD(2) [OF k(1)]])
  have gk: "grows ?ob {} h (advance ?k 1)" by (rule grows_then [OF k(1) g1])
  obtain h1 t h2 w u' r' where w: "read_token (advance ?k 1) = Some (h1, t)" "begins t" "completes K (h1\<lparr>h_tok := t\<rparr>) w h2"
    "repr ?ob h2 {h_next (advance ?k 1)..} w x" "grows ?ob {} (advance ?k 1) h2" "same_in h2 (advance ?k 1)"
    "input_at h2 u' r'" "r' = tail_of y @ r \<or> tail_of y @ r = 10 # r'"
    by (rule readsD [OF x growsD(2) [OF g1] quotes_grows [OF qs gk] advance_next [OF ik] stops_tail])
  have i2: "input_at h2 u' (tail_of y @ r)" using w(7,8) tail_newline by blast
  have g2: "grows ?ob {} ?k h2" by (rule grows_then [OF g1 w(5)])
  have gh2: "grows ?ob {} h h2" by (rule grows_then [OF k(1) g2])
  note acc2 = acc_grows [OF g2 k(2,3)]
  obtain h' p z where p: "\<And>e c. returns K [] h2 (h_next h) e c w (O5 OP_RDLIST) p h'"
    "segment h' p (rev ((h_next h2, w) # ?acc)) z" "repr ?ob h' {Suc (h_next h2)..} z y" "result_ok K (fst ` set ?acc) h2 r h'"
    using y growsD(2) [OF g2] quotes_grows [OF qs gh2] i2 r acc2 unfolding reads_tail_def by blast
  have g3: "grows ?ob (fst ` set ?acc) h2 h'" using p(4) by (simp add: result_ok_def)
  have "returns K [] h a e d v (O5 OP_RDLIST) p h'" for e d
  proof (rule returns_push [where f = "frame_of (O5 OP_RDLIST) (h_next h) e NIL"])
    show "returns K [] (h1\<lparr>h_tok := t\<rparr>) (h_next h) e d v (O5 OP_RDSEXPR) w h2" using w(3) by (simp add: completes_def)
    show "returns K [] h2 (f_args (frame_of (O5 OP_RDLIST) (h_next h) e NIL)) (f_envir (frame_of (O5 OP_RDLIST) (h_next h) e NIL))
        (f_code (frame_of (O5 OP_RDLIST) (h_next h) e NIL)) w (f_op (frame_of (O5 OP_RDLIST) (h_next h) e NIL)) p h'"
      using p(1) by simp
    show "step K (regs h a e d v D (O5 OP_RDLIST)) =
        Some (Next (regs (h1\<lparr>h_tok := t\<rparr>) (h_next h) e d v (frame_of (O5 OP_RDLIST) (h_next h) e NIL # D) (O5 OP_RDSEXPR)))" for D
      using blank_first [OF ik] w(1,2)
      by (auto simp: op_simps info_5_def opexe_5_def op_rdlist_def begins_def Let_def split_beta cons_def)
  qed
  moreover obtain q where q: "segment h' p (rev ?acc) q" "q = h_next h2" "h_cell h' q = Pair w z"
    using p(2) segment_append [of h' p "rev ?acc" "[(h_next h2, w)]" z] by auto
  have le: "Suc (h_next h) \<le> h_next h2" using growsD(3) [OF w(5)] by (simp add: cons_def)
  have acclt: "c \<le> h_next h" if "c \<in> fst ` set ?acc" for c
    using that segment_pair [OF acc(1)] store_okD(4) [of h c] ok by (force simp: oblist_ok_def)
  have "repr ?ob h' {Suc (h_next h)..} w x"
    by (rule repr_grows [OF repr_mono [OF w(4)] g3]) (use acclt in \<open>force simp: cons_def\<close>)+
  moreover have "repr ?ob h' {Suc (h_next h)..} z y" by (rule repr_mono [OF p(3)]) (use le in auto)
  ultimately have rp: "(\<forall>e c. returns K [] h a e c v (O5 OP_RDLIST) p h') \<and> segment h' p (rev ?acc) q \<and>
      repr ?ob h' {Suc (h_next h)..} q (D_Pair x y)" using q le by auto
  obtain u1 r1 where u1: "input_at h' u1 r1" "r1 = r \<or> r = 10 # r1" "same_in h' h2" using p(4) by (auto simp: result_ok_def)
  have "result_ok K (fst ` set acc) h r h'"
    by (rule result_pushed [OF grows_mono [OF gh2] g3 _ _ u1(1,2)]) (use w(6) u1(3) in \<open>auto simp: cons_def\<close>)
  then show "\<exists>h' p y'. (\<forall>e c. returns K [] h a e c v (O5 OP_RDLIST) p h') \<and> segment h' p (rev ?acc) y' \<and>
      repr ?ob h' {Suc (h_next h)..} y' (D_Pair x y) \<and> result_ok K (fst ` set acc) h r h'"
    using rp by blast
qed

lemma reads_tail_dot:
  assumes x: "reads K x" and tail: "tail_of x = [32, 46, 32] @ text_of x @ [41]"
  shows "reads_tail K x"
  unfolding reads_tail_def
proof (intro allI impI)
  fix h u r a v acc
  let ?ob = "k_oblist K" and ?k = "fst (cons h v a)" and ?acc = "(h_next h, v) # acc"
  let ?h = "(advance (advance (fst (cons h v a)) 1) 2)\<lparr>h_tok := TOK_DOT\<rparr>"
  assume ok: "oblist_ok h ?ob" and qs: "quotes_ok K h" and i: "input_at h u (tail_of x @ r)" and r: "stops r"
    and acc: "slist h a acc" "fst ` set acc \<inter> table_cells h ?ob = {}"
  note k = push_element [OF ok acc, where v = v]
  have ik: "input_at ?k u (32 # 46 # 32 # text_of x @ 41 # r)"
    by (rule input_at_grows [OF k(1) [where C = "{}"]]) (use i tail in \<open>simp_all add: cons_def\<close>)
  have dot: "read_token ?k = Some (advance (advance ?k 1) 2, TOK_DOT)"
    using blank_first [OF ik] token_dot [OF advance_next [OF ik]] by simp
  have "input_at (advance (advance ?k 1) 2) ((u @ [32]) @ [46, 32]) (text_of x @ 41 # r)"
    using input_at_advance [of "advance ?k 1" "u @ [32]" "[46, 32]"] advance_next [OF ik] by simp
  then have i2: "input_at ?h ((u @ [32]) @ [46, 32]) (text_of x @ 41 # r)" by simp
  have g1: "grows ?ob {} ?k ?h" by (rule grows_same [OF growsD(2) [OF k(1)]]) simp_all
  have gk: "grows ?ob {} h ?h" by (rule grows_then [OF k(1) g1])
  have st: "stops (41 # r)" by (simp add: stops_def delim_def)
  obtain h1 t h2 w u' r' where w: "read_token ?h = Some (h1, t)" "begins t" "completes K (h1\<lparr>h_tok := t\<rparr>) w h2"
    "repr ?ob h2 {h_next ?h..} w x" "grows ?ob {} ?h h2" "same_in h2 ?h"
    "input_at h2 u' r'" "r' = 41 # r \<or> 41 # r = 10 # r'"
    by (rule readsD [OF x growsD(2) [OF g1] quotes_grows [OF qs gk] i2 st])
  have i3: "input_at h2 u' (41 # r)" using w(7,8) by auto
  have g2: "grows ?ob {} ?k h2" by (rule grows_then [OF g1 w(5)])
  have gh2: "grows ?ob {} h h2" by (rule grows_then [OF k(1) g2])
  have gh3: "grows ?ob {} h (advance h2 1)" by (rule grows_then [OF gh2 grows_advance [OF growsD(2) [OF g2]]])
  have acc2: "slist (advance h2 1) (h_next h) ?acc" "fst ` set ?acc \<inter> table_cells (advance h2 1) ?ob = {}"
    using acc_grows [OF g2 k(2,3)] acc_same [of "advance h2 1" h2] by simp_all
  obtain h' p where p: "reverse_in_place (advance h2 1) w (h_next h) = Some (h', p)" "segment h' p (rev ?acc) w"
    "grows ?ob (fst ` set ?acc) (advance h2 1) h'" "input_at h' (u' @ [41]) r" "same_in h' (advance h2 1)"
    using reverse_elements [OF growsD(2) [OF gh3] advance_next [OF i3] acc2] by blast
  have "returns K [] h a e d v (O5 OP_RDLIST) p h'" for e d
  proof (rule returns_push [where f = "frame_of (O5 OP_RDDOT) (h_next h) e NIL"])
    show "returns K [] (h1\<lparr>h_tok := t\<rparr>) (h_next h) e d v (O5 OP_RDSEXPR) w h2" using w(3) by (simp add: completes_def)
    show "returns K [] h2 (f_args (frame_of (O5 OP_RDDOT) (h_next h) e NIL)) (f_envir (frame_of (O5 OP_RDDOT) (h_next h) e NIL))
        (f_code (frame_of (O5 OP_RDDOT) (h_next h) e NIL)) w (f_op (frame_of (O5 OP_RDDOT) (h_next h) e NIL)) p h'"
      using token_paren(2) [OF i3] p(1)
      by (intro returns_at_once) (auto simp: op_simps info_5_def opexe_5_def op_rddot_def)
    show "step K (regs h a e d v D (O5 OP_RDLIST)) =
        Some (Next (regs (h1\<lparr>h_tok := t\<rparr>) (h_next h) e d v (frame_of (O5 OP_RDDOT) (h_next h) e NIL # D) (O5 OP_RDSEXPR)))" for D
      using dot w(1)
      by (auto simp: op_simps info_5_def opexe_5_def op_rdlist_def next_sexpr_def Let_def split_beta cons_def)
  qed
  moreover have le: "Suc (h_next h) \<le> h_next h2" using growsD(3) [OF w(5)] by (simp add: cons_def)
  have acclt: "c \<le> h_next h" if "c \<in> fst ` set ?acc" for c
    using that segment_pair [OF acc(1)] store_okD(4) [of h c] ok by (force simp: oblist_ok_def)
  have "repr ?ob (advance h2 1) {Suc (h_next h)..} w x"
    by (rule repr_grows [OF repr_mono [OF w(4)] grows_advance [OF growsD(2) [OF g2], of "{}"]]) (auto simp: cons_def)
  from repr_grows [OF this p(3)] have "repr ?ob h' {Suc (h_next h)..} w x" using acclt by fastforce
  moreover have "result_ok K (fst ` set acc) h r h'"
    by (rule result_pushed [OF grows_mono [OF gh3] p(3) _ _ p(4)]) (use w(6) p(5) in \<open>auto simp: cons_def\<close>)
  ultimately show "\<exists>h' p y. (\<forall>e c. returns K [] h a e c v (O5 OP_RDLIST) p h') \<and> segment h' p (rev ?acc) y \<and>
      repr ?ob h' {Suc (h_next h)..} y x \<and> result_ok K (fst ` set acc) h r h'"
    using p(2) by blast
qed

lemma reads_list:
  assumes x: "reads K x" and y: "reads_tail K y" and "quoted x y = None"
  shows "reads K (D_Pair x y)"
  unfolding reads_def
proof (intro allI impI)
  fix h u r
  let ?ob = "k_oblist K" and ?h = "(advance h 1)\<lparr>h_tok := TOK_LPAREN\<rparr>"
  assume ok: "oblist_ok h ?ob" and qs: "quotes_ok K h" and i: "input_at h u (text_of (D_Pair x y) @ r)" and r: "stops r"
  have i: "input_at h u (40 # text_of x @ tail_of y @ r)" using i assms(3) by simp
  note i1 = input_quoted [OF i, of TOK_LPAREN]
  have g1: "grows ?ob {} h ?h" by (rule grows_advanced [OF ok])
  obtain h1 t h2 w u' r' where w: "read_token ?h = Some (h1, t)" "begins t" "completes K (h1\<lparr>h_tok := t\<rparr>) w h2"
    "repr ?ob h2 {h_next ?h..} w x" "grows ?ob {} ?h h2" "same_in h2 ?h"
    "input_at h2 u' r'" "r' = tail_of y @ r \<or> tail_of y @ r = 10 # r'"
    by (rule readsD [OF x growsD(2) [OF g1] quotes_grows [OF qs g1] i1 stops_tail])
  have i2: "input_at h2 u' (tail_of y @ r)" using w(7,8) tail_newline by blast
  have g2: "grows ?ob {} h h2" by (rule grows_then [OF g1 w(5)])
  obtain h' p z where p: "\<And>e c. returns K [] h2 NIL e c w (O5 OP_RDLIST) p h'"
    "segment h' p (rev [(h_next h2, w)]) z" "repr ?ob h' {Suc (h_next h2)..} z y" "result_ok K (fst ` set []) h2 r h'"
    using y growsD(2) [OF g2] quotes_grows [OF qs g2] i2 r unfolding reads_tail_def
    by (metis (no_types, lifting) segment.simps(1) Int_empty_left image_empty list.set(1))
  have g3: "grows ?ob {} h2 h'" using p(4) by (simp add: result_ok_def)
  have "completes K ?h p h'" unfolding completes_def
  proof (intro allI)
    fix a e c v
    show "returns K [] ?h a e c v (O5 OP_RDSEXPR) p h'"
    proof (rule returns_push [where f = "frame_of (O5 OP_RDLIST) NIL e NIL"])
      show "returns K [] (h1\<lparr>h_tok := t\<rparr>) a e c v (O5 OP_RDSEXPR) w h2" using w(3) by (simp add: completes_def)
      show "returns K [] h2 (f_args (frame_of (O5 OP_RDLIST) NIL e NIL)) (f_envir (frame_of (O5 OP_RDLIST) NIL e NIL))
          (f_code (frame_of (O5 OP_RDLIST) NIL e NIL)) w (f_op (frame_of (O5 OP_RDLIST) NIL e NIL)) p h'"
        using p(1) by simp
      show "step K (regs ?h a e c v D (O5 OP_RDSEXPR)) =
          Some (Next (regs (h1\<lparr>h_tok := t\<rparr>) a e c v (frame_of (O5 OP_RDLIST) NIL e NIL # D) (O5 OP_RDSEXPR)))" for D
        using w(1,2) by (auto simp: op_simps info_5_def opexe_5_def op_rdsexpr_def open_list_def begins_def)
    qed
  qed
  moreover have "repr ?ob h' {h_next h..} p (D_Pair x y)"
  proof -
    have le: "h_next h \<le> h_next h2" using growsD(3) [OF g2] .
    have "repr ?ob h' {h_next h..} w x" by (rule repr_grows [OF _ g3]) (use w(4) in simp_all)
    moreover have "repr ?ob h' {h_next h..} z y" by (rule repr_mono [OF p(3)]) (use le in auto)
    ultimately show ?thesis using p(2) le by auto
  qed
  moreover have "result_ok K {} h r h'" using p(4) grows_then [OF g2 g3] w(6) by (auto simp: result_ok_def)
  ultimately show "\<exists>h1 t h' v. read_token h = Some (h1, t) \<and> begins t \<and> completes K (h1\<lparr>h_tok := t\<rparr>) v h' \<and>
      repr ?ob h' {h_next h..} v (D_Pair x y) \<and> result_ok K {} h r h'"
    using token_paren(1) [OF i] by (intro exI [of _ "advance h 1"] exI [of _ TOK_LPAREN] exI conjI) (auto simp: begins_def)
qed

section \<open>All objects\<close>

lemma reads_readable: "readable d \<Longrightarrow> reads K d" "readable d \<Longrightarrow> reads_tail K d"
proof (induction d and d rule: text_of_tail_of.induct)
  case (7 a b)
  show ?case
  proof (cases "quoted a b")
    case None
    then show ?thesis using 7 by (intro reads_list) auto
  next
    case (Some y)
    obtain s x where y: "y = (s, x)" by force
    then obtain n where n: "a = D_Sym n" "b = D_Pair x D_Nil" "prefix_of n = Some s" using Some by (auto simp: quoted_Some)
    then show ?thesis using 7 Some y by (auto intro: reads_quoted)
  qed
next
  case (8 d)
  show ?case
  proof (cases d)
    case D_Nil
    then show ?thesis by (simp add: reads_tail_nil)
  next
    case (D_Pair a b)
    then show ?thesis using 8 by (auto intro: reads_tail_pair)
  qed (use 8 in \<open>auto intro!: reads_tail_dot\<close>)
qed (auto simp: reads_nil reads_bool reads_number reads_char reads_string reads_symbol)

text \<open>An object behind blanks.\<close>

lemma reads_blanks:
  assumes d: "readable d" and ok: "oblist_ok h (k_oblist K)" "quotes_ok K h"
    and i: "input_at h u (ws @ text_of d @ r)" and ws: "\<forall>c \<in> set ws. blank c" and r: "stops r"
  obtains h' v u' r' where "\<And>a e c w. returns K [] h a e c w (O0 OP_READ_INTERNAL) v h'" "repr (k_oblist K) h' {h_next h..} v d"
    "grows (k_oblist K) {} h h'" "same_in h' h" "input_at h' u' r'" "r' = r \<or> r = 10 # r'"
proof -
  let ?h = "advance h (length ws)"
  have g: "grows (k_oblist K) {} h ?h" by (rule grows_advance [OF ok(1)])
  obtain h1 t h' v u' r' where v: "read_token ?h = Some (h1, t)" "begins t" "completes K (h1\<lparr>h_tok := t\<rparr>) v h'"
    "repr (k_oblist K) h' {h_next ?h..} v d" "grows (k_oblist K) {} ?h h'" "same_in h' ?h" "input_at h' u' r'"
    "r' = r \<or> r = 10 # r'"
    by (rule readsD [OF reads_readable(1) [OF d] growsD(2) [OF g] quotes_grows [OF ok(2) g] input_at_advance [OF i] r])
  have "returns K [] h a e c w (O0 OP_READ_INTERNAL) v h'" for a e c w
  proof -
    have "returns K [] (h1\<lparr>h_tok := t\<rparr>) a e c w (O5 OP_RDSEXPR) v h'" using v(3) by (simp add: completes_def)
    then show ?thesis
      by (rule returns_goto)
        (use v(1,2) read_token_blanks [OF i ws] in \<open>auto simp: op_simps op_read_internal_def begins_def\<close>)
  qed
  then show ?thesis using v grows_trans [OF g v(5)] by (intro that) simp_all
qed

end
