(* ===== verification/Scheme_Writing.thy ===== *)
theory Scheme_Writing
  imports Scheme_Reading
begin

text \<open>The printer writes the text of an object to a port that grows.\<close>

section \<open>Output to a string port\<close>

text \<open>
  \<open>output_at h t\<close>: the output port is a string port that grows, with \<open>t\<close> written so far, and its buffer belongs to no
  string.
\<close>

definition output_at :: "store \<Rightarrow> byte list \<Rightarrow> bool" where
  "output_at h t \<longleftrightarrow>
     (\<exists>i b r. h_cell h (h_outport h) = Port i \<and> p_rep (h_port h i) = Str b (length t) (length t + length r) \<and>
        p_srfi6 (h_port h i) \<and> h_buf h b = t @ r @ [0] \<and> b < h_nbuf h \<and> 0 \<notin> set t \<and> (\<forall>p n. h_cell h p \<noteq> String b n))"

text \<open>\<open>same_data h h'\<close>: only ports, and buffers that belong to no string, differ.\<close>

definition same_data :: "store \<Rightarrow> store \<Rightarrow> bool" where
  "same_data h h' \<longleftrightarrow>
     h_cell h' = h_cell h \<and> h_next h' = h_next h \<and> h_outport h' = h_outport h \<and> h_print_flag h' = h_print_flag h \<and>
     h_nbuf h \<le> h_nbuf h' \<and> (\<forall>p b n. h_cell h p = String b n \<longrightarrow> h_buf h' b = h_buf h b)"

lemma same_data_refl [simp, intro]: "same_data h h"
  by (simp add: same_data_def)

lemma same_data_trans: "same_data h h1 \<Longrightarrow> same_data h1 h2 \<Longrightarrow> same_data h h2"
  unfolding same_data_def by (metis order.trans)

lemma putcharacter_at:
  assumes o: "output_at h t" and c: "c \<noteq> 0" and ok: "buffers_ok h"
  obtains h' where "putcharacter h c = Some h'" "output_at h' (t @ [c])" "same_data h h'"
proof -
  obtain i b r where i: "h_cell h (h_outport h) = Port i" "p_rep (h_port h i) = Str b (length t) (length t + length r)"
    "p_srfi6 (h_port h i)" "h_buf h b = t @ r @ [0]" "b < h_nbuf h" "0 \<notin> set t" "\<forall>p n. h_cell h p \<noteq> String b n"
    using o unfolding output_at_def by blast
  show ?thesis
  proof (cases r)
    case (Cons x s)
    let ?h = "set_rep (put_buf h b (t @ c # s @ [0])) i (Str b (Suc (length t)) (length t + length r))"
    have "putcharacter h c = Some ?h" using i Cons
      by (simp add: putcharacter_def port_of_def put_at_def list_update_append)
    moreover have "output_at ?h (t @ [c])" unfolding output_at_def
      using i c Cons by (intro exI [of _ i] exI [of _ b] exI [of _ s]) (auto simp: put_buf_def set_rep_def)
    moreover have "same_data h ?h" using i(7) by (auto simp: same_data_def put_buf_def)
    ultimately show ?thesis by (rule that)
  next
    case Nil
    have cs: "c_str h b = t" using i(4,6) Nil by (simp add: c_str_def takeWhile_append)
    let ?s = "t @ 0 # replicate 255 32" and ?b = "h_nbuf h" and ?n = "length t + 256"
    let ?h1 = "set_rep (fst (store_string h ?s)) i (Str ?b (length t) ?n)"
    let ?h = "set_rep (put_buf ?h1 ?b (t @ c # replicate 255 32 @ [0])) i (Str ?b (Suc (length t)) ?n)"
    have "realloc_port_string h i = Some ?h1" using i(2) Nil
      by (simp add: realloc_port_string_def cs BLOCK_SIZE_def Let_def split_beta store_string_def add.commute)
    moreover have "put_at ?h1 i c = Some ?h"
      by (simp add: put_at_def store_string_def list_update_append)
    ultimately have put: "putcharacter h c = Some ?h" using i(1-3) Nil by (simp add: putcharacter_def port_of_def)
    have fresh: "h_cell h p \<noteq> String ?b n" for p n using ok by (auto simp: buffers_ok_def)
    then have "output_at ?h (t @ [c])" unfolding output_at_def
      using i(1,3,6) c by (intro exI [of _ i] exI [of _ ?b] exI [of _ "replicate 255 32"])
        (auto simp: put_buf_def set_rep_def store_string_def)
    moreover have "same_data h ?h" using fresh by (auto simp: same_data_def put_buf_def store_string_def)
    ultimately show ?thesis by (rule that [OF put])
  qed
qed

lemma same_data_buffers: "same_data h h' \<Longrightarrow> buffers_ok h \<Longrightarrow> buffers_ok h'"
  unfolding same_data_def buffers_ok_def by (metis order_less_le_trans)

lemma putstr_at:
  assumes "output_at h t" "0 \<notin> set s" "buffers_ok h"
  obtains h' where "putstr h s = Some h'" "output_at h' (t @ s)" "same_data h h'"
  using assms
proof (induction s arbitrary: h t thesis)
  case (Cons c s)
  have "c \<noteq> 0" using Cons.prems(3) by auto
  then obtain h1 where 1: "putcharacter h c = Some h1" "output_at h1 (t @ [c])" "same_data h h1"
    using putcharacter_at [OF Cons.prems(2) _ Cons.prems(4)] by blast
  obtain h' where "putstr h1 s = Some h'" "output_at h' ((t @ [c]) @ s)" "same_data h1 h'"
    using Cons.IH [OF _ 1(2) _ same_data_buffers [OF 1(3) Cons.prems(4)]] Cons.prems(3) by auto
  then show ?case using 1 same_data_trans by (intro Cons.prems(1) [of h']) auto
qed auto

section \<open>What does not change\<close>

lemma same_data_outside:
  assumes "same_data h h'" "oblist_ok h ob"
  shows "outside ob {} h h'"
proof -
  have "store_ok h'" "buffers_ok h'" using assms same_data_buffers
    by (auto simp: same_data_def oblist_ok_def store_ok_def)
  then show ?thesis using assms(1) by (auto simp: outside_def same_data_def)
qed

lemma same_data_oblist: "same_data h h' \<Longrightarrow> oblist_ok h ob \<Longrightarrow> oblist_ok h' ob"
  using same_data_outside outside_oblist by blast

lemma same_data_find: "same_data h h' \<Longrightarrow> oblist_ok h ob \<Longrightarrow> oblist_find_by_name h' ob m = oblist_find_by_name h ob m"
  using same_data_outside outside_find by blast

lemma same_data_quotes: "same_data h h' \<Longrightarrow> oblist_ok h (k_oblist K) \<Longrightarrow> quotes_ok K h \<Longrightarrow> quotes_ok K h'"
  unfolding quotes_ok_def by (simp add: same_data_find)

lemma repr_same:
  assumes "repr ob h F p d" "same_data h h'" "oblist_ok h ob"
  shows "repr ob h' F p d"
  using assms
proof (induction ob h F p d rule: repr.induct)
  case (5 ob h F p s)
  then obtain b where "p \<in> F" "h_cell h p = String b (length s)" "length s \<le> length (h_buf h b)" "take (length s) (h_buf h b) = s"
    by auto
  moreover then have "h_buf h' b = h_buf h b" "h_cell h' = h_cell h" using 5(2) unfolding same_data_def by blast+
  ultimately show ?case by auto
qed (auto simp: same_data_find, (auto simp: same_data_def)+)

section \<open>Atoms\<close>

lemma slash_char_clean: "c \<noteq> 0 \<Longrightarrow> 0 \<notin> set (slash_char c)"
proof -
  assume c: "c \<noteq> 0"
  have "hex_digit d \<noteq> 0" if "d < 16" for d
    using hex_digit_read(1) [OF that] by (auto simp: toupper_def islower_def)
  then have "hex_digit (c div 16) \<noteq> 0" "hex_digit (c mod 16) \<noteq> 0" using byte_of_nibbles(1,2) by blast+
  then show ?thesis using c by (auto simp: slash_char_def chr_def)
qed

lemma prefix_clean: "prefix_of n = Some s \<Longrightarrow> 0 \<notin> set s"
  by (auto simp: prefix_of_def split: if_splits)

lemma text_clean: "readable d \<Longrightarrow> 0 \<notin> set (text_of d)" "readable d \<Longrightarrow> 0 \<notin> set (tail_of d)"
proof (induction d and d rule: text_of_tail_of.induct)
  case (3 x)
  then show ?case using num_text_back(3) [of x] digit_codes by fastforce
next
  case (4 c)
  then have "char_back c" by (simp add: chars_back)
  then show ?case by (auto simp: char_back_def list_all_iff split: option.splits list.splits)
next
  case (5 s)
  have "0 \<notin> set (slash_char c)" if "c \<in> set s" for c using 5 that by (intro slash_char_clean) auto
  then show ?case by (auto simp: slash_text_def)
next
  case (6 n)
  then show ?case by (auto simp: symbol_back_def list_all_iff)
next
  case (7 a b)
  show ?case
  proof (cases "quoted a b")
    case None
    then show ?thesis using 7 by simp
  next
    case (Some y)
    obtain s x where y: "y = (s, x)" by force
    then obtain n where "a = D_Sym n" "b = D_Pair x D_Nil" "prefix_of n = Some s" using Some by (auto simp: quoted_Some)
    then show ?thesis using 7 Some y prefix_clean by simp
  qed
next
  case (8 d)
  then show ?case by (cases d) auto
qed simp_all

lemma repr_symname:
  assumes "repr ob h F p d" "oblist_ok h ob"
  shows "symname h p = (case d of D_Sym n \<Rightarrow> Some n | _ \<Rightarrow> None)"
proof -
  have "h_cell h NIL = Atom" "h_cell h T_OBJ = Atom" "h_cell h F_OBJ = Atom" using assms(2) by (auto simp: oblist_ok_def store_ok_def)
  then show ?thesis using assms found_symname by (cases d) (auto simp: symname_def is_symbol_def split: if_splits)
qed

text \<open>A cell as \<open>get_cell\<close> leaves it, which is what the end-of-file object is.\<close>

definition is_blank :: "store \<Rightarrow> addr \<Rightarrow> bool" where
  "is_blank h p \<longleftrightarrow> (\<exists>a d. h_cell h p = Blank a d)"

lemma atom_text_repr:
  assumes r: "repr ob h F p d" and ok: "oblist_ok h ob" "is_blank h EOF_OBJ" and "readable d" "\<And>x y. d \<noteq> D_Pair x y"
  shows "atom_text h p True = Some (text_of d)" "\<not> is_vector h p" "\<not> is_environment h p" "\<not> is_pair h p"
proof -
  have a: "h_cell h NIL = Atom" "h_cell h T_OBJ = Atom" "h_cell h F_OBJ = Atom" using ok(1) by (auto simp: oblist_ok_def store_ok_def)
  have ne: "p \<noteq> NIL \<and> p \<noteq> T_OBJ \<and> p \<noteq> F_OBJ \<and> p \<noteq> EOF_OBJ" if "h_cell h p \<noteq> Atom" "\<not> is_blank h p"
    using that a ok(2) by auto
  have "atom_text h p True = Some (text_of d) \<and> \<not> is_vector h p \<and> \<not> is_environment h p \<and> \<not> is_pair h p"
  proof (cases d)
    case D_Nil
    then show ?thesis using r a(1) by (simp add: atom_text_def atom2str_def is_vector_def is_environment_def is_pair_def ascii_def chr_def)
  next
    case (D_Bool b)
    then show ?thesis using r a(2,3)
      by (simp add: atom_text_def atom2str_def is_vector_def is_environment_def is_pair_def ascii_def chr_def NIL_def T_OBJ_def F_OBJ_def)
  next
    case (D_Num x)
    then have "h_cell h p = Number x" using r by simp
    then show ?thesis using D_Num ne by (simp add: is_blank_def atom_text_def atom2str_def is_vector_def is_environment_def is_pair_def)
  next
    case (D_Char c)
    then have "h_cell h p = Character c" using r by simp
    moreover have "char_text c \<noteq> None" using assms(4) D_Char chars_back [of c] by (auto simp: char_back_def split: option.splits)
    ultimately show ?thesis using D_Char ne by (simp add: is_blank_def atom_text_def atom2str_def is_vector_def is_environment_def is_pair_def)
  next
    case (D_Str s)
    then obtain b where "h_cell h p = String b (length s)" "length s \<le> length (h_buf h b)" "take (length s) (h_buf h b) = s"
      using r by auto
    then show ?thesis using D_Str by (simp add: atom_text_def is_vector_def is_environment_def is_pair_def)
  next
    case (D_Sym n)
    then have s: "symname h p = Some n" using repr_symname [OF r ok(1)] by simp
    then obtain t k where "h_cell h p = Symbol t k \<or> h_cell h p = Syntax t k" using symname_cell [OF s] by blast
    then show ?thesis using s D_Sym ne by (auto simp: is_blank_def atom_text_def atom2str_def is_vector_def is_environment_def is_pair_def)
  qed (use assms(5) in simp)
  then show "atom_text h p True = Some (text_of d)" "\<not> is_vector h p" "\<not> is_environment h p" "\<not> is_pair h p" by blast+
qed

section \<open>Abbreviations\<close>

lemma abbreviation_repr:
  assumes r: "repr ob h F q d" and ok: "oblist_ok h ob" and ob: "ob = k_oblist K" and qs: "quotes_ok K h"
  shows "abbreviation_of K q = (case d of D_Sym n \<Rightarrow> prefix_of n | _ \<Rightarrow> None)"
proof -
  have k: "symname h q = Some n \<and> (case d of D_Sym m \<Rightarrow> m = n | _ \<Rightarrow> False)"
    if "q = x" "oblist_find_by_name h (k_oblist K) n = Some x \<and> x \<noteq> NIL" for n x
  proof -
    have "symname h q = Some n" using that found_symname [OF ok] ob by blast
    then show ?thesis using repr_symname [OF r ok] by (simp split: datum.splits)
  qed
  have f: "oblist_find_by_name h (k_oblist K) (ascii ''quote'') = Some (k_QUOTE K) \<and> k_QUOTE K \<noteq> NIL"
    "oblist_find_by_name h (k_oblist K) (ascii ''quasiquote'') = Some (k_QQUOTE K) \<and> k_QQUOTE K \<noteq> NIL"
    "oblist_find_by_name h (k_oblist K) (ascii ''unquote'') = Some (k_UNQUOTE K) \<and> k_UNQUOTE K \<noteq> NIL"
    "oblist_find_by_name h (k_oblist K) (ascii ''unquote-splicing'') = Some (k_UNQUOTESP K) \<and> k_UNQUOTESP K \<noteq> NIL"
    using qs by (simp_all add: quotes_ok_def)
  show ?thesis
  proof (cases "\<exists>n. d = D_Sym n")
    case True
    then obtain n where n: "d = D_Sym n" by blast
    then have q: "oblist_find_by_name h (k_oblist K) n = Some q" using r ob by simp
    show ?thesis using n q f k [OF _ f(1)] k [OF _ f(2)] k [OF _ f(3)] k [OF _ f(4)]
      by (auto simp: abbreviation_of_def prefix_of_def)
  next
    case False
    then have "q \<notin> {k_QUOTE K, k_QQUOTE K, k_UNQUOTE K, k_UNQUOTESP K}"
      using k [OF _ f(1)] k [OF _ f(2)] k [OF _ f(3)] k [OF _ f(4)] by (auto split: datum.splits)
    then show ?thesis using False by (auto simp: abbreviation_of_def split: datum.splits)
  qed
qed

text \<open>The printer chooses the abbreviation exactly for the lists that have one.\<close>

lemma pair_abbreviation:
  assumes q: "repr ob h F q a" and d: "repr ob h F d b" and ok: "oblist_ok h ob" and ob: "ob = k_oblist K" and qs: "quotes_ok K h"
  shows "quoted a b = None \<Longrightarrow> (if ok_abbrev h d then abbreviation_of K q else None) = None"
    "quoted a b = Some (s, x) \<Longrightarrow> \<exists>z. h_cell h d = Pair z NIL \<and> ok_abbrev h d \<and> abbreviation_of K q = Some s \<and> repr ob h F z x"
proof -
  have sok: "store_ok h" using ok by (simp add: oblist_ok_def)
  note ab = abbreviation_repr [OF q ok ob qs]
  have nil: "y = D_Nil" if "repr ob h F NIL y" for y
    using that store_okD(1) [OF sok] by (cases y) (auto simp: NIL_def T_OBJ_def F_OBJ_def split: if_splits)
  have nopair: "\<not> is_pair h d" if "\<And>x y. b \<noteq> D_Pair x y"
  proof -
    have "h_cell h T_OBJ = Atom" "h_cell h F_OBJ = Atom" "h_cell h NIL = Atom" using sok by (auto simp: store_ok_def)
    moreover have "\<exists>n. symname h d = Some n" if "\<exists>n. b = D_Sym n" using repr_symname [OF d ok] that by auto
    ultimately show ?thesis using d that by (cases b) (auto simp: is_pair_def symname_def is_symbol_def split: if_splits cell.splits)
  qed
  show "(if ok_abbrev h d then abbreviation_of K q else None) = None" if n: "quoted a b = None"
  proof (rule ccontr)
    assume c: "(if ok_abbrev h d then abbreviation_of K q else None) \<noteq> None"
    then have o: "is_pair h d" "cdr h d = Some NIL" "abbreviation_of K q \<noteq> None" by (auto simp: ok_abbrev_def split: if_splits)
    then obtain m where m: "a = D_Sym m" "prefix_of m \<noteq> None" using ab by (cases a) auto
    obtain x y where "b = D_Pair x y" using nopair o(1) by blast
    moreover then have "y = D_Nil" using d o(2) nil by auto
    ultimately show False using n m by simp
  qed
  show "\<exists>z. h_cell h d = Pair z NIL \<and> ok_abbrev h d \<and> abbreviation_of K q = Some s \<and> repr ob h F z x" if "quoted a b = Some (s, x)"
    using that ab d by (auto simp: quoted_Some ok_abbrev_def)
qed

section \<open>Objects\<close>

definition prints :: "globals \<Rightarrow> op5 \<Rightarrow> store \<Rightarrow> addr \<Rightarrow> byte list \<Rightarrow> byte list \<Rightarrow> bool" where
  "prints K oc h p t s \<longleftrightarrow>
     (\<exists>h'. (\<forall>e c w. returns K [] h p e c w (O5 oc) T_OBJ h') \<and> output_at h' (t @ s) \<and> same_data h h')"

lemma prints_atom:
  assumes r: "repr ob h F p d" and ok: "oblist_ok h ob" "is_blank h EOF_OBJ" and d: "readable d" "\<And>x y. d \<noteq> D_Pair x y"
    and o: "output_at h t" "h_print_flag h"
  shows "prints K OP_P0LIST h p t (text_of d)"
proof -
  have b: "buffers_ok h" using ok(1) by (simp add: oblist_ok_def)
  obtain h' where h': "putstr h (text_of d) = Some h'" "output_at h' (t @ text_of d)" "same_data h h'"
    by (rule putstr_at [OF o(1) text_clean(1) [OF d(1)] b])
  note a = atom_text_repr [OF r ok d]
  have "returns K [] h p e c w (O5 OP_P0LIST) T_OBJ h'" for e c w
    by (rule returns_at_once) (use a h'(1) o(2) in \<open>auto simp: op_simps info_5_def opexe_5_def op_p0list_def printatom_def\<close>)
  then show ?thesis using h' by (auto simp: prints_def)
qed

text \<open>What is printed first and then the rest, done by a frame or by the same registers.\<close>

lemma prints_then:
  assumes "putstr h s1 = Some h1" "same_data h h1" "prints K oc h1 p (t @ s1) s2"
    "\<And>e c w D. step K (regs h a e c w D (O5 oc0)) = Some (Next (regs h1 p e c w D (O5 oc)))"
  shows "prints K oc0 h a t (s1 @ s2)"
proof -
  obtain h' where h': "\<And>e c w. returns K [] h1 p e c w (O5 oc) T_OBJ h'" "output_at h' ((t @ s1) @ s2)" "same_data h1 h'"
    using assms(3) by (auto simp: prints_def)
  have "returns K [] h a e c w (O5 oc0) T_OBJ h'" for e c w by (rule returns_goto [OF h'(1) assms(4)])
  then show ?thesis using h'(2) same_data_trans [OF assms(2) h'(3)] by (auto simp: prints_def)
qed

lemma prints_push:
  assumes "putstr h s1 = Some h1" "same_data h h1" "prints K OP_P0LIST h1 p (t @ s1) s2"
    "\<And>h2. same_data h h2 \<Longrightarrow> output_at h2 (t @ s1 @ s2) \<Longrightarrow> prints K OP_P1LIST h2 d (t @ s1 @ s2) s3"
    "\<And>e c w D. step K (regs h a e c w D (O5 oc0)) = Some (Next (regs h1 p e c w (frame_of (O5 OP_P1LIST) d e NIL # D) (O5 OP_P0LIST)))"
  shows "prints K oc0 h a t (s1 @ s2 @ s3)"
proof -
  obtain h2 where h2: "\<And>e c w. returns K [] h1 p e c w (O5 OP_P0LIST) T_OBJ h2" "output_at h2 ((t @ s1) @ s2)" "same_data h1 h2"
    using assms(3) by (auto simp: prints_def)
  have sd: "same_data h h2" by (rule same_data_trans [OF assms(2) h2(3)])
  have "prints K OP_P1LIST h2 d (t @ s1 @ s2) s3" using assms(4) [OF sd] h2(2) by simp
  then obtain h' where h': "\<And>e c w. returns K [] h2 d e c w (O5 OP_P1LIST) T_OBJ h'" "output_at h' ((t @ s1 @ s2) @ s3)" "same_data h2 h'"
    by (auto simp: prints_def)
  have "returns K [] h a e c w (O5 oc0) T_OBJ h'" for e c w
    by (rule returns_push [OF h2(1) _ assms(5)]) (simp add: h'(1))
  then show ?thesis using h'(2) same_data_trans [OF sd h'(3)] by (auto simp: prints_def)
qed

definition ready :: "globals \<Rightarrow> store \<Rightarrow> byte list \<Rightarrow> bool" where
  "ready K h t \<longleftrightarrow>
     oblist_ok h (k_oblist K) \<and> quotes_ok K h \<and> is_blank h EOF_OBJ \<and> h_print_flag h \<and> output_at h t"

lemma ready_same: "ready K h t \<Longrightarrow> same_data h h' \<Longrightarrow> output_at h' t' \<Longrightarrow> ready K h' t'"
  unfolding ready_def using same_data_oblist same_data_quotes by (auto simp: same_data_def is_blank_def)

lemma ready_putstr:
  assumes "ready K h t" "0 \<notin> set s"
  obtains h' where "putstr h s = Some h'" "same_data h h'" "ready K h' (t @ s)"
proof -
  have "output_at h t" "buffers_ok h" using assms(1) by (auto simp: ready_def oblist_ok_def)
  then obtain h' where "putstr h s = Some h'" "output_at h' (t @ s)" "same_data h h'"
    using putstr_at [OF _ assms(2)] by blast
  then show ?thesis using that ready_same [OF assms(1)] by blast
qed

definition printed :: "globals \<Rightarrow> op5 \<Rightarrow> datum \<Rightarrow> byte list \<Rightarrow> bool" where
  "printed K oc d s \<longleftrightarrow> (\<forall>h p t. ready K h t \<longrightarrow> repr (k_oblist K) h UNIV p d \<longrightarrow> prints K oc h p t s)"

lemma printed_atom:
  assumes "readable d" "\<And>x y. d \<noteq> D_Pair x y"
  shows "printed K OP_P0LIST d (text_of d)"
  unfolding printed_def ready_def using prints_atom [OF _ _ _ assms] by blast

lemma same_data_cell: "same_data h h' \<Longrightarrow> h_cell h' = h_cell h"
  by (simp add: same_data_def)

lemma printed_quoted:
  assumes x: "printed K OP_P0LIST x (text_of x)" and a: "quoted a b = Some (s, x)"
  shows "printed K OP_P0LIST (D_Pair a b) (s @ text_of x)"
  unfolding printed_def
proof (intro allI impI)
  fix h p t
  assume r: "ready K h t" and "repr (k_oblist K) h UNIV p (D_Pair a b)"
  then obtain q d where p: "h_cell h p = Pair q d" "repr (k_oblist K) h UNIV q a" "repr (k_oblist K) h UNIV d b" by auto
  have ok: "oblist_ok h (k_oblist K)" "quotes_ok K h" using r by (simp_all add: ready_def)
  obtain z where z: "h_cell h d = Pair z NIL" "ok_abbrev h d" "abbreviation_of K q = Some s" "repr (k_oblist K) h UNIV z x"
    using pair_abbreviation(2) [OF p(2,3) ok(1) refl ok(2) a] by blast
  have "0 \<notin> set s" using a prefix_clean by (auto simp: quoted_Some)
  then obtain h1 where h1: "putstr h s = Some h1" "same_data h h1" "ready K h1 (t @ s)" by (rule ready_putstr [OF r])
  have "repr (k_oblist K) h1 UNIV z x" by (rule repr_same [OF z(4) h1(2) ok(1)])
  then have "prints K OP_P0LIST h1 z (t @ s) (text_of x)" using x h1(3) by (simp add: printed_def)
  moreover have "step K (regs h p e c w D (O5 OP_P0LIST)) = Some (Next (regs h1 z e c w D (O5 OP_P0LIST)))" for e c w D
    using p(1) z h1(1) same_data_cell [OF h1(2)]
    by (simp add: op_simps info_5_def opexe_5_def op_p0list_def is_vector_def is_environment_def cadr_def car_def cdr_def)
  ultimately show "prints K OP_P0LIST h p t (s @ text_of x)" by (rule prints_then [OF h1(1,2)])
qed

lemma printed_list:
  assumes a: "printed K OP_P0LIST a (text_of a)" and b: "printed K OP_P1LIST b (tail_of b)" and n: "quoted a b = None"
  shows "printed K OP_P0LIST (D_Pair a b) ([40] @ text_of a @ tail_of b)"
  unfolding printed_def
proof (intro allI impI)
  fix h p t
  assume r: "ready K h t" and "repr (k_oblist K) h UNIV p (D_Pair a b)"
  then obtain q d where p: "h_cell h p = Pair q d" "repr (k_oblist K) h UNIV q a" "repr (k_oblist K) h UNIV d b" by auto
  have ok: "oblist_ok h (k_oblist K)" "quotes_ok K h" using r by (simp_all add: ready_def)
  note na = pair_abbreviation(1) [OF p(2,3) ok(1) refl ok(2) n]
  obtain h1 where h1: "putstr h [40] = Some h1" "same_data h h1" "ready K h1 (t @ [40])"
    by (rule ready_putstr [OF r, of "[40]"]) simp_all
  have r1: "repr (k_oblist K) h1 UNIV q a" by (rule repr_same [OF p(2) h1(2) ok(1)])
  show "prints K OP_P0LIST h p t ([40] @ text_of a @ tail_of b)"
  proof (rule prints_push [OF h1(1,2)])
    show "prints K OP_P0LIST h1 q (t @ [40]) (text_of a)" using a h1(3) r1 by (simp add: printed_def)
    show "prints K OP_P1LIST h2 d (t @ [40] @ text_of a) (tail_of b)" if "same_data h h2" "output_at h2 (t @ [40] @ text_of a)" for h2
      using b ready_same [OF r that] repr_same [OF p(3) that(1) ok(1)] by (simp add: printed_def)
    show "step K (regs h p e c w D (O5 OP_P0LIST)) =
        Some (Next (regs h1 q e c w (frame_of (O5 OP_P1LIST) d e NIL # D) (O5 OP_P0LIST)))" for e c w D
      using p(1) na h1(1)
      by (auto simp: op_simps info_5_def opexe_5_def op_p0list_def is_vector_def is_environment_def ascii_def split: if_splits)
  qed
qed

lemma printed_tail_pair:
  assumes a: "printed K OP_P0LIST a (text_of a)" and b: "printed K OP_P1LIST b (tail_of b)"
  shows "printed K OP_P1LIST (D_Pair a b) ([32] @ text_of a @ tail_of b)"
  unfolding printed_def
proof (intro allI impI)
  fix h p t
  assume r: "ready K h t" and "repr (k_oblist K) h UNIV p (D_Pair a b)"
  then obtain q d where p: "h_cell h p = Pair q d" "repr (k_oblist K) h UNIV q a" "repr (k_oblist K) h UNIV d b" by auto
  have ok: "oblist_ok h (k_oblist K)" "quotes_ok K h" using r by (simp_all add: ready_def)
  obtain h1 where h1: "putstr h [32] = Some h1" "same_data h h1" "ready K h1 (t @ [32])"
    by (rule ready_putstr [OF r, of "[32]"]) simp_all
  have r1: "repr (k_oblist K) h1 UNIV q a" by (rule repr_same [OF p(2) h1(2) ok(1)])
  show "prints K OP_P1LIST h p t ([32] @ text_of a @ tail_of b)"
  proof (rule prints_push [OF h1(1,2)])
    show "prints K OP_P0LIST h1 q (t @ [32]) (text_of a)" using a h1(3) r1 by (simp add: printed_def)
    show "prints K OP_P1LIST h2 d (t @ [32] @ text_of a) (tail_of b)" if "same_data h h2" "output_at h2 (t @ [32] @ text_of a)" for h2
      using b ready_same [OF r that] repr_same [OF p(3) that(1) ok(1)] by (simp add: printed_def)
    show "step K (regs h p e c w D (O5 OP_P1LIST)) =
        Some (Next (regs h1 q e c w (frame_of (O5 OP_P1LIST) d e NIL # D) (O5 OP_P0LIST)))" for e c w D
      using p(1) h1(1) by (simp add: op_simps info_5_def opexe_5_def op_p1list_def)
  qed
qed

lemma printed_tail_nil: "printed K OP_P1LIST D_Nil [41]"
  unfolding printed_def prints_def
proof (intro allI impI)
  fix h p t
  assume r: "ready K h t" and "repr (k_oblist K) h UNIV p D_Nil"
  then have p: "p = NIL" "h_cell h NIL = Atom" by (auto simp: ready_def oblist_ok_def store_ok_def)
  obtain h1 where h1: "putstr h [41] = Some h1" "same_data h h1" "ready K h1 (t @ [41])"
    by (rule ready_putstr [OF r, of "[41]"]) simp_all
  have "returns K [] h p e c w (O5 OP_P1LIST) T_OBJ h1" for e c w
    by (rule returns_at_once) (use p h1(1) in
      \<open>auto simp: op_simps info_5_def opexe_5_def op_p1list_def is_pair_def is_vector_def ascii_def\<close>)
  then show "\<exists>h'. (\<forall>e c w. returns K [] h p e c w (O5 OP_P1LIST) T_OBJ h') \<and> output_at h' (t @ [41]) \<and> same_data h h'"
    using h1 by (auto simp: ready_def)
qed

lemma list_text: "ascii '' . '' = [32, 46, 32]" "ascii '')'' = [41]"
  by (simp_all add: ascii_def chr_def)

lemma printed_tail_dot:
  assumes d: "readable d" "\<And>x y. d \<noteq> D_Pair x y" "d \<noteq> D_Nil"
  shows "printed K OP_P1LIST d ([32, 46, 32] @ text_of d @ [41])"
  unfolding printed_def prints_def
proof (intro allI impI)
  fix h p t
  assume r: "ready K h t" and p: "repr (k_oblist K) h UNIV p d"
  have ok: "oblist_ok h (k_oblist K)" "is_blank h EOF_OBJ" using r by (simp_all add: ready_def)
  obtain h1 where h1: "putstr h [32, 46, 32] = Some h1" "same_data h h1" "ready K h1 (t @ [32, 46, 32])"
    by (rule ready_putstr [OF r, of "[32, 46, 32]"]) simp_all
  obtain h2 where h2: "putstr h1 (text_of d) = Some h2" "same_data h1 h2" "ready K h2 ((t @ [32, 46, 32]) @ text_of d)"
    by (rule ready_putstr [OF h1(3) text_clean(1) [OF d(1)]])
  obtain h3 where h3: "putstr h2 [41] = Some h3" "same_data h2 h3" "ready K h3 (((t @ [32, 46, 32]) @ text_of d) @ [41])"
    by (rule ready_putstr [OF h2(3), of "[41]"]) simp_all
  have r1: "repr (k_oblist K) h1 UNIV p d" by (rule repr_same [OF p h1(2) ok(1)])
  have ok1: "oblist_ok h1 (k_oblist K)" "is_blank h1 EOF_OBJ" "h_print_flag h1" using h1(3) by (simp_all add: ready_def)
  note a = atom_text_repr [OF r1 ok1(1,2) d(1,2)]
  have "h_cell h T_OBJ = Atom" "h_cell h F_OBJ = Atom" "h_cell h NIL = Atom" using ok(1) by (auto simp: oblist_ok_def store_ok_def)
  moreover have "NIL \<noteq> T_OBJ" "NIL \<noteq> F_OBJ" by (simp_all add: NIL_def T_OBJ_def F_OBJ_def)
  ultimately have pn: "p \<noteq> NIL" using p d by (cases d) auto
  have np: "\<not> is_pair h p" "\<not> is_vector h p" using a(2,4) same_data_cell [OF h1(2)] by (simp_all add: is_pair_def is_vector_def)
  have "returns K [] h p e c w (O5 OP_P1LIST) T_OBJ h3" for e c w
    by (rule returns_at_once) (use np pn a(1) ok1(3) h1(1) h2(1) h3(1) in
      \<open>auto simp: op_simps info_5_def opexe_5_def op_p1list_def printatom_def list_text simp del: putstr.simps\<close>)
  moreover have "same_data h h3" using h1(2) h2(2) h3(2) same_data_trans by blast
  ultimately show "\<exists>h'. (\<forall>e c w. returns K [] h p e c w (O5 OP_P1LIST) T_OBJ h') \<and>
      output_at h' (t @ [32, 46, 32] @ text_of d @ [41]) \<and> same_data h h'"
    using h3(3) by (auto simp: ready_def)
qed

lemma prints_readable:
  "readable d \<Longrightarrow> printed K OP_P0LIST d (text_of d)" "readable d \<Longrightarrow> printed K OP_P1LIST d (tail_of d)"
proof (induction d and d rule: text_of_tail_of.induct)
  case (7 a b)
  show ?case
  proof (cases "quoted a b")
    case None
    then show ?thesis using 7 printed_list [of K a b] by simp
  next
    case (Some y)
    obtain s x where y: "y = (s, x)" by force
    then obtain n where "a = D_Sym n" "b = D_Pair x D_Nil" using Some by (auto simp: quoted_Some)
    then show ?thesis using 7 Some y printed_quoted [of K x a b s] by simp
  qed
next
  case (8 d)
  show ?case
  proof (cases d)
    case D_Nil
    then show ?thesis by (simp add: printed_tail_nil)
  next
    case (D_Pair a b)
    then show ?thesis using 8 printed_tail_pair [of K a b] by simp
  qed (use 8 printed_tail_dot [of d K] in auto)
qed (intro printed_atom; simp)+

end
