(* ===== verification/Scheme_Roundtrip.thy ===== *)
theory Scheme_Roundtrip
  imports Scheme_Writing
begin

text \<open>Writing an object and reading it back.\<close>

section \<open>Writing\<close>

lemma write_check:
  assumes "h_cell h a = Pair x NIL" "store_ok h"
  shows "passes_check K (O4 OP_WRITE) h a f"
proof -
  have "list_length h a = Some 1" using list_length_loop_segment [of h a "[(a, x)]" NIL 0] store_okD(2) [OF assms(2)] assms(1)
    by (simp add: list_length_def)
  then show ?thesis using assms(1) by (auto simp: passes_check_def check_args_def info_def)
qed

text \<open>C12: \<open>(write x)\<close>, for an object \<open>x\<close> that can be read back, with the output port a string port that grows: it returns
  \<open>#t\<close>, appends the text of the object to the port and changes no cell.
\<close>

theorem write_prints_text:
  assumes r: "repr (k_oblist K) h UNIV x d" and d: "readable d" and ok: "oblist_ok h (k_oblist K)" "quotes_ok K h" "is_blank h EOF_OBJ"
    and o: "output_at h t" and a: "h_cell h a = Pair x NIL"
  shows "\<exists>h'. returns K [] h a e f w (O4 OP_WRITE) T_OBJ h' \<and> output_at h' (t @ text_of d) \<and> h_cell h' = h_cell h"
proof -
  let ?h = "h\<lparr>h_print_flag := True\<rparr>"
  have sok: "store_ok h" using ok(1) by (simp add: oblist_ok_def)
  have g: "grows (k_oblist K) {} h ?h" by (rule grows_same [OF ok(1)]) simp_all
  have "ready K ?h t" using growsD(2) [OF g] quotes_grows [OF ok(2) g] ok(3) o by (auto simp: ready_def is_blank_def output_at_def)
  moreover have "repr (k_oblist K) ?h UNIV x d" by (rule repr_grows [OF r g]) simp
  ultimately obtain h' where h': "\<And>e c w. returns K [] ?h x e c w (O5 OP_P0LIST) T_OBJ h'" "output_at h' (t @ text_of d)"
    "same_data ?h h'" using prints_readable(1) [OF d, of K] unfolding printed_def prints_def by blast
  have "returns K [] h a e f w (O4 OP_WRITE) T_OBJ h'"
    by (rule returns_goto [OF h'(1)])
      (use a step_checked [OF write_check [OF a sok]] store_okD(2) [OF sok] in \<open>simp add: op_write_def op_simps\<close>)
  then show ?thesis using h'(2) same_data_cell [OF h'(3)] by auto
qed

section \<open>Reading\<close>


section \<open>An example\<close>

definition io_globals :: globals where
  "io_globals = program_globals\<lparr>k_oblist := 5, k_QUOTE := 11, k_QQUOTE := 14, k_UNQUOTE := 17, k_UNQUOTESP := 20\<rparr>"

text \<open>The four symbols, the list \<open>(quote (1 "a"))\<close> at 30, a list of it at 36, an output port at 37 and an input port at 38.\<close>

definition io_store :: store where
  "io_store = \<lparr>h_cell = (\<lambda>_. Junk)(0 := Atom, 1 := Blank 0 0, 2 := Atom, 3 := Atom, 4 := Blank 0 0, 5 := Vector [12],
     10 := String 0 5, 11 := Syntax 10 0, 12 := Pair 11 15, 13 := String 1 10, 14 := Symbol 13 0, 15 := Pair 14 18,
     16 := String 2 7, 17 := Symbol 16 0, 18 := Pair 17 21, 19 := String 3 16, 20 := Symbol 19 0, 21 := Pair 20 0,
     30 := Pair 11 31, 31 := Pair 32 0, 32 := Pair 33 34, 33 := Number (Integer 1), 34 := Pair 35 0, 35 := String 4 1,
     36 := Pair 30 0, 37 := Port 0, 38 := Port 1),
     h_immutable = \<lambda>_. False,
     h_buf = (\<lambda>_. [])(0 := ascii ''quote'' @ [0], 1 := ascii ''quasiquote'' @ [0], 2 := ascii ''unquote'' @ [0],
       3 := ascii ''unquote-splicing'' @ [0], 4 := [97, 0], 5 := [32, 32, 0], 6 := [32, 39, 40, 49, 32, 34, 97, 34, 41, 10, 0]),
     h_next = 39, h_nbuf = 7, h_gensym_cnt = 0,
     h_port = (\<lambda>_. closed_port)(0 := \<lparr>p_input = False, p_output = True, p_srfi6 = True, p_rep = Str 5 0 2\<rparr>,
       1 := \<lparr>p_input = True, p_output = False, p_srfi6 = False, p_rep = Str 6 0 10\<rparr>),
     h_nport = 2, h_inport = 38, h_outport = 37, h_save_inport = 0, h_loadport = 0, h_tok = TOK_EOF, h_print_flag = False\<rparr>"

definition io_datum :: datum where
  "io_datum = D_Pair (D_Sym (ascii ''quote'')) (D_Pair (D_Pair (D_Num (Integer 1)) (D_Pair (D_Str [97]) D_Nil)) D_Nil)"

lemma io_symbols:
  "symname io_store 11 = Some (ascii ''quote'')" "symname io_store 14 = Some (ascii ''quasiquote'')"
  "symname io_store 17 = Some (ascii ''unquote'')" "symname io_store 20 = Some (ascii ''unquote-splicing'')"
  by (simp_all add: symname_def is_symbol_def car_def c_str_def io_store_def ascii_def chr_def)

lemma io_bucket: "bucket_ok io_store 12 [(12, 11), (15, 14), (18, 17), (21, 20)]"
  by (simp add: bucket_ok_def io_symbols) (simp add: io_store_def NIL_def)

lemma io_ok: "oblist_ok io_store 5"
proof -
  have "store_ok io_store" by (auto simp: store_ok_def io_store_def NIL_def T_OBJ_def F_OBJ_def EOF_OBJ_def split: if_splits)
  moreover have "buffers_ok io_store" by (auto simp: buffers_ok_def io_store_def split: if_splits)
  moreover have "h_cell io_store 5 = Vector [12]" by (simp add: io_store_def)
  ultimately show ?thesis using io_bucket by (auto simp: oblist_ok_def)
qed

lemma io_find: "oblist_find_by_name io_store 5 n =
  Some (case find (\<lambda>s. symname io_store s = Some n) [11, 14, 17, 20] of None \<Rightarrow> NIL | Some s \<Rightarrow> s)"
proof -
  have v: "h_cell io_store 5 = Vector [12]" by (simp add: io_store_def)
  then show ?thesis using oblist_find_vector [OF v] oblist_find_bucket [OF io_bucket] io_ok by (simp add: oblist_ok_def hash_fn_def)
qed

lemma io_quotes: "quotes_ok io_globals io_store"
  by (auto simp: quotes_ok_def io_globals_def io_find io_symbols ascii_def NIL_def)

lemma io_readable: "readable io_datum"
  by (simp add: io_datum_def symbol_back_def number_back_def in_i64_def STRBUFF_def ascii_def chr_def atom_start_def blank_iff delim_def
    atom_kind_def digit_def word_le_def)

lemma io_text: "text_of io_datum = [39, 40, 49, 32, 34, 97, 34, 41]"
  by (simp add: io_datum_def prefix_of_def ascii_def num_text_def dec_int_def dec_nat.simps slash_text_def slash_char_def)

lemma io_repr: "repr 5 io_store UNIV 30 io_datum"
  by (simp add: io_datum_def io_find io_symbols) (simp add: io_store_def NIL_def)

theorem write_prints_text_witness:
  "\<exists>h'. returns io_globals [] io_store 36 0 0 0 (O4 OP_WRITE) T_OBJ h' \<and>
     output_at h' [39, 40, 49, 32, 34, 97, 34, 41] \<and> h_cell h' = h_cell io_store"
proof -
  have "output_at io_store []" by (auto simp: output_at_def io_store_def split: if_splits intro!: exI [of _ "[32, 32]"])
  moreover have "is_blank io_store EOF_OBJ" by (simp add: is_blank_def io_store_def EOF_OBJ_def)
  moreover have "h_cell io_store 36 = Pair 30 NIL" by (simp add: io_store_def NIL_def)
  ultimately show ?thesis
    using write_prints_text [of io_globals io_store 30 io_datum "[]" 36 0 0 0] io_readable io_ok io_quotes io_repr
    by (simp add: io_globals_def io_text)
qed


section \<open>Input that ends inside a list\<close>

definition inside_list :: "scheme \<Rightarrow> bool" where
  "inside_list sc \<longleftrightarrow>
     (\<exists>u. input_at (heap sc) u []) \<and> h_inport (heap sc) \<noteq> h_loadport (heap sc) \<and> store_ok (heap sc) \<and>
     (r_op sc = O5 OP_RDLIST \<or>
      r_op sc = O5 OP_RDSEXPR \<and> h_tok (heap sc) = TOK_EOF \<and> (\<exists>f D. r_dump sc = f # D \<and> f_op f = O5 OP_RDLIST))"

lemma input_at_cons:
  assumes "input_at h u s" "store_ok h"
  shows "input_at (fst (cons h a d)) u s" "same_in (fst (cons h a d)) h"
proof -
  have "h_inport h < h_next h" using assms by (auto simp: input_at_def store_ok_def)
  then show "input_at (fst (cons h a d)) u s" using assms(1) by (auto simp: input_at_def cons_def)
qed (simp add: cons_def)

lemma step_O5': "r_op sc = O5 oc \<Longrightarrow> info_5 oc = None \<Longrightarrow> step K sc = opexe_5 K oc sc"
  by (simp add: step_def)

lemma inside_list_step:
  assumes "inside_list sc"
  shows "\<exists>sc'. step K sc = Some (Next sc') \<and> inside_list sc'"
proof -
  obtain u where u: "input_at (heap sc) u []" and l: "h_inport (heap sc) \<noteq> h_loadport (heap sc)" "store_ok (heap sc)"
    using assms by (auto simp: inside_list_def)
  consider "r_op sc = O5 OP_RDLIST"
    | f D where "r_op sc = O5 OP_RDSEXPR" "h_tok (heap sc) = TOK_EOF" "r_dump sc = f # D" "f_op f = O5 OP_RDLIST"
    using assms by (auto simp: inside_list_def)
  then show ?thesis
  proof cases
    case 1
    let ?h = "(fst (cons (heap sc) (r_value sc) (r_args sc)))\<lparr>h_tok := TOK_EOF\<rparr>"
    let ?f = "frame_of (O5 OP_RDLIST) (h_next (heap sc)) (r_envir sc) NIL"
    let ?s = "sc\<lparr>heap := ?h, r_args := h_next (heap sc), r_dump := ?f # r_dump sc, r_op := O5 OP_RDSEXPR\<rparr>"
    note i = input_at_cons [OF u l(2), of "r_value sc" "r_args sc"]
    have "step K sc = Some (Next ?s)" using token_end [OF i(1)] 1
      by (simp add: step_O5' info_5_def opexe_5_def op_rdlist_def op_simps Let_def split_beta cons_def)
    moreover have "store_ok ?h" using store_ok_cons [OF l(2), of "r_value sc" "r_args sc"] by (simp add: store_ok_def)
    then have "inside_list ?s" using i l(1) by (auto simp: inside_list_def)
    ultimately show ?thesis by blast
  next
    case 2
    then have "step K sc = Some (Next (resume f (sc\<lparr>r_value := EOF_OBJ, r_dump := D\<rparr>)))" using l(1)
      by (simp add: step_O5' info_5_def opexe_5_def op_rdsexpr_def s_return_def)
    moreover have "inside_list (resume f (sc\<lparr>r_value := EOF_OBJ, r_dump := D\<rparr>))" using u l 2
      by (auto simp: inside_list_def resume_def)
    ultimately show ?thesis by blast
  qed
qed

lemma inside_list_hangs:
  assumes "inside_list sc"
  shows "eval_cycle K sc = None"
proof (rule ccontr)
  assume "eval_cycle K sc \<noteq> None"
  then obtain r where r: "eval_cycle K sc = Some r" by blast
  have "\<not> inside_list sc"
  proof (rule eval_cycle.raw_induct [where P = "\<lambda>K sc r. \<not> inside_list sc", OF _ r])
    fix cyc K sc r
    assume ih: "\<And>K sc r. cyc K sc = Some r \<Longrightarrow> \<not> inside_list sc"
      and eq: "Option.bind (step K sc) (\<lambda>r. case r of Next sc1 \<Rightarrow> cyc K sc1 | _ \<Rightarrow> Some r) = Some r"
    show "\<not> inside_list sc"
    proof
      assume "inside_list sc"
      then obtain sc' where "step K sc = Some (Next sc')" "inside_list sc'" using inside_list_step by blast
      then show False using ih eq by auto
    qed
  qed
  then show False using assms by blast
qed

text \<open>Reading a list that is not closed before the end of a string port never ends: at the end of the input
  \<open>OP_RDLIST\<close> goes on to \<open>OP_RDSEXPR\<close>, which returns the end-of-file object to \<open>OP_RDLIST\<close>, which takes it for
  the next element.
\<close>

theorem unclosed_list_never_read:
  assumes d: "readable d" and ok: "oblist_ok h (k_oblist K)" "quotes_ok K h"
    and i: "input_at h u (40 # text_of d)" and l: "h_inport h \<noteq> h_loadport h"
  shows "eval_cycle K (regs h a e c w D (O0 OP_READ_INTERNAL)) = None"
proof -
  let ?h = "(advance h 1)\<lparr>h_tok := TOK_LPAREN\<rparr>" and ?f = "frame_of (O5 OP_RDLIST) NIL e NIL"
  have g: "grows (k_oblist K) {} h ?h" by (rule grows_advanced [OF ok(1)])
  have i1: "input_at ?h (u @ [40]) (text_of d @ [])" using input_quoted [OF i] by simp
  obtain h1 t h2 v u' r' where v: "read_token ?h = Some (h1, t)" "begins t" "completes K (h1\<lparr>h_tok := t\<rparr>) v h2"
    "repr (k_oblist K) h2 {h_next ?h..} v d" "grows (k_oblist K) {} ?h h2" "same_in h2 ?h" "input_at h2 u' r'"
    "r' = [] \<or> [] = 10 # r'"
    by (rule readsD [OF reads_readable(1) [OF d] growsD(2) [OF g] quotes_grows [OF ok(2) g] i1]) (simp add: stops_def)
  have "leads K (regs h a e c w D (O0 OP_READ_INTERNAL)) (regs ?h a e c w D (O5 OP_RDSEXPR))"
    by (rule leads_step [OF _ leads_refl]) (use token_paren(1) [OF i] in \<open>simp add: op_simps op_read_internal_def\<close>)
  also have "leads K \<dots> (regs (h1\<lparr>h_tok := t\<rparr>) a e c w (?f # D) (O5 OP_RDSEXPR))"
    by (rule leads_step [OF _ leads_refl])
      (use v(1,2) in \<open>auto simp: op_simps info_5_def opexe_5_def op_rdsexpr_def open_list_def begins_def\<close>)
  also have "leads K \<dots> (regs h2 (f_args ?f) (f_envir ?f) (f_code ?f) v D (f_op ?f))"
    by (rule returns_frame) (use v(3) in \<open>simp add: completes_def\<close>)
  finally have "leads K (regs h a e c w D (O0 OP_READ_INTERNAL)) (regs h2 NIL e NIL v D (O5 OP_RDLIST))" by simp
  moreover have "inside_list (regs h2 NIL e NIL v D (O5 OP_RDLIST))"
    using v(6,7,8) l growsD(2) [OF v(5)] by (auto simp: inside_list_def oblist_ok_def)
  ultimately show ?thesis using leads_eval_cycle inside_list_hangs by simp
qed

lemma io_strings: "h_cell io_store p = String b n \<Longrightarrow> b < 5"
  by (auto simp: io_store_def split: if_splits)

text \<open>The example with another input.\<close>

lemma io_input:
  assumes "\<forall>b < 5. f b = h_buf io_store b"
  shows "outside 5 {} io_store (io_store\<lparr>h_buf := f, h_port := pt\<rparr>)"
proof -
  have "store_ok io_store" "buffers_ok io_store" using io_ok by (auto simp: oblist_ok_def)
  then have "store_ok (io_store\<lparr>h_buf := f, h_port := pt\<rparr>)" "buffers_ok (io_store\<lparr>h_buf := f, h_port := pt\<rparr>)"
    by (simp_all add: store_ok_def buffers_ok_def)
  then show ?thesis using assms io_strings by (auto simp: outside_def)
qed

theorem unclosed_list_never_read_witness:
  "eval_cycle io_globals (regs (io_store\<lparr>h_buf := (h_buf io_store)(6 := [32, 40, 40, 41, 0]),
     h_port := (h_port io_store)(1 := \<lparr>p_input = True, p_output = False, p_srfi6 = False, p_rep = Str 6 1 4\<rparr>)\<rparr>)
     0 0 0 0 [] (O0 OP_READ_INTERNAL)) = None"
proof -
  let ?h = "io_store\<lparr>h_buf := (h_buf io_store)(6 := [32, 40, 40, 41, 0]),
     h_port := (h_port io_store)(1 := \<lparr>p_input = True, p_output = False, p_srfi6 = False, p_rep = Str 6 1 4\<rparr>)\<rparr>"
  have o: "outside 5 {} io_store ?h" by (rule io_input) simp
  have ok: "oblist_ok ?h 5" by (rule outside_oblist [OF o io_ok])
  have q: "quotes_ok io_globals ?h"
    using io_quotes outside_find [OF o io_ok] by (simp add: quotes_ok_def io_globals_def)
  have i: "input_at ?h [32] (40 # text_of D_Nil)" by (simp add: input_at_def io_store_def)
  show ?thesis using unclosed_list_never_read [OF _ _ q i] ok by (simp add: io_globals_def) (simp add: io_store_def)
qed

section \<open>Comments in front of a closing parenthesis\<close>

lemma token_semicolon:
  assumes "input_at h u (59 # s)"
  shows "read_token h = Some (advance h 1, TOK_COMMENT)"
proof -
  have "\<not> blank 59" by (simp add: blank_iff)
  then show ?thesis using inchar_at [OF assms] skipspace_at [OF assms] by (simp add: read_token_def EOF_def)
qed

lemma skip_line_at:
  assumes "input_at h u (l @ 10 # r)" "10 \<notin> set l"
  shows "skip_line h = Some (advance h (Suc (length l)))"
  using assms
proof (induction l arbitrary: h u)
  case Nil
  then have "input_at h u (10 # r)" by simp
  then show ?case using inchar_at [of h u 10 r] by (subst skip_line.simps) simp
next
  case (Cons c l)
  have i: "input_at h u (c # l @ 10 # r)" using Cons.prems(1) by simp
  have "c \<noteq> 10" using Cons.prems(2) by auto
  then have "sint c \<noteq> 10" using sint_eq_iff [of c 10] by simp
  then have "skip_line h = skip_line (advance h 1)" using inchar_at [OF i] by (subst skip_line.simps) simp
  also have "\<dots> = Some (advance (advance h 1) (Suc (length l)))"
    by (rule Cons.IH [OF advance_next [OF i]]) (use Cons.prems(2) in simp)
  finally show ?case by simp
qed

text \<open>A comment after blanks: the token, and what is left once the line is skipped.\<close>

lemma comment_at:
  assumes i: "input_at h u (ws @ 59 # l @ 10 # r)" and ws: "\<forall>c \<in> set ws. blank c" and l: "10 \<notin> set l"
  obtains h1 h2 h3 u' where "read_token h = Some (h1, TOK_COMMENT)" "skip_line (h1\<lparr>h_tok := TOK_COMMENT\<rparr>) = Some h2"
    "skip_line h1 = Some h3" "input_at h2 u' r" "input_at h3 u' r"
proof -
  let ?h = "advance (advance h (length ws)) 1"
  have i1: "input_at (advance h (length ws)) (u @ ws) (59 # l @ 10 # r)" by (rule input_at_advance [OF i])
  have i2: "input_at ?h ((u @ ws) @ [59]) (l @ 10 # r)" by (rule advance_next [OF i1])
  have s: "skip_line g = Some (advance g (Suc (length l)))" "input_at (advance g (Suc (length l))) (((u @ ws) @ [59]) @ l @ [10]) r"
    if "input_at g ((u @ ws) @ [59]) (l @ 10 # r)" for g
  proof -
    show "skip_line g = Some (advance g (Suc (length l)))" by (rule skip_line_at [OF that l])
    show "input_at (advance g (Suc (length l))) (((u @ ws) @ [59]) @ l @ [10]) r"
      using input_at_advance [of g "(u @ ws) @ [59]" "l @ [10]" r] that by simp
  qed
  have "read_token h = Some (?h, TOK_COMMENT)" using read_token_blanks [OF i ws] token_semicolon [OF i1] by simp
  then show ?thesis using s [OF i2] s [of "?h\<lparr>h_tok := TOK_COMMENT\<rparr>"] i2
    by (intro that [of ?h "advance (?h\<lparr>h_tok := TOK_COMMENT\<rparr>) (Suc (length l))" "advance ?h (Suc (length l))"]) auto
qed

text \<open>Two lines of comment between the last element of a list and its closing parenthesis are an error: the first
  is skipped by \<open>OP_RDLIST\<close>, the second by \<open>OP_RDSEXPR\<close>, which then meets a parenthesis it does not expect.
\<close>

theorem two_comments_before_paren:
  assumes i: "input_at h u (ws @ 59 # l @ 10 # ws' @ 59 # l' @ 10 # ws'' @ 41 # r)" and ok: "store_ok h"
    and ws: "\<forall>c \<in> set ws \<union> set ws' \<union> set ws''. blank c" and l: "10 \<notin> set l" "10 \<notin> set l'"
  shows "\<exists>sc. leads K (regs h a e c v D (O5 OP_RDLIST)) sc \<and> step K sc = error_0 K sc ''Illegal right bracket: unbalanced expr?''"
proof -
  let ?k = "fst (cons h v a)" and ?f = "frame_of (O5 OP_RDLIST) (h_next h) e NIL"
  note ik = input_at_cons(1) [OF i ok, of v a]
  obtain h1 h3 u1 where 1: "read_token ?k = Some (h1, TOK_COMMENT)" "skip_line h1 = Some h3"
    "input_at h3 u1 (ws' @ 59 # l' @ 10 # ws'' @ 41 # r)" by (rule comment_at [OF ik _ l(1)]) (use ws in auto)
  obtain h4 h5 u2 where 2: "read_token h3 = Some (h4, TOK_COMMENT)" "skip_line (h4\<lparr>h_tok := TOK_COMMENT\<rparr>) = Some h5"
    "input_at h5 u2 (ws'' @ 41 # r)" by (rule comment_at [OF 1(3) _ l(2)]) (use ws in auto)
  let ?g = "advance (advance h5 (length ws'')) 1"
  have 3: "read_token h5 = Some (?g, TOK_RPAREN)"
    using read_token_blanks [OF 2(3)] token_paren(2) [OF input_at_advance [OF 2(3)]] ws by simp
  let ?s = "regs (?g\<lparr>h_tok := TOK_RPAREN\<rparr>) (h_next h) e c v (?f # D) (O5 OP_RDSEXPR)"
  have "leads K (regs h a e c v D (O5 OP_RDLIST)) (regs (h4\<lparr>h_tok := TOK_COMMENT\<rparr>) (h_next h) e c v (?f # D) (O5 OP_RDSEXPR))"
    by (rule leads_step [OF _ leads_refl])
      (use 1(1,2) 2(1) in \<open>simp add: op_simps info_5_def opexe_5_def op_rdlist_def Let_def split_beta cons_def\<close>)
  also have "leads K \<dots> ?s"
    by (rule leads_step [OF _ leads_refl])
      (use 2(2) 3 in \<open>simp add: op_simps info_5_def opexe_5_def op_rdsexpr_def next_sexpr_def\<close>)
  finally have "leads K (regs h a e c v D (O5 OP_RDLIST)) ?s" .
  moreover have "step K ?s = error_0 K ?s ''Illegal right bracket: unbalanced expr?''"
    by (simp add: op_simps info_5_def opexe_5_def op_rdsexpr_def)
  ultimately show ?thesis by blast
qed

theorem two_comments_before_paren_witness:
  "\<exists>sc. leads io_globals (regs (io_store\<lparr>h_buf := (h_buf io_store)(6 := [59, 120, 10, 32, 59, 121, 10, 41, 0]),
       h_port := (h_port io_store)(1 := \<lparr>p_input = True, p_output = False, p_srfi6 = False, p_rep = Str 6 0 8\<rparr>)\<rparr>)
       0 0 0 33 [] (O5 OP_RDLIST)) sc \<and>
     step io_globals sc = error_0 io_globals sc ''Illegal right bracket: unbalanced expr?''"
proof -
  let ?h = "io_store\<lparr>h_buf := (h_buf io_store)(6 := [59, 120, 10, 32, 59, 121, 10, 41, 0]),
     h_port := (h_port io_store)(1 := \<lparr>p_input = True, p_output = False, p_srfi6 = False, p_rep = Str 6 0 8\<rparr>)\<rparr>"
  have ok: "store_ok ?h" using io_input [of "(h_buf io_store)(6 := [59, 120, 10, 32, 59, 121, 10, 41, 0])"] by (simp add: outside_def)
  have i: "input_at ?h [] ([] @ 59 # [120] @ 10 # [32] @ 59 # [121] @ 10 # [] @ 41 # [])" by (simp add: input_at_def io_store_def)
  show ?thesis by (rule two_comments_before_paren [OF i ok]) simp_all
qed

end
