(* ===== verification/Scheme_Load.thy ===== *)
theory Scheme_Load
  imports Scheme_Cycle
begin

text \<open>
  The ways into the interpreter (src/src/Scheme.cpp): \<open>scheme_load_string\<close>, \<open>scheme_load_file\<close>, \<open>scheme_define\<close>, \<open>scheme_apply0\<close> and
  \<open>scheme_call\<close>.
\<close>

section \<open>The end of a run\<close>

text \<open>
  \<open>sc->retcode\<close> is 0 at the start of a run, set by \<open>quit\<close> to its argument and by \<open>OP_ERR0\<close> to -1, after which the run
  ends in \<open>OP_ERR1\<close>: it is read off the operation that ended the run. (\<open>nesting\<close> is 0 as no files are pushed.)
\<close>

definition retcode :: "scheme \<Rightarrow> int option" where
  "retcode sc =
     (case r_op sc of
        O4 OP_QUIT \<Rightarrow>
          if is_pair (heap sc) (r_args sc) then
            do { x \<leftarrow> car (heap sc) (r_args sc); i \<leftarrow> ivalue (heap sc) x; Some (int32 i) }
          else Some 0
      | O4 OP_ERR1 \<Rightarrow> Some (-1)
      | _ \<Rightarrow> Some 0)"

text \<open>
  What the callers of \<open>Eval_Cycle\<close> do with an exception: \<open>_Error_1\<close> reports it and, when there is a hook, prepares to call it, but the
  cycle is over, and \<open>retcode\<close> stays 0. \<open>k_what\<close> is the text of a \<open>std::exception\<close>.
\<close>

definition reported :: "globals \<Rightarrow> scheme \<Rightarrow> byte list \<Rightarrow> addr \<Rightarrow> (int \<times> scheme) option" where
  "reported K sc msg p =
     do { r \<leftarrow> error_1 K sc msg (Some p);
          (case r of Next sc1 \<Rightarrow> Some (0, sc1) | Error _ _ sc1 \<Rightarrow> Some (0, sc1) | _ \<Rightarrow> None) }"

definition run_ended :: "globals \<Rightarrow> outcome \<Rightarrow> (int \<times> scheme) option" where
  "run_ended K r =
     (case r of
        Next sc \<Rightarrow> None
      | Stop sc \<Rightarrow> do { i \<leftarrow> retcode sc; Some (i, sc) }
      | Error _ _ sc \<Rightarrow> Some (-1, sc)
      | Throw msg p sc \<Rightarrow> reported K sc (ascii msg) p
      | Exception sc \<Rightarrow> reported K sc (k_what K) NIL)"

section \<open>Loading\<close>

text \<open>
  The first element of \<open>load_stack\<close> is the port with the number 0. Afterwards the cell of the port has no type any more.
\<close>

definition load_stack :: nat where "load_stack = 0"

definition open_load :: "port_rep \<Rightarrow> store \<Rightarrow> store" where
  "open_load rep h =
     (let h1 = h\<lparr>h_port := (h_port h)(load_stack := \<lparr>p_input = True, p_output = False, p_srfi6 = False, p_rep = rep\<rparr>)\<rparr>;
          (h2, p) = mk_port h1 load_stack
      in h2\<lparr>h_loadport := p, h_inport := p\<rparr>)"

definition close_load :: "store \<Rightarrow> store" where
  "close_load h = put_cell h (h_loadport h) Junk"

definition load :: "globals \<Rightarrow> store \<Rightarrow> scheme \<Rightarrow> outcome option" where
  "load K h sc = eval_cycle K (sc\<lparr>heap := h, r_dump := [], r_envir := k_global_env K, r_op := O0 OP_T0LVL\<rparr>)"

definition closed :: "(int \<times> scheme) option \<Rightarrow> (int \<times> scheme) option" where
  "closed r = do { (i, sc) \<leftarrow> r; Some (i, sc\<lparr>heap := close_load (heap sc)\<rparr>) }"

definition open_string :: "byte list \<Rightarrow> store \<Rightarrow> store" where
  "open_string cmd h = (let (h1, b) = store_string h cmd in open_load (Str b 0 (length (c_str h1 b))) h1)"

text \<open>
  With the time limit \<open>end_time\<close> of the call, which \<open>late\<close> stands for (see \<open>eval_timed\<close>; \<open>start_time\<close> is only
  stored), and the same for a call that stays within it.
\<close>

definition load_until :: "globals \<Rightarrow> (nat \<Rightarrow> string option) \<Rightarrow> store \<Rightarrow> scheme \<Rightarrow> outcome option" where
  "load_until K late h sc =
     eval_timed K late 0 (sc\<lparr>heap := h, r_dump := [], r_envir := k_global_env K, r_op := O0 OP_T0LVL\<rparr>)"

definition scheme_load_string_until ::
  "globals \<Rightarrow> (nat \<Rightarrow> string option) \<Rightarrow> byte list \<Rightarrow> scheme \<Rightarrow> (int \<times> scheme) option" where
  "scheme_load_string_until K late cmd sc =
     do { r \<leftarrow> load_until K late (open_string cmd (heap sc)) sc; closed (run_ended K r) }"

definition scheme_load_string :: "globals \<Rightarrow> byte list \<Rightarrow> scheme \<Rightarrow> (int \<times> scheme) option" where
  "scheme_load_string K cmd sc = do { r \<leftarrow> load K (open_string cmd (heap sc)) sc; closed (run_ended K r) }"

lemma load_string_in_time:
  "(\<And>k. late k = None) \<Longrightarrow> scheme_load_string_until K late cmd sc = scheme_load_string K cmd sc"
  by (simp add: scheme_load_string_until_def scheme_load_string_def load_until_def load_def eval_timed_in_time)

text \<open>A call that is late at once reports that and returns 0.\<close>

lemma load_string_late:
  "late 0 = Some msg \<Longrightarrow> scheme_load_string_until K late cmd sc =
     closed (reported K (sc\<lparr>heap := open_string cmd (heap sc), r_dump := [], r_envir := k_global_env K,
       r_op := O0 OP_T0LVL\<rparr>) (ascii msg) NIL)"
  by (simp add: scheme_load_string_until_def load_until_def eval_timed.simps run_ended_def)

text \<open>\<open>scheme_load_file\<close> and \<open>scheme_call\<close> catch \<open>ScmRuntimeError\<close> only; another exception ends the thread, and with it the program.\<close>

datatype called = Returned int scheme | Terminated

definition catch_runtime :: "globals \<Rightarrow> outcome \<Rightarrow> ((int \<times> scheme) option \<Rightarrow> (int \<times> scheme) option) \<Rightarrow> called option" where
  "catch_runtime K r f =
     (case r of
        Exception _ \<Rightarrow> Some Terminated
      | _ \<Rightarrow> do { (i, sc) \<leftarrow> f (run_ended K r); Some (Returned i sc) })"

definition scheme_load_file :: "globals \<Rightarrow> byte list \<Rightarrow> scheme \<Rightarrow> called option" where
  "scheme_load_file K content sc =
     do { r \<leftarrow> load K (open_load (Stdio content []) (heap sc)) sc; catch_runtime K r closed }"

section \<open>Definitions and calls\<close>

definition scheme_define :: "store \<Rightarrow> addr \<Rightarrow> addr \<Rightarrow> addr \<Rightarrow> store option" where
  "scheme_define h envir symbol value =
     do { x \<leftarrow> find_slot_in_env h envir symbol False;
          if x \<noteq> NIL then set_slot_in_env h x value else new_slot_spec_in_env h envir symbol value }"

definition scheme_apply0 :: "globals \<Rightarrow> byte list \<Rightarrow> scheme \<Rightarrow> called option" where
  "scheme_apply0 K name sc =
     do { (h1, carx) \<leftarrow> mk_symbol (heap sc) (k_oblist K) name;
          let (h2, c) = cons h1 carx NIL;
          r \<leftarrow> eval_cycle K (sc\<lparr>heap := h2, r_dump := [], r_envir := k_global_env K, r_code := c, r_op := O0 OP_EVAL\<rparr>);
          catch_runtime K r id }"

definition scheme_call_without_stack_reset :: "globals \<Rightarrow> addr \<Rightarrow> addr \<Rightarrow> scheme \<Rightarrow> called option" where
  "scheme_call_without_stack_reset K func args sc =
     do { r \<leftarrow> eval_cycle K (sc\<lparr>r_args := args, r_code := func, r_op := O0 OP_APPLY\<rparr>); catch_runtime K r id }"

definition scheme_call :: "globals \<Rightarrow> addr \<Rightarrow> addr \<Rightarrow> scheme \<Rightarrow> called option" where
  "scheme_call K func args sc =
     scheme_call_without_stack_reset K func args (sc\<lparr>r_dump := [], r_envir := k_global_env K\<rparr>)"

end
