(* ===== verification/Repl_Server.thy ===== *)
theory Repl_Server
  imports Ext_Prelude
begin

text \<open>
  The text protocol between an editor and a Scheme process: the client of src/src/SchemeREPL.cpp, and of
  src/src/SchemeProcess.cpp the queue of tasks and the server thread that fills it. Sockets are the results
  of the system calls: which descriptors are ready, what \<open>accept\<close> and \<open>recv\<close> return.
\<close>

section \<open>The client\<close>

text \<open>\<open>SchemeREPL::writeString\<close>: the text and CR LF, in pieces of at most 1024 bytes. \<open>accepted\<close> is how many bytes of a
  piece \<open>write\<close> takes; when it takes less, a message is printed and the rest of the piece is not sent.\<close>

definition CR :: byte where "CR = 13"
definition LF :: byte where "LF = 10"
definition BUFLEN :: nat where "BUFLEN = 1024"

function pieces :: "byte list \<Rightarrow> byte list list" where
  "pieces b = (let lth = (if length b > BUFLEN then BUFLEN else length b)
     in take lth b # (if length b - lth < 1 then [] else pieces (drop lth b)))"
  by pat_completeness auto

termination by (relation "measure length") (auto simp: BUFLEN_def split: if_splits)

declare pieces.simps [simp del]

definition writeString :: "(byte list \<Rightarrow> nat) \<Rightarrow> byte list \<Rightarrow> byte list list" where
  "writeString accepted s = map (\<lambda>b. take (accepted b) b) (pieces (s @ [CR, LF]))"

section \<open>Tasks\<close>

text \<open>
  \<open>SchemeTask\<close>; what its untyped pointer points to depends on its type: a string, the \<open>SchemeObj\<close> of a
  callback (its value and environment), the name of a procedure, an environment, or a compiled callback.
\<close>

datatype task_body = REPL "byte list" | LOCAL_PROCESS_STRING "byte list" | SCHEME_CALLBACK addr addr
  | CALLBACK_SYMBOL "byte list" addr | DESTROY_ENV addr | EXTEMPORE_CALLBACK nat

record scheme_task =
  st_time :: "64 word"
  st_max_duration :: "64 word"
  st_label :: "byte list"
  st_body :: task_body

definition createSchemeTask :: "64 word \<Rightarrow> 64 word \<Rightarrow> byte list \<Rightarrow> task_body \<Rightarrow> scheme_task list \<Rightarrow> scheme_task list" where
  "createSchemeTask time max_duration label body q =
     q @ [\<lparr>st_time = time, st_max_duration = max_duration, st_label = label, st_body = body\<rparr>]"

section \<open>Receiving\<close>

text \<open>
  What one \<open>recv\<close> returns: from 1 to \<open>BUFLEN\<close> bytes, 0 for a closed connection, or an error. The end of a message is looked for
  at the end of the bytes just received, \<open>buf[res - 2]\<close> and \<open>buf[res - 1]\<close>: for a single byte that reads the byte before the buffer. What is there is up to
  the compiler: \<open>before j\<close> is that byte at the \<open>j\<close>th \<open>recv\<close>.
\<close>

datatype recv = Bytes "byte list" | Closed | Failed

definition received_text :: "byte list \<Rightarrow> byte list" where
  "received_text bs = takeWhile (\<lambda>c. c \<noteq> 0) bs"

definition ends_message :: "byte \<Rightarrow> byte list \<Rightarrow> bool" where
  "ends_message before bs \<longleftrightarrow> (let n = length bs in (before # bs) ! (n - 1) = CR \<and> (before # bs) ! n = LF)"

text \<open>
  The loop that reads from one client, in blocks: \<open>Disconnected\<close>, or the text to evaluate and what is left in \<open>inStrings\<close>. The list is what
  the client's \<open>recv\<close>s return up to some moment; \<open>None\<close>: at that moment the thread waits in \<open>recv\<close>, and what comes later
  is read with a longer list.
\<close>

datatype reading = Disconnected | Received "byte list" "byte list"

fun read_client :: "(nat \<Rightarrow> byte) \<Rightarrow> nat \<Rightarrow> byte list \<Rightarrow> recv list \<Rightarrow> (reading \<times> recv list) option" where
  "read_client before j string [] = None"
| "read_client before j string (Closed # rs) = Some (Disconnected, rs)"
| "read_client before j string (Failed # rs) = Some (Received [] string, rs)"
| "read_client before j string (Bytes bs # rs) =
     (let string = string @ received_text bs in
      if ends_message (before j) bs then Some (Received string [], rs)
      else if j > 1024 * 10 then Some (Received [] [], rs)
      else read_client before (j + 1) string rs)"

text \<open>The text is cut after each CR, and the byte that follows a CR is skipped.\<close>

function split_lines :: "byte list \<Rightarrow> byte list list" where
  "split_lines s =
     (case dropWhile (\<lambda>c. c \<noteq> CR) s of
        [] \<Rightarrow> []
      | _ # r \<Rightarrow> (takeWhile (\<lambda>c. c \<noteq> CR) s @ [CR]) # split_lines (drop 1 r))"
  by pat_completeness auto

termination
proof (relation "measure length")
  fix s r :: "byte list" and x
  assume "dropWhile (\<lambda>c. c \<noteq> CR) s = x # r"
  then have "length (x # r) \<le> length s" using length_dropWhile_le [of "\<lambda>c. c \<noteq> CR" s] by simp
  then show "(drop 1 r, s) \<in> measure length" by simp
qed simp

declare split_lines.simps [simp del]

section \<open>The server's turns\<close>

text \<open>\<open>serverImpl\<close>: the sockets of the clients, what is left of their texts, \<open>readFds\<close> and \<open>numFds\<close>, and the queue of the process.\<close>

record server =
  sv_clients :: "int list"
  sv_in :: "int \<Rightarrow> byte list"
  sv_read :: "int set"
  sv_num :: int
  sv_queue :: "scheme_task list"

text \<open>The system calls of a turn; \<open>sc_recv\<close> is what each socket will deliver.\<close>

record syscalls =
  sc_select_ok :: bool
  sc_ready :: "int set"
  sc_bad :: "int set"
  sc_accept :: int
  sc_recv :: "int \<Rightarrow> recv list"
  sc_before :: "nat \<Rightarrow> byte"
  sc_now :: "64 word"

text \<open>\<open>select\<close> looks at the descriptors of the set below \<open>numFds\<close> only.\<close>

definition is_set :: "syscalls \<Rightarrow> server \<Rightarrow> int \<Rightarrow> bool" where
  "is_set io sv fd \<longleftrightarrow> fd \<in> sv_read sv \<and> fd < sv_num sv \<and> fd \<in> sc_ready io"

definition queue_lines :: "syscalls \<Rightarrow> 64 word \<Rightarrow> int \<Rightarrow> byte list \<Rightarrow> scheme_task list \<Rightarrow> scheme_task list" where
  "queue_lines io max_duration sock evalStr q =
     (if evalStr \<noteq> ascii ''#break#'' then
        fold (\<lambda>s q. createSchemeTask (sc_now io) max_duration (dec_int sock) (REPL s) q) (split_lines evalStr) q
      else q)"

text \<open>The loop over the clients. A client that has closed its connection is taken out of the list, and the loop goes on with the next one.\<close>

fun serve_clients :: "syscalls \<Rightarrow> 64 word \<Rightarrow> (int \<Rightarrow> bool) \<Rightarrow> int list \<Rightarrow> server \<Rightarrow> (server \<times> (int \<Rightarrow> recv list)) option" where
  "serve_clients io max_duration ready [] sv = Some (sv, sc_recv io)"
| "serve_clients io max_duration ready (sock # socks) sv =
     (if ready sock then
        (case read_client (sc_before io) 0 (sv_in sv sock) (sc_recv io sock) of
           None \<Rightarrow> None
         | Some (r, rest) \<Rightarrow>
             (let io1 = io\<lparr>sc_recv := (sc_recv io)(sock := rest)\<rparr>;
                  sv1 = (case r of
                           Disconnected \<Rightarrow>
                             sv\<lparr>sv_read := sv_read sv - {sock}, sv_in := (sv_in sv)(sock := []),
                                sv_clients := remove1 sock (sv_clients sv)\<rparr>
                         | Received evalStr string \<Rightarrow>
                             sv\<lparr>sv_in := (sv_in sv)(sock := string),
                                sv_queue := queue_lines io max_duration sock evalStr (sv_queue sv)\<rparr>)
              in serve_clients io1 max_duration ready socks sv1))
      else serve_clients io max_duration ready socks sv)"

definition drop_bad :: "syscalls \<Rightarrow> server \<Rightarrow> server" where
  "drop_bad io sv =
     (case find (\<lambda>s. s \<in> sc_bad io) (sv_clients sv) of
        None \<Rightarrow> sv
      | Some s \<Rightarrow> sv\<lparr>sv_read := sv_read sv - {s}, sv_clients := remove1 s (sv_clients sv)\<rparr>)"

definition server_turn :: "syscalls \<Rightarrow> 64 word \<Rightarrow> int \<Rightarrow> server \<Rightarrow> (server \<times> (int \<Rightarrow> recv list)) option" where
  "server_turn io max_duration listen sv =
     (if \<not> sc_select_ok io then Some (drop_bad io sv, sc_recv io)
      else if is_set io sv listen then
        (let res = sc_accept io in
         if res < 0 then Some (sv, sc_recv io)
         else Some (sv\<lparr>sv_num := res + 1, sv_read := insert res (sv_read sv), sv_clients := sv_clients sv @ [res],
                       sv_in := (sv_in sv)(res := [])\<rparr>, sc_recv io))
      else serve_clients io max_duration (is_set io sv) (sv_clients sv) sv)"

definition server_start :: "int \<Rightarrow> server" where
  "server_start listen = \<lparr>sv_clients = [], sv_in = \<lambda>_. [], sv_read = {listen}, sv_num = listen + 1, sv_queue = []\<rparr>"

section \<open>Messages and lines\<close>

definition repl_message :: "byte list list \<Rightarrow> byte list" where
  "repl_message ts = concat (map (\<lambda>t. t @ [CR, LF]) ts)"

lemma repl_message_simps [simp]: "repl_message [] = []" "repl_message (t # ts) = t @ CR # LF # repl_message ts"
  by (simp_all add: repl_message_def)

lemma split_line: "CR \<notin> set t \<Longrightarrow> split_lines (t @ CR # c # r) = (t @ [CR]) # split_lines r"
  by (subst split_lines.simps) (auto simp: dropWhile_append takeWhile_append)

lemma split_message: "\<forall>t \<in> set ts. CR \<notin> set t \<Longrightarrow> split_lines (repl_message ts) = map (\<lambda>t. t @ [CR]) ts"
proof (induction ts)
  case Nil
  then show ?case by (subst split_lines.simps) simp
qed (simp add: split_line)

text \<open>A chunk boundary never separates the CR from the LF of a line end.\<close>

definition ends_crlf :: "byte list \<Rightarrow> bool" where
  "ends_crlf s \<longleftrightarrow> (\<exists>t. s = t @ [CR, LF])"

fun uncut :: "byte list list \<Rightarrow> bool" where
  "uncut (b # c # bs) \<longleftrightarrow> \<not> (last b = CR \<and> hd c = LF) \<and> uncut (c # bs)"
| "uncut _ \<longleftrightarrow> True"

lemma CR_LF [simp]: "CR \<noteq> LF" "LF \<noteq> CR" "CR \<noteq> 0" "LF \<noteq> 0"
  by (simp_all add: CR_def LF_def)

lemma ends_message_iff:
  assumes "bs \<noteq> []" "before \<noteq> CR"
  shows "ends_message before bs \<longleftrightarrow> ends_crlf bs"
proof (cases bs rule: rev_cases)
  case (snoc xs y)
  then show ?thesis
  proof (cases xs rule: rev_cases)
    case Nil
    then show ?thesis using snoc assms(2) by (auto simp: ends_message_def ends_crlf_def)
  next
    case (snoc ys x)
    then show ?thesis using \<open>bs = xs @ [y]\<close> by (auto simp: ends_message_def ends_crlf_def nth_append)
  qed
qed (use assms(1) in simp)

lemma repl_message_prefix:
  assumes "\<forall>t \<in> set ts. CR \<notin> set t" "repl_message ts = p @ q" "ends_crlf p"
  shows "\<exists>us vs. ts = us @ vs \<and> p = repl_message us \<and> q = repl_message vs \<and> us \<noteq> []"
  using assms
proof (induction ts arbitrary: p)
  case Nil
  then show ?case by (simp add: ends_crlf_def)
next
  case (Cons t ts)
  obtain p' where p': "p = p' @ [CR, LF]" using Cons.prems(3) by (auto simp: ends_crlf_def)
  have eq: "t @ [CR, LF] @ repl_message ts = p' @ [CR, LF] @ q" using Cons.prems(2) p' by simp
  obtain w where w: "t @ [CR, LF] @ w = p \<and> w @ q = repl_message ts"
  proof -
    consider w where "p' = t @ w" "[CR, LF] @ repl_message ts = w @ [CR, LF] @ q"
      | w where "t = p' @ w" "w @ [CR, LF] @ repl_message ts = [CR, LF] @ q"
      using eq by (auto simp: append_eq_append_conv2)
    then show ?thesis
    proof cases
      case (1 w)
      then show ?thesis using that [of "drop 2 (w @ [CR, LF])"] p' by (cases w rule: remdups_adj.cases) auto
    next
      case (2 w)
      then show ?thesis using that [of "[]"] Cons.prems(1) p' by (cases w) auto
    qed
  qed
  show ?case
  proof (cases "w = []")
    case True
    then show ?thesis using w by (intro exI [of _ "[t]"] exI [of _ ts]) auto
  next
    case False
    then obtain x y where "w = x @ [y]" by (cases w rule: rev_cases) auto
    then have "ends_crlf w" using w p' by (cases x rule: rev_cases) (auto simp: ends_crlf_def)
    then obtain us vs where "ts = us @ vs" "w = repl_message us" "q = repl_message vs"
      using Cons.IH [of w] Cons.prems(1) w by auto
    then show ?thesis using w by (intro exI [of _ "t # us"] exI [of _ vs]) auto
  qed
qed

lemma repl_message_last: "ts \<noteq> [] \<Longrightarrow> ends_crlf (repl_message ts)"
  by (induction ts rule: rev_induct) (auto simp: repl_message_def ends_crlf_def)

lemma repl_message_clean: "\<forall>t \<in> set ts. 0 \<notin> set t \<Longrightarrow> 0 \<notin> set (repl_message ts)"
  by (induction ts) auto

lemma received_text_clean: "0 \<notin> set s \<Longrightarrow> received_text s = s"
  unfolding received_text_def by (rule takeWhile_eq_all_conv [THEN iffD2]) auto

text \<open>One reading takes chunks up to the first that ends a line.\<close>

lemma read_client_lines:
  assumes "\<forall>t \<in> set ts. CR \<notin> set t \<and> 0 \<notin> set t" "ts \<noteq> []" "\<forall>i. before i \<noteq> CR"
    "s @ concat bs = repl_message ts" "\<forall>b \<in> set bs. b \<noteq> []" "uncut bs" "bs \<noteq> []"
    "s = [] \<or> \<not> (last s = CR \<and> hd (hd bs) = LF)" "j + length bs \<le> 10242"
  shows "\<exists>us vs cs. ts = us @ vs \<and> us \<noteq> [] \<and> concat cs = repl_message vs \<and> uncut cs \<and> set cs \<subseteq> set bs \<and> length cs < length bs \<and>
    read_client before j s (map Bytes bs @ rs) = Some (Received (repl_message us) [], map Bytes cs @ rs)"
  using assms(4-)
proof (induction bs arbitrary: s j)
  case (Cons b bs)
  have "0 \<notin> set (repl_message ts)" using assms(1) by (intro repl_message_clean) simp
  then have "0 \<notin> set (s @ concat (b # bs))" using Cons.prems(1) by simp
  then have b0: "received_text b = b" by (intro received_text_clean) simp
  have bne: "b \<noteq> []" using Cons.prems(2) by simp
  show ?case
  proof (cases "ends_crlf b")
    case True
    then have "ends_crlf (s @ b)" by (auto simp: ends_crlf_def)
    moreover have "\<forall>t \<in> set ts. CR \<notin> set t" "repl_message ts = (s @ b) @ concat bs" using assms(1) Cons.prems(1) by simp_all
    ultimately obtain us vs where "ts = us @ vs" "s @ b = repl_message us" "concat bs = repl_message vs" "us \<noteq> []"
      using repl_message_prefix by blast
    moreover have "uncut bs" using Cons.prems(3) by (cases bs) simp_all
    ultimately show ?thesis using True b0 ends_message_iff [OF bne assms(3) [rule_format]]
      by (intro exI [of _ us] exI [of _ vs] exI [of _ bs]) auto
  next
    case False
    have ne: "bs \<noteq> []"
    proof
      assume "bs = []"
      then have "ends_crlf (s @ b)" using repl_message_last [OF assms(2)] Cons.prems(1) by simp
      then obtain u where u: "s @ b = u @ [CR, LF]" by (auto simp: ends_crlf_def)
      obtain x y where xy: "b = x @ [y]" using bne by (cases b rule: rev_cases) auto
      then have y: "y = LF" "s @ x = u @ [CR]" using u by simp_all
      then have "x = []" using False xy by (cases x rule: rev_cases) (auto simp: ends_crlf_def)
      then show False using y xy Cons.prems(5) by auto
    qed
    have "uncut bs" "\<not> (last (s @ b) = CR \<and> hd (hd bs) = LF)" using Cons.prems(3) ne bne by (cases bs; simp)+
    then obtain us vs cs where r: "ts = us @ vs \<and> us \<noteq> [] \<and> concat cs = repl_message vs \<and> uncut cs \<and> set cs \<subseteq> set bs \<and>
        length cs < length bs \<and> read_client before (j + 1) (s @ b) (map Bytes bs @ rs) = Some (Received (repl_message us) [], map Bytes cs @ rs)"
      using Cons.IH [of "s @ b" "j + 1"] Cons.prems ne by auto
    have "j \<le> 10240" using Cons.prems(6) ne by (cases bs) simp_all
    then have "read_client before j s (map Bytes (b # bs) @ rs) = read_client before (j + 1) (s @ b) (map Bytes bs @ rs)"
      using False b0 ends_message_iff [OF bne assms(3) [rule_format]] by simp
    then show ?thesis using r by (intro exI [of _ us] exI [of _ vs] exI [of _ cs]) auto
  qed
qed simp

section \<open>What the server queues\<close>

text \<open>Turns with the same sockets ready, for as long as there is something to read.\<close>

primrec turns :: "nat \<Rightarrow> syscalls \<Rightarrow> 64 word \<Rightarrow> int \<Rightarrow> server \<Rightarrow> (server \<times> syscalls) option" where
  "turns 0 io max_duration listen sv = Some (sv, io)"
| "turns (Suc n) io max_duration listen sv =
     (case server_turn io max_duration listen sv of
        None \<Rightarrow> None
      | Some (sv1, recv) \<Rightarrow> turns n (io\<lparr>sc_recv := recv\<rparr>) max_duration listen sv1)"

definition repl_task :: "syscalls \<Rightarrow> 64 word \<Rightarrow> int \<Rightarrow> byte list \<Rightarrow> scheme_task" where
  "repl_task io max_duration sock s =
     \<lparr>st_time = sc_now io, st_max_duration = max_duration, st_label = dec_int sock, st_body = REPL s\<rparr>"

lemma fold_create: "fold (\<lambda>s q. createSchemeTask t m l (f s) q) ss q =
  q @ map (\<lambda>s. \<lparr>st_time = t, st_max_duration = m, st_label = l, st_body = f s\<rparr>) ss"
  by (induction ss arbitrary: q) (simp_all add: createSchemeTask_def)

lemma queue_message:
  assumes "\<forall>t \<in> set ts. CR \<notin> set t" "ts \<noteq> []"
  shows "queue_lines io m sock (repl_message ts) q = q @ map (\<lambda>t. repl_task io m sock (t @ [CR])) ts"
proof -
  have "ends_crlf (repl_message ts)" by (rule repl_message_last [OF assms(2)])
  then have "repl_message ts \<noteq> ascii ''#break#''"
    by (auto simp: ends_crlf_def ascii_def chr_def LF_def dest: arg_cong [where f = last])
  then show ?thesis using split_message [OF assms(1)] by (simp add: queue_lines_def fold_create repl_task_def comp_def)
qed

text \<open>A turn in which one client is ready.\<close>

definition only_ready :: "syscalls \<Rightarrow> server \<Rightarrow> int \<Rightarrow> int \<Rightarrow> bool" where
  "only_ready io sv listen sock \<longleftrightarrow> sc_select_ok io \<and> sc_ready io = {sock} \<and> sock \<noteq> listen \<and> sock \<in> sv_read sv \<and>
     sock < sv_num sv \<and> sock \<in> set (sv_clients sv) \<and> distinct (sv_clients sv)"

lemma serve_nobody: "sock \<notin> set socks \<Longrightarrow> serve_clients io m (\<lambda>fd. fd = sock) socks sv = Some (sv, sc_recv io)"
  by (induction socks) auto

lemma serve_one:
  assumes "distinct socks" "sock \<in> set socks" "read_client (sc_before io) 0 (sv_in sv sock) (sc_recv io sock) = Some (Received e s, rest)"
  shows "serve_clients io m (\<lambda>fd. fd = sock) socks sv =
    Some (sv\<lparr>sv_in := (sv_in sv)(sock := s), sv_queue := queue_lines io m sock e (sv_queue sv)\<rparr>, (sc_recv io)(sock := rest))"
  using assms(1,2)
proof (induction socks)
  case (Cons a socks)
  then show ?case using assms(3) by (cases "a = sock") (auto simp: serve_nobody fun_upd_def)
qed simp

lemma server_turn_one:
  assumes "only_ready io sv listen sock" "read_client (sc_before io) 0 (sv_in sv sock) (sc_recv io sock) = Some (Received e s, rest)"
  shows "server_turn io m listen sv =
    Some (sv\<lparr>sv_in := (sv_in sv)(sock := s), sv_queue := queue_lines io m sock e (sv_queue sv)\<rparr>, (sc_recv io)(sock := rest))"
proof -
  have "is_set io sv = (\<lambda>fd. fd = sock)" using assms(1) by (auto simp: only_ready_def is_set_def)
  then show ?thesis using assms serve_one [OF _ _ assms(2)] by (simp add: server_turn_def only_ready_def)
qed

text \<open>C16: What a client sends is queued line by line, in order, for every way to cut the stream into at most 10242 chunks (after more without
  a line end the server drops the text as too large) in which no cut separates the CR from the LF of a line end: each line, with its CR,
  becomes one task labelled with the client's socket. The lines have no CR and no byte 0, nothing is left over from before, the byte in
  front of the receive buffer, which the server reads after a chunk of one byte, is no CR, and this client is the only socket that is
  ready in these turns.
\<close>

theorem lines_queued_in_order:
  assumes "only_ready io sv listen sock" "sv_in sv sock = []" "\<forall>i. sc_before io i \<noteq> CR"
    "sc_recv io sock = map Bytes bs" "concat bs = repl_message ts" "\<forall>b \<in> set bs. b \<noteq> []" "uncut bs" "length bs \<le> 10242"
    "\<forall>t \<in> set ts. CR \<notin> set t \<and> 0 \<notin> set t"
  shows "\<exists>n sv' io'. turns n io m listen sv = Some (sv', io') \<and> n \<le> length bs \<and> sc_recv io' sock = [] \<and>
    sv_queue sv' = sv_queue sv @ map (\<lambda>t. repl_task io m sock (t @ [CR])) ts \<and> sv_clients sv' = sv_clients sv"
  using assms
proof (induction bs arbitrary: io sv ts rule: length_induct)
  case (1 bs)
  show ?case
  proof (cases "ts = []")
    case True
    then have "bs = []" using "1.prems"(5,6) by (cases bs) auto
    then show ?thesis using True "1.prems"(4) by (intro exI [of _ 0]) simp
  next
    case False
    then have "bs \<noteq> []" using "1.prems"(5) by (auto dest: repl_message_last simp: ends_crlf_def)
    then obtain us vs cs where r: "ts = us @ vs" "us \<noteq> []" "concat cs = repl_message vs" "uncut cs" "set cs \<subseteq> set bs"
      "length cs < length bs" "read_client (sc_before io) 0 [] (map Bytes bs @ []) = Some (Received (repl_message us) [], map Bytes cs @ [])"
      using read_client_lines [of ts "sc_before io" "[]" bs 0 "[]"] False "1.prems" by auto
    let ?sv = "sv\<lparr>sv_in := (sv_in sv)(sock := []), sv_queue := sv_queue sv @ map (\<lambda>t. repl_task io m sock (t @ [CR])) us\<rparr>"
    let ?io = "io\<lparr>sc_recv := (sc_recv io)(sock := map Bytes cs)\<rparr>"
    have t: "server_turn io m listen sv = Some (?sv, (sc_recv io)(sock := map Bytes cs))"
      using server_turn_one [OF "1.prems"(1)] queue_message [of us] r "1.prems"(2,4,9) by simp
    have "repl_task ?io = repl_task io" by (simp add: repl_task_def fun_eq_iff)
    moreover have "only_ready ?io ?sv listen sock" using "1.prems"(1) by (simp add: only_ready_def is_set_def)
    moreover have "\<forall>b \<in> set cs. b \<noteq> []" "length cs \<le> 10242" using r(5,6) "1.prems"(6,8) by auto
    moreover have "\<forall>t \<in> set vs. CR \<notin> set t \<and> 0 \<notin> set t" using "1.prems"(9) r(1) by simp
    ultimately obtain n sv' io' where n: "turns n ?io m listen ?sv = Some (sv', io')" "n \<le> length cs" "sc_recv io' sock = []"
      "sv_queue sv' = sv_queue ?sv @ map (\<lambda>t. repl_task io m sock (t @ [CR])) vs" "sv_clients sv' = sv_clients ?sv"
      using "1.IH" [rule_format, OF r(6), of ?io ?sv vs] r(3,4) "1.prems"(3) by auto
    then show ?thesis using t r(1,6) by (intro exI [of _ "Suc n"]) auto
  qed
qed

section \<open>From the client to the queue\<close>

lemma pieces_short: "length b \<le> BUFLEN \<Longrightarrow> pieces b = [b]"
  by (subst pieces.simps) simp

lemma pieces_long: "BUFLEN < length b \<Longrightarrow> pieces b = take BUFLEN b # pieces (drop BUFLEN b)"
  by (subst pieces.simps) (simp add: Let_def)

lemma pieces_all: "concat (pieces b) = b \<and> (b \<noteq> [] \<longrightarrow> (\<forall>p \<in> set (pieces b). p \<noteq> [])) \<and>
    (length (pieces b) - 1) * BUFLEN \<le> length b \<and> pieces b \<noteq> [] \<and> hd (pieces b) = take BUFLEN b"
proof (induction b rule: pieces.induct)
  case (1 b)
  show ?case
  proof (cases "BUFLEN < length b")
    case True
    have "0 < BUFLEN" by (simp add: BUFLEN_def)
    then have b: "take BUFLEN b \<noteq> []" "drop BUFLEN b \<noteq> []" using True by auto
    have ih: "concat (pieces (drop BUFLEN b)) = drop BUFLEN b" "\<forall>p \<in> set (pieces (drop BUFLEN b)). p \<noteq> []"
      "(length (pieces (drop BUFLEN b)) - 1) * BUFLEN \<le> length b - BUFLEN" "pieces (drop BUFLEN b) \<noteq> []"
      using "1.IH" [OF refl] True b by auto
    have "length (pieces (drop BUFLEN b)) * BUFLEN \<le> length b"
      using ih(3,4) True by (cases "length (pieces (drop BUFLEN b))") auto
    then show ?thesis using ih b by (simp add: pieces_long [OF True])
  next
    case False
    then show ?thesis by (simp add: pieces_short)
  qed
qed

lemma pieces_length:
  assumes "length b \<le> 10000001"
  shows "length (pieces b) \<le> 10000"
proof -
  have "(length (pieces b) - 1) * 1024 \<le> length b" using pieces_all [of b] by (simp add: BUFLEN_def)
  then show ?thesis using assms by linarith
qed

lemma pieces_uncut:
  assumes "CR \<notin> set s" "Suc (length s) mod BUFLEN \<noteq> 0"
  shows "uncut (pieces (s @ [CR, LF]))"
  using assms
proof (induction "s" rule: measure_induct_rule [of length])
  case (less s)
  let ?b = "s @ [CR, LF]"
  show ?case
  proof (cases "BUFLEN < length ?b")
    case True
    have "length s \<noteq> BUFLEN - 1" using less.prems(2) by (auto simp: BUFLEN_def)
    then have l: "BUFLEN \<le> length s" using True by (simp add: BUFLEN_def)
    have "Suc (length (drop BUFLEN s)) mod BUFLEN \<noteq> 0"
      using less.prems(2) l mod_add_self2 [of "Suc (length s) - BUFLEN" BUFLEN] by (simp add: Suc_diff_le)
    moreover have "CR \<notin> set (drop BUFLEN s)" using less.prems(1) by (meson in_set_dropD)
    ultimately have u: "uncut (pieces (drop BUFLEN s @ [CR, LF]))" using less.IH [of "drop BUFLEN s"] l by (simp add: BUFLEN_def)
    have "take BUFLEN s \<noteq> []" using l by (auto simp: BUFLEN_def)
    then have "last (take BUFLEN s) \<in> set s" by (meson last_in_set in_set_takeD)
    then have "last (take BUFLEN s) \<noteq> CR" using less.prems(1) by auto
    then show ?thesis using u l by (cases "pieces (drop BUFLEN s @ [CR, LF])") (simp_all add: pieces_long [OF True])
  next
    case False
    then show ?thesis by (simp add: pieces_short)
  qed
qed

lemma pieces_cut:
  assumes "Suc (length s) mod BUFLEN = 0"
  shows "pieces (s @ [c, d]) = pieces (s @ [c]) @ [[d]]"
  using assms
proof (induction "s" rule: measure_induct_rule [of length])
  case (less s)
  show ?case
  proof (cases "Suc (length s) = BUFLEN")
    case True
    then show ?thesis using pieces_long [of "s @ [c, d]"] pieces_short [of "[d]"] pieces_short [of "s @ [c]"]
      by (simp add: BUFLEN_def)
  next
    case False
    then have l: "BUFLEN \<le> length s" using less.prems dvd_imp_le [of BUFLEN "Suc (length s)"] by (auto simp: mod_eq_0_iff_dvd)
    have "Suc (length (drop BUFLEN s)) mod BUFLEN = 0"
      using less.prems l mod_add_self2 [of "Suc (length s) - BUFLEN" BUFLEN] by (simp add: Suc_diff_le)
    then show ?thesis using less.IH [of "drop BUFLEN s"] l pieces_long [of "s @ [c, d]"] pieces_long [of "s @ [c]"]
      by (simp add: BUFLEN_def)
  qed
qed

lemma read_client_skip:
  assumes "\<forall>b \<in> set bs. 0 \<notin> set b \<and> (\<forall>i. \<not> ends_message (before i) b)" "j + length bs \<le> 10241"
  shows "read_client before j s (map Bytes bs @ rs) = read_client before (j + length bs) (s @ concat bs) rs"
  using assms
proof (induction bs arbitrary: j s)
  case (Cons b bs)
  then have "read_client before j s (map Bytes (b # bs) @ rs) = read_client before (j + 1) (s @ b) (map Bytes bs @ rs)"
    by (simp add: received_text_clean)
  also have "\<dots> = read_client before (j + 1 + length bs) ((s @ b) @ concat bs) rs"
    by (rule Cons.IH) (use Cons.prems in simp_all)
  finally show ?case by simp
qed simp

text \<open>A text the client sends, when each piece arrives as it was written, becomes one task with the text and its CR, unless its length is 1023 modulo 1024.
\<close>

theorem repl_text_queued:
  assumes "only_ready io sv listen sock" "sv_in sv sock = []" "\<forall>i. sc_before io i \<noteq> CR" "CR \<notin> set s" "0 \<notin> set s"
    "sc_recv io sock = map Bytes (writeString length s)" "length s < 10000000" "length s mod 1024 \<noteq> 1023"
  shows "\<exists>sv' io'. turns 1 io m listen sv = Some (sv', io') \<and> sc_recv io' sock = [] \<and>
    sv_queue sv' = sv_queue sv @ [repl_task io m sock (s @ [CR])]"
proof -
  let ?bs = "pieces (s @ [CR, LF])"
  have w: "writeString length s = ?bs" by (simp add: writeString_def)
  have m: "Suc (length s) mod BUFLEN \<noteq> 0" using assms(8) by (simp add: BUFLEN_def mod_Suc)
  have len: "length ?bs \<le> 10242" using pieces_length [of "s @ [CR, LF]"] assms(7) by simp
  obtain us vs cs where r: "[s] = us @ vs" "us \<noteq> []" "concat cs = repl_message vs" "\<forall>b \<in> set cs. b \<noteq> []"
    "read_client (sc_before io) 0 [] (map Bytes ?bs @ []) = Some (Received (repl_message us) [], map Bytes cs @ [])"
    using read_client_lines [of "[s]" "sc_before io" "[]" ?bs 0 "[]"] assms(3-5) pieces_uncut [OF assms(4) m]
      pieces_all [of "s @ [CR, LF]"] len by (auto simp: subset_iff)
  have us: "us = [s]" "vs = []" using r(1,2) by (cases us; simp)+
  then have cs: "cs = []" using r(3,4) by (cases cs) auto
  have "server_turn io m listen sv = Some (sv\<lparr>sv_in := (sv_in sv)(sock := []), sv_queue := sv_queue sv @ [repl_task io m sock (s @ [CR])]\<rparr>,
      (sc_recv io)(sock := []))"
    using server_turn_one [OF assms(1)] queue_message [of us] r(5) us cs assms(2,4,6) w by simp
  then show ?thesis by simp
qed

text \<open>The pieces of a line: only the last ends it. When its length is 1023 modulo 1024, none does.\<close>

lemma pieces_line:
  assumes "CR \<notin> set s" "Suc (length s) mod BUFLEN \<noteq> 0"
  shows "\<exists>ps p. pieces (s @ [CR, LF]) = ps @ [p @ [CR, LF]] \<and> concat ps @ p = s"
  using assms
proof (induction s rule: measure_induct_rule [of length])
  case (less s)
  show ?case
  proof (cases "BUFLEN < length (s @ [CR, LF])")
    case True
    have "length s \<noteq> BUFLEN - 1" using less.prems(2) by (auto simp: BUFLEN_def)
    then have l: "BUFLEN \<le> length s" using True by (simp add: BUFLEN_def)
    have "Suc (length (drop BUFLEN s)) mod BUFLEN \<noteq> 0"
      using less.prems(2) l mod_add_self2 [of "Suc (length s) - BUFLEN" BUFLEN] by (simp add: Suc_diff_le)
    moreover have "CR \<notin> set (drop BUFLEN s)" using less.prems(1) by (meson in_set_dropD)
    moreover have "0 < BUFLEN" by (simp add: BUFLEN_def)
    then have "length (drop BUFLEN s) < length s" using l by simp
    ultimately obtain ps p where "pieces (drop BUFLEN s @ [CR, LF]) = ps @ [p @ [CR, LF]]" "concat ps @ p = drop BUFLEN s"
      using less.IH [of "drop BUFLEN s"] by blast
    then show ?thesis using l pieces_long [OF True] by (intro exI [of _ "take BUFLEN s # ps"] exI [of _ p]) simp
  next
    case False
    then show ?thesis by (intro exI [of _ "[]"] exI [of _ s]) (simp add: pieces_short)
  qed
qed

lemma no_end:
  assumes "b \<noteq> []" "before \<noteq> CR" "CR \<notin> set s" "s @ [CR] = concat (xs @ b # ys)"
  shows "\<not> ends_message before b"
proof
  assume "ends_message before b"
  then obtain t where "b = t @ [CR, LF]" using ends_message_iff [OF assms(1,2)] by (auto simp: ends_crlf_def)
  then have "s @ [CR] = concat xs @ t @ CR # LF # concat ys" using assms(4) by simp
  then have "CR \<in> set s" by (auto simp: append_eq_append_conv2 append_eq_Cons_conv Cons_eq_append_conv)
  then show False using assms(3) by simp
qed

lemma held_pieces:
  assumes "\<forall>i. before i \<noteq> CR" "CR \<notin> set s" "0 \<notin> set s" "length s mod 1024 = 1023"
  shows "writeString length s = pieces (s @ [CR]) @ [[LF]]"
    "\<forall>b \<in> set (writeString length s). 0 \<notin> set b \<and> (\<forall>i. \<not> ends_message (before i) b)"
proof -
  let ?ps = "pieces (s @ [CR])"
  have "Suc (length s) mod BUFLEN = 0" using assms(4) by (simp add: BUFLEN_def mod_Suc)
  then show w: "writeString length s = ?ps @ [[LF]]" using pieces_cut [of s CR LF] by (simp add: writeString_def)
  have "0 \<notin> set b \<and> (\<forall>i. \<not> ends_message (before i) b)" if b: "b \<in> set ?ps" for b
  proof -
    have "concat ?ps = s @ [CR]" "b \<noteq> []" using b pieces_all [of "s @ [CR]"] by auto
    moreover obtain xs ys where "?ps = xs @ b # ys" using split_list [OF b] by blast
    moreover have "set b \<subseteq> set (concat ?ps)" using b by auto
    ultimately show ?thesis using no_end [of b _ s xs ys] assms(1-3) by auto
  qed
  then show "\<forall>b \<in> set (writeString length s). 0 \<notin> set b \<and> (\<forall>i. \<not> ends_message (before i) b)"
    using assms(1) unfolding w by (auto simp: ends_message_def)
qed

lemma serve_waiting:
  "sock \<in> set socks \<Longrightarrow> read_client (sc_before io) 0 (sv_in sv sock) (sc_recv io sock) = None \<Longrightarrow>
   serve_clients io m (\<lambda>fd. fd = sock) socks sv = None"
  by (induction socks) auto

text \<open>C39: A text of 1023 bytes modulo 1024 is held back: the client writes its CR as the last byte of a piece and LF as a
  piece of its own, which is not seen as the end of a message. While only this text has arrived, in these pieces, on the one
  connection that is ready, the server's turn does not end: it waits in \<open>recv\<close>. When the client then sends another text, whose length is not
  1023 modulo 1024, and its pieces arrive as they were written, the turn ends with both texts queued, the held one first. (Both without CR and
  byte 0, together shorter than ten million bytes, nothing left over from before, and no CR in front of the receive buffer.)
\<close>

theorem repl_text_held_back:
  assumes "\<forall>io \<in> {io1, io2}. only_ready io sv listen sock \<and> (\<forall>i. sc_before io i \<noteq> CR)" "sv_in sv sock = []"
    "CR \<notin> set s" "0 \<notin> set s" "CR \<notin> set t" "0 \<notin> set t" "length s + length t < 10000000"
    "length s mod 1024 = 1023" "length t mod 1024 \<noteq> 1023"
    "sc_recv io1 sock = map Bytes (writeString length s)"
    "sc_recv io2 sock = map Bytes (writeString length s) @ map Bytes (writeString length t)"
  shows "server_turn io1 m listen sv = None \<and>
    (\<exists>sv' io'. turns 1 io2 m listen sv = Some (sv', io') \<and>
       sv_queue sv' = sv_queue sv @ [repl_task io2 m sock (s @ [CR]), repl_task io2 m sock (t @ [CR])])"
proof
  have o1: "only_ready io1 sv listen sock" "\<forall>i. sc_before io1 i \<noteq> CR"
    and o2: "only_ready io2 sv listen sock" "\<forall>i. sc_before io2 i \<noteq> CR" using assms(1) by simp_all
  let ?w = "writeString length s"
  note w = held_pieces(1) [OF o1(2) assms(3,4,8)]
  have all: "concat ?w = s @ [CR, LF]" using w pieces_all [of "s @ [CR]"] by simp
  have len: "(length ?w - 2) * 1024 \<le> length s + 1" using w pieces_all [of "s @ [CR]"] by (simp add: BUFLEN_def)
  then have l: "length ?w \<le> 10241" using assms(7) by linarith
  have "read_client (sc_before io1) 0 (sv_in sv sock) (sc_recv io1 sock) = None"
    using read_client_skip [OF held_pieces(2) [OF o1(2) assms(3,4,8)], of 0 "[]" "[]"] l assms(2,10) by simp
  moreover have "is_set io1 sv = (\<lambda>fd. fd = sock)" using o1(1) by (auto simp: only_ready_def is_set_def)
  ultimately show "server_turn io1 m listen sv = None"
    using o1(1) serve_waiting by (simp add: server_turn_def only_ready_def)
  let ?v = "writeString length t"
  have "Suc (length t) mod BUFLEN \<noteq> 0" using assms(9) by (simp add: BUFLEN_def mod_Suc)
  from pieces_line [OF assms(5) this] obtain ps p where v: "?v = ps @ [p @ [CR, LF]]" and t: "concat ps @ p = t"
    by (auto simp: writeString_def)
  have "length ps * 1024 \<le> length t + 2" using v pieces_all [of "t @ [CR, LF]"] by (simp add: writeString_def BUFLEN_def)
  then have lv: "length ?w + length ps \<le> 10240" using len assms(7) by linarith
  have ps: "\<forall>b \<in> set ps. 0 \<notin> set b \<and> (\<forall>i. \<not> ends_message (sc_before io2 i) b)"
  proof
    fix b assume b: "b \<in> set ps"
    then obtain xs ys where xy: "ps = xs @ b # ys" using split_list by fast
    have "b \<noteq> []" using b v pieces_all [of "t @ [CR, LF]"] by (auto simp: writeString_def)
    moreover have "set b \<subseteq> set t" using b t by auto
    moreover have "t @ [CR] = concat (xs @ b # ys @ [p @ [CR]])" using t xy by simp
    ultimately show "0 \<notin> set b \<and> (\<forall>i. \<not> ends_message (sc_before io2 i) b)"
      using no_end [of b _ t xs "ys @ [p @ [CR]]"] o2(2) assms(5,6) by auto
  qed
  have "set p \<subseteq> set t" using t by auto
  then have "0 \<notin> set p" using assms(6) by blast
  then have p: "received_text (p @ [CR, LF]) = p @ [CR, LF]" by (intro received_text_clean) simp
  have "read_client (sc_before io2) 0 [] (map Bytes ?w @ map Bytes ?v) =
      read_client (sc_before io2) (length ?w) (s @ [CR, LF]) (map Bytes ps @ [Bytes (p @ [CR, LF])])"
    using read_client_skip [OF held_pieces(2) [OF o2(2) assms(3,4,8)], of 0 "[]"] l all v by simp
  also have "\<dots> = read_client (sc_before io2) (length ?w + length ps) (s @ CR # LF # concat ps) [Bytes (p @ [CR, LF])]"
    using read_client_skip [OF ps] lv by simp
  also have "\<dots> = Some (Received (repl_message [s, t]) [], [])"
    using p t ends_message_iff [of "p @ [CR, LF]" "sc_before io2 _"] o2(2) by (simp add: ends_crlf_def Let_def flip: t)
  finally have r: "read_client (sc_before io2) 0 (sv_in sv sock) (sc_recv io2 sock) = Some (Received (repl_message [s, t]) [], [])"
    using assms(2,11) by simp
  show "\<exists>sv' io'. turns 1 io2 m listen sv = Some (sv', io') \<and>
       sv_queue sv' = sv_queue sv @ [repl_task io2 m sock (s @ [CR]), repl_task io2 m sock (t @ [CR])]"
    using server_turn_one [OF o2(1) r] queue_message [of "[s, t]"] assms(3,5) by simp
qed

text \<open>After a connection is accepted on a lower descriptor, as after a client has gone, the clients on higher ones are not looked at any more:
  \<open>numFds\<close> is set to the new descriptor plus one.
\<close>

theorem accept_shadows_client:
  assumes "sc_select_ok io" "is_set io sv listen" "0 \<le> sc_accept io" "server_turn io m listen sv = Some (sv1, r1)"
    "c \<in> set (sv_clients sv)" "sc_accept io < c" "sc_select_ok io2" "\<not> is_set io2 sv1 listen" "server_turn io2 m listen sv1 = Some (sv2, r2)"
  shows "sv_in sv2 c = sv_in sv1 c \<and> r2 c = sc_recv io2 c \<and> c \<in> set (sv_clients sv2)"
proof -
  have sv1: "sv_num sv1 = sc_accept io + 1" "c \<in> set (sv_clients sv1)" using assms(1-5) by (auto simp: server_turn_def Let_def)
  have "\<not> is_set io2 sv1 c" using sv1(1) assms(6) by (simp add: is_set_def)
  moreover have "sv_in sv' c = sv_in sv0 c \<and> r c = sc_recv io0 c \<and> (c \<in> set (sv_clients sv0) \<longrightarrow> c \<in> set (sv_clients sv'))"
    if "\<not> ready c" "serve_clients io0 m ready socks sv0 = Some (sv', r)" for io0 ready socks sv0 sv' r
    using that
  proof (induction io0 m ready socks sv0 rule: serve_clients.induct)
    case (2 io m ready sock socks sv)
    then have "ready sock \<Longrightarrow> c \<noteq> sock" by auto
    then show ?case using 2 by (cases "ready sock") (auto split: option.splits reading.splits if_splits simp: in_set_remove1)
  qed simp
  ultimately show ?thesis using assms(7-9) sv1(2) by (auto simp: server_turn_def)
qed

section \<open>Examples\<close>

definition one_client :: server where
  "one_client = \<lparr>sv_clients = [5], sv_in = \<lambda>_. [], sv_read = {4, 5}, sv_num = 6, sv_queue = []\<rparr>"

definition calls :: "recv list \<Rightarrow> syscalls" where
  "calls rs = \<lparr>sc_select_ok = True, sc_ready = {5}, sc_bad = {}, sc_accept = -1, sc_recv = \<lambda>_. rs, sc_before = \<lambda>_. 0, sc_now = 7\<rparr>"

lemma only_one: "only_ready (calls rs) one_client 4 5"
  by (simp add: only_ready_def calls_def one_client_def)

lemma lines_queued_in_order_witness:
  "\<exists>n sv' io'. turns n (calls [Bytes [97], Bytes [98, 13, 10, 99], Bytes [13, 10]]) 1 4 one_client = Some (sv', io') \<and>
     map st_body (sv_queue sv') = [REPL [97, 98, 13], REPL [99, 13]]"
proof -
  let ?bs = "[[97], [98, 13, 10, 99], [13, 10]] :: byte list list"
  have p: "sv_in one_client 5 = []" "\<forall>i. sc_before (calls (map Bytes ?bs)) i \<noteq> CR" "sc_recv (calls (map Bytes ?bs)) 5 = map Bytes ?bs"
    "concat ?bs = repl_message [[97, 98], [99]]" "\<forall>b \<in> set ?bs. b \<noteq> []" "uncut ?bs" "length ?bs \<le> 10242"
    "\<forall>t \<in> set [[97, 98], [99]]. CR \<notin> set t \<and> 0 \<notin> set t"
    by (simp_all add: one_client_def calls_def CR_def LF_def)
  obtain n sv' io' where "turns n (calls (map Bytes ?bs)) 1 4 one_client = Some (sv', io')"
    "sv_queue sv' = sv_queue one_client @ map (\<lambda>t. repl_task (calls (map Bytes ?bs)) 1 5 (t @ [CR])) [[97, 98], [99]]"
    using lines_queued_in_order [OF only_one p, of 1] by blast
  moreover from this(2) have "map st_body (sv_queue sv') = [REPL [97, 98, 13], REPL [99, 13]]"
    by (simp add: one_client_def repl_task_def CR_def)
  ultimately show ?thesis unfolding list.map by (intro exI conjI)
qed

lemma repl_text_held_back_witness:
  "server_turn (calls (map Bytes (writeString length (replicate 1023 97)))) 1 4 one_client = None \<and>
    (\<exists>sv' io'. turns 1 (calls (map Bytes (writeString length (replicate 1023 97)) @ map Bytes (writeString length [98]))) 1 4 one_client = Some (sv', io') \<and>
       map st_body (sv_queue sv') = [REPL (replicate 1023 97 @ [CR]), REPL [98, CR]])"
proof -
  define s :: "byte list" where "s = replicate 1023 97"
  have s: "length s = 1023" "CR \<notin> set s" "0 \<notin> set s" by (simp_all only: s_def length_replicate) (simp_all add: CR_def)
  let ?a = "calls (map Bytes (writeString length s))" and ?b = "calls (map Bytes (writeString length s) @ map Bytes (writeString length [98]))"
  have "\<forall>io \<in> {?a, ?b}. only_ready io one_client 4 5 \<and> (\<forall>i. sc_before io i \<noteq> CR)" using only_one by (simp add: calls_def CR_def)
  from repl_text_held_back [OF this _ s(2,3), of "[98]" 1] s(1) obtain sv' io' where "server_turn ?a 1 4 one_client = None"
    "turns 1 ?b 1 4 one_client = Some (sv', io')" "sv_queue sv' = [repl_task ?b 1 5 (s @ [CR]), repl_task ?b 1 5 [98, CR]]"
    by (auto simp: one_client_def calls_def CR_def)
  then show ?thesis unfolding s_def [symmetric] by (simp add: repl_task_def)
qed

lemma accept_shadows_client_witness:
  "\<exists>sv1 sv2. server_turn ((calls [])\<lparr>sc_ready := {4}, sc_accept := 3\<rparr>) 1 4 one_client = Some (sv1, \<lambda>_. []) \<and>
     server_turn (calls [Bytes [97, 13, 10]]) 1 4 sv1 = Some (sv2, \<lambda>_. [Bytes [97, 13, 10]]) \<and> sv_in sv2 5 = [] \<and> 5 \<in> set (sv_clients sv2)"
proof -
  let ?io = "(calls [])\<lparr>sc_ready := {4}, sc_accept := 3\<rparr>" and ?io2 = "calls [Bytes [97, 13, 10]]"
  let ?sv = "\<lparr>sv_clients = [5, 3], sv_in = \<lambda>_. [], sv_read = {3, 4, 5}, sv_num = 4, sv_queue = []\<rparr>"
  have t: "server_turn ?io 1 4 one_client = Some (?sv, \<lambda>_. [])" "server_turn ?io2 1 4 ?sv = Some (?sv, \<lambda>_. [Bytes [97, 13, 10]])"
    by (auto simp: server_turn_def calls_def one_client_def is_set_def fun_eq_iff)
  then show ?thesis
    using accept_shadows_client [OF _ _ _ t(1) _ _ _ _ t(2), of 5] by (auto simp: calls_def one_client_def is_set_def)
qed

end
