(* ===== verification/Scheme_Process.thy ===== *)
theory Scheme_Process
  imports Scheme_Load Repl_Server
begin

text \<open>
  The task thread of a Scheme process (src/src/SchemeProcess.cpp): the prompt, the tasks it takes from the queue, what each of them does with the
  interpreter and where the answer goes, and the life of the objects that hold a callback.
\<close>

section \<open>The prompt\<close>

text \<open>\<open>UNIV::SECOND\<close>, \<open>MINUTE\<close> and \<open>HOUR\<close> are in samples, 32 bits wide; \<open>UNIV::TIME\<close> has 64.\<close>

definition SECOND :: "32 word \<Rightarrow> 32 word" where "SECOND rate = rate"
definition MINUTE :: "32 word \<Rightarrow> 32 word" where "MINUTE rate = rate * 60"
definition HOUR :: "32 word \<Rightarrow> 32 word" where "HOUR rate = MINUTE rate * 60"

text \<open>\<open>%.2u\<close>, and the three numbers, cut to 32 bits; a division by zero has no result.\<close>

definition padded2 :: "64 word \<Rightarrow> byte list" where
  "padded2 n = pad_left 2 (dec_nat (unat (ucast n :: 32 word)))"

definition clock_text :: "32 word \<Rightarrow> 64 word \<Rightarrow> byte list option" where
  "clock_text rate time =
     (let hour = ucast (HOUR rate); minute = ucast (MINUTE rate); second = ucast (SECOND rate) in
      if hour = 0 \<or> minute = 0 \<or> second = 0 then None
      else
        (let hours = time div hour; time1 = time - hours * hour; minutes = time1 div minute;
             time2 = time1 - minutes * minute; seconds = time2 div second
         in Some (ascii ''[extempore '' @ padded2 hours @ 58 # padded2 minutes @ 58 # padded2 seconds @ ascii '']: '')))"

text \<open>\<open>sprintf\<close> into an array of \<open>n\<close> characters: undefined when the text and its zero do not fit.\<close>

definition fits :: "nat \<Rightarrow> byte list \<Rightarrow> byte list option" where
  "fits n s = (if length s < n then Some s else None)"

definition reply_prompt :: "32 word \<Rightarrow> 64 word \<Rightarrow> byte list option" where
  "reply_prompt rate time = do { s \<leftarrow> clock_text rate time; fits 24 (10 # s) }"

text \<open>What \<open>serverImpl\<close> sends to a client it has accepted; \<open>sm_banner\<close> is a text.\<close>

definition greeting :: "byte list \<Rightarrow> bool \<Rightarrow> 32 word \<Rightarrow> 64 word \<Rightarrow> byte list option" where
  "greeting sm_banner banner rate time =
     do { s \<leftarrow> (if banner then do { s \<leftarrow> clock_text rate time; t \<leftarrow> fits 23 s; Some (sm_banner @ t) } else Some (ascii ''Welcome to extempore!''));
          Some (s @ [0]) }"

section \<open>The process\<close>

text \<open>
  \<open>pr_objs\<close> are the \<open>SchemeObj\<close>s, a value and an environment, of the tasks that wait in the scheduler;
  \<open>pr_imp_env\<close> is the interpreter's set of further roots. \<open>pr_out\<close> is the buffer \<open>m_schemeOutportString\<close>,
  \<open>pr_sent\<close> what has been sent to the sockets and \<open>pr_errors\<close> what was printed about bad tasks.
\<close>

record process =
  pr_scheme :: scheme
  pr_imp_env :: "addr set"
  pr_queue :: "scheme_task list"
  pr_objs :: "(addr \<times> addr) list"
  pr_banner :: bool
  pr_out :: nat
  pr_max_duration :: "64 word"
  pr_sent :: "(int \<times> byte list) list"
  pr_errors :: "byte list list"

text \<open>\<open>resetOutportString\<close>. The current position is set in whatever port is the output port now: only when it is the process's own string does that make sense.\<close>

definition OUTPORT_LENGTH :: nat where "OUTPORT_LENGTH = 256"

definition resetOutportString :: "process \<Rightarrow> process option" where
  "resetOutportString p =
     do { let h = heap (pr_scheme p);
          i \<leftarrow> port_of h (h_outport h);
          (case p_rep (h_port h i) of
             Str b _ past_the_end \<Rightarrow>
               if b = pr_out p then
                 Some (p\<lparr>pr_scheme := (pr_scheme p)\<lparr>heap := put_buf (set_rep h i (Str b 0 past_the_end)) b (replicate OUTPORT_LENGTH 0)\<rparr>\<rparr>)
               else None
           | _ \<Rightarrow> None) }"

definition settle :: "int \<Rightarrow> process \<Rightarrow> process option" where
  "settle code p = (if code \<noteq> 0 then resetOutportString p else Some p)"

definition load_task :: "globals \<Rightarrow> byte list \<Rightarrow> process \<Rightarrow> (int \<times> process) option" where
  "load_task K s p = do { (code, sc) \<leftarrow> scheme_load_string K s (pr_scheme p); Some (code, p\<lparr>pr_scheme := sc\<rparr>) }"

section \<open>Texts\<close>

definition local_string :: "globals \<Rightarrow> byte list \<Rightarrow> process \<Rightarrow> process option" where
  "local_string K evalString p =
     (if length evalString > 2 then do { (code, p1) \<leftarrow> load_task K evalString p; settle code p1 } else Some p)"

definition TERMINATION_CHAR :: byte where "TERMINATION_CHAR = 23"

definition answer :: "globals \<Rightarrow> 32 word \<Rightarrow> 64 word \<Rightarrow> process \<Rightarrow> byte list option" where
  "answer K rate now p =
     do { s \<leftarrow> (if pr_banner p then reply_prompt rate now else Some []);
          v \<leftarrow> printSchemeCell (k_pointer K) (heap (pr_scheme p)) False True (r_value (pr_scheme p));
          Some (s @ v) }"

definition repl_string :: "globals \<Rightarrow> 32 word \<Rightarrow> 64 word \<Rightarrow> byte list \<Rightarrow> byte list \<Rightarrow> process \<Rightarrow> process option" where
  "repl_string K rate now label evalString p =
     do { returnSocket \<leftarrow> atoll label;
          if length evalString > 1 then
            do { let write_reply = take 4 evalString \<noteq> ascii ''(ipc'';
                 let s = (if last evalString = TERMINATION_CHAR then butlast evalString else evalString);
                 (code, p1) \<leftarrow> load_task K s p;
                 if code \<noteq> 0 then resetOutportString p1
                 else do { res \<leftarrow> answer K rate now p1;
                           Some (if write_reply then p1\<lparr>pr_sent := pr_sent p1 @ [(returnSocket, res @ [0])]\<rparr> else p1) } }
          else Some p }"

section \<open>Callbacks\<close>

text \<open>\<open>SchemeObj\<close>: its environment becomes a root, and when it is deleted a task is queued that takes the root away.\<close>

definition new_obj :: "addr \<Rightarrow> addr \<Rightarrow> process \<Rightarrow> process" where
  "new_obj value env p = p\<lparr>pr_imp_env := insert env (pr_imp_env p), pr_objs := pr_objs p @ [(value, env)]\<rparr>"

definition delete_obj :: "64 word \<Rightarrow> addr \<Rightarrow> process \<Rightarrow> process" where
  "delete_obj now env p =
     p\<lparr>pr_queue := createSchemeTask now (pr_max_duration p) (ascii ''destroy SchemeObj'') (DESTROY_ENV env) (pr_queue p)\<rparr>"

text \<open>\<open>addCallback\<close>: the scheduler hands the task over at its time.\<close>

definition addCallback :: "64 word \<Rightarrow> 64 word \<Rightarrow> addr \<times> addr \<Rightarrow> process \<Rightarrow> process" where
  "addCallback start duration obj p =
     p\<lparr>pr_objs := remove1 obj (pr_objs p),
       pr_queue := createSchemeTask start duration (ascii ''tmp_label'') (SCHEME_CALLBACK (fst obj) (snd obj)) (pr_queue p)\<rparr>"

datatype ran = Running process | Died

text \<open>Calling a procedure; an exception that \<open>scheme_call\<close> does not catch ends the program.\<close>

definition call_task :: "globals \<Rightarrow> addr \<Rightarrow> addr \<Rightarrow> process \<Rightarrow> ran option" where
  "call_task K func args p =
     do { r \<leftarrow> scheme_call K func args (pr_scheme p);
          (case r of
             Terminated \<Rightarrow> Some Died
           | Returned code sc \<Rightarrow> do { p1 \<leftarrow> settle code (p\<lparr>pr_scheme := sc\<rparr>); Some (Running p1) }) }"

definition then_delete :: "64 word \<Rightarrow> addr \<Rightarrow> ran \<Rightarrow> ran" where
  "then_delete now env r = (case r of Running p \<Rightarrow> Running (delete_obj now env p) | Died \<Rightarrow> Died)"

definition bad_closure :: "globals \<Rightarrow> string \<Rightarrow> addr \<Rightarrow> process \<Rightarrow> ran option" where
  "bad_closure K s x p =
     do { t \<leftarrow> printSchemeCell (k_pointer K) (heap (pr_scheme p)) False True x;
          Some (Running (p\<lparr>pr_errors := pr_errors p @ [ascii s @ t]\<rparr>)) }"

definition scheme_callback :: "globals \<Rightarrow> 64 word \<Rightarrow> addr \<Rightarrow> addr \<Rightarrow> process \<Rightarrow> ran option" where
  "scheme_callback K now pair env p =
     do { let h = heap (pr_scheme p);
          func \<leftarrow> car h pair; args \<leftarrow> cdr h pair;
          r \<leftarrow> (if is_closure h func \<or> is_macro h func \<or> is_continuation h func \<or> is_proc h func \<or> is_foreign h func then
                  call_task K func args p
                else bad_closure K ''Bad Closure ... '' pair p);
          Some (then_delete now env r) }"

definition callback_symbol :: "globals \<Rightarrow> 64 word \<Rightarrow> byte list \<Rightarrow> addr \<Rightarrow> process \<Rightarrow> ran option" where
  "callback_symbol K now name env p =
     do { (h, x) \<leftarrow> mk_symbol (heap (pr_scheme p)) (k_oblist K) name;
          let p1 = p\<lparr>pr_scheme := (pr_scheme p)\<lparr>heap := h\<rparr>\<rparr>;
          slot \<leftarrow> find_slot_in_env h (k_global_env K) x True;
          func \<leftarrow> cdr h slot;
          r \<leftarrow> (if is_closure h func \<or> is_continuation h func \<or> is_proc h func \<or> is_foreign h func then call_task K func NIL p1
                else bad_closure K ''Bad Closure From Symbol ... '' func p1);
          Some (then_delete now env r) }"

section \<open>The task thread\<close>

text \<open>
  One round of the inner loop of \<open>taskImpl\<close>: the first task is taken off the queue and done. What a compiled callback does to the interpreter
  is \<open>native\<close>.
\<close>

definition run_body :: "globals \<Rightarrow> (nat \<Rightarrow> scheme \<Rightarrow> scheme option) \<Rightarrow> 32 word \<Rightarrow> 64 word \<Rightarrow> scheme_task \<Rightarrow> process \<Rightarrow> ran option" where
  "run_body K native rate now t p =
     (case st_body t of
        DESTROY_ENV env \<Rightarrow> Some (Running (p\<lparr>pr_imp_env := pr_imp_env p - {env}\<rparr>))
      | LOCAL_PROCESS_STRING s \<Rightarrow> map_option Running (local_string K s p)
      | REPL s \<Rightarrow> map_option Running (repl_string K rate now (st_label t) s p)
      | SCHEME_CALLBACK pair env \<Rightarrow> scheme_callback K now pair env p
      | CALLBACK_SYMBOL name env \<Rightarrow> callback_symbol K now name env p
      | EXTEMPORE_CALLBACK f \<Rightarrow> do { sc \<leftarrow> native f (pr_scheme p); Some (Running (p\<lparr>pr_scheme := sc\<rparr>)) })"

definition run_front :: "globals \<Rightarrow> (nat \<Rightarrow> scheme \<Rightarrow> scheme option) \<Rightarrow> 32 word \<Rightarrow> 64 word \<Rightarrow> process \<Rightarrow> ran option" where
  "run_front K native rate now p =
     (case pr_queue p of [] \<Rightarrow> Some (Running p) | t # q \<Rightarrow> run_body K native rate now t (p\<lparr>pr_queue := q\<rparr>))"

end
