(* ===== verification/Process_Claims.thy ===== *)
theory Process_Claims
  imports Scheme_Process "HOL-Library.Multiset"
begin

text \<open>
  The prompt fits its array for a hundred hours, and the roots of the callbacks that wait stay roots when no two of them share an environment.
\<close>

section \<open>The prompt\<close>

lemma dec_nat_length: "length (dec_nat n) \<le> 2 \<longleftrightarrow> n < 100"
  by (subst dec_nat.simps, subst dec_nat.simps, subst dec_nat.simps) auto

lemma padded2_length: "2 \<le> length (padded2 n)" "length (padded2 n) = 2 \<longleftrightarrow> unat n mod 2 ^ 32 < 100"
proof -
  have u: "unat (ucast n :: 32 word) = unat n mod 2 ^ 32" by (simp add: unsigned_ucast_eq take_bit_eq_mod)
  have l: "length (padded2 n) = max 2 (length (dec_nat (unat n mod 2 ^ 32)))" unfolding padded2_def u pad_left_def by simp
  show "2 \<le> length (padded2 n)" "length (padded2 n) = 2 \<longleftrightarrow> unat n mod 2 ^ 32 < 100"
    using l dec_nat_length [of "unat n mod 2 ^ 32"] by auto
qed

lemma word_rest: "(x :: 64 word) - x div y * y = x mod y"
  by (simp add: minus_div_mult_eq_mod)

definition hours :: "32 word \<Rightarrow> 64 word \<Rightarrow> nat" where
  "hours rate time = unat time div (unat rate * 3600) mod 2 ^ 32"

lemma clock_units:
  fixes rate :: "32 word"
  assumes "0 < unat rate" "unat rate * 3600 < 2 ^ 32"
  shows "unat (ucast (SECOND rate) :: 64 word) = unat rate" "unat (ucast (MINUTE rate) :: 64 word) = unat rate * 60"
    "unat (ucast (HOUR rate) :: 64 word) = unat rate * 3600"
proof -
  have 1: "unat (MINUTE rate) = unat rate * 60" using assms by (simp add: MINUTE_def unat_word_ariths)
  then have 2: "unat (HOUR rate) = unat rate * 3600" using assms by (simp add: HOUR_def unat_word_ariths)
  have "unat (ucast x :: 64 word) = unat x" for x :: "32 word"
    using unsigned_less [of x, where 'a = nat] by (simp add: unsigned_ucast_eq take_bit_nat_eq_self)
  then show "unat (ucast (SECOND rate) :: 64 word) = unat rate" "unat (ucast (MINUTE rate) :: 64 word) = unat rate * 60"
    "unat (ucast (HOUR rate) :: 64 word) = unat rate * 3600" using 1 2 by (simp_all add: SECOND_def)
qed

lemma clock_length:
  assumes "0 < unat rate" "unat rate * 3600 < 2 ^ 32"
  shows "\<exists>s. clock_text rate time = Some s \<and> 22 \<le> length s \<and> (length s = 22 \<longleftrightarrow> hours rate time < 100)"
proof -
  let ?h = "ucast (HOUR rate) :: 64 word" and ?m = "ucast (MINUTE rate) :: 64 word" and ?s = "ucast (SECOND rate) :: 64 word"
  note u = clock_units [OF assms]
  have nz: "?h \<noteq> 0" "?m \<noteq> 0" "?s \<noteq> 0" using u assms(1) by (metis mult_is_0 not_gr_zero unat_0 zero_neq_numeral)+
  let ?M = "(time mod ?h) div ?m" and ?S = "((time mod ?h) mod ?m) div ?s"
  have below: "i mod (60 * k) div k < 60" if "0 < k" for i k :: nat using that by (intro less_mult_imp_div_less) simp
  have M: "unat ?M < 60" using below [of "unat rate * 60" "unat time"] u assms(1) by (simp add: unat_div unat_mod mult.commute mult.left_commute)
  have S: "unat ?S < 60" using below [of "unat rate"] u assms(1) by (simp add: unat_div unat_mod mult.commute)
  have H: "unat (time div ?h) = unat time div (unat rate * 3600)" using u by (simp add: unat_div)
  have c: "clock_text rate time = Some (ascii ''[extempore '' @ padded2 (time div ?h) @ 58 # padded2 ?M @ 58 # padded2 ?S @ ascii '']: '')"
    using nz by (simp add: clock_text_def Let_def word_rest)
  show ?thesis using c padded2_length [of "time div ?h"] padded2_length [of ?M] padded2_length [of ?S] M S H
    by (auto simp: ascii_def hours_def)
qed

text \<open>both arrays for the prompt hold it exactly as long as the process has run for less than a hundred hours; from then on \<open>sprintf\<close> writes
  behind the end of the array (until the hours no longer fit 32 bits).
\<close>

theorem prompt_fits_100_hours:
  assumes "0 < unat rate" "unat rate * 3600 < 2 ^ 32"
  shows "(reply_prompt rate time \<noteq> None \<longleftrightarrow> hours rate time < 100) \<and> (greeting b True rate time \<noteq> None \<longleftrightarrow> hours rate time < 100)"
proof -
  obtain s where "clock_text rate time = Some s" "22 \<le> length s" "length s = 22 \<longleftrightarrow> hours rate time < 100" using clock_length [OF assms] by blast
  then show ?thesis by (auto simp: reply_prompt_def greeting_def fits_def)
qed

theorem prompt_fits_100_hours_witness: "reply_prompt 44100 0 \<noteq> None \<and> reply_prompt 44100 15876000000 = None"
  using prompt_fits_100_hours [of 44100 0] prompt_fits_100_hours [of 44100 15876000000] by (simp add: hours_def)

section \<open>Roots\<close>

text \<open>The environments held: by the objects that wait in the scheduler, and by tasks that will use one or take it away.\<close>

fun held_by :: "task_body \<Rightarrow> addr list" where
  "held_by (SCHEME_CALLBACK v e) = [e]"
| "held_by (CALLBACK_SYMBOL s e) = [e]"
| "held_by (DESTROY_ENV e) = [e]"
| "held_by _ = []"

definition held :: "process \<Rightarrow> addr list" where
  "held p = map snd (pr_objs p) @ concat (map (held_by \<circ> st_body) (pr_queue p))"

text \<open>
  The state of the task thread: the task it is running, if any, and the process. What happens: a callback is
  scheduled with an environment that no other one holds, be it waiting, queued or running, also
  from inside the running task (\<open>callCPPAtTime\<close>, src/src/ffi/misc.inc); a callback falls due; a task that
  holds nothing is queued; the first task is taken off the queue; and the task being run comes to
  its end, with what the interpreter did and the deletion of its object. The interpreter's own work
  touches none of the three fields that scheduling changes, so it is one step, at the end.
\<close>

definition busy :: "scheme_task option \<Rightarrow> addr list" where
  "busy b = (case b of None \<Rightarrow> [] | Some t \<Rightarrow> held_by (st_body t))"

inductive happens :: "globals \<Rightarrow> (nat \<Rightarrow> scheme \<Rightarrow> scheme option) \<Rightarrow>
    scheme_task option \<times> process \<Rightarrow> scheme_task option \<times> process \<Rightarrow> bool" for K native where
  Schedule: "e \<notin> set (busy b @ held p) \<Longrightarrow> happens K native (b, p) (b, new_obj v e p)"
| Fall_Due: "obj \<in> set (pr_objs p) \<Longrightarrow> happens K native (b, p) (b, addCallback start duration obj p)"
| Enqueue: "held_by (st_body t) = [] \<Longrightarrow> happens K native (b, p) (b, p\<lparr>pr_queue := pr_queue p @ [t]\<rparr>)"
| Take: "pr_queue p = t # ts \<Longrightarrow> happens K native (None, p) (Some t, p\<lparr>pr_queue := ts\<rparr>)"
| Finish: "run_body K native rate now t p = Some (Running q) \<Longrightarrow> happens K native (Some t, p) (None, q)"

text \<open>One round of the task thread, undisturbed, is \<open>run_front\<close>.\<close>

lemma round_happens:
  assumes "run_front K native rate now p = Some (Running q)"
  shows "(happens K native)\<^sup>*\<^sup>* (None, p) (None, q)"
proof (cases "pr_queue p")
  case Nil
  then show ?thesis using assms by (simp add: run_front_def)
next
  case (Cons t ts)
  have 1: "happens K native (None, p) (Some t, p\<lparr>pr_queue := ts\<rparr>)" using Cons by (rule Take)
  have "run_body K native rate now t (p\<lparr>pr_queue := ts\<rparr>) = Some (Running q)" using assms Cons by (simp add: run_front_def)
  then have "happens K native (Some t, p\<lparr>pr_queue := ts\<rparr>) (None, q)" by (rule Finish)
  with 1 show ?thesis by (meson converse_rtranclp_into_rtranclp r_into_rtranclp)
qed

definition rooted :: "scheme_task option \<times> process \<Rightarrow> bool" where
  "rooted st \<longleftrightarrow> (case st of (b, p) \<Rightarrow> distinct (busy b @ held p) \<and> set (busy b @ held p) \<subseteq> pr_imp_env p)"

lemma busy_simps [simp]: "busy None = []" "busy (Some t) = held_by (st_body t)"
  by (simp_all add: busy_def)

lemma held_mset:
  assumes "mset (busy b @ held p) = mset (busy c @ held q)" "pr_imp_env p = pr_imp_env q" "rooted (b, p)"
  shows "rooted (c, q)"
proof -
  have "distinct (busy c @ held q) = distinct (busy b @ held p)" using assms(1) by (metis mset_eq_imp_distinct_iff)
  moreover have "set (busy c @ held q) = set (busy b @ held p)" using assms(1) by (metis mset_eq_setD)
  ultimately show ?thesis using assms(2,3) unfolding rooted_def prod.case by metis
qed

lemma map_snd_remove1: "x \<in> set xs \<Longrightarrow> mset (map snd xs) = add_mset (snd x) (mset (map snd (remove1 x xs)))"
  by (induction xs) auto

definition same_roots :: "process \<Rightarrow> process \<Rightarrow> bool" where
  "same_roots p q \<longleftrightarrow> pr_imp_env q = pr_imp_env p \<and> pr_objs q = pr_objs p \<and> pr_queue q = pr_queue p"

lemma settle_roots: "settle i p = Some q \<Longrightarrow> same_roots p q"
  by (auto simp: settle_def resetOutportString_def same_roots_def Let_def split: Option.bind_splits port_rep.splits if_splits)

lemma load_task_roots: "load_task K s p = Some (i, q) \<Longrightarrow> same_roots p q"
  by (auto simp: load_task_def same_roots_def split: Option.bind_splits)

lemma same_roots_trans: "same_roots p q \<Longrightarrow> same_roots q r \<Longrightarrow> same_roots p r"
  by (simp add: same_roots_def)

lemma same_roots_refl [simp]: "same_roots p p"
  by (simp add: same_roots_def)

lemma local_string_roots: "local_string K s p = Some q \<Longrightarrow> same_roots p q"
  by (auto simp: local_string_def split: Option.bind_splits if_splits
    dest!: load_task_roots settle_roots intro: same_roots_trans)

lemma same_roots_sent [simp]: "same_roots p (q\<lparr>pr_sent := x\<rparr>) = same_roots p q" "same_roots (p\<lparr>pr_scheme := sc\<rparr>) q = same_roots p q"
  by (simp_all add: same_roots_def)

lemma reset_roots: "resetOutportString p = Some q \<Longrightarrow> same_roots p q"
  using settle_roots [of 1 p q] by (simp add: settle_def)

lemma repl_string_roots: "repl_string K rate now l s p = Some q \<Longrightarrow> same_roots p q"
  by (auto simp: repl_string_def Let_def split: Option.bind_splits if_splits
    dest!: load_task_roots reset_roots intro: same_roots_trans)

lemma call_task_roots: "call_task K f a p = Some (Running q) \<Longrightarrow> same_roots p q"
  by (auto simp: call_task_def same_roots_def split: Option.bind_splits called.splits dest!: settle_roots)

lemma bad_closure_roots: "bad_closure K s x p = Some (Running q) \<Longrightarrow> same_roots p q"
  by (auto simp: bad_closure_def same_roots_def split: Option.bind_splits)

lemma then_delete_Running: "then_delete now e r = Running q \<longleftrightarrow> (\<exists>p. r = Running p \<and> q = delete_obj now e p)"
  by (cases r) (auto simp: then_delete_def)

definition deleted :: "addr \<Rightarrow> process \<Rightarrow> process \<Rightarrow> bool" where
  "deleted e p q \<longleftrightarrow> (\<exists>p1 now. same_roots p p1 \<and> q = delete_obj now e p1)"

lemma deletedI [intro]: "same_roots p p1 \<Longrightarrow> deleted e p (delete_obj now e p1)"
  by (auto simp: deleted_def)

lemma callback_deletes: "scheme_callback K now v e p = Some (Running q) \<Longrightarrow> deleted e p q"
  by (auto simp: scheme_callback_def Let_def then_delete_Running split: Option.bind_splits if_splits dest!: call_task_roots bad_closure_roots)

lemma callback_symbol_deletes: "callback_symbol K now n e p = Some (Running q) \<Longrightarrow> deleted e p q"
  by (auto simp: callback_symbol_def Let_def then_delete_Running split: Option.bind_splits if_splits
    dest!: call_task_roots bad_closure_roots) (simp_all add: deletedI)

lemma held_new: "mset (held (new_obj v e p)) = add_mset e (mset (held p))"
  by (simp add: held_def new_obj_def)

lemma held_due: "obj \<in> set (pr_objs p) \<Longrightarrow> mset (held (addCallback s d obj p)) = mset (held p)"
  using map_snd_remove1 [of obj "pr_objs p"] by (simp add: held_def addCallback_def createSchemeTask_def)

lemma held_queue: "pr_queue p = t # q \<Longrightarrow> mset (held p) = mset (held_by (st_body t)) + mset (held (p\<lparr>pr_queue := q\<rparr>))"
  by (simp add: held_def)

lemma held_deleted: "deleted e p q \<Longrightarrow> mset (held q) = add_mset e (mset (held p)) \<and> pr_imp_env q = pr_imp_env p"
proof -
  assume "deleted e p q"
  then obtain p1 now where 1: "same_roots p p1" "q = delete_obj now e p1" by (auto simp: deleted_def)
  have "held p1 = held p" "pr_imp_env p1 = pr_imp_env p" using 1(1) by (simp_all add: same_roots_def held_def)
  moreover have "held q = held p1 @ [e]" "pr_imp_env q = pr_imp_env p1" by (simp_all add: 1(2) held_def delete_obj_def createSchemeTask_def)
  ultimately show ?thesis by simp
qed

lemma held_same: "same_roots p q \<Longrightarrow> held q = held p \<and> pr_imp_env q = pr_imp_env p"
  by (simp add: same_roots_def held_def)

lemma finish_rooted:
  assumes run: "run_body K native rate now t p = Some (Running q)" and r: "rooted (Some t, p)"
  shows "rooted (None, q)"
proof -
  have same: "rooted (None, q)" if "same_roots p q" "held_by (st_body t) = []"
    by (rule held_mset [OF _ _ r]) (use held_same [OF that(1)] that(2) in simp_all)
  have del: "rooted (None, q)" if "deleted e p q" "held_by (st_body t) = [e]" for e
    by (rule held_mset [OF _ _ r]) (use held_deleted [OF that(1)] that(2) in simp_all)
  show ?thesis
  proof (cases "st_body t")
    case (REPL s)
    then show ?thesis using same run repl_string_roots by (auto simp: run_body_def)
  next
    case (LOCAL_PROCESS_STRING s)
    then show ?thesis using same run local_string_roots by (auto simp: run_body_def)
  next
    case (SCHEME_CALLBACK v e)
    then have "scheme_callback K now v e p = Some (Running q)" using run by (simp add: run_body_def)
    from del [OF callback_deletes [OF this]] show ?thesis using SCHEME_CALLBACK by simp
  next
    case (CALLBACK_SYMBOL n e)
    then have "callback_symbol K now n e p = Some (Running q)" using run by (simp add: run_body_def)
    from del [OF callback_symbol_deletes [OF this]] show ?thesis using CALLBACK_SYMBOL by simp
  next
    case (DESTROY_ENV e)
    then have "q = p\<lparr>pr_imp_env := pr_imp_env p - {e}\<rparr>" using run by (simp add: run_body_def)
    then show ?thesis using r DESTROY_ENV by (auto simp: rooted_def held_def)
  next
    case (EXTEMPORE_CALLBACK f)
    then have "same_roots p q" using run by (auto simp: run_body_def same_roots_def split: Option.bind_splits)
    from same [OF this] show ?thesis using EXTEMPORE_CALLBACK by simp
  qed
qed

lemma happens_rooted: "happens K native st st' \<Longrightarrow> rooted st \<Longrightarrow> rooted st'"
proof (induction rule: happens.induct)
  case (Schedule e b p v)
  have "mset (busy b @ held (new_obj v e p)) = mset (e # busy b @ held p)" using held_new by simp
  then have "distinct (busy b @ held (new_obj v e p)) = distinct (e # busy b @ held p)"
    "set (busy b @ held (new_obj v e p)) = set (e # busy b @ held p)"
    by (metis mset_eq_imp_distinct_iff, metis mset_eq_setD)
  then show ?case using Schedule unfolding rooted_def by (auto simp: new_obj_def)
next
  case (Fall_Due obj p b start duration)
  show ?case by (rule held_mset [OF _ _ Fall_Due.prems]) (use held_due [OF Fall_Due.hyps] in \<open>simp_all add: addCallback_def\<close>)
next
  case (Enqueue t b p)
  show ?case by (rule held_mset [OF _ _ Enqueue.prems]) (use Enqueue.hyps in \<open>simp_all add: held_def\<close>)
next
  case (Take p t ts)
  show ?case by (rule held_mset [OF _ _ Take.prems]) (use held_queue [OF Take.hyps] in simp_all)
next
  case (Finish rate now t p q)
  then show ?case by (rule finish_rooted)
qed

text \<open>C17: as long as no callback is scheduled, between tasks or from inside the running one, with an environment that another one,
  waiting, queued or running (or its pending removal), still holds, the environment of every object in the scheduler, of every queued
  callback and of the callback being run is among the roots of the collector; it is enough that this was so when the thread began, with
  no environment held twice.
\<close>

theorem pending_environments_rooted:
  assumes "(happens K native)\<^sup>*\<^sup>* (None, p) (b, q)" "rooted (None, p)"
    "(v, e) \<in> set (pr_objs q) \<or> (\<exists>t \<in> set (pr_queue q). st_body t = SCHEME_CALLBACK v e) \<or>
     (\<exists>t. b = Some t \<and> st_body t = SCHEME_CALLBACK v e)"
  shows "e \<in> pr_imp_env q"
proof -
  have "rooted (b, q)" using assms(1,2)
  proof (induction "(b, q)" arbitrary: b q rule: rtranclp_induct)
    case (step st)
    then show ?case using happens_rooted by (cases st) blast
  qed
  moreover have "e \<in> set (busy b @ held q)" using assms(3) by (force simp: held_def)
  ultimately show ?thesis unfolding rooted_def by blast
qed

text \<open>The condition is needed for the running callback too: if it schedules another with its own environment, the deletion of its object
  takes the root away while the other still waits.
\<close>

theorem own_environment_unrooted:
  assumes "pr_queue p = []" "scheme_callback K now v e (new_obj w e p) = Some (Running p1)"
  shows "\<exists>p2. run_front K native rate now p1 = Some (Running p2) \<and> e \<notin> pr_imp_env p2 \<and> (w, e) \<in> set (pr_objs p2)"
proof -
  obtain q now1 where q: "same_roots (new_obj w e p) q" "p1 = delete_obj now1 e q"
    using callback_deletes [OF assms(2)] by (auto simp: deleted_def)
  obtain t where "pr_queue p1 = [t]" "st_body t = DESTROY_ENV e" "(w, e) \<in> set (pr_objs p1)"
    using q assms(1) by (simp add: delete_obj_def createSchemeTask_def same_roots_def new_obj_def)
  then show ?thesis by (auto simp: run_front_def run_body_def)
qed

text \<open>when two callbacks are scheduled with one environment, the first that runs takes the root away: the second still waits, with an
  environment the collector may free.
\<close>

theorem shared_environment_unrooted:
  assumes "pr_queue p = []" "run_front K native rate now (addCallback s d (v, e) (new_obj w e (new_obj v e p))) = Some (Running p1)"
  shows "\<exists>p2. run_front K native rate now p1 = Some (Running p2) \<and> pr_queue p2 = [] \<and> e \<notin> pr_imp_env p2 \<and> (w, e) \<in> set (pr_objs p2)"
proof -
  let ?p = "(addCallback s d (v, e) (new_obj w e (new_obj v e p)))\<lparr>pr_queue := []\<rparr>"
  have r: "scheme_callback K now v e ?p = Some (Running p1)"
    using assms by (simp add: run_front_def run_body_def addCallback_def new_obj_def createSchemeTask_def)
  obtain q now1 where q: "same_roots ?p q" "p1 = delete_obj now1 e q" using callback_deletes [OF r] by (auto simp: deleted_def)
  obtain t where t: "pr_queue p1 = [t]" "st_body t = DESTROY_ENV e" using q by (simp add: delete_obj_def createSchemeTask_def same_roots_def)
  have o: "(w, e) \<in> set (pr_objs p1)"
    using q by (auto simp: delete_obj_def same_roots_def addCallback_def new_obj_def remove1_append)
  show ?thesis using t o by (auto simp: run_front_def run_body_def)
qed

end
