(* ===== verification/Scheme_Script.thy ===== *)
theory Scheme_Script
  imports Scheme_Roundtrip Scheme_Load
begin

text \<open>
  Loading a text of several expressions: each is read, evaluated in the global environment and followed by the next one.
  What an evaluation needs and leaves is stated as a triple.
\<close>

section \<open>Scripts\<close>

text \<open>The text of expressions with what separates them; only the last may end with the text.\<close>

definition separator :: "byte list \<Rightarrow> bool" where
  "separator ws \<longleftrightarrow> (\<forall>c \<in> set ws. c \<in> {9, 10, 13, 32})"

fun script_text :: "(datum \<times> byte list) list \<Rightarrow> byte list" where
  "script_text [] = []"
| "script_text ((d, ws) # xs) = text_of d @ ws @ script_text xs"

fun separated :: "(datum \<times> byte list) list \<Rightarrow> bool" where
  "separated [] \<longleftrightarrow> True"
| "separated ((d, ws) # xs) \<longleftrightarrow> readable d \<and> separator ws \<and> (ws \<noteq> [] \<or> xs = []) \<and> separated xs"

lemma separator_blank: "separator ws \<Longrightarrow> \<forall>c \<in> set ws. blank c"
  by (auto simp: separator_def blank_iff)

lemma separated_stops: "separated ((d, ws) # xs) \<Longrightarrow> stops (ws @ script_text xs)"
  by (cases ws) (auto simp: stops_def separator_def delim_def)

text \<open>
  A triple: from a store with \<open>P\<close>, after the expression \<open>d\<close> has been read, evaluating it ends with \<open>Q\<close> for its value and store, and the
  evaluation leaves the symbol table in order and the port of the text alone.
\<close>

type_synonym assertion = "addr \<Rightarrow> store \<Rightarrow> bool"

definition keeps_input :: "globals \<Rightarrow> store \<Rightarrow> store \<Rightarrow> bool" where
  "keeps_input K h h' \<longleftrightarrow> oblist_ok h' (k_oblist K) \<and> quotes_ok K h' \<and> same_in h' h \<and> (\<forall>u r. input_at h u r \<longrightarrow> input_at h' u r)"

definition evaluates :: "globals \<Rightarrow> assertion \<Rightarrow> datum \<Rightarrow> assertion \<Rightarrow> bool" where
  "evaluates K P d Q \<longleftrightarrow>
     (\<forall>w h h1 p. P w h \<longrightarrow> grows (k_oblist K) {} h h1 \<longrightarrow> repr (k_oblist K) h1 {h_next h..} p d \<longrightarrow>
        (\<exists>v h2. ev K (Exp p) h1 (k_global_env K) v h2 \<and> keeps_input K h1 h2 \<and> Q v h2))"

inductive script :: "globals \<Rightarrow> assertion \<Rightarrow> datum list \<Rightarrow> assertion \<Rightarrow> bool" for K where
  script_Nil: "script K P [] P"
| script_Cons: "evaluates K P d Q \<Longrightarrow> script K Q ds R \<Longrightarrow> script K P (d # ds) R"

inductive_cases script_NilE: "script K P [] R"
inductive_cases script_ConsE: "script K P (d # ds) R"

section \<open>One round of the top level\<close>

definition at_load :: "store \<Rightarrow> byte list \<Rightarrow> bool" where
  "at_load h s \<longleftrightarrow> (\<exists>u. input_at h u s) \<and> h_inport h = h_loadport h"

lemma input_registers [simp]: "h_inport h = p \<Longrightarrow> input_at (h\<lparr>h_save_inport := q, h_inport := p\<rparr>) u s = input_at h u s"
  "input_at (h\<lparr>h_save_inport := q\<rparr>) u s = input_at h u s"
  by (simp_all add: input_at_def)

definition toplevel :: "globals \<Rightarrow> store \<Rightarrow> addr \<Rightarrow> addr \<Rightarrow> addr \<Rightarrow> addr \<Rightarrow> frame list \<Rightarrow> scheme" where
  "toplevel K h a e c w D = regs h a e c w D (O0 OP_T0LVL)"

lemma toplevel_reads:
  fixes h
  defines "h0 \<equiv> h\<lparr>h_save_inport := h_inport h, h_inport := h_loadport h\<rparr>"
  assumes r: "\<And>a e c w. returns K [] h0 a e c w (O0 OP_READ_INTERNAL) p h1" and i: "h_inport h1 = h_save_inport h1"
  shows "leads K (toplevel K h a e c w D) (regs h1 NIL (k_global_env K) p p
    [frame_of (O0 OP_VALUEPRINT) NIL (k_global_env K) NIL, frame_of (O0 OP_T0LVL) NIL (k_global_env K) NIL] (O0 OP_EVAL))"
proof -
  let ?E = "k_global_env K"
  let ?T = "frame_of (O0 OP_T0LVL) NIL ?E NIL" and ?V = "frame_of (O0 OP_VALUEPRINT) NIL ?E NIL"
    and ?L = "frame_of (O0 OP_T1LVL) NIL ?E NIL"
  have "leads K (toplevel K h a e c w D) (regs h0 a ?E c w [?L, ?V, ?T] (O0 OP_READ_INTERNAL))"
    by (rule leads_step [OF _ leads_refl]) (simp add: toplevel_def op_simps op_t0lvl_def h0_def)
  also have "leads K \<dots> (regs h1 NIL ?E NIL p [?V, ?T] (O0 OP_T1LVL))"
    using returns_frame [OF r, where f = ?L and D = "[?V, ?T]"] by simp
  also have "leads K \<dots> (regs h1 NIL ?E p p [?V, ?T] (O0 OP_EVAL))"
  proof (rule leads_step [OF _ leads_refl])
    have "h1\<lparr>h_inport := h_save_inport h1\<rparr> = h1" using i [symmetric] by (cases h1) simp
    then show "step K (regs h1 NIL ?E NIL p [?V, ?T] (O0 OP_T1LVL)) = Some (Next (regs h1 NIL ?E p p [?V, ?T] (O0 OP_EVAL)))"
      by (simp add: op_simps op_t1lvl_def)
  qed
  finally show ?thesis .
qed

lemma toplevel_round:
  fixes h
  defines "h0 \<equiv> h\<lparr>h_save_inport := h_inport h, h_inport := h_loadport h\<rparr>"
  assumes r: "\<And>a e c w. returns K [] h0 a e c w (O0 OP_READ_INTERNAL) p h1" and i: "h_inport h1 = h_save_inport h1"
    and v: "ev K (Exp p) h1 (k_global_env K) v h2"
  shows "leads K (toplevel K h a e c w D) (toplevel K h2 NIL (k_global_env K) NIL v [])"
proof -
  let ?E = "k_global_env K"
  let ?T = "frame_of (O0 OP_T0LVL) NIL ?E NIL" and ?V = "frame_of (O0 OP_VALUEPRINT) NIL ?E NIL"
  have "leads K (toplevel K h a e c w D) (regs h1 NIL ?E p p [?V, ?T] (O0 OP_EVAL))" by (rule toplevel_reads [OF r [unfolded h0_def] i])
  also have "leads K \<dots> (regs h2 NIL ?E NIL v [?T] (O0 OP_VALUEPRINT))"
    using returns_frame [where f = ?V and D = "[?T]"] ev_realizes [OF v] by fastforce
  also have "leads K \<dots> (toplevel K h2 NIL ?E NIL v [])"
    by (rule leads_step [OF _ leads_refl]) (simp add: toplevel_def op_simps s_return_def resume_def)
  finally show ?thesis .
qed

lemma toplevel_end:
  assumes "at_load h ws" "\<forall>c \<in> set ws. blank c" "store_ok h"
  shows "\<exists>h' e. eval_cycle K (toplevel K h a e0 c w D) = Some (Stop (regs h' NIL e c w [frame_of (O0 OP_T1LVL) NIL (k_global_env K) NIL,
      frame_of (O0 OP_VALUEPRINT) NIL (k_global_env K) NIL, frame_of (O0 OP_T0LVL) NIL (k_global_env K) NIL] (O4 OP_QUIT))) \<and>
    h_cell h' = h_cell h \<and> h_buf h' = h_buf h \<and> h_next h' = h_next h \<and> h_loadport h' = h_loadport h \<and> h_nbuf h' = h_nbuf h"
proof -
  let ?E = "k_global_env K"
  let ?D = "[frame_of (O0 OP_T1LVL) NIL ?E NIL, frame_of (O0 OP_VALUEPRINT) NIL ?E NIL, frame_of (O0 OP_T0LVL) NIL ?E NIL]"
  let ?h = "h\<lparr>h_save_inport := h_inport h, h_inport := h_loadport h\<rparr>"
  let ?h1 = "(advance ?h (length ws))\<lparr>h_tok := TOK_EOF\<rparr>"
  obtain u where u: "input_at h u ws" and l: "h_inport h = h_loadport h" using assms(1) by (auto simp: at_load_def)
  have i: "input_at ?h u (ws @ [])" using u l by simp
  have t: "read_token ?h = Some (advance ?h (length ws), TOK_EOF)"
    using read_token_blanks [OF i assms(2)] token_end [OF input_at_advance [OF i]] by simp
  have "leads K (toplevel K h a e0 c w D) (regs ?h a ?E c w ?D (O0 OP_READ_INTERNAL))"
    by (rule leads_step [OF _ leads_refl]) (simp add: toplevel_def op_simps op_t0lvl_def)
  also have "leads K \<dots> (regs ?h1 NIL ?E c w ?D (O4 OP_QUIT))"
    by (rule leads_step [OF _ leads_refl]) (use t in \<open>simp add: op_simps op_read_internal_def\<close>)
  finally have "eval_cycle K (toplevel K h a e0 c w D) = eval_cycle K (regs ?h1 NIL ?E c w ?D (O4 OP_QUIT))" by (rule leads_eval_cycle)
  also have "\<dots> = Some (Stop (regs ?h1 NIL ?E c w ?D (O4 OP_QUIT)))"
  proof -
    have "\<not> is_pair ?h1 NIL" using store_okD(2) [OF assms(3)] by (simp add: is_pair_def)
    then have "list_length ?h1 NIL = Some 0" unfolding list_length_def by (subst list_length_loop.simps) simp
    then have "step K (regs ?h1 NIL ?E c w ?D (O4 OP_QUIT)) = Some (Stop (regs ?h1 NIL ?E c w ?D (O4 OP_QUIT)))"
      by (simp add: step_def info_def check_args_def)
    then show ?thesis by (subst eval_cycle.simps) simp
  qed
  finally show ?thesis by (intro exI [of _ ?h1] exI [of _ ?E]) simp
qed

section \<open>Loading a script\<close>

lemma load_script:
  assumes "script K P (map fst xs) Q" "separated xs" "P w h" "at_load h (ws @ script_text xs)" "\<forall>c \<in> set ws. blank c"
    "oblist_ok h (k_oblist K)" "quotes_ok K h"
  shows "\<exists>v h2 sc. eval_cycle K (toplevel K h a e c w D) = Some (Stop sc) \<and> r_op sc = O4 OP_QUIT \<and> r_args sc = NIL \<and> r_value sc = v \<and> Q v h2 \<and>
    h_cell (heap sc) = h_cell h2 \<and> h_buf (heap sc) = h_buf h2 \<and> h_next (heap sc) = h_next h2 \<and> h_loadport (heap sc) = h_loadport h \<and>
    oblist_ok h2 (k_oblist K) \<and> quotes_ok K h2 \<and> (\<exists>i. h_cell h2 (h_loadport h) = Port i) \<and> h_nbuf (heap sc) = h_nbuf h2"
  using assms
proof (induction xs arbitrary: P w h ws a e c D)
  case Nil
  then have "Q w h" by (auto elim: script_NilE)
  moreover have "at_load h ws" "store_ok h" using Nil.prems(4,6) by (auto simp: oblist_ok_def)
  moreover have "\<exists>i. h_cell h (h_loadport h) = Port i" using \<open>at_load h ws\<close> by (auto simp: at_load_def input_at_def)
  ultimately show ?case using toplevel_end [OF _ Nil.prems(5), of h K a e c w D] Nil.prems(6,7) by fastforce
next
  case (Cons x xs)
  obtain d ws1 where x: "x = (d, ws1)" by force
  obtain R where R: "evaluates K P d R" "script K R (map fst xs) Q" using Cons.prems(1) x by (auto elim: script_ConsE)
  have sep: "readable d" "separator ws1" "ws1 \<noteq> [] \<or> xs = []" "separated xs" using Cons.prems(2) x by simp_all
  let ?r = "ws1 @ script_text xs"
  let ?h = "h\<lparr>h_save_inport := h_inport h, h_inport := h_loadport h\<rparr>"
  obtain u where u: "input_at h u (ws @ text_of d @ ?r)" and l: "h_inport h = h_loadport h"
    using Cons.prems(4) x by (auto simp: at_load_def)
  have g0: "grows (k_oblist K) {} h ?h" by (rule grows_same [OF Cons.prems(6)]) simp_all
  have ok: "oblist_ok ?h (k_oblist K)" "quotes_ok K ?h" using growsD(2) [OF g0] quotes_grows [OF Cons.prems(7) g0] by simp_all
  have i: "input_at ?h u (ws @ text_of d @ ?r)" using u l by simp
  have st: "stops ?r" using separated_stops Cons.prems(2) x by blast
  show ?case
  proof (rule reads_blanks [OF sep(1) ok i Cons.prems(5) st])
    fix h1 p u' r'
    assume p: "\<And>a e c w. returns K [] ?h a e c w (O0 OP_READ_INTERNAL) p h1" "repr (k_oblist K) h1 {h_next ?h..} p d"
      "grows (k_oblist K) {} ?h h1" "same_in h1 ?h" "input_at h1 u' r'" "r' = ?r \<or> ?r = 10 # r'"
    have g: "grows (k_oblist K) {} h h1" by (rule grows_trans [OF g0 p(3)]) simp
    obtain v h2 where v: "ev K (Exp p) h1 (k_global_env K) v h2" "keeps_input K h1 h2" "R v h2"
      using R(1) Cons.prems(3) g p(2) unfolding evaluates_def by fastforce
    have lead: "leads K (toplevel K h a e c w D) (toplevel K h2 NIL (k_global_env K) NIL v [])"
      by (rule toplevel_round [OF p(1) _ v(1)]) (use p(4) l in simp)
    obtain ws2 where ws2: "r' = ws2 @ script_text xs" "\<forall>c \<in> set ws2. blank c"
    proof (cases "r' = ?r")
      case True
      then show ?thesis using that separator_blank [OF sep(2)] by blast
    next
      case False
      then have "?r = 10 # r'" using p(6) by blast
      then obtain ws2 where "ws1 = 10 # ws2" using sep(3) by (cases ws1) auto
      then show ?thesis using that [of ws2] \<open>?r = 10 # r'\<close> separator_blank [OF sep(2)] by simp
    qed
    have k: "oblist_ok h2 (k_oblist K)" "quotes_ok K h2" "same_in h2 h1" "input_at h2 u' r'"
      using v(2) p(5) by (auto simp: keeps_input_def)
    then have "at_load h2 (ws2 @ script_text xs)" "h_loadport h2 = h_loadport h" using ws2(1) p(4) l by (auto simp: at_load_def)
    then show ?case
      using Cons.IH [OF R(2) sep(4) v(3) _ ws2(2) k(1,2), of NIL "k_global_env K" NIL "[]"] leads_eval_cycle [OF lead] by auto
  qed
qed

text \<open>Opening and closing the port.\<close>

lemma open_load_grows:
  assumes "oblist_ok h ob"
  shows "grows ob {} h (open_load r h)"
proof -
  let ?h1 = "h\<lparr>h_port := (h_port h)(load_stack := \<lparr>p_input = True, p_output = False, p_srfi6 = False, p_rep = r\<rparr>)\<rparr>"
  have 1: "grows ob {} h ?h1" by (rule grows_same [OF assms]) simp_all
  have 2: "grows ob {} ?h1 (fst (alloc (Port load_stack) ?h1))" by (rule grows_alloc [OF growsD(2) [OF 1]]) simp
  have 3: "grows ob {} (fst (alloc (Port load_stack) ?h1)) (open_load r h)"
    by (rule grows_same [OF growsD(2) [OF 2]]) (simp_all add: open_load_def mk_port_def Let_def split_beta)
  show ?thesis using grows_then [OF grows_then [OF 1 2] 3] .
qed

lemma open_string_grows: "oblist_ok h ob \<Longrightarrow> grows ob {} h (open_string cmd h)"
  using grows_then [OF grows_store_string open_load_grows [OF growsD(2) [OF grows_store_string]]]
  by (simp add: open_string_def Let_def split_beta)

lemma open_string_input:
  assumes "0 \<notin> set cmd" "255 \<notin> set cmd"
  shows "at_load (open_string cmd h) cmd" "h_loadport (open_string cmd h) = h_next h"
proof -
  have "c_str (fst (store_string h cmd)) (h_nbuf h) = cmd" using assms(1)
    by (auto simp: c_str_def store_string_def takeWhile_append)
  then have "input_at (open_string cmd h) [] cmd" using assms
    by (simp add: input_at_def open_string_def open_load_def mk_port_def load_stack_def store_string_def Let_def split_beta)
  then show "at_load (open_string cmd h) cmd"
    by (auto simp: at_load_def open_string_def open_load_def mk_port_def load_stack_def store_string_def Let_def split_beta)
  show "h_loadport (open_string cmd h) = h_next h"
    by (simp add: open_string_def open_load_def mk_port_def load_stack_def store_string_def Let_def split_beta)
qed

lemma drop_port:
  assumes ok: "oblist_ok h ob" and p: "h_cell h p = Port i"
    and h': "h_cell h' = (h_cell h)(p := Junk)" "h_buf h' = h_buf h" "h_next h' = h_next h" "h_nbuf h' = h_nbuf h"
  shows "oblist_ok h' ob" "oblist_find_by_name h' ob m = oblist_find_by_name h ob m"
proof -
  obtain vs where vs: "h_cell h ob = Vector vs" "vs \<noteq> []" and sok: "store_ok h" and bok: "buffers_ok h"
    and b: "\<And>y. y \<in> set vs \<Longrightarrow> \<exists>xs. bucket_ok h y xs" using ok unfolding oblist_ok_def by blast
  have other: "h_cell h' q = h_cell h q" if "\<not> is_port h q" for q using that p h'(1) by (auto simp: is_port_def)
  have vs': "h_cell h' ob = Vector vs" using other [of ob] vs(1) by (simp add: is_port_def)
  have names: "symname h' s = Some n" if n: "symname h s = Some n" for s n
  proof -
    obtain t d b k where s: "h_cell h s = Symbol t d \<or> h_cell h s = Syntax t d" "h_cell h t = String b k" "n = c_str h b"
      using symname_cell [OF n] by blast
    then have "h_cell h' s = h_cell h s" "h_cell h' t = h_cell h t" by (intro other; auto simp: is_port_def)+
    then show ?thesis using s h'(2) by (auto simp: symname_def is_symbol_def car_def c_str_def)
  qed
  have kept: "bucket_ok h' y xs" if bk: "bucket_ok h y xs" for y xs
  proof -
    have "slist h' y xs"
    proof (rule segment_cong)
      show sl: "slist h y xs" using bk by (simp add: bucket_ok_def)
      fix c v assume "(c, v) \<in> set xs"
      then show "h_cell h' c = h_cell h c" using segment_pair [OF sl, of c v] by (intro other) (cases "h_cell h c"; simp add: is_pair_def is_port_def)
    qed
    then show ?thesis using bk names unfolding bucket_ok_def by blast
  qed
  have sok': "store_ok h'" using sok p by (auto simp: store_ok_def h')
  moreover have "buffers_ok h'" using bok by (auto simp: buffers_ok_def h')
  ultimately show "oblist_ok h' ob" using vs' vs(2) b kept unfolding oblist_ok_def by blast
  have j: "hash_fn m (length vs) < length vs" using vs(2) by (simp add: hash_fn_def)
  obtain xs where "bucket_ok h (vs ! hash_fn m (length vs)) xs" using b [OF nth_mem [OF j]] by blast
  then show "oblist_find_by_name h' ob m = oblist_find_by_name h ob m"
    using oblist_find_vector [OF vs] oblist_find_vector [OF vs' vs(2)] bucket_find_kept [OF _ kept sok sok' names] by simp
qed

section \<open>Loading a string\<close>

lemma load_string_script:
  assumes "script K P (map fst xs) Q" "separated xs" "separator ws" "cmd = ws @ script_text xs" "0 \<notin> set cmd" "255 \<notin> set cmd"
    "P (r_value sc) (open_string cmd (heap sc))" "oblist_ok (heap sc) (k_oblist K)" "quotes_ok K (heap sc)"
  shows "\<exists>sc' h i. scheme_load_string K cmd sc = Some (0, sc') \<and> Q (r_value sc') h \<and> oblist_ok h (k_oblist K) \<and>
    h_cell h (h_next (heap sc)) = Port i \<and> (\<forall>m. oblist_find_by_name (heap sc') (k_oblist K) m = oblist_find_by_name h (k_oblist K) m) \<and>
    h_cell (heap sc') = (h_cell h)(h_next (heap sc) := Junk) \<and> h_buf (heap sc') = h_buf h \<and>
    oblist_ok (heap sc') (k_oblist K) \<and> quotes_ok K (heap sc')"
proof -
  let ?h = "open_string cmd (heap sc)" and ?sc = "\<lambda>s. s\<lparr>heap := close_load (heap s)\<rparr>"
  have g: "grows (k_oblist K) {} (heap sc) ?h" by (rule open_string_grows [OF assms(8)])
  have at: "at_load ?h (ws @ script_text xs)" using open_string_input(1) [OF assms(5,6)] assms(4) by simp
  have port: "h_loadport ?h = h_next (heap sc)" by (rule open_string_input(2) [OF assms(5,6)])
  obtain v h2 s where s: "eval_cycle K (toplevel K ?h (r_args sc) (k_global_env K) (r_code sc) (r_value sc) []) = Some (Stop s)"
    "r_op s = O4 OP_QUIT" "r_args s = NIL" "r_value s = v" "Q v h2" "h_cell (heap s) = h_cell h2" "h_buf (heap s) = h_buf h2"
    "h_next (heap s) = h_next h2" "h_loadport (heap s) = h_loadport ?h" "oblist_ok h2 (k_oblist K)" "quotes_ok K h2"
    "\<exists>i. h_cell h2 (h_loadport ?h) = Port i" "h_nbuf (heap s) = h_nbuf h2"
    using load_script [OF assms(1,2,7) at separator_blank [OF assms(3)] growsD(2) [OF g] quotes_grows [OF assms(9) g],
      of "r_args sc" "k_global_env K" "r_code sc" "[]"] by (elim exE conjE) blast
  have "store_ok (heap s)" using s(6,8,10) by (auto simp: oblist_ok_def store_ok_def)
  then have "\<not> is_pair (heap s) NIL" using store_okD(2) by (simp add: is_pair_def)
  then have r: "scheme_load_string K cmd sc = Some (0, ?sc s)" using s(1-3)
    by (cases sc) (simp add: scheme_load_string_def load_def toplevel_def run_ended_def retcode_def closed_def)
  obtain i where i: "h_cell h2 (h_next (heap sc)) = Port i" using s(12) port by auto
  have c: "h_cell (close_load (heap s)) = (h_cell h2)(h_next (heap sc) := Junk)" "h_buf (close_load (heap s)) = h_buf h2"
    "h_next (close_load (heap s)) = h_next h2" "h_nbuf (close_load (heap s)) = h_nbuf h2"
    using s(6-9,13) port by (simp_all add: close_load_def put_cell_def)
  note k = drop_port [OF s(10) i c]
  have "quotes_ok K (close_load (heap s))" using s(11) k(2) unfolding quotes_ok_def by simp
  then show ?thesis using r s(4,5,10) c k i by (intro exI [of _ "?sc s"] exI [of _ h2] exI [of _ i]) simp
qed

text \<open>C14: \<open>scheme_load_string\<close> runs a script: from a symbol table in order, for a text of readable expressions separated by blanks, if the
  expressions evaluate one after the other from \<open>P\<close> to \<open>Q\<close>, the call returns with the code 0 and the value of the last one, in a store
  where \<open>Q\<close> holds, but for the port of the text, whose cell is freed; and the symbol table is in order for the next text.
\<close>

theorem load_string_runs_script:
  assumes "script K P (map fst xs) Q" "separated xs" "separator ws" "cmd = ws @ script_text xs" "0 \<notin> set cmd" "255 \<notin> set cmd"
    "P (r_value sc) (open_string cmd (heap sc))" "oblist_ok (heap sc) (k_oblist K)" "quotes_ok K (heap sc)"
  shows "\<exists>sc' h. scheme_load_string K cmd sc = Some (0, sc') \<and> Q (r_value sc') h \<and>
    h_cell (heap sc') = (h_cell h)(h_next (heap sc) := Junk) \<and> h_buf (heap sc') = h_buf h \<and>
    oblist_ok (heap sc') (k_oblist K) \<and> quotes_ok K (heap sc')"
  using load_string_script [OF assms] by blast

text \<open>An expression whose evaluation changes nothing.\<close>

lemma evaluates_still:
  assumes "\<And>w h h1 p. P w h \<Longrightarrow> grows (k_oblist K) {} h h1 \<Longrightarrow> repr (k_oblist K) h1 {h_next h..} p d \<Longrightarrow>
      \<exists>v. ev K (Exp p) h1 (k_global_env K) v h1 \<and> quotes_ok K h1 \<and> Q v h1"
  shows "evaluates K P d Q"
  unfolding evaluates_def
proof (intro allI impI)
  fix w h h1 p assume a: "P w h" "grows (k_oblist K) {} h h1" "repr (k_oblist K) h1 {h_next h..} p d"
  obtain v where "ev K (Exp p) h1 (k_global_env K) v h1" "quotes_ok K h1" "Q v h1" using assms [OF a] by blast
  then show "\<exists>v h2. ev K (Exp p) h1 (k_global_env K) v h2 \<and> keeps_input K h1 h2 \<and> Q v h2"
    using growsD(2) [OF a(2)] by (intro exI [of _ v] exI [of _ h1]) (auto simp: keeps_input_def)
qed

text \<open>The text \<open>1\<close>, newline, \<open>'(1 "a")\<close>.\<close>

definition io_list :: datum where "io_list = D_Pair (D_Num (Integer 1)) (D_Pair (D_Str [97]) D_Nil)"

lemma io_grows: "grows 5 {} io_store h \<Longrightarrow> quotes_ok io_globals h"
  using quotes_grows [OF io_quotes] by (simp add: io_globals_def)

lemma io_number: "evaluates io_globals (\<lambda>w h. grows 5 {} io_store h) (D_Num x) (\<lambda>v h. grows 5 {} io_store h)"
proof (rule evaluates_still)
  fix h h1 p assume a: "grows 5 {} io_store h" "grows (k_oblist io_globals) {} h h1" "repr (k_oblist io_globals) h1 {h_next h..} p (D_Num x)"
  have g: "grows 5 {} io_store h1" using grows_then [OF a(1)] a(2) by (simp add: io_globals_def)
  have "ev io_globals (Exp p) h1 (k_global_env io_globals) p h1" using a(3) by (intro Const) (auto simp: is_symbol_def is_pair_def)
  then show "\<exists>v. ev io_globals (Exp p) h1 (k_global_env io_globals) v h1 \<and> quotes_ok io_globals h1 \<and> grows 5 {} io_store h1"
    using g io_grows by blast
qed

lemma io_quote:
  "evaluates io_globals (\<lambda>w h. grows 5 {} io_store h) (D_Pair (D_Sym (ascii ''quote'')) (D_Pair x D_Nil)) (\<lambda>v h. repr 5 h UNIV v x)"
proof (rule evaluates_still)
  let ?d = "D_Pair (D_Sym (ascii ''quote'')) (D_Pair x D_Nil)"
  fix h h1 p assume a: "grows 5 {} io_store h" "grows (k_oblist io_globals) {} h h1" "repr (k_oblist io_globals) h1 {h_next h..} p ?d"
  have g: "grows 5 {} io_store h1" using grows_then [OF a(1)] a(2) by (simp add: io_globals_def)
  have f: "oblist_find_by_name io_store 5 (ascii ''quote'') = Some 11" "(11 :: nat) \<noteq> NIL"
    by (simp_all add: io_find io_symbols NIL_def)
  have s: "oblist_find_by_name h1 5 (ascii ''quote'') = Some 11" by (rule growsD(7) [OF g f])
  have c: "h_cell h1 11 = Syntax 10 0" "h_cell h1 10 = String 0 5" "h_buf h1 0 = ascii ''quote'' @ [0]"
    using growsD(5) [OF g, of 11] growsD(5) [OF g, of 10] growsD(6) [OF g, of 0] by (simp_all add: io_store_def)
  have x: "is_syntax h1 11" "syntaxnum h1 11 = Some (O0 OP_QUOTE)"
    using c by (simp_all add: is_syntax_def syntaxnum_def car_def ascii_def)
  obtain d z where d: "h_cell h1 p = Pair 11 d" "h_cell h1 d = Pair z NIL" "repr 5 h1 {h_next h..} z x"
    using a(3) s by (auto simp: io_globals_def)
  have "car h1 d = Some z" using d(2) by (simp add: car_def)
  then have "ev io_globals (Exp p) h1 (k_global_env io_globals) z h1" using d(1) x by (auto intro: Syntactic Quote)
  then show "\<exists>v. ev io_globals (Exp p) h1 (k_global_env io_globals) v h1 \<and> quotes_ok io_globals h1 \<and> repr 5 h1 UNIV v x"
    using d(3) io_grows [OF g] repr_mono by blast
qed

lemma io_script:
  "script io_globals (\<lambda>w h. grows 5 {} io_store h) [D_Num (Integer 1), io_datum] (\<lambda>v h. repr 5 h UNIV v io_list)"
  using script_Cons [OF io_number script_Cons [OF io_quote [of io_list] script_Nil]] by (simp add: io_datum_def io_list_def)

theorem load_string_runs_script_witness:
  "\<exists>sc h. scheme_load_string io_globals [49, 10, 39, 40, 49, 32, 34, 97, 34, 41] (regs io_store 0 0 0 0 [] (O0 OP_T0LVL)) = Some (0, sc) \<and>
     repr 5 h UNIV (r_value sc) io_list \<and> h_cell (heap sc) = (h_cell h)(39 := Junk)"
proof -
  let ?xs = "[(D_Num (Integer 1), [10]), (io_datum, [])]" and ?cmd = "[49, 10, 39, 40, 49, 32, 34, 97, 34, 41]"
  have K: "k_oblist io_globals = 5" by (simp add: io_globals_def)
  have n: "text_of (D_Num (Integer 1)) = [49]" by (simp add: num_text_def dec_int_def dec_nat.simps)
  have r: "readable (D_Num (Integer 1))"
    by (simp add: number_back_def in_i64_def STRBUFF_def num_text_def dec_int_def dec_nat.simps delim_def digit_def word_le_def)
  have sep: "separated ?xs" using r io_readable by (simp add: separator_def)
  have t: "?cmd = [] @ script_text ?xs" using n io_text by simp
  have g: "grows 5 {} io_store (open_string ?cmd (heap (regs io_store 0 0 0 0 [] (O0 OP_T0LVL))))"
    using open_string_grows [OF io_ok] by simp
  have sc: "script io_globals (\<lambda>w h. grows 5 {} io_store h) (map fst ?xs) (\<lambda>v h. repr 5 h UNIV v io_list)" using io_script by simp
  have "h_next io_store = 39" by (simp add: io_store_def)
  then show ?thesis
    using load_string_runs_script [where K = io_globals and xs = ?xs and ws = "[]" and cmd = ?cmd
        and P = "\<lambda>w h. grows 5 {} io_store h" and sc = "regs io_store 0 0 0 0 [] (O0 OP_T0LVL)", OF sc sep _ t _ _ g] io_ok io_quotes K
    by (auto simp: separator_def)
qed

end
