(* ===== verification/Scheme_Shown.thy ===== *)
theory Scheme_Shown
  imports Scheme_Show Scheme_Data
begin

text \<open>What \<open>printSchemeCell\<close> shows of a datum: it ends, and gives the text of a reference definition.\<close>

section \<open>Reference text\<close>

fun spine :: "datum \<Rightarrow> datum list \<times> datum" where
  "spine (D_Pair x y) = (x # fst (spine y), snd (spine y))"
| "spine d = ([], d)"

lemma spine_size: "e \<in> set (fst (spine d)) \<Longrightarrow> size e < size d"
  by (induction d) auto

lemma spine_end: "snd (spine d) \<noteq> D_Pair x y"
  by (induction d) auto

text \<open>
  A proper list shows its elements between parentheses, or how many there are when they are more than 1000; of any
  other pair both fields are shown, the second with parentheses of its own. Characters show as their code.
\<close>

function shown :: "bool \<Rightarrow> bool \<Rightarrow> datum \<Rightarrow> byte list" where
  "shown full quotes D_Nil = (if full then ascii ''()'' else ascii ''NIL'')"
| "shown full quotes (D_Bool b) = (if b then ascii ''#t'' else ascii ''#f'')"
| "shown full quotes (D_Num x) = show_num full x"
| "shown full quotes (D_Char c) = dec_int c"
| "shown full quotes (D_Str s) = (let t = takeWhile (\<lambda>c. c \<noteq> 0) s in if quotes then 34 # t @ [34] else t)"
| "shown full quotes (D_Sym n) = n"
| "shown full quotes (D_Pair x y) =
     (if snd (spine y) \<noteq> D_Nil then 40 # shown full quotes x @ ascii '' . '' @ shown full quotes y @ [41]
      else if 1000 < Suc (length (fst (spine y))) \<and> \<not> full then
        ascii ''( -- '' @ dec_nat (Suc (length (fst (spine y)))) @ ascii '' elements -- )''
      else 40 # between [32] (map (shown full quotes) (x # fst (spine y))) @ [41])"
  by pat_completeness auto

termination by (relation "measure (size \<circ> snd \<circ> snd)") (auto dest: spine_size)

section \<open>The printer\<close>

text \<open>The strings of a datum end with a zero byte.\<close>

fun strings_end :: "store \<Rightarrow> addr \<Rightarrow> datum \<Rightarrow> bool" where
  "strings_end h p (D_Str s) \<longleftrightarrow> (\<forall>b n. h_cell h p = String b n \<longrightarrow> length s < length (h_buf h b) \<and> h_buf h b ! length s = 0)"
| "strings_end h p (D_Pair x y) \<longleftrightarrow> (\<forall>a d. h_cell h p = Pair a d \<longrightarrow> strings_end h a x \<and> strings_end h d y)"
| "strings_end h p d \<longleftrightarrow> True"

fun no_strings :: "datum \<Rightarrow> bool" where
  "no_strings (D_Str s) \<longleftrightarrow> False"
| "no_strings (D_Pair x y) \<longleftrightarrow> no_strings x \<and> no_strings y"
| "no_strings d \<longleftrightarrow> True"

lemma no_strings_end: "no_strings d \<Longrightarrow> strings_end h p d"
  by (induction d arbitrary: p) auto

definition showable :: "addr \<Rightarrow> store \<Rightarrow> addr set \<Rightarrow> addr \<Rightarrow> datum \<Rightarrow> bool" where
  "showable ob h F p d \<longleftrightarrow> repr ob h F p d \<and> strings_end h p d"

lemma showable_pair: "showable ob h F p (D_Pair x y) \<longleftrightarrow>
  p \<in> F \<and> (\<exists>a d. h_cell h p = Pair a d \<and> showable ob h F a x \<and> showable ob h F d y)"
  by (auto simp: showable_def)

lemma c_str_prefix:
  assumes "n < length s" "s ! n = 0"
  shows "takeWhile (\<lambda>c. c \<noteq> 0) s = takeWhile (\<lambda>c. c \<noteq> 0) (take n s)"
proof -
  have "s = take n s @ 0 # drop (Suc n) s" using id_take_nth_drop [OF assms(1)] assms(2) by simp
  from arg_cong [OF this, of "takeWhile (\<lambda>c. c \<noteq> 0)"] show ?thesis by (simp only: takeWhile_tail [of "\<lambda>c. c \<noteq> 0" 0] simp_thms)
qed

lemma showable_spine:
  "showable ob h F p d \<Longrightarrow> \<exists>xs e. segment h p xs e \<and> list_all2 (showable ob h F) (elems xs) (fst (spine d)) \<and> repr ob h F e (snd (spine d))"
proof (induction d arbitrary: p)
  case (D_Pair x y)
  then obtain a q where p: "h_cell h p = Pair a q" "showable ob h F a x" "showable ob h F q y" by (auto simp: showable_pair)
  obtain xs e where "segment h q xs e" "list_all2 (showable ob h F) (elems xs) (fst (spine y))" "repr ob h F e (snd (spine y))"
    using D_Pair.IH(2) [OF p(3)] by blast
  then show ?case using p by (intro exI [of _ "(p, a) # xs"] exI [of _ e]) auto
qed (auto simp: showable_def intro: exI [of _ "[]"])

lemma list_ref_segment: "segment h p xs e \<Longrightarrow> i < length xs \<Longrightarrow> list_ref_nat h i p = Some (elems xs ! i)"
proof (induction xs arbitrary: p i)
  case (Cons x xs)
  then show ?case by (cases x; cases i) (auto simp: is_pair_def car_def cdr_def)
qed simp

lemma map_options_Some: "(\<And>x. x \<in> set xs \<Longrightarrow> f x = Some (g x)) \<Longrightarrow> map_options f xs = Some (map g xs)"
  by (induction xs) auto

lemma map_options_cong: "(\<And>x. x \<in> set xs \<Longrightarrow> f x = g x) \<Longrightarrow> map_options f xs = map_options g xs"
  by (induction xs) auto

lemma map_upt_all2:
  assumes "list_all2 R as ds" "\<And>a d. R a d \<Longrightarrow> d \<in> set ds \<Longrightarrow> f a = Some (g d)"
  shows "map_options (\<lambda>i. f (as ! i)) [0..<length as] = Some (map g ds)"
proof -
  have l: "length as = length ds" using assms(1) by (rule list_all2_lengthD)
  have "map_options (\<lambda>i. f (as ! i)) [0..<length as] = Some (map (\<lambda>i. g (ds ! i)) [0..<length as])"
    by (rule map_options_Some) (use assms list_all2_nthD [OF assms(1)] l in auto)
  also have "map (\<lambda>i. g (ds ! i)) [0..<length as] = map g ds" by (rule nth_equalityI) (simp_all add: l)
  finally show ?thesis .
qed

lemma repr_end: "repr ob h F e (snd (spine d)) \<Longrightarrow> oblist_ok h ob \<Longrightarrow> \<not> is_pair h e \<and> (e = NIL \<longleftrightarrow> snd (spine d) = D_Nil)"
proof -
  assume r: "repr ob h F e (snd (spine d))" and ok: "oblist_ok h ob"
  have sok: "store_ok h" using ok by (simp add: oblist_ok_def)
  have a: "h_cell h NIL = Atom" "h_cell h T_OBJ = Atom" "h_cell h F_OBJ = Atom" using sok by (simp_all add: store_ok_def)
  show ?thesis
  proof (cases "snd (spine d)")
    case (D_Sym n)
    then have "symname h e = Some n" "e \<noteq> NIL" using found_symname [OF ok] r by auto
    then show ?thesis using D_Sym by (auto dest: symname_cell simp: is_pair_def)
  next
    case (D_Pair x y)
    then show ?thesis using spine_end by simp
  qed (use r a in \<open>(cases "e = NIL"; auto simp: is_pair_def NIL_def T_OBJ_def F_OBJ_def split: if_splits)+\<close>)
qed

lemma print_list:
  assumes "h_cell h p = Pair a q" "list_length h p = Some (int n)"
  shows "printSchemeCell ptr h full quotes p =
    (if 1000 < n \<and> \<not> full then Some (ascii ''( -- '' @ dec_nat n @ ascii '' elements -- )'')
     else do { ss \<leftarrow> map_options (\<lambda>i. do { x \<leftarrow> list_ref_nat h i p; printSchemeCell ptr h full quotes x }) [0..<n];
               Some (40 # between [32] ss @ [41]) })"
  using assms by (subst printSchemeCell.simps) (simp add: dec_int_def)

lemma print_datum:
  assumes "showable ob h F p d" "oblist_ok h ob"
  shows "printSchemeCell ptr h full quotes p = Some (shown full quotes d)"
  using assms(1)
proof (induction full quotes d arbitrary: p rule: shown.induct)
  case (5 full quotes s)
  then obtain b where b: "h_cell h p = String b (length s)" "take (length s) (h_buf h b) = s" "length s < length (h_buf h b)"
    "h_buf h b ! length s = 0" by (auto simp: showable_def)
  then have "c_str h b = takeWhile (\<lambda>c. c \<noteq> 0) s" using c_str_prefix [OF b(3,4)] by (simp add: c_str_def)
  then show ?case using b(1) by (subst printSchemeCell.simps) (simp add: Let_def)
next
  case (6 full quotes n)
  then have n: "symname h p = Some n" using found_symname [OF assms(2)] by (auto simp: showable_def)
  then obtain s k where "h_cell h p = Symbol s k \<or> h_cell h p = Syntax s k" using symname_cell by blast
  then show ?case using n by (subst printSchemeCell.simps) auto
next
  case (7 full quotes x y)
  then obtain a q where p: "h_cell h p = Pair a q" "showable ob h F a x" "showable ob h F q y" by (auto simp: showable_pair)
  obtain xs e where xs: "segment h p xs e" "list_all2 (showable ob h F) (elems xs) (x # fst (spine y))" "repr ob h F e (snd (spine y))"
    using showable_spine [OF 7(4)] by auto
  have e: "\<not> is_pair h e" "e = NIL \<longleftrightarrow> snd (spine y) = D_Nil" using repr_end [OF xs(3) assms(2)] by auto
  have len: "length xs = Suc (length (fst (spine y)))" using list_all2_lengthD [OF xs(2)] by simp
  have ll: "list_length h p = Some (if snd (spine y) = D_Nil then int (length xs) else -1)"
    using list_length_loop_segment [OF xs(1) e(1), of 0] e(2) by (simp add: list_length_def)
  show ?case
  proof (cases "snd (spine y) = D_Nil")
    case False
    then show ?thesis using 7(1,2) p ll by (subst printSchemeCell.simps) simp
  next
    case True
    have "map_options (\<lambda>i. printSchemeCell ptr h full quotes (elems xs ! i)) [0..<length (elems xs)] =
        Some (map (shown full quotes) (x # fst (spine y)))" if "\<not> (1000 < length xs \<and> \<not> full)"
      by (rule map_upt_all2 [OF xs(2)]) (use 7(3) True that len in auto)
    moreover have "map_options (\<lambda>i. do { z \<leftarrow> list_ref_nat h i p; printSchemeCell ptr h full quotes z }) [0..<length xs] =
        map_options (\<lambda>i. printSchemeCell ptr h full quotes (elems xs ! i)) [0..<length xs]"
      by (rule map_options_cong) (simp add: list_ref_segment [OF xs(1)])
    ultimately have m: "map_options (\<lambda>i. do { z \<leftarrow> list_ref_nat h i p; printSchemeCell ptr h full quotes z }) [0..<length xs] =
        Some (map (shown full quotes) (x # fst (spine y)))" if "\<not> (1000 < length xs \<and> \<not> full)" using that by simp
    have "list_length h p = Some (int (length xs))" using ll True by simp
    note eq = print_list [OF p(1) this, of ptr full quotes]
    have sh: "shown full quotes (D_Pair x y) =
        (if 1000 < length xs \<and> \<not> full then ascii ''( -- '' @ dec_nat (length xs) @ ascii '' elements -- )''
         else 40 # between [32] (map (shown full quotes) (x # fst (spine y))) @ [41])"
      using True len by (simp del: between.simps list.map)
    show ?thesis
    proof (cases "1000 < length xs \<and> \<not> full")
      case C: False
      show ?thesis unfolding eq sh if_not_P [OF C] m [OF C] by simp
    next
      case C: True
      show ?thesis unfolding eq sh if_P [OF C] ..
    qed
  qed
qed (subst printSchemeCell.simps; use assms(2) in \<open>auto simp: showable_def oblist_ok_def store_ok_def NIL_def T_OBJ_def F_OBJ_def\<close>)+

text \<open>C15: \<open>printSchemeCell\<close> ends on the object of a datum, whatever its size, and shows the reference text, when strings end with a zero byte.
\<close>

theorem print_shows_datum:
  assumes "showable ob h F p d" "oblist_ok h ob"
  shows "printSchemeCell ptr h full quotes p = Some (shown full quotes d)"
  by (rule print_datum [OF assms])

end
