(* ===== verification/Repl_Process.thy ===== *)
theory Repl_Process
  imports Process_Claims Scheme_Script Scheme_Shown
begin

text \<open>
  From a line of text an editor sends to the answer it gets: the server's server_turn, the task, the interpreter's run on the text and what is shown of the value.
\<close>

section \<open>One exchange\<close>

text \<open>A text that the client sends, when each piece arrives as it was written.\<close>

definition arrives :: "syscalls \<Rightarrow> server \<Rightarrow> int \<Rightarrow> int \<Rightarrow> byte list \<Rightarrow> bool" where
  "arrives io sv listen sock s \<longleftrightarrow>
     only_ready io sv listen sock \<and> sv_in sv sock = [] \<and> (\<forall>i. sc_before io i \<noteq> CR) \<and> sc_recv io sock = map Bytes (writeString length s) \<and>
     0 \<le> sock \<and> sock < 2 ^ 31 \<and> length s < 10000000 \<and> length s mod 1024 \<noteq> 1023"

text \<open>An expression as a text for the REPL: it can be read back, has no CR and no byte the ports treat as an end, and is no \<open>ipc\<close> call.\<close>

definition repl_text :: "datum \<Rightarrow> byte list \<Rightarrow> bool" where
  "repl_text d s \<longleftrightarrow> readable d \<and> s = text_of d \<and> CR \<notin> set s \<and> 0 \<notin> set s \<and> 255 \<notin> set s \<and> take 4 (s @ [CR]) \<noteq> ascii ''(ipc''"

definition tables_ok :: "globals \<Rightarrow> process \<Rightarrow> bool" where
  "tables_ok K p \<longleftrightarrow> oblist_ok (heap (pr_scheme p)) (k_oblist K) \<and> quotes_ok K (heap (pr_scheme p))"

lemma separator_CR: "separator [CR]"
  by (simp add: separator_def CR_def)

lemma byte_CR: "CR \<noteq> 255" "CR \<noteq> 0" "TERMINATION_CHAR \<noteq> CR"
  by (simp_all add: CR_def TERMINATION_CHAR_def)

lemma repl_queued:
  assumes "arrives io sv listen sock s" "repl_text d s"
  shows "\<exists>sv' io'. turns 1 io m listen sv = Some (sv', io') \<and> sv_queue sv' = sv_queue sv @ [repl_task io m sock (s @ [CR])]"
  using repl_text_queued [of io sv listen sock s m] assms by (auto simp: arrives_def repl_text_def)

lemma repl_string_eq:
  assumes "0 \<le> sock" "sock < 2 ^ 31" "repl_text d s" "scheme_load_string K (s @ [CR]) (pr_scheme p) = Some (0, sc)"
  shows "repl_string K rate now (dec_int sock) (s @ [CR]) p =
    do { res \<leftarrow> answer K rate now (p\<lparr>pr_scheme := sc\<rparr>); Some (p\<lparr>pr_scheme := sc, pr_sent := pr_sent p @ [(sock, res @ [0])]\<rparr>) }"
proof -
  have a: "atoll (dec_int sock) = Some sock" using atoll_dec_int [of sock "[]"] assms(1,2) by (simp add: in_i64_def)
  have "s \<noteq> []" using text_hd assms(3) by (auto simp: repl_text_def)
  then have "1 < length (s @ [CR])" by (cases s) simp_all
  moreover have "take 4 (s @ [CR]) \<noteq> ascii ''(ipc''" using assms(3) unfolding repl_text_def by blast
  moreover have "last (s @ [CR]) \<noteq> TERMINATION_CHAR" using byte_CR by simp
  ultimately show ?thesis using a assms(4) by (simp add: repl_string_def load_task_def Let_def del: take_append length_append last_snoc)
qed

text \<open>Dropping the port of the text changes no data.\<close>

lemma drop_port_data:
  assumes c: "h_cell h p = Port i" and h': "h_cell h' = (h_cell h)(p := Junk)" "h_buf h' = h_buf h"
    "\<And>m. oblist_find_by_name h' (k_oblist K) m = oblist_find_by_name h (k_oblist K) m"
  shows "showable (k_oblist K) h F v d \<Longrightarrow> showable (k_oblist K) h' F v d"
proof (induction d arbitrary: v)
  case (D_Pair x y)
  then show ?case using c h' by (auto simp: showable_pair)
qed (use c h' in \<open>auto simp: showable_def split: if_splits\<close>)

text \<open>C13: an editor sends the text of a readable expression on a connection, with an empty queue. If evaluating the expression ends with the
  datum \<open>x\<close>, the task thread sends to that connection, and to no other, the prompt, when there is one, and the text of \<open>x\<close>; the queue is
  empty again and the symbol table in order for the next text. The conditions: the connection is the only one ready, nothing is left
  over of an earlier text, \<open>recv\<close> returns the pieces as the client wrote them and the byte in front of the receive buffer is no CR
  (\<open>arrives\<close>); the text is shorter than ten million bytes and its length is not 1023 modulo 1024 (see C39); it has no CR, no byte 0
  or 255 and does not begin with \<open>(ipc\<close> (\<open>repl_text\<close>); the symbol table is in order; the prompt
  fits its array, as it does for a hundred hours; and the evaluation stays within the time limit of the task.
\<close>

theorem repl_answers_value:
  assumes "arrives io sv listen sock s" "sv_queue sv = []" "repl_text d s" "tables_ok K p"
    "evaluates K P d (\<lambda>v h. showable (k_oblist K) h UNIV v x)"
    "P (r_value (pr_scheme p)) (open_string (s @ [CR]) (heap (pr_scheme p)))"
    "(if pr_banner p then reply_prompt rate now else Some []) = Some prompt"
  shows "\<exists>sv' io' p'. turns 1 io m listen sv = Some (sv', io') \<and>
    run_front K native rate now (p\<lparr>pr_queue := sv_queue sv'\<rparr>) = Some (Running p') \<and>
    pr_sent p' = pr_sent p @ [(sock, prompt @ shown False True x @ [0])] \<and> pr_queue p' = [] \<and> tables_ok K p'"
proof -
  obtain sv' io' where q: "turns 1 io m listen sv = Some (sv', io')" "sv_queue sv' = [repl_task io m sock (s @ [CR])]"
    using repl_queued [OF assms(1,3), of m] assms(2) append_Nil by metis
  note t = assms(3) [unfolded repl_text_def]
  have "script K P (map fst [(d, [CR])]) (\<lambda>v h. showable (k_oblist K) h UNIV v x)"
    using script_Cons [OF assms(5) script_Nil] by simp
  from load_string_script [OF this, of "[]" "s @ [CR]" "pr_scheme p"]
  obtain sc h i where sc: "scheme_load_string K (s @ [CR]) (pr_scheme p) = Some (0, sc)" "showable (k_oblist K) h UNIV (r_value sc) x" "oblist_ok h (k_oblist K)" "h_cell h (h_next (heap (pr_scheme p))) = Port i"
    "\<And>m. oblist_find_by_name (heap sc) (k_oblist K) m = oblist_find_by_name h (k_oblist K) m"
    "h_cell (heap sc) = (h_cell h)(h_next (heap (pr_scheme p)) := Junk)" "h_buf (heap sc) = h_buf h"
    "oblist_ok (heap sc) (k_oblist K)" "quotes_ok K (heap sc)"
    using t assms(4,6) separator_CR byte_CR by (auto simp: separator_def tables_ok_def)
  have "showable (k_oblist K) (heap sc) UNIV (r_value sc) x" by (rule drop_port_data [OF sc(4,6,7,5) sc(2)])
  then have shows_x: "printSchemeCell (k_pointer K) (heap sc) False True (r_value sc) = Some (shown False True x)"
    using print_datum sc(8) by blast
  let ?p = "p\<lparr>pr_queue := []\<rparr>"
  have "repl_string K rate now (dec_int sock) (s @ [CR]) ?p =
      Some (?p\<lparr>pr_scheme := sc, pr_sent := pr_sent p @ [(sock, prompt @ shown False True x @ [0])]\<rparr>)"
    using repl_string_eq [of sock d s K ?p sc rate now] assms(1,3,7) sc(1) shows_x by (simp add: arrives_def answer_def)
  then show ?thesis using q sc(8,9) by (auto simp: run_front_def run_body_def repl_task_def tables_ok_def)
qed

section \<open>A call that fails\<close>

text \<open>Calling a number throws; the value register then holds the number.\<close>

lemma number_call_throws:
  assumes "h_cell h p = Pair a NIL" "h_cell h a = Number x" "store_ok h"
  shows "\<exists>h' sc'. eval_cycle K (regs h NIL e p p D (O0 OP_EVAL)) = Some (Throw ''Attempting to return a string from non-symbol obj'' a sc') \<and>
    sc' = regs h' NIL e a a D (O0 OP_APPLY) \<and> h' = fst (cons h a NIL)"
proof -
  let ?f = "frame_of (O0 OP_E0ARGS) NIL e p" and ?h = "fst (cons h a NIL)"
  let ?sc = "regs ?h NIL e a a D (O0 OP_APPLY)"
  have n: "\<not> is_symbol h a" "\<not> is_pair h a" "\<not> is_macro h a" "\<not> is_syntax h a" using assms(2) by (simp_all add: is_symbol_def is_pair_def is_macro_def is_syntax_def)
  have nil: "\<not> is_pair h NIL" "NIL < h_next h" "a < h_next h" using store_okD(2,3) [OF assms(3)] assms(2,3) by (auto simp: store_ok_def)
  have s1: "step K (regs h NIL e p p D (O0 OP_EVAL)) = Some (Next (regs h NIL e a p (?f # D) (O0 OP_EVAL)))"
    using assms(1) n(4) by (simp add: eval_simps not_symbol_pair)
  have l1: "leads K (regs h NIL e a p (?f # D) (O0 OP_EVAL)) (regs h NIL e p a D (O0 OP_E0ARGS))"
    using returns_frame [of K h NIL e a p "O0 OP_EVAL" a h ?f D] ev_realizes [OF Const [OF n(1,2)]] by simp
  have s2: "step K (regs h NIL e p a D (O0 OP_E0ARGS)) = Some (Next (regs h NIL e NIL a D (O0 OP_E1ARGS)))"
    using n(3) assms(1) by (simp add: op_simps op_e0args_def cdr_def)
  have "put_cell ?h (h_next h) (Pair a NIL) = ?h" by (simp add: cons_def put_cell_def alloc_def new_cell_def Let_def)
  then have r: "reverse_in_place ?h NIL (h_next h) = Some (?h, h_next h)" using nil
    by (simp add: reverse_in_place_def relink_loop_run cons_def heap_simps)
  have s3: "step K (regs h NIL e NIL a D (O0 OP_E1ARGS)) = Some (Next ?sc)"
    using nil r by (simp add: op_simps op_e1args_def Let_def split_beta) (simp add: cons_def heap_simps is_pair_def car_def cdr_def put_cell_def)
  have "leads K (regs h NIL e p p D (O0 OP_EVAL)) ?sc"
    using leads_step [OF s1] leads_trans [OF l1] leads_step [OF s2 leads_step [OF s3 leads_refl]] by blast
  then have "eval_cycle K (regs h NIL e p p D (O0 OP_EVAL)) = eval_cycle K ?sc" by (rule leads_eval_cycle)
  also have "\<dots> = Some (Throw ''Attempting to return a string from non-symbol obj'' a ?sc)"
  proof -
    have "h_cell ?h a = Number x" using assms(2) nil by (simp add: cons_def heap_simps put_cell_def)
    then have "step K ?sc = Some (Throw ''Attempting to return a string from non-symbol obj'' a ?sc)"
      by (simp add: op_simps op_apply_def is_symbol_def)
    then show ?thesis by (subst eval_cycle.simps) simp
  qed
  finally show ?thesis by blast
qed

text \<open>What the report of an error changes: it only makes new cells.\<close>

definition adds_cells :: "addr \<Rightarrow> store \<Rightarrow> store \<Rightarrow> bool" where
  "adds_cells ob h h' \<longleftrightarrow> grows ob {} h h' \<and> h_loadport h' = h_loadport h"

lemma adds_trans [trans]: "adds_cells ob h h1 \<Longrightarrow> adds_cells ob h1 h2 \<Longrightarrow> adds_cells ob h h2"
  by (auto simp: adds_cells_def intro: grows_then)

lemma adds_cons: "oblist_ok h ob \<Longrightarrow> adds_cells ob h (fst (cons h a d))"
  by (simp add: adds_cells_def cons_def) (rule grows_alloc; simp)

lemma adds_ok: "adds_cells ob h h' \<Longrightarrow> oblist_ok h' ob"
  by (auto simp: adds_cells_def dest: growsD(2))

lemma adds_immutable: "oblist_ok h ob \<Longrightarrow> adds_cells ob h (setimmutable h p)"
  by (simp add: adds_cells_def setimmutable_def grows_same)

lemma adds_string: "oblist_ok h ob \<Longrightarrow> adds_cells ob h (fst (mk_string h s))"
proof -
  assume ok: "oblist_ok h ob"
  have 1: "grows ob {} h (fst (store_string h t))" for t by (rule grows_store_string [OF ok])
  have 2: "grows ob {} (fst (store_string h t)) (fst (alloc (String (snd (store_string h t)) n) (fst (store_string h t))))" for t n
    by (rule grows_alloc [OF growsD(2) [OF 1]]) (simp add: store_string_def)
  show ?thesis using grows_then [OF 1 2]
    by (simp add: adds_cells_def mk_string_def mk_counted_string_def Let_def split_beta) (simp add: store_string_def)
qed

lemma adds_quote: "oblist_ok h (k_oblist K) \<Longrightarrow> adds_cells (k_oblist K) h (fst (quote_list K h a))"
  using adds_trans [OF adds_cons adds_cons [OF adds_ok [OF adds_cons]]] by (simp add: quote_list_def Let_def split_beta)

lemma call_hook_adds:
  assumes "call_hook sc h s hook code = Some r" "oblist_ok h ob"
  shows "\<exists>sc1. r = Next sc1 \<and> r_value sc1 = r_value sc \<and> adds_cells ob h (heap sc1)"
proof -
  let ?h1 = "fst (mk_string h s)" and ?p = "snd (mk_string h s)"
  let ?h2 = "fst (cons ?h1 ?p code)"
  let ?h3 = "setimmutable ?h2 ?p"
  have 1: "adds_cells ob h ?h1" by (rule adds_string [OF assms(2)])
  have 2: "adds_cells ob h ?h2" by (rule adds_trans [OF 1 adds_cons [OF adds_ok [OF 1]]])
  have 3: "adds_cells ob h ?h3" by (rule adds_trans [OF 2 adds_immutable [OF adds_ok [OF 2]]])
  have 4: "adds_cells ob h (fst (cons ?h3 f c))" for f c by (rule adds_trans [OF 3 adds_cons [OF adds_ok [OF 3]]])
  show ?thesis using assms(1) 4
    by (auto simp: call_hook_def Let_def split_beta eval_in_def s_goto_def split: Option.bind_splits)
qed

lemma error_1_adds:
  assumes "error_1 K sc s (Some v) = Some r" "oblist_ok (heap sc) (k_oblist K)"
  shows "\<exists>sc1. (r = Next sc1 \<or> (\<exists>m b. r = Error m b sc1)) \<and> r_value sc1 = r_value sc \<and> adds_cells (k_oblist K) (heap sc) (heap sc1)"
proof -
  let ?h = "heap sc" and ?ob = "k_oblist K"
  have q: "adds_cells ?ob h (fst (cons (fst (quote_list K h v)) (snd (quote_list K h v)) d))" if "oblist_ok h ?ob" for h d
    by (rule adds_trans [OF adds_quote [OF that] adds_cons [OF adds_ok [OF adds_quote [OF that]]]])
  let ?h1 = "fst (mk_integer ?h 0)"
  have i: "adds_cells ?ob ?h ?h1" using assms(2) by (simp add: adds_cells_def mk_integer_def) (rule grows_alloc; simp)
  let ?h2 = "fst (cons ?h1 (snd (mk_integer ?h 0)) NIL)"
  have 2: "adds_cells ?ob ?h ?h2" by (rule adds_trans [OF i adds_cons [OF adds_ok [OF i]]])
  let ?k = "\<lambda>h d. fst (cons (fst (quote_list K h v)) (snd (quote_list K h v)) d)"
  have k2: "adds_cells ?ob ?h (?k ?h2 d)" for d by (rule adds_trans [OF 2 q [OF adds_ok [OF 2]]])
  have called: ?thesis if "call_hook sc h s x c = Some r" "adds_cells ?ob ?h h" for h x c
    using call_hook_adds [OF that(1) adds_ok [OF that(2)]] adds_trans [OF that(2)] by blast
  obtain x where x: "hook_of K sc (k_ERROR_HOOK K) = Some x" using assms(1) by (cases "hook_of K sc (k_ERROR_HOOK K)") (simp_all add: error_1_def)
  show ?thesis
  proof (cases "x = NIL")
    case False
    then have "\<exists>c. call_hook sc (?k ?h NIL) s x c = Some r" using assms(1) x by (simp add: error_1_def Let_def split_beta) blast
    then show ?thesis using called q [OF assms(2)] by blast
  next
    case True
    obtain y where y: "hook_of K sc (k_LIVECODING_ERROR_HOOK K) = Some y"
      using assms(1) x True by (cases "hook_of K sc (k_LIVECODING_ERROR_HOOK K)") (simp_all add: error_1_def)
    show ?thesis
    proof (cases "y = NIL")
      case False
      then have "\<exists>c d. call_hook sc (?k ?h2 d) s y c = Some r" using assms(1) x y True by (simp add: error_1_def Let_def split_beta) blast
      then show ?thesis using called k2 by blast
    next
      case y0: True
      then have "r = Error s (Some v) sc" using assms(1) x y True by (simp add: error_1_def)
      then show ?thesis using grows_refl [OF assms(2)] by (auto simp: adds_cells_def)
    qed
  qed
qed

text \<open>The report of an error has a result: the hooks can be looked up.\<close>

definition reports :: "globals \<Rightarrow> store \<Rightarrow> bool" where
  "reports K h \<longleftrightarrow>
     (\<forall>sc msg v. grows (k_oblist K) {} h (heap sc) \<longrightarrow> r_envir sc = k_global_env K \<longrightarrow> error_1 K sc msg (Some v) \<noteq> None)"

lemma grows_cell: "grows ob {} h h' \<Longrightarrow> h_cell h p = c \<Longrightarrow> c \<noteq> Junk \<Longrightarrow> (\<And>vs. c \<noteq> Vector vs) \<Longrightarrow> h_cell h' p = c"
proof -
  assume a: "grows ob {} h h'" "h_cell h p = c" "c \<noteq> Junk" "\<And>vs. c \<noteq> Vector vs"
  obtain vs where "h_cell h ob = Vector vs" "store_ok h" using growsD(1) [OF a(1)] by (rule oblist_okD)
  then have "p < h_next h" "p \<noteq> ob" using a(2-4) by (auto simp: store_ok_def)
  then show ?thesis using growsD(5) [OF a(1), of p] a(2) by simp
qed

lemma load_number_call:
  assumes "d = D_Pair (D_Num x) D_Nil" "readable d" "cmd = text_of d @ [CR]" "0 \<notin> set cmd" "255 \<notin> set cmd"
    "oblist_ok (heap sc) (k_oblist K)" "quotes_ok K (heap sc)" "reports K (heap sc)"
  shows "\<exists>sc' a sc0. scheme_load_string K cmd sc = Some (0, sc') \<and> h_cell (heap sc') (r_value sc') = Number x \<and>
    load K (open_string cmd (heap sc)) sc = Some (Throw ''Attempting to return a string from non-symbol obj'' a sc0) \<and>
    oblist_ok (heap sc') (k_oblist K) \<and> quotes_ok K (heap sc')"
proof -
  let ?ob = "k_oblist K" and ?E = "k_global_env K" and ?h = "open_string cmd (heap sc)"
  let ?hr = "?h\<lparr>h_save_inport := h_inport ?h, h_inport := h_loadport ?h\<rparr>"
  have g: "grows ?ob {} (heap sc) ?h" by (rule open_string_grows [OF assms(6)])
  have g0: "grows ?ob {} ?h ?hr" by (rule grows_same [OF growsD(2) [OF g]]) simp_all
  have ok: "oblist_ok ?hr ?ob" by (rule growsD(2) [OF g0])
  have quo: "quotes_ok K ?hr" by (rule quotes_grows [OF quotes_grows [OF assms(7) g] g0])
  obtain u where u: "input_at ?h u cmd" and l: "h_inport ?h = h_loadport ?h"
    using open_string_input(1) [OF assms(4,5), of "heap sc"] by (auto simp: at_load_def)
  have i: "input_at ?hr u ([] @ text_of d @ [CR])" using u l assms(3) by simp
  have st: "stops [CR]" by (simp add: stops_def delim_def CR_def)
  show ?thesis
  proof (rule reads_blanks [OF assms(2) ok quo i _ st])
    fix h1 p u' r'
    assume p: "\<And>a e c w. returns K [] ?hr a e c w (O0 OP_READ_INTERNAL) p h1" "repr ?ob h1 {h_next ?hr..} p d"
      "grows ?ob {} ?hr h1" "same_in h1 ?hr" "input_at h1 u' r'" "r' = [CR] \<or> [CR] = 10 # r'"
    have g1: "grows ?ob {} (heap sc) h1" using grows_then [OF grows_then [OF g g0] p(3)] .
    obtain a where a: "h_cell h1 p = Pair a NIL" "h_cell h1 a = Number x" using p(2) assms(1) by auto
    have port: "\<exists>i. h_cell h1 (h_loadport h1) = Port i" "h_loadport h1 = h_next (heap sc)"
      using p(4,5) l open_string_input(2) [OF assms(4,5)] by (auto simp: input_at_def)
    let ?D = "[frame_of (O0 OP_VALUEPRINT) NIL ?E NIL, frame_of (O0 OP_T0LVL) NIL ?E NIL]" and ?h2 = "fst (cons h1 a NIL)"
    let ?sc = "regs ?h2 NIL ?E a a ?D (O0 OP_APPLY)"
    have lead: "leads K (toplevel K ?h (r_args sc) ?E (r_code sc) (r_value sc) []) (regs h1 NIL ?E p p ?D (O0 OP_EVAL))"
      by (rule toplevel_reads [OF p(1)]) (use p(4) l in simp)
    have "store_ok h1" using growsD(2) [OF g1] by (simp add: oblist_ok_def)
    then have t: "load K ?h sc = Some (Throw ''Attempting to return a string from non-symbol obj'' a ?sc)"
      using number_call_throws [OF a, of K ?E ?D] leads_eval_cycle [OF lead] by (cases sc) (auto simp: load_def toplevel_def)
    have 2: "adds_cells ?ob h1 ?h2" by (rule adds_cons [OF growsD(2) [OF g1]])
    have g2: "grows ?ob {} (heap sc) ?h2" using grows_then [OF g1] 2 by (simp add: adds_cells_def)
    obtain r where r: "error_1 K ?sc (ascii ''Attempting to return a string from non-symbol obj'') (Some a) = Some r"
      using assms(8) g2 unfolding reports_def by fastforce
    obtain sc1 where sc1: "r = Next sc1 \<or> (\<exists>m b. r = Error m b sc1)" "r_value sc1 = a" "adds_cells ?ob ?h2 (heap sc1)"
      using error_1_adds [OF r] growsD(2) [OF g2] by auto
    have s: "scheme_load_string K cmd sc = Some (0, sc1\<lparr>heap := close_load (heap sc1)\<rparr>)"
      using t r sc1(1) by (auto simp: scheme_load_string_def run_ended_def reported_def closed_def)
    have g3: "grows ?ob {} h1 (heap sc1)" "h_loadport (heap sc1) = h_loadport h1"
      using adds_trans [OF 2 sc1(3)] by (simp_all add: adds_cells_def)
    obtain i where i: "h_cell (heap sc1) (h_loadport h1) = Port i" using port(1) grows_cell [OF g3(1)] by fastforce
    note k = drop_port [OF growsD(2) [OF g3(1)] i, of "close_load (heap sc1)"]
    have q: "quotes_ok K (heap sc1)" using quotes_grows [OF quotes_grows [OF assms(7) g1] g3(1)] .
    have "h_cell (heap sc1) a = Number x" by (rule grows_cell [OF g3(1) a(2)]) simp_all
    then have "h_cell (close_load (heap sc1)) a = Number x" using i g3(2) by (auto simp: close_load_def put_cell_def)
    moreover have "oblist_ok (close_load (heap sc1)) ?ob" "quotes_ok K (close_load (heap sc1))"
      using k q g3(2) unfolding quotes_ok_def by (simp_all add: close_load_def put_cell_def)
    ultimately show ?thesis using s sc1(2) t by auto
  qed simp
qed

text \<open>C38: a call whose operator is an exact number, \<open>(x)\<close>, fails, the evaluation ends with an exception; but the editor that sent it is
  sent the prompt, when there is one, and \<open>x\<close>, as if that were the value. This is for a text that arrives as \<open>arrives\<close> says (one ready
  client with nothing left over, whose pieces arrive as they were written, a length that is not 1023 modulo 1024 and below ten million, no CR
  in front of the receive buffer), an empty queue, the symbol table in order, error hooks that can be looked up (\<open>reports\<close>), and
  a call that stays within its time.
\<close>

theorem failed_call_answered:
  assumes "arrives io sv listen sock s" "sv_queue sv = []" "repl_text (D_Pair (D_Num x) D_Nil) s" "tables_ok K p"
    "reports K (heap (pr_scheme p))" "(if pr_banner p then reply_prompt rate now else Some []) = Some prompt"
  shows "\<exists>sv' io' p' a sc0. turns 1 io m listen sv = Some (sv', io') \<and>
    load K (open_string (s @ [CR]) (heap (pr_scheme p))) (pr_scheme p) =
      Some (Throw ''Attempting to return a string from non-symbol obj'' a sc0) \<and>
    run_front K native rate now (p\<lparr>pr_queue := sv_queue sv'\<rparr>) = Some (Running p') \<and>
    pr_sent p' = pr_sent p @ [(sock, prompt @ show_num False x @ [0])]"
proof -
  obtain sv' io' where q: "turns 1 io m listen sv = Some (sv', io')" "sv_queue sv' = [repl_task io m sock (s @ [CR])]"
    using repl_queued [OF assms(1,3), of m] assms(2) append_Nil by metis
  obtain sc a sc0 where sc: "scheme_load_string K (s @ [CR]) (pr_scheme p) = Some (0, sc)" "h_cell (heap sc) (r_value sc) = Number x"
    "load K (open_string (s @ [CR]) (heap (pr_scheme p))) (pr_scheme p) =
      Some (Throw ''Attempting to return a string from non-symbol obj'' a sc0)"
    using load_number_call [of "D_Pair (D_Num x) D_Nil" x "s @ [CR]" "pr_scheme p" K] assms(3-5) byte_CR
    by (auto simp: repl_text_def tables_ok_def)
  have v: "printSchemeCell (k_pointer K) (heap sc) False True (r_value sc) = Some (show_num False x)"
    using sc(2) by (subst printSchemeCell.simps) simp
  have "repl_string K rate now (dec_int sock) (s @ [CR]) (p\<lparr>pr_queue := []\<rparr>) =
      Some (p\<lparr>pr_queue := [], pr_scheme := sc, pr_sent := pr_sent p @ [(sock, prompt @ show_num False x @ [0])]\<rparr>)"
    using repl_string_eq [OF _ _ assms(3), of sock K "p\<lparr>pr_queue := []\<rparr>" sc rate now] assms(1,6) sc(1) v by (simp add: arrives_def answer_def)
  then show ?thesis using q sc(3) by (auto simp: run_front_def run_body_def repl_task_def)
qed

section \<open>Examples\<close>

definition io_process :: process where
  "io_process = \<lparr>pr_scheme = regs io_store 0 0 0 0 [] (O0 OP_T0LVL), pr_imp_env = {}, pr_queue = [], pr_objs = [], pr_banner = True,
     pr_out = 5, pr_max_duration = 1, pr_sent = [], pr_errors = []\<rparr>"

definition io_pair :: datum where "io_pair = D_Pair (D_Num (Integer 1)) (D_Pair (D_Num (Integer 2)) D_Nil)"

theorem print_shows_datum_witness:
  "printSchemeCell (\<lambda>_. []) io_store False True 36 = Some (ascii ''((quote (1 \"a\")))'')"
proof -
  have "repr 5 io_store UNIV 36 (D_Pair io_datum D_Nil)" using io_repr by simp (simp add: io_store_def NIL_def)
  moreover have "strings_end io_store 36 (D_Pair io_datum D_Nil)" by (simp add: io_datum_def) (simp add: io_store_def)
  moreover have "shown False True (D_Pair io_datum D_Nil) = ascii ''((quote (1 \"a\")))''"
    by (simp add: io_datum_def show_num_def dec_int_def dec_nat.simps ascii_def chr_def)
  ultimately show ?thesis using print_shows_datum [of 5 io_store UNIV 36 "D_Pair io_datum D_Nil" "\<lambda>_. []" False True] io_ok
    by (simp add: showable_def)
qed

lemma io_tables: "tables_ok io_globals io_process"
  using io_ok io_quotes by (simp add: tables_ok_def io_process_def io_globals_def)

lemma io_arrives: "length s < 1000 \<Longrightarrow> arrives (calls (map Bytes (writeString length s))) one_client 4 5 s"
  using only_one by (simp add: arrives_def one_client_def calls_def CR_def)

lemma io_prompt: "reply_prompt 44100 0 = Some (10 # ascii ''[extempore 00:00:00]: '')"
  by (simp add: reply_prompt_def clock_text_def HOUR_def MINUTE_def SECOND_def fits_def padded2_def pad_left_def dec_nat.simps ascii_def chr_def)

lemma digits_12: "num_text (Integer 1) = [49]" "num_text (Integer 2) = [50]"
  by (simp_all add: num_text_def dec_int_def dec_nat.simps)

lemma io_number_readable: "readable (D_Num (Integer 1))" "readable (D_Num (Integer 2))"
  by (simp_all add: number_back_def in_i64_def STRBUFF_def digits_12 delim_def digit_def word_le_def)

lemma io_quoted: "evaluates io_globals (\<lambda>w h. grows 5 {} io_store h) (D_Pair (D_Sym (ascii ''quote'')) (D_Pair io_pair D_Nil))
    (\<lambda>v h. showable (k_oblist io_globals) h UNIV v io_pair)"
proof -
  have "repr 5 h UNIV v io_pair \<longrightarrow> showable (k_oblist io_globals) h UNIV v io_pair" for v h
    using no_strings_end [of io_pair] by (auto simp: showable_def io_pair_def io_globals_def)
  then show ?thesis using io_quote [of io_pair] unfolding evaluates_def by blast
qed

lemma io_quoted_text: "repl_text (D_Pair (D_Sym (ascii ''quote'')) (D_Pair io_pair D_Nil)) [39, 40, 49, 32, 50, 41]"
proof -
  have "readable (D_Sym (ascii ''quote''))" using io_readable by (simp add: io_datum_def)
  then show ?thesis using io_number_readable
    by (simp add: repl_text_def io_pair_def prefix_of_def ascii_def chr_def digits_12 CR_def delim_def)
qed

lemma io_shown: "shown False True io_pair = ascii ''(1 2)''"
  by (simp add: io_pair_def show_num_def dec_int_def dec_nat.simps ascii_def chr_def)

theorem repl_answers_value_witness:
  "\<exists>sv' io' p'. turns 1 (calls (map Bytes (writeString length [39, 40, 49, 32, 50, 41]))) 1 4 one_client = Some (sv', io') \<and>
    run_front io_globals (\<lambda>_. Some) 44100 0 (io_process\<lparr>pr_queue := sv_queue sv'\<rparr>) = Some (Running p') \<and>
    pr_sent p' = [(5, 10 # ascii ''[extempore 00:00:00]: (1 2)'' @ [0])]"
proof -
  let ?s = "[39, 40, 49, 32, 50, 41]"
  have "grows 5 {} io_store (open_string (?s @ [CR]) (heap (pr_scheme io_process)))"
    using open_string_grows [OF io_ok] by (simp add: io_process_def)
  moreover have "(if pr_banner io_process then reply_prompt 44100 0 else Some []) = Some (10 # ascii ''[extempore 00:00:00]: '')"
    using io_prompt by (simp add: io_process_def)
  moreover have "arrives (calls (map Bytes (writeString length ?s))) one_client 4 5 ?s" by (rule io_arrives) simp
  moreover have "sv_queue one_client = []" by (simp add: one_client_def)
  ultimately obtain sv' io' p' where "turns 1 (calls (map Bytes (writeString length ?s))) 1 4 one_client = Some (sv', io')"
    "run_front io_globals (\<lambda>_. Some) 44100 0 (io_process\<lparr>pr_queue := sv_queue sv'\<rparr>) = Some (Running p')"
    "pr_sent p' = pr_sent io_process @ [(5, (10 # ascii ''[extempore 00:00:00]: '') @ shown False True io_pair @ [0])]"
    using repl_answers_value [OF _ _ io_quoted_text io_tables io_quoted] by metis
  moreover have "pr_sent io_process = []" by (simp add: io_process_def)
  ultimately show ?thesis unfolding io_shown by (simp add: ascii_def)
qed

definition bare_globals :: globals where
  "bare_globals = io_globals\<lparr>k_global_env := NIL\<rparr>"

lemma bare_reports: "reports bare_globals h"
  by (auto simp: reports_def error_1_def hook_of_def bare_globals_def find_slot_in_env_run)

theorem failed_call_answered_witness:
  "\<exists>sv' io' p'. turns 1 (calls (map Bytes (writeString length [40, 49, 41]))) 1 4 one_client = Some (sv', io') \<and>
    run_front bare_globals (\<lambda>_. Some) 44100 0 (io_process\<lparr>pr_queue := sv_queue sv'\<rparr>) = Some (Running p') \<and>
    pr_sent p' = [(5, 10 # ascii ''[extempore 00:00:00]: 1'' @ [0])]"
proof -
  let ?s = "[40, 49, 41]"
  have t: "repl_text (D_Pair (D_Num (Integer 1)) D_Nil) ?s" using io_number_readable
    by (simp add: repl_text_def digits_12 ascii_def chr_def CR_def)
  have k: "tables_ok bare_globals io_process" using io_tables by (simp add: tables_ok_def bare_globals_def quotes_ok_def)
  have "(if pr_banner io_process then reply_prompt 44100 0 else Some []) = Some (10 # ascii ''[extempore 00:00:00]: '')"
    using io_prompt by (simp add: io_process_def)
  moreover have "arrives (calls (map Bytes (writeString length ?s))) one_client 4 5 ?s" by (rule io_arrives) simp
  moreover have "sv_queue one_client = []" by (simp add: one_client_def)
  ultimately obtain sv' io' p' where "turns 1 (calls (map Bytes (writeString length ?s))) 1 4 one_client = Some (sv', io')"
    "run_front bare_globals (\<lambda>_. Some) 44100 0 (io_process\<lparr>pr_queue := sv_queue sv'\<rparr>) = Some (Running p')"
    "pr_sent p' = pr_sent io_process @ [(5, (10 # ascii ''[extempore 00:00:00]: '') @ show_num False (Integer 1) @ [0])]"
    using failed_call_answered [OF _ _ t k bare_reports] by metis
  moreover have "show_num False (Integer 1) = [49]" by (simp add: show_num_def dec_int_def dec_nat.simps)
  moreover have "pr_sent io_process = []" by (simp add: io_process_def)
  ultimately show ?thesis by (simp add: ascii_def chr_def)
qed

theorem pending_environments_rooted_witness: "10 \<in> pr_imp_env (addCallback 3 1 (36, 10) (new_obj 36 10 io_process))"
proof -
  have "happens K native (None, io_process) (None, new_obj 36 10 io_process)" by (rule Schedule) (simp add: held_def io_process_def)
  moreover have "happens K native (None, new_obj 36 10 io_process) (None, addCallback 3 1 (36, 10) (new_obj 36 10 io_process))"
    by (rule Fall_Due) (simp add: new_obj_def)
  ultimately have "(happens K native)\<^sup>*\<^sup>* (None, io_process) (None, addCallback 3 1 (36, 10) (new_obj 36 10 io_process))" by simp
  moreover have "rooted (None, io_process)" by (simp add: rooted_def held_def io_process_def)
  ultimately show ?thesis by (rule pending_environments_rooted [where v = 36]) (simp add: addCallback_def new_obj_def createSchemeTask_def)
qed

text \<open>A foreign procedure at 39 and the pair of a callback, it and no arguments, at 40.\<close>

definition callback_process :: process where
  "callback_process = io_process\<lparr>pr_scheme := regs (io_store\<lparr>h_cell := (h_cell io_store)(39 := Foreign 0, 40 := Pair 39 0), h_next := 41\<rparr>)
     0 0 0 0 [] (O0 OP_T0LVL)\<rparr>"

lemma callback_runs: "\<exists>p1. run_front io_globals native 44100 7
    (addCallback 3 1 (40, 10) (new_obj 40 10 (new_obj 40 10 callback_process))) = Some (Running p1)"
proof -
  let ?h = "io_store\<lparr>h_cell := (h_cell io_store)(39 := Foreign 0, 40 := Pair 39 0), h_next := 41\<rparr>"
  have "step io_globals (regs ?h 0 10 39 0 [] (O0 OP_APPLY)) = Some (Stop (regs ?h 0 10 39 0 [] (O0 OP_APPLY)))"
    by (simp add: op_simps op_apply_def return_new_def s_return_def io_globals_def program_globals_def)
  then have "eval_cycle io_globals (regs ?h 0 10 39 0 [] (O0 OP_APPLY)) = Some (Stop (regs ?h 0 10 39 0 [] (O0 OP_APPLY)))"
    by (subst eval_cycle.simps) simp
  then show ?thesis
    by (simp add: run_front_def run_body_def addCallback_def new_obj_def callback_process_def io_process_def createSchemeTask_def
      scheme_callback_def call_task_def scheme_call_def scheme_call_without_stack_reset_def catch_runtime_def run_ended_def retcode_def
      settle_def then_delete_def car_def cdr_def is_closure_def is_macro_def is_continuation_def is_proc_def is_foreign_def
      io_globals_def program_globals_def)
qed

theorem shared_environment_unrooted_witness:
  "\<exists>p1 p2. run_front io_globals (\<lambda>_. Some) 44100 7 (addCallback 3 1 (40, 10) (new_obj 40 10 (new_obj 40 10 callback_process))) = Some (Running p1) \<and>
     run_front io_globals (\<lambda>_. Some) 44100 7 p1 = Some (Running p2) \<and> 10 \<notin> pr_imp_env p2 \<and> (40, 10) \<in> set (pr_objs p2)"
proof -
  obtain p1 where p1: "run_front io_globals (\<lambda>_. Some) 44100 7
    (addCallback 3 1 (40, 10) (new_obj 40 10 (new_obj 40 10 callback_process))) = Some (Running p1)" using callback_runs by blast
  have "pr_queue callback_process = []" by (simp add: callback_process_def io_process_def)
  from shared_environment_unrooted [OF this p1] p1 show ?thesis by blast
qed

end
