(* ===== verification/Audio_Samples.thy ===== *)
theory Audio_Samples
  imports Ext_Prelude "HOL-Library.Monad_Syntax"
begin

text \<open>
  The audio callback (src/src/AudioDevice.cpp, src/include/AudioDevice.h): limiting a sample, the choice between the four ways of
  rendering, and rendering sample by sample. The compiled function that computes a sample is a parameter: it may keep a state from
  sample to sample. Where it is given a pointer into the input it is given the samples of the frame.
\<close>

section \<open>Samples\<close>

text \<open>A \<open>float\<close> as its bits. Finite ones are ordered by sign and magnitude; \<open>0.99f\<close> is \<open>0x3F7D70A4\<close>.\<close>

type_synonym sample = "32 word"

definition magnitude :: "sample \<Rightarrow> int" where
  "magnitude x = take_bit 31 (uint x)"

definition fl_key :: "sample \<Rightarrow> int" where
  "fl_key x = (if bit x 31 then - magnitude x else magnitude x)"

definition fl_finite :: "sample \<Rightarrow> bool" where
  "fl_finite x \<longleftrightarrow> magnitude x < 0x7F800000"

definition fl_nan :: "sample \<Rightarrow> bool" where
  "fl_nan x \<longleftrightarrow> 0x7F800000 < magnitude x"

definition fl_less :: "sample \<Rightarrow> sample \<Rightarrow> bool" where
  "fl_less x y \<longleftrightarrow> \<not> fl_nan x \<and> \<not> fl_nan y \<and> fl_key x < fl_key y"

definition LIMIT :: sample where "LIMIT = 0x3F7D70A4"
definition NEG_LIMIT :: sample where "NEG_LIMIT = 0xBF7D70A4"

definition audio_sanity :: "sample \<Rightarrow> sample" where
  "audio_sanity x =
     (if fl_finite x then if fl_less x NEG_LIMIT then NEG_LIMIT else if fl_less LIMIT x then LIMIT else x else 0)"

text \<open>\<open>_mm_max_ss\<close> and \<open>_mm_min_ss\<close> give the second operand unless the first is greater, or less.\<close>

definition max_ss :: "sample \<Rightarrow> sample \<Rightarrow> sample" where "max_ss x y = (if fl_less y x then x else y)"
definition min_ss :: "sample \<Rightarrow> sample \<Rightarrow> sample" where "min_ss x y = (if fl_less x y then x else y)"

definition audio_sanity_f :: "sample \<Rightarrow> sample" where
  "audio_sanity_f x = (if fl_finite x then min_ss (max_ss x NEG_LIMIT) LIMIT else 0)"

section \<open>Frames\<close>

text \<open>A function computes one sample of a channel from its state, an input sample, the time, the channel and the input of the frame.\<close>

type_synonym 's dsp = "'s \<Rightarrow> sample \<Rightarrow> 64 word \<Rightarrow> nat \<Rightarrow> sample list \<Rightarrow> sample \<times> 's"

primrec channels :: "(nat \<Rightarrow> 's \<Rightarrow> sample \<times> 's) \<Rightarrow> nat \<Rightarrow> 's \<Rightarrow> sample list \<times> 's" where
  "channels f 0 s = ([], s)"
| "channels f (Suc k) s = (let (xs, s1) = channels f k s; (x, s2) = f k s1 in (xs @ [x], s2))"

primrec frames :: "(nat \<Rightarrow> 's \<Rightarrow> 'b \<times> 's) \<Rightarrow> nat \<Rightarrow> 's \<Rightarrow> 'b list \<times> 's" where
  "frames f 0 s = ([], s)"
| "frames f (Suc i) s = (let (xs, s1) = frames f i s; (x, s2) = f i s1 in (xs @ [x], s2))"

text \<open>
  The input: with as many channels in as out each output channel gets its own, a single one is given to all of them, otherwise they get zero.
  Without input the pointer is to a zero.
\<close>

definition frame_input :: "nat \<Rightarrow> sample list \<Rightarrow> nat \<Rightarrow> sample list" where
  "frame_input in_channels input i =
     (if in_channels = 0 then [0] else take in_channels (drop (i * in_channels) input))"

definition channel_input :: "nat \<Rightarrow> nat \<Rightarrow> sample list \<Rightarrow> nat \<Rightarrow> nat \<Rightarrow> sample" where
  "channel_input n_channels in_channels input i k =
     (if in_channels = 0 then 0
      else if in_channels = n_channels then input ! (i * in_channels + k)
      else if in_channels = 1 then input ! i
      else 0)"

definition dsp_frame :: "(sample \<Rightarrow> sample) \<Rightarrow> nat \<Rightarrow> nat \<Rightarrow> 's dsp \<Rightarrow> 64 word \<Rightarrow> sample list \<Rightarrow> nat \<Rightarrow> 's \<Rightarrow> sample list \<times> 's" where
  "dsp_frame sanity n_channels in_channels dsp time input i =
     channels (\<lambda>k s. let (x, s1) = dsp s (channel_input n_channels in_channels input i k) (time + of_nat i) k (frame_input in_channels input i)
                      in (sanity x, s1)) n_channels"

section \<open>The callback\<close>

text \<open>The wrappers: each setter does nothing when one is set already.\<close>

record wrappers =
  dsp_wrapper :: bool
  dsp_wrapper_sum :: bool
  dsp_wrapper_array :: bool
  dsp_wrapper_sum_array :: bool

definition no_wrappers :: wrappers where
  "no_wrappers = \<lparr>dsp_wrapper = False, dsp_wrapper_sum = False, dsp_wrapper_array = False, dsp_wrapper_sum_array = False\<rparr>"

definition WrapperSet :: "wrappers \<Rightarrow> bool" where
  "WrapperSet w \<longleftrightarrow> dsp_wrapper w \<or> dsp_wrapper_array w \<or> dsp_wrapper_sum w \<or> dsp_wrapper_sum_array w"

definition setDSPWrapper :: "wrappers \<Rightarrow> wrappers" where
  "setDSPWrapper w = (if WrapperSet w then w else w\<lparr>dsp_wrapper := True\<rparr>)"

definition setDSPWrapperArray :: "wrappers \<Rightarrow> wrappers" where
  "setDSPWrapperArray w = (if WrapperSet w then w else w\<lparr>dsp_wrapper_array := True\<rparr>)"

definition setDSPMTWrapper :: "wrappers \<Rightarrow> wrappers" where
  "setDSPMTWrapper w = (if WrapperSet w then w else w\<lparr>dsp_wrapper_sum := True, dsp_wrapper := True\<rparr>)"

definition setDSPMTWrapperArray :: "wrappers \<Rightarrow> wrappers" where
  "setDSPMTWrapperArray w = (if WrapperSet w then w else w\<lparr>dsp_wrapper_sum_array := True, dsp_wrapper_array := True\<rparr>)"

datatype mode = By_Sample | By_Buffer | MT_Sample | MT_Buffer | Silence

definition render_mode :: "bool \<Rightarrow> wrappers \<Rightarrow> mode" where
  "render_mode closure w =
     (if \<not> closure then Silence
      else if dsp_wrapper w \<and> \<not> dsp_wrapper_sum w then By_Sample
      else if dsp_wrapper_array w \<and> \<not> dsp_wrapper_sum_array w then By_Buffer
      else if dsp_wrapper_sum w then MT_Sample
      else if dsp_wrapper_sum_array w then MT_Buffer
      else Silence)"

text \<open>
  The clocks, and the callback in the modes without threads. A function on whole buffers writes the output itself, and what it writes is
  not limited.
\<close>

record 's device =
  dv_device_time :: "64 word"
  dv_time :: "64 word"
  dv_time_division :: nat
  dv_channels :: nat
  dv_in_channels :: nat
  dv_closure :: bool
  dv_wrappers :: wrappers
  dv_state :: 's

definition tick :: "nat \<Rightarrow> 's device \<Rightarrow> 's device" where
  "tick n d = (let t = dv_device_time d + of_nat n in
     d\<lparr>dv_device_time := t, dv_time := if dv_time_division d = 1 then t else dv_time d\<rparr>)"

definition audioCallback ::
  "'s dsp \<Rightarrow> ('s \<Rightarrow> sample list \<Rightarrow> 64 word \<Rightarrow> sample list \<times> 's) \<Rightarrow> nat \<Rightarrow> sample list \<Rightarrow> 's device \<Rightarrow> (sample list \<times> 's device) option" where
  "audioCallback dsp buffer_dsp n input d =
     (let d1 = tick n d in
      case render_mode (dv_closure d1) (dv_wrappers d1) of
        Silence \<Rightarrow> Some (replicate (dv_channels d1 * n) 0, d1)
      | By_Sample \<Rightarrow>
          (let (out, s) = frames (dsp_frame audio_sanity_f (dv_channels d1) (dv_in_channels d1) dsp (dv_device_time d1) input) n (dv_state d1)
           in Some (concat out, d1\<lparr>dv_state := s\<rparr>))
      | By_Buffer \<Rightarrow> (let (out, s) = buffer_dsp (dv_state d1) input (dv_device_time d1) in Some (out, d1\<lparr>dv_state := s\<rparr>))
      | _ \<Rightarrow> None)"

section \<open>Limiting\<close>

lemma magnitude_bounds: "0 \<le> magnitude x" "magnitude x < 2 ^ 31"
  using take_bit_int_less_exp [of 31 "uint x"] by (simp_all add: magnitude_def)

lemma uint_split: "uint (x :: sample) = (if bit x 31 then 2 ^ 31 else 0) + magnitude x"
proof -
  have "uint x = take_bit (Suc 31) (uint x)" using uint_bounded [of x] by (simp add: take_bit_int_eq_self)
  also have "\<dots> = 2 ^ 31 * of_bool (bit (uint x) 31) + take_bit 31 (uint x)" by (rule take_bit_Suc_from_most)
  finally show ?thesis by (cases "bit x 31") (simp_all add: magnitude_def bit_uint_iff)
qed

lemma fl_key_inject: "fl_key x = fl_key y \<Longrightarrow> fl_key x \<noteq> 0 \<Longrightarrow> x = y"
  using uint_split [of x] uint_split [of y] magnitude_bounds [of x] magnitude_bounds [of y]
  by (auto simp: fl_key_def word_uint_eq_iff split: if_splits)

lemma limit_keys [simp]: "fl_key LIMIT = 0x3F7D70A4" "fl_key NEG_LIMIT = - 0x3F7D70A4" "\<not> fl_nan LIMIT" "\<not> fl_nan NEG_LIMIT" "fl_finite LIMIT" "fl_finite NEG_LIMIT"
  by (simp_all add: fl_key_def fl_nan_def fl_finite_def magnitude_def LIMIT_def NEG_LIMIT_def)

lemma finite_not_nan: "fl_finite x \<Longrightarrow> \<not> fl_nan x"
  by (simp add: fl_finite_def fl_nan_def)

text \<open>Both ways of limiting a sample are the same function: what is not finite becomes zero, the rest is clamped to the interval from
  -0.99 to 0.99, and samples within it are not changed.
\<close>

theorem sanity_limits:
  "audio_sanity_f x = audio_sanity x \<and> fl_finite (audio_sanity x) \<and> \<bar>fl_key (audio_sanity x)\<bar> \<le> fl_key LIMIT \<and>
    (fl_finite x \<and> \<bar>fl_key x\<bar> \<le> fl_key LIMIT \<longrightarrow> audio_sanity x = x)"
proof (cases "fl_finite x")
  case True
  note n = finite_not_nan [OF True]
  have i: "fl_key x = fl_key LIMIT \<Longrightarrow> x = LIMIT" "fl_key x = fl_key NEG_LIMIT \<Longrightarrow> x = NEG_LIMIT"
    using fl_key_inject [of x LIMIT] fl_key_inject [of x NEG_LIMIT] by simp_all
  consider "fl_key x < fl_key NEG_LIMIT" | "fl_key x = fl_key NEG_LIMIT" | "fl_key NEG_LIMIT < fl_key x" "fl_key x < fl_key LIMIT"
    | "fl_key x = fl_key LIMIT" | "fl_key LIMIT < fl_key x" by (metis linorder_less_linear)
  then show ?thesis
    by cases (use True n i in \<open>auto simp: audio_sanity_def audio_sanity_f_def max_ss_def min_ss_def fl_less_def\<close>)
next
  case False
  have "fl_finite 0" "fl_key 0 = 0" by (simp_all add: fl_finite_def fl_key_def magnitude_def)
  then show ?thesis using False by (simp add: audio_sanity_def audio_sanity_f_def)
qed

theorem sanity_limits_witness: "audio_sanity 0x3F000000 = 0x3F000000 \<and> audio_sanity 0x7FC00000 = 0 \<and> audio_sanity 0x40000000 = LIMIT"
proof -
  have "fl_finite 0x3F000000" "fl_key 0x3F000000 = 0x3F000000" by (simp_all add: fl_finite_def fl_key_def magnitude_def)
  then have "fl_finite 0x3F000000 \<and> \<bar>fl_key 0x3F000000\<bar> \<le> fl_key LIMIT" by simp
  then have "audio_sanity 0x3F000000 = 0x3F000000" using sanity_limits [of "0x3F000000"] by blast
  then show ?thesis by (simp add: audio_sanity_def fl_finite_def fl_less_def fl_nan_def fl_key_def magnitude_def LIMIT_def NEG_LIMIT_def)
qed

section \<open>Blocks\<close>

lemma frames_append:
  "frames f (m + n) s = (let (xs, s1) = frames f m s; (ys, s2) = frames (\<lambda>i. f (m + i)) n s1 in (xs @ ys, s2))"
  by (induction n) (auto simp: Let_def split: prod.splits)

lemma frames_cong: "(\<And>i s. i < n \<Longrightarrow> f i s = g i s) \<Longrightarrow> frames f n s = frames g n s"
  by (induction n) (auto split: prod.splits)

lemma frames_length [simp]: "length (fst (frames f n s)) = n"
  by (induction n) (auto split: prod.splits)

lemma channels_cong: "(\<And>k s. k < n \<Longrightarrow> f k s = g k s) \<Longrightarrow> channels f n s = channels g n s"
  by (induction n) (auto split: prod.splits)

lemma channels_length [simp]: "length (fst (channels f n s)) = n"
  by (induction n) (auto split: prod.splits)

lemma frame_input_append:
  "length a = m * c \<Longrightarrow> frame_input c (a @ b) (m + i) = frame_input c b i"
  "length a = m * c \<Longrightarrow> i < m \<Longrightarrow> frame_input c (a @ b) i = frame_input c a i"
proof -
  assume a: "length a = m * c"
  show "frame_input c (a @ b) (m + i) = frame_input c b i" by (simp add: frame_input_def a add_mult_distrib)
  show "frame_input c (a @ b) i = frame_input c a i" if "i < m"
  proof -
    have "Suc i * c \<le> m * c" using that by (intro mult_le_mono1) simp
    then have "i * c + c \<le> length a" using a by simp
    then show ?thesis by (simp add: frame_input_def)
  qed
qed

lemma channel_input_append:
  assumes "length a = m * c" "k < n"
  shows "channel_input n c (a @ b) (m + i) k = channel_input n c b i k"
    "i < m \<Longrightarrow> channel_input n c (a @ b) i k = channel_input n c a i k"
proof -
  show "channel_input n c (a @ b) (m + i) k = channel_input n c b i k"
    using assms by (auto simp: channel_input_def nth_append add_mult_distrib)
  show "channel_input n c (a @ b) i k = channel_input n c a i k" if i: "i < m"
  proof (cases "c = n")
    case True
    have "Suc i * c \<le> m * c" using i by (intro mult_le_mono1) simp
    then have "i * c + k < length a" using assms True by simp
    then show ?thesis using True by (simp add: channel_input_def nth_append)
  next
    case False
    then show ?thesis using assms i by (simp add: channel_input_def nth_append)
  qed
qed

text \<open>A row of callbacks for \<open>n\<close> frames each.\<close>

primrec callbacks :: "'s dsp \<Rightarrow> ('s \<Rightarrow> sample list \<Rightarrow> 64 word \<Rightarrow> sample list \<times> 's) \<Rightarrow> nat \<Rightarrow> sample list list \<Rightarrow> 's device \<Rightarrow>
    (sample list \<times> 's device) option" where
  "callbacks dsp buffer_dsp n [] d = Some ([], d)"
| "callbacks dsp buffer_dsp n (a # as) d =
     do { (xs, d1) \<leftarrow> audioCallback dsp buffer_dsp n a d; (ys, d2) \<leftarrow> callbacks dsp buffer_dsp n as d1; Some (xs @ ys, d2) }"

lemma dsp_frame_append:
  assumes "length a = m * c"
  shows "dsp_frame f C c dsp t (a @ b) (m + i) s = dsp_frame f C c dsp (t + of_nat m) b i s"
    "i < m \<Longrightarrow> dsp_frame f C c dsp t (a @ b) i s = dsp_frame f C c dsp t a i s"
  unfolding dsp_frame_def
  by (rule channels_cong, simp add: frame_input_append [OF assms] channel_input_append [OF assms] add.assoc)+

text \<open>C22: Rendering sample by sample, callbacks for \<open>n\<close> frames each in a row give exactly the samples of one pass over the whole input: the function is
  called for the frames in order and for the channels of a frame in order, the times have no gap at the ends of the blocks, and its
  state goes from block to block.
\<close>

theorem callbacks_seamless:
  assumes "render_mode (dv_closure d) (dv_wrappers d) = By_Sample" "\<forall>a \<in> set inputs. length a = n * dv_in_channels d"
  shows "\<exists>d'. callbacks dsp bd n inputs d = Some (concat (fst (frames
      (dsp_frame audio_sanity_f (dv_channels d) (dv_in_channels d) dsp (dv_device_time d + of_nat n) (concat inputs))
      (n * length inputs) (dv_state d))), d') \<and>
    dv_device_time d' = dv_device_time d + of_nat (n * length inputs)"
proof -
  have "\<exists>d'. callbacks dsp bd n inputs d = Some (concat (fst (frames
      (dsp_frame audio_sanity_f (dv_channels d) (dv_in_channels d) dsp (dv_device_time d + of_nat n) (concat inputs))
      (n * length inputs) (dv_state d))), d') \<and>
    dv_device_time d' = dv_device_time d + of_nat (n * length inputs)"
    if "\<forall>a \<in> set inputs. length a = n * dv_in_channels d" "render_mode (dv_closure d) (dv_wrappers d) = By_Sample" for inputs d
    using that
  proof (induction inputs arbitrary: d)
    case (Cons a as)
    let ?F = "dsp_frame audio_sanity_f (dv_channels d) (dv_in_channels d) dsp"
    let ?t = "dv_device_time d + of_nat n"
    obtain xs s where xs: "frames (?F ?t a) n (dv_state d) = (xs, s)" by force
    let ?d = "(tick n d)\<lparr>dv_state := s\<rparr>"
    have 1: "audioCallback dsp bd n a d = Some (concat xs, ?d)" using Cons.prems(2) xs by (simp add: audioCallback_def tick_def Let_def)
    have len: "length a = n * dv_in_channels d" using Cons.prems(1) by simp
    have "frames (?F ?t (a @ concat as)) n (dv_state d) = frames (?F ?t a) n (dv_state d)"
      by (rule frames_cong) (rule dsp_frame_append(2) [OF len])
    then have "frames (?F ?t (a @ concat as)) n (dv_state d) = (xs, s)" using xs by simp
    then have 2: "fst (frames (?F ?t (concat (a # as))) (n * length (a # as)) (dv_state d)) =
        xs @ fst (frames (?F (?t + of_nat n) (concat as)) (n * length as) s)"
      by (simp add: frames_append frames_cong [OF dsp_frame_append(1) [OF len]] split: prod.splits)
    show ?case using Cons.IH [of ?d] Cons.prems 1 2 by (auto simp: tick_def Let_def algebra_simps)
  qed simp
  then show ?thesis using assms by blast
qed

theorem callbacks_seamless_witness:
  "\<exists>d'. callbacks (\<lambda>s x t k xs. (x, s)) (\<lambda>s xs t. (xs, s)) 1 [[0x3F000000], [0x40000000]]
    \<lparr>dv_device_time = 0, dv_time = 0, dv_time_division = 1, dv_channels = 2, dv_in_channels = 1, dv_closure = True,
      dv_wrappers = setDSPWrapper no_wrappers, dv_state = 0 :: nat\<rparr> =
    Some ([0x3F000000, 0x3F000000, LIMIT, LIMIT], d') \<and> dv_device_time d' = 2"
proof -
  let ?d = "\<lparr>dv_device_time = 0, dv_time = 0, dv_time_division = 1, dv_channels = 2, dv_in_channels = 1, dv_closure = True,
      dv_wrappers = setDSPWrapper no_wrappers, dv_state = 0 :: nat\<rparr>"
  have "render_mode (dv_closure ?d) (dv_wrappers ?d) = By_Sample" by code_simp
  moreover have "concat (fst (frames (dsp_frame audio_sanity_f (dv_channels ?d) (dv_in_channels ?d) (\<lambda>s x t k xs. (x, s))
      (dv_device_time ?d + of_nat 1) (concat [[0x3F000000], [0x40000000]])) (1 * length [[0x3F000000], [0x40000000 :: sample]]) (dv_state ?d))) =
    [0x3F000000, 0x3F000000, LIMIT, LIMIT]" by code_simp
  ultimately show ?thesis
    using callbacks_seamless [of ?d "[[0x3F000000], [0x40000000]]" 1 "\<lambda>s x t k xs. (x, s)" "\<lambda>s xs t. (xs, s)"]
    by (simp del: callbacks.simps)
qed

text \<open>However often the setters are called, the first call decides how the callback renders.\<close>

theorem first_wrapper_decides:
  assumes "set fs \<subseteq> {setDSPWrapper, setDSPWrapperArray, setDSPMTWrapper, setDSPMTWrapperArray}" "f \<in> {setDSPWrapper, setDSPWrapperArray, setDSPMTWrapper, setDSPMTWrapperArray}"
  shows "render_mode True (fold (\<lambda>f w. f w) (f # fs) no_wrappers) = render_mode True (f no_wrappers) \<and>
    map (\<lambda>f. render_mode True (f no_wrappers)) [setDSPWrapper, setDSPWrapperArray, setDSPMTWrapper, setDSPMTWrapperArray] =
      [By_Sample, By_Buffer, MT_Sample, MT_Buffer]"
proof -
  note defs = setDSPWrapper_def setDSPWrapperArray_def setDSPMTWrapper_def setDSPMTWrapperArray_def
  have set: "WrapperSet (f no_wrappers)" using assms(2) by (auto simp: defs WrapperSet_def no_wrappers_def)
  have "fold (\<lambda>f w. f w) fs w = w" if "WrapperSet w" for w using that assms(1)
    by (induction fs) (auto simp: defs)
  then show ?thesis using set by (simp add: defs render_mode_def WrapperSet_def no_wrappers_def)
qed

theorem first_wrapper_decides_witness:
  "render_mode True (setDSPWrapper (setDSPMTWrapper no_wrappers)) = MT_Sample"
  using first_wrapper_decides [of "[setDSPWrapper]" setDSPMTWrapper] by simp

end
