(* ===== verification/Audio_Threads.thy ===== *)
theory Audio_Threads
  imports Audio_Samples
begin

text \<open>
  Rendering with several threads (src/src/AudioDevice.cpp): \<open>audioCallback\<close> in the mode that mixes what the threads have rendered sample by sample,
  \<open>audioCallbackMT\<close>, the loop of a thread, and the counters \<open>sSignalCount\<close> and \<open>sThreadDoneCount\<close> with which they wait for each other. One step is one
  access to what they share, or one frame. A thread that spins takes no step.
\<close>

section \<open>Configuration\<close>

text \<open>
  What does not change while the device runs: channels, frames of a block, threads, the mode, the compiled functions of the threads and of the
  mixer with their first states, the clock before the first callback, and the input of each callback.
\<close>

record ('s, 't) mt_config =
  cf_channels :: nat
  cf_in_channels :: nat
  cf_frames :: nat
  cf_threads :: nat
  cf_zero_latency :: bool
  cf_dsp :: "nat \<Rightarrow> 's dsp"
  cf_mix :: "'t \<Rightarrow> sample list \<Rightarrow> 64 word \<Rightarrow> nat \<Rightarrow> sample \<times> 't"
  cf_states :: "nat \<Rightarrow> 's"
  cf_mix_state :: 't
  cf_clock :: "64 word"
  cf_input :: "nat \<Rightarrow> sample list"

text \<open>
  The buffer \<open>outbuf\<close>: each thread has two halves, of a block each. The first address of a half as a thread computes it, and as the mixer does.
\<close>

definition half_at :: "('s, 't) mt_config \<Rightarrow> nat \<Rightarrow> nat \<Rightarrow> nat" where
  "half_at G idx half = cf_channels G * cf_frames G * idx * 2 + (if half = 0 then 0 else cf_channels G * cf_frames G)"

definition mix_at :: "('s, 't) mt_config \<Rightarrow> nat \<Rightarrow> nat \<Rightarrow> nat" where
  "mix_at G half jj = (if half = 0 then 0 else cf_frames G * cf_channels G) + cf_frames G * cf_channels G * jj * 2"

definition read_at :: "(nat \<Rightarrow> sample) \<Rightarrow> nat \<Rightarrow> nat \<Rightarrow> sample list" where
  "read_at out a n = map (\<lambda>k. out (a + k)) [0..<n]"

definition write_at :: "(nat \<Rightarrow> sample) \<Rightarrow> nat \<Rightarrow> sample list \<Rightarrow> nat \<Rightarrow> sample" where
  "write_at out a xs = (\<lambda>x. if a \<le> x \<and> x < a + length xs then xs ! (x - a) else out x)"

section \<open>Threads\<close>

text \<open>
  A thread: at the top of its loop, where it chooses its half; waiting for a signal; having counted it; having rendered \<open>i\<close> frames. \<open>w_count\<close> is
  \<open>lcount\<close>, \<open>w_time\<close> is \<open>LTIME\<close>.
\<close>

datatype worker_pc = W_Top | W_Wait | W_Start | W_Frame nat

record 's worker =
  w_pc :: worker_pc
  w_toggle :: bool
  w_half :: nat
  w_count :: nat
  w_time :: "64 word"
  w_state :: 's

text \<open>
  The callback: returned; begun; about to signal; waiting for the threads; having seen that all are done; having mixed \<open>i\<close> frames. Without latency it signals, waits and mixes,
  otherwise it mixes the blocks of the callback before, signals and waits. \<open>mt_begun\<close> counts the callbacks, \<open>mt_cur\<close> and \<open>mt_log\<close> are the frames
  of the output buffer now and of those before.
\<close>

datatype main_pc = A_Idle | A_Reset | A_Signal | A_Wait | A_Clear | A_Frame nat

record ('s, 't) mt =
  mt_pc :: main_pc
  mt_toggle :: bool
  mt_signal :: nat
  mt_done :: nat
  mt_time :: "64 word"
  mt_in :: "sample list"
  mt_out :: "nat \<Rightarrow> sample"
  mt_half :: nat
  mt_work :: "nat \<Rightarrow> 's worker"
  mt_mix :: 't
  mt_cur :: "sample list list"
  mt_log :: "sample list list list"
  mt_begun :: nat

text \<open>
  \<open>initMTAudio\<close>: the buffer is cleared and the threads are started; the two counters, which are static, are left as they are. They are
  zero at the first call. After a later one the threads of the earlier call, which the code does not stop, would run too; the steps
  below are those of the new threads.
\<close>

definition initMTAudio_after :: "nat \<Rightarrow> nat \<Rightarrow> ('s, 't) mt_config \<Rightarrow> ('s, 't) mt" where
  "initMTAudio_after signal finished G = \<lparr>mt_pc = A_Idle, mt_toggle = True, mt_signal = signal, mt_done = finished, mt_time = cf_clock G, mt_in = [], mt_out = \<lambda>_. 0,
     mt_half = 0, mt_work = (\<lambda>j. \<lparr>w_pc = W_Top, w_toggle = False, w_half = 0, w_count = 0, w_time = 0, w_state = cf_states G j\<rparr>),
     mt_mix = cf_mix_state G, mt_cur = [], mt_log = [], mt_begun = 0\<rparr>"

definition initMTAudio :: "('s, 't) mt_config \<Rightarrow> ('s, 't) mt" where
  "initMTAudio G = initMTAudio_after 0 0 G"

section \<open>Steps\<close>

definition put_worker :: "nat \<Rightarrow> 's worker \<Rightarrow> ('s, 't) mt \<Rightarrow> ('s, 't) mt" where
  "put_worker j w s = s\<lparr>mt_work := (mt_work s)(j := w)\<rparr>"

definition mt_begin :: "('s, 't) mt_config \<Rightarrow> ('s, 't) mt \<Rightarrow> ('s, 't) mt" where
  "mt_begin G s = s\<lparr>mt_pc := A_Reset, mt_time := mt_time s + of_nat (cf_frames G), mt_in := cf_input G (mt_begun s), mt_cur := [],
     mt_begun := Suc (mt_begun s)\<rparr>"

text \<open>Before mixing, \<open>getToggle\<close> flips the toggle, and chooses the half unless there is no latency.\<close>

definition start_mix :: "('s, 't) mt_config \<Rightarrow> ('s, 't) mt \<Rightarrow> ('s, 't) mt" where
  "start_mix G s =
     (let toggle = \<not> mt_toggle s in
      s\<lparr>mt_toggle := toggle, mt_half := (if \<not> cf_zero_latency G \<and> \<not> toggle then 1 else 0), mt_pc := A_Frame 0\<rparr>)"

definition mt_return :: "('s, 't) mt \<Rightarrow> ('s, 't) mt" where
  "mt_return s = s\<lparr>mt_pc := A_Idle, mt_log := mt_log s @ [mt_cur s]\<rparr>"

definition mix_frame ::
  "('s, 't) mt_config \<Rightarrow> (nat \<Rightarrow> nat \<Rightarrow> sample list) \<Rightarrow> 64 word \<Rightarrow> nat \<Rightarrow> 't \<Rightarrow> sample list \<times> 't" where
  "mix_frame G blocks time i =
     channels (\<lambda>k m. let (x, m1) = cf_mix G m (map (\<lambda>jj. blocks jj i ! k) [0..<cf_threads G]) (of_nat i + time) k in (audio_sanity_f x, m1))
       (cf_channels G)"

definition mt_blocks :: "('s, 't) mt_config \<Rightarrow> ('s, 't) mt \<Rightarrow> nat \<Rightarrow> nat \<Rightarrow> sample list" where
  "mt_blocks G s jj i = read_at (mt_out s) (mix_at G (mt_half s) jj + i * cf_channels G) (cf_channels G)"

text \<open>A thread copies the input of a frame to a buffer of its own, which is empty when there is none.\<close>

definition worker_frame :: "('s, 't) mt_config \<Rightarrow> nat \<Rightarrow> 64 word \<Rightarrow> sample list \<Rightarrow> nat \<Rightarrow> 's \<Rightarrow> sample list \<times> 's" where
  "worker_frame G j time input =
     dsp_frame audio_sanity (cf_channels G) (cf_in_channels G)
       (\<lambda>st x t k indata. cf_dsp G j st x t k (if cf_in_channels G = 0 then [] else indata)) time input"

inductive mt_step :: "('s, 't) mt_config \<Rightarrow> ('s, 't) mt \<Rightarrow> ('s, 't) mt \<Rightarrow> bool" for G where
  a_reset: "mt_pc s = A_Reset \<Longrightarrow>
    mt_step G s (if cf_zero_latency G then s\<lparr>mt_done := 0, mt_pc := A_Signal\<rparr> else start_mix G (s\<lparr>mt_done := 0\<rparr>))"
| a_signal: "mt_pc s = A_Signal \<Longrightarrow> mt_step G s (s\<lparr>mt_signal := Suc (mt_signal s), mt_pc := A_Wait\<rparr>)"
| a_done: "mt_pc s = A_Wait \<Longrightarrow> mt_done s = cf_threads G \<Longrightarrow> mt_step G s (s\<lparr>mt_pc := A_Clear\<rparr>)"
| a_clear: "mt_pc s = A_Clear \<Longrightarrow>
    mt_step G s (if cf_zero_latency G then start_mix G (s\<lparr>mt_done := 0\<rparr>) else mt_return (s\<lparr>mt_done := 0\<rparr>))"
| a_mix: "mt_pc s = A_Frame i \<Longrightarrow> i < cf_frames G \<Longrightarrow> mix_frame G (mt_blocks G s) (mt_time s) i (mt_mix s) = (ys, m) \<Longrightarrow>
    mt_step G s (s\<lparr>mt_cur := mt_cur s @ [ys], mt_mix := m, mt_pc := A_Frame (Suc i)\<rparr>)"
| a_mixed: "mt_pc s = A_Frame (cf_frames G) \<Longrightarrow> mt_step G s (if cf_zero_latency G then mt_return s else s\<lparr>mt_pc := A_Signal\<rparr>)"
| w_top: "j < cf_threads G \<Longrightarrow> w = mt_work s j \<Longrightarrow> w_pc w = W_Top \<Longrightarrow>
    mt_step G s (put_worker j (w\<lparr>w_half := if w_toggle w then 1 else 0, w_toggle := if cf_zero_latency G then w_toggle w else \<not> w_toggle w,
      w_pc := W_Wait\<rparr>) s)"
| w_go: "j < cf_threads G \<Longrightarrow> w = mt_work s j \<Longrightarrow> w_pc w = W_Wait \<Longrightarrow> w_count w < mt_signal s \<Longrightarrow>
    mt_step G s (put_worker j (w\<lparr>w_count := Suc (w_count w), w_pc := W_Start\<rparr>) s)"
| w_start: "j < cf_threads G \<Longrightarrow> w = mt_work s j \<Longrightarrow> w_pc w = W_Start \<Longrightarrow>
    mt_step G s (put_worker j (w\<lparr>w_time := mt_time s, w_pc := W_Frame 0\<rparr>) s)"
| w_render: "j < cf_threads G \<Longrightarrow> w = mt_work s j \<Longrightarrow> w_pc w = W_Frame i \<Longrightarrow> i < cf_frames G \<Longrightarrow>
    worker_frame G j (w_time w) (mt_in s) i (w_state w) = (ys, st) \<Longrightarrow>
    mt_step G s ((put_worker j (w\<lparr>w_state := st, w_pc := W_Frame (Suc i)\<rparr>) s)
      \<lparr>mt_out := write_at (mt_out s) (half_at G j (w_half w) + i * cf_channels G) ys\<rparr>)"
| w_finish: "j < cf_threads G \<Longrightarrow> w = mt_work s j \<Longrightarrow> w_pc w = W_Frame (cf_frames G) \<Longrightarrow>
    mt_step G s ((put_worker j (w\<lparr>w_pc := W_Top\<rparr>) s)\<lparr>mt_done := Suc (mt_done s)\<rparr>)"

inductive mt_reachable :: "('s, 't) mt_config \<Rightarrow> ('s, 't) mt \<Rightarrow> bool" for G where
  init: "mt_reachable G (initMTAudio G)"
| callback: "mt_reachable G s \<Longrightarrow> mt_pc s = A_Idle \<Longrightarrow> mt_reachable G (mt_begin G s)"
| step: "mt_reachable G s \<Longrightarrow> mt_step G s s' \<Longrightarrow> mt_reachable G s'"

text \<open>After a second initialisation a new thread need not wait for the callback: it renders for the signals of before.\<close>

theorem second_initialisation_runs_ahead:
  assumes "0 < cf_threads G"
  shows "\<exists>s. (mt_step G)\<^sup>*\<^sup>* (initMTAudio_after (Suc k) d G) s \<and> mt_pc s = A_Idle \<and> w_pc (mt_work s 0) = W_Start"
proof -
  let ?s = "initMTAudio_after (Suc k) d G"
  have a: "w_pc (mt_work ?s 0) = W_Top" "w_count (mt_work ?s 0) = 0" "mt_signal ?s = Suc k" "mt_pc ?s = A_Idle"
    by (simp_all add: initMTAudio_after_def)
  from mt_step.w_top [OF assms refl a(1)] obtain s1 where 1: "mt_step G ?s s1" "w_pc (mt_work s1 0) = W_Wait"
    "w_count (mt_work s1 0) = 0" "mt_signal s1 = Suc k" "mt_pc s1 = A_Idle"
    using a by (auto simp: put_worker_def)
  have "w_count (mt_work s1 0) < mt_signal s1" using 1 by simp
  from mt_step.w_go [OF assms refl 1(2) this] obtain s2 where "mt_step G s1 s2" "w_pc (mt_work s2 0) = W_Start" "mt_pc s2 = A_Idle"
    using 1 by (auto simp: put_worker_def)
  then show ?thesis using 1(1) by (meson converse_rtranclp_into_rtranclp r_into_rtranclp)
qed

section \<open>What is to be heard\<close>

text \<open>
  One thread after the other: the block a thread renders in the callback \<open>b\<close> and its state after that, from the input of that callback; what
  the mixer gets, the blocks of this callback or, with latency, of the one before (silence in the first); and the frames of the output.
\<close>

definition clock_of :: "('s, 't) mt_config \<Rightarrow> nat \<Rightarrow> 64 word" where
  "clock_of G b = cf_clock G + of_nat (cf_frames G * Suc b)"

definition job :: "('s, 't) mt_config \<Rightarrow> nat \<Rightarrow> nat \<Rightarrow> nat \<Rightarrow> 's \<Rightarrow> sample list list \<times> 's" where
  "job G j b n = frames (worker_frame G j (clock_of G b) (cf_input G b)) n"

primrec state_after :: "('s, 't) mt_config \<Rightarrow> nat \<Rightarrow> nat \<Rightarrow> 's" where
  "state_after G j 0 = cf_states G j"
| "state_after G j (Suc b) = snd (job G j b (cf_frames G) (state_after G j b))"

definition block :: "('s, 't) mt_config \<Rightarrow> nat \<Rightarrow> nat \<Rightarrow> sample list list" where
  "block G j b = fst (job G j b (cf_frames G) (state_after G j b))"

definition mixed_block :: "('s, 't) mt_config \<Rightarrow> nat \<Rightarrow> nat \<Rightarrow> nat \<Rightarrow> sample list" where
  "mixed_block G b j i =
     (if cf_zero_latency G then block G j b ! i
      else if b = 0 then replicate (cf_channels G) 0 else block G j (b - 1) ! i)"

definition mixing :: "('s, 't) mt_config \<Rightarrow> nat \<Rightarrow> nat \<Rightarrow> 't \<Rightarrow> sample list list \<times> 't" where
  "mixing G b n = frames (mix_frame G (mixed_block G b) (clock_of G b)) n"

primrec mix_after :: "('s, 't) mt_config \<Rightarrow> nat \<Rightarrow> 't" where
  "mix_after G 0 = cf_mix_state G"
| "mix_after G (Suc b) = snd (mixing G b (cf_frames G) (mix_after G b))"

definition heard :: "('s, 't) mt_config \<Rightarrow> nat \<Rightarrow> sample list list" where
  "heard G b = fst (mixing G b (cf_frames G) (mix_after G b))"

section \<open>Where the frames are\<close>

lemma frames_Suc:
  "fst (frames f (Suc n) s) = fst (frames f n s) @ [fst (f n (snd (frames f n s)))]"
  "snd (frames f (Suc n) s) = snd (f n (snd (frames f n s)))"
  by (simp_all split: prod.splits)

lemma frames_nth: "i < n \<Longrightarrow> fst (frames f n s) ! i = fst (f i (snd (frames f i s)))"
  by (induction n) (auto simp: frames_Suc nth_append less_Suc_eq simp del: frames.simps)

lemma read_length [simp]: "length (read_at out a n) = n"
  by (simp add: read_at_def)

lemma half_slot: "h < 2 \<Longrightarrow> half_at G j h + i * cf_channels G = cf_channels G * (cf_frames G * (2 * j + h) + i)"
  by (cases "h = 0") (simp_all add: half_at_def algebra_simps)

lemma mix_at_half: "mix_at G h j = half_at G j h"
  by (simp add: mix_at_def half_at_def algebra_simps)

lemma read_write:
  assumes "length ys = C"
  shows "read_at (write_at out (C * q) ys) (C * p) C = (if p = q then ys else read_at out (C * p) C)"
proof -
  have "C * q \<le> C * p + k \<and> C * p + k < C * q + C \<longleftrightarrow> p = q" if "k < C" for k
  proof
    assume a: "C * q \<le> C * p + k \<and> C * p + k < C * q + C"
    have "(C * p + k) div C = p" using that by simp
    moreover have "(C * p + k) div C = q"
      using a that by (intro div_nat_eqI) (simp_all add: algebra_simps)
    ultimately show "p = q" by simp
  qed (use that in simp)
  then show ?thesis using assms by (auto simp: read_at_def write_at_def intro!: nth_equalityI)
qed

lemma slot_inject:
  assumes "F * (2 * j + h) + i = F * (2 * j' + h') + i'" "i < F" "i' < F" "h < 2" "h' < (2 :: nat)"
  shows "j = j' \<and> h = h' \<and> i = i'"
proof -
  have "(F * (2 * j + h) + i) div F = 2 * j + h" "(F * (2 * j' + h') + i') div F = 2 * j' + h'" using assms(2,3) by simp_all
  then have "2 * j + h = 2 * j' + h'" using assms(1) by simp
  then show ?thesis using assms by (auto simp: less_2_cases_iff) presburger+
qed

lemma read_after_write:
  assumes "length ys = cf_channels G" "i < cf_frames G" "i' < cf_frames G" "h < 2" "h' < 2"
  shows "read_at (write_at out (half_at G j h + i * cf_channels G) ys) (half_at G j' h' + i' * cf_channels G) (cf_channels G) =
    (if j = j' \<and> h = h' \<and> i = i' then ys else read_at out (half_at G j' h' + i' * cf_channels G) (cf_channels G))"
  using slot_inject [of "cf_frames G" j h i j' h' i'] assms by (auto simp: half_slot read_write)

section \<open>Invariant\<close>

text \<open>
  \<open>half_of\<close> is the half for job \<open>c\<close> of a thread. After \<open>c\<close> jobs a thread is rested; during the next it is busy, and its half has the
  frames rendered so far; \<open>held\<close> says that a half has the block of a job.
\<close>

definition half_of :: "('s, 't) mt_config \<Rightarrow> nat \<Rightarrow> nat" where
  "half_of G c = (if cf_zero_latency G then 0 else c mod 2)"

lemma half_of_less [simp]: "half_of G c < 2"
  by (simp add: half_of_def)

lemma half_next: "half_of G (Suc b) = (if cf_zero_latency G \<or> odd b then 0 else 1)"
  by (auto simp: half_of_def mod_2_eq_odd)

definition frame_in :: "('s, 't) mt_config \<Rightarrow> (nat \<Rightarrow> sample) \<Rightarrow> nat \<Rightarrow> nat \<Rightarrow> nat \<Rightarrow> sample list" where
  "frame_in G out j c i = read_at out (half_at G j (half_of G c) + i * cf_channels G) (cf_channels G)"

definition held :: "('s, 't) mt_config \<Rightarrow> (nat \<Rightarrow> sample) \<Rightarrow> nat \<Rightarrow> nat \<Rightarrow> nat \<Rightarrow> bool" where
  "held G out j c n \<longleftrightarrow> (\<forall>i < n. frame_in G out j c i = block G j c ! i)"

definition rested :: "('s, 't) mt_config \<Rightarrow> nat \<Rightarrow> nat \<Rightarrow> 's worker \<Rightarrow> bool" where
  "rested G j c w \<longleftrightarrow> w_count w = c \<and> w_state w = state_after G j c \<and>
     (w_pc w = W_Top \<and> w_toggle w = (\<not> cf_zero_latency G \<and> odd c) \<or>
      w_pc w = W_Wait \<and> w_toggle w = (\<not> cf_zero_latency G \<and> even c) \<and> w_half w = half_of G c)"

definition busy :: "('s, 't) mt_config \<Rightarrow> (nat \<Rightarrow> sample) \<Rightarrow> nat \<Rightarrow> nat \<Rightarrow> 's worker \<Rightarrow> bool" where
  "busy G out j c w \<longleftrightarrow> w_count w = Suc c \<and> w_toggle w = (\<not> cf_zero_latency G \<and> even c) \<and> w_half w = half_of G c \<and>
     (w_pc w = W_Start \<and> w_state w = state_after G j c \<or>
      (\<exists>i \<le> cf_frames G. w_pc w = W_Frame i \<and> w_time w = clock_of G c \<and> w_state w = snd (job G j c i (state_after G j c)) \<and> held G out j c i))"

definition waiting :: "('s, 't) mt_config \<Rightarrow> (nat \<Rightarrow> sample) \<Rightarrow> nat \<Rightarrow> nat \<Rightarrow> 's worker \<Rightarrow> bool" where
  "waiting G out j c w \<longleftrightarrow> rested G j c w \<or> busy G out j c w \<or> rested G j (Suc c) w \<and> held G out j c (cf_frames G)"

definition finished :: "('s, 't) mt \<Rightarrow> nat \<Rightarrow> bool" where
  "finished s j \<longleftrightarrow> w_count (mt_work s j) = mt_signal s \<and> w_pc (mt_work s j) \<in> {W_Top, W_Wait}"

text \<open>While the callback does not wait, all threads rest and their last blocks are in place; while it waits it counts those that are done.\<close>

definition work_ok :: "('s, 't) mt_config \<Rightarrow> ('s, 't) mt \<Rightarrow> bool" where
  "work_ok G s \<longleftrightarrow>
     (if mt_pc s = A_Wait
      then (\<exists>c. mt_signal s = Suc c \<and> (\<forall>j < cf_threads G. waiting G (mt_out s) j c (mt_work s j))) \<and>
           mt_done s = card {j. j < cf_threads G \<and> finished s j}
      else (\<forall>j < cf_threads G. rested G j (mt_signal s) (mt_work s j) \<and>
              (\<forall>c. mt_signal s = Suc c \<longrightarrow> held G (mt_out s) j c (cf_frames G))) \<and>
           (mt_signal s = 0 \<longrightarrow> mt_out s = (\<lambda>_. 0)) \<and> (mt_pc s \<notin> {A_Reset, A_Clear} \<longrightarrow> mt_done s = 0))"

definition main_ok :: "('s, 't) mt_config \<Rightarrow> ('s, 't) mt \<Rightarrow> bool" where
  "main_ok G s \<longleftrightarrow> mt_time s = cf_clock G + of_nat (cf_frames G * mt_begun s) \<and>
     (case mt_pc s of
        A_Idle \<Rightarrow> mt_begun s = mt_signal s \<and> mt_log s = map (heard G) [0..<mt_begun s] \<and> mt_mix s = mix_after G (mt_begun s) \<and>
          (cf_zero_latency G \<or> mt_toggle s = even (mt_begun s))
      | _ \<Rightarrow> (\<exists>b. mt_begun s = Suc b \<and> mt_in s = cf_input G b \<and> mt_log s = map (heard G) [0..<b] \<and>
          (case mt_pc s of
             A_Reset \<Rightarrow> mt_signal s = b \<and> mt_mix s = mix_after G b \<and> mt_cur s = [] \<and> (cf_zero_latency G \<or> mt_toggle s = even b)
           | A_Frame i \<Rightarrow> i \<le> cf_frames G \<and> mt_signal s = (if cf_zero_latency G then Suc b else b) \<and>
               mt_half s = half_of G (Suc b) \<and> (cf_zero_latency G \<or> mt_toggle s = odd b) \<and>
               mt_cur s = fst (mixing G b i (mix_after G b)) \<and> mt_mix s = snd (mixing G b i (mix_after G b))
           | _ \<Rightarrow> mt_signal s = (if mt_pc s = A_Signal then b else Suc b) \<and>
               (if cf_zero_latency G then mt_mix s = mix_after G b \<and> mt_cur s = []
                else mt_mix s = mix_after G (Suc b) \<and> mt_cur s = heard G b \<and> mt_toggle s = odd b))))"

section \<open>Threads at work\<close>

lemma block_nth: "i < cf_frames G \<Longrightarrow> block G j c ! i =
    fst (worker_frame G j (clock_of G c) (cf_input G c) i (snd (job G j c i (state_after G j c))))"
  by (simp add: block_def job_def frames_nth)

lemma worker_frame_length [simp]: "length (fst (worker_frame G j t input i s)) = cf_channels G"
  by (simp add: worker_frame_def dsp_frame_def)

lemma frame_in_write:
  assumes "length ys = cf_channels G" "i < cf_frames G" "i' < cf_frames G"
  shows "frame_in G (write_at out (half_at G j (half_of G c) + i * cf_channels G) ys) j' c i' =
    (if j = j' \<and> i = i' then ys else frame_in G out j' c i')"
  by (simp add: frame_in_def read_after_write [OF assms half_of_less half_of_less])

lemma held_write:
  assumes "length ys = cf_channels G" "i < cf_frames G" "n \<le> cf_frames G"
  shows "j \<noteq> j' \<Longrightarrow> held G (write_at out (half_at G j (half_of G c) + i * cf_channels G) ys) j' c n = held G out j' c n"
    "held G out j c i \<Longrightarrow> ys = block G j c ! i \<Longrightarrow> held G (write_at out (half_at G j (half_of G c) + i * cf_channels G) ys) j c (Suc i)"
  using assms by (auto simp: held_def frame_in_write less_Suc_eq)

lemma busy_write:
  assumes "length ys = cf_channels G" "i < cf_frames G" "j \<noteq> j'"
  shows "busy G (write_at out (half_at G j (half_of G c) + i * cf_channels G) ys) j' c w = busy G out j' c w"
  using assms by (auto simp: busy_def held_write(1))

lemma rested_top:
  "rested G j c w \<Longrightarrow> w_pc w = W_Top \<Longrightarrow>
    rested G j c (w\<lparr>w_half := if w_toggle w then 1 else 0, w_toggle := if cf_zero_latency G then w_toggle w else \<not> w_toggle w, w_pc := W_Wait\<rparr>)"
  by (auto simp: rested_def half_of_def odd_iff_mod_2_eq_one)

lemma rested_go:
  "rested G j c w \<Longrightarrow> w_pc w = W_Wait \<Longrightarrow> busy G out j c (w\<lparr>w_count := Suc (w_count w), w_pc := W_Start\<rparr>)"
  by (auto simp: rested_def busy_def)

lemma busy_start:
  "busy G out j c w \<Longrightarrow> w_pc w = W_Start \<Longrightarrow> busy G out j c (w\<lparr>w_time := clock_of G c, w_pc := W_Frame 0\<rparr>)"
  by (simp add: busy_def held_def job_def)

lemma busy_render:
  assumes "busy G out j c w" "w_pc w = W_Frame i" "i < cf_frames G" "worker_frame G j (w_time w) (cf_input G c) i (w_state w) = (ys, st)"
  shows "busy G (write_at out (half_at G j (w_half w) + i * cf_channels G) ys) j c (w\<lparr>w_state := st, w_pc := W_Frame (Suc i)\<rparr>)"
    "length ys = cf_channels G"
proof -
  have w: "w_time w = clock_of G c" "w_state w = snd (job G j c i (state_after G j c))" "held G out j c i" "w_half w = half_of G c"
    using assms(1,2) by (auto simp: busy_def)
  have "ys = block G j c ! i" using assms(3,4) w by (simp add: block_nth)
  moreover show len: "length ys = cf_channels G" using assms(4) by (metis fst_conv worker_frame_length)
  moreover have "st = snd (job G j c (Suc i) (state_after G j c))"
    using assms(4) w by (simp add: job_def frames_Suc del: frames.simps)
  ultimately show "busy G (write_at out (half_at G j (w_half w) + i * cf_channels G) ys) j c (w\<lparr>w_state := st, w_pc := W_Frame (Suc i)\<rparr>)"
    using assms(1-3) w held_write(2) [OF len assms(3) le_refl w(3)] by (auto simp: busy_def)
qed

lemma busy_finish:
  "busy G out j c w \<Longrightarrow> w_pc w = W_Frame (cf_frames G) \<Longrightarrow>
    rested G j (Suc c) (w\<lparr>w_pc := W_Top\<rparr>) \<and> held G out j c (cf_frames G)"
  by (auto simp: busy_def rested_def)

lemma rested_pc: "rested G j c w \<Longrightarrow> w_pc w \<in> {W_Top, W_Wait} \<and> w_count w = c"
  by (auto simp: rested_def)

lemma busy_pc: "busy G out j c w \<Longrightarrow> w_pc w \<notin> {W_Top, W_Wait} \<and> w_count w = Suc c \<and> w_half w = half_of G c"
  by (auto simp: busy_def)

section \<open>The invariant is kept\<close>

lemma put_worker_fields [simp]:
  "mt_pc (put_worker j w s) = mt_pc s" "mt_signal (put_worker j w s) = mt_signal s" "mt_done (put_worker j w s) = mt_done s"
  "mt_out (put_worker j w s) = mt_out s" "mt_work (put_worker j w s) = (mt_work s)(j := w)"
  by (simp_all add: put_worker_def)

lemma work_quiet:
  assumes "work_ok G s" "mt_pc s \<noteq> A_Wait" "mt_pc s' \<noteq> A_Wait" "mt_work s' = mt_work s" "mt_out s' = mt_out s" "mt_signal s' = mt_signal s"
    "mt_pc s' \<notin> {A_Reset, A_Clear} \<longrightarrow> mt_done s' = 0"
  shows "work_ok G s'"
  using assms by (simp add: work_ok_def)

lemma work_quiet_thread:
  assumes "work_ok G s" "mt_pc s \<noteq> A_Wait" "j < cf_threads G"
  shows "rested G j (mt_signal s) (mt_work s j)"
  using assms by (simp add: work_ok_def)

lemma work_put_quiet:
  assumes "work_ok G s" "mt_pc s \<noteq> A_Wait" "rested G j (mt_signal s) w"
  shows "work_ok G (put_worker j w s)"
  using assms by (auto simp: work_ok_def)

lemma work_put:
  assumes ok: "work_ok G s" "mt_pc s = A_Wait" "mt_signal s = Suc c" and j: "j < cf_threads G" and w: "waiting G out j c w"
    and others: "\<And>i. i \<noteq> j \<Longrightarrow> waiting G (mt_out s) i c (mt_work s i) \<Longrightarrow> waiting G out i c (mt_work s i)"
    and not: "\<not> finished s j" and "done": "d = mt_done s + (if w_count w = Suc c \<and> w_pc w \<in> {W_Top, W_Wait} then 1 else 0)"
  shows "work_ok G (put_worker j w s\<lparr>mt_out := out, mt_done := d\<rparr>)" (is "work_ok G ?s")
proof -
  let ?S = "{i. i < cf_threads G \<and> finished s i}"
  have "{i. i < cf_threads G \<and> finished ?s i} = (if w_count w = Suc c \<and> w_pc w \<in> {W_Top, W_Wait} then insert j ?S else ?S)"
    using not j ok(3) by (auto simp: finished_def put_worker_def split: if_splits)
  moreover have "card (insert j ?S) = Suc (card ?S)" using not by simp
  ultimately have "d = card {i. i < cf_threads G \<and> finished ?s i}" using ok(1,2) "done" by (auto simp: work_ok_def)
  moreover have "waiting G out i c (mt_work ?s i)" if "i < cf_threads G" for i
    using that ok w others [of i] by (auto simp: work_ok_def)
  ultimately show ?thesis using ok by (simp add: work_ok_def put_worker_def)
qed

lemma waiting_top:
  assumes "waiting G out j c w" "w_pc w = W_Top"
  shows "waiting G out j c (w\<lparr>w_half := if w_toggle w then 1 else 0,
    w_toggle := if cf_zero_latency G then w_toggle w else \<not> w_toggle w, w_pc := W_Wait\<rparr>)"
  using assms rested_top busy_pc unfolding waiting_def by blast

lemma waiting_put:
  assumes "work_ok G s" "mt_pc s = A_Wait" "mt_signal s = Suc c" "waiting G (mt_out s) j c w"
    "finished (put_worker j w s) j = finished s j"
  shows "work_ok G (put_worker j w s)"
proof -
  have "finished (put_worker j w s) i = finished s i" for i using assms(5) by (cases "i = j") (simp_all add: finished_def)
  then show ?thesis using assms(1-4) by (simp add: work_ok_def)
qed

lemma work_top:
  assumes "work_ok G s" "j < cf_threads G" "w_pc (mt_work s j) = W_Top"
  shows "work_ok G (put_worker j ((mt_work s j)\<lparr>w_half := if w_toggle (mt_work s j) then 1 else 0,
    w_toggle := if cf_zero_latency G then w_toggle (mt_work s j) else \<not> w_toggle (mt_work s j), w_pc := W_Wait\<rparr>) s)"
    (is "work_ok G (put_worker j ?w s)")
proof (cases "mt_pc s = A_Wait")
  case False
  show ?thesis
    by (rule work_put_quiet [OF assms(1) False rested_top [OF work_quiet_thread [OF assms(1) False assms(2)] assms(3)]])
next
  case True
  then obtain c where c: "mt_signal s = Suc c" "waiting G (mt_out s) j c (mt_work s j)" using assms by (auto simp: work_ok_def)
  show ?thesis by (rule waiting_put [OF assms(1) True c(1) waiting_top [OF c(2) assms(3)]]) (simp add: finished_def assms(3))
qed

lemma work_go:
  assumes "work_ok G s" "j < cf_threads G" "w_pc (mt_work s j) = W_Wait" "w_count (mt_work s j) < mt_signal s"
  shows "work_ok G (put_worker j ((mt_work s j)\<lparr>w_count := Suc (w_count (mt_work s j)), w_pc := W_Start\<rparr>) s)"
proof -
  have pc: "mt_pc s = A_Wait" using work_quiet_thread [OF assms(1) _ assms(2)] assms(4) rested_pc by fastforce
  then obtain c where c: "mt_signal s = Suc c" "waiting G (mt_out s) j c (mt_work s j)" using assms by (auto simp: work_ok_def)
  then have "rested G j c (mt_work s j)" using assms(3,4) by (auto simp: waiting_def dest: rested_pc busy_pc)
  note b = rested_go [OF this assms(3), of "mt_out s"]
  show ?thesis
    using work_put [OF assms(1) pc c(1) assms(2), of "mt_out s" "(mt_work s j)\<lparr>w_count := Suc (w_count (mt_work s j)), w_pc := W_Start\<rparr>" "mt_done s"]
      b assms(4) by (simp add: waiting_def finished_def put_worker_def)
qed

lemma work_busy:
  assumes "work_ok G s" "j < cf_threads G" "w_pc (mt_work s j) \<notin> {W_Top, W_Wait}"
  shows "mt_pc s = A_Wait" "\<exists>c. mt_signal s = Suc c \<and> busy G (mt_out s) j c (mt_work s j)" "\<not> finished s j"
proof -
  show pc: "mt_pc s = A_Wait" using work_quiet_thread [OF assms(1) _ assms(2)] assms(3) rested_pc by blast
  then obtain c where c: "mt_signal s = Suc c" "waiting G (mt_out s) j c (mt_work s j)" using assms by (auto simp: work_ok_def)
  then show "\<exists>c. mt_signal s = Suc c \<and> busy G (mt_out s) j c (mt_work s j)" using assms(3) rested_pc unfolding waiting_def by metis
  show "\<not> finished s j" using assms(3) by (simp add: finished_def)
qed

lemma work_start:
  assumes "work_ok G s" "j < cf_threads G" "w_pc (mt_work s j) = W_Start" "\<And>c. mt_signal s = Suc c \<Longrightarrow> mt_time s = clock_of G c"
  shows "work_ok G (put_worker j ((mt_work s j)\<lparr>w_time := mt_time s, w_pc := W_Frame 0\<rparr>) s)"
proof -
  have nt: "w_pc (mt_work s j) \<notin> {W_Top, W_Wait}" using assms(3) by simp
  note b = work_busy [OF assms(1,2) nt]
  obtain c where c: "mt_signal s = Suc c" "busy G (mt_out s) j c (mt_work s j)" using b(2) by blast
  show ?thesis
    using work_put [OF assms(1) b(1) c(1) assms(2), of "mt_out s" "(mt_work s j)\<lparr>w_time := mt_time s, w_pc := W_Frame 0\<rparr>" "mt_done s"]
      busy_start [OF c(2) assms(3)] b(3) assms(4) [OF c(1)] by (simp add: waiting_def put_worker_def)
qed

lemma work_render:
  assumes "work_ok G s" "j < cf_threads G" "w = mt_work s j" "w_pc w = W_Frame i" "i < cf_frames G"
    "worker_frame G j (w_time w) (mt_in s) i (w_state w) = (ys, st)" "\<And>c. mt_signal s = Suc c \<Longrightarrow> mt_in s = cf_input G c"
  shows "work_ok G (put_worker j (w\<lparr>w_state := st, w_pc := W_Frame (Suc i)\<rparr>) s
    \<lparr>mt_out := write_at (mt_out s) (half_at G j (w_half w) + i * cf_channels G) ys\<rparr>)"
proof -
  have nt: "w_pc (mt_work s j) \<notin> {W_Top, W_Wait}" using assms(3,4) by simp
  note b = work_busy [OF assms(1,2) nt]
  obtain c where c: "mt_signal s = Suc c" "busy G (mt_out s) j c w" using b(2) assms(3) by blast
  note r = busy_render [OF c(2) assms(4,5) assms(6) [unfolded assms(7) [OF c(1)]]]
  have h: "w_half w = half_of G c" using busy_pc [OF c(2)] by simp
  have "waiting G (write_at (mt_out s) (half_at G j (w_half w) + i * cf_channels G) ys) j' c w' = waiting G (mt_out s) j' c w'"
    if "j' \<noteq> j" for j' w'
    using that r(2) assms(5) by (auto simp: waiting_def h busy_write held_write(1))
  then show ?thesis
    using work_put [OF assms(1) b(1) c(1) assms(2), of "write_at (mt_out s) (half_at G j (w_half w) + i * cf_channels G) ys"
        "w\<lparr>w_state := st, w_pc := W_Frame (Suc i)\<rparr>" "mt_done s"] r(1) b(3) by (simp add: waiting_def put_worker_def)
qed

lemma work_finish:
  assumes "work_ok G s" "j < cf_threads G" "w_pc (mt_work s j) = W_Frame (cf_frames G)"
  shows "work_ok G (put_worker j ((mt_work s j)\<lparr>w_pc := W_Top\<rparr>) s\<lparr>mt_done := Suc (mt_done s)\<rparr>)"
proof -
  have nt: "w_pc (mt_work s j) \<notin> {W_Top, W_Wait}" using assms(3) by simp
  note b = work_busy [OF assms(1,2) nt]
  obtain c where c: "mt_signal s = Suc c" "busy G (mt_out s) j c (mt_work s j)" using b(2) by blast
  show ?thesis
    using work_put [OF assms(1) b(1) c(1) assms(2), of "mt_out s" "(mt_work s j)\<lparr>w_pc := W_Top\<rparr>" "Suc (mt_done s)"]
      busy_finish [OF c(2) assms(3)] b(3) busy_pc [OF c(2)] by (simp add: waiting_def put_worker_def)
qed

section \<open>The callback\<close>

lemma main_other:
  "main_ok G s \<Longrightarrow> main_ok G (put_worker j w s)" "main_ok G s \<Longrightarrow> main_ok G (s\<lparr>mt_out := out\<rparr>)" "main_ok G s \<Longrightarrow> main_ok G (s\<lparr>mt_done := d\<rparr>)"
  by (auto simp: main_ok_def put_worker_def split: main_pc.splits)

lemma main_time:
  assumes "main_ok G s" "mt_pc s = A_Wait" "mt_signal s = Suc c"
  shows "mt_time s = clock_of G c" "mt_in s = cf_input G c"
  using assms by (auto simp: main_ok_def clock_of_def algebra_simps)

text \<open>What the mixer reads is what it is to get.\<close>

lemma blocks_mixed:
  assumes "work_ok G s" "main_ok G s" "mt_pc s = A_Frame i" "i < cf_frames G" "mt_begun s = Suc b" "j < cf_threads G"
  shows "mt_blocks G s j i = mixed_block G b j i"
proof -
  have m: "mt_half s = half_of G (Suc b)" "mt_signal s = (if cf_zero_latency G then Suc b else b)"
    using assms(2,3,5) by (auto simp: main_ok_def)
  have held: "frame_in G (mt_out s) j c i = block G j c ! i" if "mt_signal s = Suc c" for c
    using assms(1,3,4,6) that by (simp add: work_ok_def held_def)
  have read: "mt_blocks G s j i = frame_in G (mt_out s) j c i" if "half_of G c = half_of G (Suc b)" for c
    by (simp add: mt_blocks_def frame_in_def mix_at_half m that)
  consider "cf_zero_latency G" | "\<not> cf_zero_latency G" "b = 0" | c where "\<not> cf_zero_latency G" "b = Suc c" by (cases b) auto
  then show ?thesis
  proof cases
    case 1
    then show ?thesis using held [of b] read [of b] m(2) by (simp add: mixed_block_def half_of_def)
  next
    case 2
    then have "mt_out s = (\<lambda>_. 0)" using assms(1,3) m(2) by (simp add: work_ok_def)
    then show ?thesis using 2 by (simp add: mt_blocks_def mixed_block_def read_at_def map_replicate_const)
  next
    case 3
    then show ?thesis using held [of c] read [of c] m(2) by (simp add: mixed_block_def half_of_def)
  qed
qed

lemma mix_frame_cong:
  "(\<And>jj. jj < cf_threads G \<Longrightarrow> blocks jj i = blocks' jj i) \<Longrightarrow> mix_frame G blocks t i m = mix_frame G blocks' t i m"
  unfolding mix_frame_def
proof (rule channels_cong)
  fix k m
  assume "\<And>jj. jj < cf_threads G \<Longrightarrow> blocks jj i = blocks' jj i"
  then have "map (\<lambda>jj. blocks jj i ! k) [0..<cf_threads G] = map (\<lambda>jj. blocks' jj i ! k) [0..<cf_threads G]" by simp
  then show "(let (x, m1) = cf_mix G m (map (\<lambda>jj. blocks jj i ! k) [0..<cf_threads G]) (of_nat i + t) k in (audio_sanity_f x, m1)) =
      (let (x, m1) = cf_mix G m (map (\<lambda>jj. blocks' jj i ! k) [0..<cf_threads G]) (of_nat i + t) k in (audio_sanity_f x, m1))"
    by (rule arg_cong)
qed

lemma main_callback:
  assumes "work_ok G s" "main_ok G s" "mt_pc s = A_Idle"
  shows "work_ok G (mt_begin G s)" "main_ok G (mt_begin G s)"
proof -
  show "work_ok G (mt_begin G s)" by (rule work_quiet [OF assms(1)]) (simp_all add: assms(3) mt_begin_def)
  show "main_ok G (mt_begin G s)" using assms(2,3) by (auto simp: main_ok_def mt_begin_def algebra_simps)
qed

lemma main_reset:
  assumes "work_ok G s" "main_ok G s" "mt_pc s = A_Reset"
    "s' = (if cf_zero_latency G then s\<lparr>mt_done := 0, mt_pc := A_Signal\<rparr> else start_mix G (s\<lparr>mt_done := 0\<rparr>))"
  shows "work_ok G s' \<and> main_ok G s'"
proof
  show "work_ok G s'" by (rule work_quiet [OF assms(1)]) (simp_all add: assms(3,4) start_mix_def Let_def)
  show "main_ok G s'" using assms(2-)
    by (auto simp: main_ok_def start_mix_def Let_def mixing_def half_next)
qed

lemma main_signal:
  assumes "work_ok G s" "main_ok G s" "mt_pc s = A_Signal"
  shows "work_ok G (s\<lparr>mt_signal := Suc (mt_signal s), mt_pc := A_Wait\<rparr>) \<and> main_ok G (s\<lparr>mt_signal := Suc (mt_signal s), mt_pc := A_Wait\<rparr>)"
proof
  let ?s = "s\<lparr>mt_signal := Suc (mt_signal s), mt_pc := A_Wait\<rparr>"
  have "rested G j (mt_signal s) (mt_work s j)" if "j < cf_threads G" for j using work_quiet_thread [OF assms(1) _ that] assms(3) by simp
  moreover from this have "{j. j < cf_threads G \<and> finished ?s j} = {}" by (fastforce simp: finished_def dest: rested_pc)
  moreover have "mt_done s = 0" using assms(1,3) by (simp add: work_ok_def)
  ultimately show "work_ok G ?s" by (simp add: work_ok_def waiting_def)
  show "main_ok G ?s" using assms(2,3) by (auto simp: main_ok_def algebra_simps)
qed

lemma main_done:
  assumes "work_ok G s" "main_ok G s" "mt_pc s = A_Wait" "mt_done s = cf_threads G"
  shows "work_ok G (s\<lparr>mt_pc := A_Clear\<rparr>) \<and> main_ok G (s\<lparr>mt_pc := A_Clear\<rparr>)"
proof
  obtain c where c: "mt_signal s = Suc c" "\<forall>j < cf_threads G. waiting G (mt_out s) j c (mt_work s j)"
    "mt_done s = card {j. j < cf_threads G \<and> finished s j}" using assms(1,3) by (auto simp: work_ok_def)
  have "{j. j < cf_threads G \<and> finished s j} = {..< cf_threads G}"
    using c(3) assms(4) by (intro card_subset_eq) auto
  then have "\<forall>j < cf_threads G. finished s j" by auto
  then have "\<forall>j < cf_threads G. rested G j (Suc c) (mt_work s j) \<and> held G (mt_out s) j c (cf_frames G)"
    using c(1,2) unfolding waiting_def finished_def by (metis busy_pc n_not_Suc_n rested_pc)
  then show "work_ok G (s\<lparr>mt_pc := A_Clear\<rparr>)" using c(1) by (simp add: work_ok_def)
  show "main_ok G (s\<lparr>mt_pc := A_Clear\<rparr>)" using assms(2,3) by (auto simp: main_ok_def)
qed

lemma main_clear:
  assumes "work_ok G s" "main_ok G s" "mt_pc s = A_Clear"
    "s' = (if cf_zero_latency G then start_mix G (s\<lparr>mt_done := 0\<rparr>) else mt_return (s\<lparr>mt_done := 0\<rparr>))"
  shows "work_ok G s' \<and> main_ok G s'"
proof
  show "work_ok G s'" by (rule work_quiet [OF assms(1)]) (simp_all add: assms(3,4) start_mix_def mt_return_def Let_def)
  show "main_ok G s'" using assms(2-) by (auto simp: main_ok_def start_mix_def mt_return_def Let_def mixing_def half_of_def)
qed

lemma main_mix:
  assumes "work_ok G s" "main_ok G s" "mt_pc s = A_Frame i" "i < cf_frames G" "mix_frame G (mt_blocks G s) (mt_time s) i (mt_mix s) = (ys, m)"
    "s' = s\<lparr>mt_cur := mt_cur s @ [ys], mt_mix := m, mt_pc := A_Frame (Suc i)\<rparr>"
  shows "work_ok G s' \<and> main_ok G s'"
proof
  show "work_ok G s'" by (rule work_quiet [OF assms(1)]) (use assms(1) in \<open>simp_all add: assms(3,6) work_ok_def\<close>)
  obtain b where b: "mt_begun s = Suc b" using assms(2,3) by (auto simp: main_ok_def)
  have m: "mt_cur s = fst (mixing G b i (mix_after G b))" "mt_mix s = snd (mixing G b i (mix_after G b))" "mt_time s = clock_of G b"
    using assms(2,3) b by (auto simp: main_ok_def clock_of_def)
  have "mix_frame G (mixed_block G b) (clock_of G b) i (mt_mix s) = (ys, m)"
    using assms(5) m(3) mix_frame_cong [of G "mt_blocks G s" i "mixed_block G b"] blocks_mixed [OF assms(1-4) b] by metis
  then have "mt_cur s @ [ys] = fst (mixing G b (Suc i) (mix_after G b))" "m = snd (mixing G b (Suc i) (mix_after G b))"
    using m by (simp_all add: mixing_def frames_Suc del: frames.simps)
  then show "main_ok G s'" using assms(2-4,6) b by (auto simp: main_ok_def)
qed

lemma main_mixed:
  assumes "work_ok G s" "main_ok G s" "mt_pc s = A_Frame (cf_frames G)"
    "s' = (if cf_zero_latency G then mt_return s else s\<lparr>mt_pc := A_Signal\<rparr>)"
  shows "work_ok G s' \<and> main_ok G s'"
proof
  show "work_ok G s'" by (rule work_quiet [OF assms(1)]) (use assms(1) in \<open>simp_all add: assms(3,4) mt_return_def work_ok_def\<close>)
  show "main_ok G s'" using assms(2-) by (auto simp: main_ok_def mt_return_def heard_def)
qed

section \<open>All reachable states\<close>

lemma step_ok:
  assumes "mt_step G s s'" "work_ok G s" "main_ok G s"
  shows "work_ok G s' \<and> main_ok G s'"
  using assms
proof cases
  case a_reset
  then show ?thesis using main_reset [OF assms(2,3)] by blast
next
  case a_signal
  then show ?thesis using main_signal [OF assms(2,3)] by simp
next
  case a_done
  then show ?thesis using main_done [OF assms(2,3)] by simp
next
  case a_clear
  then show ?thesis using main_clear [OF assms(2,3)] by blast
next
  case (a_mix i ys m)
  then show ?thesis using main_mix [OF assms(2,3)] by blast
next
  case a_mixed
  then show ?thesis using main_mixed [OF assms(2,3)] by blast
next
  case (w_top j w)
  then show ?thesis using work_top [OF assms(2), of j] main_other(1) [OF assms(3)] by (simp only:)
next
  case (w_go j w)
  then show ?thesis using work_go [OF assms(2)] main_other [OF assms(3)] by simp
next
  case (w_start j w)
  have "mt_pc s = A_Wait" using work_busy(1) [OF assms(2), of j] w_start by simp
  then show ?thesis using w_start work_start [OF assms(2), of j] main_time(1) [OF assms(3)] main_other [OF assms(3)] by simp
next
  case (w_render j w i ys st)
  have "mt_pc s = A_Wait" using work_busy(1) [OF assms(2), of j] w_render by simp
  then show ?thesis using w_render work_render [OF assms(2) w_render(2-6)] main_time(2) [OF assms(3)]
    by (simp add: main_other [OF main_other(1) [OF assms(3)]])
next
  case (w_finish j w)
  then show ?thesis using work_finish [OF assms(2)] by (simp add: main_other [OF main_other(1) [OF assms(3)]])
qed

lemma reachable_ok: "mt_reachable G s \<Longrightarrow> work_ok G s \<and> main_ok G s"
proof (induction rule: mt_reachable.induct)
  case init
  show ?case by (simp add: work_ok_def main_ok_def initMTAudio_def initMTAudio_after_def rested_def)
next
  case (callback s)
  then show ?case using main_callback by blast
next
  case (step s s')
  then show ?case using step_ok by blast
qed

text \<open>Two threads, each of which gives the time of the frame or its number, and a mixer that adds.\<close>

definition two_threads :: "bool \<Rightarrow> (unit, unit) mt_config" where
  "two_threads zero_latency = \<lparr>cf_channels = 1, cf_in_channels = 0, cf_frames = 2, cf_threads = 2, cf_zero_latency = zero_latency,
     cf_dsp = (\<lambda>j s x t k xs. (if j = 0 then 0x3F000000 else ucast t, s)), cf_mix = (\<lambda>m xs t k. (xs ! 0 + xs ! 1, m)),
     cf_states = (\<lambda>_. ()), cf_mix_state = (), cf_clock = 0, cf_input = (\<lambda>_. [])\<rparr>"

text \<open>C7: Whatever the order in which the callback and the threads take their steps, what has been put out is what one gets by letting one
  thread render after the other and mixing their blocks: those of the same callback, or with latency those of the one before.
\<close>

theorem threads_do_not_race:
  assumes "mt_reachable G s"
  shows "mt_log s = map (heard G) [0..<if mt_pc s = A_Idle then mt_begun s else mt_begun s - 1]"
  using reachable_ok [OF assms] by (auto simp: main_ok_def split: main_pc.splits)

text \<open>C8: While the callback mixes no thread renders, and never are more threads counted as done than there are, which the code takes
  for a race.
\<close>

theorem mixing_excludes_rendering:
  assumes "mt_reachable G s"
  shows "(mt_pc s = A_Frame i \<longrightarrow> (\<forall>j < cf_threads G. w_pc (mt_work s j) \<in> {W_Top, W_Wait})) \<and>
    (mt_pc s = A_Wait \<longrightarrow> mt_done s \<le> cf_threads G)"
proof (intro conjI impI allI)
  have ok: "work_ok G s" using reachable_ok [OF assms] by blast
  show "w_pc (mt_work s j) \<in> {W_Top, W_Wait}" if "mt_pc s = A_Frame i" "j < cf_threads G" for j
    using work_quiet_thread [OF ok _ that(2)] that(1) by (auto dest: rested_pc)
  show "mt_done s \<le> cf_threads G" if "mt_pc s = A_Wait"
  proof -
    have "card {j. j < cf_threads G \<and> finished s j} \<le> card {..< cf_threads G}" by (rule card_mono) auto
    then show ?thesis using ok that by (simp add: work_ok_def)
  qed
qed

theorem mixing_excludes_rendering_witness: "\<exists>s. mt_reachable (two_threads False) s \<and> mt_pc s = A_Frame 0 \<and> w_pc (mt_work s 0) = W_Top"
proof -
  let ?G = "two_threads False"
  have "mt_reachable ?G (mt_begin ?G (initMTAudio ?G))" by (intro mt_reachable.intros) (simp add: initMTAudio_def initMTAudio_after_def)
  moreover have "mt_step ?G (mt_begin ?G (initMTAudio ?G)) (start_mix ?G (mt_begin ?G (initMTAudio ?G)\<lparr>mt_done := 0\<rparr>))"
    using mt_step.a_reset [of "mt_begin ?G (initMTAudio ?G)" ?G] by (simp add: mt_begin_def two_threads_def)
  ultimately have r: "mt_reachable ?G (start_mix ?G (mt_begin ?G (initMTAudio ?G)\<lparr>mt_done := 0\<rparr>))" by (rule mt_reachable.step)
  have pc: "mt_pc (start_mix ?G (mt_begin ?G (initMTAudio ?G)\<lparr>mt_done := 0\<rparr>)) = A_Frame 0" by (simp add: start_mix_def Let_def)
  then have "w_pc (mt_work (start_mix ?G (mt_begin ?G (initMTAudio ?G)\<lparr>mt_done := 0\<rparr>)) 0) \<in> {W_Top, W_Wait}"
    using mixing_excludes_rendering [OF r] by (simp add: two_threads_def)
  then show ?thesis using pc r
    by (intro exI [of _ "start_mix ?G (mt_begin ?G (initMTAudio ?G)\<lparr>mt_done := 0\<rparr>)"])
      (simp add: start_mix_def mt_begin_def initMTAudio_def initMTAudio_after_def Let_def)
qed

section \<open>The callback returns\<close>

text \<open>A measure: what the callback and each thread can still do.\<close>

fun main_left :: "('s, 't) mt_config \<Rightarrow> main_pc \<Rightarrow> nat" where
  "main_left G A_Idle = 0"
| "main_left G A_Reset = cf_frames G + 5 + cf_threads G * (cf_frames G + 5)"
| "main_left G A_Signal = (if cf_zero_latency G then cf_frames G + 4 else 3) + cf_threads G * (cf_frames G + 5)"
| "main_left G A_Wait = (if cf_zero_latency G then cf_frames G + 3 else 2)"
| "main_left G A_Clear = (if cf_zero_latency G then cf_frames G + 2 else 1)"
| "main_left G (A_Frame i) = cf_frames G - i + (if cf_zero_latency G then 1 else 4 + cf_threads G * (cf_frames G + 5))"

fun pc_left :: "nat \<Rightarrow> worker_pc \<Rightarrow> nat" where
  "pc_left F W_Top = 1"
| "pc_left F W_Wait = 0"
| "pc_left F W_Start = F + 3"
| "pc_left F (W_Frame i) = F - i + 2"

definition worker_left :: "nat \<Rightarrow> nat \<Rightarrow> 's worker \<Rightarrow> nat" where
  "worker_left F sig w = (sig - w_count w) * (F + 5) + pc_left F (w_pc w)"

definition mt_left :: "('s, 't) mt_config \<Rightarrow> ('s, 't) mt \<Rightarrow> nat" where
  "mt_left G s = main_left G (mt_pc s) + (\<Sum>j < cf_threads G. worker_left (cf_frames G) (mt_signal s) (mt_work s j))"

lemma put_left:
  assumes "j < cf_threads G" "worker_left (cf_frames G) (mt_signal s) w < worker_left (cf_frames G) (mt_signal s) (mt_work s j)"
    "mt_pc s' = mt_pc s" "mt_signal s' = mt_signal s" "mt_work s' = (mt_work s)(j := w)"
  shows "mt_left G s' < mt_left G s"
proof -
  have "(\<Sum>i < cf_threads G. worker_left (cf_frames G) (mt_signal s) (((mt_work s)(j := w)) i)) <
      (\<Sum>i < cf_threads G. worker_left (cf_frames G) (mt_signal s) (mt_work s i))"
    using assms(1,2) by (intro sum_strict_mono_ex1) auto
  then show ?thesis by (simp add: mt_left_def assms(3-5))
qed

lemma signal_left: "(\<Sum>j < n. worker_left F (Suc sig) (ws j)) \<le> (\<Sum>j < n. worker_left F sig (ws j)) + n * (F + 5)"
proof -
  have "worker_left F (Suc sig) w \<le> worker_left F sig w + (F + 5)" for w :: "'a worker"
  proof -
    have "Suc sig - w_count w \<le> Suc (sig - w_count w)" by simp
    then have "(Suc sig - w_count w) * (F + 5) \<le> Suc (sig - w_count w) * (F + 5)" by (rule mult_le_mono1)
    then show ?thesis by (simp add: worker_left_def)
  qed
  then have "(\<Sum>j < n. worker_left F (Suc sig) (ws j)) \<le> (\<Sum>j < n. worker_left F sig (ws j) + (F + 5))" by (intro sum_mono)
  then show ?thesis by (simp add: sum.distrib)
qed

lemma step_left:
  assumes "mt_step G s s'"
  shows "mt_left G s' < mt_left G s"
  using assms
proof cases
  case a_signal
  then show ?thesis using signal_left [where ws = "mt_work s" and sig = "mt_signal s" and n = "cf_threads G" and F = "cf_frames G"]
    by (auto simp: mt_left_def)
next
  case (w_top j w)
  then show ?thesis by (intro put_left) (simp_all add: worker_left_def)
next
  case (w_go j w)
  then have "mt_signal s - w_count w = Suc (mt_signal s - Suc (w_count w))" by simp
  then show ?thesis using w_go by (intro put_left) (simp_all add: worker_left_def)
next
  case (w_start j w)
  then show ?thesis by (intro put_left) (simp_all add: worker_left_def)
next
  case (w_render j w i ys st)
  then show ?thesis by (intro put_left) (simp_all add: worker_left_def)
next
  case (w_finish j w)
  then show ?thesis by (intro put_left) (simp_all add: worker_left_def)
qed (auto simp: mt_left_def start_mix_def mt_return_def Let_def)

lemma steps_left: "(mt_step G ^^ n) s s' \<Longrightarrow> n + mt_left G s' \<le> mt_left G s"
proof (induction n arbitrary: s')
  case (Suc n)
  then obtain t where "(mt_step G ^^ n) s t" "mt_step G t s'" by auto
  then show ?case using Suc.IH [of t] step_left by fastforce
qed simp

lemma steps_reachable: "(mt_step G ^^ n) s s' \<Longrightarrow> mt_reachable G s \<Longrightarrow> mt_reachable G s'"
  by (induction n arbitrary: s') (auto intro: mt_reachable.step)

lemma worker_step:
  assumes "j < cf_threads G" "waiting G (mt_out s) j c (mt_work s j)" "mt_signal s = Suc c" "\<not> finished s j"
  shows "\<exists>s'. mt_step G s s'"
proof (cases "w_pc (mt_work s j)")
  case W_Top
  then show ?thesis using w_top [OF assms(1) refl] by blast
next
  case W_Wait
  then have "w_count (mt_work s j) = c" using assms(2,3,4) by (auto simp: waiting_def finished_def dest: rested_pc busy_pc)
  then show ?thesis using w_go [OF assms(1) refl W_Wait] assms(3) by auto
next
  case W_Start
  then show ?thesis using w_start [OF assms(1) refl] by blast
next
  case (W_Frame i)
  then have "i \<le> cf_frames G" using assms(2) by (auto simp: waiting_def busy_def dest: rested_pc)
  then consider "i < cf_frames G" | "i = cf_frames G" by linarith
  then show ?thesis
  proof cases
    case 1
    obtain ys st where "worker_frame G j (w_time (mt_work s j)) (mt_in s) i (w_state (mt_work s j)) = (ys, st)" by force
    then show ?thesis using w_render [OF assms(1) refl W_Frame 1] by blast
  next
    case 2
    then show ?thesis using w_finish [OF assms(1) refl] W_Frame by blast
  qed
qed

lemma main_step:
  assumes "mt_reachable G s" "mt_pc s \<noteq> A_Idle"
  shows "\<exists>s'. mt_step G s s'"
proof (cases "mt_pc s")
  case A_Wait
  then obtain c where c: "mt_signal s = Suc c" "\<forall>j < cf_threads G. waiting G (mt_out s) j c (mt_work s j)"
    "mt_done s = card {j. j < cf_threads G \<and> finished s j}" using reachable_ok [OF assms(1)] by (auto simp: work_ok_def)
  show ?thesis
  proof (cases "\<forall>j < cf_threads G. finished s j")
    case True
    then have "{j. j < cf_threads G \<and> finished s j} = {..< cf_threads G}" by auto
    then show ?thesis using a_done [OF A_Wait, of G] c(3) by auto
  next
    case False
    then show ?thesis using worker_step c by blast
  qed
next
  case (A_Frame i)
  then have "i \<le> cf_frames G" using reachable_ok [OF assms(1)] by (auto simp: main_ok_def)
  then consider "i < cf_frames G" | "i = cf_frames G" by linarith
  then show ?thesis
  proof cases
    case 1
    obtain ys m where "mix_frame G (mt_blocks G s) (mt_time s) i (mt_mix s) = (ys, m)" by force
    then show ?thesis using a_mix [OF A_Frame 1] by blast
  next
    case 2
    then show ?thesis using a_mixed A_Frame by blast
  qed
qed (use assms(2) in \<open>blast intro: a_reset a_signal a_clear\<close>)+

lemma begin_left:
  assumes "mt_reachable G s" "mt_pc s = A_Idle"
  shows "mt_left G (mt_begin G s) \<le> cf_frames G + 5 + cf_threads G * (cf_frames G + 6)"
proof -
  have "worker_left (cf_frames G) (mt_signal s) (mt_work s j) \<le> 1" if "j < cf_threads G" for j
    using work_quiet_thread [OF conjunct1 [OF reachable_ok [OF assms(1)]] _ that] assms(2)
    by (auto simp: worker_left_def dest: rested_pc)
  then have "(\<Sum>j < cf_threads G. worker_left (cf_frames G) (mt_signal s) (mt_work s j)) \<le> (\<Sum>j < cf_threads G. 1)" by (intro sum_mono) simp
  then show ?thesis by (simp add: mt_left_def mt_begin_def algebra_simps)
qed

text \<open>C9: The callback always returns: once begun, no order of the steps is longer than a bound given by the block and the threads, and until
  it has returned some step can be taken, so it never waits for a thread that waits for it.
\<close>

theorem callback_returns:
  assumes "mt_reachable G s" "mt_pc s = A_Idle" "(mt_step G ^^ n) (mt_begin G s) s'"
  shows "n \<le> cf_frames G + 5 + cf_threads G * (cf_frames G + 6) \<and> (mt_pc s' = A_Idle \<or> (\<exists>s''. mt_step G s' s''))"
  using steps_left [OF assms(3)] begin_left [OF assms(1,2)] main_step [OF steps_reachable [OF assms(3)]] mt_reachable.callback [OF assms(1,2)]
  by auto

lemma step_begun: "mt_step G s s' \<Longrightarrow> mt_begun s' = mt_begun s"
  by (cases rule: mt_step.cases) (auto simp: put_worker_def start_mix_def mt_return_def Let_def)

lemma init_idle: "mt_reachable G (initMTAudio G)" "mt_pc (initMTAudio G) = A_Idle"
  by (rule mt_reachable.init) (simp add: initMTAudio_def initMTAudio_after_def)

lemma callback_ends:
  "mt_reachable G s \<Longrightarrow> \<exists>n s'. (mt_step G ^^ n) s s' \<and> mt_reachable G s' \<and> mt_pc s' = A_Idle \<and> mt_begun s' = mt_begun s"
proof (induction "mt_left G s" arbitrary: s rule: less_induct)
  case less
  show ?case
  proof (cases "mt_pc s = A_Idle")
    case True
    then show ?thesis using less.prems relpowp_0_I by metis
  next
    case False
    then obtain t where t: "mt_step G s t" using main_step [OF less.prems] by blast
    then obtain n s' where "(mt_step G ^^ n) t s'" "mt_reachable G s'" "mt_pc s' = A_Idle" "mt_begun s' = mt_begun t"
      using less.hyps [OF step_left [OF t]] mt_reachable.step [OF less.prems t] by blast
    then show ?thesis using relpowp_Suc_I2 [of "mt_step G" s t] t step_begun [OF t] by metis
  qed
qed

theorem callback_returns_witness:
  "\<exists>n s'. (mt_step (two_threads True) ^^ n) (mt_begin (two_threads True) (initMTAudio (two_threads True))) s' \<and> n \<le> 23 \<and> mt_pc s' = A_Idle"
proof -
  let ?G = "two_threads True" and ?s = "initMTAudio (two_threads True)"
  have s: "mt_reachable ?G ?s" "mt_pc ?s = A_Idle" by (rule init_idle)+
  obtain n s' where n: "(mt_step ?G ^^ n) (mt_begin ?G ?s) s'" "mt_pc s' = A_Idle"
    using callback_ends [OF mt_reachable.callback [OF s]] by blast
  then have "n \<le> 23" using callback_returns [OF s n(1)] by (simp add: two_threads_def)
  then show ?thesis using n by blast
qed

theorem threads_do_not_race_witness:
  "\<exists>s. mt_reachable (two_threads True) s \<and> mt_log s = [heard (two_threads True) 0] \<and> heard (two_threads True) 0 = [[0x3F000002], [0x3F000003]]"
proof -
  let ?G = "two_threads True" and ?s = "initMTAudio (two_threads True)"
  have s: "mt_reachable ?G ?s" "mt_pc ?s = A_Idle" by (rule init_idle)+
  obtain s' where n: "mt_reachable ?G s'" "mt_pc s' = A_Idle" "mt_begun s' = mt_begun (mt_begin ?G ?s)"
    using callback_ends [OF mt_reachable.callback [OF s]] by blast
  then have "mt_log s' = [heard ?G 0]" using threads_do_not_race [OF n(1)] by (simp add: mt_begin_def initMTAudio_def initMTAudio_after_def)
  moreover have "heard ?G 0 = [[0x3F000002], [0x3F000003]]" by code_simp
  ultimately show ?thesis using n by blast
qed

end
