(* ===== verification/Foreign_Text.thy ===== *)
theory Foreign_Text
  imports Scheme_Shown Scheme_Prims
begin

text \<open>
  Functions on text that C++ gives to the interpreter (src/src/ffi/regex.inc, misc.inc, src/src/Scheme.cpp). A foreign function takes the list of its
  arguments in the store and returns an object; one that throws, or whose behaviour is undefined, has no result. The library of regular
  expressions is a parameter.
\<close>

section \<open>Arguments\<close>

definition pair_car :: "store \<Rightarrow> addr \<Rightarrow> addr option" where
  "pair_car h p = (if is_pair h p then car h p else None)"

definition pair_cdr :: "store \<Rightarrow> addr \<Rightarrow> addr option" where
  "pair_cdr h p = (if is_pair h p \<or> is_continuation h p then cdr h p else None)"

primrec pair_nth :: "store \<Rightarrow> nat \<Rightarrow> addr \<Rightarrow> addr option" where
  "pair_nth h 0 p = pair_car h p"
| "pair_nth h (Suc i) p = do { d \<leftarrow> pair_cdr h p; pair_nth h i d }"

definition string_value :: "store \<Rightarrow> addr \<Rightarrow> byte list option" where
  "string_value h p = (case h_cell h p of String b _ \<Rightarrow> Some (c_str h b) | _ \<Rightarrow> None)"

definition string_arg :: "store \<Rightarrow> nat \<Rightarrow> addr \<Rightarrow> byte list option" where
  "string_arg h i args = do { p \<leftarrow> pair_nth h i args; string_value h p }"

section \<open>Regular expressions\<close>

text \<open>
  \<open>exec pattern data\<close>: what \<open>pcre_exec\<close> returns for the compiled pattern, and the pairs of \<open>ovector\<close>, in which those of no group are -1.
\<close>

type_synonym matcher = "byte list \<Rightarrow> byte list \<Rightarrow> int \<times> (nat \<Rightarrow> int \<times> int)"

definition substring :: "byte list \<Rightarrow> int \<Rightarrow> int \<Rightarrow> byte list option" where
  "substring data a b = (if 0 \<le> a \<and> a \<le> b \<and> b \<le> int (length data) then Some (take (nat b - nat a) (drop (nat a) data)) else None)"

definition push_string :: "store \<Rightarrow> byte list \<Rightarrow> addr \<Rightarrow> store \<times> addr" where
  "push_string h s list = (let (h1, x) = mk_string h s in cons h1 x list)"

definition regex_match :: "matcher \<Rightarrow> store \<Rightarrow> addr \<Rightarrow> (store \<times> addr) option" where
  "regex_match exec h args =
     do { data \<leftarrow> string_arg h 0 args; pat \<leftarrow> string_arg h 1 args;
          Some (h, if fst (exec pat data) \<ge> 0 then T_OBJ else F_OBJ) }"

primrec matched_loop :: "(nat \<Rightarrow> int \<times> int) \<Rightarrow> byte list \<Rightarrow> store \<Rightarrow> nat list \<Rightarrow> addr \<Rightarrow> (store \<times> addr) option" where
  "matched_loop ov data h [] list = Some (h, list)"
| "matched_loop ov data h (i # is) list =
     do { b \<leftarrow> (if fst (ov i) = -1 then Some [] else substring data (fst (ov i)) (snd (ov i)));
          let (h1, l) = push_string h b list;
          matched_loop ov data h1 is l }"

definition regex_matched :: "matcher \<Rightarrow> store \<Rightarrow> addr \<Rightarrow> (store \<times> addr) option" where
  "regex_matched exec h args =
     do { data \<leftarrow> string_arg h 0 args; pat \<leftarrow> string_arg h 1 args;
          let (rc, ov) = exec pat data;
          if rc < 0 then Some (h, NIL)
          else do { (h1, list) \<leftarrow> matched_loop ov data h [0..<nat rc] NIL; reverse_in_place h1 NIL list } }"

partial_function (option) match_all_loop :: "matcher \<Rightarrow> byte list \<Rightarrow> store \<Rightarrow> byte list \<Rightarrow> addr \<Rightarrow> (store \<times> addr) option" where
  "match_all_loop exec pat h data list =
     (let (rc, ov) = exec pat data in
      if rc < 1 then reverse_in_place h NIL list
      else do { b \<leftarrow> substring data (fst (ov 0)) (snd (ov 0));
                let (h1, l) = push_string h b list;
                match_all_loop exec pat h1 (drop (nat (snd (ov 0))) data) l })"

definition regex_match_all :: "matcher \<Rightarrow> store \<Rightarrow> addr \<Rightarrow> (store \<times> addr) option" where
  "regex_match_all exec h args =
     do { data \<leftarrow> string_arg h 0 args; pat \<leftarrow> string_arg h 1 args; match_all_loop exec pat h data NIL }"

partial_function (option) split_loop :: "matcher \<Rightarrow> byte list \<Rightarrow> store \<Rightarrow> byte list \<Rightarrow> addr \<Rightarrow> (store \<times> addr) option" where
  "split_loop exec pat h data list =
     (let (rc, ov) = exec pat data in
      if rc < 1 then
        (let (h1, l) = (if data \<noteq> [] then push_string h data list else (h, list)) in reverse_in_place h1 NIL l)
      else do { b \<leftarrow> substring data 0 (fst (ov 0));
                let (h1, l) = push_string h b list;
                _ \<leftarrow> substring data 0 (snd (ov 0));
                split_loop exec pat h1 (drop (nat (snd (ov 0))) data) l })"

definition regex_split :: "matcher \<Rightarrow> store \<Rightarrow> addr \<Rightarrow> (store \<times> addr) option" where
  "regex_split exec h args =
     do { data \<leftarrow> string_arg h 0 args; pat \<leftarrow> string_arg h 1 args; split_loop exec pat h data NIL }"

section \<open>Strings\<close>

text \<open>\<open>string-join\<close>: the strings of the list, the length of the buffer for the result, and the result, which must fit in it.\<close>

partial_function (option) joined_strings :: "store \<Rightarrow> addr \<Rightarrow> byte list list option" where
  "joined_strings h p =
     (if p = NIL then Some []
      else do { a \<leftarrow> pair_car h p; s \<leftarrow> string_value h a; d \<leftarrow> pair_cdr h p; ss \<leftarrow> joined_strings h d; Some (s # ss) })"

primrec strcat_joined :: "byte list \<Rightarrow> byte list \<Rightarrow> byte list list \<Rightarrow> byte list" where
  "strcat_joined joinstr result [] = result"
| "strcat_joined joinstr result (s # ss) = strcat_joined joinstr (result @ s @ (if ss \<noteq> [] then joinstr else [])) ss"

definition string_join :: "store \<Rightarrow> addr \<Rightarrow> (store \<times> addr) option" where
  "string_join h args =
     do { array \<leftarrow> pair_nth h 0 args;
          if array = NIL then Some (mk_string h [])
          else do { joinstr \<leftarrow> string_arg h 1 args; ss \<leftarrow> joined_strings h array;
                    let len = sum_list (map length ss) + (length ss - 1) * length joinstr;
                    let result = strcat_joined joinstr [] ss;
                    if length result \<le> len then Some (mk_string h result) else None } }"

text \<open>\<open>string-strip\<close> writes the end of the text into the string it is given.\<close>

definition cstrstrip :: "byte list \<Rightarrow> nat \<times> nat" where
  "cstrstrip s = (let k = length (takeWhile (\<lambda>c. c = 32) s); t = drop k s in (k, length t - length (takeWhile (\<lambda>c. c = 32) (rev t))))"

definition string_strip :: "store \<Rightarrow> addr \<Rightarrow> (store \<times> addr) option" where
  "string_strip h args =
     do { p \<leftarrow> pair_nth h 0 args;
          (case h_cell h p of
             String b _ \<Rightarrow>
               (let s = c_str h b; (k, n) = cstrstrip s; h1 = h\<lparr>h_buf := (h_buf h)(b := (h_buf h b)[k + n := 0])\<rparr>
                in Some (mk_string h1 (take n (drop k s))))
           | _ \<Rightarrow> None) }"

definition string_contains :: "store \<Rightarrow> addr \<Rightarrow> (store \<times> addr) option" where
  "string_contains h args =
     do { data \<leftarrow> string_arg h 0 args; find \<leftarrow> string_arg h 1 args;
          Some (h, if \<exists>i \<in> set [0..<Suc (length data)]. take (length find) (drop i data) = find then T_OBJ else F_OBJ) }"

definition string_hash_of :: "store \<Rightarrow> addr \<Rightarrow> (store \<times> addr) option" where
  "string_hash_of h args = do { s \<leftarrow> string_arg h 0 args; Some (mk_integer h (sint (str_hash s))) }"

text \<open>\<open>sexpr->string\<close>: the text of the list of arguments, without its parentheses.\<close>

definition extractCell :: "(addr \<Rightarrow> byte list) \<Rightarrow> store \<Rightarrow> addr \<Rightarrow> bool \<Rightarrow> bool \<Rightarrow> byte list option" where
  "extractCell ptr h args full quotes =
     do { s \<leftarrow> printSchemeCell ptr h full quotes args; Some (take (length s - 2) (drop 1 s)) }"

definition sexprToString :: "(addr \<Rightarrow> byte list) \<Rightarrow> store \<Rightarrow> addr \<Rightarrow> (store \<times> addr) option" where
  "sexprToString ptr h args = do { s \<leftarrow> extractCell ptr h args True True; Some (mk_string h (takeWhile (\<lambda>c. c \<noteq> 0) s)) }"

section \<open>Association lists\<close>

text \<open>
  \<open>assoc_strcmp\<close>: the first pair whose key has the name, or all of them. A key that is a symbol is compared with symbols, the others with strings.
\<close>

definition strvalue :: "store \<Rightarrow> addr \<Rightarrow> byte list option" where
  "strvalue h p = string_value h p"

partial_function (option) assoc_loop ::
  "bool \<Rightarrow> byte list \<Rightarrow> bool \<Rightarrow> addr \<Rightarrow> store \<Rightarrow> addr \<Rightarrow> addr \<Rightarrow> (store \<times> addr) option" where
  "assoc_loop by_symbol skey all errVal h x retlist =
     (if \<not> is_pair h x then Some (h, retlist)
      else
        do { pair \<leftarrow> car h x;
             if \<not> is_pair h pair then Some (h, errVal)
             else
               do { r1 \<leftarrow> car h pair;
                    if by_symbol \<and> \<not> is_symbol h r1 then Some (h, errVal)
                    else
                      do { lkey \<leftarrow> (if by_symbol then symname h r1 else strvalue h r1); d \<leftarrow> cdr h x;
                           if lkey = skey then
                             (if \<not> all then Some (h, pair)
                              else (let (h1, l) = cons h pair retlist in assoc_loop by_symbol skey all errVal h1 d l))
                           else assoc_loop by_symbol skey all errVal h d retlist } } })"

definition assoc_strcmp :: "bool \<Rightarrow> store \<Rightarrow> addr \<Rightarrow> addr \<Rightarrow> (store \<times> addr) option" where
  "assoc_strcmp all h key lst =
     (let errVal = (if \<not> all then F_OBJ else NIL) in
      if is_symbol h key then do { skey \<leftarrow> symname h key; assoc_loop True skey all errVal h lst errVal }
      else if is_string h key then do { skey \<leftarrow> strvalue h key; assoc_loop False skey all errVal h lst errVal }
      else Some (h, errVal))"

end
