(* ===== verification/Foreign_Claims.thy ===== *)
theory Foreign_Claims
  imports Foreign_Text
begin

text \<open>
  What the functions on text do: \<open>regex:split\<close> and \<open>string-join\<close> against each other, when splitting does not end, \<open>string-strip\<close>,
  \<open>sexpr->string\<close> and association lists.
\<close>

section \<open>Lists of strings\<close>

definition text_ok :: "store \<Rightarrow> bool" where
  "text_ok h \<longleftrightarrow> store_ok h \<and> buffers_ok h"

text \<open>\<open>extends h h'\<close>: nothing of \<open>h\<close> was changed, and its strings read as before.\<close>

definition extends :: "store \<Rightarrow> store \<Rightarrow> bool" where
  "extends h h' \<longleftrightarrow> keeps h h' \<and> text_ok h' \<and> (\<forall>p s. string_value h p = Some s \<longrightarrow> string_value h' p = Some s)"

definition strings_at :: "store \<Rightarrow> addr \<Rightarrow> (addr \<times> addr) list \<Rightarrow> byte list list \<Rightarrow> bool" where
  "strings_at h p xs ss \<longleftrightarrow> slist h p xs \<and> list_all2 (\<lambda>x s. string_value h x = Some s) (elems xs) ss"

lemma extends_refl: "text_ok h \<Longrightarrow> extends h h"
  by (simp add: extends_def)

lemma extends_trans: "extends h h1 \<Longrightarrow> extends h1 h2 \<Longrightarrow> extends h h2"
  by (auto simp: extends_def intro: keeps_trans)

lemma extends_strings:
  assumes "extends h h'" "text_ok h" "strings_at h p xs ss"
  shows "strings_at h' p xs ss"
proof -
  have "slist h' p xs" using assms segment_keeps unfolding strings_at_def extends_def text_ok_def by blast
  moreover have "list_all2 (\<lambda>x s. string_value h' x = Some s) (elems xs) ss"
    using assms(1,3) by (auto simp: strings_at_def extends_def intro: list_all2_mono)
  ultimately show ?thesis by (simp add: strings_at_def)
qed

lemma extends_alloc:
  assumes "text_ok h" "\<And>b n. c = String b n \<Longrightarrow> b < h_nbuf h"
  shows "extends h (fst (alloc c h))"
proof -
  have ok: "store_ok h" "buffers_ok h" using assms(1) by (auto simp: text_ok_def)
  have "h_cell h p \<noteq> Junk \<Longrightarrow> p \<noteq> h_next h" for p using ok(1) by (auto simp: store_ok_def)
  then have "string_value (fst (alloc c h)) p = Some s" if "string_value h p = Some s" for p s
    using that by (auto simp: string_value_def heap_simps c_str_def split: cell.splits)
  moreover have "store_ok (fst (alloc c h))" "buffers_ok (fst (alloc c h))"
    using ok assms(2) by (auto simp: store_ok_def buffers_ok_def heap_simps NIL_def T_OBJ_def F_OBJ_def EOF_OBJ_def less_Suc_eq)
  ultimately show ?thesis by (auto simp: extends_def text_ok_def keeps_def heap_simps)
qed

lemma extends_mk_string:
  assumes "text_ok h" "0 \<notin> set s"
  shows "extends h (fst (mk_string h s))" "string_value (fst (mk_string h s)) (snd (mk_string h s)) = Some s"
proof -
  let ?h = "fst (store_string h s)"
  have ok: "store_ok h" "buffers_ok h" using assms(1) by (auto simp: text_ok_def)
  have "string_value ?h p = Some t" if "string_value h p = Some t" for p t
    using that ok(2) by (auto simp: string_value_def store_string_def c_str_def buffers_ok_def split: cell.splits)
  moreover have "text_ok ?h" using ok by (auto simp: text_ok_def store_ok_def buffers_ok_def store_string_def intro: less_SucI)
  ultimately have e: "extends h ?h" by (simp add: extends_def keeps_def store_string_def)
  have m: "mk_string h s = alloc (String (h_nbuf h) (length s)) ?h" by (simp add: mk_string_def mk_counted_string_def store_string_def)
  have "extends ?h (fst (mk_string h s))" unfolding m
    by (rule extends_alloc) (use e in \<open>simp_all add: extends_def store_string_def\<close>)
  then show "extends h (fst (mk_string h s))" using e extends_trans by blast
  have "takeWhile (\<lambda>c. c \<noteq> 0) (s @ [0]) = s" using assms(2) by (subst takeWhile_append2) auto
  then show "string_value (fst (mk_string h s)) (snd (mk_string h s)) = Some s"
    unfolding m by (simp add: string_value_def heap_simps c_str_def store_string_def)
qed

lemma push_string_at:
  assumes "text_ok h" "0 \<notin> set s" "strings_at h list xs ss" "push_string h s list = (h', q)"
  shows "extends h h'" "\<exists>x. strings_at h' q (x # xs) (s # ss)" "h_next h \<le> q"
proof -
  obtain h1 x where m: "mk_string h s = (h1, x)" by force
  then have e: "extends h h1" "string_value h1 x = Some s" using extends_mk_string [OF assms(1,2)] by auto
  then have ok: "text_ok h1" by (simp add: extends_def)
  have e2: "extends h1 (fst (cons h1 x list))" unfolding cons_def by (rule extends_alloc [OF ok]) simp
  have "cons h1 x list = (h', q)" using assms(4) by (simp add: push_string_def m)
  then have q: "h' = fst (cons h1 x list)" "q = h_next h1" using cons_simps(1) [of h1 x list] by simp_all
  show "h_next h \<le> q" using e(1) q(2) by (simp add: extends_def keeps_def)
  show "extends h h'" using e(1) e2 q(1) extends_trans by blast
  have "strings_at h' list xs ss" using extends_strings [OF e2 ok extends_strings [OF e(1) assms(1,3)]] q(1) by simp
  moreover have "string_value h' x = Some s" using e2 e(2) q(1) by (auto simp: extends_def)
  ultimately show "\<exists>x. strings_at h' q (x # xs) (s # ss)"
    by (intro exI [of _ "(q, x)"]) (auto simp: strings_at_def q heap_simps)
qed

text \<open>The list is relinked at the end; what was in the store before it was begun stays as it was.\<close>

lemma reverse_strings:
  assumes "text_ok h0" "extends h0 h" "strings_at h p xs ss" "fresh h0 xs"
  shows "\<exists>h' r. reverse_in_place h NIL p = Some (h', r) \<and> strings_at h' r (rev xs) (rev ss) \<and> extends h0 h'"
proof -
  have ok: "store_ok h" "buffers_ok h" "slist h p xs" using assms(2,3) by (auto simp: extends_def text_ok_def strings_at_def)
  obtain h' r where r: "relink_loop h p NIL = Some (h', r)" "slist h' r (rev xs)" "store_ok h'" "h_next h' = h_next h"
    "\<forall>c. c \<notin> fst ` set xs \<longrightarrow> h_cell h' c = h_cell h c"
    using reverse_in_place_slist [OF ok(3,1)] unfolding reverse_in_place_def by blast
  obtain f where f: "h' = h\<lparr>h_cell := f\<rparr>" using relink_loop_cells [OF r(1)] by auto
  have pairs: "is_pair h c" if "c \<in> fst ` set xs" for c using segment_pair [OF ok(3)] that by force
  have pairs': "is_pair h' c" if "c \<in> fst ` set xs" for c using segment_pair [OF r(2)] that by force
  have sv: "string_value h' y = Some s" if "string_value h y = Some s" for y s
  proof -
    have "y \<notin> fst ` set xs" using that pairs by (force simp: string_value_def is_pair_def split: cell.splits)
    then show ?thesis using that r(5) f by (auto simp: string_value_def c_str_def split: cell.splits)
  qed
  have "buffers_ok h'" unfolding buffers_ok_def
  proof (intro allI impI)
    fix c b k assume s: "h_cell h' c = String b k"
    then have "c \<notin> fst ` set xs" using pairs' by (force simp: is_pair_def)
    then have "h_cell h c = String b k" using r(5) s by simp
    then have "b < h_nbuf h" using ok(2) unfolding buffers_ok_def by blast
    then show "b < h_nbuf h'" using f by simp
  qed
  moreover have "h_cell h' c = h_cell h0 c" if "c < h_next h0" for c
  proof -
    have "c \<notin> fst ` set xs" using assms(4) that by (auto simp: fresh_def)
    then show ?thesis using r(5) assms(2) that by (simp add: extends_def keeps_def)
  qed
  ultimately have "extends h0 h'" using assms(2) r(3,4) sv by (auto simp: extends_def text_ok_def keeps_def)
  moreover have "strings_at h' r (rev xs) (rev ss)"
    using r(2) assms(3) sv by (auto simp: strings_at_def rev_map [symmetric] intro: list_all2_mono)
  ultimately show ?thesis using r(1) by (auto simp: reverse_in_place_def)
qed

lemma joined_strings_at:
  assumes "strings_at h p xs ss" "store_ok h"
  shows "joined_strings h p = Some ss"
  using assms(1)
proof (induction xs arbitrary: p ss)
  case Nil
  then show ?case by (subst joined_strings.simps) (simp add: strings_at_def)
next
  case (Cons x xs)
  obtain c a where x: "x = (c, a)" by force
  from Cons.prems x obtain s ss' d where s: "ss = s # ss'" "string_value h a = Some s" "h_cell h c = Pair a d" "p = c" "strings_at h d xs ss'"
    by (auto simp: strings_at_def list_all2_Cons1)
  have "c \<noteq> NIL" using s(3) assms(2) store_okD(5) by auto
  then show ?case using s Cons.IH [OF s(5)] by (subst joined_strings.simps) (simp add: pair_car_def pair_cdr_def)
qed

section \<open>Joining\<close>

lemma strcat_between: "strcat_joined j r ss = r @ between j ss"
  by (induction ss arbitrary: r) simp_all

lemma between_length: "length (between j ss) = sum_list (map length ss) + (length ss - 1) * length j"
  by (induction ss) (auto simp: algebra_simps simp flip: Suc_diff_1 split: nat_diff_split)

lemma between_zero: "0 \<notin> set j \<Longrightarrow> \<forall>s \<in> set ss. 0 \<notin> set s \<Longrightarrow> (0 :: byte) \<notin> set (between j ss)"
  by (induction ss) auto

lemma string_value_zero: "string_value h p = Some s \<Longrightarrow> 0 \<notin> set s"
  by (auto simp: string_value_def c_str_def dest: set_takeWhileD split: cell.splits)

lemma strings_zero: "strings_at h p xs ss \<Longrightarrow> \<forall>s \<in> set ss. 0 \<notin> set s"
proof -
  have "list_all2 (\<lambda>x s. string_value h x = Some s) ys ss \<Longrightarrow> \<forall>s \<in> set ss. 0 \<notin> set s" for ys
    by (induction rule: list_all2_induct) (auto dest: string_value_zero)
  then show "strings_at h p xs ss \<Longrightarrow> \<forall>s \<in> set ss. 0 \<notin> set s" by (auto simp: strings_at_def)
qed

lemma join_strings:
  assumes "text_ok h" "pair_nth h 0 args = Some p" "string_arg h 1 args = Some j" "strings_at h p xs ss"
  shows "\<exists>h' q. string_join h args = Some (h', q) \<and> string_value h' q = Some (between j ss) \<and> extends h h'"
proof (cases "p = NIL")
  case True
  then have "ss = []" using assms(1,4) slist_NIL by (auto simp: strings_at_def text_ok_def)
  then show ?thesis using True assms(2) extends_mk_string [OF assms(1), of "[]"]
    by (cases "mk_string h []") (auto simp: string_join_def)
next
  case False
  have z: "0 \<notin> set (between j ss)"
    using between_zero strings_zero [OF assms(4)] assms(3) string_value_zero by (auto simp: string_arg_def Option.bind_eq_Some_conv)
  have "joined_strings h p = Some ss" using joined_strings_at [OF assms(4)] assms(1) by (simp add: text_ok_def)
  then have "string_join h args = Some (mk_string h (between j ss))"
    using False assms(2,3) by (simp add: string_join_def strcat_between between_length Let_def)
  then show ?thesis using extends_mk_string [OF assms(1) z] by (cases "mk_string h (between j ss)") auto
qed

section \<open>Splitting\<close>

text \<open>
  A pattern of ordinary characters matches where they first occur; the reference for splitting is then a function on texts.
\<close>

fun find_text :: "byte list \<Rightarrow> byte list \<Rightarrow> nat option" where
  "find_text sep [] = (if sep = [] then Some 0 else None)"
| "find_text sep (c # d) = (if take (length sep) (c # d) = sep then Some 0 else map_option Suc (find_text sep d))"

definition matches_literal :: "matcher \<Rightarrow> byte list \<Rightarrow> byte list \<Rightarrow> bool" where
  "matches_literal exec pat sep \<longleftrightarrow>
     (\<forall>d. case find_text sep d of None \<Rightarrow> fst (exec pat d) < 1
          | Some i \<Rightarrow> 1 \<le> fst (exec pat d) \<and> snd (exec pat d) 0 = (int i, int (i + length sep)))"

lemma literalD:
  assumes "matches_literal exec pat sep"
  shows "find_text sep d = None \<Longrightarrow> fst (exec pat d) < 1"
    "find_text sep d = Some i \<Longrightarrow> 1 \<le> fst (exec pat d) \<and> snd (exec pat d) 0 = (int i, int (i + length sep))"
  using assms [unfolded matches_literal_def, THEN spec, of d] by simp_all

lemma find_text_Some: "find_text sep d = Some i \<Longrightarrow> d = take i d @ sep @ drop (i + length sep) d"
proof (induction d arbitrary: i)
  case (Cons c d)
  show ?case
  proof (cases "take (length sep) (c # d) = sep")
    case True
    then have "i = 0" using Cons.prems by simp
    then show ?thesis using append_take_drop_id [of "length sep" "c # d"] True by simp
  next
    case False
    then obtain j where "find_text sep d = Some j" "i = Suc j" using Cons.prems by auto
    then show ?thesis using Cons.IH [of j] by simp
  qed
qed (simp split: if_splits)

lemma find_text_length: "find_text sep d = Some i \<Longrightarrow> i + length sep \<le> length d"
proof (induction d arbitrary: i)
  case (Cons c d)
  show ?case
  proof (cases "take (length sep) (c # d) = sep")
    case True
    then have "length sep \<le> length (c # d)" by (metis length_take min.cobounded1)
    then show ?thesis using True Cons.prems by simp
  next
    case False
    then obtain j where "find_text sep d = Some j" "i = Suc j" using Cons.prems by auto
    then show ?thesis using Cons.IH by simp
  qed
qed (simp split: if_splits)

function split_text :: "byte list \<Rightarrow> byte list \<Rightarrow> byte list list" where
  "split_text sep d =
     (if sep = [] then [] else
      case find_text sep d of None \<Rightarrow> (if d \<noteq> [] then [d] else [])
      | Some i \<Rightarrow> take i d # split_text sep (drop (i + length sep) d))"
  by pat_completeness auto

termination
proof (relation "measure (length \<circ> snd)")
  fix sep d :: "byte list" and i
  assume "sep \<noteq> []" "find_text sep d = Some i"
  then show "((sep, drop (i + length sep) d), sep, d) \<in> measure (length \<circ> snd)" using find_text_length [of sep d i] by (cases sep) auto
qed simp

declare split_text.simps [simp del]

lemma split_text_join:
  "sep \<noteq> [] \<Longrightarrow> d = between sep (split_text sep d) \<or> d = between sep (split_text sep d) @ sep"
proof (induction "length d" arbitrary: d rule: less_induct)
  case less
  show ?case
  proof (cases "find_text sep d")
    case None
    then show ?thesis using less.prems by (subst (1 2) split_text.simps) simp
  next
    case (Some i)
    let ?r = "drop (i + length sep) d"
    have d: "d = take i d @ sep @ ?r" by (rule find_text_Some [OF Some])
    have s: "split_text sep d = take i d # split_text sep ?r" using Some less.prems by (subst split_text.simps) simp
    have "length ?r < length d" using find_text_length [OF Some] less.prems by (cases sep) auto
    then have ih: "?r = between sep (split_text sep ?r) \<or> ?r = between sep (split_text sep ?r) @ sep"
      using less.hyps less.prems by blast
    show ?thesis
    proof (cases "split_text sep ?r")
      case Nil
      then have "?r = []" using less.prems by (subst (asm) split_text.simps) (auto split: option.splits if_splits)
      moreover have "split_text sep [] = []" using less.prems by (subst split_text.simps) simp
      ultimately show ?thesis using d by (simp add: s)
    next
      case (Cons t ts)
      then show ?thesis using ih d by (auto simp: s)
    qed
  qed
qed

lemma split_zero: "0 \<notin> set d \<Longrightarrow> find_text sep d = Some i \<Longrightarrow> 0 \<notin> set (take i d) \<and> 0 \<notin> set (drop (i + length sep) d)"
  by (auto dest: in_set_takeD in_set_dropD)

lemma split_loop_text:
  assumes "matches_literal exec pat sep" "sep \<noteq> []" "text_ok h0" "extends h0 h" "strings_at h list xs ss" "fresh h0 xs" "0 \<notin> set d"
  shows "\<exists>h' p zs. split_loop exec pat h d list = Some (h', p) \<and> strings_at h' p zs (rev ss @ split_text sep d) \<and> extends h0 h'"
  using assms(4-7)
proof (induction "length d" arbitrary: d h list xs ss rule: less_induct)
  case less
  have ok: "text_ok h" using less.prems(1) by (simp add: extends_def)
  have pushed: "h_next h \<le> q" if "push_string h s list = (h', q)" for s h' q
  proof -
    obtain h1 x where m: "mk_string h s = (h1, x)" by force
    have "h_next (fst (mk_string h s)) = Suc (h_next h)"
      by (simp add: mk_string_def mk_counted_string_def store_string_def heap_simps)
    then have "h_next h \<le> h_next h1" using m by simp
    moreover have "cons h1 x list = (h', q)" using that by (simp add: push_string_def m)
    ultimately show ?thesis using cons_simps(1) [of h1 x list] by simp
  qed
  have new: "fresh h0 (x # xs)" if "strings_at h' q (x # xs) ts" "extends h h'" "push_string h s list = (h', q)" for x h' q ts s
  proof -
    have "h_next h \<le> q" using that(3) pushed by blast
    moreover have "fst x = q" using that(1) by (cases x) (simp add: strings_at_def)
    ultimately show ?thesis using less.prems(1,3) by (cases x) (auto simp: extends_def keeps_def)
  qed
  show ?case
  proof (cases "find_text sep d")
    case None
    then have rc: "fst (exec pat d) < 1" by (rule literalD(1) [OF assms(1)])
    have s: "split_text sep d = (if d \<noteq> [] then [d] else [])" using None assms(2) by (subst split_text.simps) simp
    show ?thesis
    proof (cases "d = []")
      case True
      then show ?thesis using reverse_strings [OF assms(3) less.prems(1-3)] rc s
        by (subst split_loop.simps) (auto simp: case_prod_beta)
    next
      case False
      obtain h1 q where p: "push_string h d list = (h1, q)" by force
      obtain x where x: "extends h h1" "strings_at h1 q (x # xs) (d # ss)"
        using push_string_at [OF ok less.prems(4,2) p] by blast
      obtain h' r where "reverse_in_place h1 NIL q = Some (h', r)" "strings_at h' r (rev (x # xs)) (rev (d # ss))" "extends h0 h'"
        using reverse_strings [OF assms(3) extends_trans [OF less.prems(1) x(1)] x(2) new [OF x(2,1) p]] by blast
      then show ?thesis using False rc s p by (subst split_loop.simps) (auto simp: case_prod_beta)
    qed
  next
    case (Some i)
    then have rc: "1 \<le> fst (exec pat d)" "snd (exec pat d) 0 = (int i, int (i + length sep))"
      using literalD(2) [OF assms(1) Some] by simp_all
    have len: "i + length sep \<le> length d" by (rule find_text_length [OF Some])
    note z = split_zero [OF less.prems(4) Some]
    obtain h1 q where p: "push_string h (take i d) list = (h1, q)" by force
    obtain x where x: "extends h h1" "strings_at h1 q (x # xs) (take i d # ss)"
      using push_string_at [OF ok _ less.prems(2) p] z by blast
    have "length (drop (i + length sep) d) < length d" using len assms(2) by (cases sep) auto
    then obtain h' r zs where "split_loop exec pat h1 (drop (i + length sep) d) q = Some (h', r)"
      "strings_at h' r zs (rev (take i d # ss) @ split_text sep (drop (i + length sep) d))" "extends h0 h'"
      using less.hyps extends_trans [OF less.prems(1) x(1)] x(2) new [OF x(2,1) p] z by blast
    moreover have "split_loop exec pat h d list = split_loop exec pat h1 (drop (i + length sep) d) q"
      using rc len p by (subst split_loop.simps) (simp add: case_prod_beta substring_def nat_add_distrib)
    moreover have "split_text sep d = take i d # split_text sep (drop (i + length sep) d)"
      using Some assms(2) by (subst split_text.simps) simp
    ultimately show ?thesis by auto
  qed
qed

text \<open>C18: Splitting a string at a separator, a text of ordinary characters, ends with the list of the parts between its occurrences, and
  \<open>string-join\<close> with the separator puts the string together again, less a separator at its very end.
\<close>

theorem split_join:
  assumes "matches_literal exec pat sep" "sep \<noteq> []" "text_ok h" "string_arg h 0 args = Some s" "string_arg h 1 args = Some pat"
    "string_value h sepstr = Some sep"
  shows "\<exists>h1 p xs h4 q r. regex_split exec h args = Some (h1, p) \<and> strings_at h1 p xs (split_text sep s) \<and> extends h h1 \<and>
    (let (h2, c) = cons h1 sepstr NIL; (h3, args') = cons h2 p c in string_join h3 args' = Some (h4, q)) \<and>
    string_value h4 q = Some r \<and> (s = r \<or> s = r @ sep)"
proof -
  have z: "0 \<notin> set s" using assms(4) string_value_zero by (auto simp: string_arg_def Option.bind_eq_Some_conv)
  obtain h1 p xs where 1: "split_loop exec pat h s NIL = Some (h1, p)" "strings_at h1 p xs (split_text sep s)" "extends h h1"
    using split_loop_text [OF assms(1-3) extends_refl [OF assms(3)], of NIL "[]" "[]" s] z by (auto simp: strings_at_def)
  let ?h2 = "fst (cons h1 sepstr NIL)" let ?c = "h_next h1" let ?h3 = "fst (cons ?h2 p ?c)" let ?a = "h_next ?h2"
  have ok1: "text_ok h1" using 1(3) by (simp add: extends_def)
  have e2: "extends h1 ?h2" unfolding cons_def by (rule extends_alloc [OF ok1]) simp
  then have ok2: "text_ok ?h2" by (simp add: extends_def)
  have e3: "extends ?h2 ?h3" unfolding cons_def [of ?h2] by (rule extends_alloc [OF ok2]) simp
  then have ok3: "text_ok ?h3" by (simp add: extends_def)
  note e13 = extends_trans [OF e2 e3]
  have cells: "h_cell ?h3 ?a = Pair p ?c" "h_cell ?h3 ?c = Pair sepstr NIL" by (simp_all add: heap_simps)
  have j: "string_arg ?h3 1 ?a = Some sep"
    using cells extends_trans [OF 1(3) e13] assms(6) by (simp add: string_arg_def pair_car_def pair_cdr_def extends_def)
  have "pair_nth ?h3 0 ?a = Some p" using cells by (simp add: pair_car_def)
  then obtain h4 q where "string_join ?h3 ?a = Some (h4, q)" "string_value h4 q = Some (between sep (split_text sep s))"
    using join_strings [OF ok3 _ j extends_strings [OF e13 ok1 1(2)]] by blast
  moreover from this(1) have "let (h2, c) = cons h1 sepstr NIL; (h3, args') = cons h2 p c in string_join h3 args' = Some (h4, q)"
    by (simp only: Let_def case_cons)
  moreover have "regex_split exec h args = Some (h1, p)" using assms(4,5) 1(1) by (simp add: regex_split_def)
  ultimately show ?thesis using 1(2,3) split_text_join [OF assms(2), of s] by blast
qed

text \<open>A matcher for patterns of ordinary characters, and a store with a list of strings.\<close>

definition literal_matcher :: matcher where
  "literal_matcher pat d = (case find_text pat d of None \<Rightarrow> (-1, \<lambda>_. (-1, -1)) | Some i \<Rightarrow> (1, \<lambda>_. (int i, int (i + length pat))))"

lemma literal_matcher_matches: "matches_literal literal_matcher pat pat"
  by (simp add: matches_literal_def literal_matcher_def split: option.splits)

lemma sample_text_ok: "text_ok sample_store"
  using sample_store_ok by (auto simp: text_ok_def buffers_ok_def sample_store_def split: if_splits)

primrec string_list :: "store \<Rightarrow> byte list list \<Rightarrow> store \<times> addr" where
  "string_list h [] = (h, NIL)"
| "string_list h (s # ss) = (let (h1, l) = string_list h ss in push_string h1 s l)"

lemma string_list_at:
  "text_ok h \<Longrightarrow> \<forall>s \<in> set ss. 0 \<notin> set s \<Longrightarrow> \<exists>h' p xs. string_list h ss = (h', p) \<and> text_ok h' \<and> strings_at h' p xs ss"
proof (induction ss)
  case (Cons s ss)
  then obtain h1 l xs where 1: "string_list h ss = (h1, l)" "text_ok h1" "strings_at h1 l xs ss" by auto
  obtain h2 q where p: "push_string h1 s l = (h2, q)" by force
  then obtain x where "extends h1 h2" "strings_at h2 q (x # xs) (s # ss)"
    using push_string_at [OF 1(2) _ 1(3) p] Cons.prems(2) by auto
  then show ?case using 1 p unfolding extends_def by auto
qed (simp add: strings_at_def)

lemma string_args:
  assumes "strings_at h p xs ss" "i < length ss"
  shows "\<exists>x. pair_nth h i p = Some x \<and> string_value h x = Some (ss ! i)"
  using assms
proof (induction i arbitrary: p xs ss)
  case 0
  then show ?case by (cases ss; cases xs) (auto simp: strings_at_def pair_car_def)
next
  case (Suc i)
  obtain s ss' where ss: "ss = s # ss'" using Suc.prems(2) by (cases ss) auto
  obtain c v d xs' where c: "xs = (c, v) # xs'" "p = c" "h_cell h c = Pair v d" "strings_at h d xs' ss'"
    using Suc.prems(1) ss by (cases xs) (auto simp: strings_at_def)
  then show ?case using Suc.IH [OF c(4)] Suc.prems(2) ss by (simp add: pair_cdr_def)
qed

lemma two_strings:
  assumes "0 \<notin> set s" "0 \<notin> set t"
  obtains h args x where "text_ok h" "string_arg h 0 args = Some s" "string_arg h 1 args = Some t" "string_value h x = Some t"
proof -
  obtain h p xs where h: "text_ok h" "strings_at h p xs [s, t]" using string_list_at [OF sample_text_ok, of "[s, t]"] assms by auto
  show ?thesis using that [OF h(1), of p] string_args [OF h(2), of 0] string_args [OF h(2), of 1]
    by (auto simp: string_arg_def simp del: pair_nth.simps)
qed

theorem split_join_witness:
  "\<exists>h args h1 p xs. regex_split literal_matcher h args = Some (h1, p) \<and> strings_at h1 p xs [[97], [98, 99]]"
proof -
  have "0 \<notin> set [97 :: byte, 44, 98, 99]" "0 \<notin> set [44 :: byte]" by simp_all
  then obtain h args x where h: "text_ok h" "string_arg h 0 args = Some [97, 44, 98, 99]" "string_arg h 1 args = Some [44]"
    "string_value h x = Some [44]" by (rule two_strings)
  have "split_text [44] [97, 44, 98, 99] = [[97], [98, 99]]" by code_simp
  then show ?thesis using split_join [OF literal_matcher_matches _ h(1-3), of x] h(4) by fastforce
qed

text \<open>A match of no characters at the front of the text makes no progress.\<close>

text \<open>\<open>regex:split\<close> and \<open>regex:match-all\<close> never end when the pattern matches the empty text in front of what is left, as x* does in front of
  abc: they look at the same text again and again, and the list grows for ever.
\<close>

theorem empty_match_never_ends:
  assumes "exec pat d = (rc, ov)" "1 \<le> rc" "ov 0 = (0, 0)"
  shows "split_loop exec pat h d list = None \<and> match_all_loop exec pat h d list = None"
proof -
  have e: "fst (exec pat d) \<ge> 1" "snd (exec pat d) 0 = (0, 0)" using assms by auto
  have False if s: "split_loop exec pat h d list = Some y" for y
  proof -
    have "\<not> (exec = exec \<and> pat = pat \<and> d = d)"
    proof (rule split_loop.raw_induct [where P = "\<lambda>e p h d' l y. \<not> (e = exec \<and> p = pat \<and> d' = d)", OF _ s], rule notI)
      fix f e p h d' l y
      assume ih: "\<And>e p h d' l y. f e p h d' l = Some y \<Longrightarrow> \<not> (e = exec \<and> p = pat \<and> d' = d)"
        and eq: "(let (rc, ov) = e p d' in
          if rc < 1 then (let (h1, l) = (if d' \<noteq> [] then push_string h d' l else (h, l)) in reverse_in_place h1 NIL l)
          else do { b \<leftarrow> substring d' 0 (fst (ov 0)); let (h1, l) = push_string h b l; _ \<leftarrow> substring d' 0 (snd (ov 0));
                    f e p h1 (drop (nat (snd (ov 0))) d') l }) = Some y"
        and here: "e = exec \<and> p = pat \<and> d' = d"
      then have "\<exists>h1 l'. f exec pat h1 d l' = Some y"
        using assms by (auto simp: substring_def case_prod_beta split: prod.splits)
      then show False using ih here by blast
    qed
    then show False by simp
  qed
  moreover have False if s: "match_all_loop exec pat h d list = Some y" for y
  proof -
    have "\<not> (exec = exec \<and> pat = pat \<and> d = d)"
    proof (rule match_all_loop.raw_induct [where P = "\<lambda>e p h d' l y. \<not> (e = exec \<and> p = pat \<and> d' = d)", OF _ s], rule notI)
      fix f e p h d' l y
      assume ih: "\<And>e p h d' l y. f e p h d' l = Some y \<Longrightarrow> \<not> (e = exec \<and> p = pat \<and> d' = d)"
        and eq: "(let (rc, ov) = e p d' in
          if rc < 1 then reverse_in_place h NIL l
          else do { b \<leftarrow> substring d' (fst (ov 0)) (snd (ov 0)); let (h1, l) = push_string h b l;
                    f e p h1 (drop (nat (snd (ov 0))) d') l }) = Some y"
        and here: "e = exec \<and> p = pat \<and> d' = d"
      then have "\<exists>h1 l'. f exec pat h1 d l' = Some y"
        using assms by (auto simp: substring_def case_prod_beta split: prod.splits)
      then show False using ih here by blast
    qed
    then show False by simp
  qed
  ultimately show ?thesis by (metis option.exhaust)
qed

section \<open>Blanks\<close>

definition trim_left :: "byte list \<Rightarrow> byte list" where "trim_left = dropWhile (\<lambda>c. c = 32)"
definition trim_right :: "byte list \<Rightarrow> byte list" where "trim_right s = rev (trim_left (rev s))"

lemma strip_trims:
  assumes "cstrstrip s = (k, n)"
  shows "k + n \<le> length s" "drop k s = trim_left s" "take n (drop k s) = trim_right (trim_left s)"
    "take (k + n) s = (if trim_left s = [] then s else trim_right s)"
proof -
  let ?b = "\<lambda>c :: byte. c = 32"
  have k: "k = length (takeWhile ?b s)" "n = length (drop k s) - length (takeWhile ?b (rev (drop k s)))"
    using assms by (auto simp: cstrstrip_def Let_def)
  show d: "drop k s = trim_left s" by (simp add: k(1) trim_left_def dropWhile_eq_drop)
  have r: "trim_right u = take (length u - length (takeWhile ?b (rev u))) u" for u
    by (simp add: trim_right_def trim_left_def dropWhile_eq_drop rev_drop)
  show n: "take n (drop k s) = trim_right (trim_left s)" using k(2) r [of "trim_left s"] by (simp add: d)
  show "k + n \<le> length s" using k(1,2) length_takeWhile_le [of ?b s] by simp
  have s: "s = takeWhile ?b s @ trim_left s" by (simp add: trim_left_def)
  show "take (k + n) s = (if trim_left s = [] then s else trim_right s)"
  proof (cases "trim_left s = []")
    case True
    then have "k = length s" using s k(1) by (metis append_Nil2)
    then show ?thesis using True by simp
  next
    case False
    then have "hd (trim_left s) \<noteq> 32" "hd (trim_left s) \<in> set (trim_left s)"
      using hd_dropWhile [of ?b s] by (simp_all add: trim_left_def)
    then have "\<exists>c \<in> set (rev (trim_left s)). c \<noteq> 32" by auto
    then have "trim_left (rev (trim_left s) @ rev (takeWhile ?b s)) = trim_left (rev (trim_left s)) @ rev (takeWhile ?b s)"
      unfolding trim_left_def by (auto intro: dropWhile_append1)
    then have "trim_right s = takeWhile ?b s @ trim_right (trim_left s)"
      unfolding trim_right_def arg_cong [OF s, of rev, unfolded rev_append] by simp
    moreover have "take (k + n) s = takeWhile ?b s @ take n (drop k s)"
      unfolding take_add k(1) by (subst (3) takeWhile_eq_take) (rule refl)
    ultimately show ?thesis using False n by simp
  qed
qed

lemma takeWhile_shorter: "(0 :: byte) \<in> set xs \<Longrightarrow> length (takeWhile (\<lambda>c. c \<noteq> 0) xs) < length xs"
  by (induction xs) auto

lemma takeWhile_cut: "m \<le> length (takeWhile (\<lambda>c. c \<noteq> (0 :: byte)) xs) \<Longrightarrow> m < length xs \<Longrightarrow>
    takeWhile (\<lambda>c. c \<noteq> 0) (xs[m := 0]) = take m (takeWhile (\<lambda>c. c \<noteq> 0) xs)"
  by (induction xs arbitrary: m) (auto split: nat.splits if_splits)

text \<open>\<open>string-strip\<close> gives the text without the blanks at its two ends. But it also cuts the blanks at the end off the string it was given, unless
  that is all blanks.
\<close>

theorem strip_cuts_argument:
  assumes "text_ok h" "pair_nth h 0 args = Some p" "h_cell h p = String b m" "string_value h p = Some s" "0 \<in> set (h_buf h b)"
  shows "\<exists>h' q. string_strip h args = Some (h', q) \<and> string_value h' q = Some (trim_right (trim_left s)) \<and>
    string_value h' p = Some (if trim_left s = [] then s else trim_right s)"
proof -
  obtain k n where c: "cstrstrip s = (k, n)" by force
  note t = strip_trims [OF c]
  have s: "s = c_str h b" using assms(3,4) by (simp add: string_value_def)
  let ?h = "h\<lparr>h_buf := (h_buf h)(b := (h_buf h b)[k + n := 0])\<rparr>"
  have ok: "text_ok ?h" using assms(1) by (simp add: text_ok_def store_ok_def buffers_ok_def)
  have "length s < length (h_buf h b)"
    using takeWhile_shorter [OF assms(5)] s by (simp add: c_str_def)
  then have "k + n < length (h_buf h b)" using t(1) by simp
  then have p: "string_value ?h p = Some (take (k + n) s)"
    using assms(3) t(1) s by (simp add: string_value_def c_str_def takeWhile_cut)
  have "0 \<notin> set s" using assms(4) string_value_zero by blast
  then have "0 \<notin> set (take n (drop k s))" by (auto dest: in_set_takeD in_set_dropD)
  note m = extends_mk_string [OF ok this]
  have "string_strip h args = Some (mk_string ?h (take n (drop k s)))" using assms(2,3) s c by (simp add: string_strip_def)
  then show ?thesis using m p t(3,4) unfolding extends_def by (cases "mk_string ?h (take n (drop k s))") auto
qed

theorem strip_cuts_argument_witness:
  "\<exists>h args h' q p. string_strip h args = Some (h', q) \<and> string_value h' q = Some [97] \<and> string_value h p = Some [32, 97, 32] \<and>
    string_value h' p = Some [32, 97]"
proof -
  let ?h = "sample_store\<lparr>h_cell := (h_cell sample_store)(5 := Pair 6 NIL, 6 := String 0 3), h_buf := \<lambda>_. [32, 97, 32, 0], h_nbuf := 1\<rparr>"
  have "text_ok ?h" using sample_text_ok
    by (auto simp: text_ok_def store_ok_def buffers_ok_def sample_store_def NIL_def T_OBJ_def F_OBJ_def EOF_OBJ_def split: if_splits)
  moreover have "pair_nth ?h 0 5 = Some 6" by (simp add: pair_car_def)
  moreover have "h_cell ?h 6 = String 0 3" "string_value ?h 6 = Some [32, 97, 32]" "0 \<in> set (h_buf ?h 0)"
    by (simp_all add: string_value_def c_str_def)
  ultimately obtain h' q where "string_strip ?h 5 = Some (h', q)" "string_value h' q = Some (trim_right (trim_left [32, 97, 32]))"
    "string_value h' 6 = Some (if trim_left [32, 97, 32] = [] then [32, 97, 32] else trim_right [32, 97, 32])" "string_value ?h 6 = Some [32, 97, 32]"
    using strip_cuts_argument [of ?h 5 6 0 3 "[32, 97, 32]"] by blast
  then show ?thesis by (intro exI [of _ ?h] exI [of _ 5] exI [of _ h'] exI [of _ q] exI [of _ 6]) (simp add: trim_right_def trim_left_def)
qed

section \<open>Text of objects\<close>

text \<open>\<open>sexpr->string\<close> of one datum is its text.\<close>

theorem sexpr_string_text:
  assumes "showable ob h F args (D_Pair d D_Nil)" "oblist_ok h ob"
  shows "\<exists>h' q. sexprToString ptr h args = Some (h', q) \<and> string_value h' q = Some (takeWhile (\<lambda>c. c \<noteq> 0) (shown True True d)) \<and>
    extends h h'"
proof -
  have ok: "text_ok h" using assms(2) by (simp add: oblist_ok_def text_ok_def)
  have "printSchemeCell ptr h True True args = Some (40 # shown True True d @ [41])"
    using print_datum [OF assms, of ptr True True] by simp
  then have e: "extractCell ptr h args True True = Some (shown True True d)" by (simp add: extractCell_def)
  have "0 \<notin> set (takeWhile (\<lambda>c. c \<noteq> 0) (shown True True d))" by (auto dest: set_takeWhileD)
  note m = extends_mk_string [OF ok this]
  show ?thesis using e m by (cases "mk_string h (takeWhile (\<lambda>c. c \<noteq> 0) (shown True True d))") (auto simp: sexprToString_def)
qed

section \<open>Association lists\<close>

definition key_name :: "bool \<Rightarrow> store \<Rightarrow> addr \<Rightarrow> byte list option" where
  "key_name by_symbol h p =
     do { r \<leftarrow> (case h_cell h p of Pair a _ \<Rightarrow> Some a | _ \<Rightarrow> None); if by_symbol then symname h r else string_value h r }"

lemma assoc_loop_finds:
  assumes "slist h x xs" "\<forall>v \<in> set (elems xs). key_name by_symbol h v \<noteq> None" "\<not> is_pair h NIL"
  shows "assoc_loop by_symbol skey False err h x ret =
    Some (h, case find (\<lambda>v. key_name by_symbol h v = Some skey) (elems xs) of Some v \<Rightarrow> v | None \<Rightarrow> ret)"
  using assms(1,2)
proof (induction xs arbitrary: x)
  case Nil
  then show ?case using assms(3) by (subst assoc_loop.simps) simp
next
  case (Cons y xs)
  obtain c v where y: "y = (c, v)" by force
  then obtain d where d: "x = c" "h_cell h c = Pair v d" "slist h d xs" using Cons.prems(1) by auto
  obtain k where "key_name by_symbol h v = Some k" using Cons.prems(2) y by auto
  then obtain a e where a: "h_cell h v = Pair a e" "(if by_symbol then symname h a else string_value h a) = Some k"
    by (auto simp: key_name_def Option.bind_eq_Some_conv split: cell.splits)
  then have sym: "by_symbol \<Longrightarrow> is_symbol h a" by (auto simp: symname_def split: if_splits)
  have "key_name by_symbol h v = Some k" using a by (simp add: key_name_def)
  then show ?case using Cons d a sym y by (subst assoc_loop.simps) (auto simp: strvalue_def split: if_splits)
qed

text \<open>\<open>assoc-strcmp\<close> returns the first pair whose key has the name of the key that is looked for, and \<open>#f\<close> when there is none: keys that are
  symbols are found by symbols, keys that are strings by strings.
\<close>

theorem assoc_finds_first:
  assumes "slist h lst xs" "store_ok h" "\<forall>v \<in> set (elems xs). key_name (is_symbol h key) h v \<noteq> None"
    "(if is_symbol h key then symname h key else string_value h key) = Some name"
  shows "assoc_strcmp False h key lst =
    Some (h, case find (\<lambda>v. key_name (is_symbol h key) h v = Some name) (elems xs) of Some v \<Rightarrow> v | None \<Rightarrow> F_OBJ)"
proof -
  have n: "\<not> is_pair h NIL" by (rule store_okD(2) [OF assms(2)])
  show ?thesis using assoc_loop_finds [OF assms(1) _ n, of "is_symbol h key" name F_OBJ F_OBJ] assms(3,4)
    by (auto simp: assoc_strcmp_def strvalue_def is_string_def string_value_def split: if_splits cell.splits)
qed

end
