(* ===== verification/Regex_Replace.thy ===== *)
theory Regex_Replace
  imports Foreign_Claims
begin

text \<open>
  Replacing the match of a regular expression: \<open>regex:replace\<close> of the interpreter (src/src/ffi/regex.inc), and the functions of compiled code, \<open>rmatch\<close>,
  \<open>rmatches\<close>, \<open>rsplit\<close> and \<open>rreplace\<close> (src/src/UNIV.cpp), which work on texts in memory.
\<close>

section \<open>Numbers in a template\<close>

definition space :: "byte \<Rightarrow> bool" where
  "space c \<longleftrightarrow> c = 32 \<or> 9 \<le> c \<and> c \<le> 13"

text \<open>\<open>strtol\<close> to the base 10: the number, and what is behind it; without a digit that is the whole text.\<close>

definition strtol :: "byte list \<Rightarrow> int \<times> byte list" where
  "strtol s =
     (let (neg, t) = sign_of (dropWhile space s); ds = takeWhile digit t; n = dec_value ds
      in if ds = [] then (0, s) else (max (- (2 ^ 63)) (min (2 ^ 63 - 1) (if neg then - n else n)), dropWhile digit t))"

text \<open>\<open>strchr\<close> for a dollar: the text before it, and the text from it on.\<close>

definition to_dollar :: "byte list \<Rightarrow> byte list" where "to_dollar = takeWhile (\<lambda>c. c \<noteq> 36)"
definition from_dollar :: "byte list \<Rightarrow> byte list" where "from_dollar = dropWhile (\<lambda>c. c \<noteq> 36)"

lemma sign_of_length: "length (snd (sign_of s)) \<le> length s"
  by (auto simp: sign_of_def split: list.splits)

lemma strtol_length: "length (snd (strtol s)) \<le> length s"
proof -
  have "length (dropWhile digit (snd (sign_of (dropWhile space s)))) \<le> length s"
    using sign_of_length [of "dropWhile space s"] length_dropWhile_le [of digit "snd (sign_of (dropWhile space s))"]
      length_dropWhile_le [of space s] by linarith
  then show ?thesis by (simp add: strtol_def Let_def case_prod_beta)
qed

section \<open>The interpreter\<close>

text \<open>
  The text of a group. Number 0 gives nothing. \<open>ovector\<close> has 60 elements, of which PCRE fills two thirds
  with pairs and uses the rest as its workspace: from number 20 on there is no result.
\<close>

definition group_text :: "(nat \<Rightarrow> int \<times> int) \<Rightarrow> byte list \<Rightarrow> int \<Rightarrow> byte list option" where
  "group_text ov data pos =
     (if pos < 0 \<or> 20 \<le> pos then None
      else (let (a, b) = ov (nat pos); range = (if 0 < pos then b - a else 0) in
            if range = 0 then Some [] else substring data a b))"

function expand :: "(nat \<Rightarrow> int \<times> int) \<Rightarrow> byte list \<Rightarrow> byte list \<Rightarrow> byte list \<Rightarrow> byte list option" where
  "expand ov data p result =
     (let (n, replace) = strtol p; pos = int32 n in
      do { g \<leftarrow> group_text ov data pos;
           let result1 = result @ g @ to_dollar replace;
           (case from_dollar replace of [] \<Rightarrow> Some result1 | _ # rest \<Rightarrow> expand ov data rest result1) })"
  by pat_completeness auto

termination
proof (relation "measure (\<lambda>(ov, data, p, result). length p)")
  fix ov :: "nat \<Rightarrow> int \<times> int" and data p result :: "byte list" and x n replace pos g result1 c rest
  assume "x = strtol p" "(n, replace) = x" "from_dollar replace = c # rest"
  then have "length (c # rest) \<le> length replace" "length replace \<le> length p"
    using strtol_length [of p] length_dropWhile_le [of "\<lambda>c. c \<noteq> 36" replace] by (simp_all add: from_dollar_def) (metis snd_conv)
  then show "((ov, data, rest, result1), ov, data, p, result) \<in> measure (\<lambda>(ov, data, p, result). length p)" by simp
qed simp

declare expand.simps [simp del]

definition replaced :: "matcher \<Rightarrow> byte list \<Rightarrow> byte list \<Rightarrow> byte list \<Rightarrow> byte list option" where
  "replaced exec pat data replace =
     (let (rc, ov) = exec pat data; (a, b) = ov 0 in
      if rc < 1 then Some data
      else do { front \<leftarrow> substring data 0 a; tail \<leftarrow> substring data b (int (length data));
                if from_dollar replace = [] then Some (front @ replace @ tail)
                else do { r \<leftarrow> expand ov data (from_dollar replace) (front @ to_dollar replace); Some (r @ tail) } })"

definition regex_replace :: "matcher \<Rightarrow> store \<Rightarrow> addr \<Rightarrow> (store \<times> addr) option" where
  "regex_replace exec h args =
     do { data \<leftarrow> string_arg h 0 args; pat \<leftarrow> string_arg h 1 args; replace \<leftarrow> string_arg h 2 args;
          s \<leftarrow> replaced exec pat data replace; Some (mk_string h s) }"

section \<open>Compiled code\<close>

definition rmatch :: "matcher \<Rightarrow> byte list \<Rightarrow> byte list \<Rightarrow> bool" where
  "rmatch exec regex str \<longleftrightarrow> 0 \<le> fst (exec regex str)"

text \<open>\<open>rmatches\<close>: at most \<open>maxnum\<close> matches, each behind the one before.\<close>

function rmatches :: "matcher \<Rightarrow> byte list \<Rightarrow> byte list \<Rightarrow> int \<Rightarrow> int \<Rightarrow> byte list list option" where
  "rmatches exec regex data maxnum num =
     (let (rc, ov) = exec regex data; (a, b) = ov 0 in
      if rc < 1 \<or> maxnum \<le> num then Some []
      else do { s \<leftarrow> substring data a b; ss \<leftarrow> rmatches exec regex (drop (nat b) data) maxnum (num + 1); Some (s # ss) })"
  by pat_completeness auto

termination by (relation "measure (\<lambda>(exec, regex, data, maxnum, num). nat (maxnum - num))") auto

declare rmatches.simps [simp del]

text \<open>\<open>rsplit\<close>: the texts before and behind the match, when the pattern has no groups.\<close>

definition rsplit :: "matcher \<Rightarrow> byte list \<Rightarrow> byte list \<Rightarrow> (byte list \<times> byte list) option option" where
  "rsplit exec regex str =
     (let (rc, ov) = exec regex str; (a, b) = ov 0 in
      if rc \<noteq> 1 then Some None
      else do { x \<leftarrow> substring str 0 a; y \<leftarrow> substring str b (int (length str)); Some (Some (x, y)) })"

text \<open>
  \<open>strtok\<close> with a dollar: the parts between dollars that are not empty. \<open>res\<close> collects, for each, the group its number names and the rest; a part whose
  number names no group is taken as it is.
\<close>

function tokens :: "byte list \<Rightarrow> byte list list" where
  "tokens s = (let t = dropWhile (\<lambda>c. c = 36) s in if t = [] then [] else to_dollar t # tokens (from_dollar t))"
  by pat_completeness auto

termination
proof (relation "measure length")
  fix s t :: "byte list"
  assume t: "t = dropWhile (\<lambda>c. c = 36) s" "t \<noteq> []"
  then have "hd t \<noteq> 36" using hd_dropWhile [of "\<lambda>c. c = 36" s] by simp
  then have "length (from_dollar t) < length t"
    using t(2) length_dropWhile_le [of "\<lambda>c. c \<noteq> 36" "tl t"] by (cases t) (simp_all add: from_dollar_def le_imp_less_Suc)
  moreover have "length t \<le> length s" unfolding t(1) by (rule length_dropWhile_le)
  ultimately show "(from_dollar t, s) \<in> measure length" by simp
qed simp

declare tokens.simps [simp del]

definition token_text :: "int \<Rightarrow> (nat \<Rightarrow> int \<times> int) \<Rightarrow> byte list \<Rightarrow> byte list \<Rightarrow> byte list option" where
  "token_text rc ov data p =
     (let (n, cc) = strtol p; pos = int32 n in
      if pos < 0 \<or> 30 \<le> pos then None
      else (let (a, b) = ov (nat pos); range = (if 0 < pos \<and> pos < 20 then b - a else 0) in
            if rc \<le> pos \<or> range < 0 \<or> int (length data) < range then Some p
            else if range = 0 then Some cc
            else do { g \<leftarrow> substring data a b; Some (g @ cc) }))"

text \<open>\<open>rreplace\<close>: the result must be shorter than 4096 bytes, otherwise the text is returned as it was.\<close>

definition rreplace :: "matcher \<Rightarrow> byte list \<Rightarrow> byte list \<Rightarrow> byte list \<Rightarrow> byte list option" where
  "rreplace exec regex str replacement =
     (let (rc, ov) = exec regex str; (a, b) = ov 0 in
      if rc < 1 \<or> tokens replacement = [] then Some str
      else do { parts \<leftarrow> map_options (token_text rc ov str) (tokens replacement);
                let res = concat parts;
                front \<leftarrow> substring str 0 a; tail \<leftarrow> substring str b (int (length str));
                if 4096 < int (length front + length res + length tail + 1) then Some str
                else Some (front @ res @ tail) })"

section \<open>Templates\<close>

text \<open>
  A template as it is meant: a text, and then for each dollar a number and the text behind it, up to the next.
\<close>

definition template :: "byte list \<Rightarrow> (byte list \<times> byte list) list \<Rightarrow> byte list" where
  "template t0 gs = t0 @ concat (map (\<lambda>(ds, t). 36 # ds @ t) gs)"

definition template_ok :: "byte list \<Rightarrow> (byte list \<times> byte list) list \<Rightarrow> bool" where
  "template_ok t0 gs \<longleftrightarrow> 36 \<notin> set t0 \<and>
     (\<forall>(ds, t) \<in> set gs. ds \<noteq> [] \<and> (\<forall>c \<in> set ds. digit c) \<and> 36 \<notin> set t \<and> (t = [] \<or> \<not> digit (hd t)) \<and> dec_value ds < 20)"

definition expansions :: "(nat \<Rightarrow> int \<times> int) \<Rightarrow> byte list \<Rightarrow> (byte list \<times> byte list) list \<Rightarrow> byte list list option" where
  "expansions ov data gs = map_options (\<lambda>(ds, t). do { g \<leftarrow> group_text ov data (dec_value ds); Some (g @ t) }) gs"

lemma digit_facts: "digit c \<Longrightarrow> \<not> space c \<and> c \<noteq> 45 \<and> c \<noteq> 43 \<and> c \<noteq> 36"
  by (auto simp: digit_def space_def word_le_def)

lemma dec_value_nonneg: "(\<forall>c \<in> set ds. digit c) \<Longrightarrow> 0 \<le> dec_value ds"
proof -
  have "0 \<le> n \<Longrightarrow> (\<forall>c \<in> set ds. digit c) \<Longrightarrow> 0 \<le> foldl (\<lambda>n c. 10 * n + (uint c - 48)) n ds" for n
  proof (induction ds arbitrary: n)
    case (Cons c ds)
    have "48 \<le> uint c" using Cons.prems(2) by (auto simp: digit_def word_le_def)
    then show ?case using Cons by simp
  qed simp
  then show "(\<forall>c \<in> set ds. digit c) \<Longrightarrow> 0 \<le> dec_value ds" by (simp add: dec_value_def)
qed

lemma takeWhile_hd: "r = [] \<or> \<not> P (hd r) \<Longrightarrow> \<forall>c \<in> set ds. P c \<Longrightarrow> takeWhile P (ds @ r) = ds \<and> dropWhile P (ds @ r) = r"
  by (induction ds) (cases r; auto)+

lemma strtol_digits:
  assumes "ds \<noteq> []" "\<forall>c \<in> set ds. digit c" "r = [] \<or> \<not> digit (hd r)" "dec_value ds < 20"
  shows "strtol (ds @ r) = (dec_value ds, r)"
proof -
  obtain c cs where ds: "ds = c # cs" using assms(1) by (cases ds) auto
  have c: "\<not> space c" "c \<noteq> 45" "c \<noteq> 43" using digit_facts [of c] assms(2) ds by auto
  have "sign_of (dropWhile space (ds @ r)) = (False, ds @ r)" using c ds by (simp add: sign_of_def)
  then show ?thesis using takeWhile_hd [OF assms(3,2)] assms(1,4) dec_value_nonneg [OF assms(2)] by (simp add: strtol_def Let_def)
qed

lemma to_from_dollar:
  "36 \<notin> set t \<Longrightarrow> to_dollar (t @ r) = t @ to_dollar r" "36 \<notin> set t \<Longrightarrow> from_dollar (t @ r) = from_dollar r"
  "to_dollar (36 # r) = []" "from_dollar (36 # r) = 36 # r" "to_dollar [] = []" "from_dollar [] = []"
proof -
  show "to_dollar (t @ r) = t @ to_dollar r" if "36 \<notin> set t" using that by (induction t) (auto simp: to_dollar_def)
  show "from_dollar (t @ r) = from_dollar r" if "36 \<notin> set t" using that by (induction t) (auto simp: from_dollar_def)
qed (simp_all add: to_dollar_def from_dollar_def)

lemma small_int32: "0 \<le> n \<Longrightarrow> n < 20 \<Longrightarrow> int32 n = n"
  by (simp add: int32_def)

lemma expand_groups:
  assumes "template_ok [] gs" "expansions ov data gs = Some parts" "gs = (ds, t) # gs'"
  shows "expand ov data (ds @ t @ template [] gs') result = Some (result @ concat parts)"
  using assms
proof (induction gs' arbitrary: gs ds t parts result)
  case Nil
  have ok: "ds \<noteq> []" "\<forall>c \<in> set ds. digit c" "36 \<notin> set t" "t = [] \<or> \<not> digit (hd t)" "dec_value ds < 20"
    using Nil.prems(1,3) by (auto simp: template_ok_def)
  obtain g where g: "group_text ov data (dec_value ds) = Some g" "parts = [g @ t]"
    using Nil.prems(2,3) by (auto simp: expansions_def Option.bind_eq_Some_conv)
  show ?case using ok g strtol_digits [OF ok(1,2,4,5)] small_int32 [OF dec_value_nonneg [OF ok(2)] ok(5)]
      to_from_dollar(1,2) [OF ok(3), of "[]"]
    by (subst expand.simps) (simp add: template_def to_from_dollar Let_def)
next
  case (Cons e gs')
  obtain ds1 t1 where e: "e = (ds1, t1)" by force
  have ok: "ds \<noteq> []" "\<forall>c \<in> set ds. digit c" "36 \<notin> set t" "t = [] \<or> \<not> digit (hd t)" "dec_value ds < 20" "template_ok [] (e # gs')"
    using Cons.prems(1,3) by (auto simp: template_ok_def)
  obtain g parts' where g: "group_text ov data (dec_value ds) = Some g" "parts = (g @ t) # parts'" "expansions ov data (e # gs') = Some parts'"
    using Cons.prems(2,3) by (auto simp: expansions_def Option.bind_eq_Some_conv)
  have tt: "template [] (e # gs') = 36 # ds1 @ t1 @ template [] gs'" by (simp add: template_def e)
  have hd: "t @ template [] (e # gs') = [] \<or> \<not> digit (hd (t @ template [] (e # gs')))"
    using ok(4) by (cases t) (auto simp: tt digit_def)
  have "expand ov data (ds1 @ t1 @ template [] gs') (result @ g @ t) = Some ((result @ g @ t) @ concat parts')"
    by (rule Cons.IH [OF ok(6) g(3)]) (simp add: e)
  then show ?case
    using g ok strtol_digits [OF ok(1,2) hd ok(5)] small_int32 [OF dec_value_nonneg [OF ok(2)] ok(5)]
    by (subst expand.simps) (simp add: to_from_dollar tt Let_def)
qed

lemma group_zero: "0 \<notin> set s \<Longrightarrow> group_text ov s n = Some g \<Longrightarrow> 0 \<notin> set g"
  by (auto simp: group_text_def substring_def Let_def split: prod.splits if_splits dest: in_set_takeD in_set_dropD)

lemma expansions_zero:
  "0 \<notin> set s \<Longrightarrow> 0 \<notin> set (template [] gs) \<Longrightarrow> expansions ov s gs = Some parts \<Longrightarrow> 0 \<notin> set (concat parts)"
proof (induction gs arbitrary: parts)
  case (Cons e gs)
  obtain ds t where e: "e = (ds, t)" by force
  obtain g parts' where "group_text ov s (dec_value ds) = Some g" "parts = (g @ t) # parts'" "expansions ov s gs = Some parts'"
    using Cons.prems(3) by (auto simp: expansions_def e Option.bind_eq_Some_conv)
  then show ?case using Cons group_zero [OF Cons.prems(1)] by (auto simp: e template_def)
qed (simp add: expansions_def)

text \<open>C19: When the pattern matches, \<open>regex:replace\<close> puts the expanded template in the place of the
  first match and leaves the text before and behind the match as it is. It is stated for templates
  with digits behind every dollar and numbers below 20, the pairs PCRE fills: a dollar with number n
  becomes what the offsets of group n delimit, \<open>$0\<close> and groups that took no part become the empty text,
  and the rest of the template is copied; the offsets are assumed to lie in the text.\<close>

theorem replace_expands:
  assumes "text_ok h" "string_arg h 0 args = Some s" "string_arg h 1 args = Some pat" "string_arg h 2 args = Some (template t0 gs)"
    "template_ok t0 gs" "exec pat s = (rc, ov)" "1 \<le> rc" "ov 0 = (int a, int b)" "a \<le> length s" "b \<le> length s"
    "expansions ov s gs = Some parts"
  shows "\<exists>h' q. regex_replace exec h args = Some (h', q) \<and> extends h h' \<and> string_value h' q = Some (take a s @ t0 @ concat parts @ drop b s)"
proof -
  have sub: "substring s 0 (int a) = Some (take a s)" "substring s (int b) (int (length s)) = Some (drop b s)"
    using assms(9,10) by (simp_all add: substring_def)
  have t0: "36 \<notin> set t0" and ok: "template_ok [] gs" using assms(5) by (auto simp: template_ok_def)
  have tmp: "template t0 gs = t0 @ template [] gs" by (simp add: template_def)
  have r: "replaced exec pat s (template t0 gs) = Some (take a s @ t0 @ concat parts @ drop b s)"
  proof (cases gs)
    case Nil
    then have "parts = []" using assms(11) by (simp add: expansions_def)
    then show ?thesis using assms(6-8) sub t0 Nil to_from_dollar(2) [OF t0, of "[]"]
      by (simp add: replaced_def template_def to_from_dollar)
  next
    case (Cons e gs')
    obtain ds t where e: "e = (ds, t)" by force
    have g: "template [] gs = 36 # ds @ t @ template [] gs'" by (simp add: template_def Cons e)
    have "strtol (36 # ds @ t @ template [] gs') = (0, 36 # ds @ t @ template [] gs')"
      by (simp add: strtol_def sign_of_def space_def digit_def)
    then have "expand ov s (36 # ds @ t @ template [] gs') (take a s @ t0) = expand ov s (ds @ t @ template [] gs') (take a s @ t0)"
      using assms(8) by (subst expand.simps) (simp add: int32_def group_text_def to_from_dollar)
    also have "\<dots> = Some ((take a s @ t0) @ concat parts)"
      by (rule expand_groups [OF ok assms(11)]) (simp add: Cons e)
    finally show ?thesis using assms(6-8) sub t0 by (simp add: replaced_def tmp g to_from_dollar)
  qed
  have z: "0 \<notin> set s" "0 \<notin> set (template t0 gs)" using assms(2,4) string_value_zero by (auto simp: string_arg_def Option.bind_eq_Some_conv)
  then have "0 \<notin> set t0" "0 \<notin> set (template [] gs)" by (auto simp: tmp)
  then have "0 \<notin> set (take a s @ t0 @ concat parts @ drop b s)"
    using z expansions_zero [OF z(1) _ assms(11)] by (auto dest: in_set_takeD in_set_dropD)
  note m = extends_mk_string [OF assms(1) this]
  show ?thesis using r m assms(2-4)
    by (cases "mk_string h (take a s @ t0 @ concat parts @ drop b s)") (auto simp: regex_replace_def)
qed

theorem replace_expands_witness:
  "\<exists>h args h' q. regex_replace (\<lambda>pat s. (2, (\<lambda>_. (1, 2))(0 := (0, 3)))) h args = Some (h', q) \<and>
    string_value h' q = Some [60, 98, 62, 100]"
proof -
  let ?ss = "[[97, 98, 99, 100], [46], template [60] [([49], [62])]] :: byte list list"
  let ?ov = "(\<lambda>_. (1, 2))(0 := (0, 3)) :: nat \<Rightarrow> int \<times> int"
  obtain h p xs where h: "text_ok h" "strings_at h p xs ?ss"
    using string_list_at [OF sample_text_ok, of ?ss] by (auto simp: template_def)
  have args: "string_arg h 0 p = Some [97, 98, 99, 100]" "string_arg h 1 p = Some [46]" "string_arg h 2 p = Some (template [60] [([49], [62])])"
    using string_args [OF h(2), of 0] string_args [OF h(2), of 1] string_args [OF h(2), of 2]
    by (auto simp: string_arg_def simp del: pair_nth.simps)
  have ok: "template_ok [60] [([49], [62])]" by (simp add: template_ok_def digit_def dec_value_def)
  have ex: "expansions ?ov [97, 98, 99, 100] [([49], [62])] = Some [[98, 62]]"
    by (simp add: expansions_def group_text_def substring_def dec_value_def)
  show ?thesis
    using replace_expands [OF h(1) args ok, of "\<lambda>pat s. (2, ?ov)" 2 ?ov 0 3 "[[98, 62]]"] ex by fastforce
qed

section \<open>The functions of compiled code\<close>

theorem rsplit_parts:
  assumes "exec regex str = (1, ov)" "ov 0 = (int a, int b)" "a \<le> b" "b \<le> length str"
  shows "\<exists>x m y. rsplit exec regex str = Some (Some (x, y)) \<and> str = x @ m @ y \<and> length x = a \<and> length m = b - a"
proof -
  have "rsplit exec regex str = Some (Some (take a str, drop b str))" using assms by (simp add: rsplit_def substring_def)
  moreover have "str = take a str @ take (b - a) (drop a str) @ drop b str"
    using assms(3) by (metis add.commute append_take_drop_id drop_drop le_add_diff_inverse2)
  ultimately show ?thesis using assms(3,4) by (intro exI [of _ "take a str"] exI [of _ "take (b - a) (drop a str)"] exI [of _ "drop b str"]) auto
qed

theorem rmatches_bounded: "rmatches exec regex data maxnum num = Some ss \<Longrightarrow> int (length ss) \<le> max 0 (maxnum - num)"
proof (induction "nat (maxnum - num)" arbitrary: data num ss rule: less_induct)
  case less
  obtain rc ov where e: "exec regex data = (rc, ov)" by force
  obtain a b where o: "ov 0 = (a, b)" by force
  show ?case
  proof (cases "rc < 1 \<or> maxnum \<le> num")
    case True
    then show ?thesis using less.prems e o by (subst (asm) rmatches.simps) auto
  next
    case False
    then obtain s ts where s: "ss = s # ts" "rmatches exec regex (drop (nat b) data) maxnum (num + 1) = Some ts"
      using less.prems e o by (subst (asm) rmatches.simps) (auto simp: Option.bind_eq_Some_conv)
    have "int (length ts) \<le> max 0 (maxnum - (num + 1))" by (rule less.hyps [OF _ s(2)]) (use False in simp)
    then show ?thesis using False s(1) by simp
  qed
qed

text \<open>\<open>rreplace\<close> takes a number at the front of the replacement for a group, although no dollar is there; \<open>regex:replace\<close> does not.\<close>

theorem rreplace_needs_no_dollar:
  assumes "exec pat s = (rc, ov)" "dec_value ds < rc" "rc \<le> 20" "0 < dec_value ds" "ov (nat (dec_value ds)) = (int c, int d)" "c < d" "d \<le> length s"
    "ov 0 = (int a, int b)" "a \<le> length s" "b \<le> length s" "template_ok [] [(ds, t)]" "a + d + length t + length s < 4096"
  shows "rreplace exec pat s (ds @ t) = Some (take a s @ (take (d - c) (drop c s) @ t) @ drop b s)"
proof -
  have ok: "ds \<noteq> []" "\<forall>c \<in> set ds. digit c" "36 \<notin> set t" "t = [] \<or> \<not> digit (hd t)" "dec_value ds < 20"
    using assms(11) by (auto simp: template_ok_def)
  have n: "36 \<notin> set (ds @ t)" using ok(2,3) digit_facts by auto
  have "hd (ds @ t) \<noteq> 36" using n ok(1) by (metis append_is_Nil_conv hd_in_set)
  then have dd: "dropWhile (\<lambda>c. c = 36) (ds @ t) = ds @ t" using ok(1) by (cases ds) auto
  have "to_dollar (ds @ t) = ds @ t" "from_dollar (ds @ t) = []" using to_from_dollar(1,2) [OF n, of "[]"] by (simp_all add: to_from_dollar)
  then have tk: "tokens (ds @ t) = [ds @ t]" using dd ok(1) by (subst tokens.simps) (simp add: tokens.simps [of "[]"])
  have "token_text rc ov s (ds @ t) = Some (take (d - c) (drop c s) @ t)"
    using assms(2-7) ok strtol_digits [OF ok(1,2,4,5)] small_int32 [OF dec_value_nonneg [OF ok(2)] ok(5)]
    by (simp add: token_text_def substring_def Let_def nat_diff_distrib)
  moreover have "\<not> 4096 < int (length (take a s) + length (concat [take (d - c) (drop c s) @ t]) + length (drop b s) + 1)"
    using assms(6,7,9,10,12) by auto
  ultimately show ?thesis using assms(1,4,2,8-10) tk by (simp add: rreplace_def substring_def)
qed

end
