(* ===== verification/Spec2Isabelle.thy ===== *)
theory Spec2Isabelle
  imports Treadmill_Claims Numbers_Claims Handshake Zones Scheduler Closure_Table Base64 Osc_Roundtrip Slip
    Scheme_Faults Scheme_Roundtrip Repl_Process Audio_Threads Regex_Replace
begin

text \<open>
  Extempore: verification of its runtime.

  Extempore is an environment for live coding. Its runtime is C++: a Scheme interpreter with a
  concurrent garbage collector evaluates what the user sends, a scheduler thread runs tasks at
  sample-accurate times, compiled closures allocate from memory zones and are described by address
  tables, and Open Sound Control messages come in and go out over UDP and TCP. This development models these
  parts as the code has them and proves what makes each of them correct. A pointer is a natural
  number, an \<open>int64_t\<close> an integer with the wrap-around written out (\<open>wrap64\<close>) or a machine word,
  undefined behaviour has no result (\<open>None\<close>, or an error value).

  \<^bold>\<open>Shared vocabulary.\<close> \<open>Ext_Prelude\<close>: addresses, C's integer division, bytes, decimal text, doubly
  linked chains and rings, and the locale \<open>keyed_table\<close>, the contract of a table in which an insertion
  shadows what was there; \<open>Closure_Table\<close> interprets it.

  \<^bold>\<open>The collector\<close> (src/src/Scheme.cpp). \<open>Treadmill\<close>: the cell list of Baker's treadmill, \<open>alloc_cellseg\<close>,
  \<open>insert_treadmill\<close>, \<open>get_cell\<close>, \<open>treadmill_mark_roots\<close>, \<open>treadmill_flip\<close> and the scanner's loop.
  \<open>Treadmill_Safety\<close>: the four regions of the ring and the tricolour invariant, kept by every
  operation. \<open>Treadmill_Run\<close>, \<open>Treadmill_System\<close>: the interpreter's operations and the scanner's steps in
  any order, as a transition system: \<open>gc_move\<close> is what the code does, \<open>gc_care\<close> what it relies on without
  checking (room in the ecru region, dark roots at a flip, dark contents of a new continuation, segments
  of more than one cell). \<open>Treadmill_Claims\<close>: as long as \<open>gc_care\<close> holds, a cell handed out is never one the
  interpreter can reach (\<open>reach\<close>, over \<open>points_to\<close>, which does not depend on the scanner) and unreachable cells
  come back; and the run in which a root that is not dark at a flip is lost. \<open>Handshake\<close>: the flags, the mutex with
  its owner and the monitor with which interpreter and scanner pass the treadmill to each other:
  exclusion, when no wake-up is spurious, progress, and what a spurious wake-up does.

  \<^bold>\<open>The interpreter\<close> (src/src/Scheme.cpp, src/include/Scheme.h, SchemePrivate.h, OPDefines.h).
  \<open>Scheme_Store\<close>: typed cells, opcodes, allocation, the list routines. \<open>Scheme_Lists\<close>: what these do to
  lists in the store. \<open>Scheme_Env\<close>: the symbol table and environments. \<open>Scheme_Dispatch\<close>: the
  dispatch table with the types of the arguments. \<open>Scheme_Ports\<close>, \<open>Scheme_Reader\<close>, \<open>Scheme_Printer\<close>:
  ports, tokens, atoms and their text (\<open>Decimals\<close>: the C library's decimal conversions).
  \<open>Scheme_Machine\<close>: registers, dump stack, continuations, the error hooks. \<open>Scheme_Eval\<close>,
  \<open>Scheme_Forms\<close>, \<open>Scheme_Prims\<close>, \<open>Scheme_IO\<close>, \<open>Scheme_Cycle\<close>: one definition per opcode, the check of the
  arguments, and \<open>Eval_Cycle\<close> (\<open>step\<close>; \<open>eval_timed\<close>, whose checks of the time are an argument, and
  \<open>eval_cycle\<close>, the same while the limit is not reached, which \<open>Scheme_Load\<close> and what follows use). The mutable state is one store, passed explicitly; a
  cell once allocated keeps its address, reuse being the collector's matter. On top of it:
  \<open>Scheme_Semantics\<close>, a natural semantics of the language; \<open>Scheme_Refinement\<close> and \<open>Scheme_Correct\<close>, that the
  cycle with its dump stack implements it; \<open>Scheme_Tail\<close>, that tail calls leave the stack as it
  was; \<open>Scheme_Bindings\<close> and \<open>Scheme_Symbols\<close>, invariants and lookups of environments and of the symbol
  table; \<open>Scheme_Checks\<close>, that checked operations return; \<open>Scheme_Example\<close>, runs of a small
  program; \<open>Scheme_Faults\<close>, where the code does not do what it is meant to.

  \<^bold>\<open>Reading and printing.\<close> \<open>Scheme_Input\<close>, \<open>Scheme_Text\<close>, \<open>Scheme_Atoms\<close>: what tokens, atoms, strings and
  characters take from the text left in a string port. \<open>Scheme_Growth\<close>: how the store and the symbol table grow
  while an object is built. \<open>Scheme_Data\<close>: objects as values (\<open>datum\<close>), their text, their cells.
  \<open>Scheme_Reading\<close> and \<open>Scheme_Writing\<close>: \<open>OP_RDSEXPR\<close> and \<open>OP_P0LIST\<close> by induction on the object, with the frames
  they leave on the dump stack. \<open>Scheme_Roundtrip\<close>: \<open>write\<close> prints the text of an object, the reader makes the
  same object of it, and two inputs the reader does not handle. \<open>Scheme_Show\<close>: \<open>printSchemeCell\<close> (src/src/UNIV.cpp), the text
  of any object in messages and answers; \<open>Scheme_Shown\<close>: on data it ends and gives a reference text.

  \<^bold>\<open>Process and REPL\<close> (src/src/SchemeProcess.cpp, SchemeREPL.cpp). \<open>Scheme_Load\<close>: the entries into the interpreter
  (\<open>scheme_load_string\<close>, \<open>scheme_load_file\<close>, \<open>scheme_call\<close>, ...), the codes they return and the exceptions they catch.
  \<open>Scheme_Script\<close>: triples for expressions and that loading a text runs its expressions one after the other.
  \<open>Repl_Server\<close>: the client writing a text, the queue of tasks, and the server thread as turns whose system calls
  (\<open>select\<close>, \<open>accept\<close>, \<open>recv\<close>) are arguments; that lines are queued in order for every cut of the
  stream that leaves CR LF together, and that a text whose CR LF its own client cuts is held back. \<open>Scheme_Process\<close>: the
  task thread, one definition per type of task, the prompt, and the objects that hold callbacks. \<open>Process_Claims\<close>: the roots of
  waiting, queued and running callbacks as an invariant of the process, whose queue changes while a task runs, and the size of the prompt. \<open>Repl_Process\<close>
  composes them: from the text an editor sends to the answer it gets.

  \<^bold>\<open>Functions on text\<close> (src/src/ffi/regex.inc, misc.inc, src/src/UNIV.cpp). \<open>Foreign_Text\<close>: what C++ gives to the interpreter for regular
  expressions, strings and association lists, over the store; \<open>Foreign_Claims\<close>: splitting and joining are inverse to each other, and where they do not end or
  change their argument. \<open>Regex_Replace\<close>: replacing a match by a template with groups, and the functions compiled code uses.

  \<^bold>\<open>Audio\<close> (src/src/AudioDevice.cpp). \<open>Audio_Samples\<close>: limiting a sample, the wrappers and the choice of the mode, and
  \<open>audioCallback\<close> rendering sample by sample; that blocks in a row are seamless. \<open>Audio_Threads\<close>: the mode in which threads render and the
  callback mixes, as a step relation of the callback and the threads with their counters and the halves of the shared buffer. In every order of
  the steps the output is what one thread after the other would give, mixing and rendering never overlap, and the callback returns within a
  bound that is given.

  \<^bold>\<open>Numbers\<close> (src/src/Scheme.cpp). \<open>Doubles\<close>: IEEE arithmetic on bit patterns. \<open>Numbers\<close>: the struct
  \<open>num\<close>, rationals, the arithmetic operators. \<open>Numbers_Claims\<close>: exactness within the range of
  \<open>int64_t\<close>, canonical rationals, division, and the gaps.

  \<^bold>\<open>Zones\<close> (src/src/EXTZones.cpp): \<open>Zones\<close>, bump allocation with extension, the zone stack and the
  callback zone, over a byte map with the live blocks of the heap (sizes have 64 bits, but the constants of the
  alignment have 32, so that a request of 4 GB or more is cut: \<open>zone_request_truncated\<close>). \<^bold>\<open>Closure address table\<close>
  (src/src/EXTClosureAddressTable.cpp): \<open>Closure_Table\<close>. \<^bold>\<open>Scheduler\<close> (src/src/TaskScheduler.cpp,
  PriorityQueue.h): \<open>Scheduler\<close>, with the locale \<open>priority_queue\<close>, interpreted on the code's queue; a slice is a step relation between whose steps
  anyone may add tasks (\<open>sched_step\<close>), and \<open>slice_loop\<close> for tasks that are functions of the queue.
  \<^bold>\<open>Base 64\<close> (src/src/UNIV.cpp): \<open>Base64\<close>, with counters of 32 bits. \<^bold>\<open>Open Sound Control\<close> (src/src/OSC.cpp): \<open>Osc_Codec\<close> for the wire
  format, \<open>Osc_Message\<close> for messages, bundles and the Scheme calls made of them, \<open>Osc_Roundtrip\<close> for what
  is sent being received, \<open>Slip\<close> for the framing over TCP.

  \<^bold>\<open>Loops.\<close> Structural loops are \<open>fun\<close> or \<open>primrec\<close>. Loops over data that may be circular are
  \<open>partial_function (option)\<close>: no result is not returning, and the theorems about them state that there is a
  result. \<open>slice_loop\<close> and the loop over OSC bundles take fuel; the theorems say how much is enough. The order of execution in a
  slice is a theorem about runs of the step relation, whether or not they end.

  \<^bold>\<open>Parameters.\<close> Code outside the repository is an argument of the definitions that use it:
  \<open>malloc\<close> and \<open>posix_memalign\<close>, foreign functions and LLVM (\<open>k_foreign\<close>, \<open>k_llvm_env_set\<close>), the functions of
  libm (\<open>k_libm\<close>), regular expressions (\<open>exec\<close> of type \<open>matcher\<close>), the text of a machine address (\<open>k_pointer\<close>) and of a C++ exception (\<open>k_what\<close>), what a scheduled task does
  (\<open>exec\<close>), what a compiled callback does to the interpreter (\<open>native\<close>), the compiled functions that compute samples (\<open>dsp\<close>, \<open>cf_dsp\<close>, \<open>cf_mix\<close>), and what the system calls of the server return (\<open>syscalls\<close>).

  \<^bold>\<open>Not modelled.\<close> The LLVM interface and the other foreign functions for Scheme are bindings of libraries, and so is opening, starting and listing
  audio devices; the threads that render whole buffers are left out; threads and clocks are operating system calls, of which the handshake of the collector and the queue of a
  process have a logic of their own. Starting, connecting and stopping a process are left out. Of the interpreter,
  files loaded by other files, tracing, the debugger's registers, the positions in the source kept in cells (a macro
  that expands to a vector, whose length the code overwrites with such a position, has no result) and the text
  of an error message on the output port are left out; of the collector, code under \<open>TREADMILL_CHECKS\<close>.
\<close>

end
